(* ===== verification/Prelude.thy ===== *)
theory Prelude
  imports Main
begin

text \<open>
  Shared vocabulary of the development: results of fallible operations, the
  operations on database tables that every service uses (a table is the list of
  its rows, in insertion order), 32-bit column bounds, and the lemmas about them
  that the component theories share.
\<close>

section \<open>Names for the collections of facts\<close>

named_theorems table_simps \<open>rewrite rules for tables\<close>
named_theorems result_simps \<open>rewrite rules for results\<close>

section \<open>Results\<close>

text \<open>
  A handler that can throw returns \<open>Inl\<close> the error or \<open>Inr\<close> its value. A handler
  that runs in a transaction returns the new database with the value, so that an
  error carries no database at all: the transaction was rolled back.
\<close>

definition bind_res :: "'e + 'a \<Rightarrow> ('a \<Rightarrow> 'e + 'b) \<Rightarrow> 'e + 'b" where
  "bind_res r f = (case r of Inl e \<Rightarrow> Inl e | Inr a \<Rightarrow> f a)"

definition require :: "bool \<Rightarrow> 'e \<Rightarrow> 'e + 'a \<Rightarrow> 'e + 'a" where
  "require ok e k = (if ok then k else Inl e)"

definition is_ok :: "'e + 'a \<Rightarrow> bool" where
  "is_ok r = (case r of Inl _ \<Rightarrow> False | Inr _ \<Rightarrow> True)"

lemma bind_res_simps [simp]:
  "bind_res (Inl e) f = Inl e"
  "bind_res (Inr a) f = f a"
  by (simp_all add: bind_res_def)

lemma bind_res_Inr_iff [result_simps]:
  "bind_res r f = Inr b \<longleftrightarrow> (\<exists>a. r = Inr a \<and> f a = Inr b)"
  by (cases r) auto

lemma bind_res_Inl_iff [result_simps]:
  "bind_res r f = Inl e \<longleftrightarrow> r = Inl e \<or> (\<exists>a. r = Inr a \<and> f a = Inl e)"
  by (cases r) auto

lemma require_Inr_iff [result_simps]:
  "require ok e k = Inr b \<longleftrightarrow> ok \<and> k = Inr b"
  by (simp add: require_def)

lemma require_simps [simp]:
  "require True e k = k"
  "require False e k = Inl e"
  by (simp_all add: require_def)

lemma is_ok_simps [simp]:
  "is_ok (Inl e) = False"
  "is_ok (Inr a) = True"
  by (simp_all add: is_ok_def)

lemma is_ok_iff: "is_ok r \<longleftrightarrow> (\<exists>a. r = Inr a)"
  by (cases r) auto

section \<open>Tables\<close>

text \<open>
  \<open>update_where\<close> is Prisma's \<open>updateMany\<close>: it rewrites the rows that match and
  \<open>count_where\<close> is the number it reports. \<open>find_where\<close> is \<open>findFirst\<close> or, on a
  unique column, \<open>findUnique\<close>. \<open>delete_where\<close> is \<open>deleteMany\<close>.
\<close>

definition update_where :: "('r \<Rightarrow> bool) \<Rightarrow> ('r \<Rightarrow> 'r) \<Rightarrow> 'r list \<Rightarrow> 'r list" where
  "update_where p f rows = map (\<lambda>r. if p r then f r else r) rows"

definition count_where :: "('r \<Rightarrow> bool) \<Rightarrow> 'r list \<Rightarrow> nat" where
  "count_where p rows = length (filter p rows)"

definition find_where :: "('r \<Rightarrow> bool) \<Rightarrow> 'r list \<Rightarrow> 'r option" where
  "find_where p rows = find p rows"

definition delete_where :: "('r \<Rightarrow> bool) \<Rightarrow> 'r list \<Rightarrow> 'r list" where
  "delete_where p rows = filter (\<lambda>r. \<not> p r) rows"

lemma update_where_simps [simp, table_simps]:
  "update_where p f [] = []"
  "update_where p f (r # rows) = (if p r then f r else r) # update_where p f rows"
  by (simp_all add: update_where_def)

lemma update_where_append [simp]:
  "update_where p f (xs @ ys) = update_where p f xs @ update_where p f ys"
  by (simp add: update_where_def)

lemma length_update_where [simp]: "length (update_where p f rows) = length rows"
  by (simp add: update_where_def)

lemma set_update_where:
  "set (update_where p f rows) = {r \<in> set rows. \<not> p r} \<union> f ` {r \<in> set rows. p r}"
  by (auto simp: update_where_def)

lemma update_where_hit: "r \<in> set rows \<Longrightarrow> p r \<Longrightarrow> Q (f r) \<Longrightarrow> \<exists>x \<in> set (update_where p f rows). Q x"
  unfolding set_update_where by blast

lemma in_update_whereE:
  assumes "r \<in> set (update_where p f rows)"
  obtains r0 where "r0 \<in> set rows" "r = (if p r0 then f r0 else r0)"
  using assms by (auto simp: update_where_def)

lemma map_update_where [table_simps]:
  assumes "\<And>r. k (f r) = k r"
  shows "map k (update_where p f rows) = map k rows"
  using assms by (simp add: update_where_def)

lemma count_where_simps [simp, table_simps]:
  "count_where p [] = 0"
  "count_where p (r # rows) = (if p r then 1 else 0) + count_where p rows"
  by (simp_all add: count_where_def)

lemma count_where_append [simp]:
  "count_where p (xs @ ys) = count_where p xs + count_where p ys"
  by (simp add: count_where_def)

lemma count_where_0_iff [table_simps]:
  "count_where p rows = 0 \<longleftrightarrow> (\<forall>r \<in> set rows. \<not> p r)"
  by (auto simp: count_where_def filter_empty_conv)

lemma count_where_pos_iff [table_simps]:
  "0 < count_where p rows \<longleftrightarrow> (\<exists>r \<in> set rows. p r)"
  by (auto simp: count_where_def filter_empty_conv)

lemma count_where_mono:
  "(\<And>r. r \<in> set rows \<Longrightarrow> p r \<Longrightarrow> q r) \<Longrightarrow> count_where p rows \<le> count_where q rows"
  by (induction rows) (auto simp: le_SucI)

lemma count_where_cong:
  "(\<And>r. r \<in> set rows \<Longrightarrow> p r = q r) \<Longrightarrow> count_where p rows = count_where q rows"
  by (induction rows) auto

lemma count_where_update:
  "count_where q (update_where p f rows) =
     count_where (\<lambda>r. q (if p r then f r else r)) rows"
  by (induction rows) auto

lemma find_where_simps [simp, table_simps]:
  "find_where p [] = None"
  "find_where p (r # rows) = (if p r then Some r else find_where p rows)"
  by (simp_all add: find_where_def)

lemma find_where_SomeD:
  "find_where p rows = Some r \<Longrightarrow> r \<in> set rows \<and> p r"
  by (induction rows) (auto split: if_splits)

lemma find_where_None_iff [table_simps]:
  "find_where p rows = None \<longleftrightarrow> (\<forall>r \<in> set rows. \<not> p r)"
  by (induction rows) auto

lemma find_where_append:
  "find_where p (xs @ ys) =
     (case find_where p xs of Some r \<Rightarrow> Some r | None \<Rightarrow> find_where p ys)"
  by (induction xs) auto

text \<open>A row is the only one with its key in a table whose key column is unique.\<close>

lemma distinct_map_eq:
  "distinct (map k rows) \<Longrightarrow> r \<in> set rows \<Longrightarrow> r' \<in> set rows \<Longrightarrow> k r = k r' \<Longrightarrow> r = r'"
  by (auto simp: distinct_map inj_on_def)

lemma find_where_unique:
  assumes "distinct (map k rows)" "r \<in> set rows" "p r" "\<And>r'. p r' \<Longrightarrow> k r' = k r"
  shows "find_where p rows = Some r"
  using assms
proof (induction rows)
  case (Cons a rows)
  show ?case
  proof (cases "p a")
    case True
    with Cons.prems(4) have "k a = k r" by blast
    then have "a = r"
      using Cons.prems(1,2) by (metis distinct_map_eq list.set_intros(1))
    with True show ?thesis by simp
  next
    case False
    with Cons.prems(2,3) have r: "r \<in> set rows" by auto
    have "distinct (map k rows)" using Cons.prems(1) by simp
    then have "find_where p rows = Some r"
      using r Cons.prems(3,4) by (rule Cons.IH)
    with False show ?thesis by simp
  qed
qed simp

lemma find_where_update:
  assumes "\<And>r. q (f r) = q r"
  shows "find_where q (update_where p f rows) =
    map_option (\<lambda>r. if p r then f r else r) (find_where q rows)"
  using assms by (induction rows) auto

lemma set_delete_where [simp]: "set (delete_where p rows) = {r \<in> set rows. \<not> p r}"
  by (auto simp: delete_where_def)

lemma distinct_map_delete_where:
  "distinct (map k rows) \<Longrightarrow> distinct (map k (delete_where p rows))"
  by (induction rows) (auto simp: delete_where_def)

lemma count_where_unique_le:
  "distinct (map k rows) \<Longrightarrow> count_where (\<lambda>r. k r = x) rows \<le> 1"
proof (induction rows)
  case (Cons a rows)
  show ?case
  proof (cases "k a = x")
    case True
    with Cons.prems have "count_where (\<lambda>r. k r = x) rows = 0"
      by (auto simp: count_where_0_iff image_iff)
    then show ?thesis by simp
  next
    case False
    with Cons show ?thesis by simp
  qed
qed simp

lemma count_where_unique:
  "distinct (map k rows) \<Longrightarrow> r \<in> set rows \<Longrightarrow> p r \<Longrightarrow> (\<And>r'. p r' \<Longrightarrow> k r' = k r) \<Longrightarrow>
   count_where p rows = 1"
proof (induction rows)
  case (Cons a rows)
  show ?case
  proof (cases "a = r")
    case True
    have "\<not> p r'" if "r' \<in> set rows" for r'
      using Cons.prems(1) Cons.prems(4) [of r'] True that by (auto simp: image_iff)
    then have "count_where p rows = 0" by (simp add: count_where_0_iff)
    with True Cons.prems(3) show ?thesis by simp
  next
    case False
    with Cons.prems(2) have r: "r \<in> set rows" by simp
    have "\<not> p a"
      using Cons.prems(1) Cons.prems(4) [of a] r by (auto simp: image_iff)
    moreover have "distinct (map k rows)" using Cons.prems(1) by simp
    then have "count_where p rows = 1"
      using r Cons.prems(3,4) by (rule Cons.IH)
    ultimately show ?thesis by simp
  qed
qed simp

lemma count_where_at_most_one:
  "(\<And>r r'. r \<in> set rows \<Longrightarrow> r' \<in> set rows \<Longrightarrow> p r \<Longrightarrow> p r' \<Longrightarrow> r = r') \<Longrightarrow> distinct (map k rows) \<Longrightarrow>
   count_where p rows \<le> 1"
proof (induction rows)
  case (Cons a rows)
  show ?case
  proof (cases "p a")
    case True
    have "\<not> p r" if "r \<in> set rows" for r
      using Cons.prems(1) [of a r] Cons.prems(2) True that by auto
    then have "count_where p rows = 0" by (simp add: count_where_0_iff)
    then show ?thesis by simp
  next
    case False
    with Cons show ?thesis by simp
  qed
qed simp

section \<open>Columns of type \<open>Int\<close>\<close>

text \<open>
  A Prisma \<open>Int\<close> is PostgreSQL's 4-byte integer: a statement that would store a
  value outside its range fails, and with it the transaction.
\<close>

definition int4_max :: int where
  "int4_max = 2147483647"

definition int4 :: "int \<Rightarrow> bool" where
  "int4 n \<longleftrightarrow> - int4_max - 1 \<le> n \<and> n \<le> int4_max"

section \<open>Running operations\<close>

text \<open>
  A service is a family of transactional operations on one database. \<open>run_ops\<close> runs a
  list of them one after the other (the database serializes them); one that throws
  leaves the database as it was.
\<close>

fun run_ops :: "('op \<Rightarrow> 'db \<Rightarrow> 'e + ('r \<times> 'db)) \<Rightarrow> 'op list \<Rightarrow> 'db \<Rightarrow> 'db" where
  "run_ops exec [] db = db"
| "run_ops exec (x # xs) db =
     run_ops exec xs (case exec x db of Inl _ \<Rightarrow> db | Inr (_, db') \<Rightarrow> db')"

text \<open>
  What the callers and the random source guarantee about each operation may depend on the
  database it meets (an id drawn for it is unused, say).
\<close>

fun run_allowed ::
  "('op \<Rightarrow> 'db \<Rightarrow> 'e + ('r \<times> 'db)) \<Rightarrow> ('op \<Rightarrow> 'db \<Rightarrow> bool) \<Rightarrow> 'op list \<Rightarrow> 'db \<Rightarrow> bool" where
  "run_allowed exec allowed [] db = True"
| "run_allowed exec allowed (x # xs) db =
     (allowed x db \<and> run_allowed exec allowed xs
        (case exec x db of Inl _ \<Rightarrow> db | Inr (_, db') \<Rightarrow> db'))"

text \<open>
  The contract every such service promises: its operations keep its invariant. A
  client then has the invariant after any history of operations.
\<close>

locale transactional =
  fixes exec :: "'op \<Rightarrow> 'db \<Rightarrow> 'e + ('r \<times> 'db)"
    and allowed :: "'op \<Rightarrow> 'db \<Rightarrow> bool"
    and inv :: "'db \<Rightarrow> bool"
  assumes exec_inv: "allowed x db \<Longrightarrow> inv db \<Longrightarrow> exec x db = Inr (r, db') \<Longrightarrow> inv db'"
begin

lemma run_inv:
  "run_allowed exec allowed xs db \<Longrightarrow> inv db \<Longrightarrow> inv (run_ops exec xs db)"
proof (induction xs arbitrary: db)
  case (Cons x xs)
  have "inv (case exec x db of Inl _ \<Rightarrow> db | Inr (_, db') \<Rightarrow> db')"
    using Cons.prems exec_inv [of x db] by (auto split: sum.splits)
  with Cons show ?case by simp
qed simp

end

text \<open>
  A service that also never lowers a measured quantity of its database (a total of
  money, a set of keys).
\<close>

locale transactional_monotone = transactional +
  fixes quantity :: "'db \<Rightarrow> 'q::preorder"
  assumes exec_mono: "allowed x db \<Longrightarrow> inv db \<Longrightarrow> exec x db = Inr (r, db') \<Longrightarrow> quantity db \<le> quantity db'"
begin

lemma run_mono:
  "run_allowed exec allowed xs db \<Longrightarrow> inv db \<Longrightarrow> quantity db \<le> quantity (run_ops exec xs db)"
proof (induction xs arbitrary: db)
  case (Cons x xs)
  define db1 where "db1 = (case exec x db of Inl _ \<Rightarrow> db | Inr (_, db') \<Rightarrow> db')"
  have "inv db1 \<and> quantity db \<le> quantity db1"
    using Cons.prems exec_inv [of x db] exec_mono [of x db]
    by (auto simp: db1_def split: sum.splits)
  with Cons show ?case by (auto simp: db1_def [symmetric] intro: order_trans)
qed simp

end

lemma run_allowed_const:
  "list_all p xs \<Longrightarrow> run_allowed exec (\<lambda>x _. p x) xs db"
  by (induction xs arbitrary: db) auto

section \<open>Sums over tables\<close>

definition sum_where :: "('r \<Rightarrow> bool) \<Rightarrow> ('r \<Rightarrow> int) \<Rightarrow> 'r list \<Rightarrow> int" where
  "sum_where p f rows = sum_list (map f (filter p rows))"

lemma sum_where_simps [simp, table_simps]:
  "sum_where p f [] = 0"
  "sum_where p f (r # rows) = (if p r then f r else 0) + sum_where p f rows"
  by (simp_all add: sum_where_def)

lemma sum_where_append [simp]:
  "sum_where p f (xs @ ys) = sum_where p f xs + sum_where p f ys"
  by (simp add: sum_where_def)

lemma sum_where_none:
  "(\<And>r. r \<in> set rows \<Longrightarrow> \<not> p r) \<Longrightarrow> sum_where p f rows = 0"
  by (induction rows) auto

lemma sum_where_nonpos:
  "(\<And>r. r \<in> set rows \<Longrightarrow> p r \<Longrightarrow> f r \<le> 0) \<Longrightarrow> sum_where p f rows \<le> 0"
proof (induction rows)
  case (Cons r rows)
  then have "sum_where p f rows \<le> 0" by simp
  with Cons.prems show ?case by (auto simp: add_nonpos_nonpos)
qed simp

section \<open>Enumerated columns shared by several services\<close>

datatype user_status = ACTIVE | BANNED | DELETED

datatype friend_state = PENDING | ACCEPTED | REJECTED | WITHDRAWN

section \<open>Interleaving\<close>

text \<open>
  A handler makes several statements, and other requests act between them. What it relies on:
  whatever they do to a database with the invariant is a step of \<open>evol\<close>.
\<close>

definition relies :: "('d \<Rightarrow> 'd \<Rightarrow> bool) \<Rightarrow> ('d \<Rightarrow> bool) \<Rightarrow> (nat \<Rightarrow> 'd \<Rightarrow> 'd) \<Rightarrow> bool" where
  "relies evol ok others \<longleftrightarrow> (\<forall>k d. ok d \<longrightarrow> evol d (others k d))"

lemma relies_shift: "relies evol ok others \<Longrightarrow> relies evol ok (\<lambda>k. others (k + n))"
  and relies_Suc: "relies evol ok others \<Longrightarrow> relies evol ok (\<lambda>k. others (Suc k))"
  by (simp_all add: relies_def)

text \<open>Checks made one after the other, each on the database of its moment.\<close>

fun guards :: "('d \<Rightarrow> 'e + unit) list \<Rightarrow> (nat \<Rightarrow> 'd \<Rightarrow> 'd) \<Rightarrow> nat \<Rightarrow> 'd \<Rightarrow> ('e + nat) \<times> 'd" where
  "guards [] others k db = (Inr k, db)"
| "guards (g # gs) others k db =
     (case g db of Inl e \<Rightarrow> (Inl e, db) | Inr _ \<Rightarrow> guards gs others (Suc k) (others k db))"

locale interleaved =
  fixes evol :: "'d \<Rightarrow> 'd \<Rightarrow> bool" and inv :: "'d \<Rightarrow> bool"
  assumes evol_refl: "inv a \<Longrightarrow> evol a a"
    and evol_trans: "evol a b \<Longrightarrow> evol b c \<Longrightarrow> evol a c"
    and evol_inv: "evol a b \<Longrightarrow> inv b"
begin

lemma evol_then: "evol a b \<Longrightarrow> (inv b \<Longrightarrow> evol b c) \<Longrightarrow> evol a c"
  using evol_inv evol_trans by blast

lemma rely_first: "relies evol inv others \<Longrightarrow> inv a \<Longrightarrow> evol a (others k a)"
  by (simp add: relies_def)

lemma rely_step: "relies evol inv others \<Longrightarrow> evol a b \<Longrightarrow> evol a (others k b)"
  using evol_then rely_first by blast

lemma evol_guards: "relies evol inv others \<Longrightarrow> evol a b \<Longrightarrow> evol a (snd (guards gs others k b))"
  by (induction gs others k b rule: guards.induct) (auto simp: rely_step split: sum.split)

text \<open>A list of requests, each under its own interference.\<close>

lemma evol_fold_allowed:
  assumes exec: "\<And>others x d. relies evol inv others \<Longrightarrow> inv d \<Longrightarrow> ok x \<Longrightarrow> evol d (exec others x d)"
  shows "\<forall>(others, x) \<in> set rs. relies evol inv others \<and> ok x \<Longrightarrow> inv d \<Longrightarrow> evol d (fold (\<lambda>(others, x). exec others x) rs d)"
proof (induction rs arbitrary: d)
  case (Cons r rs)
  obtain others x where r: "r = (others, x)" by fastforce
  have 1: "evol d (exec others x d)" using Cons.prems r by (intro exec) auto
  have "evol (exec others x d) (fold (\<lambda>(others, x). exec others x) rs (exec others x d))"
    using Cons.prems evol_inv [OF 1] by (intro Cons.IH) auto
  with 1 show ?case by (auto simp: r intro: evol_trans)
qed (simp add: evol_refl)

lemma evol_fold:
  assumes "\<And>others x d. relies evol inv others \<Longrightarrow> inv d \<Longrightarrow> evol d (exec others x d)"
  shows "\<forall>(others, x) \<in> set rs. relies evol inv others \<Longrightarrow> inv d \<Longrightarrow> evol d (fold (\<lambda>(others, x). exec others x) rs d)"
  using evol_fold_allowed [of "\<lambda>x. True" exec rs d] assms by simp

end

text \<open>A check that fails on all databases with a stable property refuses the request.\<close>

lemma guards_refuse:
  "P d \<Longrightarrow> (\<And>k d. P d \<Longrightarrow> P (others k d)) \<Longrightarrow> g \<in> set gs \<Longrightarrow> (\<And>d. P d \<Longrightarrow> \<exists>e. g d = Inl e) \<Longrightarrow>
   \<exists>e. fst (guards gs others k d) = Inl e"
proof (induction gs others k d rule: guards.induct)
  case (2 h gs others k db)
  show ?case
  proof (cases "h db")
    case (Inl e)
    then show ?thesis by simp
  next
    case (Inr x)
    with "2.prems" have "g \<in> set gs" by fastforce
    with 2 Inr show ?thesis by simp
  qed
qed simp

section \<open>Programs\<close>

text \<open>
  A longer job as a program over a state, with exceptions: what it did before an exception stays. A
  \<open>statement\<close> is one round trip to the database: others act first, and the network may lose the request or the
  answer. The state carries the number of statements made.
\<close>

datatype attempt_outcome = Arrives | NotSent | ReplyLost

type_synonym ('s, 'e, 'a) prog = "'s \<Rightarrow> ('e + 'a) \<times> 's"

definition done_with :: "'a \<Rightarrow> ('s, 'e, 'a) prog" where
  "done_with a s = (Inr a, s)"

definition and_then :: "('s, 'e, 'a) prog \<Rightarrow> ('a \<Rightarrow> ('s, 'e, 'b) prog) \<Rightarrow> ('s, 'e, 'b) prog" where
  "and_then m f s = (case m s of (Inl e, s') \<Rightarrow> (Inl e, s') | (Inr a, s') \<Rightarrow> f a s')"

definition on_error :: "('s, 'e, 'a) prog \<Rightarrow> ('e \<Rightarrow> ('s, 'e, 'a) prog) \<Rightarrow> ('s, 'e, 'a) prog" where
  "on_error m h s = (case m s of (Inl e, s') \<Rightarrow> h e s' | (Inr a, s') \<Rightarrow> (Inr a, s'))"

fun for_each :: "('x \<Rightarrow> ('s, 'e, unit) prog) \<Rightarrow> 'x list \<Rightarrow> ('s, 'e, unit) prog" where
  "for_each f [] = done_with ()"
| "for_each f (x # xs) = and_then (f x) (\<lambda>_. for_each f xs)"

definition statement ::
  "(nat \<Rightarrow> attempt_outcome) \<Rightarrow> (nat \<Rightarrow> 'd \<Rightarrow> 'd) \<Rightarrow> 'e \<Rightarrow> (nat \<Rightarrow> 'd \<Rightarrow> 'e + ('a \<times> 'd)) \<Rightarrow> (nat \<times> 'd, 'e, 'a) prog" where
  "statement outcome others lost f s =
     (let k = fst s; d = others k (snd s)
      in case outcome k of
           NotSent \<Rightarrow> (Inl lost, (Suc k, d))
         | Arrives \<Rightarrow> (case f k d of Inl e \<Rightarrow> (Inl e, (Suc k, d)) | Inr (a, d') \<Rightarrow> (Inr a, (Suc k, d')))
         | ReplyLost \<Rightarrow> (Inl lost, (Suc k, case f k d of Inl _ \<Rightarrow> d | Inr (_, d') \<Rightarrow> d')))"

text \<open>\<open>runs P m Q E\<close>: from a state with \<open>P\<close> the program ends in \<open>Q\<close> or, by an exception, in \<open>E\<close>.\<close>

definition runs :: "('s \<Rightarrow> bool) \<Rightarrow> ('s, 'e, 'a) prog \<Rightarrow> ('a \<Rightarrow> 's \<Rightarrow> bool) \<Rightarrow> ('s \<Rightarrow> bool) \<Rightarrow> bool" where
  "runs P m Q E \<longleftrightarrow> (\<forall>s. P s \<longrightarrow> (case m s of (Inl _, s') \<Rightarrow> E s' | (Inr a, s') \<Rightarrow> Q a s'))"

lemma runs_done: "(\<And>s. P s \<Longrightarrow> Q a s) \<Longrightarrow> runs P (done_with a) Q E"
  by (simp add: runs_def done_with_def)

lemma runs_then: "runs P m R E \<Longrightarrow> (\<And>a. runs (R a) (f a) Q E) \<Longrightarrow> runs P (and_then m f) Q E"
  by (fastforce simp: runs_def and_then_def split: prod.splits sum.splits)

lemma runs_catch: "runs P m Q R \<Longrightarrow> (\<And>e. runs R (h e) Q E) \<Longrightarrow> runs P (on_error m h) Q E"
  by (fastforce simp: runs_def on_error_def split: prod.splits sum.splits)

lemma runs_weaken:
  assumes "runs P m Q E" "\<And>s. P' s \<Longrightarrow> P s" "\<And>a s. Q a s \<Longrightarrow> Q' a s" "\<And>s. E s \<Longrightarrow> E' s"
  shows "runs P' m Q' E'"
  unfolding runs_def
proof (intro allI impI)
  fix s assume "P' s"
  with assms(1,2) have "case m s of (Inl _, s') \<Rightarrow> E s' | (Inr a, s') \<Rightarrow> Q a s'" by (simp add: runs_def)
  with assms(3,4) show "case m s of (Inl _, s') \<Rightarrow> E' s' | (Inr a, s') \<Rightarrow> Q' a s'"
    by (auto split: prod.splits sum.splits)
qed

lemma runs_ex:
  assumes "\<And>x. runs (P x) m Q E"
  shows "runs (\<lambda>s. \<exists>x. P x s) m Q E"
  unfolding runs_def
proof (intro allI impI)
  fix s assume "\<exists>x. P x s"
  then obtain x where "P x s" by blast
  with assms [of x] show "case m s of (Inl _, s') \<Rightarrow> E s' | (Inr a, s') \<Rightarrow> Q a s'" by (simp add: runs_def)
qed

lemma runs_assume: "(C \<Longrightarrow> runs P m Q E) \<Longrightarrow> runs (\<lambda>s. C \<and> P s) m Q E"
  by (simp add: runs_def)

lemma and_then_done: "and_then m done_with = m"
  by (rule ext) (simp add: and_then_def done_with_def split: prod.split sum.split)

lemma runs_end:
  assumes "runs P m (\<lambda>_. R) R" "P s"
  shows "R (snd (m s))"
  using assms by (cases "m s") (fastforce simp: runs_def split: sum.splits)

lemma runs_choose: "(\<And>x. runs P (m x) Q E) \<Longrightarrow> runs P (\<lambda>s. m (g s) s) Q E"
  by (simp add: runs_def)

lemma runs_if: "(c \<Longrightarrow> runs P m Q E) \<Longrightarrow> (\<not> c \<Longrightarrow> runs P n Q E) \<Longrightarrow> runs P (if c then m else n) Q E"
  by simp

lemma runs_for_each:
  "(\<And>x. x \<in> set xs \<Longrightarrow> runs P (f x) (\<lambda>_. P) E) \<Longrightarrow> runs P (for_each f xs) (\<lambda>_. P) E"
  by (induction xs) (auto intro: runs_done runs_then)

text \<open>
  An assertion about the database that others keep. Without losses (\<open>lossy\<close> false) only the statement's own errors
  remain.
\<close>

lemma runs_statement:
  assumes "\<And>k d. P d \<Longrightarrow> P (others k d)"
    and "\<And>k d. P d \<Longrightarrow> (case f k d of Inl _ \<Rightarrow> E d | Inr (a, d') \<Rightarrow> Q a d' \<and> (lossy \<longrightarrow> E d'))"
    and "\<And>d. lossy \<Longrightarrow> P d \<Longrightarrow> E d" "lossy \<or> (\<forall>k. outcome k = Arrives)"
  shows "runs (\<lambda>s. P (snd s)) (statement outcome others lost f) (\<lambda>a s. Q a (snd s)) (\<lambda>s. E (snd s))"
  unfolding runs_def
proof (intro allI impI)
  fix s :: "nat \<times> 'a" assume "P (snd s)"
  then have P: "P (others (fst s) (snd s))" by (rule assms(1))
  show "case statement outcome others lost f s of (Inl _, s') \<Rightarrow> E (snd s') | (Inr a, s') \<Rightarrow> Q a (snd s')"
    using assms(2) [OF P, of "fst s"] assms(3) [OF _ P] assms(4)
    by (cases "outcome (fst s)"; cases "f (fst s) (others (fst s) (snd s))") (auto simp: statement_def Let_def)
qed

end
