(* ===== verification/KeyedTables.thy ===== *)
theory KeyedTables
  imports Prelude
begin

text \<open>
  Tables with a key column, seen as maps from the key: what updates, insertions and deletions do to the map, and unique
  nullable columns.
\<close>

text \<open>A row found by its key after an update, an insertion and a deletion.\<close>

lemma lookup_update_one:
  assumes "distinct (map k rows)" "\<And>r. k (f r) = k r" "count_where p rows = 1" "\<And>r. p r \<Longrightarrow> k r = x"
  shows "\<exists>r. find_where (\<lambda>r. k r = x) rows = Some r \<and> p r
    \<and> (\<lambda>y. find_where (\<lambda>r. k r = y) (update_where p f rows)) = (\<lambda>y. find_where (\<lambda>r. k r = y) rows)(x \<mapsto> f r)"
proof -
  obtain r where r: "r \<in> set rows" "p r"
    using assms(3) count_where_pos_iff [of p rows] by auto
  have x: "k r = x" using assms(4) r(2) by blast
  have found: "find_where (\<lambda>r. k r = x) rows = Some r"
    by (rule find_where_unique [where k = k]) (use assms(1) r x in auto)
  have only: "r' = r" if "r' \<in> set rows" "p r'" for r'
    using distinct_map_eq [OF assms(1) that(1) r(1)] assms(4) [OF that(2)] x by simp
  have "find_where (\<lambda>r. k r = y) (update_where p f rows) = (if y = x then Some (f r) else find_where (\<lambda>r. k r = y) rows)" for y
  proof -
    have eq: "find_where (\<lambda>r. k r = y) (update_where p f rows)
        = map_option (\<lambda>r. if p r then f r else r) (find_where (\<lambda>r. k r = y) rows)"
      by (rule find_where_update) (simp add: assms(2))
    show ?thesis
    proof (cases "y = x")
      case True
      then show ?thesis using eq found r(2) by simp
    next
      case False
      have "\<not> p r'" if "find_where (\<lambda>r. k r = y) rows = Some r'" for r'
        using find_where_SomeD [OF that] only x False by blast
      then show ?thesis using eq False by (cases "find_where (\<lambda>r. k r = y) rows") auto
    qed
  qed
  with found r(2) show ?thesis by auto
qed

lemma update_where_none: "count_where p rows = 0 \<Longrightarrow> update_where p f rows = rows"
  by (induction rows) (auto split: if_splits)

lemma count_where_key:
  "distinct (map k rows) \<Longrightarrow> (\<And>r. p r \<Longrightarrow> k r = x) \<Longrightarrow>
   count_where p rows = (case find_where (\<lambda>r. k r = x) rows of None \<Rightarrow> 0 | Some r \<Rightarrow> if p r then 1 else 0)"
proof (cases "find_where (\<lambda>r. k r = x) rows")
  case None
  assume "\<And>r. p r \<Longrightarrow> k r = x"
  with None have "count_where p rows = 0" unfolding count_where_0_iff find_where_None_iff by blast
  with None show ?thesis by simp
next
  case (Some r)
  assume d: "distinct (map k rows)" and p: "\<And>r. p r \<Longrightarrow> k r = x"
  have r: "r \<in> set rows" "k r = x" using find_where_SomeD [OF Some] by auto
  show ?thesis
  proof (cases "p r")
    case True
    have "count_where p rows = 1" by (rule count_where_unique [where k = k and r = r]) (use d r(1) True p r(2) in auto)
    with Some True show ?thesis by simp
  next
    case False
    have "\<not> p r'" if "r' \<in> set rows" for r'
      using distinct_map_eq [OF d that r(1)] p [of r'] r(2) False by metis
    then have "count_where p rows = 0" by (simp add: count_where_0_iff)
    with Some False show ?thesis by simp
  qed
qed

lemma lookup_snoc:
  "find_where (\<lambda>r. k r = k x) rows = None \<Longrightarrow>
   (\<lambda>y. find_where (\<lambda>r. k r = y) (rows @ [x])) = (\<lambda>y. find_where (\<lambda>r. k r = y) rows)(k x \<mapsto> x)"
  by (rule ext) (auto simp: find_where_append split: option.split)

lemma distinct_snoc:
  "distinct (map k rows) \<Longrightarrow> find_where (\<lambda>r. k r = k x) rows = None \<Longrightarrow> distinct (map k (rows @ [x]))"
  by (auto simp: find_where_None_iff)

lemma lookup_in: "distinct (map k rows) \<Longrightarrow> r \<in> set rows \<Longrightarrow> find_where (\<lambda>x. k x = k r) rows = Some r"
  by (rule find_where_unique [where k = k]) auto

text \<open>A unique nullable column: no value occurs twice.\<close>

definition unique_column :: "('r \<Rightarrow> 'k option) \<Rightarrow> 'r list \<Rightarrow> bool" where
  "unique_column col rows \<longleftrightarrow> distinct (List.map_filter col rows)"

text \<open>In terms of the key.\<close>

lemma unique_columnI:
  assumes "distinct (map k rows)"
    and "\<And>x y a b c. find_where (\<lambda>r. k r = x) rows = Some a \<Longrightarrow> find_where (\<lambda>r. k r = y) rows = Some b \<Longrightarrow>
       col a = Some c \<Longrightarrow> col b = Some c \<Longrightarrow> x = y"
  shows "unique_column col rows"
proof -
  have pair: "k a = k b" if "a \<in> set rows" "b \<in> set rows" "col a = Some c" "col b = Some c" for a b c
    using assms(2) [OF lookup_in [OF assms(1) that(1)] lookup_in [OF assms(1) that(2)] that(3,4)] .
  have "distinct (List.map_filter col xs)" if "distinct (map k xs)" "set xs \<subseteq> set rows" for xs
    using that
  proof (induction xs)
    case (Cons x xs)
    have "c \<notin> set (List.map_filter col xs)" if c: "col x = Some c" for c
    proof
      assume "c \<in> set (List.map_filter col xs)"
      then obtain y where y: "y \<in> set xs" "col y = Some c" by (auto simp: List.map_filter_def)
      have "k x = k y" by (rule pair) (use Cons.prems y c in auto)
      with y Cons.prems(1) show False by (auto simp: image_iff)
    qed
    with Cons show ?case by (auto simp: List.map_filter_simps split: option.split)
  qed (simp add: List.map_filter_simps)
  with assms(1) show ?thesis by (auto simp: unique_column_def)
qed

lemma unique_columnD:
  assumes "unique_column col rows" "find_where (\<lambda>r. k r = x) rows = Some a" "find_where (\<lambda>r. k r = y) rows = Some b"
    and "col a = Some c" "col b = Some c" "distinct (map k rows)"
  shows "x = y"
proof (rule ccontr)
  assume "x \<noteq> y"
  have a: "a \<in> set rows" "k a = x" and b: "b \<in> set rows" "k b = y"
    using find_where_SomeD [OF assms(2)] find_where_SomeD [OF assms(3)] by auto
  then have ab: "a \<noteq> b" using \<open>x \<noteq> y\<close> by blast
  have "\<not> distinct (List.map_filter col xs)" if "a \<in> set xs" "b \<in> set xs" for xs
    using that
  proof (induction xs)
    case (Cons z zs)
    have mem: "c \<in> set (List.map_filter col zs)" if "a \<in> set zs \<or> b \<in> set zs"
      using that assms(4,5) by (force simp: List.map_filter_def)
    show ?case using Cons ab mem assms(4,5) by (auto simp: List.map_filter_simps split: option.split)
  qed simp
  with a b assms(1) show False by (auto simp: unique_column_def)
qed


text \<open>A deletion of rows under one key.\<close>

lemma lookup_delete:
  assumes "distinct (map k rows)" "\<And>r. p r \<Longrightarrow> k r = x"
  shows "(\<lambda>y. find_where (\<lambda>r. k r = y) (delete_where p rows)) = (\<lambda>y. find_where (\<lambda>r. k r = y) rows)
    (x := (case find_where (\<lambda>r. k r = x) rows of None \<Rightarrow> None | Some r \<Rightarrow> if p r then None else Some r))"
  using assms(1)
proof (induction rows)
  case (Cons r rows)
  then have ih: "find_where (\<lambda>r. k r = y) (delete_where p rows) = (if y = x then (case find_where (\<lambda>r. k r = x) rows of None \<Rightarrow> None
      | Some r \<Rightarrow> if p r then None else Some r) else find_where (\<lambda>r. k r = y) rows)" for y
    by (metis (mono_tags, lifting) distinct.simps(2) fun_upd_apply list.simps(9))
  have none: "find_where (\<lambda>s. k s = k r) rows = None" using Cons.prems by (auto simp: find_where_None_iff image_iff)
  show ?case
  proof (rule ext)
    fix y
    have "find_where (\<lambda>s. k s = y) (delete_where p (r # rows)) = (if p r then find_where (\<lambda>s. k s = y) (delete_where p rows)
        else if k r = y then Some r else find_where (\<lambda>s. k s = y) (delete_where p rows))"
      by (simp add: delete_where_def)
    then show "find_where (\<lambda>s. k s = y) (delete_where p (r # rows)) = ((\<lambda>y. find_where (\<lambda>r. k r = y) (r # rows))
      (x := (case find_where (\<lambda>r. k r = x) (r # rows) of None \<Rightarrow> None | Some r \<Rightarrow> if p r then None else Some r))) y"
      using assms(2) [of r] none unfolding ih by auto
  qed
qed (simp add: delete_where_def)

lemma distinct_delete: "distinct (map k rows) \<Longrightarrow> distinct (map k (delete_where p rows))"
  by (simp add: delete_where_def distinct_map_filter)

lemma unique_column_delete: "unique_column col rows \<Longrightarrow> unique_column col (delete_where p rows)"
proof -
  assume u: "unique_column col rows"
  have "set (List.map_filter col (filter q xs)) \<subseteq> set (List.map_filter col xs)" for q xs by (auto simp: List.map_filter_def)
  then have "distinct (List.map_filter col xs) \<Longrightarrow> distinct (List.map_filter col (filter q xs))" for q xs
    by (induction xs) (auto simp: List.map_filter_simps split: option.splits)
  with u show ?thesis by (simp add: unique_column_def delete_where_def)
qed

end
