(* ===== verification/TxRetry.thy ===== *)
theory TxRetry
  imports Prelude Complex_Main
begin

text \<open>
  The serializable-transaction runner of \<open>src/utils/prisma-tx.ts\<close>: which database
  errors are retried, how long a retry waits, and the retry loop itself. The
  transaction body is the argument \<open>attempt\<close>, indexed by the number of the attempt
  because each attempt meets a different database.
\<close>

section \<open>Definitions\<close>

text \<open>
  What the body can throw. \<open>KnownRequest\<close> is Prisma's known request error with its
  code and the SQLSTATE of the driver error, when there is one; \<open>CodedObject\<close> is any
  other object with a \<open>code\<close> field (a string or not); \<open>OtherThrown\<close> is everything
  else.
\<close>

datatype 'e thrown =
    KnownRequest string "string option"
  | CodedObject "string option" "string option"
  | OtherThrown 'e

definition DEFAULT_MAX_ATTEMPTS :: nat where
  "DEFAULT_MAX_ATTEMPTS = 5"

definition DEFAULT_BASE_DELAY_MS :: nat where
  "DEFAULT_BASE_DELAY_MS = 25"

definition DEFAULT_MAX_DELAY_MS :: nat where
  "DEFAULT_MAX_DELAY_MS = 1000"

text \<open>\<open>Math.random\<close> is the argument \<open>rnd\<close>, a rational with \<open>0 \<le> rnd < 1\<close>.\<close>

definition serializableRetryDelayMs :: "rat \<Rightarrow> nat \<Rightarrow> nat \<Rightarrow> nat \<Rightarrow> int" where
  "serializableRetryDelayMs rnd n baseDelayMs maxDelayMs =
     (let window = of_nat (min maxDelayMs (baseDelayMs * 2 ^ (n - 1))) :: rat
      in \<lfloor>window / 2 + rnd * (window / 2 + 1)\<rfloor>)"

fun prismaErrorCode :: "'e thrown \<Rightarrow> string option" where
  "prismaErrorCode (KnownRequest code _) = Some code"
| "prismaErrorCode (CodedObject code _) = code"
| "prismaErrorCode (OtherThrown _) = None"

fun original_sqlstate :: "'e thrown \<Rightarrow> string option" where
  "original_sqlstate (KnownRequest _ st) = st"
| "original_sqlstate (CodedObject _ st) = st"
| "original_sqlstate (OtherThrown _) = None"

definition RETRYABLE_SQLSTATES :: "string list" where
  "RETRYABLE_SQLSTATES = [''40001'', ''40P01'']"

definition isRetryableTransactionError :: "'e thrown \<Rightarrow> bool" where
  "isRetryableTransactionError err =
     (let code = prismaErrorCode err in
      if code = Some ''P2034'' then True
      else if code \<noteq> Some ''P2010'' \<and> code \<noteq> Some ''P2039'' then False
      else (case original_sqlstate err of
              None \<Rightarrow> False
            | Some st \<Rightarrow> st \<in> set RETRYABLE_SQLSTATES))"

text \<open>
  The loop from attempt \<open>n\<close> on, with \<open>left\<close> attempts still allowed (the loop variable
  runs from 1 to \<open>maxAttempts\<close>). The result is paired with the list of delays slept.
  With no attempt allowed the code throws its own error, the argument \<open>exhausted\<close>.
\<close>

fun retry_loop ::
  "'e \<Rightarrow> (nat \<Rightarrow> rat) \<Rightarrow> nat \<Rightarrow> nat \<Rightarrow> (nat \<Rightarrow> 'e thrown + 'a) \<Rightarrow> nat \<Rightarrow> nat
   \<Rightarrow> ('e thrown + 'a) \<times> int list" where
  "retry_loop exhausted rnd baseD maxD attempt n 0 = (Inl (OtherThrown exhausted), [])"
| "retry_loop exhausted rnd baseD maxD attempt n (Suc left) =
     (case attempt n of
        Inr a \<Rightarrow> (Inr a, [])
      | Inl err \<Rightarrow>
          if isRetryableTransactionError err \<and> left > 0
          then (let d = serializableRetryDelayMs (rnd n) n baseD maxD;
                    (r, ds) = retry_loop exhausted rnd baseD maxD attempt (Suc n) left
                in (r, d # ds))
          else (Inl err, []))"

definition runSerializableTransaction ::
  "'e \<Rightarrow> (nat \<Rightarrow> rat) \<Rightarrow> nat option \<Rightarrow> nat option \<Rightarrow> nat option
   \<Rightarrow> (nat \<Rightarrow> 'e thrown + 'a) \<Rightarrow> ('e thrown + 'a) \<times> int list" where
  "runSerializableTransaction exhausted rnd maxAttempts baseDelayMs maxDelayMs attempt =
     retry_loop exhausted rnd
       (case baseDelayMs of Some b \<Rightarrow> b | None \<Rightarrow> DEFAULT_BASE_DELAY_MS)
       (case maxDelayMs of Some m \<Rightarrow> m | None \<Rightarrow> DEFAULT_MAX_DELAY_MS)
       attempt 1
       (case maxAttempts of Some m \<Rightarrow> m | None \<Rightarrow> DEFAULT_MAX_ATTEMPTS)"

section \<open>Delays\<close>

lemma half_window_bounds:
  fixes w r :: rat
  assumes "0 \<le> r" "r < 1" "0 \<le> w"
  shows "w / 2 \<le> w / 2 + r * (w / 2 + 1)" "w / 2 + r * (w / 2 + 1) < w + 1"
proof -
  show "w / 2 \<le> w / 2 + r * (w / 2 + 1)" using assms by simp
  have "r * (w / 2 + 1) < 1 * (w / 2 + 1)"
    using assms by (intro mult_strict_right_mono) auto
  then show "w / 2 + r * (w / 2 + 1) < w + 1" by (simp add: field_simps)
qed

lemma serializableRetryDelayMs_bounds:
  assumes "0 \<le> rnd" "rnd < 1"
  shows "int (min maxD (baseD * 2 ^ (n - 1))) \<le> 2 * serializableRetryDelayMs rnd n baseD maxD + 1"
    and "serializableRetryDelayMs rnd n baseD maxD \<le> int (min maxD (baseD * 2 ^ (n - 1)))"
proof -
  define N where "N = min maxD (baseD * 2 ^ (n - 1))"
  define w :: rat where "w = of_nat N"
  define d where "d = \<lfloor>w / 2 + rnd * (w / 2 + 1)\<rfloor>"
  have d: "serializableRetryDelayMs rnd n baseD maxD = d"
    by (simp add: serializableRetryDelayMs_def d_def w_def N_def Let_def)
  have w: "0 \<le> w" by (simp add: w_def)
  note b = half_window_bounds [OF assms w]
  have "\<lfloor>w / 2\<rfloor> \<le> d" unfolding d_def by (rule floor_mono) (rule b(1))
  moreover have "w / 2 < of_int \<lfloor>w / 2\<rfloor> + 1" by linarith
  ultimately have "w < 2 * of_int d + 2" by linarith
  then have "int N < 2 * d + 2" unfolding w_def
    by (metis (no_types, opaque_lifting) of_int_add of_int_less_iff of_int_mult of_int_numeral of_int_of_nat_eq)
  then show "int (min maxD (baseD * 2 ^ (n - 1))) \<le> 2 * serializableRetryDelayMs rnd n baseD maxD + 1"
    unfolding d N_def [symmetric] by simp
  have "d < int N + 1" unfolding d_def floor_less_iff
    using b(2) by (simp add: w_def)
  then show "serializableRetryDelayMs rnd n baseD maxD \<le> int (min maxD (baseD * 2 ^ (n - 1)))"
    unfolding d N_def [symmetric] by simp
qed

section \<open>The loop\<close>

lemma retry_loop_outcome:
  assumes "retry_loop ex rnd b m attempt n left = (r, ds)" "left > 0"
  shows "\<exists>k < left. r = attempt (n + k) \<and> length ds = k
    \<and> (\<forall>j < k. \<exists>err. attempt (n + j) = Inl err \<and> isRetryableTransactionError err)
    \<and> (\<forall>err. r = Inl err \<and> isRetryableTransactionError err \<longrightarrow> Suc k = left)"
  using assms
proof (induction left arbitrary: n ds)
  case (Suc left)
  show ?case
  proof (cases "\<exists>err. attempt n = Inl err \<and> isRetryableTransactionError err \<and> left > 0")
    case False
    with Suc.prems have "r = attempt n \<and> ds = []"
      by (auto split: sum.splits if_splits)
    with False show ?thesis by (intro exI [of _ 0]) auto
  next
    case True
    then obtain err ds' where err: "attempt n = Inl err" "isRetryableTransactionError err" "left > 0"
      and rec: "retry_loop ex rnd b m attempt (Suc n) left = (r, ds')" and ds: "length ds = Suc (length ds')"
      using Suc.prems by (auto simp: Let_def split: prod.splits)
    obtain k where k: "k < left" "r = attempt (Suc n + k)" "length ds' = k"
      "\<forall>j < k. \<exists>err. attempt (Suc n + j) = Inl err \<and> isRetryableTransactionError err"
      "\<forall>err. r = Inl err \<and> isRetryableTransactionError err \<longrightarrow> Suc k = left"
      using Suc.IH [OF rec err(3)] by blast
    have "\<exists>err. attempt (n + j) = Inl err \<and> isRetryableTransactionError err" if "j < Suc k" for j
      using that err k(4) by (cases j) auto
    with k ds show ?thesis by (intro exI [of _ "Suc k"]) auto
  qed
qed simp

lemma retry_loop_delays:
  assumes "retry_loop ex rnd b m attempt n left = (r, ds)" "\<And>i. 0 \<le> rnd i \<and> rnd i < 1"
  shows "sum_list ds \<le> (\<Sum>i = n..<n + (left - 1). int (min m (b * 2 ^ (i - 1)))) \<and>
    (\<forall>d \<in> set ds. 0 \<le> d)"
  using assms(1)
proof (induction left arbitrary: n ds)
  case (Suc left)
  have nonneg: "0 \<le> (\<Sum>i = n..<n + left. int (min m (b * 2 ^ (i - 1))))"
    by (rule sum_nonneg) simp
  show ?case
  proof (cases "\<exists>err. attempt n = Inl err \<and> isRetryableTransactionError err \<and> left > 0")
    case False
    with Suc.prems have "ds = []" by (auto split: sum.splits if_splits)
    with nonneg show ?thesis by simp
  next
    case True
    then obtain ds' where left: "left > 0"
      and rec: "retry_loop ex rnd b m attempt (Suc n) left = (r, ds')"
      and ds: "ds = serializableRetryDelayMs (rnd n) n b m # ds'"
      using Suc.prems by (auto simp: Let_def split: prod.splits)
    have bnd: "int (min m (b * 2 ^ (n - 1))) \<le> 2 * serializableRetryDelayMs (rnd n) n b m + 1"
      "serializableRetryDelayMs (rnd n) n b m \<le> int (min m (b * 2 ^ (n - 1)))"
      by (rule serializableRetryDelayMs_bounds; use assms(2) in blast)+
    have ih: "sum_list ds' \<le> (\<Sum>i = Suc n..<Suc n + (left - 1). int (min m (b * 2 ^ (i - 1))))"
      "\<forall>d \<in> set ds'. 0 \<le> d"
      using Suc.IH [OF rec] by blast+
    have "(\<Sum>i = n..<n + left. int (min m (b * 2 ^ (i - 1)))) =
      int (min m (b * 2 ^ (n - 1))) + (\<Sum>i = Suc n..<Suc n + (left - 1). int (min m (b * 2 ^ (i - 1))))"
      using left by (simp add: sum.atLeast_Suc_lessThan)
    with ih bnd ds show ?thesis by auto
  qed
qed simp

text \<open>
  When only the database's own failures (\<open>aborts n\<close>, a serialization failure or deadlock of
  attempt \<open>n\<close>) are retryable, the attempt whose outcome stands is known in advance: the first one
  the database lets through or fails for good, or the last one allowed.
\<close>

fun final_attempt :: "(nat \<Rightarrow> 'e thrown option) \<Rightarrow> nat \<Rightarrow> nat \<Rightarrow> nat" where
  "final_attempt aborts n 0 = n"
| "final_attempt aborts n (Suc left) =
     (case aborts n of
        Some err \<Rightarrow> if isRetryableTransactionError err then final_attempt aborts (Suc n) left else n
      | None \<Rightarrow> n)"

definition last_try :: "(nat \<Rightarrow> 'e thrown option) \<Rightarrow> nat" where
  "last_try aborts = final_attempt aborts 1 (DEFAULT_MAX_ATTEMPTS - 1)"

lemma final_attempt_ge: "n \<le> final_attempt aborts n left"
  by (induction left arbitrary: n) (auto split: option.split dest: order_trans [OF le_SucI] Suc_leD)

lemma retry_loop_final:
  assumes "\<And>n err. attempt n = Inl err \<Longrightarrow> isRetryableTransactionError err \<Longrightarrow> aborts n = Some err"
    and "\<And>n err. aborts n = Some err \<Longrightarrow> attempt n = Inl err"
  shows "retry_loop ex rnd b m attempt n (Suc left) = (r, ds) \<Longrightarrow>
    r = attempt (final_attempt aborts n left) \<and> n + length ds = final_attempt aborts n left"
proof (induction left arbitrary: n ds)
  case 0
  then show ?case by (auto split: sum.splits if_splits)
next
  case (Suc left)
  show ?case
  proof (cases "\<exists>err. attempt n = Inl err \<and> isRetryableTransactionError err")
    case True
    then obtain err where err: "attempt n = Inl err" "isRetryableTransactionError err" by blast
    obtain ds' where rest: "retry_loop ex rnd b m attempt (Suc n) (Suc left) = (r, ds')"
      and ds: "length ds = Suc (length ds')"
    proof -
      obtain r' ds' where rest: "retry_loop ex rnd b m attempt (Suc n) (Suc left) = (r', ds')" by fastforce
      have "(r, ds) = (r', serializableRetryDelayMs (rnd n) n b m # ds')"
        using Suc.prems unfolding retry_loop.simps(2) [of _ _ _ _ _ _ "Suc left"]
        by (simp add: err rest Let_def del: retry_loop.simps)
      with rest that show ?thesis by simp
    qed
    show ?thesis using Suc.IH [OF rest] assms(1) [OF err] err(2) ds by simp
  next
    case False
    then have "r = attempt n \<and> ds = []" using Suc.prems by (auto split: sum.splits)
    moreover have "final_attempt aborts n (Suc left) = n"
      using False assms(2) by (auto split: option.split)
    ultimately show ?thesis by simp
  qed
qed

lemma runSerializableTransaction_final:
  assumes "\<And>n err. attempt n = Inl err \<Longrightarrow> isRetryableTransactionError err \<Longrightarrow> aborts n = Some err"
    and "\<And>n err. aborts n = Some err \<Longrightarrow> attempt n = Inl err"
    and "runSerializableTransaction ex rnd None b d attempt = (r, ds)"
  shows "r = attempt (last_try aborts)" "Suc (length ds) = last_try aborts"
proof -
  have "retry_loop ex rnd (case b of Some b \<Rightarrow> b | None \<Rightarrow> DEFAULT_BASE_DELAY_MS)
      (case d of Some m \<Rightarrow> m | None \<Rightarrow> DEFAULT_MAX_DELAY_MS) attempt 1 (Suc (DEFAULT_MAX_ATTEMPTS - 1)) = (r, ds)"
    using assms(3)
    by (simp only: runSerializableTransaction_def option.case DEFAULT_MAX_ATTEMPTS_def numeral_eq_Suc
        pred_numeral_simps diff_Suc_1)
  note * = retry_loop_final [where attempt = attempt and aborts = aborts, OF assms(1,2) this, folded last_try_def]
  show "r = attempt (last_try aborts)" using * by (rule conjunct1)
  show "Suc (length ds) = last_try aborts" using conjunct2 [OF *] by (simp only: plus_1_eq_Suc)
qed

section \<open>What the runner promises\<close>

text \<open>
  C22: with at least one attempt allowed, the runner returns the outcome of one of its attempts: it
  stops at the first attempt that succeeds or fails for good, it retries only after a
  serialization failure or deadlock, it makes at most \<open>maxAttempts\<close> attempts and sleeps
  once between two of them; a retryable error comes back only from the last attempt.
\<close>

theorem retry_returns_first_final_outcome:
  assumes "runSerializableTransaction ex rnd (Some m) b d attempt = (r, ds)" "m > 0"
  shows "\<exists>k < m. r = attempt (1 + k) \<and> length ds = k
    \<and> (\<forall>j < k. \<exists>err. attempt (1 + j) = Inl err \<and> isRetryableTransactionError err)
    \<and> (\<forall>err. r = Inl err \<and> isRetryableTransactionError err \<longrightarrow> Suc k = m)"
  using assms unfolding runSerializableTransaction_def option.case
  by (rule retry_loop_outcome)

definition demo_attempt :: "nat \<Rightarrow> nat thrown + nat" where
  "demo_attempt n = (if n < 3 then Inl (KnownRequest ''P2010'' (Some ''40001'')) else Inr n)"

theorem retry_returns_first_final_outcome_witness:
  "\<exists>k < 5. fst (runSerializableTransaction 0 (\<lambda>_. 0) (Some 5) None None demo_attempt) = demo_attempt (1 + k)"
proof -
  obtain r ds where run: "runSerializableTransaction 0 (\<lambda>_. 0) (Some 5) None None demo_attempt = (r, ds)"
    by fastforce
  obtain k where "k < 5" "r = demo_attempt (1 + k)"
    using retry_returns_first_final_outcome [OF run zero_less_numeral] by blast
  then show ?thesis unfolding run fst_conv by blast
qed

lemma retry_backoff_bounded_parts:
  assumes "runSerializableTransaction ex rnd None None None attempt = (r, ds)"
    and "\<And>i. 0 \<le> rnd i \<and> rnd i < 1"
  shows "sum_list ds \<le> 375" "\<forall>x \<in> set ds. 0 \<le> x" "length ds \<le> 4"
proof -
  have run: "retry_loop ex rnd 25 1000 attempt 1 5 = (r, ds)"
    using assms(1) by (simp add: runSerializableTransaction_def DEFAULT_MAX_ATTEMPTS_def
        DEFAULT_BASE_DELAY_MS_def DEFAULT_MAX_DELAY_MS_def)
  have d: "sum_list ds \<le> (\<Sum>i = 1..<1 + (5 - 1::nat). int (min 1000 (25 * 2 ^ (i - 1))))
    \<and> (\<forall>x \<in> set ds. 0 \<le> x)"
    by (rule retry_loop_delays [OF run assms(2)])
  have "{1..<1 + (5 - 1::nat)} = {1, 2, 3, 4}" by auto
  then have "(\<Sum>i = 1..<1 + (5 - 1::nat). int (min 1000 (25 * 2 ^ (i - 1)))) = 375"
    by simp
  with d show "sum_list ds \<le> 375" by linarith
  show "\<forall>x \<in> set ds. 0 \<le> x" using d by blast
  have "\<exists>k < 5. length ds = k" using retry_loop_outcome [OF run zero_less_numeral] by blast
  then show "length ds \<le> 4" by simp
qed

text \<open>
  with the default settings the waits of one call add up to at most 375 ms; there are at most
  four of them and none is negative.
\<close>

lemma retry_backoff_bounded:
  assumes "runSerializableTransaction ex rnd None None None attempt = (r, ds)"
    and "\<And>i. 0 \<le> rnd i \<and> rnd i < 1"
  shows "sum_list ds \<le> 375 \<and> (\<forall>x \<in> set ds. 0 \<le> x) \<and> length ds \<le> 4"
  by (intro conjI retry_backoff_bounded_parts [OF assms])

end
