(* ===== verification/ChatStore.thy ===== *)
theory ChatStore
  imports Prelude "HOL-Library.Char_ord" "HOL-Library.List_Lexorder"
begin

text \<open>
  The message store of \<open>src/chat/\<close>: conversations with their height counter, seats
  and messages, and the server-side writers of
  \<open>chat-system-message.service.ts\<close> (\<open>insertServerMessage\<close>,
  \<open>insertSystemMessageInTx\<close>, \<open>emit\<close>), with the settlement
  path of \<open>chat.service.ts\<close> that opens a direct conversation. Every message gets
  the next height of its conversation under the row lock, and a client key
  makes a retried write reuse the stored message.
\<close>

section \<open>Data\<close>

datatype conversation_type = DIRECT | GROUP | TEMP | SUPPORT

text \<open>Message bodies: a transfer card, or any other JSON object as its fields.\<close>

datatype content =
    TransferCard int "string option"
  | JsonFields "(string \<times> string) list"

record conversation =
  cv_id :: string
  cv_type :: conversation_type
  cv_directKey :: "string option"
  cv_nextHeight :: nat
  cv_lastMessageAt :: "int option"

record member =
  mb_conv :: string
  mb_user :: string
  mb_hiddenAt :: "int option"
  mb_leftAt :: "int option"

record message =
  ms_id :: string
  ms_conv :: string
  ms_height :: nat
  ms_sender :: "string option"
  ms_type :: string
  ms_content :: content
  ms_clientId :: "string option"
  ms_createdAt :: int

record chat_db =
  convs :: "conversation list"
  members :: "member list"
  msgs :: "message list"

datatype chat_error =
    ConversationNotFound
  | ChatUniqueViolation
  | GuardRejected
  | NotDelivered

record server_input =
  si_sender :: "string option"
  si_type :: string
  si_content :: content
  si_clientId :: "string option"
  si_push :: bool
  si_rebroadcast :: bool

section \<open>Operations\<close>

definition SYSTEM_MESSAGE_TYPE :: string where
  "SYSTEM_MESSAGE_TYPE = ''system''"

definition find_conv :: "string \<Rightarrow> chat_db \<Rightarrow> conversation option" where
  "find_conv c db = find_where (\<lambda>v. cv_id v = c) (convs db)"

text \<open>
  The columns' unique constraints: a second message with the same conversation and
  height, or with the same conversation, sender and client key (both present), or
  with the same id, is refused.
\<close>

definition message_clash :: "message \<Rightarrow> chat_db \<Rightarrow> bool" where
  "message_clash m db \<longleftrightarrow> (\<exists>x \<in> set (msgs db).
     ms_id x = ms_id m
     \<or> (ms_conv x = ms_conv m \<and> ms_height x = ms_height m)
     \<or> (ms_conv x = ms_conv m \<and> ms_sender x = ms_sender m \<and> ms_clientId x = ms_clientId m
        \<and> ms_sender m \<noteq> None \<and> ms_clientId m \<noteq> None))"

text \<open>
  The three writes that both writers make once they hold the row lock and know the
  next height: the message, the counter with the time of the last message, and the
  seats that had hidden the conversation.
\<close>

definition write_message :: "message \<Rightarrow> chat_db \<Rightarrow> chat_error + chat_db" where
  "write_message m db =
     (if message_clash m db then Inl ChatUniqueViolation
      else Inr (db\<lparr>
        msgs := msgs db @ [m],
        convs := update_where (\<lambda>v. cv_id v = ms_conv m)
          (\<lambda>v. v\<lparr>cv_nextHeight := ms_height m, cv_lastMessageAt := Some (ms_createdAt m)\<rparr>) (convs db),
        members := update_where (\<lambda>b. mb_conv b = ms_conv m \<and> mb_hiddenAt b \<noteq> None)
          (\<lambda>b. b\<lparr>mb_hiddenAt := None\<rparr>) (members db)\<rparr>))"

definition bounded_client_id :: "(string \<Rightarrow> string) \<Rightarrow> string option \<Rightarrow> string option" where
  "bounded_client_id sha256hex k =
     (case k of
        None \<Rightarrow> None
      | Some s \<Rightarrow> if s \<noteq> '''' \<and> length s > 128 then Some (sha256hex s) else Some s)"

text \<open>
  The transaction of \<open>insertServerMessage\<close>: lock the conversation row, run the
  caller's guard, reuse the message stored under the same client key, or write the
  next one. An empty client key or sender counts as absent, as the code's truth
  tests do. The result is the row and whether it was reused.
\<close>

definition insertServerMessage_tx ::
  "(string \<Rightarrow> string) \<Rightarrow> int \<Rightarrow> string \<Rightarrow> (chat_db \<Rightarrow> chat_error + unit) \<Rightarrow> string \<Rightarrow> server_input
   \<Rightarrow> chat_db \<Rightarrow> chat_error + ((message \<times> bool) \<times> chat_db)" where
  "insertServerMessage_tx sha256hex now freshId guard c inp db =
     (let key = bounded_client_id sha256hex (si_clientId inp);
          keyed = (case (key, si_sender inp) of
                     (Some k, Some u) \<Rightarrow> k \<noteq> '''' \<and> u \<noteq> '''' | _ \<Rightarrow> False)
      in case find_conv c db of
           None \<Rightarrow> Inl ConversationNotFound
         | Some v \<Rightarrow>
             bind_res (guard db) (\<lambda>_.
               case (if keyed
                     then find_where (\<lambda>x. ms_conv x = c \<and> ms_sender x = si_sender inp
                                          \<and> ms_clientId x = key) (msgs db)
                     else None) of
                 Some x \<Rightarrow> Inr ((x, True), db)
               | None \<Rightarrow>
                   let m = \<lparr>ms_id = freshId, ms_conv = c, ms_height = cv_nextHeight v + 1,
                            ms_sender = si_sender inp, ms_type = si_type inp,
                            ms_content = si_content inp,
                            ms_clientId = (if keyed then key else None), ms_createdAt = now\<rparr>
                   in bind_res (write_message m db) (\<lambda>db'. Inr ((m, False), db'))))"

text \<open>
  The answer: id, height, type, client key and time of the stored row, with the content
  of the request (sender names and revision are not modelled). After the commit a new
  message, or a reused one whose caller asked for it, is broadcast, and only a new one is
  pushed. The flags say what is sent.
\<close>

record chat_dto =
  dt_id :: string
  dt_conversation :: string
  dt_height :: nat
  dt_type :: string
  dt_content :: content
  dt_d :: "string option"
  dt_createdAt :: int

definition message_dto :: "string \<Rightarrow> message \<Rightarrow> server_input \<Rightarrow> chat_dto" where
  "message_dto c row inp =
     \<lparr>dt_id = ms_id row, dt_conversation = c, dt_height = ms_height row, dt_type = ms_type row,
      dt_content = si_content inp, dt_d = ms_clientId row, dt_createdAt = ms_createdAt row\<rparr>"

record delivery =
  dl_row :: message
  dl_dto :: chat_dto
  dl_broadcast :: bool
  dl_push :: bool

text \<open>The committed half: the transaction and what it is about to answer and send.\<close>

definition storeServerMessage ::
  "(string \<Rightarrow> string) \<Rightarrow> int \<Rightarrow> string \<Rightarrow> (chat_db \<Rightarrow> chat_error + unit) \<Rightarrow> string \<Rightarrow> server_input
   \<Rightarrow> chat_db \<Rightarrow> chat_error + (delivery \<times> chat_db)" where
  "storeServerMessage sha256hex now freshId guard c inp db =
     bind_res (insertServerMessage_tx sha256hex now freshId guard c inp db)
       (\<lambda>((row, reused), db').
          let bc = (\<not> reused \<or> si_rebroadcast inp)
          in Inr (\<lparr>dl_row = row, dl_dto = message_dto c row inp, dl_broadcast = bc,
                   dl_push = (bc \<and> \<not> reused \<and> si_push inp)\<rparr>, db'))"

text \<open>
  The whole method. Signing the media URLs and the broadcast come after the commit and can
  fail (\<open>sent\<close> says whether they went through for this answer): then the method throws
  although the message is stored.
\<close>

definition insertServerMessage ::
  "(delivery \<Rightarrow> bool) \<Rightarrow> (string \<Rightarrow> string) \<Rightarrow> int \<Rightarrow> string \<Rightarrow> (chat_db \<Rightarrow> chat_error + unit)
   \<Rightarrow> string \<Rightarrow> server_input \<Rightarrow> chat_db \<Rightarrow> (chat_error + delivery) \<times> chat_db" where
  "insertServerMessage sent sha256hex now freshId guard c inp db =
     (case storeServerMessage sha256hex now freshId guard c inp db of
        Inl e \<Rightarrow> (Inl e, db)
      | Inr (d, db') \<Rightarrow> (if sent d then Inr d else Inl NotDelivered, db'))"

definition insertSystemMessageAfterLocked ::
  "int \<Rightarrow> string \<Rightarrow> string \<Rightarrow> nat \<Rightarrow> content \<Rightarrow> chat_db \<Rightarrow> chat_error + (message \<times> chat_db)" where
  "insertSystemMessageAfterLocked now freshId c lockedNextHeight body db =
     (let m = \<lparr>ms_id = freshId, ms_conv = c, ms_height = lockedNextHeight + 1, ms_sender = None,
               ms_type = SYSTEM_MESSAGE_TYPE, ms_content = body, ms_clientId = None,
               ms_createdAt = now\<rparr>
      in bind_res (write_message m db) (\<lambda>db'. Inr (m, db')))"

definition insertSystemMessageInTx ::
  "int \<Rightarrow> string \<Rightarrow> string \<Rightarrow> content \<Rightarrow> chat_db \<Rightarrow> chat_error + (message \<times> chat_db)" where
  "insertSystemMessageInTx now freshId c body db =
     (case find_conv c db of
        None \<Rightarrow> Inl ConversationNotFound
      | Some v \<Rightarrow> insertSystemMessageAfterLocked now freshId c (cv_nextHeight v) body db)"

text \<open>\<open>emit\<close> swallows every failure: the message is lost and nothing is broadcast.\<close>

definition emit :: "int \<Rightarrow> string \<Rightarrow> string \<Rightarrow> content \<Rightarrow> chat_db \<Rightarrow> message list \<times> chat_db" where
  "emit now freshId c body db =
     (case insertSystemMessageInTx now freshId c body db of
        Inl _ \<Rightarrow> ([], db)
      | Inr (m, db') \<Rightarrow> ([m], db'))"

definition directKey :: "string \<Rightarrow> string \<Rightarrow> string" where
  "directKey a b = (let (low, high) = (if a < b then (a, b) else (b, a)) in low @ '':'' @ high)"

definition find_direct :: "string \<Rightarrow> chat_db \<Rightarrow> conversation option" where
  "find_direct k db = find_where (\<lambda>v. cv_directKey v = Some k) (convs db)"

definition create_direct :: "string \<Rightarrow> string \<Rightarrow> string \<Rightarrow> chat_db \<Rightarrow> chat_error + chat_db" where
  "create_direct freshId a b db =
     (if find_direct (directKey a b) db \<noteq> None \<or> find_conv freshId db \<noteq> None \<or> a = b
      then Inl ChatUniqueViolation
      else Inr (db\<lparr>
        convs := convs db @ [\<lparr>cv_id = freshId, cv_type = DIRECT, cv_directKey = Some (directKey a b),
                              cv_nextHeight = 0, cv_lastMessageAt = None\<rparr>],
        members := members db @ [\<lparr>mb_conv = freshId, mb_user = a, mb_hiddenAt = None, mb_leftAt = None\<rparr>,
                                 \<lparr>mb_conv = freshId, mb_user = b, mb_hiddenAt = None, mb_leftAt = None\<rparr>]\<rparr>))"

text \<open>
  The lookup and the insert are two statements outside a transaction: \<open>others\<close> is what
  other requests do to the database between them. A lost race falls back to the
  conversation the winner made. (Joining the sockets of both users to the room
  afterwards is best effort and not modelled.)
\<close>

definition ensureDirectConversationForSettlement ::
  "(chat_db \<Rightarrow> chat_db) \<Rightarrow> string \<Rightarrow> string \<Rightarrow> string \<Rightarrow> chat_db \<Rightarrow> chat_db \<times> (chat_error + string)" where
  "ensureDirectConversationForSettlement others freshId userId peerUserId db =
     (case find_direct (directKey userId peerUserId) db of
        Some v \<Rightarrow> (db, Inr (cv_id v))
      | None \<Rightarrow>
          let db1 = others db in
          (case create_direct freshId userId peerUserId db1 of
            Inr db2 \<Rightarrow> (db2, Inr freshId)
          | Inl e \<Rightarrow>
              (case find_direct (directKey userId peerUserId) db1 of
                 Some v \<Rightarrow> (db1, Inr (cv_id v))
               | None \<Rightarrow> (db1, Inl e))))"

text \<open>The transactions of this store, as operations a client can issue.\<close>

datatype chat_op =
    ServerMessage int string "chat_db \<Rightarrow> chat_error + unit" string server_input
  | SystemMessage int string string content
  | OpenDirect string string string

fun chat_exec :: "(string \<Rightarrow> string) \<Rightarrow> chat_op \<Rightarrow> chat_db \<Rightarrow> chat_error + (unit \<times> chat_db)" where
  "chat_exec h (ServerMessage now i g c inp) db =
     bind_res (storeServerMessage h now i g c inp db) (\<lambda>(_, db'). Inr ((), db'))"
| "chat_exec h (SystemMessage now i c body) db =
     bind_res (insertSystemMessageInTx now i c body db) (\<lambda>(_, db'). Inr ((), db'))"
| "chat_exec h (OpenDirect i a b) db = bind_res (create_direct i a b db) (\<lambda>db'. Inr ((), db'))"

section \<open>The invariant\<close>

text \<open>
  The heights of a conversation's messages, in the order of writing, are exactly
  \<open>1, 2, \<dots>, nextHeight\<close>: no gap, no repetition, no reordering. Ids, direct keys
  and client keys are unique, and every message belongs to a conversation.
\<close>

definition keyed_message :: "message \<Rightarrow> bool" where
  "keyed_message m \<longleftrightarrow> ms_sender m \<noteq> None \<and> ms_clientId m \<noteq> None"

definition message_key :: "message \<Rightarrow> string \<times> string option \<times> string option" where
  "message_key m = (ms_conv m, ms_sender m, ms_clientId m)"

definition heights :: "string \<Rightarrow> chat_db \<Rightarrow> nat list" where
  "heights c db = map ms_height (filter (\<lambda>m. ms_conv m = c) (msgs db))"

definition has_direct_key :: "conversation \<Rightarrow> bool" where
  "has_direct_key v \<longleftrightarrow> cv_directKey v \<noteq> None"

definition chat_inv :: "chat_db \<Rightarrow> bool" where
  "chat_inv db \<longleftrightarrow>
     distinct (map cv_id (convs db))
     \<and> distinct (map cv_directKey (filter has_direct_key (convs db)))
     \<and> distinct (map ms_id (msgs db))
     \<and> distinct (map message_key (filter keyed_message (msgs db)))
     \<and> (\<forall>m \<in> set (msgs db). \<exists>v \<in> set (convs db). cv_id v = ms_conv m)
     \<and> (\<forall>v \<in> set (convs db). heights (cv_id v) db = [1..<Suc (cv_nextHeight v)])"

lemma chat_inv_ids: "chat_inv db \<Longrightarrow> distinct (map cv_id (convs db))"
  and chat_inv_direct: "chat_inv db \<Longrightarrow>
    distinct (map cv_directKey (filter has_direct_key (convs db)))"
  and chat_inv_msg_ids: "chat_inv db \<Longrightarrow> distinct (map ms_id (msgs db))"
  and chat_inv_keys: "chat_inv db \<Longrightarrow> distinct (map message_key (filter keyed_message (msgs db)))"
  and chat_inv_home: "chat_inv db \<Longrightarrow> m \<in> set (msgs db) \<Longrightarrow> \<exists>v \<in> set (convs db). cv_id v = ms_conv m"
  and chat_inv_heights: "chat_inv db \<Longrightarrow> v \<in> set (convs db) \<Longrightarrow>
    heights (cv_id v) db = [1..<Suc (cv_nextHeight v)]"
  by (auto simp: chat_inv_def)

lemma find_conv_SomeD: "find_conv c db = Some v \<Longrightarrow> v \<in> set (convs db) \<and> cv_id v = c"
  unfolding find_conv_def by (drule find_where_SomeD) auto

lemma find_direct_SomeD:
  "find_direct k db = Some v \<Longrightarrow> v \<in> set (convs db) \<and> cv_directKey v = Some k"
  unfolding find_direct_def by (drule find_where_SomeD) auto

lemma map_counter_update:
  "map cv_id (update_where p (\<lambda>v. v\<lparr>cv_nextHeight := h, cv_lastMessageAt := t\<rparr>) cs) = map cv_id cs"
  "map cv_directKey (filter has_direct_key
     (update_where p (\<lambda>v. v\<lparr>cv_nextHeight := h, cv_lastMessageAt := t\<rparr>) cs))
   = map cv_directKey (filter has_direct_key cs)"
  by (induction cs) (auto simp: has_direct_key_def)

lemma heights_snoc:
  "heights c (db\<lparr>msgs := msgs db @ [m], convs := cs, members := bs\<rparr>) =
   heights c db @ (if ms_conv m = c then [ms_height m] else [])"
  by (simp add: heights_def)

text \<open>One write keeps the invariant when the height is the counter's successor.\<close>

lemma write_message_inv:
  assumes inv: "chat_inv db" and v: "find_conv (ms_conv m) db = Some v"
    and h: "ms_height m = cv_nextHeight v + 1"
    and w: "write_message m db = Inr db'"
  shows "chat_inv db'"
proof -
  note vD = find_conv_SomeD [OF v]
  have clash: "\<not> message_clash m db"
    and db': "db' = db\<lparr>msgs := msgs db @ [m],
        convs := update_where (\<lambda>v. cv_id v = ms_conv m)
          (\<lambda>v. v\<lparr>cv_nextHeight := ms_height m, cv_lastMessageAt := Some (ms_createdAt m)\<rparr>) (convs db),
        members := update_where (\<lambda>b. mb_conv b = ms_conv m \<and> mb_hiddenAt b \<noteq> None)
          (\<lambda>b. b\<lparr>mb_hiddenAt := None\<rparr>) (members db)\<rparr>"
    using w by (auto simp: write_message_def split: if_splits)
  have ids: "distinct (map ms_id (msgs db'))"
    using clash chat_inv_msg_ids [OF inv] by (auto simp: db' message_clash_def)
  have keys: "distinct (map message_key (filter keyed_message (msgs db')))"
    using clash chat_inv_keys [OF inv]
    by (auto simp: db' message_clash_def message_key_def keyed_message_def)
  have home: "\<exists>v \<in> set (convs db'). cv_id v = ms_conv x" if "x \<in> set (msgs db')" for x
  proof -
    have "x = m \<or> x \<in> set (msgs db)" using that by (auto simp: db')
    then have "\<exists>v \<in> set (convs db). cv_id v = ms_conv x"
      using vD chat_inv_home [OF inv, of x] by auto
    then have "ms_conv x \<in> set (map cv_id (convs db))" by (metis image_eqI list.set_map)
    also have "map cv_id (convs db) = map cv_id (convs db')"
      by (simp add: db' map_counter_update)
    finally show ?thesis by auto
  qed
  have hts: "heights (cv_id u) db' = [1..<Suc (cv_nextHeight u)]" if "u \<in> set (convs db')" for u
  proof -
    from that obtain u0 where u0: "u0 \<in> set (convs db)"
      and u: "u = (if cv_id u0 = ms_conv m
        then u0\<lparr>cv_nextHeight := ms_height m, cv_lastMessageAt := Some (ms_createdAt m)\<rparr> else u0)"
      unfolding db' by (auto elim: in_update_whereE)
    have old: "heights (cv_id u0) db = [1..<Suc (cv_nextHeight u0)]"
      by (rule chat_inv_heights [OF inv u0])
    show ?thesis
    proof (cases "cv_id u0 = ms_conv m")
      case True
      then have "u0 = v"
        using distinct_map_eq [OF chat_inv_ids [OF inv] u0] vD by auto
      with True u old h vD show ?thesis
        by (simp add: db' heights_snoc)
    next
      case False
      with u old show ?thesis by (simp add: db' heights_snoc)
    qed
  qed
  show ?thesis
    unfolding chat_inv_def
    using chat_inv_ids [OF inv] chat_inv_direct [OF inv] ids keys home hts
    by (simp add: db' map_counter_update)
qed

text \<open>The row lock makes the constraint on heights unreachable: only an id or key can clash.\<close>

lemma next_height_free:
  assumes inv: "chat_inv db" and v: "find_conv c db = Some v" and x: "x \<in> set (msgs db)" "ms_conv x = c"
  shows "ms_height x \<le> cv_nextHeight v"
proof -
  note vD = find_conv_SomeD [OF v]
  have "ms_height x \<in> set (heights c db)" using x by (auto simp: heights_def)
  also have "heights c db = [1..<Suc (cv_nextHeight v)]"
    using chat_inv_heights [OF inv] vD by blast
  finally show ?thesis by (simp del: upt.simps)
qed

lemma insertServerMessage_tx_cases:
  assumes "insertServerMessage_tx h now i g c inp db = Inr ((row, reused), db')"
  obtains (reuse) "reused" "db' = db" "row \<in> set (msgs db)" "ms_conv row = c"
      "ms_sender row = si_sender inp" "ms_clientId row = bounded_client_id h (si_clientId inp)"
  | (fresh) v where "\<not> reused" "find_conv c db = Some v" "write_message row db = Inr db'"
      "ms_conv row = c" "ms_height row = cv_nextHeight v + 1" "ms_id row = i"
      "ms_sender row = si_sender inp"
  using assms
  by (fastforce simp: insertServerMessage_tx_def Let_def result_simps
      split: option.splits if_splits dest: find_where_SomeD)

lemma insertServerMessage_tx_inv:
  assumes "chat_inv db" "insertServerMessage_tx h now i g c inp db = Inr ((row, reused), db')"
  shows "chat_inv db'"
  using assms(2)
proof (cases rule: insertServerMessage_tx_cases)
  case reuse
  with assms show ?thesis by simp
next
  case (fresh v)
  with assms(1) show ?thesis by (auto intro: write_message_inv)
qed

lemma storeServerMessage_Inr_iff:
  "storeServerMessage h now i g c inp db = Inr (d, db') \<longleftrightarrow>
   (\<exists>row reused. insertServerMessage_tx h now i g c inp db = Inr ((row, reused), db')
     \<and> d = \<lparr>dl_row = row, dl_dto = message_dto c row inp, dl_broadcast = (\<not> reused \<or> si_rebroadcast inp),
            dl_push = ((\<not> reused \<or> si_rebroadcast inp) \<and> \<not> reused \<and> si_push inp)\<rparr>)"
  by (auto simp: storeServerMessage_def result_simps Let_def split: prod.splits)

lemma insertSystemMessageInTx_inv:
  assumes "chat_inv db" "insertSystemMessageInTx now i c body db = Inr (m, db')"
  shows "chat_inv db'"
  using assms
  by (auto simp: insertSystemMessageInTx_def insertSystemMessageAfterLocked_def Let_def result_simps
      split: option.splits elim!: write_message_inv dest: find_conv_SomeD)

lemma create_direct_inv:
  assumes inv: "chat_inv db" and c: "create_direct i a b db = Inr db'"
  shows "chat_inv db'"
proof -
  have fresh: "find_direct (directKey a b) db = None" "find_conv i db = None"
    and db': "db' = db\<lparr>
        convs := convs db @ [\<lparr>cv_id = i, cv_type = DIRECT, cv_directKey = Some (directKey a b),
                              cv_nextHeight = 0, cv_lastMessageAt = None\<rparr>],
        members := members db @ [\<lparr>mb_conv = i, mb_user = a, mb_hiddenAt = None, mb_leftAt = None\<rparr>,
                                 \<lparr>mb_conv = i, mb_user = b, mb_hiddenAt = None, mb_leftAt = None\<rparr>]\<rparr>"
    using c by (auto simp: create_direct_def split: if_splits)
  have no_id: "\<forall>v \<in> set (convs db). cv_id v \<noteq> i"
    using fresh(2) by (auto simp: find_conv_def find_where_None_iff)
  have no_key: "\<forall>v \<in> set (convs db). cv_directKey v \<noteq> Some (directKey a b)"
    using fresh(1) by (auto simp: find_direct_def find_where_None_iff)
  have "filter (\<lambda>m. ms_conv m = i) (msgs db) = []"
    using no_id chat_inv_home [OF inv] by (fastforce simp: filter_empty_conv)
  then have new: "heights i db = []" by (simp add: heights_def)
  have hts: "heights c db' = heights c db" for c
    by (simp add: heights_def db')
  show ?thesis
    using inv no_id no_key new unfolding chat_inv_def hts
    by (auto simp: db' image_iff has_direct_key_def simp del: upt.simps)
qed

interpretation chat_tx: transactional "chat_exec h" "\<lambda>_ _. True" chat_inv
proof
  fix x db r db'
  assume "chat_inv db" "chat_exec h x db = Inr (r, db')"
  then show "chat_inv db'"
    by (cases x)
       (auto simp: result_simps storeServerMessage_Inr_iff
         intro: insertServerMessage_tx_inv insertSystemMessageInTx_inv create_direct_inv)
qed

section \<open>What the writers promise\<close>

lemma message_clash_free:
  assumes inv: "chat_inv db" and v: "find_conv (ms_conv m) db = Some v"
    and h: "ms_height m = cv_nextHeight v + 1"
    and i: "\<forall>x \<in> set (msgs db). ms_id x \<noteq> ms_id m"
    and k: "\<forall>x \<in> set (msgs db). ms_conv x = ms_conv m \<and> ms_sender x = ms_sender m
      \<and> ms_clientId x = ms_clientId m \<longrightarrow> ms_sender m = None \<or> ms_clientId m = None"
  shows "\<not> message_clash m db"
proof
  assume "message_clash m db"
  then obtain x where x: "x \<in> set (msgs db)" "ms_conv x = ms_conv m" "ms_height x = ms_height m"
    using i k by (fastforce simp: message_clash_def)
  have "ms_height x \<le> cv_nextHeight v" by (rule next_height_free [OF inv v x(1,2)])
  with x h show False by simp
qed

text \<open>What a committed write leaves under the client key, and what the next one finds there.\<close>

lemma stored_under_key:
  assumes "insertServerMessage_tx h now i g c inp db = Inr ((row, reused), db')"
    and "si_sender inp = Some u" "u \<noteq> ''''"
    and "bounded_client_id h (si_clientId inp) = Some kk" "kk \<noteq> ''''"
  shows "find_where (\<lambda>x. ms_conv x = c \<and> ms_sender x = Some u \<and> ms_clientId x = Some kk) (msgs db') = Some row"
    and "find_conv c db' \<noteq> None"
    and "row \<in> set (msgs db')"
    and "if reused then db' = db
         else ms_type row = si_type inp \<and> ms_content row = si_content inp \<and> msgs db' = msgs db @ [row]"
proof -
  let ?hit = "\<lambda>x. ms_conv x = c \<and> ms_sender x = Some u \<and> ms_clientId x = Some kk"
  obtain v where v: "find_conv c db = Some v"
    using assms(1) by (auto simp: insertServerMessage_tx_def Let_def result_simps split: option.splits)
  have "find_where ?hit (msgs db') = Some row \<and> find_conv c db' \<noteq> None \<and> row \<in> set (msgs db')
    \<and> (if reused then db' = db
       else ms_type row = si_type inp \<and> ms_content row = si_content inp \<and> msgs db' = msgs db @ [row])"
  proof (cases "find_where ?hit (msgs db)")
    case (Some x)
    with assms v show ?thesis
      by (auto simp: insertServerMessage_tx_def Let_def result_simps dest: find_where_SomeD)
  next
    case None
    with assms v have m: "write_message row db = Inr db'" "\<not> reused"
      "ms_conv row = c" "ms_sender row = Some u" "ms_clientId row = Some kk"
      "ms_type row = si_type inp" "ms_content row = si_content inp"
      by (auto simp: insertServerMessage_tx_def Let_def result_simps)
    have "find_conv c db' \<noteq> None"
      using m(1) v
      by (auto simp: write_message_def find_conv_def find_where_update split: if_splits)
    moreover have "msgs db' = msgs db @ [row]"
      using m(1) by (auto simp: write_message_def split: if_splits)
    moreover have "find_where ?hit (msgs db @ [row]) = Some row"
      using m None by (simp add: find_where_append)
    ultimately show ?thesis using m by simp
  qed
  then show "find_where ?hit (msgs db') = Some row" "find_conv c db' \<noteq> None" "row \<in> set (msgs db')"
    "if reused then db' = db
     else ms_type row = si_type inp \<and> ms_content row = si_content inp \<and> msgs db' = msgs db @ [row]"
    by blast+
qed

lemma stored_again:
  assumes "find_where (\<lambda>x. ms_conv x = c \<and> ms_sender x = Some u \<and> ms_clientId x = Some kk) (msgs db) = Some row"
    and "find_conv c db \<noteq> None" "g db = Inr ()"
    and "si_sender inp = Some u" "u \<noteq> ''''"
    and "bounded_client_id h (si_clientId inp) = Some kk" "kk \<noteq> ''''"
  shows "storeServerMessage h now i g c inp db =
    Inr (\<lparr>dl_row = row, dl_dto = message_dto c row inp, dl_broadcast = si_rebroadcast inp,
          dl_push = False\<rparr>, db)"
  using assms by (auto simp: storeServerMessage_def insertServerMessage_tx_def Let_def)

lemma bounded_client_id_key:
  assumes "k \<noteq> ''''" "h k \<noteq> ''''"
  obtains kk where "bounded_client_id h (Some k) = Some kk" "kk \<noteq> ''''"
  using assms by (cases "128 < length k") (auto simp: bounded_client_id_def)

text \<open>
  C21: a server message sent with a client key is stored once, even when the first call
  fails after the commit. A first call that answers, or that throws only because the
  delivery failed, leaves one row under the key: the request's type and content, newly
  appended, or the row that was already there, with nothing written. Repeating the call
  with the same conversation, sender and key, whatever its type and content, writes nothing; its
  answer names the stored row (id, height, type, key, time) but carries the content of the
  repeated request, it is broadcast only when that request asks for it, it is never pushed, and it throws
  when that delivery fails.
\<close>

theorem server_message_idempotent:
  assumes "insertServerMessage sent h now i g c inp db = (res, db')"
    and "is_ok res \<or> res = Inl NotDelivered" "g db \<noteq> Inl NotDelivered"
    and "si_sender inp = Some u" "u \<noteq> ''''" "si_clientId inp = Some k" "k \<noteq> ''''" "h k \<noteq> ''''"
    and "si_sender inp' = Some u" "si_clientId inp' = Some k" "g' db' = Inr ()"
  shows "\<exists>row \<in> set (msgs db').
    (db' = db
     \<or> msgs db' = msgs db @ [row] \<and> ms_type row = si_type inp \<and> ms_content row = si_content inp)
    \<and> (case res of Inr d \<Rightarrow> dl_row d = row | Inl _ \<Rightarrow> True)
    \<and> insertServerMessage sent' h now' i' g' c inp' db' =
      (let d' = \<lparr>dl_row = row,
                 dl_dto = \<lparr>dt_id = ms_id row, dt_conversation = c, dt_height = ms_height row,
                   dt_type = ms_type row, dt_content = si_content inp',
                   dt_d = ms_clientId row, dt_createdAt = ms_createdAt row\<rparr>,
                 dl_broadcast = si_rebroadcast inp', dl_push = False\<rparr>
       in (if sent' d' then Inr d' else Inl NotDelivered, db'))"
proof -
  obtain kk where kk: "bounded_client_id h (Some k) = Some kk" "kk \<noteq> ''''"
    using bounded_client_id_key assms(7,8) by blast
  have "storeServerMessage h now i g c inp db \<noteq> Inl NotDelivered"
    using assms(3) by (auto simp: storeServerMessage_def insertServerMessage_tx_def write_message_def
      Let_def result_simps split: option.splits if_splits)
  then obtain d where d: "storeServerMessage h now i g c inp db = Inr (d, db')"
    "res = Inr d \<or> res = Inl NotDelivered"
    using assms(1,2) by (auto simp: insertServerMessage_def split: sum.splits prod.splits if_splits)
  then obtain row reused where tx: "insertServerMessage_tx h now i g c inp db = Inr ((row, reused), db')"
    and row: "dl_row d = row"
    by (auto simp: storeServerMessage_Inr_iff)
  note st = stored_under_key [OF tx assms(4,5) kk(1) [folded assms(6)] kk(2)]
  have "storeServerMessage h now' i' g' c inp' db' =
    Inr (\<lparr>dl_row = row, dl_dto = message_dto c row inp', dl_broadcast = si_rebroadcast inp',
          dl_push = False\<rparr>, db')"
    using stored_again [OF st(1,2), of g' inp' h now' i'] assms(5,9-11) kk by simp
  then show ?thesis
    using st(3,4) d(2) row
    by (intro bexI [where x = row])
       (auto simp: insertServerMessage_def message_dto_def Let_def split: if_splits)
qed

definition demo_chat :: chat_db where
  "demo_chat = \<lparr>convs = [\<lparr>cv_id = ''c1'', cv_type = DIRECT, cv_directKey = Some ''a:b'',
      cv_nextHeight = 0, cv_lastMessageAt = None\<rparr>],
    members = [\<lparr>mb_conv = ''c1'', mb_user = ''a'', mb_hiddenAt = Some 5, mb_leftAt = None\<rparr>],
    msgs = []\<rparr>"

definition demo_card :: server_input where
  "demo_card = \<lparr>si_sender = Some ''a'', si_type = ''transfer-card'', si_content = TransferCard 7 None,
    si_clientId = Some ''gift_card_1'', si_push = True, si_rebroadcast = False\<rparr>"

definition demo_row :: message where
  "demo_row = \<lparr>ms_id = ''m1'', ms_conv = ''c1'', ms_height = 1, ms_sender = Some ''a'',
    ms_type = ''transfer-card'', ms_content = TransferCard 7 None,
    ms_clientId = Some ''gift_card_1'', ms_createdAt = 10\<rparr>"

definition demo_chat_1 :: chat_db where
  "demo_chat_1 = \<lparr>convs = [\<lparr>cv_id = ''c1'', cv_type = DIRECT, cv_directKey = Some ''a:b'',
      cv_nextHeight = 1, cv_lastMessageAt = Some 10\<rparr>],
    members = [\<lparr>mb_conv = ''c1'', mb_user = ''a'', mb_hiddenAt = None, mb_leftAt = None\<rparr>],
    msgs = [demo_row]\<rparr>"

definition demo_delivery :: delivery where
  "demo_delivery = \<lparr>dl_row = demo_row, dl_dto = message_dto ''c1'' demo_row demo_card,
     dl_broadcast = True, dl_push = True\<rparr>"

lemma demo_insert:
  "storeServerMessage (\<lambda>_. ''x'') 10 ''m1'' (\<lambda>_. Inr ()) ''c1'' demo_card demo_chat =
    Inr (demo_delivery, demo_chat_1)"
  by (simp add: storeServerMessage_def insertServerMessage_tx_def write_message_def
      message_clash_def demo_chat_def demo_card_def demo_chat_1_def demo_row_def find_conv_def
      bounded_client_id_def demo_delivery_def Let_def)

lemma demo_insert_undelivered:
  "insertServerMessage (\<lambda>_. False) (\<lambda>_. ''x'') 10 ''m1'' (\<lambda>_. Inr ()) ''c1'' demo_card demo_chat =
    (Inl NotDelivered, demo_chat_1)"
  by (simp add: insertServerMessage_def demo_insert)

text \<open>In the witness the first call breaks after its commit; the retry asks for another amount.\<close>

theorem server_message_idempotent_witness:
  "insertServerMessage (\<lambda>_. True) (\<lambda>_. ''x'') 99 ''m2'' (\<lambda>_. Inr ()) ''c1''
     (demo_card\<lparr>si_content := TransferCard 8 None\<rparr>) demo_chat_1 =
    (Inr \<lparr>dl_row = demo_row,
          dl_dto = \<lparr>dt_id = ''m1'', dt_conversation = ''c1'', dt_height = 1, dt_type = ''transfer-card'',
            dt_content = TransferCard 8 None, dt_d = Some ''gift_card_1'', dt_createdAt = 10\<rparr>,
          dl_broadcast = False, dl_push = False\<rparr>, demo_chat_1)"
  using server_message_idempotent [OF demo_insert_undelivered, of "''a''" "''gift_card_1''"
      "demo_card\<lparr>si_content := TransferCard 8 None\<rparr>" "\<lambda>_. Inr ()" "\<lambda>_. True" 99 "''m2''"]
  by (simp add: demo_card_def demo_chat_1_def demo_row_def)

lemma storeServerMessage_total:
  assumes "chat_inv db" "find_conv c db = Some v" "g db = Inr ()"
    and "\<forall>x \<in> set (msgs db). ms_id x \<noteq> i"
  shows "\<exists>d db'. storeServerMessage h now i g c inp db = Inr (d, db') \<and> ms_conv (dl_row d) = c
    \<and> (dl_row d \<in> set (msgs db) \<and> db' = db
       \<or> ms_height (dl_row d) = cv_nextHeight v + 1 \<and> msgs db' = msgs db @ [dl_row d] \<and> dl_broadcast d)"
proof -
  define key where "key = bounded_client_id h (si_clientId inp)"
  define keyed where "keyed = (case (key, si_sender inp) of
    (Some k, Some u) \<Rightarrow> k \<noteq> '''' \<and> u \<noteq> '''' | _ \<Rightarrow> False)"
  define m where "m = \<lparr>ms_id = i, ms_conv = c, ms_height = cv_nextHeight v + 1,
    ms_sender = si_sender inp, ms_type = si_type inp, ms_content = si_content inp,
    ms_clientId = (if keyed then key else None), ms_createdAt = now\<rparr>"
  let ?hit = "\<lambda>x. ms_conv x = c \<and> ms_sender x = si_sender inp \<and> ms_clientId x = key"
  have tx: "insertServerMessage_tx h now i g c inp db =
    (case (if keyed then find_where ?hit (msgs db) else None) of
       Some x \<Rightarrow> Inr ((x, True), db)
     | None \<Rightarrow> bind_res (write_message m db) (\<lambda>db'. Inr ((m, False), db')))"
    by (simp only: insertServerMessage_tx_def Let_def key_def keyed_def m_def assms(2,3)
        option.case bind_res_simps)
  show ?thesis
  proof (cases "if keyed then find_where ?hit (msgs db) else None")
    case (Some x)
    then have "x \<in> set (msgs db) \<and> ms_conv x = c"
      by (auto split: if_splits dest: find_where_SomeD)
    with Some tx show ?thesis by (auto simp: storeServerMessage_def)
  next
    case None
    have "\<forall>x \<in> set (msgs db). ms_conv x = ms_conv m \<and> ms_sender x = ms_sender m
      \<and> ms_clientId x = ms_clientId m \<longrightarrow> ms_sender m = None \<or> ms_clientId m = None"
      using None by (auto simp: m_def find_where_None_iff split: if_splits)
    then have "\<not> message_clash m db"
      using assms by (intro message_clash_free [OF assms(1), of _ v]) (auto simp: m_def)
    then show ?thesis using None tx
      by (auto simp: storeServerMessage_def write_message_def m_def)
  qed
qed

lemma storeServerMessage_direct:
  assumes "storeServerMessage h now i g c inp db = Inr (d, db')" "find_direct k db = Some v"
  shows "\<exists>v'. find_direct k db' = Some v' \<and> cv_id v' = cv_id v"
proof -
  obtain row reused where "insertServerMessage_tx h now i g c inp db = Inr ((row, reused), db')"
    using assms(1) by (auto simp: storeServerMessage_Inr_iff)
  then show ?thesis
  proof (cases rule: insertServerMessage_tx_cases)
    case reuse
    with assms(2) show ?thesis by simp
  next
    case (fresh w)
    with assms(2) show ?thesis
      by (auto simp: write_message_def find_direct_def find_where_update split: if_splits)
  qed
qed

lemma demo_chat_inv: "chat_inv demo_chat" "chat_inv demo_chat_1"
  by (simp_all add: chat_inv_def demo_chat_def demo_chat_1_def demo_row_def heights_def
      has_direct_key_def keyed_message_def)

text \<open>
  C17: after any history of server messages, system messages and newly opened direct
  conversations, starting from an empty store, each conversation's messages have
  the heights \<open>1, 2, \<dots>, nextHeight\<close> in the order in which they were written.
\<close>

theorem chat_history_gapless:
  "list_all (\<lambda>v. heights (cv_id v) (run_ops (chat_exec h) ops \<lparr>convs = [], members = [], msgs = []\<rparr>)
       = [1..<Suc (cv_nextHeight v)])
     (convs (run_ops (chat_exec h) ops \<lparr>convs = [], members = [], msgs = []\<rparr>))"
proof -
  let ?db = "run_ops (chat_exec h) ops \<lparr>convs = [], members = [], msgs = []\<rparr>"
  have "chat_inv ?db"
    by (rule chat_tx.run_inv [OF run_allowed_const]) (simp_all add: chat_inv_def list_all_iff)
  then show ?thesis unfolding list_all_iff by (blast intro: chat_inv_heights)
qed

lemma directKey_commute: "directKey a b = directKey b a"
  by (auto simp: directKey_def)

text \<open>
  C35: whatever other requests do between the lookup and the insert, as long as they keep the
  store's invariant, opening the settlement conversation of two different users ends
  with the one conversation that carries their key, and asking again with the users
  in the other order returns the same conversation without a write.
\<close>

theorem settlement_conversation_unique:
  assumes "chat_inv (others db)" "chat_inv db" "a \<noteq> b" "find_conv i (others db) = None"
    and "ensureDirectConversationForSettlement others i a b db = (db', r)"
  shows "\<exists>c. r = Inr c
    \<and> count_where (\<lambda>v. cv_directKey v = Some (directKey a b)) (convs db') = 1
    \<and> ensureDirectConversationForSettlement others' i' b a db' = (db', Inr c)"
proof -
  have found: "\<exists>v. find_direct (directKey a b) db' = Some v \<and> r = Inr (cv_id v)" and inv: "chat_inv db'"
    using assms
    by (auto simp: ensureDirectConversationForSettlement_def Let_def find_direct_def create_direct_def
        find_where_append split: option.splits sum.splits if_splits
        intro: create_direct_inv [of "others db" i a b])
  then obtain v where v: "find_direct (directKey a b) db' = Some v" and r: "r = Inr (cv_id v)" by blast
  have vin: "v \<in> set (filter has_direct_key (convs db'))"
    and vk: "cv_directKey v = Some (directKey a b)"
    using find_direct_SomeD [OF v] by (auto simp: has_direct_key_def)
  have "count_where (\<lambda>v. cv_directKey v = Some (directKey a b))
      (filter has_direct_key (convs db')) = 1"
    by (rule count_where_unique [where k = cv_directKey, OF chat_inv_direct [OF inv] vin])
       (simp_all add: vk)
  moreover have "filter (\<lambda>v. cv_directKey v = Some (directKey a b))
      (filter has_direct_key (convs db')) =
    filter (\<lambda>v. cv_directKey v = Some (directKey a b)) (convs db')"
    by (simp only: filter_filter) (rule filter_cong, auto simp: has_direct_key_def)
  ultimately have "count_where (\<lambda>v. cv_directKey v = Some (directKey a b)) (convs db') = 1"
    by (simp add: count_where_def)
  moreover have "ensureDirectConversationForSettlement others' i' b a db' = (db', Inr (cv_id v))"
    using v by (simp add: ensureDirectConversationForSettlement_def directKey_commute [of b a])
  ultimately show ?thesis using r by blast
qed

theorem settlement_conversation_unique_witness:
  "\<exists>c. snd (ensureDirectConversationForSettlement (\<lambda>d. d) ''c2'' ''b'' ''z'' demo_chat) = Inr c
    \<and> count_where (\<lambda>v. cv_directKey v = Some (directKey ''b'' ''z''))
        (convs (fst (ensureDirectConversationForSettlement (\<lambda>d. d) ''c2'' ''b'' ''z'' demo_chat))) = 1
    \<and> ensureDirectConversationForSettlement (\<lambda>d. d) ''c3'' ''z'' ''b''
        (fst (ensureDirectConversationForSettlement (\<lambda>d. d) ''c2'' ''b'' ''z'' demo_chat))
      = (fst (ensureDirectConversationForSettlement (\<lambda>d. d) ''c2'' ''b'' ''z'' demo_chat), Inr c)"
  by (rule settlement_conversation_unique [of "\<lambda>d. d" demo_chat])
     (simp_all add: demo_chat_inv, simp add: find_conv_def demo_chat_def)

end
