(* ===== verification/Coin.thy ===== *)
theory Coin
  imports ChatStore TxRetry
begin

text \<open>
  The coin wallet of \<open>src/coin/\<close>: the ledger (\<open>coin.service.ts\<close>), the
  compensation of transfer cards (\<open>gift-card-outbox.processor.ts\<close>) and the daily
  reconciliation (\<open>wallet-reconciliation.service.ts\<close>). Balances and ledger rows
  are 4-byte integers; a gift moves coins between two wallets in one transaction and
  its card is delivered afterwards, at least once, by whoever gets there first.
\<close>

section \<open>Data\<close>

datatype coin_tx_type =
    RECHARGE | GIFT_SENT | GIFT_RECEIVED | REFUND | PURCHASE | ADJUSTMENT
  | REFERRAL_REWARD | REFERRAL_BONUS

record wallet =
  wl_user :: string
  wl_balance :: int

record coin_tx =
  ct_user :: string
  ct_type :: coin_tx_type
  ct_amount :: int
  ct_balance :: int
  ct_note :: "string option"
  ct_related :: "string option"
  ct_key :: "string option"
  ct_at :: int

record coin_gift =
  cg_id :: string
  cg_sender :: string
  cg_recipient :: string
  cg_amount :: int
  cg_message :: "string option"
  cg_key :: "string option"
  cg_deliveredAt :: "int option"
  cg_attempts :: nat
  cg_createdAt :: int

record friendship =
  fr_user :: string
  fr_friend :: string
  fr_state :: friend_state

record account =
  ac_id :: string
  ac_status :: user_status

record coin_db =
  wallets :: "wallet list"
  ledger :: "coin_tx list"
  gifts :: "coin_gift list"
  accounts :: "account list"
  friendships :: "friendship list"

datatype coin_error =
    SelfTransfer
  | AmountTooLarge
  | RecipientNotFound
  | NotFriend
  | IdempotencyConflict
  | DailyLimit
  | Insufficient
  | InvalidCredit
  | RecordNotFound
  | IntOverflow
  | UniqueGiftKey
  | UniqueLedgerKey
  | NoAttempt

definition GIFT_MAX_SINGLE :: int where
  "GIFT_MAX_SINGLE = 10000"

definition GIFT_DAILY_LIMIT :: int where
  "GIFT_DAILY_LIMIT = 50000"

section \<open>Wallets\<close>

text \<open>
  \<open>upsert\<close> with an empty update creates a missing wallet at balance 0. An update that
  leaves the column's range fails.
\<close>

definition upsert_wallet :: "string \<Rightarrow> coin_db \<Rightarrow> coin_db" where
  "upsert_wallet u db =
     (case find_where (\<lambda>w. wl_user w = u) (wallets db) of
        Some _ \<Rightarrow> db
      | None \<Rightarrow> db\<lparr>wallets := wallets db @ [\<lparr>wl_user = u, wl_balance = 0\<rparr>]\<rparr>)"

definition balance_of :: "string \<Rightarrow> coin_db \<Rightarrow> int option" where
  "balance_of u db = map_option wl_balance (find_where (\<lambda>w. wl_user w = u) (wallets db))"

definition getWallet :: "string \<Rightarrow> coin_db \<Rightarrow> int \<times> coin_db" where
  "getWallet u db =
     (let db' = upsert_wallet u db
      in (case balance_of u db' of Some b \<Rightarrow> b | None \<Rightarrow> 0, db'))"

definition increment_wallet :: "string \<Rightarrow> int \<Rightarrow> coin_db \<Rightarrow> coin_error + (int \<times> coin_db)" where
  "increment_wallet u n db =
     (case balance_of u db of
        None \<Rightarrow> Inl RecordNotFound
      | Some b \<Rightarrow>
          if \<not> int4 (b + n) then Inl IntOverflow
          else Inr (b + n, db\<lparr>wallets := update_where (\<lambda>w. wl_user w = u)
                                 (\<lambda>w. w\<lparr>wl_balance := wl_balance w + n\<rparr>) (wallets db)\<rparr>))"

definition debit_wallets :: "string \<Rightarrow> int \<Rightarrow> coin_db \<Rightarrow> nat \<times> coin_db" where
  "debit_wallets u n db =
     (let hit = (\<lambda>w. wl_user w = u \<and> n \<le> wl_balance w)
      in (count_where hit (wallets db),
          db\<lparr>wallets := update_where hit (\<lambda>w. w\<lparr>wl_balance := wl_balance w - n\<rparr>) (wallets db)\<rparr>))"

definition getTransactions :: "(coin_tx list \<Rightarrow> coin_tx list) \<Rightarrow> string \<Rightarrow> coin_db \<Rightarrow> coin_tx list" where
  "getTransactions newest_first u db =
     take 50 (newest_first (filter (\<lambda>t. ct_user t = u) (ledger db)))"

definition append_ledger :: "coin_tx \<Rightarrow> coin_db \<Rightarrow> coin_error + coin_db" where
  "append_ledger t db =
     (if ct_key t \<noteq> None \<and> (\<exists>x \<in> set (ledger db). ct_key x = ct_key t) then Inl UniqueLedgerKey
      else if \<not> int4 (ct_amount t) \<or> \<not> int4 (ct_balance t) then Inl IntOverflow
      else Inr (db\<lparr>ledger := ledger db @ [t]\<rparr>))"

record credit_input =
  ci_user :: string
  ci_amount :: int
  ci_type :: coin_tx_type
  ci_note :: string
  ci_related :: string
  ci_key :: string

text \<open>Amounts are integers here, so the code's test for an integer always succeeds.\<close>

definition creditInTransaction ::
  "int \<Rightarrow> credit_input \<Rightarrow> coin_db \<Rightarrow> coin_error + (int \<times> coin_db)" where
  "creditInTransaction now inp db =
     (if ci_amount inp \<le> 0 then Inl InvalidCredit
      else bind_res (increment_wallet (ci_user inp) (ci_amount inp) (upsert_wallet (ci_user inp) db))
        (\<lambda>(b, db1).
          bind_res (append_ledger
            \<lparr>ct_user = ci_user inp, ct_type = ci_type inp, ct_amount = ci_amount inp, ct_balance = b,
             ct_note = Some (ci_note inp), ct_related = Some (ci_related inp),
             ct_key = Some (ci_key inp), ct_at = now\<rparr> db1)
          (\<lambda>db2. Inr (b, db2))))"

section \<open>Gifts\<close>

record gift_request =
  gr_sender :: string
  gr_recipient :: string
  gr_amount :: int
  gr_key :: string
  gr_message :: "string option"

text \<open>
  What \<open>SendGiftDto\<close> lets through: an integer amount of at least 1 and a message of at
  most 100 characters without angle brackets. (The recipient id is a UUID, by a
  validator that is not part of the source.)
\<close>

definition send_gift_dto_ok :: "gift_request \<Rightarrow> bool" where
  "send_gift_dto_ok r \<longleftrightarrow> 1 \<le> gr_amount r
     \<and> (case gr_message r of None \<Rightarrow> True
        | Some m \<Rightarrow> length m \<le> 100 \<and> CHR ''<'' \<notin> set m \<and> CHR ''>'' \<notin> set m)"

definition find_gift_by_key :: "string \<Rightarrow> coin_db \<Rightarrow> coin_gift option" where
  "find_gift_by_key k db = find_where (\<lambda>g. cg_key g = Some k) (gifts db)"

definition assertIdempotentReplayMatches :: "coin_gift \<Rightarrow> gift_request \<Rightarrow> coin_error + unit" where
  "assertIdempotentReplayMatches prior r =
     (if cg_sender prior \<noteq> gr_sender r \<or> cg_recipient prior \<noteq> gr_recipient r
         \<or> cg_amount prior \<noteq> gr_amount r
      then Inl IdempotencyConflict else Inr ())"

definition are_friends :: "string \<Rightarrow> string \<Rightarrow> coin_db \<Rightarrow> bool" where
  "are_friends a b db \<longleftrightarrow> find_where
     (\<lambda>f. ((fr_user f = a \<and> fr_friend f = b) \<or> (fr_user f = b \<and> fr_friend f = a))
          \<and> fr_state f = ACCEPTED) (friendships db) \<noteq> None"

text \<open>
  The checks before the transaction. \<open>Inr (Some g)\<close> is the fast path: the key was used
  for this very gift, so the request has already succeeded.
\<close>

definition gift_precheck :: "gift_request \<Rightarrow> coin_db \<Rightarrow> coin_error + coin_gift option" where
  "gift_precheck r db =
     (if gr_sender r = gr_recipient r then Inl SelfTransfer
      else if gr_amount r > GIFT_MAX_SINGLE then Inl AmountTooLarge
      else case find_where (\<lambda>a. ac_id a = gr_recipient r) (accounts db) of
             None \<Rightarrow> Inl RecipientNotFound
           | Some a \<Rightarrow>
               if ac_status a \<noteq> ACTIVE then Inl RecipientNotFound
               else if \<not> are_friends (gr_sender r) (gr_recipient r) db then Inl NotFriend
               else (case find_gift_by_key (gr_key r) db of
                       None \<Rightarrow> Inr None
                     | Some g \<Rightarrow> bind_res (assertIdempotentReplayMatches g r) (\<lambda>_. Inr (Some g))))"

definition sent_since :: "string \<Rightarrow> int \<Rightarrow> coin_db \<Rightarrow> int" where
  "sent_since u since db =
     sum_where (\<lambda>t. ct_user t = u \<and> ct_type t = GIFT_SENT \<and> since \<le> ct_at t) ct_amount (ledger db)"

text \<open>
  The body of the serializable transaction; it returns the new gift's id. The second part,
  from the recipient's credit on, is \<open>gift_write\<close>; \<open>sb\<close> is the sender's balance as read back.
\<close>

definition gift_row :: "int \<Rightarrow> string \<Rightarrow> gift_request \<Rightarrow> coin_gift" where
  "gift_row now giftId r = \<lparr>cg_id = giftId, cg_sender = gr_sender r, cg_recipient = gr_recipient r,
     cg_amount = gr_amount r, cg_message = gr_message r, cg_key = Some (gr_key r),
     cg_deliveredAt = None, cg_attempts = 0, cg_createdAt = now\<rparr>"

definition sent_row :: "int \<Rightarrow> string \<Rightarrow> gift_request \<Rightarrow> int \<Rightarrow> coin_tx" where
  "sent_row now giftId r sb = \<lparr>ct_user = gr_sender r, ct_type = GIFT_SENT, ct_amount = - gr_amount r,
     ct_balance = sb, ct_note = gr_message r, ct_related = Some giftId, ct_key = None, ct_at = now\<rparr>"

definition received_row :: "int \<Rightarrow> string \<Rightarrow> gift_request \<Rightarrow> int \<Rightarrow> coin_tx" where
  "received_row now giftId r rb = \<lparr>ct_user = gr_recipient r, ct_type = GIFT_RECEIVED,
     ct_amount = gr_amount r, ct_balance = rb, ct_note = gr_message r, ct_related = Some giftId,
     ct_key = None, ct_at = now\<rparr>"

definition gift_write ::
  "int \<Rightarrow> string \<Rightarrow> gift_request \<Rightarrow> int \<Rightarrow> coin_db \<Rightarrow> coin_error + (string \<times> coin_db)" where
  "gift_write now giftId r sb db2 =
     bind_res (increment_wallet (gr_recipient r) (gr_amount r) db2) (\<lambda>(rb, db3).
       if find_gift_by_key (gr_key r) db3 \<noteq> None
          \<or> find_where (\<lambda>g. cg_id g = giftId) (gifts db3) \<noteq> None then Inl UniqueGiftKey
       else bind_res (append_ledger (sent_row now giftId r sb)
                        (db3\<lparr>gifts := gifts db3 @ [gift_row now giftId r]\<rparr>))
              (\<lambda>db4. bind_res (append_ledger (received_row now giftId r rb) db4)
                (\<lambda>db5. Inr (giftId, db5))))"

definition gift_tx ::
  "int \<Rightarrow> int \<Rightarrow> string \<Rightarrow> gift_request \<Rightarrow> coin_db \<Rightarrow> coin_error + (string \<times> coin_db)" where
  "gift_tx now todayStart giftId r db =
     (let totalSentToday = \<bar>sent_since (gr_sender r) todayStart db\<bar> in
      if totalSentToday + gr_amount r > GIFT_DAILY_LIMIT then Inl DailyLimit
      else
        let db1 = upsert_wallet (gr_recipient r) (upsert_wallet (gr_sender r) db);
            (debited, db2) = debit_wallets (gr_sender r) (gr_amount r) db1
        in if debited \<noteq> 1 then Inl Insufficient
           else (case balance_of (gr_sender r) db2 of
                   None \<Rightarrow> Inl RecordNotFound
                 | Some sb \<Rightarrow> gift_write now giftId r sb db2))"

text \<open>
  How the database reports a broken constraint or a missing row; every other error of the
  body is the service's own exception.
\<close>

definition gift_thrown :: "coin_error \<Rightarrow> coin_error thrown" where
  "gift_thrown e =
     (if e = UniqueGiftKey \<or> e = UniqueLedgerKey then KnownRequest ''P2002'' None
      else if e = RecordNotFound then KnownRequest ''P2025'' None
      else OtherThrown e)"

text \<open>
  One attempt of the runner: the database may fail the transaction by itself (\<open>aborts\<close>: a
  serialization failure, a deadlock, a lost connection), or the body runs on the database that this
  attempt meets.
\<close>

definition gift_attempt ::
  "(nat \<Rightarrow> coin_db) \<Rightarrow> (nat \<Rightarrow> coin_error thrown option) \<Rightarrow> int \<Rightarrow> int \<Rightarrow> (nat \<Rightarrow> string) \<Rightarrow> gift_request
   \<Rightarrow> nat \<Rightarrow> coin_error thrown + (string \<times> coin_db)" where
  "gift_attempt met aborts now todayStart giftId r n =
     (case aborts n of
        Some t \<Rightarrow> Inl t
      | None \<Rightarrow> (case gift_tx now todayStart (giftId n) r (met n) of
                  Inl e \<Rightarrow> Inl (gift_thrown e)
                | Inr x \<Rightarrow> Inr x))"

text \<open>
  After a transaction that failed on a unique constraint: the gift that won the key
  decides, and without one the failure stands.
\<close>

definition gift_recover ::
  "gift_request \<Rightarrow> coin_error thrown \<Rightarrow> coin_db \<Rightarrow> coin_error thrown + string option" where
  "gift_recover r err db =
     (if prismaErrorCode err = Some ''P2002''
      then (case find_gift_by_key (gr_key r) db of
              None \<Rightarrow> Inl err
            | Some g \<Rightarrow> (case assertIdempotentReplayMatches g r of
                          Inl e \<Rightarrow> Inl (OtherThrown e)
                        | Inr _ \<Rightarrow> Inr None))
      else Inl err)"

text \<open>
  The whole request. Between the checks and the transaction, and between its attempts, other
  requests run: \<open>others n db\<close> is the database that attempt \<open>n\<close> (from 1 on) meets. The
  runner has waited once less often than it has tried. The result is \<open>Some\<close> id of a gift made
  now, whose card is issued next, or \<open>None\<close> for a replay.
\<close>

definition sendGift ::
  "(nat \<Rightarrow> coin_db \<Rightarrow> coin_db) \<Rightarrow> (nat \<Rightarrow> coin_error thrown option) \<Rightarrow> (nat \<Rightarrow> rat) \<Rightarrow> int \<Rightarrow> int
   \<Rightarrow> (nat \<Rightarrow> string) \<Rightarrow> gift_request \<Rightarrow> coin_db \<Rightarrow> (coin_error thrown + string option) \<times> coin_db" where
  "sendGift others aborts rnd now todayStart giftId r db =
     (case gift_precheck r db of
        Inl e \<Rightarrow> (Inl (OtherThrown e), db)
      | Inr (Some _) \<Rightarrow> (Inr None, db)
      | Inr None \<Rightarrow>
          (case runSerializableTransaction NoAttempt rnd None None None
                  (gift_attempt (\<lambda>n. others n db) aborts now todayStart giftId r) of
             (Inr (g, db2), waits) \<Rightarrow> (Inr (Some g), db2)
           | (Inl err, waits) \<Rightarrow>
               let met = others (Suc (length waits)) db in (gift_recover r err met, met)))"

section \<open>Transfer cards\<close>

definition card_client_id :: "string \<Rightarrow> string" where
  "card_client_id giftId = ''gift_card_'' @ giftId"

definition card_input :: "coin_gift \<Rightarrow> server_input" where
  "card_input g = \<lparr>si_sender = Some (cg_sender g), si_type = ''transfer-card'',
     si_content = TransferCard (cg_amount g) (cg_message g),
     si_clientId = Some (card_client_id (cg_id g)), si_push = True, si_rebroadcast = False\<rparr>"

record coin_sys =
  cs_coin :: coin_db
  cs_chat :: chat_db

text \<open>
  Where a delivery can break: before the message is stored, after its commit but before
  the receipt is written (its media URLs, its broadcast, the lost receipt), or not at all; it also breaks when
  the gift is gone. \<open>convId\<close> and \<open>msgId\<close> are the ids the database draws.
\<close>

datatype outage = NoOutage | BeforeMessage | AfterMessage

text \<open>The receipt is an update by id: a row that is gone is an error.\<close>

definition mark_delivered :: "int \<Rightarrow> string \<Rightarrow> coin_db \<Rightarrow> coin_error + coin_db" where
  "mark_delivered now gid db =
     (if find_where (\<lambda>g. cg_id g = gid) (gifts db) = None then Inl RecordNotFound
      else Inr (db\<lparr>gifts := update_where (\<lambda>g. cg_id g = gid)
                     (\<lambda>g. g\<lparr>cg_deliveredAt := Some now\<rparr>) (gifts db)\<rparr>))"

definition deliver_card ::
  "(string \<Rightarrow> string) \<Rightarrow> int \<Rightarrow> outage \<Rightarrow> string \<Rightarrow> string \<Rightarrow> coin_gift \<Rightarrow> coin_sys
   \<Rightarrow> bool \<times> coin_sys" where
  "deliver_card h now out convId msgId g s =
     (if out = BeforeMessage then (False, s)
      else (case ensureDirectConversationForSettlement (\<lambda>d. d) convId (cg_sender g) (cg_recipient g)
                   (cs_chat s) of
        (chat1, Inl _) \<Rightarrow> (False, s\<lparr>cs_chat := chat1\<rparr>)
      | (chat1, Inr c) \<Rightarrow>
          (case insertServerMessage (\<lambda>_. out \<noteq> AfterMessage) h now msgId (\<lambda>_. Inr ()) c (card_input g) chat1 of
             (Inl _, chat2) \<Rightarrow> (False, s\<lparr>cs_chat := chat2\<rparr>)
           | (Inr _, chat2) \<Rightarrow>
               (case mark_delivered now (cg_id g) (cs_coin s) of
                  Inl _ \<Rightarrow> (False, s\<lparr>cs_chat := chat2\<rparr>)
                | Inr coin2 \<Rightarrow> (True, s\<lparr>cs_chat := chat2, cs_coin := coin2\<rparr>)))))"

text \<open>
  \<open>issueTransferCard\<close> delivers the card of the gift that the request has just made and
  swallows every failure.
\<close>

definition issueTransferCard ::
  "(string \<Rightarrow> string) \<Rightarrow> int \<Rightarrow> outage \<Rightarrow> string \<Rightarrow> string \<Rightarrow> string \<Rightarrow> gift_request \<Rightarrow> coin_sys
   \<Rightarrow> coin_sys" where
  "issueTransferCard h now out convId msgId gid r s =
     snd (deliver_card h now out convId msgId
       \<lparr>cg_id = gid, cg_sender = gr_sender r, cg_recipient = gr_recipient r, cg_amount = gr_amount r,
        cg_message = gr_message r, cg_key = Some (gr_key r), cg_deliveredAt = None, cg_attempts = 0,
        cg_createdAt = now\<rparr> s)"

definition GRACE_MS :: int where
  "GRACE_MS = 2 * 60 * 1000"

definition GIFT_CARD_MAX_ATTEMPTS :: nat where
  "GIFT_CARD_MAX_ATTEMPTS = 60"

definition OUTBOX_BATCH :: nat where
  "OUTBOX_BATCH = 50"

definition outbox_due :: "int \<Rightarrow> coin_gift \<Rightarrow> bool" where
  "outbox_due now g \<longleftrightarrow> cg_deliveredAt g = None \<and> cg_attempts g < GIFT_CARD_MAX_ATTEMPTS
     \<and> cg_createdAt g < now - GRACE_MS"

definition outbox_batch :: "int \<Rightarrow> coin_db \<Rightarrow> coin_gift list" where
  "outbox_batch now db =
     take OUTBOX_BATCH (sort_key cg_createdAt (filter (outbox_due now) (gifts db)))"

text \<open>The claim: a conditional update on the attempt count that was read with the row.\<close>

definition claim_gift :: "coin_gift \<Rightarrow> coin_db \<Rightarrow> nat \<times> coin_db" where
  "claim_gift g db =
     (let hit = (\<lambda>x. cg_id x = cg_id g \<and> cg_deliveredAt x = None \<and> cg_attempts x = cg_attempts g)
      in (count_where hit (gifts db),
          db\<lparr>gifts := update_where hit (\<lambda>x. x\<lparr>cg_attempts := cg_attempts x + 1\<rparr>) (gifts db)\<rparr>))"

text \<open>
  One round of the compensation: the rows read at its start, one after the other. For
  each gift the environment supplies what others did meanwhile, the outage, and
  the ids. The result counts the cards delivered.
\<close>

record card_env =
  ce_others :: "coin_sys \<Rightarrow> coin_sys"
  ce_outage :: outage
  ce_convId :: string
  ce_msgId :: string

fun compensate_loop ::
  "(string \<Rightarrow> string) \<Rightarrow> int \<Rightarrow> (coin_gift \<Rightarrow> card_env) \<Rightarrow> coin_gift list \<Rightarrow> coin_sys \<Rightarrow> nat \<times> coin_sys" where
  "compensate_loop h now env [] s = (0, s)"
| "compensate_loop h now env (g # gs) s =
     (let s1 = ce_others (env g) s;
          (claimed, coin1) = claim_gift g (cs_coin s1);
          s2 = s1\<lparr>cs_coin := coin1\<rparr>
      in if claimed = 0 then compensate_loop h now env gs s2
         else
           let (ok, s3) = deliver_card h now (ce_outage (env g)) (ce_convId (env g)) (ce_msgId (env g)) g s2;
               (n, s4) = compensate_loop h now env gs s3
           in ((if ok then 1 else 0) + n, s4))"

definition compensate ::
  "(string \<Rightarrow> string) \<Rightarrow> int \<Rightarrow> (coin_gift \<Rightarrow> card_env) \<Rightarrow> coin_sys \<Rightarrow> nat \<times> coin_sys" where
  "compensate h now env s = compensate_loop h now env (outbox_batch now (cs_coin s)) s"

section \<open>Reconciliation\<close>

record reconciliation =
  rc_wallets :: nat
  rc_ledgerMismatches :: nat
  rc_negativeBalances :: nat

definition ledger_total :: "string \<Rightarrow> coin_db \<Rightarrow> int" where
  "ledger_total u db = sum_where (\<lambda>t. ct_user t = u) ct_amount (ledger db)"

text \<open>
  The query is a full outer join of the wallets with the ledger totals per user: one row
  for each wallet, and one for each user who has ledger rows and no wallet, whose
  balance reads as 0.
\<close>

definition walletless_users :: "coin_db \<Rightarrow> string list" where
  "walletless_users db = filter (\<lambda>u. u \<notin> wl_user ` set (wallets db)) (remdups (map ct_user (ledger db)))"

definition reconcile :: "coin_db \<Rightarrow> reconciliation" where
  "reconcile db = \<lparr>
     rc_wallets = length (wallets db) + length (walletless_users db),
     rc_ledgerMismatches =
       count_where (\<lambda>w. wl_balance w \<noteq> ledger_total (wl_user w) db) (wallets db)
       + count_where (\<lambda>u. 0 \<noteq> ledger_total u db) (walletless_users db),
     rc_negativeBalances = count_where (\<lambda>w. wl_balance w < 0) (wallets db)\<rparr>"

section \<open>Balances and totals\<close>

definition bal :: "string \<Rightarrow> coin_db \<Rightarrow> int" where
  "bal u db = (case balance_of u db of None \<Rightarrow> 0 | Some b \<Rightarrow> b)"

definition gift_keyed :: "coin_gift \<Rightarrow> bool" where
  "gift_keyed g \<longleftrightarrow> cg_key g \<noteq> None"

definition coin_inv :: "coin_db \<Rightarrow> bool" where
  "coin_inv db \<longleftrightarrow>
     distinct (map wl_user (wallets db))
     \<and> (\<forall>u. bal u db = ledger_total u db)
     \<and> (\<forall>u. 0 \<le> ledger_total u db)
     \<and> (\<forall>t \<in> set (ledger db). ct_type t = GIFT_SENT \<longrightarrow> ct_amount t \<le> 0)
     \<and> distinct (map cg_id (gifts db))
     \<and> distinct (map cg_key (filter gift_keyed (gifts db)))"

lemma upsert_wallet_frame [simp]:
  "ledger (upsert_wallet u db) = ledger db"
  "gifts (upsert_wallet u db) = gifts db"
  "accounts (upsert_wallet u db) = accounts db"
  "friendships (upsert_wallet u db) = friendships db"
  by (simp_all add: upsert_wallet_def split: option.splits)

lemma bal_upsert [simp]: "bal v (upsert_wallet u db) = bal v db"
  by (auto simp: bal_def balance_of_def upsert_wallet_def find_where_append split: option.splits)

lemma balance_of_upsert:
  "balance_of u db = Some b \<Longrightarrow> balance_of u (upsert_wallet v db) = Some b"
  "balance_of u (upsert_wallet u db) \<noteq> None"
  by (auto simp: balance_of_def upsert_wallet_def find_where_append split: option.splits)

lemma distinct_upsert:
  "distinct (map wl_user (wallets db)) \<Longrightarrow> distinct (map wl_user (wallets (upsert_wallet u db)))"
  by (auto simp: upsert_wallet_def find_where_None_iff split: option.splits)

lemma increment_wallet_effect:
  assumes "increment_wallet u n db = Inr (b, db')"
  shows "bal v db' = bal v db + (if v = u then n else 0)" "b = bal u db'" "int4 b"
    "map wl_user (wallets db') = map wl_user (wallets db)"
    "ledger db' = ledger db" "gifts db' = gifts db"
    "accounts db' = accounts db" "friendships db' = friendships db"
proof -
  obtain b0 where b0: "balance_of u db = Some b0" "int4 (b0 + n)" "b = b0 + n"
    and db': "db' = db\<lparr>wallets := update_where (\<lambda>w. wl_user w = u)
                 (\<lambda>w. w\<lparr>wl_balance := wl_balance w + n\<rparr>) (wallets db)\<rparr>"
    using assms by (auto simp: increment_wallet_def split: option.splits if_splits)
  have after: "find_where (\<lambda>w. wl_user w = v) (wallets db') =
    map_option (\<lambda>w. if wl_user w = u then w\<lparr>wl_balance := wl_balance w + n\<rparr> else w)
      (find_where (\<lambda>w. wl_user w = v) (wallets db))" for v
    by (simp add: db' find_where_update)
  show eff: "bal v db' = bal v db + (if v = u then n else 0)" for v
    using b0(1) by (auto simp: bal_def balance_of_def after split: option.splits
        dest: find_where_SomeD)
  show "b = bal u db'" using b0 eff [of u] by (simp add: bal_def)
qed (use assms in \<open>auto simp: increment_wallet_def map_update_where split: option.splits if_splits\<close>)

lemma debit_wallets_effect:
  assumes "distinct (map wl_user (wallets db))" "debit_wallets u n db = (1, db')"
  shows "bal v db' = bal v db - (if v = u then n else 0)" "n \<le> bal u db" "balance_of u db' = Some (bal u db')"
    "map wl_user (wallets db') = map wl_user (wallets db)"
    "ledger db' = ledger db" "gifts db' = gifts db"
    "accounts db' = accounts db" "friendships db' = friendships db"
proof -
  let ?hit = "\<lambda>w. wl_user w = u \<and> n \<le> wl_balance w"
  have "count_where ?hit (wallets db) = 1"
    using assms(2) by (simp add: debit_wallets_def Let_def)
  then obtain w where w: "w \<in> set (wallets db)" "wl_user w = u" "n \<le> wl_balance w"
    using count_where_pos_iff [of ?hit "wallets db"] by auto
  have fw: "find_where (\<lambda>w. wl_user w = u) (wallets db) = Some w"
    by (rule find_where_unique [where k = wl_user, OF assms(1) w(1)]) (simp_all add: w(2))
  have db': "db' = db\<lparr>wallets := update_where ?hit (\<lambda>w. w\<lparr>wl_balance := wl_balance w - n\<rparr>) (wallets db)\<rparr>"
    using assms(2) by (simp add: debit_wallets_def Let_def)
  have "find_where (\<lambda>w. wl_user w = v) (wallets db') =
    map_option (\<lambda>w. if ?hit w then w\<lparr>wl_balance := wl_balance w - n\<rparr> else w)
      (find_where (\<lambda>w. wl_user w = v) (wallets db))" for v
    by (simp add: db' find_where_update)
  note after = this
  show "bal v db' = bal v db - (if v = u then n else 0)" for v
    using fw w(3) by (auto simp: bal_def balance_of_def after split: option.splits
        dest: find_where_SomeD)
  show "n \<le> bal u db" using fw w(3) by (simp add: bal_def balance_of_def)
  show "balance_of u db' = Some (bal u db')" using fw by (simp add: bal_def balance_of_def after)
  show "map wl_user (wallets db') = map wl_user (wallets db)"
    by (simp add: db' map_update_where)
qed (use assms in \<open>auto simp: debit_wallets_def Let_def\<close>)

lemma append_ledger_effect:
  assumes "append_ledger t db = Inr db'"
  shows "db' = db\<lparr>ledger := ledger db @ [t]\<rparr>"
  using assms by (simp add: append_ledger_def split: if_splits)

lemma bal_frame: "wallets db' = wallets db \<Longrightarrow> bal u db' = bal u db"
  by (simp add: bal_def balance_of_def)

lemma ledger_total_snoc:
  "ledger db' = ledger db @ [t] \<Longrightarrow>
   ledger_total u db' = ledger_total u db + (if ct_user t = u then ct_amount t else 0)"
  by (simp add: ledger_total_def)

text \<open>A credit, taken apart.\<close>

lemma creditInTransaction_effect:
  assumes "creditInTransaction now inp db = Inr (b, db')"
  shows "0 < ci_amount inp"
    "bal v db' = bal v db + (if v = ci_user inp then ci_amount inp else 0)" "b = bal (ci_user inp) db'"
    "ledger_total v db' = ledger_total v db + (if v = ci_user inp then ci_amount inp else 0)"
    "\<exists>t. ledger db' = ledger db @ [t] \<and> ct_key t = Some (ci_key inp) \<and> ct_type t = ci_type inp
       \<and> ct_amount t = ci_amount inp \<and> ct_balance t = b \<and> ct_user t = ci_user inp"
    "gifts db' = gifts db"
    "distinct (map wl_user (wallets db)) \<Longrightarrow> distinct (map wl_user (wallets db'))"
    "\<forall>t \<in> set (ledger db). ct_key t \<noteq> Some (ci_key inp)"
proof -
  obtain db1 t where pos: "0 < ci_amount inp"
    and inc: "increment_wallet (ci_user inp) (ci_amount inp) (upsert_wallet (ci_user inp) db) = Inr (b, db1)"
    and app: "append_ledger t db1 = Inr db'"
    and t: "ct_key t = Some (ci_key inp)" "ct_type t = ci_type inp" "ct_amount t = ci_amount inp"
      "ct_balance t = b" "ct_user t = ci_user inp"
    using assms
    by (force simp: creditInTransaction_def result_simps split: if_splits)
  note i = increment_wallet_effect [OF inc]
  note a = append_ledger_effect [OF app]
  show "0 < ci_amount inp" by (rule pos)
  show bal: "bal v db' = bal v db + (if v = ci_user inp then ci_amount inp else 0)" for v
    using i(1) [of v] by (simp add: a bal_frame [of "db1\<lparr>ledger := ledger db1 @ [t]\<rparr>" db1])
  show "b = bal (ci_user inp) db'"
    using i(2) by (simp add: a bal_frame [of "db1\<lparr>ledger := ledger db1 @ [t]\<rparr>" db1])
  show "ledger_total v db' = ledger_total v db + (if v = ci_user inp then ci_amount inp else 0)" for v
    using t i(5) by (subst ledger_total_snoc [of db' db t]) (auto simp: a)
  show "\<exists>t. ledger db' = ledger db @ [t] \<and> ct_key t = Some (ci_key inp) \<and> ct_type t = ci_type inp
       \<and> ct_amount t = ci_amount inp \<and> ct_balance t = b \<and> ct_user t = ci_user inp"
    using t i(5) by (simp add: a)
  show "gifts db' = gifts db" using i(6) by (simp add: a)
  show "distinct (map wl_user (wallets db'))" if "distinct (map wl_user (wallets db))"
  proof -
    have "map wl_user (wallets db') = map wl_user (wallets (upsert_wallet (ci_user inp) db))"
      using i(4) by (simp add: a)
    with distinct_upsert [OF that] show ?thesis by simp
  qed
  show "\<forall>t \<in> set (ledger db). ct_key t \<noteq> Some (ci_key inp)"
    using app t i(5) by (auto simp: append_ledger_def split: if_splits)
qed

text \<open>A gift's transaction, taken apart.\<close>

lemma gift_tx_effect:
  assumes dist: "distinct (map wl_user (wallets db))"
    and ne: "gr_sender r \<noteq> gr_recipient r"
    and tx: "gift_tx now today gid r db = Inr (x, db')"
  shows "x = gid"
    and "bal v db' = bal v db - (if v = gr_sender r then gr_amount r else 0)
           + (if v = gr_recipient r then gr_amount r else 0)"
    and "gr_amount r \<le> bal (gr_sender r) db"
    and "\<exists>t1 t2. ledger db' = ledger db @ [t1, t2]
      \<and> ct_user t1 = gr_sender r \<and> ct_type t1 = GIFT_SENT \<and> ct_amount t1 = - gr_amount r
      \<and> ct_balance t1 = bal (gr_sender r) db' \<and> ct_at t1 = now
      \<and> ct_user t2 = gr_recipient r \<and> ct_type t2 = GIFT_RECEIVED \<and> ct_amount t2 = gr_amount r
      \<and> ct_balance t2 = bal (gr_recipient r) db' \<and> ct_at t2 = now
      \<and> ct_related t1 = Some gid \<and> ct_related t2 = Some gid \<and> ct_key t1 = None \<and> ct_key t2 = None"
    and "\<exists>g. gifts db' = gifts db @ [g] \<and> cg_id g = gid \<and> cg_key g = Some (gr_key r)
      \<and> cg_sender g = gr_sender r \<and> cg_recipient g = gr_recipient r \<and> cg_amount g = gr_amount r
      \<and> cg_deliveredAt g = None \<and> cg_attempts g = 0 \<and> cg_createdAt g = now"
    and "distinct (map wl_user (wallets db'))"
    and "find_gift_by_key (gr_key r) db = None" "\<forall>g \<in> set (gifts db). cg_id g \<noteq> gid"
    and "\<bar>sent_since (gr_sender r) today db\<bar> + gr_amount r \<le> GIFT_DAILY_LIMIT"
    and "accounts db' = accounts db" "friendships db' = friendships db"
proof -
  define db1 where "db1 = upsert_wallet (gr_recipient r) (upsert_wallet (gr_sender r) db)"
  define g where "g = gift_row now gid r"
  have lim: "\<bar>sent_since (gr_sender r) today db\<bar> + gr_amount r \<le> GIFT_DAILY_LIMIT"
    using tx by (simp add: gift_tx_def Let_def split: if_splits)
  obtain n db2 where deb0: "debit_wallets (gr_sender r) (gr_amount r) db1 = (n, db2)"
    by fastforce
  with tx lim obtain sb where deb: "debit_wallets (gr_sender r) (gr_amount r) db1 = (1, db2)"
    and sb: "balance_of (gr_sender r) db2 = Some sb"
    and wr: "gift_write now gid r sb db2 = Inr (x, db')"
    by (simp add: gift_tx_def Let_def db1_def split: if_splits option.splits)
  obtain rb db3 db4 where inc: "increment_wallet (gr_recipient r) (gr_amount r) db2 = Inr (rb, db3)"
    and free: "find_gift_by_key (gr_key r) db3 = None" "find_where (\<lambda>g. cg_id g = gid) (gifts db3) = None"
    and a1: "append_ledger (sent_row now gid r sb) (db3\<lparr>gifts := gifts db3 @ [g]\<rparr>) = Inr db4"
    and a2: "append_ledger (received_row now gid r rb) db4 = Inr db'"
    and x: "x = gid"
    using wr by (force simp: gift_write_def g_def result_simps split: if_splits)
  define t1 where "t1 = sent_row now gid r sb"
  define t2 where "t2 = received_row now gid r rb"
  have db': "db' = db3\<lparr>gifts := gifts db3 @ [g], ledger := ledger db3 @ [t1, t2]\<rparr>"
    using append_ledger_effect [OF a1] append_ledger_effect [OF a2] by (simp add: t1_def t2_def)
  have dist1: "distinct (map wl_user (wallets db1))"
    unfolding db1_def by (intro distinct_upsert dist)
  note d = debit_wallets_effect [OF dist1 deb]
  note i = increment_wallet_effect [OF inc]
  have frame: "ledger db3 = ledger db" "gifts db3 = gifts db" "accounts db3 = accounts db"
    "friendships db3 = friendships db"
    using d i by (simp_all add: db1_def)
  have b3: "bal v db' = bal v db3" for v by (rule bal_frame) (simp add: db')
  show "x = gid" by (rule x)
  show "bal v db' = bal v db - (if v = gr_sender r then gr_amount r else 0)
           + (if v = gr_recipient r then gr_amount r else 0)" for v
    using b3 [of v] i(1) [of v] d(1) [of v] by (simp add: db1_def)
  show "gr_amount r \<le> bal (gr_sender r) db" using d(2) by (simp add: db1_def)
  have led: "ledger db' = ledger db @ [t1, t2]" using frame by (simp add: db')
  have sb': "sb = bal (gr_sender r) db'"
    using b3 i(1) [of "gr_sender r"] ne sb by (simp add: bal_def)
  have rb': "rb = bal (gr_recipient r) db'" using b3 i(2) by simp
  show "\<exists>t1 t2. ledger db' = ledger db @ [t1, t2]
      \<and> ct_user t1 = gr_sender r \<and> ct_type t1 = GIFT_SENT \<and> ct_amount t1 = - gr_amount r
      \<and> ct_balance t1 = bal (gr_sender r) db' \<and> ct_at t1 = now
      \<and> ct_user t2 = gr_recipient r \<and> ct_type t2 = GIFT_RECEIVED \<and> ct_amount t2 = gr_amount r
      \<and> ct_balance t2 = bal (gr_recipient r) db' \<and> ct_at t2 = now
      \<and> ct_related t1 = Some gid \<and> ct_related t2 = Some gid \<and> ct_key t1 = None \<and> ct_key t2 = None"
    using sb' rb' by (intro exI [of _ t1] exI [of _ t2], simp only: led)
      (simp add: t1_def t2_def sent_row_def received_row_def)
  show "\<exists>g. gifts db' = gifts db @ [g] \<and> cg_id g = gid \<and> cg_key g = Some (gr_key r)
      \<and> cg_sender g = gr_sender r \<and> cg_recipient g = gr_recipient r \<and> cg_amount g = gr_amount r
      \<and> cg_deliveredAt g = None \<and> cg_attempts g = 0 \<and> cg_createdAt g = now"
    using frame by (intro exI [of _ g]) (simp add: db' g_def gift_row_def)
  show "distinct (map wl_user (wallets db'))"
    using dist1 d(4) i(4) by (simp add: db')
  show "find_gift_by_key (gr_key r) db = None" "\<forall>g \<in> set (gifts db). cg_id g \<noteq> gid"
    using free frame by (simp_all add: find_gift_by_key_def find_where_None_iff)
  show "\<bar>sent_since (gr_sender r) today db\<bar> + gr_amount r \<le> GIFT_DAILY_LIMIT" by (rule lim)
  show "accounts db' = accounts db" "friendships db' = friendships db" using frame by (simp_all add: db')
qed

section \<open>Every operation keeps the ledger consistent\<close>

datatype coin_op =
    OpWallet string
  | OpCredit int credit_input
  | OpGift int int string gift_request
  | OpClaim coin_gift
  | OpDelivered int string

fun coin_exec :: "coin_op \<Rightarrow> coin_db \<Rightarrow> coin_error + (unit \<times> coin_db)" where
  "coin_exec (OpWallet u) db = Inr ((), snd (getWallet u db))"
| "coin_exec (OpCredit now inp) db = bind_res (creditInTransaction now inp db) (\<lambda>(_, db'). Inr ((), db'))"
| "coin_exec (OpGift now today gid r) db = bind_res (gift_tx now today gid r db) (\<lambda>(_, db'). Inr ((), db'))"
| "coin_exec (OpClaim g) db = Inr ((), snd (claim_gift g db))"
| "coin_exec (OpDelivered now gid) db = bind_res (mark_delivered now gid db) (\<lambda>db'. Inr ((), db'))"

text \<open>
  What the callers guarantee: the request body passed its DTO, the sender is not the
  recipient (the first check of \<open>sendGift\<close>), and a credit is not booked as a sent gift.
\<close>

fun coin_allowed :: "coin_op \<Rightarrow> bool" where
  "coin_allowed (OpCredit now inp) = (ci_type inp \<noteq> GIFT_SENT)"
| "coin_allowed (OpGift now today gid r) = (send_gift_dto_ok r \<and> gr_sender r \<noteq> gr_recipient r)"
| "coin_allowed _ = True"

definition money :: "coin_db \<Rightarrow> int" where
  "money db = sum_list (map wl_balance (wallets db))"

lemma sum_update_where:
  assumes "\<And>w. f (g w) = f w + (n::int)"
  shows "sum_list (map f (update_where p g ws)) = sum_list (map f ws) + n * int (count_where p ws)"
  by (induction ws) (auto simp: assms algebra_simps)

lemma money_upsert [simp]: "money (upsert_wallet u db) = money db"
  by (simp add: money_def upsert_wallet_def split: option.splits)

lemma money_gifts [simp]: "money (db\<lparr>gifts := gs\<rparr>) = money db"
  by (simp add: money_def)

lemma money_increment:
  assumes "distinct (map wl_user (wallets db))" "increment_wallet u n db = Inr (b, db')"
  shows "money db' = money db + n"
proof -
  obtain w where w: "w \<in> set (wallets db)" "wl_user w = u"
    using assms(2) by (auto simp: increment_wallet_def balance_of_def split: option.splits if_splits
      dest!: find_where_SomeD)
  have "count_where (\<lambda>w. wl_user w = u) (wallets db) = 1"
    by (rule count_where_unique [where k = wl_user, OF assms(1) w(1)]) (simp_all add: w(2))
  with assms(2) show ?thesis
    by (auto simp: money_def increment_wallet_def sum_update_where split: option.splits if_splits)
qed

lemma money_debit: "debit_wallets u n db = (1, db') \<Longrightarrow> money db' = money db - n"
  by (auto simp: money_def debit_wallets_def Let_def
      sum_update_where [where f = wl_balance and n = "- n"])

lemma money_gift:
  assumes dist: "distinct (map wl_user (wallets db))" and tx: "gift_tx now today gid r db = Inr (x, db')"
  shows "money db' = money db"
proof -
  define db1 where "db1 = upsert_wallet (gr_recipient r) (upsert_wallet (gr_sender r) db)"
  obtain n db2 where deb0: "debit_wallets (gr_sender r) (gr_amount r) db1 = (n, db2)" by fastforce
  with tx obtain sb where deb: "debit_wallets (gr_sender r) (gr_amount r) db1 = (1, db2)"
    and wr: "gift_write now gid r sb db2 = Inr (x, db')"
    by (simp add: gift_tx_def Let_def db1_def split: if_splits option.splits)
  have "distinct (map wl_user (wallets db1))" unfolding db1_def by (intro distinct_upsert dist)
  then have dist2: "distinct (map wl_user (wallets db2))" using debit_wallets_effect(4) [OF _ deb] by simp
  obtain rb db3 where inc: "increment_wallet (gr_recipient r) (gr_amount r) db2 = Inr (rb, db3)"
    and "wallets db' = wallets db3"
    using wr by (force simp: gift_write_def result_simps dest!: append_ledger_effect split: if_splits)
  then have "money db' = money db3" by (simp add: money_def)
  also have "\<dots> = money db2 + gr_amount r" by (rule money_increment [OF dist2 inc])
  also have "\<dots> = money db1" using money_debit [OF deb] by simp
  finally show ?thesis by (simp add: db1_def)
qed

lemma coin_inv_dist: "coin_inv db \<Longrightarrow> distinct (map wl_user (wallets db))"
  and coin_inv_bal: "coin_inv db \<Longrightarrow> bal u db = ledger_total u db"
  and coin_inv_nonneg: "coin_inv db \<Longrightarrow> 0 \<le> bal u db"
  by (auto simp: coin_inv_def)

lemma coin_inv_wallet:
  "coin_inv db \<Longrightarrow> coin_inv (snd (getWallet u db))"
  by (auto simp: coin_inv_def getWallet_def Let_def ledger_total_def intro: distinct_upsert)

lemma coin_inv_credit:
  assumes inv: "coin_inv db" and c: "creditInTransaction now inp db = Inr (b, db')"
    and ty: "ci_type inp \<noteq> GIFT_SENT"
  shows "coin_inv db'"
proof -
  note e = creditInTransaction_effect [OF c]
  have "bal v db' = ledger_total v db' \<and> 0 \<le> ledger_total v db'" for v
    using e(1) e(2) [of v] e(4) [of v] coin_inv_bal [OF inv, of v] coin_inv_nonneg [OF inv, of v] by auto
  moreover have "\<forall>t \<in> set (ledger db'). ct_type t = GIFT_SENT \<longrightarrow> ct_amount t \<le> 0"
    using e(5) ty inv by (auto simp: coin_inv_def)
  ultimately show ?thesis using inv e(6,7) by (simp add: coin_inv_def)
qed

lemma coin_inv_gift:
  assumes inv: "coin_inv db" and tx: "gift_tx now today gid r db = Inr (x, db')"
    and ok: "send_gift_dto_ok r" "gr_sender r \<noteq> gr_recipient r"
  shows "coin_inv db'"
proof -
  note e = gift_tx_effect [OF coin_inv_dist [OF inv] ok(2) tx]
  obtain t1 t2 where t: "ledger db' = ledger db @ [t1, t2]"
      "ct_user t1 = gr_sender r" "ct_amount t1 = - gr_amount r"
      "ct_user t2 = gr_recipient r" "ct_type t2 = GIFT_RECEIVED" "ct_amount t2 = gr_amount r"
    using e(4) by blast
  obtain g where g: "gifts db' = gifts db @ [g]" "cg_id g = gid" "cg_key g = Some (gr_key r)"
    using e(5) by blast
  have "bal v db' = ledger_total v db' \<and> 0 \<le> ledger_total v db'" for v
  proof -
    have "ledger_total v db' = ledger_total v db - (if v = gr_sender r then gr_amount r else 0)
           + (if v = gr_recipient r then gr_amount r else 0)"
      using t by (auto simp: ledger_total_def)
    then show ?thesis
      using e(2) [of v] e(3) ok coin_inv_bal [OF inv, of v] coin_inv_nonneg [OF inv, of v]
      by (auto simp: send_gift_dto_ok_def)
  qed
  moreover have "\<forall>t \<in> set (ledger db'). ct_type t = GIFT_SENT \<longrightarrow> ct_amount t \<le> 0"
    using t ok inv by (auto simp: coin_inv_def send_gift_dto_ok_def)
  moreover have "distinct (map cg_id (gifts db'))"
    using g e(8) inv by (auto simp: coin_inv_def)
  moreover have "distinct (map cg_key (filter gift_keyed (gifts db')))"
    using g e(7) inv by (auto simp: coin_inv_def find_gift_by_key_def find_where_None_iff gift_keyed_def)
  ultimately show ?thesis using e(6) by (simp add: coin_inv_def)
qed

lemma coin_inv_gift_update:
  assumes "coin_inv db" "\<And>g. cg_id (f g) = cg_id g" "\<And>g. cg_key (f g) = cg_key g"
  shows "coin_inv (db\<lparr>gifts := update_where p f (gifts db)\<rparr>)"
proof -
  have "map cg_key (filter gift_keyed (update_where p f gs))
    = map cg_key (filter gift_keyed gs)" for gs
    using assms(3) by (induction gs) (auto simp: gift_keyed_def)
  with assms show ?thesis
    by (simp add: coin_inv_def map_update_where bal_def balance_of_def ledger_total_def)
qed

lemmas gift_column_updates = claim_gift_def mark_delivered_def Let_def

text \<open>What an operation books into the system: only a credit makes coins, and exactly its amount.\<close>

fun credit_of :: "coin_op \<Rightarrow> int" where
  "credit_of (OpCredit now inp) = ci_amount inp"
| "credit_of _ = 0"

lemma money_credit:
  assumes "coin_inv db" "creditInTransaction now inp db = Inr (b, db')"
  shows "money db' = money db + ci_amount inp" "0 < ci_amount inp"
proof -
  obtain b' db1 t where
    c1: "increment_wallet (ci_user inp) (ci_amount inp) (upsert_wallet (ci_user inp) db) = Inr (b', db1)"
    and c2: "append_ledger t db1 = Inr db'" and pos: "0 < ci_amount inp"
    using assms(2) by (force simp: creditInTransaction_def result_simps split: if_splits)
  have "money db1 = money (upsert_wallet (ci_user inp) db) + ci_amount inp"
    by (rule money_increment [OF distinct_upsert [OF coin_inv_dist [OF assms(1)]] c1])
  moreover have "money db' = money db1" using append_ledger_effect [OF c2] by (simp add: money_def)
  ultimately show "money db' = money db + ci_amount inp" "0 < ci_amount inp" using pos by simp_all
qed

lemma money_exec:
  assumes "coin_inv db" "coin_exec x db = Inr (r, db')"
  shows "money db' = money db + credit_of x \<and> 0 \<le> credit_of x"
proof (cases x)
  case (OpCredit now inp)
  with assms show ?thesis by (auto simp: result_simps dest: money_credit)
next
  case (OpGift now today gid r)
  with assms show ?thesis using money_gift [OF coin_inv_dist [OF assms(1)]] by (fastforce simp: result_simps)
qed (use assms in \<open>auto simp: getWallet_def gift_column_updates money_gifts result_simps split: if_splits\<close>)

interpretation coin_tx: transactional_monotone coin_exec "\<lambda>x _. coin_allowed x" coin_inv money
proof
  fix x db r db'
  assume "coin_allowed x" "coin_inv db" "coin_exec x db = Inr (r, db')"
  then show "coin_inv db'"
    by (cases x) (auto simp: result_simps gift_column_updates split: if_splits
        intro: coin_inv_wallet coin_inv_credit coin_inv_gift coin_inv_gift_update)
next
  fix x db r db'
  assume "coin_allowed x" "coin_inv db" "coin_exec x db = Inr (r, db')"
  then show "money db \<le> money db'" using money_exec by fastforce
qed

text \<open>The coins that the credits of a run put into wallets, failed transactions left out.\<close>

fun credited :: "coin_op list \<Rightarrow> coin_db \<Rightarrow> int" where
  "credited [] db = 0"
| "credited (x # xs) db =
     (case coin_exec x db of
        Inl _ \<Rightarrow> credited xs db
      | Inr (_, db') \<Rightarrow> credit_of x + credited xs db')"

lemma money_run:
  "list_all coin_allowed ops \<Longrightarrow> coin_inv db \<Longrightarrow> money (run_ops coin_exec ops db) = money db + credited ops db"
proof (induction ops arbitrary: db)
  case (Cons x ops)
  show ?case
  proof (cases "coin_exec x db")
    case (Inr p)
    then obtain r db' where p: "coin_exec x db = Inr (r, db')" by (cases p) auto
    moreover have "coin_inv db'" using coin_tx.exec_inv Cons.prems p by auto
    ultimately show ?thesis using Cons money_exec [OF Cons.prems(2) p] by simp
  qed (use Cons in simp)
qed simp

section \<open>What the wallet promises\<close>

text \<open>
  The runner taken out: the transaction meets the database of the attempt whose outcome stands.
\<close>

lemma gift_thrown_final: "\<not> isRetryableTransactionError (gift_thrown e)"
  by (simp add: gift_thrown_def isRetryableTransactionError_def)

lemma sendGift_eq:
  assumes "d = others (last_try aborts) db"
  shows "sendGift others aborts rnd now today gid r db =
    (case gift_precheck r db of
       Inl e \<Rightarrow> (Inl (OtherThrown e), db)
     | Inr (Some _) \<Rightarrow> (Inr None, db)
     | Inr None \<Rightarrow>
         (case aborts (last_try aborts) of
            Some t \<Rightarrow> (gift_recover r t d, d)
          | None \<Rightarrow>
              (case gift_tx now today (gid (last_try aborts)) r d of
                 Inr (g, db2) \<Rightarrow> (Inr (Some g), db2)
               | Inl e \<Rightarrow> (gift_recover r (gift_thrown e) d, d))))"
proof -
  let ?att = "gift_attempt (\<lambda>n. others n db) aborts now today gid r"
  obtain res ds where run: "runSerializableTransaction NoAttempt rnd None None None ?att = (res, ds)" by fastforce
  have 1: "?att n = Inl err \<Longrightarrow> isRetryableTransactionError err \<Longrightarrow> aborts n = Some err" for n err
    using gift_thrown_final by (auto simp: gift_attempt_def split: option.splits sum.splits)
  have 2: "aborts n = Some err \<Longrightarrow> ?att n = Inl err" for n err
    by (simp add: gift_attempt_def)
  have "res = ?att (last_try aborts)" "Suc (length ds) = last_try aborts"
    by (rule runSerializableTransaction_final [OF 1 2 run], assumption+)+
  with run assms show ?thesis
    by (auto simp: sendGift_def gift_attempt_def Let_def split: sum.split option.split prod.split)
qed

lemma sendGift_SomeD:
  assumes "sendGift others aborts rnd now today gid r db = (Inr (Some g), db')"
    and "d = others (last_try aborts) db"
  shows "gift_precheck r db = Inr None" "gift_tx now today (gid (last_try aborts)) r d = Inr (g, db')"
  using assms(1) unfolding sendGift_eq [where others = others and aborts = aborts, OF assms(2)]
  by (auto simp: gift_recover_def split: sum.splits option.splits if_splits prod.splits)

lemma gift_precheck_okD:
  assumes "gift_precheck r db = Inr x"
  shows "gr_sender r \<noteq> gr_recipient r" "gr_amount r \<le> GIFT_MAX_SINGLE"
    "are_friends (gr_sender r) (gr_recipient r) db"
  using assms by (auto simp: gift_precheck_def split: if_splits option.splits)

lemma gift_moves_amount_parts:
  assumes "d = others (last_try aborts) db" "coin_inv d"
    and "sendGift others aborts rnd now today gid r db = (Inr (Some g), db')"
  shows "bal v db' = bal v d - (if v = gr_sender r then gr_amount r else 0)
           + (if v = gr_recipient r then gr_amount r else 0)"
    and "money db' = money d"
    and "gr_amount r \<le> GIFT_MAX_SINGLE" "gr_amount r \<le> bal (gr_sender r) d"
    and "\<exists>t1 t2. ledger db' = ledger d @ [t1, t2]
      \<and> ct_user t1 = gr_sender r \<and> ct_amount t1 = - gr_amount r \<and> ct_balance t1 = bal (gr_sender r) db'
      \<and> ct_user t2 = gr_recipient r \<and> ct_amount t2 = gr_amount r \<and> ct_balance t2 = bal (gr_recipient r) db'"
proof -
  note s = sendGift_SomeD [OF assms(3,1)]
  note p = gift_precheck_okD [OF s(1)]
  note e = gift_tx_effect [OF coin_inv_dist [OF assms(2)] p(1) s(2)]
  show "bal v db' = bal v d - (if v = gr_sender r then gr_amount r else 0)
           + (if v = gr_recipient r then gr_amount r else 0)" for v by (rule e(2))
  show "money db' = money d" by (rule money_gift [OF coin_inv_dist [OF assms(2)] s(2)])
  show "gr_amount r \<le> GIFT_MAX_SINGLE" "gr_amount r \<le> bal (gr_sender r) d"
    by (rule p(2), rule e(3))
  show "\<exists>t1 t2. ledger db' = ledger d @ [t1, t2]
      \<and> ct_user t1 = gr_sender r \<and> ct_amount t1 = - gr_amount r \<and> ct_balance t1 = bal (gr_sender r) db'
      \<and> ct_user t2 = gr_recipient r \<and> ct_amount t2 = gr_amount r \<and> ct_balance t2 = bal (gr_recipient r) db'"
    using e(4) by blast
qed

text \<open>
  C2: a gift that goes through moves exactly its amount, however often the database made its
  transaction start again. On the database \<open>d\<close> that its last attempt met, the sender's balance falls by it, the
  recipient's rises by it, nobody else's changes and no money is made or lost; it is
  at most 10000 and at most what the sender had, and the ledger gains exactly the
  two rows that say so.
\<close>

theorem gift_moves_amount:
  assumes "d = others (last_try aborts) db" "coin_inv d"
    and "sendGift others aborts rnd now today gid r db = (Inr (Some g), db')"
  shows "bal v db' = bal v d - (if v = gr_sender r then gr_amount r else 0)
           + (if v = gr_recipient r then gr_amount r else 0)
    \<and> money db' = money d
    \<and> gr_amount r \<le> GIFT_MAX_SINGLE \<and> gr_amount r \<le> bal (gr_sender r) d
    \<and> (\<exists>t1 t2. ledger db' = ledger d @ [t1, t2]
      \<and> ct_user t1 = gr_sender r \<and> ct_amount t1 = - gr_amount r \<and> ct_balance t1 = bal (gr_sender r) db'
      \<and> ct_user t2 = gr_recipient r \<and> ct_amount t2 = gr_amount r \<and> ct_balance t2 = bal (gr_recipient r) db')"
  by (intro conjI gift_moves_amount_parts [OF assms])

text \<open>A small bank: \<open>a\<close> holds 100 coins, \<open>b\<close> has no wallet yet, and they are friends.\<close>

definition demo_bank :: coin_db where
  "demo_bank = \<lparr>wallets = [\<lparr>wl_user = ''a'', wl_balance = 100\<rparr>],
     ledger = [\<lparr>ct_user = ''a'', ct_type = RECHARGE, ct_amount = 100, ct_balance = 100, ct_note = None,
       ct_related = None, ct_key = None, ct_at = 0\<rparr>],
     gifts = [], accounts = [\<lparr>ac_id = ''b'', ac_status = ACTIVE\<rparr>],
     friendships = [\<lparr>fr_user = ''b'', fr_friend = ''a'', fr_state = ACCEPTED\<rparr>]\<rparr>"

definition demo_gift :: gift_request where
  "demo_gift = \<lparr>gr_sender = ''a'', gr_recipient = ''b'', gr_amount = 30, gr_key = ''k1'',
     gr_message = None\<rparr>"

definition demo_bank_1 :: coin_db where
  "demo_bank_1 = demo_bank\<lparr>wallets := [\<lparr>wl_user = ''a'', wl_balance = 70\<rparr>, \<lparr>wl_user = ''b'', wl_balance = 30\<rparr>],
     ledger := ledger demo_bank @ [sent_row 9 ''g1'' demo_gift 70, received_row 9 ''g1'' demo_gift 30],
     gifts := [gift_row 9 ''g1'' demo_gift]\<rparr>"

lemma demo_bank_inv: "coin_inv demo_bank"
proof -
  have "bal u demo_bank = ledger_total u demo_bank \<and> 0 \<le> ledger_total u demo_bank" for u
    by (auto simp: bal_def balance_of_def ledger_total_def demo_bank_def)
  then show ?thesis by (simp add: coin_inv_def demo_bank_def)
qed

lemmas gift_eval = gift_precheck_def gift_tx_def gift_write_def debit_wallets_def
  increment_wallet_def upsert_wallet_def balance_of_def append_ledger_def sent_since_def are_friends_def
  find_gift_by_key_def gift_recover_def gift_thrown_def assertIdempotentReplayMatches_def
  GIFT_MAX_SINGLE_def GIFT_DAILY_LIMIT_def int4_def int4_max_def Let_def

text \<open>A database that rolls the first attempt back with a serialization failure.\<close>

definition demo_aborts :: "nat \<Rightarrow> coin_error thrown option" where
  "demo_aborts n = (if n = 1 then Some (KnownRequest ''P2010'' (Some ''40001'')) else None)"

lemma demo_send:
  "sendGift (\<lambda>_ d. d) (\<lambda>_. None) (\<lambda>_. 0) 9 0 (\<lambda>_. ''g1'') demo_gift demo_bank = (Inr (Some ''g1''), demo_bank_1)"
  unfolding sendGift_eq [where others = "\<lambda>_ d. d", OF refl]
  by (simp add: gift_eval demo_bank_def demo_bank_1_def demo_gift_def sent_row_def received_row_def gift_row_def)

theorem gift_moves_amount_witness:
  "bal ''a'' demo_bank_1 = 70 \<and> bal ''b'' demo_bank_1 = 30 \<and> money demo_bank_1 = 100"
  using gift_moves_amount [OF refl _ demo_send, of "''a''"] gift_moves_amount [OF refl _ demo_send, of "''b''"]
    demo_bank_inv
  by (simp add: demo_gift_def money_def, simp add: bal_def balance_of_def demo_bank_def)

lemma gift_key_pays_once_parts:
  assumes "d = others (last_try aborts) db" "coin_inv d" "coin_inv db" "send_gift_dto_ok r"
    and "sendGift others aborts rnd now today gid r db = (res, db')"
  shows "count_where (\<lambda>g. cg_key g = Some (gr_key r)) (gifts db') \<le> 1"
    and "find_gift_by_key (gr_key r) d = Some w \<Longrightarrow> gift_precheck r db = Inr None \<Longrightarrow>
      db' = d \<and> (is_ok res \<longrightarrow> cg_sender w = gr_sender r \<and> cg_recipient w = gr_recipient r
        \<and> cg_amount w = gr_amount r)"
proof -
  note run = assms(5) [unfolded sendGift_eq [where others = others and aborts = aborts, OF assms(1)]]
  have "coin_inv db'"
    using run assms(2-4)
    by (auto split: sum.splits option.splits prod.splits dest: gift_precheck_okD coin_inv_gift)
  then have "distinct (map cg_key (filter gift_keyed (gifts db')))" by (simp add: coin_inv_def)
  then have "count_where (\<lambda>g. cg_key g = Some (gr_key r)) (filter gift_keyed (gifts db')) \<le> 1"
    by (rule count_where_unique_le)
  moreover have "count_where (\<lambda>g. cg_key g = Some (gr_key r)) (filter gift_keyed (gifts db')) =
      count_where (\<lambda>g. cg_key g = Some (gr_key r)) (gifts db')"
    by (simp only: count_where_def filter_filter) (rule arg_cong [of _ _ length], rule filter_cong,
        auto simp: gift_keyed_def)
  ultimately show "count_where (\<lambda>g. cg_key g = Some (gr_key r)) (gifts db') \<le> 1" by simp
  show "db' = d \<and> (is_ok res \<longrightarrow> cg_sender w = gr_sender r \<and> cg_recipient w = gr_recipient r
        \<and> cg_amount w = gr_amount r)"
    if w: "find_gift_by_key (gr_key r) d = Some w" and pre: "gift_precheck r db = Inr None"
  proof -
    have "gr_sender r \<noteq> gr_recipient r" using gift_precheck_okD [OF pre] by simp
    then have "\<not> (\<exists>x. gift_tx now today (gid (last_try aborts)) r d = Inr x)"
      using w gift_tx_effect(7) [OF coin_inv_dist [OF assms(2)]] by (metis option.distinct(1) surj_pair)
    then show ?thesis
      using run pre w
      by (auto simp: gift_recover_def assertIdempotentReplayMatches_def is_ok_def
          split: sum.splits if_splits option.splits)
  qed
qed

text \<open>
  C3: a key pays once. Whatever other requests did between the checks and the transaction and
  between its attempts, no outcome of \<open>sendGift\<close> leaves two gifts with the request's key; when the key was taken
  by the database \<open>d\<close> of the last attempt, nothing is charged, and the request succeeds exactly if the winner is
  the same gift (same sender, recipient and amount).
\<close>

theorem gift_key_pays_once:
  assumes "d = others (last_try aborts) db" "coin_inv d" "coin_inv db" "send_gift_dto_ok r"
    and "sendGift others aborts rnd now today gid r db = (res, db')"
  shows "count_where (\<lambda>g. cg_key g = Some (gr_key r)) (gifts db') \<le> 1
    \<and> (\<forall>w. find_gift_by_key (gr_key r) d = Some w \<and> gift_precheck r db = Inr None \<longrightarrow>
      db' = d \<and> (is_ok res \<longrightarrow> cg_sender w = gr_sender r \<and> cg_recipient w = gr_recipient r
        \<and> cg_amount w = gr_amount r))"
  using gift_key_pays_once_parts [OF assms] by blast

text \<open>
  In the witness the same request runs twice concurrently: the second one passed its checks on
  the database before the first, its first attempt met that database and was rolled back, and its second
  attempt meets the database after the first request.
\<close>

lemma demo_retry: "last_try demo_aborts = 2"
  by (simp add: last_try_def DEFAULT_MAX_ATTEMPTS_def numeral_eq_Suc demo_aborts_def
      isRetryableTransactionError_def RETRYABLE_SQLSTATES_def)

theorem gift_key_pays_once_witness:
  "fst (sendGift (\<lambda>n d. if n = 1 then d else demo_bank_1) demo_aborts (\<lambda>_. 0) 9 0 (\<lambda>_. ''g2'') demo_gift demo_bank)
     = Inr None
   \<and> snd (sendGift (\<lambda>n d. if n = 1 then d else demo_bank_1) demo_aborts (\<lambda>_. 0) 9 0 (\<lambda>_. ''g2'') demo_gift demo_bank)
     = demo_bank_1
   \<and> count_where (\<lambda>g. cg_key g = Some ''k1'') (gifts demo_bank_1) \<le> 1"
proof -
  have inv1: "coin_inv demo_bank_1"
    using coin_inv_gift [OF demo_bank_inv, of 9 0 "''g1''" demo_gift] sendGift_SomeD(2) [OF demo_send refl]
    by (simp add: send_gift_dto_ok_def demo_gift_def)
  have run: "sendGift (\<lambda>n d. if n = 1 then d else demo_bank_1) demo_aborts (\<lambda>_. 0) 9 0 (\<lambda>_. ''g2'') demo_gift demo_bank
      = (Inr None, demo_bank_1)"
    unfolding sendGift_eq [where others = "\<lambda>n d. if n = 1 then d else demo_bank_1", OF refl] demo_retry
    by (simp add: gift_eval demo_aborts_def demo_bank_def demo_bank_1_def demo_gift_def sent_row_def
        received_row_def gift_row_def)
  show ?thesis
    using run gift_key_pays_once [OF refl _ demo_bank_inv _ run] inv1
    by (simp add: demo_gift_def send_gift_dto_ok_def demo_retry)
qed

lemma gift_daily_limit_parts:
  assumes "d = others (last_try aborts) db" "coin_inv d" "send_gift_dto_ok r"
    and "sendGift others aborts rnd now today gid r db = (Inr (Some g), db')" "today \<le> now"
  shows "- GIFT_DAILY_LIMIT \<le> sent_since (gr_sender r) today db'"
    and "sent_since (gr_sender r) today db' = sent_since (gr_sender r) today d - gr_amount r"
proof -
  note s = sendGift_SomeD [OF assms(4,1)]
  note p = gift_precheck_okD [OF s(1)]
  note e = gift_tx_effect [OF coin_inv_dist [OF assms(2)] p(1) s(2)]
  obtain t1 t2 where t: "ledger db' = ledger d @ [t1, t2]"
      "ct_user t1 = gr_sender r" "ct_type t1 = GIFT_SENT" "ct_amount t1 = - gr_amount r" "ct_at t1 = now"
      "ct_type t2 = GIFT_RECEIVED"
    using e(4) by blast
  show step: "sent_since (gr_sender r) today db' = sent_since (gr_sender r) today d - gr_amount r"
    using t assms(5) by (simp add: sent_since_def)
  have "sent_since (gr_sender r) today d \<le> 0"
    unfolding sent_since_def by (rule sum_where_nonpos) (use assms(2) in \<open>auto simp: coin_inv_def\<close>)
  with step e(9) show "- GIFT_DAILY_LIMIT \<le> sent_since (gr_sender r) today db'" by linarith
qed

text \<open>
  C26: a sender never gives away more than 50000 coins in a day: after a gift that went through,
  the \<open>GIFT_SENT\<close> rows of the sender since midnight add up to at least -50000.
\<close>

theorem gift_daily_limit:
  assumes "d = others (last_try aborts) db" "coin_inv d" "send_gift_dto_ok r"
    and "sendGift others aborts rnd now today gid r db = (Inr (Some g), db')" "today \<le> now"
  shows "- GIFT_DAILY_LIMIT \<le> sent_since (gr_sender r) today db'
    \<and> sent_since (gr_sender r) today db' = sent_since (gr_sender r) today d - gr_amount r"
  by (intro conjI gift_daily_limit_parts [OF assms])

theorem gift_daily_limit_witness:
  "- GIFT_DAILY_LIMIT \<le> sent_since ''a'' 0 demo_bank_1 \<and> sent_since ''a'' 0 demo_bank_1 = - 30"
  using gift_daily_limit [OF refl _ _ demo_send] demo_bank_inv
  by (simp add: demo_gift_def send_gift_dto_ok_def, simp add: sent_since_def demo_bank_def)

lemma reconcile_clean:
  assumes inv: "coin_inv db"
  shows "rc_ledgerMismatches (reconcile db) = 0 \<and> rc_negativeBalances (reconcile db) = 0"
proof -
  have w: "wl_balance w = bal (wl_user w) db" if "w \<in> set (wallets db)" for w
  proof -
    have "find_where (\<lambda>x. wl_user x = wl_user w) (wallets db) = Some w"
      by (rule find_where_unique [where k = wl_user, OF coin_inv_dist [OF inv] that]) simp_all
    then show ?thesis by (simp add: bal_def balance_of_def)
  qed
  have "ledger_total u db = 0" if "u \<in> set (walletless_users db)" for u
  proof -
    have "balance_of u db = None"
      using that by (force simp: walletless_users_def balance_of_def find_where_None_iff)
    then show ?thesis using coin_inv_bal [OF inv, of u] by (simp add: bal_def)
  qed
  then show ?thesis
    using w coin_inv_bal [OF inv] coin_inv_nonneg [OF inv]
    by (auto simp: reconcile_def count_where_0_iff not_less)
qed

definition empty_coin_db :: coin_db where
  "empty_coin_db = \<lparr>wallets = [], ledger = [], gifts = [], accounts = [], friendships = []\<rparr>"

lemma history_reconciles_parts:
  assumes "list_all coin_allowed ops"
  shows "rc_ledgerMismatches (reconcile (run_ops coin_exec ops empty_coin_db)) = 0"
    and "rc_negativeBalances (reconcile (run_ops coin_exec ops empty_coin_db)) = 0"
    and "money (run_ops coin_exec ops empty_coin_db) = credited ops empty_coin_db"
proof -
  have empty: "coin_inv empty_coin_db"
    by (simp add: coin_inv_def bal_def balance_of_def ledger_total_def empty_coin_db_def)
  have "coin_inv (run_ops coin_exec ops empty_coin_db)"
    by (rule coin_tx.run_inv [OF run_allowed_const [OF assms] empty])
  then show "rc_ledgerMismatches (reconcile (run_ops coin_exec ops empty_coin_db)) = 0"
    "rc_negativeBalances (reconcile (run_ops coin_exec ops empty_coin_db)) = 0"
    using reconcile_clean by blast+
  show "money (run_ops coin_exec ops empty_coin_db) = credited ops empty_coin_db"
    using money_run [OF assms empty] by (simp add: money_def empty_coin_db_def)
qed

text \<open>
  C1: the nightly reconciliation is clean after any history: starting from an empty database,
  whatever sequence of wallets, credits, gifts, card claims and receipts the service
  performed (failed transactions included), every balance equals the sum of the
  user's ledger rows and none is negative, and the coins in all wallets together are exactly those
  that successful credits put in: gifts, claims and receipts neither make nor burn any.
\<close>

theorem history_reconciles:
  assumes "list_all coin_allowed ops"
  shows "rc_ledgerMismatches (reconcile (run_ops coin_exec ops empty_coin_db)) = 0
    \<and> rc_negativeBalances (reconcile (run_ops coin_exec ops empty_coin_db)) = 0
    \<and> money (run_ops coin_exec ops empty_coin_db) = credited ops empty_coin_db"
  by (intro conjI history_reconciles_parts [OF assms])

definition demo_ops :: "coin_op list" where
  "demo_ops = [OpWallet ''a'', OpCredit 1 \<lparr>ci_user = ''a'', ci_amount = 50, ci_type = REFERRAL_BONUS,
       ci_note = ''n'', ci_related = ''r'', ci_key = ''k''\<rparr>,
     OpGift 2 0 ''g'' \<lparr>gr_sender = ''a'', gr_recipient = ''b'', gr_amount = 20, gr_key = ''x'', gr_message = None\<rparr>,
     OpGift 3 0 ''g'' \<lparr>gr_sender = ''b'', gr_recipient = ''a'', gr_amount = 40, gr_key = ''y'', gr_message = None\<rparr>]"

lemma demo_ops_credited: "credited demo_ops empty_coin_db = 50"
  by (simp add: demo_ops_def empty_coin_db_def creditInTransaction_def getWallet_def gift_eval
      sent_row_def received_row_def gift_row_def)

theorem history_reconciles_witness:
  "rc_ledgerMismatches (reconcile (run_ops coin_exec demo_ops empty_coin_db)) = 0
   \<and> money (run_ops coin_exec demo_ops empty_coin_db) = 50"
  using history_reconciles [of demo_ops] demo_ops_credited
  by (simp add: demo_ops_def send_gift_dto_ok_def)

section \<open>What the card outbox promises\<close>

lemma ensure_direct_inv:
  assumes "chat_inv chat" "ensureDirectConversationForSettlement (\<lambda>d. d) i a b chat = (chat', r)"
  shows "chat_inv chat'"
  using assms
  by (auto simp: ensureDirectConversationForSettlement_def Let_def
      split: option.splits sum.splits intro: create_direct_inv)

lemma deliver_cardE:
  assumes "deliver_card h now out ci mi g s = (ok, s')"
  obtains (none) "\<not> ok" "s' = s"
  | (opened) chat1 r where "ensureDirectConversationForSettlement (\<lambda>d. d) ci (cg_sender g) (cg_recipient g) (cs_chat s) = (chat1, r)"
      "\<not> ok" "s' = s\<lparr>cs_chat := chat1\<rparr>"
  | (stored) chat1 c d chat2 where
      "ensureDirectConversationForSettlement (\<lambda>d. d) ci (cg_sender g) (cg_recipient g) (cs_chat s) = (chat1, Inr c)"
      "storeServerMessage h now mi (\<lambda>_. Inr ()) c (card_input g) chat1 = Inr (d, chat2)"
      "\<not> ok \<and> s' = s\<lparr>cs_chat := chat2\<rparr>
       \<or> ok \<and> out = NoOutage \<and> (\<exists>coin2. mark_delivered now (cg_id g) (cs_coin s) = Inr coin2
                 \<and> s' = s\<lparr>cs_chat := chat2, cs_coin := coin2\<rparr>)"
proof (cases "out = BeforeMessage")
  case True
  with assms none show ?thesis by (simp add: deliver_card_def)
next
  case False
  obtain chat1 r where en: "ensureDirectConversationForSettlement (\<lambda>d. d) ci (cg_sender g) (cg_recipient g) (cs_chat s)
    = (chat1, r)" by fastforce
  show ?thesis
  proof (cases r)
    case (Inl e)
    with assms False en opened show ?thesis by (simp add: deliver_card_def)
  next
    case (Inr c)
    show ?thesis
    proof (cases "storeServerMessage h now mi (\<lambda>_. Inr ()) c (card_input g) chat1")
      case (Inl e)
      with assms False en Inr opened show ?thesis by (simp add: deliver_card_def insertServerMessage_def)
    next
      case st: (Inr p)
      obtain d chat2 where p: "p = (d, chat2)" by fastforce
      have "(ok, s') = (if out = AfterMessage then (False, s\<lparr>cs_chat := chat2\<rparr>)
        else case mark_delivered now (cg_id g) (cs_coin s) of
               Inl _ \<Rightarrow> (False, s\<lparr>cs_chat := chat2\<rparr>) | Inr coin2 \<Rightarrow> (True, s\<lparr>cs_chat := chat2, cs_coin := coin2\<rparr>))"
        using assms False en Inr st p by (simp add: deliver_card_def insertServerMessage_def split: if_splits)
      with False have "\<not> ok \<and> s' = s\<lparr>cs_chat := chat2\<rparr>
       \<or> ok \<and> out = NoOutage \<and> (\<exists>coin2. mark_delivered now (cg_id g) (cs_coin s) = Inr coin2
                 \<and> s' = s\<lparr>cs_chat := chat2, cs_coin := coin2\<rparr>)"
        by (cases out) (auto split: sum.splits)
      with stored en Inr st p show ?thesis by simp
    qed
  qed
qed

lemma ensure_direct_msgs:
  "ensureDirectConversationForSettlement (\<lambda>d. d) i a b chat = (chat', r) \<Longrightarrow> msgs chat' = msgs chat"
  by (auto simp: ensureDirectConversationForSettlement_def create_direct_def Let_def
      split: option.splits if_splits)

lemma deliver_card_inv:
  assumes "deliver_card h now out ci mi g s = (ok, s')" "chat_inv (cs_chat s)"
  shows "chat_inv (cs_chat s')"
    "cs_coin s' = cs_coin s \<or> mark_delivered now (cg_id g) (cs_coin s) = Inr (cs_coin s')"
proof -
  show "chat_inv (cs_chat s')"
    using assms(1)
  proof (cases rule: deliver_cardE)
    case (stored chat1 c d chat2)
    have "chat_inv chat1" by (rule ensure_direct_inv [OF assms(2) stored(1)])
    then have "chat_inv chat2" using stored(2) by (auto simp: storeServerMessage_Inr_iff intro: insertServerMessage_tx_inv)
    with stored(3) show ?thesis by auto
  qed (use assms(2) ensure_direct_inv in auto)
  show "cs_coin s' = cs_coin s \<or> mark_delivered now (cg_id g) (cs_coin s) = Inr (cs_coin s')"
    using assms(1) by (cases rule: deliver_cardE) auto
qed

text \<open>The retries of a gift's card so far.\<close>

definition attempts_of :: "string \<Rightarrow> coin_db \<Rightarrow> nat" where
  "attempts_of i db = (case find_where (\<lambda>g. cg_id g = i) (gifts db) of None \<Rightarrow> 0 | Some g \<Rightarrow> cg_attempts g)"

definition attempts_bounded :: "coin_db \<Rightarrow> bool" where
  "attempts_bounded db \<longleftrightarrow> (\<forall>g \<in> set (gifts db). cg_attempts g \<le> GIFT_CARD_MAX_ATTEMPTS)"

definition cards_ok :: "coin_sys \<Rightarrow> bool" where
  "cards_ok s \<longleftrightarrow> distinct (map cg_id (gifts (cs_coin s))) \<and> attempts_bounded (cs_coin s) \<and> chat_inv (cs_chat s)"

text \<open>How the tables may move under everybody's requests: no gift's counter goes back.\<close>

definition cards_advance :: "coin_sys \<Rightarrow> coin_sys \<Rightarrow> bool" where
  "cards_advance s s' \<longleftrightarrow> cards_ok s' \<and> (\<forall>i. attempts_of i (cs_coin s) \<le> attempts_of i (cs_coin s'))"

interpretation cards: interleaved cards_advance cards_ok
  by unfold_locales (auto simp: cards_advance_def intro: order_trans)

lemma attempts_of_bound: "attempts_bounded db \<Longrightarrow> attempts_of i db \<le> GIFT_CARD_MAX_ATTEMPTS"
  by (auto simp: attempts_of_def attempts_bounded_def split: option.split dest: find_where_SomeD)

lemma distinct_gift_update:
  "(\<And>g. cg_id (f g) = cg_id g) \<Longrightarrow> map cg_id (update_where p f gs) = map cg_id gs"
  by (simp add: map_update_where)

lemma attempts_of_mark:
  "mark_delivered now gid db = Inr db' \<Longrightarrow> attempts_of i db' = attempts_of i db"
  by (auto simp: mark_delivered_def attempts_of_def find_where_update split: if_splits option.splits)

lemma mark_advance:
  assumes "cards_ok s" "mark_delivered now gid (cs_coin s) = Inr coin2"
  shows "cards_advance s (s\<lparr>cs_coin := coin2\<rparr>)"
proof -
  have "gifts coin2 = update_where (\<lambda>g. cg_id g = gid) (\<lambda>g. g\<lparr>cg_deliveredAt := Some now\<rparr>) (gifts (cs_coin s))"
    using assms(2) by (auto simp: mark_delivered_def split: if_splits)
  then have "cards_ok (s\<lparr>cs_coin := coin2\<rparr>)"
    using assms(1) by (auto simp: cards_ok_def attempts_bounded_def distinct_gift_update elim!: in_update_whereE)
  then show ?thesis by (simp add: cards_advance_def attempts_of_mark [OF assms(2)])
qed

lemma deliver_advance:
  assumes "deliver_card h now out ci mi g s = (ok, s')" "cards_ok s"
  shows "cards_advance s s'"
proof -
  have chat: "chat_inv (cs_chat s')" using deliver_card_inv(1) [OF assms(1)] assms(2) by (simp add: cards_ok_def)
  from deliver_card_inv(2) [OF assms(1)] assms(2)
  have "cs_coin s' = cs_coin s \<or> mark_delivered now (cg_id g) (cs_coin s) = Inr (cs_coin s')" by (simp add: cards_ok_def)
  then show ?thesis
  proof
    assume "cs_coin s' = cs_coin s"
    with chat assms(2) show ?thesis by (simp add: cards_advance_def cards_ok_def)
  next
    assume "mark_delivered now (cg_id g) (cs_coin s) = Inr (cs_coin s')"
    from mark_advance [OF assms(2) this] chat show ?thesis by (simp add: cards_advance_def cards_ok_def)
  qed
qed

text \<open>A claim that wins counts: exactly one attempt, of exactly this gift.\<close>

lemma claim_counts:
  assumes ok: "cards_ok s" and g: "cg_attempts g < GIFT_CARD_MAX_ATTEMPTS"
    and cl: "claim_gift g (cs_coin s) = (k, coin1)"
  shows "cards_ok (s\<lparr>cs_coin := coin1\<rparr>)"
    and "attempts_of i coin1 = attempts_of i (cs_coin s) + (if i = cg_id g \<and> k \<noteq> 0 then 1 else 0)"
proof -
  let ?hit = "\<lambda>x. cg_id x = cg_id g \<and> cg_deliveredAt x = None \<and> cg_attempts x = cg_attempts g"
  have c1: "gifts coin1 = update_where ?hit (\<lambda>x. x\<lparr>cg_attempts := cg_attempts x + 1\<rparr>) (gifts (cs_coin s))"
    and k: "k = count_where ?hit (gifts (cs_coin s))"
    using cl by (auto simp: claim_gift_def Let_def)
  show "cards_ok (s\<lparr>cs_coin := coin1\<rparr>)"
    using ok g by (auto simp: cards_ok_def attempts_bounded_def c1 distinct_gift_update elim!: in_update_whereE)
  have found: "find_where (\<lambda>x. cg_id x = i) (gifts coin1) =
    map_option (\<lambda>x. if ?hit x then x\<lparr>cg_attempts := cg_attempts x + 1\<rparr> else x)
      (find_where (\<lambda>x. cg_id x = i) (gifts (cs_coin s)))"
    by (simp add: c1 find_where_update cong: if_cong)
  have dist: "distinct (map cg_id (gifts (cs_coin s)))" using ok by (simp add: cards_ok_def)
  show "attempts_of i coin1 = attempts_of i (cs_coin s) + (if i = cg_id g \<and> k \<noteq> 0 then 1 else 0)"
  proof (cases "i = cg_id g \<and> k \<noteq> 0")
    case True
    then obtain x where x: "x \<in> set (gifts (cs_coin s))" "?hit x"
      using k count_where_pos_iff [of ?hit "gifts (cs_coin s)"] by auto
    have "find_where (\<lambda>x. cg_id x = i) (gifts (cs_coin s)) = Some x"
      using x True by (intro find_where_unique [where k = cg_id, OF dist]) auto
    with True x found show ?thesis by (simp add: attempts_of_def)
  next
    case False
    then have "\<not> ?hit x" if "find_where (\<lambda>x. cg_id x = i) (gifts (cs_coin s)) = Some x" for x
      using find_where_SomeD [OF that] k by (auto simp: count_where_0_iff)
    with False found show ?thesis by (auto simp: attempts_of_def split: option.split)
  qed
qed

text \<open>
  The deliveries that one round starts: the ids of the gifts whose claim it wins, in order. It runs the
  same steps as \<open>compensate_loop\<close>, and records them.
\<close>

fun started ::
  "(string \<Rightarrow> string) \<Rightarrow> int \<Rightarrow> (coin_gift \<Rightarrow> card_env) \<Rightarrow> coin_gift list \<Rightarrow> coin_sys \<Rightarrow> string list" where
  "started h now env [] s = []"
| "started h now env (g # gs) s =
     (let s1 = ce_others (env g) s;
          (claimed, coin1) = claim_gift g (cs_coin s1);
          s2 = s1\<lparr>cs_coin := coin1\<rparr>
      in if claimed = 0 then started h now env gs s2
         else cg_id g # started h now env gs
                (snd (deliver_card h now (ce_outage (env g)) (ce_convId (env g)) (ce_msgId (env g)) g s2)))"

lemma started_length: "length (started h now env gs s) \<le> length gs"
  by (induction gs arbitrary: s) (simp_all add: Let_def le_SucI split: prod.split)

lemma delivered_le_started:
  "fst (compensate_loop h now env gs s) \<le> length (started h now env gs s)"
proof (induction gs arbitrary: s)
  case (Cons g gs)
  define s1 where "s1 = ce_others (env g) s"
  obtain k coin1 where cl: "claim_gift g (cs_coin s1) = (k, coin1)" by fastforce
  obtain ok s3 where dl: "deliver_card h now (ce_outage (env g)) (ce_convId (env g)) (ce_msgId (env g)) g
    (s1\<lparr>cs_coin := coin1\<rparr>) = (ok, s3)" by fastforce
  show ?case
    using Cons.IH [of "s1\<lparr>cs_coin := coin1\<rparr>"] Cons.IH [of s3]
    by (auto simp: Let_def s1_def [symmetric] cl dl split: prod.split)
qed simp

lemma started_counted:
  assumes "compensate_loop h now env gs s = (n, s')"
    and "\<And>g t. g \<in> set gs \<Longrightarrow> cards_ok t \<Longrightarrow> cards_advance t (ce_others (env g) t)"
    and "\<forall>g \<in> set gs. cg_attempts g < GIFT_CARD_MAX_ATTEMPTS"
    and "cards_ok s"
  shows "cards_ok s' \<and>
    attempts_of i (cs_coin s) + count_list (started h now env gs s) i \<le> attempts_of i (cs_coin s')"
  using assms
proof (induction gs arbitrary: s n s')
  case (Cons g gs)
  define s1 where "s1 = ce_others (env g) s"
  obtain k coin1 where cl: "claim_gift g (cs_coin s1) = (k, coin1)" by fastforce
  define s2 where "s2 = s1\<lparr>cs_coin := coin1\<rparr>"
  obtain ok s3 where dl: "deliver_card h now (ce_outage (env g)) (ce_convId (env g)) (ce_msgId (env g)) g s2
    = (ok, s3)" by fastforce
  have 1: "cards_ok s1" "attempts_of i (cs_coin s) \<le> attempts_of i (cs_coin s1)"
    using Cons.prems(2) [of g s] Cons.prems(4) by (auto simp: s1_def cards_advance_def)
  have 2: "cards_ok s2"
    "attempts_of i (cs_coin s2) = attempts_of i (cs_coin s1) + (if i = cg_id g \<and> k \<noteq> 0 then 1 else 0)"
    using claim_counts [OF 1(1) _ cl] Cons.prems(3) by (simp_all add: s2_def)
  have 3: "cards_ok s3" "attempts_of i (cs_coin s2) \<le> attempts_of i (cs_coin s3)"
    using deliver_advance [OF dl 2(1)] by (auto simp: cards_advance_def)
  obtain m t' where rest: "compensate_loop h now env gs (if k = 0 then s2 else s3) = (m, t')" by fastforce
  have "s' = t'"
    using Cons.prems(1) rest cl dl
    by (auto simp: Let_def s1_def [symmetric] s2_def [symmetric] split: if_splits)
  moreover have "cards_ok t' \<and> attempts_of i (cs_coin (if k = 0 then s2 else s3))
    + count_list (started h now env gs (if k = 0 then s2 else s3)) i \<le> attempts_of i (cs_coin t')"
    using Cons.IH [OF rest] Cons.prems(2,3) 2(1) 3(1) by simp
  moreover have "started h now env (g # gs) s =
      (if k = 0 then started h now env gs s2 else cg_id g # started h now env gs s3)"
    by (simp add: Let_def s1_def [symmetric] cl dl s2_def [symmetric])
  ultimately show ?case using 1 2 3 by (auto split: if_splits)
qed simp

text \<open>
  A history of rounds, of this or of any number of replicas: what happened before each round, and what
  happens during it. The result lists the deliveries that each round started.
\<close>

record card_round =
  cr_now :: int
  cr_before :: "coin_sys \<Rightarrow> coin_sys"
  cr_env :: "coin_gift \<Rightarrow> card_env"

fun run_rounds :: "(string \<Rightarrow> string) \<Rightarrow> card_round list \<Rightarrow> coin_sys \<Rightarrow> string list list \<times> coin_sys" where
  "run_rounds h [] s = ([], s)"
| "run_rounds h (r # rs) s =
     (let s1 = cr_before r s;
          begun = started h (cr_now r) (cr_env r) (outbox_batch (cr_now r) (cs_coin s1)) s1;
          (n, s2) = compensate h (cr_now r) (cr_env r) s1;
          (more, s3) = run_rounds h rs s2
      in (begun # more, s3))"

text \<open>Others keep the tables' invariant and never lower a gift's counter.\<close>

definition calm_round :: "card_round \<Rightarrow> bool" where
  "calm_round r \<longleftrightarrow> (\<forall>t. cards_ok t \<longrightarrow>
     cards_advance t (cr_before r t) \<and> (\<forall>g. cards_advance t (ce_others (cr_env r g) t)))"

lemma rounds_counted:
  assumes "run_rounds h rs s = (begun, s')" "list_all calm_round rs" "cards_ok s"
  shows "cards_ok s' \<and> attempts_of i (cs_coin s) + count_list (concat begun) i \<le> attempts_of i (cs_coin s')
    \<and> list_all (\<lambda>ids. length ids \<le> OUTBOX_BATCH) begun"
  using assms
proof (induction rs arbitrary: s begun s')
  case (Cons r rs)
  define s1 where "s1 = cr_before r s"
  let ?batch = "outbox_batch (cr_now r) (cs_coin s1)"
  obtain n s2 where round: "compensate h (cr_now r) (cr_env r) s1 = (n, s2)" by fastforce
  obtain more s3 where rest: "run_rounds h rs s2 = (more, s3)" by fastforce
  have begun: "begun = started h (cr_now r) (cr_env r) ?batch s1 # more" and s': "s' = s3"
    using Cons.prems(1) round rest by (simp_all add: Let_def s1_def [symmetric])
  have 1: "cards_ok s1" "attempts_of i (cs_coin s) \<le> attempts_of i (cs_coin s1)"
    using Cons.prems(2,3) by (auto simp: s1_def calm_round_def cards_advance_def)
  have "\<forall>g \<in> set ?batch. cg_attempts g < GIFT_CARD_MAX_ATTEMPTS"
    by (auto simp: outbox_batch_def outbox_due_def dest!: in_set_takeD)
  then have 2: "cards_ok s2" "attempts_of i (cs_coin s1) + count_list (started h (cr_now r) (cr_env r) ?batch s1) i
      \<le> attempts_of i (cs_coin s2)"
    using started_counted [OF round [unfolded compensate_def] _ _ 1(1), of i] Cons.prems(2)
    by (auto simp: calm_round_def)
  have "length (started h (cr_now r) (cr_env r) ?batch s1) \<le> OUTBOX_BATCH"
    by (rule order_trans [OF started_length]) (simp add: outbox_batch_def)
  with Cons.IH [OF rest _ 2(1)] Cons.prems(2) 1 2 show ?case by (auto simp: begun s' count_list_append)
qed simp

definition card_count :: "string \<Rightarrow> string \<Rightarrow> string \<Rightarrow> chat_db \<Rightarrow> nat" where
  "card_count c u gid db = count_where (\<lambda>m. ms_conv m = c \<and> ms_sender m = Some u
     \<and> ms_clientId m = Some (card_client_id gid)) (msgs db)"

lemma card_count_le:
  assumes "chat_inv db"
  shows "card_count c u gid db \<le> 1"
proof -
  have "filter (\<lambda>m. message_key m = (c, Some u, Some (card_client_id gid))) (filter keyed_message (msgs db)) =
    filter (\<lambda>m. ms_conv m = c \<and> ms_sender m = Some u \<and> ms_clientId m = Some (card_client_id gid)) (msgs db)"
    by (simp only: filter_filter) (rule filter_cong, auto simp: keyed_message_def message_key_def)
  then show ?thesis
    using count_where_unique_le [OF chat_inv_keys [OF assms], of "(c, Some u, Some (card_client_id gid))"]
    by (simp add: card_count_def count_where_def)
qed

text \<open>
  C28: the compensation gives up. Over any number of rounds, of one replica or several, whatever
  outages break their deliveries and whatever other requests do around them as long as they keep the
  tables' invariant and lower no counter: every delivery that a round starts for a gift is counted in the gift's
  row, so that at most 60 are ever started; a round starts at most 50; and
  however many of them got through, a gift's card is at most one message of a conversation.
\<close>

theorem compensation_bounded:
  assumes "run_rounds h rounds s = (begun, s')" "list_all calm_round rounds" "cards_ok s"
  shows "attempts_of gid (cs_coin s) + count_list (concat begun) gid \<le> attempts_of gid (cs_coin s')
    \<and> attempts_of gid (cs_coin s') \<le> 60
    \<and> list_all (\<lambda>ids. length ids \<le> 50) begun
    \<and> card_count c u gid (cs_chat s') \<le> 1"
proof -
  note * = rounds_counted [OF assms, of gid]
  then have "cards_ok s'" by simp
  then have "attempts_of gid (cs_coin s') \<le> 60" "card_count c u gid (cs_chat s') \<le> 1"
    using attempts_of_bound card_count_le by (auto simp: cards_ok_def GIFT_CARD_MAX_ATTEMPTS_def)
  with * show ?thesis by (simp add: OUTBOX_BATCH_def)
qed

text \<open>What is stored under a gift's key: nothing but its card.\<close>

definition only_card :: "coin_gift \<Rightarrow> chat_db \<Rightarrow> bool" where
  "only_card g db \<longleftrightarrow> (\<forall>m \<in> set (msgs db).
     ms_sender m = Some (cg_sender g) \<and> ms_clientId m = Some (card_client_id (cg_id g)) \<longrightarrow>
     ms_type m = ''transfer-card'' \<and> ms_content m = TransferCard (cg_amount g) (cg_message g))"

lemma store_card:
  assumes st: "storeServerMessage h now mi (\<lambda>_. Inr ()) c (card_input g) chat1 = Inr (d, chat2)"
    and ne: "cg_sender g \<noteq> ''''" "length (card_client_id (cg_id g)) \<le> 128"
  shows "dl_row d \<in> set (msgs chat2)" "ms_conv (dl_row d) = c" "ms_sender (dl_row d) = Some (cg_sender g)"
    "ms_clientId (dl_row d) = Some (card_client_id (cg_id g))"
    "only_card g chat1 \<Longrightarrow> only_card g chat2"
proof -
  have key: "bounded_client_id h (Some (card_client_id (cg_id g))) = Some (card_client_id (cg_id g))"
    "card_client_id (cg_id g) \<noteq> ''''"
    using ne(2) by (simp_all add: bounded_client_id_def card_client_id_def)
  obtain row reused where tx: "insertServerMessage_tx h now mi (\<lambda>_. Inr ()) c (card_input g) chat1 = Inr ((row, reused), chat2)"
    and row: "dl_row d = row"
    using st by (auto simp: storeServerMessage_Inr_iff)
  have inp: "si_sender (card_input g) = Some (cg_sender g)"
    "bounded_client_id h (si_clientId (card_input g)) = Some (card_client_id (cg_id g))"
    "si_type (card_input g) = ''transfer-card''" "si_content (card_input g) = TransferCard (cg_amount g) (cg_message g)"
    using key by (simp_all add: card_input_def)
  note sk = stored_under_key [OF tx inp(1) ne(1) inp(2) key(2)]
  show "dl_row d \<in> set (msgs chat2)" using sk(3) row by simp
  show "ms_conv (dl_row d) = c" "ms_sender (dl_row d) = Some (cg_sender g)"
    "ms_clientId (dl_row d) = Some (card_client_id (cg_id g))"
    using find_where_SomeD [OF sk(1)] row by auto
  show "only_card g chat2" if "only_card g chat1"
    using sk(4) that inp(3,4) by (auto simp: only_card_def split: if_splits)
qed

text \<open>Deliveries of the card keep it so, broken ones included.\<close>

lemma deliver_only_card:
  assumes "deliver_card h now out ci mi g s = (ok, s')" "only_card g (cs_chat s)"
    and "cg_sender g \<noteq> ''''" "length (card_client_id (cg_id g)) \<le> 128"
  shows "only_card g (cs_chat s')"
  using assms(1)
proof (cases rule: deliver_cardE)
  case (opened chat1 r)
  with assms(2) show ?thesis using ensure_direct_msgs [OF opened(1)] by (simp add: only_card_def)
next
  case (stored chat1 c d chat2)
  have "only_card g chat1" using assms(2) ensure_direct_msgs [OF stored(1)] by (simp add: only_card_def)
  with store_card(5) [OF stored(2) assms(3,4)] stored(3) show ?thesis by auto
qed (use assms(2) in simp)

lemma card_arrives_parts:
  assumes "chat_inv (cs_chat s)" "cg_sender g \<noteq> cg_recipient g" "cg_sender g \<noteq> ''''"
    and "find_conv ci (cs_chat s) = None" "\<forall>x \<in> set (msgs (cs_chat s)). ms_id x \<noteq> mi"
    and "length (card_client_id (cg_id g)) \<le> 128"
    and "find_where (\<lambda>x. cg_id x = cg_id g) (gifts (cs_coin s)) \<noteq> None" "only_card g (cs_chat s)"
    and "deliver_card h now NoOutage ci mi g s = (ok, s')"
  shows "ok" and "cs_coin s' = (cs_coin s)\<lparr>gifts := update_where (\<lambda>x. cg_id x = cg_id g)
      (\<lambda>x. x\<lparr>cg_deliveredAt := Some now\<rparr>) (gifts (cs_coin s))\<rparr>"
    and "\<exists>v m. find_direct (directKey (cg_sender g) (cg_recipient g)) (cs_chat s') = Some v
      \<and> filter (\<lambda>x. ms_conv x = cv_id v \<and> ms_sender x = Some (cg_sender g)
          \<and> ms_clientId x = Some (card_client_id (cg_id g))) (msgs (cs_chat s')) = [m]
      \<and> ms_type m = ''transfer-card'' \<and> ms_content m = TransferCard (cg_amount g) (cg_message g)"
    and "x \<in> set (gifts (cs_coin s')) \<Longrightarrow> cg_id x = cg_id g \<Longrightarrow> \<not> outbox_due later x"
proof -
  obtain chat1 r where en: "ensureDirectConversationForSettlement (\<lambda>d. d) ci (cg_sender g)
      (cg_recipient g) (cs_chat s) = (chat1, r)" by fastforce
  have inv1: "chat_inv chat1" by (rule ensure_direct_inv [OF assms(1) en])
  have msgs1: "msgs chat1 = msgs (cs_chat s)" by (rule ensure_direct_msgs [OF en])
  have "\<exists>v. find_direct (directKey (cg_sender g) (cg_recipient g)) chat1 = Some v \<and> r = Inr (cv_id v)"
    using en assms(2,4)
    by (auto simp: ensureDirectConversationForSettlement_def create_direct_def Let_def find_direct_def
        find_where_append split: option.splits if_splits)
  then obtain v where v: "find_direct (directKey (cg_sender g) (cg_recipient g)) chat1 = Some v"
    and r: "r = Inr (cv_id v)" by blast
  have "find_conv (cv_id v) chat1 = Some v"
    unfolding find_conv_def using find_direct_SomeD [OF v]
    by (intro find_where_unique [where k = cv_id, OF chat_inv_ids [OF inv1]]) auto
  then obtain d chat2 where ins: "storeServerMessage h now mi (\<lambda>_. Inr ()) (cv_id v) (card_input g) chat1 = Inr (d, chat2)"
    using storeServerMessage_total [OF inv1, of "cv_id v" v "\<lambda>_. Inr ()" mi h now "card_input g"] assms(5) msgs1
    by auto
  define coin2 where "coin2 = (cs_coin s)\<lparr>gifts := update_where (\<lambda>x. cg_id x = cg_id g)
      (\<lambda>x. x\<lparr>cg_deliveredAt := Some now\<rparr>) (gifts (cs_coin s))\<rparr>"
  have "mark_delivered now (cg_id g) (cs_coin s) = Inr coin2"
    using assms(7) by (simp only: mark_delivered_def coin2_def if_False)
  then have res: "ok" "s' = s\<lparr>cs_chat := chat2, cs_coin := coin2\<rparr>"
    using assms(9) en r ins by (simp_all add: deliver_card_def insertServerMessage_def)
  then show "ok" "cs_coin s' = (cs_coin s)\<lparr>gifts := update_where (\<lambda>x. cg_id x = cg_id g)
      (\<lambda>x. x\<lparr>cg_deliveredAt := Some now\<rparr>) (gifts (cs_coin s))\<rparr>" by (simp_all add: coin2_def)
  obtain v' where v': "find_direct (directKey (cg_sender g) (cg_recipient g)) chat2 = Some v'" "cv_id v' = cv_id v"
    using storeServerMessage_direct [OF ins v] by blast
  note row = store_card [OF ins assms(3,6)]
  have only: "only_card g chat2" using row(5) assms(8) msgs1 by (simp add: only_card_def)
  have inv2: "chat_inv chat2" using ins inv1 by (auto simp: storeServerMessage_Inr_iff intro: insertServerMessage_tx_inv)
  let ?hit = "\<lambda>x. ms_conv x = cv_id v \<and> ms_sender x = Some (cg_sender g) \<and> ms_clientId x = Some (card_client_id (cg_id g))"
  have "length (filter ?hit (msgs chat2)) \<le> 1"
    using card_count_le [OF inv2] by (simp add: card_count_def count_where_def)
  moreover have "dl_row d \<in> set (filter ?hit (msgs chat2))" using row by simp
  ultimately have one: "filter ?hit (msgs chat2) = [dl_row d]"
    by (cases "filter ?hit (msgs chat2)") auto
  then show "\<exists>v m. find_direct (directKey (cg_sender g) (cg_recipient g)) (cs_chat s') = Some v
      \<and> filter (\<lambda>x. ms_conv x = cv_id v \<and> ms_sender x = Some (cg_sender g)
          \<and> ms_clientId x = Some (card_client_id (cg_id g))) (msgs (cs_chat s')) = [m]
      \<and> ms_type m = ''transfer-card'' \<and> ms_content m = TransferCard (cg_amount g) (cg_message g)"
    using v' res only row by (intro exI [of _ v'] exI [of _ "dl_row d"]) (simp add: only_card_def)
  show "\<not> outbox_due later x" if "x \<in> set (gifts (cs_coin s'))" "cg_id x = cg_id g"
    using that res by (auto simp: coin2_def outbox_due_def elim!: in_update_whereE split: if_splits)
qed

text \<open>
  C27: without an outage the card arrives: for a stored gift between two different users in a
  well-formed store, a delivery with unused ids leaves in their direct conversation
  exactly one message under the gift's key, a transfer card with the gift's amount and message
  (a card that an earlier, broken delivery stored is that one), and marks this gift and no other as
  delivered, so that no later round selects it. Only the card itself may have been stored under its
  key before, which deliveries keep so.
\<close>

theorem card_arrives:
  assumes "chat_inv (cs_chat s)" "cg_sender g \<noteq> cg_recipient g" "cg_sender g \<noteq> ''''"
    and "find_conv ci (cs_chat s) = None" "\<forall>x \<in> set (msgs (cs_chat s)). ms_id x \<noteq> mi"
    and "length (card_client_id (cg_id g)) \<le> 128"
    and "find_where (\<lambda>x. cg_id x = cg_id g) (gifts (cs_coin s)) \<noteq> None"
    and "\<forall>m \<in> set (msgs (cs_chat s)). ms_sender m = Some (cg_sender g)
      \<and> ms_clientId m = Some (''gift_card_'' @ cg_id g) \<longrightarrow>
      ms_type m = ''transfer-card'' \<and> ms_content m = TransferCard (cg_amount g) (cg_message g)"
    and "deliver_card h now NoOutage ci mi g s = (ok, s')"
  shows "ok \<and> cs_coin s' = (cs_coin s)\<lparr>gifts := update_where (\<lambda>x. cg_id x = cg_id g)
      (\<lambda>x. x\<lparr>cg_deliveredAt := Some now\<rparr>) (gifts (cs_coin s))\<rparr>
    \<and> (\<exists>v m. find_direct (directKey (cg_sender g) (cg_recipient g)) (cs_chat s') = Some v
      \<and> filter (\<lambda>x. ms_conv x = cv_id v \<and> ms_sender x = Some (cg_sender g)
          \<and> ms_clientId x = Some (''gift_card_'' @ cg_id g)) (msgs (cs_chat s')) = [m]
      \<and> ms_type m = ''transfer-card'' \<and> ms_content m = TransferCard (cg_amount g) (cg_message g))
    \<and> (\<forall>x \<in> set (gifts (cs_coin s')). cg_id x = cg_id g \<longrightarrow> \<not> outbox_due later x)"
  using card_arrives_parts [OF assms(1-7) _ assms(9)] assms(8)
  by (simp only: only_card_def card_client_id_def) blast

definition demo_sys :: coin_sys where
  "demo_sys = \<lparr>cs_coin = demo_bank_1, cs_chat = \<lparr>convs = [], members = [], msgs = []\<rparr>\<rparr>"

theorem card_arrives_witness:
  "\<exists>v m. find_direct (directKey ''a'' ''b'')
      (cs_chat (snd (deliver_card (\<lambda>s. s) 20 NoOutage ''c'' ''m'' (gift_row 9 ''g1'' demo_gift) demo_sys))) = Some v
    \<and> filter (\<lambda>x. ms_conv x = cv_id v \<and> ms_sender x = Some ''a'' \<and> ms_clientId x = Some ''gift_card_g1'')
      (msgs (cs_chat (snd (deliver_card (\<lambda>s. s) 20 NoOutage ''c'' ''m'' (gift_row 9 ''g1'' demo_gift) demo_sys)))) = [m]
    \<and> ms_content m = TransferCard 30 None"
proof -
  obtain ok s' where run: "deliver_card (\<lambda>s. s) 20 NoOutage ''c'' ''m'' (gift_row 9 ''g1'' demo_gift) demo_sys
    = (ok, s')" by fastforce
  have g: "cg_sender (gift_row 9 ''g1'' demo_gift) = ''a''" "cg_recipient (gift_row 9 ''g1'' demo_gift) = ''b''"
    "cg_id (gift_row 9 ''g1'' demo_gift) = ''g1''" "cg_amount (gift_row 9 ''g1'' demo_gift) = 30"
    "cg_message (gift_row 9 ''g1'' demo_gift) = None"
    by (simp_all add: gift_row_def demo_gift_def)
  have s: "chat_inv (cs_chat demo_sys)" "convs (cs_chat demo_sys) = []" "msgs (cs_chat demo_sys) = []"
    "gifts (cs_coin demo_sys) = [gift_row 9 ''g1'' demo_gift]"
    by (simp_all add: demo_sys_def chat_inv_def demo_bank_1_def)
  have "\<exists>v m. find_direct (directKey ''a'' ''b'') (cs_chat s') = Some v
      \<and> filter (\<lambda>x. ms_conv x = cv_id v \<and> ms_sender x = Some ''a''
          \<and> ms_clientId x = Some (''gift_card_'' @ ''g1'')) (msgs (cs_chat s')) = [m]
      \<and> ms_type m = ''transfer-card'' \<and> ms_content m = TransferCard 30 None"
    using card_arrives [OF _ _ _ _ _ _ _ _ run, of 0, unfolded g s]
    by (simp add: s find_conv_def card_client_id_def g)
  then show ?thesis unfolding run snd_conv append_Cons append_Nil by blast
qed

text \<open>In the witness both rounds' deliveries break after the card was stored.\<close>

definition demo_round :: "int \<Rightarrow> card_round" where
  "demo_round t = \<lparr>cr_now = t, cr_before = (\<lambda>s. s), cr_env = (\<lambda>_. \<lparr>ce_others = (\<lambda>s. s), ce_outage = AfterMessage,
     ce_convId = ''c'', ce_msgId = ''m''\<rparr>)\<rparr>"

lemma demo_rounds_begun:
  "fst (run_rounds (\<lambda>s. s) [demo_round 999999, demo_round 9999999] demo_sys) = [[''g1''], [''g1'']]"
  by (simp add: demo_round_def demo_sys_def demo_bank_1_def gift_row_def demo_gift_def compensate_def
      outbox_batch_def outbox_due_def GRACE_MS_def GIFT_CARD_MAX_ATTEMPTS_def OUTBOX_BATCH_def claim_gift_def
      deliver_card_def insertServerMessage_def storeServerMessage_def insertServerMessage_tx_def
      ensureDirectConversationForSettlement_def find_direct_def create_direct_def find_conv_def
      card_input_def card_client_id_def bounded_client_id_def write_message_def message_clash_def Let_def)

theorem compensation_bounded_witness:
  "2 \<le> attempts_of ''g1'' (cs_coin (snd (run_rounds (\<lambda>s. s) [demo_round 999999, demo_round 9999999] demo_sys)))
   \<and> attempts_of ''g1'' (cs_coin (snd (run_rounds (\<lambda>s. s) [demo_round 999999, demo_round 9999999] demo_sys))) \<le> 60
   \<and> card_count ''c'' ''a'' ''g1'' (cs_chat (snd (run_rounds (\<lambda>s. s) [demo_round 999999, demo_round 9999999] demo_sys))) \<le> 1"
proof -
  obtain begun s' where run: "run_rounds (\<lambda>s. s) [demo_round 999999, demo_round 9999999] demo_sys = (begun, s')"
    by fastforce
  have ok: "cards_ok demo_sys"
    by (simp add: demo_sys_def cards_ok_def chat_inv_def attempts_bounded_def demo_bank_1_def gift_row_def)
  have calm: "list_all calm_round [demo_round 999999, demo_round 9999999]"
    by (simp add: calm_round_def demo_round_def cards.evol_refl)
  show ?thesis
    using compensation_bounded [OF run calm ok, of "''g1''" "''c''" "''a''"] run demo_rounds_begun by simp
qed

end
