(* ===== verification/JsValue.thy ===== *)
theory JsValue
  imports Prelude "HOL-Library.Char_ord" Complex_Main
begin

text \<open>
  Values of unknown type, as the code meets them at its borders (configuration,
  rows of raw queries, decoded JSON), and the character classes of JavaScript's
  regular expressions. A character is one code unit below 256.
\<close>

section \<open>Values\<close>

datatype js =
    JUndefined
  | JNull
  | JBool bool
  | JNum rat
  | JNonFinite
  | JStr string
  | JDate int
  | JInvalidDate
  | JArr "js list"
  | JObj "(string \<times> js) list"

text \<open>A missing property reads as \<open>undefined\<close>.\<close>

fun js_get :: "string \<Rightarrow> (string \<times> js) list \<Rightarrow> js" where
  "js_get k fields = (case map_of fields k of None \<Rightarrow> JUndefined | Some v \<Rightarrow> v)"

definition js_of_option :: "('a \<Rightarrow> js) \<Rightarrow> 'a option \<Rightarrow> js" where
  "js_of_option f x = (case x of None \<Rightarrow> JNull | Some a \<Rightarrow> f a)"

definition js_int :: "int \<Rightarrow> js" where
  "js_int n = JNum (of_int n)"

text \<open>
  A decimal literal is \<open>Infinity\<close> from halfway between the largest double and the next
  power of two on. (Rounding of large finite literals is not modelled.)
\<close>

definition js_finite :: "nat \<Rightarrow> bool" where
  "js_finite n \<longleftrightarrow> n < 2 ^ 1024 - 2 ^ 970"

section \<open>Characters\<close>

definition code :: "char \<Rightarrow> nat" where
  "code c = of_char c"

definition is_digit :: "char \<Rightarrow> bool" where
  "is_digit c \<longleftrightarrow> 48 \<le> code c \<and> code c \<le> 57"

definition is_space :: "char \<Rightarrow> bool" where
  "is_space c \<longleftrightarrow> code c \<in> {9, 10, 11, 12, 13, 32, 160}"

definition is_upper :: "char \<Rightarrow> bool" where
  "is_upper c \<longleftrightarrow> 65 \<le> code c \<and> code c \<le> 90"

definition is_lower :: "char \<Rightarrow> bool" where
  "is_lower c \<longleftrightarrow> 97 \<le> code c \<and> code c \<le> 122"

definition lower :: "char \<Rightarrow> char" where
  "lower c = (if is_upper c then char_of (code c + 32) else c)"

definition js_trim :: "string \<Rightarrow> string" where
  "js_trim s = rev (dropWhile is_space (rev (dropWhile is_space s)))"

fun digits_value :: "nat \<Rightarrow> string \<Rightarrow> nat" where
  "digits_value acc [] = acc"
| "digits_value acc (c # cs) = digits_value (10 * acc + (code c - 48)) cs"

fun show_nat :: "nat \<Rightarrow> string" where
  "show_nat n = (if n < 10 then [char_of (n + 48)] else show_nat (n div 10) @ [char_of (n mod 10 + 48)])"

declare show_nat.simps [simp del]

section \<open>Decimal literals\<close>

lemma code_digit: "d < 10 \<Longrightarrow> code (char_of (d + 48)) = d + 48"
  by (simp add: code_def)

lemma is_digit_show: "c \<in> set (show_nat n) \<Longrightarrow> is_digit c"
proof (induction n rule: show_nat.induct)
  case (1 n)
  have m: "n mod 10 < 10" by simp
  show ?case
  proof (cases "n < 10")
    case True
    with 1(2) have "c = char_of (n + 48)" by (simp add: show_nat.simps [of n])
    with True show ?thesis by (simp add: is_digit_def code_digit)
  next
    case False
    with 1(2) have "c \<in> set (show_nat (n div 10)) \<or> c = char_of (n mod 10 + 48)"
      by (auto simp: show_nat.simps [of n])
    with 1(1) False m show ?thesis by (auto simp: is_digit_def code_digit)
  qed
qed

lemma show_nat_nonempty: "show_nat n \<noteq> []"
  by (simp add: show_nat.simps [of n])

lemma digits_value_append: "digits_value a (xs @ ys) = digits_value (digits_value a xs) ys"
  by (induction xs arbitrary: a) auto

lemma digits_value_show: "digits_value 0 (show_nat n) = n"
proof (induction n rule: show_nat.induct)
  case (1 n)
  have m: "n mod 10 < 10" by simp
  then show ?case
    using 1 by (simp add: show_nat.simps [of n] digits_value_append code_digit)
qed

lemma takeWhile_digits_show:
  "\<not> is_digit c \<Longrightarrow> takeWhile is_digit (show_nat n @ c # cs) = show_nat n"
  "\<not> is_digit c \<Longrightarrow> dropWhile is_digit (show_nat n @ c # cs) = c # cs"
  "takeWhile is_digit (show_nat n) = show_nat n"
  "dropWhile is_digit (show_nat n) = []"
  by (auto simp: takeWhile_append dropWhile_append is_digit_show)

lemma digit_not_space: "is_digit c \<Longrightarrow> \<not> is_space c"
  by (auto simp: is_digit_def is_space_def)

lemma js_trim_id:
  assumes "s \<noteq> []" "\<not> is_space (hd s)" "\<not> is_space (last s)"
  shows "js_trim s = s"
proof -
  have "dropWhile is_space s = s" using assms by (cases s) auto
  moreover have "dropWhile is_space (rev s) = rev s"
    using assms by (cases "rev s") (auto simp: last_rev hd_rev rev_swap)
  ultimately show ?thesis by (simp add: js_trim_def)
qed

lemma hd_show_nat: "is_digit (hd (show_nat n @ cs))"
  using is_digit_show [of "hd (show_nat n)" n] show_nat_nonempty [of n] by simp

end
