(* ===== verification/Calendar.thy ===== *)
theory Calendar
  imports Main
begin

text \<open>
  Calendar months: \<open>addUtcCalendarMonths\<close> of \<open>src/membership/membership.catalog.ts\<close>, and what it uses of
  JavaScript's \<open>Date\<close>. A moment is a number of milliseconds since 1970; days are counted from the first day
  of year 0 (proleptic Gregorian calendar), before which the model does not go.
\<close>

section \<open>Dates\<close>

definition MS_DAY :: int where "MS_DAY = 86400000"

text \<open>The day number of the first day of a year, and the year of a day: the last that starts no later.\<close>

definition year_start :: "nat \<Rightarrow> nat" where
  "year_start y = 365 * y + ((y + 3) div 4 + (y + 399) div 400 - (y + 99) div 100)"

definition leap_year :: "nat \<Rightarrow> bool" where
  "leap_year y \<longleftrightarrow> y mod 4 = 0 \<and> (y mod 100 \<noteq> 0 \<or> y mod 400 = 0)"

fun year_at_most :: "nat \<Rightarrow> nat \<Rightarrow> nat" where
  "year_at_most 0 d = 0"
| "year_at_most (Suc y) d = (if year_start (Suc y) \<le> d then Suc y else year_at_most y d)"

definition year_of :: "nat \<Rightarrow> nat" where "year_of d = year_at_most (d div 365) d"

definition month_lengths :: "nat \<Rightarrow> nat list" where
  "month_lengths y = [31, if leap_year y then 29 else 28, 31, 30, 31, 30, 31, 31, 30, 31, 30, 31]"

fun split_months :: "nat list \<Rightarrow> nat \<Rightarrow> nat \<times> nat" where
  "split_months [] d = (0, d)"
| "split_months (l # ls) d = (if d < l then (0, d) else let (m, r) = split_months ls (d - l) in (m + 1, r))"

text \<open>Year, month (from 0) and day of the month (from 1).\<close>

definition civil :: "nat \<Rightarrow> nat \<times> nat \<times> nat" where
  "civil d = (let y = year_of d; (m, r) = split_months (month_lengths y) (d - year_start y) in (y, m, r + 1))"

definition day_number :: "nat \<Rightarrow> nat \<Rightarrow> nat \<Rightarrow> nat" where
  "day_number y m day = year_start y + sum_list (take m (month_lengths y)) + (day - 1)"

definition EPOCH_DAY :: nat where "EPOCH_DAY = 719528"

definition day_of :: "int \<Rightarrow> nat" where "day_of t = nat (t div MS_DAY + int EPOCH_DAY)"

definition utc :: "nat \<Rightarrow> nat \<Rightarrow> nat \<Rightarrow> int \<Rightarrow> int" where
  "utc y m day time = (int (day_number y m day) - int EPOCH_DAY) * MS_DAY + time"

text \<open>
  The range of \<open>Date\<close>: a hundred million days on each side of 1970; a moment outside makes an Invalid Date (\<open>None\<close>).
  \<open>Date.UTC\<close> reads the years 0 to 99 as 1900 to 1999; the setters of \<open>Date\<close> do not.
\<close>

definition MAX_TIME :: int where "MAX_TIME = 100000000 * MS_DAY"

definition time_clip :: "int \<Rightarrow> int option" where
  "time_clip t = (if \<bar>t\<bar> \<le> MAX_TIME then Some t else None)"

definition utc_year :: "nat \<Rightarrow> nat" where "utc_year y = (if y \<le> 99 then 1900 + y else y)"

datatype months_error = NegativeMonths

text \<open>
  The source sets the day to 1, adds the months (a month beyond December carries into the years), and sets the day to the
  smaller of the source's day and the last day of the target month; the time of day stays. The last day is that of the day before
  the first of the following month, made with \<open>Date.UTC\<close>. An Invalid Date at any point makes the result invalid. The number
  of months is an integer here; the source refuses others like negative ones.
\<close>

definition addUtcCalendarMonths :: "int option \<Rightarrow> int \<Rightarrow> months_error + int option" where
  "addUtcCalendarMonths source months =
     (if months < 0 then Inl NegativeMonths
      else case source of
        None \<Rightarrow> Inr None
      | Some t \<Rightarrow>
          (case civil (day_of t) of (y, m, day) \<Rightarrow>
             let k = m + nat months; y' = y + k div 12; m' = k mod 12; lastTargetDay = month_lengths (utc_year y') ! m'
             in if time_clip (utc y' m' 1 (t mod MS_DAY)) = None then Inr None
                else if time_clip (utc (utc_year y') m' lastTargetDay 0) = None then Inr None
                else Inr (time_clip (utc y' m' (min day lastTargetDay) (t mod MS_DAY)))))"

section \<open>Lemmas\<close>

lemma year_start_0 [simp]: "year_start 0 = 0"
  by (simp add: year_start_def)

lemma ceil_Suc:
  "(Suc y + 3) div 4 = (y + 3) div 4 + (if y mod 4 = 0 then 1 else 0)"
  "(Suc y + 99) div 100 = (y + 99) div 100 + (if y mod 100 = 0 then 1 else 0)"
  "(Suc y + 399) div 400 = (y + 399) div 400 + (if y mod 400 = 0 then 1 else 0)"
proof -
  have "Suc (y + 3) = y + 4" "Suc (y + 99) = y + 100" "Suc (y + 399) = y + 400" by simp_all
  then have "Suc (y + 3) mod 4 = y mod 4" "Suc (y + 99) mod 100 = y mod 100" "Suc (y + 399) mod 400 = y mod 400"
    by (simp_all only: mod_add_self2)
  then show "(Suc y + 3) div 4 = (y + 3) div 4 + (if y mod 4 = 0 then 1 else 0)"
    "(Suc y + 99) div 100 = (y + 99) div 100 + (if y mod 100 = 0 then 1 else 0)"
    "(Suc y + 399) div 400 = (y + 399) div 400 + (if y mod 400 = 0 then 1 else 0)"
    using div_Suc [of "y + 3" 4] div_Suc [of "y + 99" 100] div_Suc [of "y + 399" 400] by simp_all
qed

lemma mod_chain: "(y::nat) mod 400 = 0 \<Longrightarrow> y mod 100 = 0" "(y::nat) mod 100 = 0 \<Longrightarrow> y mod 4 = 0"
  by (auto simp: mod_eq_0_iff_dvd intro: dvd_trans [of 100 400] dvd_trans [of 4 100])

lemma centuries_le: "((y :: nat) + 99) div 100 \<le> (y + 3) div 4 + (y + 399) div 400"
proof (induction y)
  case (Suc y)
  with ceil_Suc [of y] mod_chain(2) [of y] show ?case by (auto split: if_splits)
qed simp

lemma year_step:
  "(B :: nat) \<le> A + C \<Longrightarrow> (c \<longrightarrow> b) \<Longrightarrow> (b \<longrightarrow> a) \<Longrightarrow>
   365 * Suc y + ((A + (if a then 1 else 0)) + (C + (if c then 1 else 0)) - (B + (if b then 1 else 0)))
   = 365 * y + (A + C - B) + (if a \<and> (\<not> b \<or> c) then 366 else 365)"
  by (cases a; cases b; cases c) simp_all

lemma year_length: "year_start (Suc y) = year_start y + (if leap_year y then 366 else 365)"
proof -
  define A B C where ABC: "A = (y + 3) div 4" "B = (y + 99) div 100" "C = (y + 399) div 400"
  have le: "B \<le> A + C" using centuries_le [of y] by (simp add: ABC)
  have "year_start (Suc y) = 365 * Suc y + ((A + (if y mod 4 = 0 then 1 else 0)) + (C + (if y mod 400 = 0 then 1 else 0))
      - (B + (if y mod 100 = 0 then 1 else 0)))"
    unfolding year_start_def ceil_Suc ABC ..
  moreover have "year_start y = 365 * y + (A + C - B)" by (simp add: year_start_def ABC)
  moreover have "leap_year y \<longleftrightarrow> y mod 4 = 0 \<and> (y mod 100 \<noteq> 0 \<or> y mod 400 = 0)" by (auto simp: leap_year_def)
  moreover note year_step [OF le, of "y mod 400 = 0" "y mod 100 = 0" "y mod 4 = 0" y]
  ultimately show ?thesis using mod_chain [of y] by presburger
qed

lemma year_start_mono: "y \<le> z \<Longrightarrow> year_start y \<le> year_start z"
  by (induction rule: inc_induct) (auto simp: year_length)

lemma year_start_strict: "y < z \<Longrightarrow> year_start y < year_start z"
  using year_start_mono [of "Suc y" z] by (auto simp: year_length split: if_splits)

lemma year_start_ge: "365 * y \<le> year_start y"
  by (induction y) (auto simp: year_length)

lemma year_at_most_le: "year_at_most n d \<le> n"
  by (induction n) auto

lemma year_at_most_bounds:
  "year_start (year_at_most n d) \<le> d \<and> (year_at_most n d < n \<longrightarrow> d < year_start (Suc (year_at_most n d)))"
proof (induction n)
  case (Suc n)
  then show ?case using year_at_most_le [of n d] by (cases "year_at_most n d = n") auto
qed simp

lemma year_of_bounds: "year_start (year_of d) \<le> d \<and> d < year_start (Suc (year_of d))"
proof -
  have "d < year_start (Suc (d div 365))"
    using year_start_ge [of "Suc (d div 365)"] by simp
  then show ?thesis
    using year_at_most_bounds [of "d div 365" d] year_at_most_le [of "d div 365" d]
    by (cases "year_at_most (d div 365) d = d div 365") (auto simp: year_of_def)
qed

lemma year_of_unique: "year_start y \<le> d \<Longrightarrow> d < year_start (Suc y) \<Longrightarrow> year_of d = y"
  using year_of_bounds [of d] year_start_mono [of "Suc y" "year_of d"] year_start_mono [of "Suc (year_of d)" y]
  by (metis leD less_le_trans not_less_eq_eq le_trans linorder_cases Suc_leI)

lemma split_months_sum:
  "d < sum_list ls \<Longrightarrow> split_months ls d = (m, r) \<Longrightarrow> m < length ls \<and> r < ls ! m \<and> sum_list (take m ls) + r = d"
proof (induction ls arbitrary: d m r)
  case (Cons l ls)
  show ?case
  proof (cases "d < l")
    case True
    with Cons.prems show ?thesis by auto
  next
    case False
    obtain m' r' where s: "split_months ls (d - l) = (m', r')" by fastforce
    have "m' < length ls \<and> r' < ls ! m' \<and> sum_list (take m' ls) + r' = d - l"
      using Cons.prems False by (intro Cons.IH [OF _ s]) auto
    with Cons.prems(2) False s show ?thesis by auto
  qed
qed simp

lemma split_months_take:
  "m < length ls \<Longrightarrow> r < ls ! m \<Longrightarrow> split_months ls (sum_list (take m ls) + r) = (m, r)"
proof (induction ls arbitrary: m)
  case (Cons l ls)
  then show ?case by (cases m) (auto simp: Let_def)
qed simp

lemma month_lengths_sum: "sum_list (month_lengths y) = (if leap_year y then 366 else 365)"
  and month_lengths_length [simp]: "length (month_lengths y) = 12"
  by (simp_all add: month_lengths_def)

lemma month_lengths_bounds: "m < 12 \<Longrightarrow> 28 \<le> month_lengths y ! m \<and> month_lengths y ! m \<le> 31"
  by (auto simp: month_lengths_def less_Suc_eq numeral_eq_Suc)

text \<open>A date of the calendar.\<close>

definition civil_ok :: "nat \<times> nat \<times> nat \<Rightarrow> bool" where
  "civil_ok c = (case c of (y, m, day) \<Rightarrow> m < 12 \<and> 1 \<le> day \<and> day \<le> month_lengths y ! m)"

lemma civil_ok_civil: "civil_ok (civil d) \<and> (case civil d of (y, m, day) \<Rightarrow> day_number y m day = d)"
proof -
  define y where "y = year_of d"
  obtain m r where s: "split_months (month_lengths y) (d - year_start y) = (m, r)" by fastforce
  have b: "year_start y \<le> d" "d < year_start (Suc y)" using year_of_bounds [of d] by (simp_all add: y_def)
  then have "d - year_start y < sum_list (month_lengths y)" by (simp add: month_lengths_sum year_length split: if_splits)
  from split_months_sum [OF this s] b(1) show ?thesis
    by (auto simp: civil_def y_def [symmetric] Let_def s civil_ok_def day_number_def)
qed

lemma civil_day_number:
  assumes "civil_ok (y, m, day)"
  shows "civil (day_number y m day) = (y, m, day)"
proof -
  let ?ls = "month_lengths y"
  have m: "m < 12" "1 \<le> day" "day \<le> ?ls ! m" using assms by (auto simp: civil_ok_def)
  have "sum_list (take m ?ls) + ?ls ! m + sum_list (drop (Suc m) ?ls) = sum_list ?ls"
    using id_take_nth_drop [of m ?ls] m(1) by (metis ab_semigroup_add_class.add_ac(1) month_lengths_length sum_list.Cons sum_list.append)
  then have "sum_list (take m ?ls) + (day - 1) < sum_list ?ls" using m by simp
  then have "year_of (day_number y m day) = y"
    by (intro year_of_unique) (auto simp: day_number_def month_lengths_sum year_length split: if_splits)
  moreover have "split_months ?ls (sum_list (take m ?ls) + (day - 1)) = (m, day - 1)"
    using m by (intro split_months_take) simp_all
  ultimately show ?thesis using m by (simp add: civil_def day_number_def Let_def)
qed


text \<open>Months counted from year 0: a month starts between 28 and 31 days before the next.\<close>

definition month_start :: "nat \<Rightarrow> nat" where
  "month_start j = year_start (j div 12) + sum_list (take (j mod 12) (month_lengths (j div 12)))"

abbreviation month_len :: "nat \<Rightarrow> nat" where "month_len j \<equiv> month_lengths (j div 12) ! (j mod 12)"

lemma month_start_Suc: "month_start (Suc j) = month_start j + month_len j"
proof (cases "j mod 12 = 11")
  case True
  then have "Suc j mod 12 = 0" "Suc j div 12 = Suc (j div 12)" by (simp_all add: mod_Suc div_Suc)
  moreover have "sum_list (take 11 (month_lengths y)) + month_lengths y ! 11 = sum_list (month_lengths y)" for y
    by (simp add: month_lengths_def numeral_eq_Suc)
  ultimately show ?thesis using True by (simp add: month_start_def year_length month_lengths_sum split: if_splits)
next
  case False
  then have "Suc j mod 12 = Suc (j mod 12)" "Suc j div 12 = j div 12" by (simp_all add: mod_Suc div_Suc)
  moreover have "j mod 12 < 12" by simp
  ultimately show ?thesis by (simp add: month_start_def take_Suc_conv_app_nth)
qed

lemma month_len_bounds: "28 \<le> month_len j" "month_len j \<le> 31"
  using month_lengths_bounds [of "j mod 12" "j div 12"] by simp_all

lemma month_start_add: "month_start j + 28 * n \<le> month_start (j + n) \<and> month_start (j + n) \<le> month_start j + 31 * n"
proof (induction n)
  case (Suc n)
  then show ?case using month_start_Suc [of "j + n"] month_len_bounds [of "j + n"] by simp
qed simp

lemma day_number_month: "m < 12 \<Longrightarrow> day_number y m day = month_start (12 * y + m) + (day - 1)"
  by (simp add: day_number_def month_start_def)

lemma month_shift:
  fixes n :: nat
  assumes "m < 12" "1 \<le> day" "day \<le> month_lengths y ! m"
  defines "k \<equiv> m + n"
  defines "day' \<equiv> min day (month_lengths (y + k div 12) ! (k mod 12))"
  shows "civil_ok (y + k div 12, k mod 12, day')"
    "day_number y m day + 28 * n \<le> day_number (y + k div 12) (k mod 12) day'"
    "day_number (y + k div 12) (k mod 12) day' \<le> day_number y m day + 31 * n"
proof -
  let ?j = "12 * y + m"
  have len: "28 \<le> month_lengths (y + k div 12) ! (k mod 12)"
    using month_lengths_bounds [of "k mod 12" "y + k div 12"] by simp
  then have day': "1 \<le> day'" "day' \<le> day" "28 \<le> day' \<or> day' = day" using assms(2) by (auto simp: day'_def)
  show "civil_ok (y + k div 12, k mod 12, day')" using day' by (simp add: civil_ok_def day'_def)
  have idx: "12 * (y + k div 12) + k mod 12 = ?j + n" by (simp add: k_def)
  have new: "day_number (y + k div 12) (k mod 12) day' = month_start (?j + n) + (day' - 1)"
    using day_number_month [of "k mod 12" "y + k div 12" day'] by (simp only: idx)
  have old: "day_number y m day = month_start ?j + (day - 1)" by (rule day_number_month [OF assms(1)])
  have len_j: "day \<le> month_len ?j" using assms(1,3) by simp
  show "day_number y m day + 28 * n \<le> day_number (y + k div 12) (k mod 12) day'"
  proof (cases "day' = day")
    case True
    then show ?thesis using new old month_start_add [of ?j n] by simp
  next
    case False
    then have d28: "28 \<le> day'" using day'(3) by simp
    have "n \<noteq> 0"
    proof
      assume "n = 0"
      then have "k = m" by (simp add: k_def)
      then show False using False assms(1,3) by (simp add: day'_def)
    qed
    then obtain n' where n: "n = Suc n'" by (cases n) auto
    have "month_start ?j + month_len ?j + 28 * n' \<le> month_start (?j + n)"
      using month_start_add [of "Suc ?j" n'] month_start_Suc [of ?j] n by simp
    then show ?thesis using new old d28 len_j n assms(2) by linarith
  qed
  show "day_number (y + k div 12) (k mod 12) day' \<le> day_number y m day + 31 * n"
    using new old month_start_add [of ?j n] diff_le_mono [OF day'(2), of 1] by linarith
qed

lemma split_day: "0 \<le> time \<Longrightarrow> time < MS_DAY \<Longrightarrow> (a * MS_DAY + time) div MS_DAY = a \<and> (a * MS_DAY + time) mod MS_DAY = time"
  by (simp add: MS_DAY_def)

lemma day_of_utc: "0 \<le> time \<Longrightarrow> time < MS_DAY \<Longrightarrow> day_of (utc y m day time) = day_number y m day \<and> utc y m day time mod MS_DAY = time"
  using split_day [of time "int (day_number y m day) - int EPOCH_DAY"] by (simp add: day_of_def utc_def)

text \<open>\<open>Date.UTC\<close> is wrong about one month only.\<close>

lemma leap_year_1900: "y \<noteq> 0 \<Longrightarrow> leap_year (utc_year y) = leap_year y"
proof -
  assume y: "y \<noteq> 0"
  show ?thesis
  proof (cases "y \<le> 99")
    case True
    have "(1900 + y) mod 4 = y mod 4" using mod_mult_self4 [of 4 475 y] by simp
    moreover have "(1900 + y) mod 100 = y" using mod_mult_self4 [of 100 19 y] True by simp
    ultimately show ?thesis using True y by (simp only: leap_year_def utc_year_def if_True) simp
  qed (simp only: utc_year_def if_False)
qed

lemma last_target_day: "(y, m) \<noteq> (0, 1) \<Longrightarrow> m < 12 \<Longrightarrow> month_lengths (utc_year y) ! m = month_lengths y ! m"
  using leap_year_1900 [of y] by (cases "y = 0") (auto simp: month_lengths_def nth_Cons split: nat.splits)

lemma day_number_le: "m < 12 \<Longrightarrow> day \<le> month_lengths y ! m \<Longrightarrow> day_number y m day < year_start (Suc y)"
proof -
  assume m: "m < 12" "day \<le> month_lengths y ! m"
  have ls: "sum_list (take m (month_lengths y)) + month_lengths y ! m + sum_list (drop (Suc m) (month_lengths y)) = sum_list (month_lengths y)"
    using id_take_nth_drop [of m "month_lengths y"] m(1)
    by (metis ab_semigroup_add_class.add_ac(1) month_lengths_length sum_list.Cons sum_list.append)
  moreover have "1 \<le> month_lengths y ! m" using month_lengths_bounds [of m y] m(1) by simp
  ultimately have "sum_list (take m (month_lengths y)) + (day - 1) < sum_list (month_lengths y)" using m(2) by linarith
  then show ?thesis by (simp add: day_number_def year_length month_lengths_sum split: if_splits)
qed

text \<open>Up to the year 1999 nothing is out of range.\<close>

lemma early_in_range:
  assumes "y \<le> 1999" "m < 12" "day \<le> month_lengths y ! m" "time < MS_DAY"
  shows "utc y m day time \<le> MAX_TIME"
proof -
  have "day_number y m day < year_start (Suc y)" by (rule day_number_le [OF assms(2,3)])
  also have "\<dots> \<le> year_start 2000" by (rule year_start_mono) (use assms(1) in simp)
  also have "\<dots> = 730485" by (simp add: year_start_def)
  finally have "int (day_number y m day) - int EPOCH_DAY \<le> 20000" by (simp add: EPOCH_DAY_def)
  then show ?thesis using assms(4) by (simp add: utc_def MAX_TIME_def MS_DAY_def)
qed

lemma time_clip_utc: "0 \<le> time \<Longrightarrow> time_clip (utc y m day time) = (if utc y m day time \<le> MAX_TIME then Some (utc y m day time) else None)"
  by (auto simp: time_clip_def utc_def EPOCH_DAY_def MAX_TIME_def MS_DAY_def)

lemma utc_mono: "day_number y m day < day_number y m day' \<Longrightarrow> time < MS_DAY \<Longrightarrow> utc y m day time \<le> utc y m day' 0"
  by (simp add: utc_def MS_DAY_def)

text \<open>The code's answer for a month whose last day \<open>Date.UTC\<close> gets right.\<close>

lemma addUtcCalendarMonths_eq:
  assumes "civil (day_of t) = (y, m, day)" "y' = y + (m + n) div 12" "m' = (m + n) mod 12" "(y', m') \<noteq> (0, 1)"
    and last: "l = month_lengths y' ! m'"
  shows "addUtcCalendarMonths (Some t) (int n) =
    Inr (if utc y' m' l 0 \<le> MAX_TIME \<and> utc y' m' (min day l) (t mod MS_DAY) \<le> MAX_TIME
         then Some (utc y' m' (min day l) (t mod MS_DAY)) else None)"
proof -
  have m': "m' < 12" by (simp add: assms(3))
  have ld: "month_lengths (utc_year y') ! m' = l" using last_target_day [OF assms(4) m'] by (simp add: last)
  have time: "0 \<le> t mod MS_DAY" "t mod MS_DAY < MS_DAY" by (simp_all add: MS_DAY_def)
  have l28: "28 \<le> l" using month_lengths_bounds [OF m', of y'] by (simp add: last)
  have first: "utc y' m' 1 (t mod MS_DAY) \<le> utc y' m' l 0"
    by (rule utc_mono [OF _ time(2)]) (use l28 in \<open>simp add: day_number_def\<close>)
  have "utc (utc_year y') m' l 0 \<le> MAX_TIME \<longleftrightarrow> utc y' m' l 0 \<le> MAX_TIME"
  proof (cases "y' \<le> 99")
    case True
    then have "utc_year y' \<le> 1999" by (simp add: utc_year_def)
    then have "utc (utc_year y') m' l 0 \<le> MAX_TIME" by (rule early_in_range) (simp_all add: m' ld MS_DAY_def)
    moreover have "utc y' m' l 0 \<le> MAX_TIME" by (rule early_in_range) (use True in \<open>simp_all add: m' last MS_DAY_def\<close>)
    ultimately show ?thesis by simp
  qed (simp add: utc_year_def)
  then show ?thesis
    using first time(1) by (auto simp: addUtcCalendarMonths_def assms(1) Let_def assms(2,3) [symmetric] ld time_clip_utc)
qed

text \<open>
  C39: Adding calendar months, from year 0 on: a negative number is refused. Otherwise the result, unless it or the last day of
  its month lies beyond the range of \<open>Date\<close> (then it is an Invalid Date), keeps the time of day, lies as many months later on the
  calendar, on the same day of the month or, if that month is shorter, on its last day; and it is between 28 and 31 days later for
  every month added, so a longer term never ends earlier. The one month left out is February of year 0, for which \<open>Date.UTC\<close>
  reads 1900 (\<open>february_of_year_0\<close>).
\<close>

theorem calendar_months:
  assumes "- int EPOCH_DAY * MS_DAY \<le> t" "civil (day_of t) = (y, m, day)"
    and "y' = y + (m + n) div 12" "m' = (m + n) mod 12" "(y', m') \<noteq> (0, 1)"
  shows "(k < 0 \<longrightarrow> addUtcCalendarMonths source k = Inl NegativeMonths) \<and> (\<exists>r. addUtcCalendarMonths (Some t) (int n) =
      Inr (if utc y' m' (month_lengths y' ! m') 0 \<le> MAX_TIME \<and> r \<le> MAX_TIME then Some r else None)
    \<and> civil (day_of r) = (y', m', min day (month_lengths y' ! m')) \<and> r mod MS_DAY = t mod MS_DAY
    \<and> t + 28 * int n * MS_DAY \<le> r \<and> r \<le> t + 31 * int n * MS_DAY)"
proof -
  have ok: "m < 12" "1 \<le> day" "day \<le> month_lengths y ! m" and d: "day_number y m day = day_of t"
    using civil_ok_civil [of "day_of t"] assms(2) by (simp_all add: civil_ok_def)
  let ?day = "min day (month_lengths y' ! m')" and ?r = "utc y' m' (min day (month_lengths y' ! m')) (t mod MS_DAY)"
  note shift = month_shift [OF ok, of n, folded assms(3,4)]
  have time: "0 \<le> t mod MS_DAY" "t mod MS_DAY < MS_DAY" by (simp_all add: MS_DAY_def)
  have "0 \<le> t div MS_DAY + int EPOCH_DAY" using assms(1) by (simp add: MS_DAY_def EPOCH_DAY_def)
  then have t: "t = (int (day_of t) - int EPOCH_DAY) * MS_DAY + t mod MS_DAY" by (simp add: day_of_def MS_DAY_def)
  have "?r - t = (int (day_number y' m' ?day) - int (day_of t)) * MS_DAY"
    using t by (simp add: utc_def algebra_simps)
  moreover have "28 * int n \<le> int (day_number y' m' ?day) - int (day_of t)" "int (day_number y' m' ?day) - int (day_of t) \<le> 31 * int n"
    using shift(2,3) d by simp_all
  moreover have "0 \<le> MS_DAY" by (simp add: MS_DAY_def)
  ultimately have "28 * int n * MS_DAY \<le> ?r - t" "?r - t \<le> 31 * int n * MS_DAY"
    by (simp_all only: mult_right_mono)
  moreover have "civil (day_of ?r) = (y', m', ?day)"
    unfolding conjunct1 [OF day_of_utc [OF time]] by (rule civil_day_number [OF shift(1)])
  moreover have "?r mod MS_DAY = t mod MS_DAY" by (rule conjunct2 [OF day_of_utc [OF time]])
  ultimately have "\<exists>r. addUtcCalendarMonths (Some t) (int n) =
      Inr (if utc y' m' (month_lengths y' ! m') 0 \<le> MAX_TIME \<and> r \<le> MAX_TIME then Some r else None)
    \<and> civil (day_of r) = (y', m', ?day) \<and> r mod MS_DAY = t mod MS_DAY
    \<and> t + 28 * int n * MS_DAY \<le> r \<and> r \<le> t + 31 * int n * MS_DAY"
    using addUtcCalendarMonths_eq [OF assms(2-5) refl] by (intro exI [of _ ?r] conjI) simp_all
  then show ?thesis by (simp add: addUtcCalendarMonths_def)
qed

text \<open>The last day of January 2024 and one month: 29 February.\<close>

theorem calendar_months_witness:
  "\<exists>r. addUtcCalendarMonths (Some 1706659200000) 1 = Inr (Some r) \<and> civil (day_of r) = (2024, 1, 29)"
proof -
  have "day_of 1706659200000 = day_number 2024 0 31"
    by (simp add: day_of_def MS_DAY_def EPOCH_DAY_def day_number_def year_start_def)
  then have c: "civil (day_of 1706659200000) = (2024, 0, 31)"
    using civil_day_number [of 2024 0 31] by (simp add: civil_ok_def month_lengths_def)
  have "month_lengths 2024 ! 1 = 29" by (simp add: month_lengths_def leap_year_def)
  moreover have "utc 2024 1 29 0 \<le> MAX_TIME"
    by (simp add: utc_def day_number_def year_start_def month_lengths_def EPOCH_DAY_def MAX_TIME_def MS_DAY_def)
  ultimately obtain r where "addUtcCalendarMonths (Some 1706659200000) 1 = Inr (if r \<le> 8640000000000000 then Some r else None)"
      "civil (day_of r) = (2024, 1, 29)" "r \<le> 1709337600000"
    using conjunct2 [OF calendar_months [OF _ c, of 2024 1 1]] by (auto simp: MS_DAY_def EPOCH_DAY_def MAX_TIME_def)
  then show ?thesis by (intro exI [of _ r]) simp
qed

text \<open>The month left out: 31 January of year 0 and one month is 28 February, although year 0 is a leap year.\<close>

lemma february_of_year_0:
  "leap_year 0 \<and> civil 30 = (0, 0, 31) \<and>
   addUtcCalendarMonths (Some (utc 0 0 31 0)) 1 = Inr (Some (utc 0 1 28 0))"
proof -
  have c: "civil 30 = (0, 0, 31)" using civil_day_number [of 0 0 31] by (simp add: civil_ok_def month_lengths_def day_number_def)
  moreover have "day_of (utc 0 0 31 0) = 30" using day_of_utc [of 0 0 0 31] by (simp add: MS_DAY_def day_number_def)
  moreover have "utc 0 0 31 0 mod MS_DAY = 0" using day_of_utc [of 0 0 0 31] by (simp add: MS_DAY_def)
  moreover have "time_clip (utc y m d 0) = Some (utc y m d 0)" if "y \<le> 1999" "m < 12" "d \<le> month_lengths y ! m" for y m d
    using time_clip_utc [of 0 y m d] early_in_range [OF that, of 0] by (simp add: MS_DAY_def)
  ultimately show ?thesis
    by (simp add: addUtcCalendarMonths_def utc_year_def month_lengths_def leap_year_def Let_def)
qed

end
