(* ===== verification/FancyNumber.thy ===== *)
theory FancyNumber
  imports KeyedTables Coin JsValue Calendar "HOL-Library.List_Lexorder" "HOL-Library.Product_Lexorder"
begin

text \<open>
  Fancy account numbers: \<open>src/fancy-number/fancy-number.service.ts\<close> with \<open>fancy-number.rules.ts\<close> and
  \<open>fancy-number-status.ts\<close>, the membership level of \<open>src/membership/membership.catalog.ts\<close>, the change of an account
  id in \<open>src/auth/auth.service.ts\<close>, and the triggers that keep the registry of identifiers
  (\<open>prisma/migrations\<close>). A number is leased for months or, by members of the highest level, for good; the account
  id it replaces stays reserved and comes back when the lease ends. Every transaction is serializable and so an atomic function;
  payment is made on the wallet and ledger of \<open>Coin\<close>. The texts of ledger notes are arguments; audit rows and broadcasts are left out.
\<close>

section \<open>Data\<close>

datatype number_status = AVAILABLE_N | LEASED_N | PERMANENT_N | DISABLED_N

datatype number_source = ADMIN_SOURCE | LEGACY_SOURCE | CUSTOM_SOURCE

record fancy_number =
  fn_id :: string
  fn_value :: string
  fn_status :: number_status
  fn_source :: number_source
  fn_recommended :: bool
  fn_sortOrder :: int
  fn_createdBy :: "string option"
  fn_disabledAt :: "int option"

record fancy_lease =
  fl_id :: string
  fl_userID :: string
  fl_numberID :: string
  fl_restoreAccountId :: "string option"
  fl_startedAt :: int
  fl_expiresAt :: "int option"
  fl_permanentAt :: "int option"
  fl_endedAt :: "int option"

datatype number_target = Inventory string | Custom string

text \<open>The fingerprints are JSON texts of these fields; equal texts are equal values.\<close>

datatype fingerprint =
    PurchasePrint string number_target "int option"
  | SwitchPrint string string number_target
  | RenewalPrint string string int
  | ConversionPrint string

datatype order_type = PURCHASE_ORDER | RENEWAL_ORDER | SWITCH_ORDER | CONVERSION_ORDER

record fancy_order =
  fo_id :: string
  fo_key :: string
  fo_print :: fingerprint
  fo_type :: order_type
  fo_userID :: string
  fo_numberID :: string
  fo_leaseID :: string
  fo_months :: "int option"
  fo_unitPrice :: int
  fo_totalPrice :: int
  fo_walletAfter :: "int option"
  fo_previousExpiresAt :: "int option"
  fo_newExpiresAt :: "int option"

record account_identifier =
  ai_value :: string
  ai_current :: "string option"
  ai_reserved :: "string option"
  ai_invite :: "string option"

record fancy_user =
  uu_id :: string
  uu_active :: bool
  uu_accountId :: string
  uu_vipLevel :: int
  uu_vipExpiresAt :: "int option"
  uu_fancy :: bool
  uu_fancyExpiresAt :: "int option"
  uu_fancyPermanent :: bool

text \<open>The tables; of \<open>CampaignInvite\<close> the column \<open>identifierValue\<close>, the codes kept for campaigns.\<close>

record fancy_db =
  fz_numbers :: "fancy_number list"
  fz_leases :: "fancy_lease list"
  fz_orders :: "fancy_order list"
  fz_identifiers :: "account_identifier list"
  fz_campaigns :: "string list"
  fz_users :: "fancy_user list"
  fz_coin :: coin_db

datatype fancy_error =
    NoSuchUser | KeyReused | InvalidMonths | QuoteChanged | AlreadyOwned | NotAvailable | AccountInconsistent
  | InsufficientPoints | LeaseNotFound | SwitchRequiresPermanent | InventoryConflict | PermanentCannotRenew | LeaseExpired
  | InvalidKey | InvalidValue | ReservedValue | AccountIdLocked | AccountIdTaken | AccountIdUnchanged | AccountIdInvalid
  | NumberNotFound | NumberTaken | IdentifierClaimed | InvalidBatch | IdentifierOccupied | RecommendationLimit
  | InvalidOrder | RecommendationConflict | InvalidLimit | UniqueViolation | IdentifierCollision | RowMissing
  | RowReferenced | NoCode | InvalidDate | BadMonths months_error | PaymentFailed coin_error

record fancy_result =
  rs_orderId :: string
  rs_accountId :: string
  rs_expiresAt :: "int option"
  rs_permanent :: bool
  rs_months :: "int option"
  rs_unitPrice :: int
  rs_totalPrice :: int
  rs_walletAfter :: int

text \<open>What a request draws and says: the time, new ids, the ledger notes.\<close>

record fancy_env =
  fe_now :: int
  fe_numberId :: string
  fe_leaseId :: string
  fe_orderId :: string
  fe_note :: string

definition FANCY_NUMBER_UNIT_PRICE :: int where "FANCY_NUMBER_UNIT_PRICE = 100"
definition FANCY_NUMBER_RECOMMENDATION_LIMIT :: nat where "FANCY_NUMBER_RECOMMENDATION_LIMIT = 100"

section \<open>Values\<close>

text \<open>Upper case on the modelled characters; the sharp s becomes two letters.\<close>

definition upper_char :: "char \<Rightarrow> string" where
  "upper_char c =
     (if is_lower c then [char_of (code c - 32)]
      else if code c = 223 then ''SS''
      else if 224 \<le> code c \<and> code c \<le> 254 \<and> code c \<noteq> 247 then [char_of (code c - 32)]
      else [c])"

definition js_upper :: "string \<Rightarrow> string" where "js_upper s = concat (map upper_char s)"

definition lower_char :: "char \<Rightarrow> char" where
  "lower_char c =
     (if is_upper c \<or> 192 \<le> code c \<and> code c \<le> 222 \<and> code c \<noteq> 215 then char_of (code c + 32) else c)"

definition js_lower :: "string \<Rightarrow> string" where "js_lower s = map lower_char s"

definition custom_pattern :: "string \<Rightarrow> bool" where
  "custom_pattern s \<longleftrightarrow> length s = 6 \<and> (\<forall>c \<in> set s. is_upper c \<or> is_digit c)"

definition account_id_pattern :: "string \<Rightarrow> bool" where
  "account_id_pattern s \<longleftrightarrow> 4 \<le> length s \<and> length s \<le> 32
     \<and> (\<forall>c \<in> set s. is_upper c \<or> is_lower c \<or> is_digit c \<or> c = CHR ''_'' \<or> c = CHR ''-'')"

definition RESERVED_PREFIXES :: "string list" where
  "RESERVED_PREFIXES = [''ADMIN'', ''GOVERN'', ''OFFICI'', ''POLICE'', ''SERVIC'', ''SUPPOR'', ''SYSTEM'']"

text \<open>The pair of the displayed and the stored value.\<close>

definition normalizeCustomFancyNumber :: "string \<Rightarrow> string \<times> string" where
  "normalizeCustomFancyNumber v = (let d = js_upper (js_trim v) in (d, js_lower d))"

definition reserved_value :: "string \<Rightarrow> bool" where
  "reserved_value d \<longleftrightarrow> list_ex (\<lambda>p. take (length p) d = p) RESERVED_PREFIXES"

text \<open>Normalizing the displayed value again changes nothing (\<open>validateCustomFancyNumber\<close> does it).\<close>

definition validateCustomFancyNumber :: "string \<Rightarrow> fancy_error + (string \<times> string)" where
  "validateCustomFancyNumber v =
     (let n = normalizeCustomFancyNumber v
      in if \<not> custom_pattern (fst n) then Inl InvalidValue else if reserved_value (fst n) then Inl ReservedValue else Inr n)"

definition requireCustomFancyNumber :: "string \<Rightarrow> fancy_error + (string \<times> string)" where
  "requireCustomFancyNumber v =
     (let n = normalizeCustomFancyNumber v
      in if \<not> custom_pattern (fst n) then Inl InvalidValue
         else case validateCustomFancyNumber (fst n) of Inl _ \<Rightarrow> Inl ReservedValue | Inr m \<Rightarrow> Inr m)"

definition displayTargetValue :: "string \<Rightarrow> number_target \<Rightarrow> string" where
  "displayTargetValue v t = (case t of Custom _ \<Rightarrow> js_upper v | Inventory _ \<Rightarrow> v)"

definition clientIdempotencyKey :: "string \<Rightarrow> string \<Rightarrow> fancy_error + string" where
  "clientIdempotencyKey u v =
     (let n = js_trim v in if n = '''' \<or> 128 < length n then Inl InvalidKey else Inr (''client:'' @ u @ '':'' @ n))"

definition resolveEffectiveMembershipLevel :: "int \<Rightarrow> int option \<Rightarrow> int \<Rightarrow> int" where
  "resolveEffectiveMembershipLevel level expiresAt now =
     (if level \<le> 0 then 0 else if 4 \<le> level then 4
      else case expiresAt of Some t \<Rightarrow> if t \<le> now then 0 else level | None \<Rightarrow> level)"

definition resolveEffectiveFancyNumber :: "fancy_user \<Rightarrow> int \<Rightarrow> bool" where
  "resolveEffectiveFancyNumber u now =
     (if \<not> uu_fancy u then False else if uu_fancyPermanent u then True
      else case uu_fancyExpiresAt u of None \<Rightarrow> True | Some t \<Rightarrow> now < t)"


section \<open>Statements\<close>

definition find_number :: "string \<Rightarrow> fancy_db \<Rightarrow> fancy_number option" where
  "find_number i db = find_where (\<lambda>n. fn_id n = i) (fz_numbers db)"

definition number_of_value :: "string \<Rightarrow> fancy_db \<Rightarrow> fancy_number option" where
  "number_of_value v db = find_where (\<lambda>n. fn_value n = v) (fz_numbers db)"

definition find_identifier :: "string \<Rightarrow> fancy_db \<Rightarrow> account_identifier option" where
  "find_identifier v db = find_where (\<lambda>a. ai_value a = v) (fz_identifiers db)"

definition find_lease :: "string \<Rightarrow> fancy_db \<Rightarrow> fancy_lease option" where
  "find_lease i db = find_where (\<lambda>l. fl_id l = i) (fz_leases db)"

definition active_lease :: "string \<Rightarrow> fancy_db \<Rightarrow> fancy_lease option" where
  "active_lease u db = find_where (\<lambda>l. fl_userID l = u \<and> fl_endedAt l = None) (fz_leases db)"

definition find_fancy_user :: "string \<Rightarrow> fancy_db \<Rightarrow> fancy_user option" where
  "find_fancy_user u db = find_where (\<lambda>x. uu_id x = u) (fz_users db)"

definition find_order :: "string \<Rightarrow> fancy_db \<Rightarrow> fancy_order option" where
  "find_order k db = find_where (\<lambda>x. fo_key x = k) (fz_orders db)"

definition claimed_identifier :: "account_identifier \<Rightarrow> bool" where
  "claimed_identifier a \<longleftrightarrow> ai_current a \<noteq> None \<or> ai_reserved a \<noteq> None \<or> ai_invite a \<noteq> None"

text \<open>
  The triggers of the campaigns: no row of a campaign's code may be written with a claim, and no number with such a value be
  created. They raise the error code of a unique violation.
\<close>

definition campaign_claim :: "fancy_db \<Rightarrow> account_identifier \<Rightarrow> bool" where
  "campaign_claim db a \<longleftrightarrow> ai_value a \<in> set (fz_campaigns db) \<and> claimed_identifier a"

definition campaign_number :: "fancy_db \<Rightarrow> fancy_number \<Rightarrow> bool" where
  "campaign_number db n \<longleftrightarrow> js_lower (fn_value n) \<in> set (fz_campaigns db)"

text \<open>\<open>updateMany\<close> on identifiers and numbers, with the number of rows written.\<close>

definition update_identifiers ::
  "(account_identifier \<Rightarrow> bool) \<Rightarrow> (account_identifier \<Rightarrow> account_identifier) \<Rightarrow> fancy_db \<Rightarrow> fancy_error + (nat \<times> fancy_db)" where
  "update_identifiers p f db =
     (let rows = update_where p f (fz_identifiers db)
      in if unique_column ai_current rows \<and> unique_column ai_reserved rows \<and> unique_column ai_invite rows
            \<and> \<not> list_ex (\<lambda>a. p a \<and> campaign_claim db (f a)) (fz_identifiers db)
         then Inr (count_where p (fz_identifiers db), db\<lparr>fz_identifiers := rows\<rparr>) else Inl UniqueViolation)"

definition update_numbers ::
  "(fancy_number \<Rightarrow> bool) \<Rightarrow> (fancy_number \<Rightarrow> fancy_number) \<Rightarrow> fancy_db \<Rightarrow> nat \<times> fancy_db" where
  "update_numbers p f db = (count_where p (fz_numbers db), db\<lparr>fz_numbers := update_where p f (fz_numbers db)\<rparr>)"

text \<open>\<open>update\<close> by id fails when there is no such row.\<close>

definition update_number :: "string \<Rightarrow> (fancy_number \<Rightarrow> fancy_number) \<Rightarrow> fancy_db \<Rightarrow> fancy_error + fancy_db" where
  "update_number i f db =
     (if find_number i db = None then Inl RowMissing
      else Inr (db\<lparr>fz_numbers := update_where (\<lambda>n. fn_id n = i) f (fz_numbers db)\<rparr>))"

definition update_user :: "string \<Rightarrow> (fancy_user \<Rightarrow> fancy_user) \<Rightarrow> fancy_db \<Rightarrow> fancy_error + fancy_db" where
  "update_user u f db =
     (if find_fancy_user u db = None then Inl RowMissing
      else Inr (db\<lparr>fz_users := update_where (\<lambda>x. uu_id x = u) f (fz_users db)\<rparr>))"

text \<open>One active lease per user and one per number (partial unique indexes), checked when a lease is written.\<close>

definition leases_ok :: "fancy_lease list \<Rightarrow> bool" where
  "leases_ok ls \<longleftrightarrow> distinct (map fl_id ls)
     \<and> distinct (map fl_userID (filter (\<lambda>l. fl_endedAt l = None) ls))
     \<and> distinct (map fl_numberID (filter (\<lambda>l. fl_endedAt l = None) ls))"

definition create_lease :: "fancy_lease \<Rightarrow> fancy_db \<Rightarrow> fancy_error + fancy_db" where
  "create_lease l db =
     (if leases_ok (fz_leases db @ [l]) then Inr (db\<lparr>fz_leases := fz_leases db @ [l]\<rparr>) else Inl UniqueViolation)"

definition update_lease :: "string \<Rightarrow> (fancy_lease \<Rightarrow> fancy_lease) \<Rightarrow> fancy_db \<Rightarrow> fancy_error + fancy_db" where
  "update_lease i f db =
     (let rows = update_where (\<lambda>l. fl_id l = i) f (fz_leases db)
      in if find_lease i db = None then Inl RowMissing
         else if leases_ok rows then Inr (db\<lparr>fz_leases := rows\<rparr>) else Inl UniqueViolation)"

definition create_order :: "fancy_order \<Rightarrow> fancy_db \<Rightarrow> fancy_error + fancy_db" where
  "create_order r db =
     (if find_order (fo_key r) db \<noteq> None \<or> find_where (\<lambda>x. fo_id x = fo_id r) (fz_orders db) \<noteq> None then Inl UniqueViolation
      else Inr (db\<lparr>fz_orders := fz_orders db @ [r]\<rparr>))"

definition create_identifier :: "string \<Rightarrow> fancy_db \<Rightarrow> fancy_error + fancy_db" where
  "create_identifier v db =
     (if find_identifier v db \<noteq> None then Inl UniqueViolation
      else Inr (db\<lparr>fz_identifiers := fz_identifiers db @ [\<lparr>ai_value = v, ai_current = None, ai_reserved = None, ai_invite = None\<rparr>]\<rparr>))"

definition create_number :: "fancy_number \<Rightarrow> fancy_db \<Rightarrow> fancy_error + fancy_db" where
  "create_number n db =
     (if campaign_number db n \<or> number_of_value (fn_value n) db \<noteq> None \<or> find_number (fn_id n) db \<noteq> None then Inl UniqueViolation
      else Inr (db\<lparr>fz_numbers := fz_numbers db @ [n]\<rparr>))"

section \<open>Account identifiers and the triggers on \<open>User\<close>\<close>

definition hasAccountIdentifierClaim :: "string \<Rightarrow> fancy_db \<Rightarrow> bool" where
  "hasAccountIdentifierClaim v db = (case find_identifier v db of None \<Rightarrow> True | Some a \<Rightarrow> claimed_identifier a)"

definition occupied_for :: "string \<Rightarrow> string \<Rightarrow> fancy_db \<Rightarrow> bool" where
  "occupied_for u v db =
     (case find_identifier v db of None \<Rightarrow> False
      | Some a \<Rightarrow> ai_current a \<noteq> Some u
          \<and> (ai_current a \<noteq> None \<or> ai_reserved a \<noteq> None \<or> (ai_invite a \<noteq> None \<and> ai_invite a \<noteq> Some u)
             \<or> number_of_value v db \<noteq> None))"

text \<open>\<open>User_account_identifier_prepare\<close> on an update of the account id from \<open>old\<close> to \<open>v\<close>, both in lower case.\<close>

definition account_identifier_prepare :: "string \<Rightarrow> string \<Rightarrow> string \<Rightarrow> fancy_db \<Rightarrow> fancy_error + fancy_db" where
  "account_identifier_prepare u old v db =
     (if v = old then Inr db
      else if occupied_for u v db then Inl IdentifierCollision
      else if (case find_identifier v db of Some a \<Rightarrow> ai_current a = Some u | None \<Rightarrow> False) then Inr db
      else
        let db1 = (if find_identifier v db = None then db\<lparr>fz_identifiers := fz_identifiers db
              @ [\<lparr>ai_value = v, ai_current = None, ai_reserved = None, ai_invite = None\<rparr>]\<rparr> else db)
        in bind_res (update_identifiers (\<lambda>a. ai_value a = old \<and> ai_current a = Some u) (\<lambda>a. a\<lparr>ai_current := None\<rparr>) db1) (\<lambda>(_, db2).
           bind_res (update_identifiers (\<lambda>a. ai_value a = v \<and> ai_current a = None) (\<lambda>a. a\<lparr>ai_current := Some u\<rparr>) db2) (\<lambda>(n, db3).
           if n = 0 then Inl IdentifierCollision else Inr db3)))"

text \<open>\<open>User_account_identifier_cleanup\<close>; the row of a campaign's code cannot be deleted (a restricting foreign key).\<close>

definition account_identifier_cleanup :: "string \<Rightarrow> string \<Rightarrow> fancy_db \<Rightarrow> fancy_error + fancy_db" where
  "account_identifier_cleanup old v db =
     (if old = v then Inr db
      else let unused = (\<lambda>a. ai_value a = old \<and> \<not> claimed_identifier a \<and> number_of_value old db = None)
        in if list_ex (\<lambda>a. unused a \<and> ai_value a \<in> set (fz_campaigns db)) (fz_identifiers db) then Inl RowReferenced
           else Inr (db\<lparr>fz_identifiers := delete_where unused (fz_identifiers db)\<rparr>))"

text \<open>\<open>user.update\<close> of the account id and other columns, between the two triggers.\<close>

definition update_account :: "string \<Rightarrow> string \<Rightarrow> (fancy_user \<Rightarrow> fancy_user) \<Rightarrow> fancy_db \<Rightarrow> fancy_error + fancy_db" where
  "update_account u v f db =
     (case find_fancy_user u db of
        None \<Rightarrow> Inl RowMissing
      | Some x \<Rightarrow>
          bind_res (account_identifier_prepare u (uu_accountId x) v db) (\<lambda>db1.
          if \<exists>y \<in> set (fz_users db1). uu_id y \<noteq> u \<and> uu_accountId y = v then Inl UniqueViolation
          else bind_res (update_user u (\<lambda>y. f y\<lparr>uu_accountId := v\<rparr>) db1) (\<lambda>db2.
          account_identifier_cleanup (uu_accountId x) v db2)))"


section \<open>The end of a lease\<close>

definition releaseFancyNumberInventory :: "string \<Rightarrow> string \<Rightarrow> number_status \<Rightarrow> int \<Rightarrow> fancy_db \<Rightarrow> fancy_error + fancy_db" where
  "releaseFancyNumberInventory i v expected now db =
     (case find_identifier v db of
        None \<Rightarrow> Inl InventoryConflict
      | Some a \<Rightarrow>
          if ai_current a \<noteq> None then Inl InventoryConflict
          else let claim = ai_reserved a \<noteq> None \<or> ai_invite a \<noteq> None;
                   (released, db') = update_numbers (\<lambda>n. fn_id n = i \<and> fn_status n = expected)
                     (\<lambda>n. if claim then n\<lparr>fn_status := DISABLED_N, fn_disabledAt := Some now\<rparr>
                          else n\<lparr>fn_status := AVAILABLE_N, fn_disabledAt := None\<rparr>) db
               in if released \<noteq> 1 then Inl InventoryConflict else Inr db')"

definition due_lease :: "int \<Rightarrow> fancy_lease \<Rightarrow> bool" where
  "due_lease now l \<longleftrightarrow> fl_endedAt l = None \<and> fl_permanentAt l = None \<and> (case fl_expiresAt l of None \<Rightarrow> False | Some t \<Rightarrow> t \<le> now)"

text \<open>
  Closing a due lease: the conditional update of its row, and the return of the account id \<open>r\<close>: identifiers, user and number.
  The two callers differ in what they do when the row is no longer due.
\<close>

definition close_lease :: "int \<Rightarrow> fancy_lease \<Rightarrow> fancy_db \<Rightarrow> nat \<times> fancy_db" where
  "close_lease now l db =
     (let hit = (\<lambda>x. fl_id x = fl_id l \<and> due_lease now x)
      in (count_where hit (fz_leases db), db\<lparr>fz_leases := update_where hit (\<lambda>x. x\<lparr>fl_endedAt := Some now\<rparr>) (fz_leases db)\<rparr>))"

definition return_account :: "int \<Rightarrow> fancy_lease \<Rightarrow> string \<Rightarrow> string \<Rightarrow> fancy_db \<Rightarrow> fancy_error + fancy_db" where
  "return_account now l v r db =
     bind_res (update_identifiers (\<lambda>a. ai_value a = v \<and> ai_current a = Some (fl_userID l)) (\<lambda>a. a\<lparr>ai_current := None\<rparr>) db) (\<lambda>(released, db1).
     bind_res (update_identifiers (\<lambda>a. ai_value a = r \<and> ai_current a = None \<and> ai_reserved a = Some (fl_userID l))
       (\<lambda>a. a\<lparr>ai_current := Some (fl_userID l), ai_reserved := None\<rparr>) db1) (\<lambda>(restored, db2).
     if released \<noteq> 1 \<or> restored \<noteq> 1 then Inl AccountInconsistent
     else bind_res (update_account (fl_userID l) r (\<lambda>x. x\<lparr>uu_fancy := False, uu_fancyExpiresAt := None, uu_fancyPermanent := False\<rparr>) db2) (\<lambda>db3.
     releaseFancyNumberInventory (fl_numberID l) v LEASED_N now db3)))"

text \<open>The account id a lease restores, if user, number and lease fit together; a missing parent row is a broken foreign key.\<close>

definition restorable :: "fancy_lease \<Rightarrow> fancy_db \<Rightarrow> fancy_error + (string \<times> string)" where
  "restorable l db =
     (case (find_fancy_user (fl_userID l) db, find_number (fl_numberID l) db) of
        (Some x, Some n) \<Rightarrow>
          (case fl_restoreAccountId l of
             None \<Rightarrow> Inl AccountInconsistent
           | Some r \<Rightarrow> if uu_accountId x \<noteq> fn_value n then Inl AccountInconsistent else Inr (fn_value n, r))
      | _ \<Rightarrow> Inl RowMissing)"

definition expireLease :: "int \<Rightarrow> string \<Rightarrow> fancy_db \<Rightarrow> fancy_error + (bool \<times> fancy_db)" where
  "expireLease now i db =
     (case find_lease i db of
        None \<Rightarrow> Inr (False, db)
      | Some l \<Rightarrow>
          if \<not> due_lease now l then Inr (False, db)
          else bind_res (restorable l db) (\<lambda>(v, r).
               case close_lease now l db of (ended, db1) \<Rightarrow>
                 if ended \<noteq> 1 then Inr (False, db1)
                 else bind_res (return_account now l v r db1) (\<lambda>db2. Inr (True, db2))))"

definition restoreExpiredLeaseInTransaction :: "int \<Rightarrow> fancy_lease \<Rightarrow> fancy_db \<Rightarrow> fancy_error + fancy_db" where
  "restoreExpiredLeaseInTransaction now l db =
     bind_res (restorable l db) (\<lambda>(v, r).
       case close_lease now l db of (ended, db1) \<Rightarrow>
         if ended \<noteq> 1 then Inl LeaseExpired else return_account now l v r db1)"

text \<open>A transaction as a step: an error rolls it back.\<close>

definition committed :: "fancy_error + ('a \<times> fancy_db) \<Rightarrow> fancy_db \<Rightarrow> (fancy_error + 'a) \<times> fancy_db" where
  "committed r db = (case r of Inl e \<Rightarrow> (Inl e, db) | Inr (a, db') \<Rightarrow> (Inr a, db'))"

text \<open>Step \<open>k\<close> reads the due lease, step \<open>k + 1\<close> is the transaction that ends it.\<close>

definition expireOverdueLeaseForUser ::
  "(nat \<Rightarrow> fancy_db \<Rightarrow> fancy_db) \<Rightarrow> nat \<Rightarrow> int \<Rightarrow> string \<Rightarrow> fancy_db \<Rightarrow> (fancy_error + bool) \<times> fancy_db" where
  "expireOverdueLeaseForUser others k now u db =
     (let db1 = others k db
      in case find_where (\<lambda>l. fl_userID l = u \<and> due_lease now l) (fz_leases db1) of
           None \<Rightarrow> (Inr False, db1)
         | Some l \<Rightarrow> let db2 = others (Suc k) db1 in committed (expireLease now (fl_id l) db2) db2)"

section \<open>Permanence for members of the highest level\<close>

definition convert_lease :: "int \<Rightarrow> fancy_lease \<Rightarrow> fancy_db \<Rightarrow> nat \<times> fancy_db" where
  "convert_lease now l db =
     (let hit = (\<lambda>x. fl_id x = fl_id l \<and> fl_endedAt x = None \<and> fl_permanentAt x = None
                   \<and> (case fl_expiresAt x of None \<Rightarrow> False | Some t \<Rightarrow> now < t))
      in (count_where hit (fz_leases db),
          db\<lparr>fz_leases := update_where hit (\<lambda>x. x\<lparr>fl_expiresAt := None, fl_permanentAt := Some now\<rparr>) (fz_leases db)\<rparr>))"

definition convertActiveLeaseToPermanent :: "int \<Rightarrow> string \<Rightarrow> string \<Rightarrow> fancy_db \<Rightarrow> fancy_error + (bool \<times> fancy_db)" where
  "convertActiveLeaseToPermanent now orderId u db =
     (case active_lease u db of
        None \<Rightarrow> Inr (False, db)
      | Some l \<Rightarrow>
          (case (fl_permanentAt l, fl_expiresAt l) of
             (None, Some t) \<Rightarrow>
               if t \<le> now then bind_res (restoreExpiredLeaseInTransaction now l db) (\<lambda>db1. Inr (False, db1))
               else (case convert_lease now l db of (converted, db1) \<Rightarrow>
                    if converted \<noteq> 1 then Inl LeaseExpired else
                    bind_res (update_number (fl_numberID l) (\<lambda>n. n\<lparr>fn_status := PERMANENT_N, fn_disabledAt := None\<rparr>) db1) (\<lambda>db2.
                    bind_res (update_user u (\<lambda>x. x\<lparr>uu_fancy := True, uu_fancyExpiresAt := None, uu_fancyPermanent := True\<rparr>) db2) (\<lambda>db3.
                    let key = ''super-conversion:'' @ fl_id l
                    in if find_order key db3 \<noteq> None then Inr (True, db3)
                       else bind_res (create_order \<lparr>fo_id = orderId, fo_key = key, fo_print = ConversionPrint (fl_id l),
                              fo_type = CONVERSION_ORDER, fo_userID = u, fo_numberID = fl_numberID l, fo_leaseID = fl_id l,
                              fo_months = None, fo_unitPrice = 0, fo_totalPrice = 0, fo_walletAfter = None,
                              fo_previousExpiresAt = Some t, fo_newExpiresAt = None\<rparr> db3) (\<lambda>db4. Inr (True, db4)))))
           | _ \<Rightarrow> Inr (False, db)))"


section \<open>Purchase\<close>

text \<open>The number behind a target; a custom value nobody uses becomes a new number.\<close>

definition resolvePurchasableTarget ::
  "fancy_env \<Rightarrow> number_target \<Rightarrow> string \<Rightarrow> fancy_db \<Rightarrow> fancy_error + (fancy_number option \<times> fancy_db)" where
  "resolvePurchasableTarget e target u db =
     (case target of
        Inventory i \<Rightarrow>
          (case find_number i db of
             None \<Rightarrow> Inr (None, db)
           | Some n \<Rightarrow> Inr (if hasAccountIdentifierClaim (fn_value n) db then None else Some n, db))
      | Custom v \<Rightarrow>
          (case number_of_value v db of
             Some n \<Rightarrow> Inr (if hasAccountIdentifierClaim (fn_value n) db then None else Some n, db)
           | None \<Rightarrow>
               if find_identifier v db \<noteq> None then Inl NotAvailable
               else let n = \<lparr>fn_id = fe_numberId e, fn_value = v, fn_status = AVAILABLE_N, fn_source = CUSTOM_SOURCE,
                       fn_recommended = False, fn_sortOrder = 0, fn_createdBy = Some u, fn_disabledAt = None\<rparr>
                    in (case bind_res (create_identifier v db) (create_number n) of
                          Inl UniqueViolation \<Rightarrow> Inl NotAvailable | Inl err \<Rightarrow> Inl err | Inr db1 \<Rightarrow> Inr (Some n, db1))))"

definition available_target :: "fancy_env \<Rightarrow> number_target \<Rightarrow> string \<Rightarrow> fancy_db \<Rightarrow> fancy_error + (fancy_number \<times> fancy_db)" where
  "available_target e target u db =
     bind_res (resolvePurchasableTarget e target u db) (\<lambda>(found, db1).
       case found of None \<Rightarrow> Inl NotAvailable | Some n \<Rightarrow> if fn_status n \<noteq> AVAILABLE_N then Inl NotAvailable else Inr (n, db1))"

definition claim_number :: "fancy_number \<Rightarrow> number_status \<Rightarrow> fancy_db \<Rightarrow> fancy_error + fancy_db" where
  "claim_number n status db =
     (case update_numbers (\<lambda>m. fn_id m = fn_id n \<and> fn_status m = AVAILABLE_N) (\<lambda>m. m\<lparr>fn_status := status, fn_disabledAt := None\<rparr>) db of
        (claimed, db1) \<Rightarrow> if claimed \<noteq> 1 then Inl NotAvailable else Inr db1)"

definition reserve_original :: "string \<Rightarrow> string \<Rightarrow> fancy_db \<Rightarrow> fancy_error + fancy_db" where
  "reserve_original u v db =
     bind_res (update_identifiers (\<lambda>a. ai_value a = v \<and> ai_current a = Some u \<and> ai_reserved a = None)
       (\<lambda>a. a\<lparr>ai_current := None, ai_reserved := Some u\<rparr>) db) (\<lambda>(n, db1). if n \<noteq> 1 then Inl AccountInconsistent else Inr db1)"

definition assign_identifier :: "string \<Rightarrow> string \<Rightarrow> fancy_db \<Rightarrow> fancy_error + (nat \<times> fancy_db)" where
  "assign_identifier u v db =
     update_identifiers (\<lambda>a. ai_value a = v \<and> \<not> claimed_identifier a) (\<lambda>a. a\<lparr>ai_current := Some u\<rparr>) db"

text \<open>The wallet: created if missing, then debited only if it holds the price.\<close>

definition debit_points :: "string \<Rightarrow> int \<Rightarrow> fancy_db \<Rightarrow> fancy_error + (int \<times> fancy_db)" where
  "debit_points u price db =
     (case debit_wallets u price (fz_coin db) of (debited, c) \<Rightarrow>
        if debited \<noteq> 1 then Inl InsufficientPoints
        else (case balance_of u c of None \<Rightarrow> Inl RowMissing | Some b \<Rightarrow> Inr (b, db\<lparr>fz_coin := c\<rparr>)))"

definition charge_wallet :: "string \<Rightarrow> int \<Rightarrow> fancy_db \<Rightarrow> fancy_error + (int \<times> fancy_db)" where
  "charge_wallet u price db =
     (let db1 = db\<lparr>fz_coin := upsert_wallet u (fz_coin db)\<rparr>
      in if 0 < price then debit_points u price db1
         else (case balance_of u (fz_coin db1) of None \<Rightarrow> Inl RowMissing | Some b \<Rightarrow> Inr (b, db1)))"

definition book_points :: "fancy_env \<Rightarrow> string \<Rightarrow> int \<Rightarrow> int \<Rightarrow> string \<Rightarrow> fancy_db \<Rightarrow> fancy_error + fancy_db" where
  "book_points e u price balance key db =
     (case append_ledger \<lparr>ct_user = u, ct_type = PURCHASE, ct_amount = - price, ct_balance = balance, ct_note = Some (fe_note e),
             ct_related = Some (fe_orderId e), ct_key = Some (''fancy-number:'' @ key), ct_at = fe_now e\<rparr> (fz_coin db) of
        Inl err \<Rightarrow> Inl (PaymentFailed err) | Inr c \<Rightarrow> Inr (db\<lparr>fz_coin := c\<rparr>))"

definition quote_changed :: "int option \<Rightarrow> bool" where
  "quote_changed quote \<longleftrightarrow> quote \<noteq> None \<and> quote \<noteq> Some FANCY_NUMBER_UNIT_PRICE"

definition order_result :: "fancy_order \<Rightarrow> string \<Rightarrow> bool \<Rightarrow> fancy_result" where
  "order_result r acc permanent = \<lparr>rs_orderId = fo_id r, rs_accountId = acc, rs_expiresAt = fo_newExpiresAt r, rs_permanent = permanent,
     rs_months = fo_months r, rs_unitPrice = fo_unitPrice r, rs_totalPrice = fo_totalPrice r,
     rs_walletAfter = (case fo_walletAfter r of None \<Rightarrow> 0 | Some b \<Rightarrow> b)\<rparr>"

text \<open>
  A new purchase for a checked user \<open>x\<close>: the statements from the claim of the number to the ledger row. \<open>months\<close> is
  \<open>None\<close> for a permanent number.
\<close>

definition months_price :: "int option \<Rightarrow> int" where
  "months_price months = (case months of None \<Rightarrow> 0 | Some k \<Rightarrow> k) * FANCY_NUMBER_UNIT_PRICE"

text \<open>The end of a term; Prisma refuses to write an Invalid Date.\<close>

definition term_end :: "int \<Rightarrow> int \<Rightarrow> fancy_error + int" where
  "term_end start months =
     (case addUtcCalendarMonths (Some start) months of
        Inl err \<Rightarrow> Inl (BadMonths err) | Inr None \<Rightarrow> Inl InvalidDate | Inr (Some t) \<Rightarrow> Inr t)"

definition lease_end :: "int \<Rightarrow> int option \<Rightarrow> fancy_error + int option" where
  "lease_end start months = (case months of None \<Rightarrow> Inr None | Some k \<Rightarrow> map_sum id Some (term_end start k))"

definition purchased_lease :: "fancy_env \<Rightarrow> fancy_user \<Rightarrow> fancy_number \<Rightarrow> int option \<Rightarrow> int option \<Rightarrow> fancy_lease" where
  "purchased_lease e x n months expiresAt = \<lparr>fl_id = fe_leaseId e, fl_userID = uu_id x, fl_numberID = fn_id n,
     fl_restoreAccountId = Some (uu_accountId x), fl_startedAt = fe_now e,
     fl_expiresAt = expiresAt,
     fl_permanentAt = (if months = None then Some (fe_now e) else None), fl_endedAt = None\<rparr>"

definition purchase_order ::
  "fancy_env \<Rightarrow> fancy_user \<Rightarrow> number_target \<Rightarrow> fancy_number \<Rightarrow> int option \<Rightarrow> int option \<Rightarrow> string \<Rightarrow> int \<Rightarrow> fancy_order" where
  "purchase_order e x target n months expiresAt key balance = \<lparr>fo_id = fe_orderId e, fo_key = key, fo_print = PurchasePrint (uu_id x) target months,
     fo_type = PURCHASE_ORDER, fo_userID = uu_id x, fo_numberID = fn_id n, fo_leaseID = fe_leaseId e, fo_months = months,
     fo_unitPrice = FANCY_NUMBER_UNIT_PRICE, fo_totalPrice = months_price months, fo_walletAfter = Some balance,
     fo_previousExpiresAt = None, fo_newExpiresAt = expiresAt\<rparr>"

definition write_purchase ::
  "fancy_env \<Rightarrow> fancy_user \<Rightarrow> number_target \<Rightarrow> fancy_number \<Rightarrow> int option \<Rightarrow> string \<Rightarrow> fancy_db \<Rightarrow> fancy_error + (fancy_result \<times> fancy_db)" where
  "write_purchase e x target n months key db =
     (let u = uu_id x; price = months_price months
      in bind_res (claim_number n (if months = None then PERMANENT_N else LEASED_N) db) (\<lambda>db1.
         bind_res (reserve_original u (uu_accountId x) db1) (\<lambda>db2.
         bind_res (assign_identifier u (fn_value n) db2) (\<lambda>(assigned, db3).
         if assigned \<noteq> 1 then Inl NotAvailable else
         bind_res (charge_wallet u price db3) (\<lambda>(balance, db4).
         bind_res (lease_end (fe_now e) months) (\<lambda>expiresAt.
         bind_res (create_lease (purchased_lease e x n months expiresAt) db4) (\<lambda>db5.
         bind_res (update_account u (fn_value n)
             (\<lambda>y. y\<lparr>uu_fancy := True, uu_fancyExpiresAt := expiresAt, uu_fancyPermanent := (months = None)\<rparr>) db5) (\<lambda>db6.
         let order = purchase_order e x target n months expiresAt key balance
         in bind_res (create_order order db6) (\<lambda>db7.
            bind_res (if 0 < price then book_points e u price balance key db7 else Inr db7) (\<lambda>db8.
            Inr (order_result order (displayTargetValue (fn_value n) target) (months = None), db8)))))))))))"

definition purchase_tx ::
  "fancy_env \<Rightarrow> string \<Rightarrow> number_target \<Rightarrow> int option \<Rightarrow> string \<Rightarrow> int option \<Rightarrow> fancy_db \<Rightarrow> fancy_error + (fancy_result \<times> fancy_db)" where
  "purchase_tx e u target months key quote db =
     (case find_fancy_user u db of
        None \<Rightarrow> Inl NoSuchUser
      | Some x \<Rightarrow>
          if \<not> uu_active x then Inl NoSuchUser
          else (case find_order key db of
            Some r \<Rightarrow>
              if fo_print r \<noteq> PurchasePrint u target (if fo_newExpiresAt r = None then None else months) then Inl KeyReused
              else (case find_number (fo_numberID r) db of
                 None \<Rightarrow> Inl RowMissing
               | Some n \<Rightarrow> Inr (order_result r (displayTargetValue (fn_value n) target) (fo_newExpiresAt r = None), db))
          | None \<Rightarrow>
              let permanent = (resolveEffectiveMembershipLevel (uu_vipLevel x) (uu_vipExpiresAt x) (fe_now e) = 4)
              in if \<not> permanent \<and> (case months of None \<Rightarrow> True | Some k \<Rightarrow> k < 1 \<or> 12 < k) then Inl InvalidMonths
                 else if quote_changed quote then Inl QuoteChanged
                 else if active_lease u db \<noteq> None then Inl AlreadyOwned
                 else bind_res (available_target e target u db) (\<lambda>(n, db1).
                      write_purchase e x target n (if permanent then None else months) key db1)))"

definition purchaseTarget ::
  "(nat \<Rightarrow> fancy_db \<Rightarrow> fancy_db) \<Rightarrow> fancy_env \<Rightarrow> string \<Rightarrow> number_target \<Rightarrow> int option \<Rightarrow> string \<Rightarrow> int option
   \<Rightarrow> fancy_db \<Rightarrow> (fancy_error + fancy_result) \<times> fancy_db" where
  "purchaseTarget others e u target months clientKey quote db =
     (case clientIdempotencyKey u clientKey of
        Inl err \<Rightarrow> (Inl err, db)
      | Inr key \<Rightarrow>
          (case expireOverdueLeaseForUser others 0 (fe_now e) u db of
             (Inl err, db1) \<Rightarrow> (Inl err, db1)
           | (Inr _, db1) \<Rightarrow> let db2 = others 2 db1 in committed (purchase_tx e u target months key quote db2) db2))"

definition purchase ::
  "(nat \<Rightarrow> fancy_db \<Rightarrow> fancy_db) \<Rightarrow> fancy_env \<Rightarrow> string \<Rightarrow> string \<Rightarrow> int option \<Rightarrow> string \<Rightarrow> int option
   \<Rightarrow> fancy_db \<Rightarrow> (fancy_error + fancy_result) \<times> fancy_db" where
  "purchase others e u i months clientKey quote db = purchaseTarget others e u (Inventory i) months clientKey quote db"

definition purchaseCustom ::
  "(nat \<Rightarrow> fancy_db \<Rightarrow> fancy_db) \<Rightarrow> fancy_env \<Rightarrow> string \<Rightarrow> string \<Rightarrow> int option \<Rightarrow> string \<Rightarrow> int option
   \<Rightarrow> fancy_db \<Rightarrow> (fancy_error + fancy_result) \<times> fancy_db" where
  "purchaseCustom others e u v months clientKey quote db =
     (case requireCustomFancyNumber v of
        Inl err \<Rightarrow> (Inl err, db)
      | Inr (_, stored) \<Rightarrow> purchaseTarget others e u (Custom stored) months clientKey quote db)"


section \<open>Exchange and renewal\<close>

definition switch_order :: "fancy_env \<Rightarrow> fancy_lease \<Rightarrow> number_target \<Rightarrow> fancy_number \<Rightarrow> string \<Rightarrow> int \<Rightarrow> fancy_order" where
  "switch_order e l target n key balance = \<lparr>fo_id = fe_orderId e, fo_key = key, fo_print = SwitchPrint (fl_userID l) (fl_id l) target,
     fo_type = SWITCH_ORDER, fo_userID = fl_userID l, fo_numberID = fn_id n, fo_leaseID = fl_id l, fo_months = None,
     fo_unitPrice = FANCY_NUMBER_UNIT_PRICE, fo_totalPrice = FANCY_NUMBER_UNIT_PRICE, fo_walletAfter = Some balance,
     fo_previousExpiresAt = None, fo_newExpiresAt = None\<rparr>"

definition write_switch ::
  "fancy_env \<Rightarrow> fancy_lease \<Rightarrow> string \<Rightarrow> number_target \<Rightarrow> fancy_number \<Rightarrow> string \<Rightarrow> fancy_db \<Rightarrow> fancy_error + (fancy_result \<times> fancy_db)" where
  "write_switch e l old target n key db =
     (let u = fl_userID l; price = FANCY_NUMBER_UNIT_PRICE
      in bind_res (charge_wallet u price db) (\<lambda>(balance, db1).
         bind_res (claim_number n PERMANENT_N db1) (\<lambda>db2.
         bind_res (update_identifiers (\<lambda>a. ai_value a = old \<and> ai_current a = Some u) (\<lambda>a. a\<lparr>ai_current := None\<rparr>) db2) (\<lambda>(released, db3).
         bind_res (assign_identifier u (fn_value n) db3) (\<lambda>(assigned, db4).
         if released \<noteq> 1 \<or> assigned \<noteq> 1 then Inl InventoryConflict else
         bind_res (releaseFancyNumberInventory (fl_numberID l) old PERMANENT_N (fe_now e) db4) (\<lambda>db5.
         bind_res (update_lease (fl_id l) (\<lambda>x. x\<lparr>fl_numberID := fn_id n\<rparr>) db5) (\<lambda>db6.
         bind_res (update_account u (fn_value n)
             (\<lambda>y. y\<lparr>uu_fancy := True, uu_fancyExpiresAt := None, uu_fancyPermanent := True\<rparr>) db6) (\<lambda>db7.
         let order = switch_order e l target n key balance
         in bind_res (create_order order db7) (\<lambda>db8.
            bind_res (book_points e u price balance key db8) (\<lambda>db9.
            Inr (order_result order (displayTargetValue (fn_value n) target) True, db9)))))))))))"

definition switch_tx ::
  "fancy_env \<Rightarrow> string \<Rightarrow> number_target \<Rightarrow> string \<Rightarrow> int option \<Rightarrow> fancy_db \<Rightarrow> fancy_error + (fancy_result \<times> fancy_db)" where
  "switch_tx e u target key quote db =
     (case active_lease u db of
        None \<Rightarrow> Inl LeaseNotFound
      | Some l \<Rightarrow>
          (case (find_fancy_user u db, find_number (fl_numberID l) db) of
             (Some x, Some cur) \<Rightarrow>
               (case find_order key db of
                  Some r \<Rightarrow>
                    if fo_print r \<noteq> SwitchPrint u (fl_id l) target then Inl KeyReused
                    else (case find_number (fo_numberID r) db of
                       None \<Rightarrow> Inl RowMissing
                     | Some n \<Rightarrow> Inr ((order_result r (displayTargetValue (fn_value n) target) True)
                         \<lparr>rs_expiresAt := None, rs_months := None\<rparr>, db))
                | None \<Rightarrow>
                    if quote_changed quote then Inl QuoteChanged
                    else if fl_permanentAt l = None \<or> fl_expiresAt l \<noteq> None \<or> \<not> uu_active x then Inl SwitchRequiresPermanent
                    else if uu_accountId x \<noteq> fn_value cur then Inl AccountInconsistent
                    else bind_res (available_target e target u db) (\<lambda>(n, db1). write_switch e l (fn_value cur) target n key db1))
           | _ \<Rightarrow> Inl RowMissing))"

definition switchPermanentTarget ::
  "(nat \<Rightarrow> fancy_db \<Rightarrow> fancy_db) \<Rightarrow> fancy_env \<Rightarrow> string \<Rightarrow> number_target \<Rightarrow> string \<Rightarrow> int option
   \<Rightarrow> fancy_db \<Rightarrow> (fancy_error + fancy_result) \<times> fancy_db" where
  "switchPermanentTarget others e u target clientKey quote db =
     (case clientIdempotencyKey u clientKey of
        Inl err \<Rightarrow> (Inl err, db)
      | Inr key \<Rightarrow> let db1 = others 0 db in committed (switch_tx e u target key quote db1) db1)"

definition switchPermanent ::
  "(nat \<Rightarrow> fancy_db \<Rightarrow> fancy_db) \<Rightarrow> fancy_env \<Rightarrow> string \<Rightarrow> string \<Rightarrow> string \<Rightarrow> int option
   \<Rightarrow> fancy_db \<Rightarrow> (fancy_error + fancy_result) \<times> fancy_db" where
  "switchPermanent others e u i clientKey quote db = switchPermanentTarget others e u (Inventory i) clientKey quote db"

definition switchPermanentCustom ::
  "(nat \<Rightarrow> fancy_db \<Rightarrow> fancy_db) \<Rightarrow> fancy_env \<Rightarrow> string \<Rightarrow> string \<Rightarrow> string \<Rightarrow> int option
   \<Rightarrow> fancy_db \<Rightarrow> (fancy_error + fancy_result) \<times> fancy_db" where
  "switchPermanentCustom others e u v clientKey quote db =
     (case requireCustomFancyNumber v of
        Inl err \<Rightarrow> (Inl err, db)
      | Inr (_, stored) \<Rightarrow> switchPermanentTarget others e u (Custom stored) clientKey quote db)"

definition renewal_replay :: "string \<Rightarrow> int \<Rightarrow> fancy_order \<Rightarrow> bool" where
  "renewal_replay u months r = (case fo_print r of RenewalPrint v _ m \<Rightarrow> v = u \<and> m = months | _ \<Rightarrow> False)"

definition renewal_order :: "fancy_env \<Rightarrow> fancy_lease \<Rightarrow> fancy_number \<Rightarrow> int \<Rightarrow> int \<Rightarrow> int \<Rightarrow> string \<Rightarrow> int \<Rightarrow> fancy_order" where
  "renewal_order e l n old months expiresAt key balance = \<lparr>fo_id = fe_orderId e, fo_key = key, fo_print = RenewalPrint (fl_userID l) (fl_id l) months,
     fo_type = RENEWAL_ORDER, fo_userID = fl_userID l, fo_numberID = fn_id n, fo_leaseID = fl_id l, fo_months = Some months,
     fo_unitPrice = FANCY_NUMBER_UNIT_PRICE, fo_totalPrice = months * FANCY_NUMBER_UNIT_PRICE, fo_walletAfter = Some balance,
     fo_previousExpiresAt = Some old, fo_newExpiresAt = Some expiresAt\<rparr>"

definition write_renewal ::
  "fancy_env \<Rightarrow> fancy_lease \<Rightarrow> fancy_number \<Rightarrow> int \<Rightarrow> int \<Rightarrow> string \<Rightarrow> fancy_db \<Rightarrow> fancy_error + (fancy_result \<times> fancy_db)" where
  "write_renewal e l n old months key db =
     (let u = fl_userID l; price = months * FANCY_NUMBER_UNIT_PRICE
      in bind_res (debit_points u price (db\<lparr>fz_coin := upsert_wallet u (fz_coin db)\<rparr>)) (\<lambda>(balance, db1).
         bind_res (term_end old months) (\<lambda>expiresAt.
         bind_res (update_lease (fl_id l) (\<lambda>x. x\<lparr>fl_expiresAt := Some expiresAt\<rparr>) db1) (\<lambda>db2.
         bind_res (update_user u (\<lambda>x. x\<lparr>uu_fancyExpiresAt := Some expiresAt\<rparr>) db2) (\<lambda>db3.
         let order = renewal_order e l n old months expiresAt key balance
         in bind_res (create_order order db3) (\<lambda>db4.
            bind_res (book_points e u price balance key db4) (\<lambda>db5.
            Inr (order_result order (fn_value n) False, db5))))))))"

definition renew_tx ::
  "fancy_env \<Rightarrow> string \<Rightarrow> int \<Rightarrow> string \<Rightarrow> int option \<Rightarrow> fancy_db \<Rightarrow> fancy_error + (fancy_result \<times> fancy_db)" where
  "renew_tx e u months key quote db =
     (case active_lease u db of
        None \<Rightarrow> Inl LeaseNotFound
      | Some l \<Rightarrow>
          (case find_number (fl_numberID l) db of
             None \<Rightarrow> Inl RowMissing
           | Some n \<Rightarrow>
               (case find_order key db of
                  Some r \<Rightarrow>
                    if fo_print r \<noteq> RenewalPrint u (fl_id l) months then Inl KeyReused
                    else (case find_number (fo_numberID r) db of
                       None \<Rightarrow> Inl RowMissing | Some m \<Rightarrow> Inr (order_result r (fn_value m) False, db))
                | None \<Rightarrow>
                    if quote_changed quote then Inl QuoteChanged
                    else (case (fl_permanentAt l, fl_expiresAt l) of
                       (None, Some t) \<Rightarrow> if t \<le> fe_now e then Inl LeaseExpired else write_renewal e l n t months key db
                     | _ \<Rightarrow> Inl PermanentCannotRenew))))"

definition renew ::
  "(nat \<Rightarrow> fancy_db \<Rightarrow> fancy_db) \<Rightarrow> fancy_env \<Rightarrow> string \<Rightarrow> int \<Rightarrow> string \<Rightarrow> int option
   \<Rightarrow> fancy_db \<Rightarrow> (fancy_error + fancy_result) \<times> fancy_db" where
  "renew others e u months clientKey quote db =
     (if months < 1 \<or> 12 < months then (Inl InvalidMonths, db)
      else case clientIdempotencyKey u clientKey of
        Inl err \<Rightarrow> (Inl err, db)
      | Inr key \<Rightarrow>
          let db1 = others 0 db
          in (case find_order key db1 of
                Some r \<Rightarrow>
                  (if \<not> renewal_replay u months r then Inl KeyReused
                   else (case find_number (fo_numberID r) db1 of
                      None \<Rightarrow> Inl RowMissing | Some n \<Rightarrow> Inr (order_result r (fn_value n) False)), db1)
              | None \<Rightarrow>
                  (case expireOverdueLeaseForUser others 1 (fe_now e) u db1 of
                     (Inl err, db2) \<Rightarrow> (Inl err, db2)
                   | (Inr True, db2) \<Rightarrow> (Inl LeaseExpired, db2)
                   | (Inr False, db2) \<Rightarrow> let db3 = others 3 db2 in committed (renew_tx e u months key quote db3) db3)))"


section \<open>The account id of a user\<close>

definition ensureAccountIdChangeAllowed ::
  "(nat \<Rightarrow> fancy_db \<Rightarrow> fancy_db) \<Rightarrow> int \<Rightarrow> string \<Rightarrow> fancy_db \<Rightarrow> (fancy_error + unit) \<times> fancy_db" where
  "ensureAccountIdChangeAllowed others now u db =
     (let db1 = others 0 db
      in case active_lease u db1 of
           None \<Rightarrow> (Inr (), db1)
         | Some l \<Rightarrow>
             if due_lease now l
             then let db2 = others 1 db1
                  in (case committed (expireLease now (fl_id l) db2) db2 of (Inl err, db3) \<Rightarrow> (Inl err, db3) | (Inr _, db3) \<Rightarrow> (Inr (), db3))
             else (Inl AccountIdLocked, db1))"

definition identifier_taken :: "string \<Rightarrow> string \<Rightarrow> fancy_db \<Rightarrow> bool" where
  "identifier_taken u v db =
     (case find_identifier v db of None \<Rightarrow> False
      | Some a \<Rightarrow> (ai_current a \<noteq> None \<and> ai_current a \<noteq> Some u) \<or> ai_reserved a \<noteq> None
          \<or> (ai_invite a \<noteq> None \<and> ai_invite a \<noteq> Some u) \<or> number_of_value v db \<noteq> None)"

definition change_account_tx :: "string \<Rightarrow> string \<Rightarrow> fancy_db \<Rightarrow> fancy_error + (unit \<times> fancy_db)" where
  "change_account_tx u v db =
     (if active_lease u db \<noteq> None then Inl AccountIdLocked
      else case find_fancy_user u db of
        None \<Rightarrow> Inl NoSuchUser
      | Some x \<Rightarrow>
          if uu_accountId x = v then Inl AccountIdUnchanged
          else if \<exists>y \<in> set (fz_users db). uu_accountId y = v then Inl AccountIdTaken
          else if identifier_taken u v db then Inl AccountIdTaken
          else bind_res (update_account u v (\<lambda>y. y) db) (\<lambda>db1. Inr ((), db1)))"

definition changeAccountId ::
  "(nat \<Rightarrow> fancy_db \<Rightarrow> fancy_db) \<Rightarrow> int \<Rightarrow> string \<Rightarrow> string \<Rightarrow> fancy_db \<Rightarrow> (fancy_error + unit) \<times> fancy_db" where
  "changeAccountId others now u accountId db =
     (let v = js_lower (js_trim accountId)
      in if \<not> account_id_pattern v then (Inl AccountIdInvalid, db)
         else case ensureAccountIdChangeAllowed others now u db of
           (Inl err, db1) \<Rightarrow> (Inl err, db1)
         | (Inr _, db1) \<Rightarrow>
             let db2 = others 2 db1
             in (case committed (change_account_tx u v db2) db2 of
                   (Inl err, db3) \<Rightarrow> (Inl (if err = UniqueViolation then AccountIdTaken else err), db3)
                 | (Inr _, db3) \<Rightarrow> (Inr (), db3)))"

text \<open>The triggers on a new user with account id \<open>v\<close> and invite code \<open>w\<close>, both in lower case.\<close>

definition occupied_for_new :: "string \<Rightarrow> fancy_db \<Rightarrow> bool" where
  "occupied_for_new v db =
     (case find_identifier v db of None \<Rightarrow> False | Some a \<Rightarrow> claimed_identifier a \<or> number_of_value v db \<noteq> None)"

definition ensure_identifier :: "string \<Rightarrow> fancy_db \<Rightarrow> fancy_db" where
  "ensure_identifier v db = (case create_identifier v db of Inl _ \<Rightarrow> db | Inr db' \<Rightarrow> db')"

definition create_user :: "fancy_user \<Rightarrow> string \<Rightarrow> fancy_db \<Rightarrow> fancy_error + fancy_db" where
  "create_user x w db =
     (let u = uu_id x; v = uu_accountId x
      in if occupied_for_new v db then Inl IdentifierCollision
         else let db1 = ensure_identifier v db
         in if w \<noteq> v \<and> occupied_for_new w db1 then Inl IdentifierCollision
         else let db2 = (if w \<noteq> v then ensure_identifier w db1 else db1)
         in if find_fancy_user u db2 \<noteq> None \<or> (\<exists>y \<in> set (fz_users db2). uu_accountId y = v) then Inl UniqueViolation
         else let db3 = db2\<lparr>fz_users := fz_users db2 @ [x]\<rparr>
         in bind_res (update_identifiers (\<lambda>a. ai_value a = v)
              (\<lambda>a. a\<lparr>ai_current := Some u, ai_invite := (if v = w then Some u else ai_invite a)\<rparr>) db3) (\<lambda>(_, db4).
            if w = v then Inr db4
            else bind_res (update_identifiers (\<lambda>a. ai_value a = w) (\<lambda>a. a\<lparr>ai_invite := Some u\<rparr>) db4) (\<lambda>(_, db5). Inr db5)))"

section \<open>Questions\<close>

record my_number =
  mn_active :: bool
  mn_accountId :: "string option"
  mn_restoreAccountId :: "string option"
  mn_startedAt :: "int option"
  mn_expiresAt :: "int option"
  mn_permanent :: bool
  mn_renewable :: bool

definition inactiveFancyNumber :: my_number where
  "inactiveFancyNumber = \<lparr>mn_active = False, mn_accountId = None, mn_restoreAccountId = None, mn_startedAt = None,
     mn_expiresAt = None, mn_permanent = False, mn_renewable = False\<rparr>"

definition shown_value :: "fancy_number \<Rightarrow> string" where
  "shown_value n = (if fn_source n = CUSTOM_SOURCE then js_upper (fn_value n) else fn_value n)"

definition getMine ::
  "(nat \<Rightarrow> fancy_db \<Rightarrow> fancy_db) \<Rightarrow> int \<Rightarrow> string \<Rightarrow> fancy_db \<Rightarrow> (fancy_error + my_number) \<times> fancy_db" where
  "getMine others now u db =
     (let db1 = others 0 db
      in case active_lease u db1 of
           None \<Rightarrow> (Inr inactiveFancyNumber, db1)
         | Some l \<Rightarrow>
             if due_lease now l
             then let db2 = others 1 db1
                  in (case committed (expireLease now (fl_id l) db2) db2 of
                        (Inl err, db3) \<Rightarrow> (Inl err, db3) | (Inr _, db3) \<Rightarrow> (Inr inactiveFancyNumber, db3))
             else (case find_number (fl_numberID l) db1 of
                     None \<Rightarrow> (Inl RowMissing, db1)
                   | Some n \<Rightarrow> (Inr \<lparr>mn_active = True, mn_accountId = Some (shown_value n), mn_restoreAccountId = fl_restoreAccountId l,
                       mn_startedAt = Some (fl_startedAt l), mn_expiresAt = fl_expiresAt l,
                       mn_permanent = (fl_permanentAt l \<noteq> None), mn_renewable = (fl_permanentAt l = None)\<rparr>, db1)))"

definition checkCustomAvailability :: "string \<Rightarrow> fancy_db \<Rightarrow> fancy_error + (string \<times> bool \<times> string option)" where
  "checkCustomAvailability v db =
     (let (shown, stored) = normalizeCustomFancyNumber v
      in if \<not> custom_pattern shown then Inl InvalidValue
         else case validateCustomFancyNumber shown of
           Inl _ \<Rightarrow> Inr (shown, False, Some ''RESERVED'')
         | Inr _ \<Rightarrow>
             let available = (find_identifier stored db = None
                   \<or> (case number_of_value stored db of None \<Rightarrow> False | Some n \<Rightarrow> fn_status n = AVAILABLE_N))
             in Inr (shown, available, if available then None else Some ''TAKEN''))"

definition number_order :: "fancy_number list \<Rightarrow> fancy_number list" where
  "number_order = sort_key (\<lambda>n. (fn_sortOrder n, fn_id n))"

text \<open>A page of a listing; \<open>resume\<close> is what Prisma does with a cursor and \<open>skip: 1\<close>.\<close>

definition number_page ::
  "(string \<Rightarrow> fancy_number list \<Rightarrow> fancy_number list) \<Rightarrow> nat \<Rightarrow> string option \<Rightarrow> fancy_number list \<Rightarrow> fancy_number list \<times> string option" where
  "number_page resume limit cursor rows =
     (let got = take (limit + 1) (case cursor of None \<Rightarrow> rows | Some c \<Rightarrow> resume c rows); page = take limit got
      in (page, if limit < length got then Some (fn_id (last page)) else None))"

definition listAvailable ::
  "(string \<Rightarrow> fancy_number list \<Rightarrow> fancy_number list) \<Rightarrow> int \<Rightarrow> string \<Rightarrow> string option \<Rightarrow> nat option \<Rightarrow> fancy_db
   \<Rightarrow> fancy_error + ((string \<times> string) list \<times> string option \<times> bool)" where
  "listAvailable resume now u cursor limitOpt db =
     (let limit = (case limitOpt of None \<Rightarrow> 20 | Some k \<Rightarrow> k)
      in if limit < 1 \<or> 50 < limit then Inl InvalidLimit
         else case find_fancy_user u db of
           None \<Rightarrow> Inl NoSuchUser
         | Some x \<Rightarrow>
             let (page, next) = number_page resume limit cursor
                   (number_order (filter (\<lambda>n. fn_status n = AVAILABLE_N \<and> fn_recommended n) (fz_numbers db)))
             in Inr (map (\<lambda>n. (fn_id n, shown_value n)) page, next,
                     resolveEffectiveMembershipLevel (uu_vipLevel x) (uu_vipExpiresAt x) now = 4))"


section \<open>The sweep of due leases\<close>

definition EXPIRE_PAGE :: nat where "EXPIRE_PAGE = 100"

definition lease_order :: "fancy_lease \<Rightarrow> int \<times> string" where
  "lease_order l = (case fl_expiresAt l of None \<Rightarrow> 0 | Some t \<Rightarrow> t, fl_id l)"

definition due_page :: "int \<Rightarrow> (int \<times> string) option \<Rightarrow> fancy_db \<Rightarrow> fancy_lease list" where
  "due_page now after db =
     take EXPIRE_PAGE (sort_key lease_order (filter (\<lambda>l. due_lease now l
       \<and> (case after of None \<Rightarrow> True | Some (t, i) \<Rightarrow>
            (case fl_expiresAt l of None \<Rightarrow> False | Some t' \<Rightarrow> t < t' \<or> t' = t \<and> i < fl_id l))) (fz_leases db)))"

text \<open>One transaction per lease; a failure is logged and the next lease taken.\<close>

fun expire_each ::
  "(nat \<Rightarrow> fancy_db \<Rightarrow> fancy_db) \<Rightarrow> nat \<Rightarrow> int \<Rightarrow> fancy_lease list \<Rightarrow> fancy_db \<Rightarrow> nat \<times> fancy_db" where
  "expire_each others k now [] db = (0, db)"
| "expire_each others k now (l # ls) db =
     (let db1 = others k db
      in case committed (expireLease now (fl_id l) db1) db1 of
           (r, db2) \<Rightarrow> (case expire_each others (Suc k) now ls db2 of
             (n, db3) \<Rightarrow> ((if r = Inr True then 1 else 0) + n, db3)))"

text \<open>The loop over the pages, with fuel; \<open>None\<close> when the fuel runs out.\<close>

fun expire_pages ::
  "(nat \<Rightarrow> fancy_db \<Rightarrow> fancy_db) \<Rightarrow> nat \<Rightarrow> nat \<Rightarrow> int \<Rightarrow> (int \<times> string) option \<Rightarrow> fancy_db \<Rightarrow> nat option \<times> fancy_db" where
  "expire_pages others 0 k now after db = (None, db)"
| "expire_pages others (Suc fuel) k now after db =
     (let db1 = others k db; due = due_page now after db1
      in case expire_each others (Suc k) now due db1 of
           (n, db2) \<Rightarrow>
             if length due < EXPIRE_PAGE then (Some n, db2)
             else case expire_pages others fuel (k + Suc (length due)) now (Some (lease_order (last due))) db2 of
               (m, db3) \<Rightarrow> (map_option (\<lambda>x. n + x) m, db3))"

definition expireDue :: "(nat \<Rightarrow> fancy_db \<Rightarrow> fancy_db) \<Rightarrow> nat \<Rightarrow> int \<Rightarrow> fancy_db \<Rightarrow> nat option \<times> fancy_db" where
  "expireDue others fuel now db = expire_pages others fuel 0 now None db"

section \<open>Administration\<close>

text \<open>
  The codes of a new campaign (\<open>create\<close> of \<open>src/admin-operations/admin-invite.service.ts\<close>): for each at most 30 codes are
  drawn (the lists of draws are arguments), and the first that is no identifier yet is entered in both tables.
\<close>

fun campaign_code :: "string list \<Rightarrow> fancy_db \<Rightarrow> fancy_error + (string \<times> fancy_db)" where
  "campaign_code [] db = Inl NoCode"
| "campaign_code (c # cs) db =
     (let v = js_lower c
      in if find_identifier v db \<noteq> None then campaign_code cs db
         else bind_res (create_identifier v db) (\<lambda>db1.
              if v \<in> set (fz_campaigns db1) then Inl UniqueViolation
              else Inr (c, db1\<lparr>fz_campaigns := fz_campaigns db1 @ [v]\<rparr>)))"

fun campaign_codes :: "string list list \<Rightarrow> fancy_db \<Rightarrow> fancy_error + (string list \<times> fancy_db)" where
  "campaign_codes [] db = Inr ([], db)"
| "campaign_codes (ds # draws) db =
     bind_res (campaign_code (take 30 ds) db) (\<lambda>(c, db1).
     bind_res (campaign_codes draws db1) (\<lambda>(cs, db2). Inr (c # cs, db2)))"

text \<open>Distinct values in lower case, in the order of \<open>localeCompare\<close> (an argument).\<close>

fun create_numbers :: "string option \<Rightarrow> bool \<Rightarrow> (string \<Rightarrow> string) \<Rightarrow> (string \<times> int) list \<Rightarrow> fancy_db \<Rightarrow> fancy_error + fancy_db" where
  "create_numbers actor recommended newId [] db = Inr db"
| "create_numbers actor recommended newId ((v, k) # vs) db =
     bind_res (create_number \<lparr>fn_id = newId v, fn_value = v, fn_status = AVAILABLE_N, fn_source = ADMIN_SOURCE,
         fn_recommended = recommended, fn_sortOrder = k, fn_createdBy = actor, fn_disabledAt = None\<rparr> db)
       (create_numbers actor recommended newId vs)"

fun create_identifiers :: "string list \<Rightarrow> fancy_db \<Rightarrow> fancy_error + fancy_db" where
  "create_identifiers [] db = Inr db"
| "create_identifiers (v # vs) db = bind_res (create_identifier v db) (create_identifiers vs)"

definition adminBatchCreate ::
  "(string list \<Rightarrow> string list) \<Rightarrow> (string \<Rightarrow> string) \<Rightarrow> string \<Rightarrow> string list \<Rightarrow> fancy_db
   \<Rightarrow> fancy_error + ((string \<times> string) list \<times> fancy_db)" where
  "adminBatchCreate collate newId actor vals db =
     (let normalized = collate (remdups (map (\<lambda>v. js_lower (js_trim v)) vals))
      in if length normalized < 1 \<or> 100 < length normalized \<or> list_ex (\<lambda>v. \<not> account_id_pattern v) normalized then Inl InvalidBatch
         else if list_ex (\<lambda>v. find_identifier v db \<noteq> None) normalized then Inl IdentifierOccupied
         else case bind_res (create_identifiers normalized db)
                (create_numbers (Some actor) False newId (zip normalized (map int [0..<length normalized]))) of
                Inl err \<Rightarrow> Inl (if err = UniqueViolation then IdentifierOccupied else err)
              | Inr db1 \<Rightarrow> Inr (map (\<lambda>n. (fn_id n, fn_value n)) (number_order (filter (\<lambda>n. fn_value n \<in> set normalized) (fz_numbers db1))), db1))"

definition contains_text :: "string \<Rightarrow> string \<Rightarrow> bool" where
  "contains_text part s \<longleftrightarrow> list_ex (\<lambda>k. take (length part) (drop k s) = part) [0..<Suc (length s)]"

definition adminList ::
  "(string \<Rightarrow> fancy_number list \<Rightarrow> fancy_number list) \<Rightarrow> string option \<Rightarrow> nat option \<Rightarrow> number_status option \<Rightarrow> string option \<Rightarrow> fancy_db
   \<Rightarrow> fancy_error + (fancy_number list \<times> string option)" where
  "adminList resume cursor limitOpt status search db =
     (let limit = (case limitOpt of None \<Rightarrow> 20 | Some k \<Rightarrow> k)
      in if limit < 1 \<or> 50 < limit then Inl InvalidLimit
         else Inr (number_page resume limit cursor (number_order (filter
           (\<lambda>n. (case status of None \<Rightarrow> True | Some s \<Rightarrow> fn_status n = s)
              \<and> (case search of None \<Rightarrow> True | Some [] \<Rightarrow> True | Some p \<Rightarrow> contains_text (js_lower (js_trim p)) (fn_value n)))
           (fz_numbers db)))))"

definition listRecommendationRows :: "fancy_db \<Rightarrow> fancy_number list" where
  "listRecommendationRows db = take (FANCY_NUMBER_RECOMMENDATION_LIMIT + 1) (number_order (filter fn_recommended (fz_numbers db)))"

definition displayRecommendationRow :: "fancy_number \<Rightarrow> fancy_number" where
  "displayRecommendationRow n = n\<lparr>fn_value := js_upper (fn_value n)\<rparr>"

definition adminListRecommendations :: "fancy_db \<Rightarrow> fancy_number list" where
  "adminListRecommendations db = map displayRecommendationRow (listRecommendationRows db)"

text \<open>The place after the last recommendation.\<close>

definition next_place :: "fancy_db \<Rightarrow> int" where
  "next_place db = (case rev (number_order (filter fn_recommended (fz_numbers db))) of [] \<Rightarrow> 0 | n # _ \<Rightarrow> fn_sortOrder n + 1)"

definition recommend_existing :: "string list \<Rightarrow> int \<Rightarrow> fancy_db \<Rightarrow> fancy_db" where
  "recommend_existing vals first db = db\<lparr>fz_numbers := foldl (\<lambda>rows (k, v).
     update_where (\<lambda>n. fn_value n = v) (\<lambda>n. n\<lparr>fn_recommended := True, fn_sortOrder := first + int k\<rparr>) rows)
     (fz_numbers db) (enumerate 0 vals)\<rparr>"

text \<open>The values in order, or the first error.\<close>

fun collect_res :: "('e + 'a) list \<Rightarrow> 'e + 'a list" where
  "collect_res [] = Inr []"
| "collect_res (r # rs) = bind_res r (\<lambda>a. bind_res (collect_res rs) (\<lambda>as. Inr (a # as)))"

definition adminAddRecommendations ::
  "(string \<Rightarrow> string) \<Rightarrow> string \<Rightarrow> string list \<Rightarrow> fancy_db \<Rightarrow> fancy_error + (fancy_number list \<times> fancy_db)" where
  "adminAddRecommendations newId actor vals db =
     bind_res (collect_res (map (\<lambda>v. map_sum id snd (requireCustomFancyNumber v)) vals)) (\<lambda>normalized.
     if length normalized < 1 \<or> FANCY_NUMBER_RECOMMENDATION_LIMIT < length normalized \<or> \<not> distinct normalized then Inl InvalidBatch
     else if list_ex (\<lambda>v. find_identifier v db \<noteq> None \<and> number_of_value v db = None) normalized then Inl IdentifierOccupied
     else
       let append = filter (\<lambda>v. case number_of_value v db of None \<Rightarrow> True | Some n \<Rightarrow> \<not> fn_recommended n) normalized
       in if FANCY_NUMBER_RECOMMENDATION_LIMIT < count_where fn_recommended (fz_numbers db) + length append then Inl RecommendationLimit
          else
            let first = next_place db; new = filter (\<lambda>(k, v). number_of_value v db = None) (enumerate 0 append)
            in case bind_res (create_identifiers (map snd new) db) (\<lambda>db1.
                 create_numbers (Some actor) True newId (map (\<lambda>(k, v). (v, first + int k)) new) (recommend_existing append first db1)) of
                 Inl err \<Rightarrow> Inl (if err = UniqueViolation then IdentifierOccupied else err)
               | Inr db2 \<Rightarrow> Inr (adminListRecommendations db2, db2))"

definition adminSetRecommendation :: "string \<Rightarrow> bool \<Rightarrow> fancy_db \<Rightarrow> fancy_error + (fancy_number \<times> fancy_db)" where
  "adminSetRecommendation i recommended db =
     (case find_number i db of
        None \<Rightarrow> Inl NumberNotFound
      | Some n \<Rightarrow>
          let enter = (recommended \<and> \<not> fn_recommended n)
          in if enter \<and> FANCY_NUMBER_RECOMMENDATION_LIMIT \<le> count_where fn_recommended (fz_numbers db) then Inl RecommendationLimit
             else let place = (if enter then next_place db else fn_sortOrder n);
                      f = (\<lambda>m. if recommended then m\<lparr>fn_recommended := True, fn_sortOrder := place\<rparr> else m\<lparr>fn_recommended := False\<rparr>)
                  in bind_res (update_number i f db) (\<lambda>db1. Inr (displayRecommendationRow (f n), db1)))"

definition adminReorderRecommendations :: "string list \<Rightarrow> string list \<Rightarrow> fancy_db \<Rightarrow> fancy_error + (fancy_number list \<times> fancy_db)" where
  "adminReorderRecommendations expectedIds ids db =
     (if FANCY_NUMBER_RECOMMENDATION_LIMIT < length expectedIds \<or> length ids \<noteq> length expectedIds \<or> \<not> distinct expectedIds
         \<or> \<not> distinct ids \<or> list_ex (\<lambda>i. i \<notin> set expectedIds) ids then Inl InvalidOrder
      else if map fn_id (listRecommendationRows db) \<noteq> expectedIds then Inl RecommendationConflict
      else let db1 = db\<lparr>fz_numbers := foldl (\<lambda>rows (k, i).
                 update_where (\<lambda>n. fn_id n = i) (\<lambda>n. n\<lparr>fn_sortOrder := int k\<rparr>) rows) (fz_numbers db) (enumerate 0 ids)\<rparr>
           in Inr (adminListRecommendations db1, db1))"

definition adminSetAvailability :: "int \<Rightarrow> string \<Rightarrow> bool \<Rightarrow> fancy_db \<Rightarrow> fancy_error + (fancy_number \<times> fancy_db)" where
  "adminSetAvailability now i enabled db =
     (case find_number i db of
        None \<Rightarrow> Inl NumberNotFound
      | Some n \<Rightarrow>
          if fn_status n = LEASED_N \<or> fn_status n = PERMANENT_N then Inl NumberTaken
          else if enabled \<and> hasAccountIdentifierClaim (fn_value n) db then Inl IdentifierClaimed
          else let f = (\<lambda>m. m\<lparr>fn_status := (if enabled then AVAILABLE_N else DISABLED_N), fn_disabledAt := (if enabled then None else Some now)\<rparr>)
               in bind_res (update_number i f db) (\<lambda>db1. Inr (f n, db1)))"

end
