(* ===== verification/FancyProofs.thy ===== *)
theory FancyProofs
  imports FancyNumber KeyedTables
begin

text \<open>
  Fancy numbers: the tables seen as maps from their keys, what each statement does to these maps, the invariant that ties
  numbers, leases, identifiers and users together, and its preservation by every operation under interference.
\<close>

section \<open>The tables as maps\<close>

definition idents :: "fancy_db \<Rightarrow> string \<Rightarrow> account_identifier option" where "idents db v = find_identifier v db"
definition nums :: "fancy_db \<Rightarrow> string \<Rightarrow> fancy_number option" where "nums db i = find_number i db"
definition leases :: "fancy_db \<Rightarrow> string \<Rightarrow> fancy_lease option" where "leases db i = find_lease i db"
definition people :: "fancy_db \<Rightarrow> string \<Rightarrow> fancy_user option" where "people db u = find_fancy_user u db"

definition keyed :: "fancy_db \<Rightarrow> bool" where
  "keyed db \<longleftrightarrow> distinct (map ai_value (fz_identifiers db)) \<and> distinct (map fn_id (fz_numbers db))
     \<and> distinct (map fl_id (fz_leases db)) \<and> distinct (map uu_id (fz_users db))"

lemmas view_defs = idents_def nums_def leases_def people_def find_identifier_def find_number_def find_lease_def find_fancy_user_def

lemma view_frame [simp]:
  "idents (db\<lparr>fz_numbers := ns\<rparr>) = idents db" "idents (db\<lparr>fz_leases := ls\<rparr>) = idents db" "idents (db\<lparr>fz_users := us\<rparr>) = idents db"
  "idents (db\<lparr>fz_orders := rs\<rparr>) = idents db" "idents (db\<lparr>fz_coin := c\<rparr>) = idents db"
  "nums (db\<lparr>fz_identifiers := is\<rparr>) = nums db" "nums (db\<lparr>fz_leases := ls\<rparr>) = nums db" "nums (db\<lparr>fz_users := us\<rparr>) = nums db"
  "nums (db\<lparr>fz_orders := rs\<rparr>) = nums db" "nums (db\<lparr>fz_coin := c\<rparr>) = nums db"
  "leases (db\<lparr>fz_identifiers := is\<rparr>) = leases db" "leases (db\<lparr>fz_numbers := ns\<rparr>) = leases db" "leases (db\<lparr>fz_users := us\<rparr>) = leases db"
  "leases (db\<lparr>fz_orders := rs\<rparr>) = leases db" "leases (db\<lparr>fz_coin := c\<rparr>) = leases db"
  "people (db\<lparr>fz_identifiers := is\<rparr>) = people db" "people (db\<lparr>fz_numbers := ns\<rparr>) = people db" "people (db\<lparr>fz_leases := ls\<rparr>) = people db"
  "people (db\<lparr>fz_orders := rs\<rparr>) = people db" "people (db\<lparr>fz_coin := c\<rparr>) = people db"
  by (rule ext, simp add: view_defs)+

lemma keyed_frame [simp]:
  "keyed (db\<lparr>fz_orders := rs\<rparr>) = keyed db" "keyed (db\<lparr>fz_coin := c\<rparr>) = keyed db"
  by (simp_all add: keyed_def)

section \<open>What the statements do\<close>

lemma update_identifiers_eq:
  "update_identifiers p f db = Inr (n, db') \<Longrightarrow>
   n = count_where p (fz_identifiers db) \<and> db' = db\<lparr>fz_identifiers := update_where p f (fz_identifiers db)\<rparr>"
  by (auto simp: update_identifiers_def Let_def split: if_splits)

lemma update_identifiers_one:
  assumes "keyed db" "update_identifiers p f db = Inr (1, db')" "\<And>a. p a \<Longrightarrow> ai_value a = v" "\<And>a. ai_value (f a) = ai_value a"
  shows "\<exists>a rows. idents db v = Some a \<and> p a \<and> db' = db\<lparr>fz_identifiers := rows\<rparr>
    \<and> idents db' = (idents db)(v \<mapsto> f a) \<and> keyed db'"
proof -
  let ?rows = "update_where p f (fz_identifiers db)"
  have d: "distinct (map ai_value (fz_identifiers db))" using assms(1) by (simp add: keyed_def)
  have db': "db' = db\<lparr>fz_identifiers := ?rows\<rparr>" and one: "count_where p (fz_identifiers db) = 1"
    using update_identifiers_eq [OF assms(2)] by auto
  obtain a where "find_where (\<lambda>r. ai_value r = v) (fz_identifiers db) = Some a" "p a"
      "(\<lambda>y. find_where (\<lambda>r. ai_value r = y) ?rows) = (\<lambda>y. find_where (\<lambda>r. ai_value r = y) (fz_identifiers db))(v \<mapsto> f a)"
    using lookup_update_one [where k = ai_value and f = f and p = p and x = v, OF d assms(4) one assms(3)] by blast
  moreover have "keyed db'"
    using assms(1) map_update_where [of ai_value f p] assms(4) by (simp add: keyed_def db')
  ultimately show ?thesis unfolding db'
    by (intro exI [of _ a] exI [of _ ?rows]) (simp add: idents_def [abs_def] find_identifier_def)
qed

lemma update_numbers_one:
  assumes "keyed db" "update_numbers p f db = (1, db')" "\<And>n. p n \<Longrightarrow> fn_id n = i" "\<And>n. fn_id (f n) = fn_id n"
  shows "\<exists>n rows. nums db i = Some n \<and> p n \<and> db' = db\<lparr>fz_numbers := rows\<rparr>
    \<and> nums db' = (nums db)(i \<mapsto> f n) \<and> keyed db'"
proof -
  let ?rows = "update_where p f (fz_numbers db)"
  have d: "distinct (map fn_id (fz_numbers db))" using assms(1) by (simp add: keyed_def)
  have db': "db' = db\<lparr>fz_numbers := ?rows\<rparr>" and one: "count_where p (fz_numbers db) = 1"
    using assms(2) by (auto simp: update_numbers_def)
  obtain n where "find_where (\<lambda>r. fn_id r = i) (fz_numbers db) = Some n" "p n"
      "(\<lambda>y. find_where (\<lambda>r. fn_id r = y) ?rows) = (\<lambda>y. find_where (\<lambda>r. fn_id r = y) (fz_numbers db))(i \<mapsto> f n)"
    using lookup_update_one [where k = fn_id and f = f and p = p and x = i, OF d assms(4) one assms(3)] by blast
  moreover have "keyed db'"
    using assms(1) map_update_where [of fn_id f p] assms(4) by (simp add: keyed_def db')
  ultimately show ?thesis unfolding db'
    by (intro exI [of _ n] exI [of _ ?rows]) (simp add: nums_def [abs_def] find_number_def)
qed

lemma update_leases_one:
  assumes "keyed db" "count_where p (fz_leases db) = 1" "\<And>l. p l \<Longrightarrow> fl_id l = i" "\<And>l. fl_id (f l) = fl_id l"
    and db': "db' = db\<lparr>fz_leases := update_where p f (fz_leases db)\<rparr>"
  shows "\<exists>l. leases db i = Some l \<and> p l \<and> leases db' = (leases db)(i \<mapsto> f l) \<and> keyed db'"
proof -
  let ?rows = "update_where p f (fz_leases db)"
  have d: "distinct (map fl_id (fz_leases db))" using assms(1) by (simp add: keyed_def)
  obtain l where "find_where (\<lambda>r. fl_id r = i) (fz_leases db) = Some l" "p l"
      "(\<lambda>y. find_where (\<lambda>r. fl_id r = y) ?rows) = (\<lambda>y. find_where (\<lambda>r. fl_id r = y) (fz_leases db))(i \<mapsto> f l)"
    using lookup_update_one [where k = fl_id and f = f and p = p and x = i, OF d assms(4) assms(2,3)] by blast
  moreover have "keyed db'"
    using assms(1) map_update_where [of fl_id f p] assms(4) by (simp add: keyed_def db')
  ultimately show ?thesis unfolding db'
    by (intro exI [of _ l]) (simp add: leases_def [abs_def] find_lease_def)
qed

lemma update_user_effect:
  assumes "keyed db" "update_user u f db = Inr db'" "\<And>x. uu_id (f x) = uu_id x"
  shows "\<exists>x rows. people db u = Some x \<and> db' = db\<lparr>fz_users := rows\<rparr>
    \<and> people db' = (people db)(u \<mapsto> f x) \<and> keyed db'"
proof -
  let ?rows = "update_where (\<lambda>x. uu_id x = u) f (fz_users db)"
  have d: "distinct (map uu_id (fz_users db))" using assms(1) by (simp add: keyed_def)
  obtain x where x: "find_where (\<lambda>x. uu_id x = u) (fz_users db) = Some x" and db': "db' = db\<lparr>fz_users := ?rows\<rparr>"
    using assms(2) by (auto simp: update_user_def find_fancy_user_def split: if_splits)
  have one: "count_where (\<lambda>x. uu_id x = u) (fz_users db) = 1"
    using count_where_key [OF d, of "\<lambda>x. uu_id x = u" u] x find_where_SomeD [OF x] by simp
  have "(\<lambda>y. find_where (\<lambda>r. uu_id r = y) ?rows) = (\<lambda>y. find_where (\<lambda>r. uu_id r = y) (fz_users db))(u \<mapsto> f x)"
    using lookup_update_one [where k = uu_id and f = f and p = "\<lambda>x. uu_id x = u" and x = u, OF d assms(3) one] x by auto
  moreover have "keyed db'"
    using assms(1) map_update_where [of uu_id f "\<lambda>x. uu_id x = u"] assms(3) by (simp add: keyed_def db')
  ultimately show ?thesis using x unfolding db'
    by (intro exI [of _ x] exI [of _ ?rows]) (simp add: people_def [abs_def] find_fancy_user_def)
qed

lemma update_number_effect:
  assumes "keyed db" "update_number i f db = Inr db'" "\<And>x. fn_id (f x) = fn_id x"
  shows "\<exists>n rows. nums db i = Some n \<and> db' = db\<lparr>fz_numbers := rows\<rparr> \<and> nums db' = (nums db)(i \<mapsto> f n) \<and> keyed db'"
proof -
  have d: "distinct (map fn_id (fz_numbers db))" using assms(1) by (simp add: keyed_def)
  obtain n where n: "find_number i db = Some n" and db': "update_numbers (\<lambda>x. fn_id x = i) f db = (count_where (\<lambda>x. fn_id x = i) (fz_numbers db), db')"
    using assms(2) by (auto simp: update_number_def update_numbers_def split: if_splits)
  have "count_where (\<lambda>x. fn_id x = i) (fz_numbers db) = 1"
    using count_where_key [OF d, of "\<lambda>x. fn_id x = i" i] n find_where_SomeD [of "\<lambda>x. fn_id x = i" "fz_numbers db" n]
    by (simp add: find_number_def)
  from update_numbers_one [OF assms(1) db' [unfolded this], of i] assms(3) show ?thesis by auto
qed


section \<open>The invariant\<close>

text \<open>
  Who holds what, on the four maps: every user's account id is an identifier assigned to that user and no other identifier is;
  an identifier is reserved only as the account id that an active lease gives back, and then nobody's account id; an available number is
  unclaimed, a number is leased or permanent exactly while an active lease is on it; a user has at most one active lease, bears its
  number as account id and shows its terms; a lease that will expire knows the account id to restore.
\<close>

type_synonym 'r keymap = "string \<Rightarrow> 'r option"

definition lease_active :: "fancy_lease \<Rightarrow> bool" where "lease_active l \<longleftrightarrow> fl_endedAt l = None"

definition users_ok :: "account_identifier keymap \<Rightarrow> fancy_lease keymap \<Rightarrow> fancy_user keymap \<Rightarrow> bool" where
  "users_ok I L U \<longleftrightarrow> (\<forall>u x. U u = Some x \<longrightarrow> uu_id x = u \<and> (\<exists>a. I (uu_accountId x) = Some a \<and> ai_current a = Some u)
     \<and> (uu_fancy x \<longrightarrow> (\<exists>i l. L i = Some l \<and> lease_active l \<and> fl_userID l = u)))"

definition idents_ok :: "account_identifier keymap \<Rightarrow> fancy_lease keymap \<Rightarrow> fancy_user keymap \<Rightarrow> bool" where
  "idents_ok I L U \<longleftrightarrow> (\<forall>v a. I v = Some a \<longrightarrow> ai_value a = v
     \<and> (\<forall>u. ai_current a = Some u \<longrightarrow> (\<exists>x. U u = Some x \<and> uu_accountId x = v))
     \<and> (\<forall>u. ai_reserved a = Some u \<longrightarrow> ai_current a = None
          \<and> (\<exists>i l. L i = Some l \<and> lease_active l \<and> fl_userID l = u \<and> fl_restoreAccountId l = Some v)))"

definition numbers_ok :: "account_identifier keymap \<Rightarrow> fancy_number keymap \<Rightarrow> fancy_lease keymap \<Rightarrow> bool" where
  "numbers_ok I N L \<longleftrightarrow> (\<forall>i n. N i = Some n \<longrightarrow> fn_id n = i
     \<and> (\<exists>a. I (fn_value n) = Some a \<and> ai_reserved a = None \<and> (fn_status n = AVAILABLE_N \<longrightarrow> \<not> claimed_identifier a)
          \<and> (fn_status n = DISABLED_N \<longrightarrow> ai_current a = None))
     \<and> (fn_status n = LEASED_N \<or> fn_status n = PERMANENT_N \<longrightarrow> (\<exists>j l. L j = Some l \<and> lease_active l \<and> fl_numberID l = i))
     \<and> (\<forall>j m. N j = Some m \<and> fn_value m = fn_value n \<longrightarrow> j = i))"

definition lease_fits :: "account_identifier keymap \<Rightarrow> fancy_number keymap \<Rightarrow> fancy_user keymap \<Rightarrow> fancy_lease \<Rightarrow> bool" where
  "lease_fits I N U l \<longleftrightarrow> (\<exists>n x. N (fl_numberID l) = Some n \<and> U (fl_userID l) = Some x \<and> uu_accountId x = fn_value n
     \<and> fn_status n = (if fl_permanentAt l = None then LEASED_N else PERMANENT_N)
     \<and> uu_fancy x \<and> uu_fancyExpiresAt x = fl_expiresAt l \<and> uu_fancyPermanent x = (fl_permanentAt l \<noteq> None))
     \<and> (fl_permanentAt l = None \<longleftrightarrow> fl_expiresAt l \<noteq> None) \<and> (fl_permanentAt l = None \<longrightarrow> fl_restoreAccountId l \<noteq> None)
     \<and> (\<forall>r. fl_restoreAccountId l = Some r \<longrightarrow> (\<exists>a. I r = Some a \<and> ai_reserved a = Some (fl_userID l)))"

definition leases_fit :: "account_identifier keymap \<Rightarrow> fancy_number keymap \<Rightarrow> fancy_lease keymap \<Rightarrow> fancy_user keymap \<Rightarrow> bool" where
  "leases_fit I N L U \<longleftrightarrow> (\<forall>i l. L i = Some l \<longrightarrow> fl_id l = i \<and> (lease_active l \<longrightarrow> lease_fits I N U l
     \<and> (\<forall>j m. L j = Some m \<and> lease_active m \<and> fl_userID m = fl_userID l \<longrightarrow> j = i)))"

definition claims_ok ::
  "account_identifier keymap \<Rightarrow> fancy_number keymap \<Rightarrow> fancy_lease keymap \<Rightarrow> fancy_user keymap \<Rightarrow> bool" where
  "claims_ok I N L U \<longleftrightarrow> users_ok I L U \<and> idents_ok I L U \<and> numbers_ok I N L \<and> leases_fit I N L U"

text \<open>The rows of the registry: an invite code has one owner, and the codes of campaigns have none.\<close>

definition sound_rows :: "string list \<Rightarrow> account_identifier list \<Rightarrow> bool" where
  "sound_rows campaigns rows \<longleftrightarrow> unique_column ai_invite rows \<and> (\<forall>a \<in> set rows. claimed_identifier a \<longrightarrow> ai_value a \<notin> set campaigns)"

definition fancy_inv :: "fancy_db \<Rightarrow> bool" where
  "fancy_inv db \<longleftrightarrow> keyed db \<and> sound_rows (fz_campaigns db) (fz_identifiers db) \<and> claims_ok (idents db) (nums db) (leases db) (people db)"

lemmas claims_defs = users_ok_def idents_ok_def numbers_ok_def leases_fit_def

text \<open>What the invariant says of one row.\<close>

lemma claims_ident:
  assumes "claims_ok I N L U" "I v = Some a"
  shows "ai_value a = v" "ai_current a = Some u \<Longrightarrow> \<exists>x. U u = Some x \<and> uu_accountId x = v"
    "ai_reserved a = Some u \<Longrightarrow> ai_current a = None" 
    "ai_reserved a = Some u \<Longrightarrow> \<exists>i l. L i = Some l \<and> lease_active l \<and> fl_userID l = u \<and> fl_restoreAccountId l = Some v"
proof -
  have "idents_ok I L U" using assms(1) by (simp add: claims_ok_def)
  note * = this [unfolded idents_ok_def, rule_format, OF assms(2)]
  show "ai_value a = v" "ai_current a = Some u \<Longrightarrow> \<exists>x. U u = Some x \<and> uu_accountId x = v"
    "ai_reserved a = Some u \<Longrightarrow> ai_current a = None"
    "ai_reserved a = Some u \<Longrightarrow> \<exists>i l. L i = Some l \<and> lease_active l \<and> fl_userID l = u \<and> fl_restoreAccountId l = Some v"
    using * by blast+
qed

lemma claims_user:
  assumes "claims_ok I N L U" "U u = Some x"
  shows "uu_id x = u" "\<exists>a. I (uu_accountId x) = Some a \<and> ai_current a = Some u"
    "uu_fancy x \<Longrightarrow> \<exists>i l. L i = Some l \<and> lease_active l \<and> fl_userID l = u"
proof -
  have "users_ok I L U" using assms(1) by (simp add: claims_ok_def)
  note * = this [unfolded users_ok_def, rule_format, OF assms(2)]
  show "uu_id x = u" "\<exists>a. I (uu_accountId x) = Some a \<and> ai_current a = Some u"
    "uu_fancy x \<Longrightarrow> \<exists>i l. L i = Some l \<and> lease_active l \<and> fl_userID l = u"
    using * by blast+
qed

lemma claims_number:
  assumes "claims_ok I N L U" "N i = Some n"
  shows "fn_id n = i" "\<exists>a. I (fn_value n) = Some a \<and> ai_reserved a = None
      \<and> (fn_status n = AVAILABLE_N \<longrightarrow> \<not> claimed_identifier a) \<and> (fn_status n = DISABLED_N \<longrightarrow> ai_current a = None)"
    "fn_status n = LEASED_N \<or> fn_status n = PERMANENT_N \<Longrightarrow> \<exists>j l. L j = Some l \<and> lease_active l \<and> fl_numberID l = i"
    "N j = Some m \<Longrightarrow> fn_value m = fn_value n \<Longrightarrow> j = i"
proof -
  have "numbers_ok I N L" using assms(1) by (simp add: claims_ok_def)
  note * = this [unfolded numbers_ok_def, rule_format, OF assms(2)]
  show "fn_id n = i" "\<exists>a. I (fn_value n) = Some a \<and> ai_reserved a = None
      \<and> (fn_status n = AVAILABLE_N \<longrightarrow> \<not> claimed_identifier a) \<and> (fn_status n = DISABLED_N \<longrightarrow> ai_current a = None)"
    "fn_status n = LEASED_N \<or> fn_status n = PERMANENT_N \<Longrightarrow> \<exists>j l. L j = Some l \<and> lease_active l \<and> fl_numberID l = i"
    "N j = Some m \<Longrightarrow> fn_value m = fn_value n \<Longrightarrow> j = i"
    using * by blast+
qed

lemma claims_lease:
  assumes "claims_ok I N L U" "L i = Some l"
  shows "fl_id l = i" "lease_active l \<Longrightarrow> lease_fits I N U l"
    "lease_active l \<Longrightarrow> L j = Some m \<Longrightarrow> lease_active m \<Longrightarrow> fl_userID m = fl_userID l \<Longrightarrow> j = i"
proof -
  have "leases_fit I N L U" using assms(1) by (simp add: claims_ok_def)
  note * = this [unfolded leases_fit_def, rule_format, OF assms(2)]
  show "fl_id l = i" "lease_active l \<Longrightarrow> lease_fits I N U l"
    "lease_active l \<Longrightarrow> L j = Some m \<Longrightarrow> lease_active m \<Longrightarrow> fl_userID m = fl_userID l \<Longrightarrow> j = i"
    using * by blast+
qed

text \<open>An identifier is at most one user's account id, and two active leases are not on one number.\<close>

lemma claims_current_unique:
  "claims_ok I N L U \<Longrightarrow> I v = Some a \<Longrightarrow> ai_current a = Some u \<Longrightarrow> I w = Some b \<Longrightarrow> ai_current b = Some u \<Longrightarrow> v = w"
  by (frule (2) claims_ident(2), drule (2) claims_ident(2)) auto

lemma claims_reserved_unique:
  assumes ok: "claims_ok I N L U" and a: "I v = Some a" "ai_reserved a = Some u" and b: "I w = Some b" "ai_reserved b = Some u"
  shows "v = w"
proof -
  obtain i l where l: "L i = Some l" "lease_active l" "fl_userID l = u" "fl_restoreAccountId l = Some v"
    using claims_ident(4) [OF ok a] by blast
  obtain j m where m: "L j = Some m" "lease_active m" "fl_userID m = u" "fl_restoreAccountId m = Some w"
    using claims_ident(4) [OF ok b] by blast
  have "j = i" using claims_lease(3) [OF ok l(1,2) m(1,2)] l(3) m(3) by simp
  with l m show ?thesis by simp
qed

lemma claims_lease_number:
  assumes "claims_ok I N L U" "L i = Some l" "lease_active l" "L j = Some m" "lease_active m" "fl_numberID l = fl_numberID m"
  shows "i = j"
proof -
  obtain n x where l: "N (fl_numberID l) = Some n" "U (fl_userID l) = Some x" "uu_accountId x = fn_value n"
    using claims_lease(2) [OF assms(1-3)] by (auto simp: lease_fits_def)
  obtain y where m: "U (fl_userID m) = Some y" "uu_accountId y = fn_value n"
    using claims_lease(2) [OF assms(1,4,5)] assms(6) l(1) by (auto simp: lease_fits_def)
  have "fl_userID l = fl_userID m"
    using claims_user(2) [OF assms(1) l(2)] claims_user(2) [OF assms(1) m(1)] l(3) m(2) by (metis option.inject)
  then show ?thesis using claims_lease(3) [OF assms(1,4,5,2,3)] by simp
qed

text \<open>The account id of somebody without a lease is no fancy number that is available, disabled or in use.\<close>

lemma claims_plain_account:
  assumes "claims_ok I N L U" "U u = Some x" "N i = Some n" "fn_value n = uu_accountId x"
  shows "\<exists>j l. L j = Some l \<and> lease_active l \<and> fl_userID l = u \<and> fl_numberID l = i"
proof -
  obtain a where a: "I (uu_accountId x) = Some a" "ai_current a = Some u" using claims_user(2) [OF assms(1,2)] by blast
  then have "fn_status n = LEASED_N \<or> fn_status n = PERMANENT_N"
    using claims_number(2) [OF assms(1,3)] assms(4) by (cases "fn_status n") (auto simp: claimed_identifier_def)
  then obtain j l where l: "L j = Some l" "lease_active l" "fl_numberID l = i" using claims_number(3) [OF assms(1,3)] by blast
  then obtain y where "U (fl_userID l) = Some y" "uu_accountId y = uu_accountId x"
    using claims_lease(2) [OF assms(1) l(1,2)] assms(3,4) by (auto simp: lease_fits_def)
  then have "fl_userID l = u" using claims_user(2) [OF assms(1), of "fl_userID l" y] a by simp
  with l show ?thesis by blast
qed


section \<open>The end of a lease\<close>

text \<open>A lease that remains finds itself again among the leases that are left.\<close>

lemma lease_left:
  assumes "\<exists>j m. L j = Some m \<and> lease_active m \<and> P m" "L i = Some l" "\<not> P l"
  shows "\<exists>j m. (L(i \<mapsto> l')) j = Some m \<and> lease_active m \<and> P m"
  using assms by (metis fun_upd_other option.inject)

lemma lease_kept:
  "\<exists>j m. L j = Some m \<and> lease_active m \<and> P m \<Longrightarrow> L i = None \<Longrightarrow> \<exists>j m. (L(i \<mapsto> l)) j = Some m \<and> lease_active m \<and> P m"
  by (metis fun_upd_other option.distinct(1))

lemma value_before:
  "(N(i \<mapsto> n')) k = Some m \<Longrightarrow> N i = Some n \<Longrightarrow> fn_value n' = fn_value n \<Longrightarrow> \<exists>m0. N k = Some m0 \<and> fn_value m0 = fn_value m"
  by (auto split: if_splits)

text \<open>The rows around an active lease that is about to end with the return of \<open>r\<close>.\<close>

definition ending ::
  "account_identifier keymap \<Rightarrow> fancy_number keymap \<Rightarrow> fancy_lease keymap \<Rightarrow> fancy_user keymap \<Rightarrow> string \<Rightarrow> fancy_lease
   \<Rightarrow> string \<Rightarrow> fancy_number \<Rightarrow> fancy_user \<Rightarrow> account_identifier \<Rightarrow> account_identifier \<Rightarrow> bool" where
  "ending I N L U i l r n x a b \<longleftrightarrow> claims_ok I N L U \<and> L i = Some l \<and> lease_active l \<and> fl_restoreAccountId l = Some r
     \<and> N (fl_numberID l) = Some n \<and> U (fl_userID l) = Some x \<and> I (fn_value n) = Some a \<and> I r = Some b"

lemma ending_facts:
  assumes "ending I N L U i l r n x a b"
  shows "lease_fits I N U l" "uu_accountId x = fn_value n" "ai_current a = Some (fl_userID l)" "ai_reserved a = None"
    "ai_reserved b = Some (fl_userID l)" "ai_current b = None" "r \<noteq> fn_value n"
proof -
  note e = assms [unfolded ending_def]
  have ok: "claims_ok I N L U" using e by blast
  show fits: "lease_fits I N U l" using claims_lease(2) [OF ok] e by blast
  show acc: "uu_accountId x = fn_value n" using fits e by (auto simp: lease_fits_def)
  show cur: "ai_current a = Some (fl_userID l)" using claims_user(2) [OF ok, of "fl_userID l" x] e acc by simp
  show "ai_reserved a = None" using claims_number(2) [OF ok, of "fl_numberID l" n] e by simp
  show res: "ai_reserved b = Some (fl_userID l)" using fits e by (auto simp: lease_fits_def)
  show "ai_current b = None" using claims_ident(3) [OF ok _ res] e by blast
  then show "r \<noteq> fn_value n" using e cur by auto
qed

text \<open>\<open>returned I l r n a b\<close> are the identifiers after the return.\<close>

definition returned ::
  "account_identifier keymap \<Rightarrow> fancy_lease \<Rightarrow> string \<Rightarrow> fancy_number \<Rightarrow> account_identifier \<Rightarrow> account_identifier \<Rightarrow> account_identifier keymap" where
  "returned I l r n a b = I(fn_value n \<mapsto> a\<lparr>ai_current := None\<rparr>, r \<mapsto> b\<lparr>ai_current := Some (fl_userID l), ai_reserved := None\<rparr>)"

lemma returned_other:
  assumes "ending I N L U i l r n x a b" "I v = Some c" "ai_current c = Some w" "w \<noteq> fl_userID l"
  shows "returned I l r n a b v = Some c"
  using ending_facts [OF assms(1)] assms by (auto simp: returned_def ending_def)

lemma ending_users:
  assumes e: "ending I N L U i l r n x a b" and x': "uu_id x' = uu_id x" "uu_accountId x' = r" "\<not> uu_fancy x'"
  shows "users_ok (returned I l r n a b) (L(i \<mapsto> l\<lparr>fl_endedAt := Some now\<rparr>)) (U(fl_userID l \<mapsto> x'))"
  unfolding users_ok_def
proof (intro allI impI)
  fix w y assume y: "(U(fl_userID l \<mapsto> x')) w = Some y"
  have ok: "claims_ok I N L U" and l: "L i = Some l" and x: "U (fl_userID l) = Some x" using e by (simp_all add: ending_def)
  show "uu_id y = w \<and> (\<exists>c. returned I l r n a b (uu_accountId y) = Some c \<and> ai_current c = Some w)
      \<and> (uu_fancy y \<longrightarrow> (\<exists>j m. (L(i \<mapsto> l\<lparr>fl_endedAt := Some now\<rparr>)) j = Some m \<and> lease_active m \<and> fl_userID m = w))"
  proof (cases "w = fl_userID l")
    case True
    then show ?thesis using y x' claims_user(1) [OF ok x] by (auto simp: returned_def)
  next
    case False
    then have U: "U w = Some y" using y by simp
    obtain c where c: "I (uu_accountId y) = Some c" "ai_current c = Some w" using claims_user(2) [OF ok U] by blast
    have "\<exists>j m. (L(i \<mapsto> l\<lparr>fl_endedAt := Some now\<rparr>)) j = Some m \<and> lease_active m \<and> fl_userID m = w" if "uu_fancy y"
      by (rule lease_left [OF claims_user(3) [OF ok U that] l]) (use False in simp)
    then show ?thesis using returned_other [OF e c False] c claims_user(1) [OF ok U] by simp
  qed
qed

lemma ending_idents:
  assumes e: "ending I N L U i l r n x a b" and x': "uu_accountId x' = r"
  shows "idents_ok (returned I l r n a b) (L(i \<mapsto> l\<lparr>fl_endedAt := Some now\<rparr>)) (U(fl_userID l \<mapsto> x'))"
  unfolding idents_ok_def
proof (intro allI impI conjI)
  note f = ending_facts [OF e]
  have ok: "claims_ok I N L U" and l: "L i = Some l" "fl_restoreAccountId l = Some r"
    and a: "I (fn_value n) = Some a" and b: "I r = Some b" using e by (simp_all add: ending_def)
  fix w c assume c: "returned I l r n a b w = Some c"
  show "ai_value c = w" using c a b claims_ident(1) [OF ok] by (auto simp: returned_def split: if_splits)
  {
    fix z assume z: "ai_current c = Some z"
    show "\<exists>y. (U(fl_userID l \<mapsto> x')) z = Some y \<and> uu_accountId y = w"
    proof (cases "w = r")
      case True
      then show ?thesis using c z x' by (auto simp: returned_def)
    next
      case False
      then have w: "w \<noteq> fn_value n" "I w = Some c" using c z by (auto simp: returned_def split: if_splits)
      then have "z \<noteq> fl_userID l" using claims_current_unique [OF ok w(2) z a] f(3) by auto
      then show ?thesis using claims_ident(2) [OF ok w(2) z] by simp
    qed
  next
    fix z assume z: "ai_reserved c = Some z"
    have w: "w \<noteq> r" using c z by (auto simp: returned_def)
    moreover have "w \<noteq> fn_value n" using c z w f(4) by (auto simp: returned_def)
    ultimately have iw: "I w = Some c" using c by (simp add: returned_def)
    show "ai_current c = None" by (rule claims_ident(3) [OF ok iw z])
    show "\<exists>j m. (L(i \<mapsto> l\<lparr>fl_endedAt := Some now\<rparr>)) j = Some m \<and> lease_active m \<and> fl_userID m = z \<and> fl_restoreAccountId m = Some w"
      by (rule lease_left [OF claims_ident(4) [OF ok iw z] l(1)]) (use l(2) w in simp)
  }
qed

lemma ending_numbers:
  assumes e: "ending I N L U i l r n x a b" and n': "fn_id n' = fn_id n" "fn_value n' = fn_value n"
      "fn_status n' = (if ai_reserved a \<noteq> None \<or> ai_invite a \<noteq> None then DISABLED_N else AVAILABLE_N)"
  shows "numbers_ok (returned I l r n a b) (N(fl_numberID l \<mapsto> n')) (L(i \<mapsto> l\<lparr>fl_endedAt := Some now\<rparr>))"
  unfolding numbers_ok_def
proof (intro allI impI)
  note f = ending_facts [OF e]
  have ok: "claims_ok I N L U" and l: "L i = Some l" and b: "I r = Some b" and n: "N (fl_numberID l) = Some n"
    using e by (simp_all add: ending_def)
  fix j m assume m: "(N(fl_numberID l \<mapsto> n')) j = Some m"
  have same: "k = j" if ke: "(N(fl_numberID l \<mapsto> n')) k = Some e" "fn_value e = fn_value m" for k e
  proof -
    obtain m0 where m0: "N j = Some m0" "fn_value m0 = fn_value m" using value_before [OF m n n'(2)] by blast
    obtain e0 where e0: "N k = Some e0" "fn_value e0 = fn_value e" using value_before [OF ke(1) n n'(2)] by blast
    show ?thesis by (rule claims_number(4) [OF ok m0(1) e0(1)]) (use m0 e0 ke in simp)
  qed
  show "fn_id m = j \<and> (\<exists>c. returned I l r n a b (fn_value m) = Some c \<and> ai_reserved c = None
        \<and> (fn_status m = AVAILABLE_N \<longrightarrow> \<not> claimed_identifier c) \<and> (fn_status m = DISABLED_N \<longrightarrow> ai_current c = None))
      \<and> (fn_status m = LEASED_N \<or> fn_status m = PERMANENT_N \<longrightarrow>
          (\<exists>k e. (L(i \<mapsto> l\<lparr>fl_endedAt := Some now\<rparr>)) k = Some e \<and> lease_active e \<and> fl_numberID e = j))
      \<and> (\<forall>k e. (N(fl_numberID l \<mapsto> n')) k = Some e \<and> fn_value e = fn_value m \<longrightarrow> k = j)"
  proof (cases "j = fl_numberID l")
    case True
    then have m': "m = n'" using m by simp
    have "fn_status n' = AVAILABLE_N \<or> fn_status n' = DISABLED_N" "fn_id m = j"
      using n' claims_number(1) [OF ok n] True by (auto simp: m')
    moreover have "returned I l r n a b (fn_value m) = Some (a\<lparr>ai_current := None\<rparr>)" using f(7) n' by (simp add: returned_def m')
    moreover have "\<forall>k e. (N(fl_numberID l \<mapsto> n')) k = Some e \<and> fn_value e = fn_value m \<longrightarrow> k = j" using same by blast
    ultimately show ?thesis using n'(3) f(4) by (auto simp: m' claimed_identifier_def simp del: fun_upd_apply)
  next
    case False
    then have jm: "N j = Some m" using m by simp
    have "fn_value m \<noteq> fn_value n" using claims_number(4) [OF ok n jm] False by auto
    moreover have "fn_value m \<noteq> r" using claims_number(2) [OF ok jm] b f(5) by auto
    ultimately have I: "returned I l r n a b (fn_value m) = I (fn_value m)" by (simp add: returned_def)
    show ?thesis
    proof (intro conjI impI allI)
      show "fn_id m = j" by (rule claims_number(1) [OF ok jm])
      show "\<exists>c. returned I l r n a b (fn_value m) = Some c \<and> ai_reserved c = None
        \<and> (fn_status m = AVAILABLE_N \<longrightarrow> \<not> claimed_identifier c) \<and> (fn_status m = DISABLED_N \<longrightarrow> ai_current c = None)"
        unfolding I by (rule claims_number(2) [OF ok jm])
      assume "fn_status m = LEASED_N \<or> fn_status m = PERMANENT_N"
      then show "\<exists>k e. (L(i \<mapsto> l\<lparr>fl_endedAt := Some now\<rparr>)) k = Some e \<and> lease_active e \<and> fl_numberID e = j"
        by (intro lease_left [OF claims_number(3) [OF ok jm] l]) (use False in simp_all)
    qed (use same in blast)
  qed
qed

lemma ending_leases:
  assumes e: "ending I N L U i l r n x a b"
  shows "leases_fit (returned I l r n a b) (N(fl_numberID l \<mapsto> n')) (L(i \<mapsto> l\<lparr>fl_endedAt := Some now\<rparr>)) (U(fl_userID l \<mapsto> x'))"
  unfolding leases_fit_def
proof (intro allI impI conjI)
  note f = ending_facts [OF e]
  have ok: "claims_ok I N L U" and l: "L i = Some l" "lease_active l" and b: "I r = Some b" and a: "I (fn_value n) = Some a"
    using e by (simp_all add: ending_def)
  fix j m assume m: "(L(i \<mapsto> l\<lparr>fl_endedAt := Some now\<rparr>)) j = Some m"
  show "fl_id m = j" using m l(1) claims_lease(1) [OF ok] by (auto split: if_splits)
  assume act: "lease_active m"
  then have j: "j \<noteq> i" using m by (auto simp: lease_active_def)
  then have jm: "L j = Some m" using m by simp
  have userID: "fl_userID m \<noteq> fl_userID l" using claims_lease(3) [OF ok l(1,2) jm act] j by auto
  have number: "fl_numberID m \<noteq> fl_numberID l" using claims_lease_number [OF ok jm act l(1,2)] j by auto
  have "lease_fits I N U m" by (rule claims_lease(2) [OF ok jm act])
  moreover have "s \<noteq> r \<and> s \<noteq> fn_value n" if "I s = Some c" "ai_reserved c = Some (fl_userID m)" for s c
    using that b f(4,5) a userID by auto
  ultimately show "lease_fits (returned I l r n a b) (N(fl_numberID l \<mapsto> n')) (U(fl_userID l \<mapsto> x')) m"
    using userID number by (fastforce simp: lease_fits_def returned_def)
  fix k e' assume e': "(L(i \<mapsto> l\<lparr>fl_endedAt := Some now\<rparr>)) k = Some e' \<and> lease_active e' \<and> fl_userID e' = fl_userID m"
  then have "k \<noteq> i" by (auto simp: lease_active_def)
  then show "k = j" using claims_lease(3) [OF ok jm act, of k e'] e' by simp
qed

lemma claims_end:
  assumes "ending I N L U i l r n x a b"
    and "fn_id n' = fn_id n" "fn_value n' = fn_value n"
      "fn_status n' = (if ai_reserved a \<noteq> None \<or> ai_invite a \<noteq> None then DISABLED_N else AVAILABLE_N)"
    and "uu_id x' = uu_id x" "uu_accountId x' = r" "\<not> uu_fancy x'"
  shows "claims_ok (returned I l r n a b) (N(fl_numberID l \<mapsto> n')) (L(i \<mapsto> l\<lparr>fl_endedAt := Some now\<rparr>)) (U(fl_userID l \<mapsto> x'))"
  using ending_users [OF assms(1)] ending_idents [OF assms(1)] ending_numbers [OF assms(1)] ending_leases [OF assms(1)] assms(2-)
  by (simp add: claims_ok_def)


section \<open>The start of a lease\<close>

text \<open>The rows around a lease \<open>l\<close> (id \<open>i\<close>) of user \<open>x\<close> that is about to start on number \<open>n\<close>.\<close>

definition starting ::
  "account_identifier keymap \<Rightarrow> fancy_number keymap \<Rightarrow> fancy_lease keymap \<Rightarrow> fancy_user keymap \<Rightarrow> string \<Rightarrow> fancy_lease
   \<Rightarrow> fancy_user \<Rightarrow> fancy_number \<Rightarrow> account_identifier \<Rightarrow> account_identifier \<Rightarrow> bool" where
  "starting I N L U i l x n a b \<longleftrightarrow> claims_ok I N L U \<and> U (fl_userID l) = Some x
     \<and> (\<forall>j m. L j = Some m \<and> lease_active m \<longrightarrow> fl_userID m \<noteq> fl_userID l)
     \<and> N (fl_numberID l) = Some n \<and> fn_status n = AVAILABLE_N \<and> I (uu_accountId x) = Some a \<and> I (fn_value n) = Some b
     \<and> L i = None \<and> fl_id l = i \<and> lease_active l \<and> fl_restoreAccountId l = Some (uu_accountId x)
     \<and> (fl_permanentAt l = None \<longleftrightarrow> fl_expiresAt l \<noteq> None)"

definition taken ::
  "account_identifier keymap \<Rightarrow> fancy_lease \<Rightarrow> fancy_user \<Rightarrow> fancy_number \<Rightarrow> account_identifier \<Rightarrow> account_identifier \<Rightarrow> account_identifier keymap" where
  "taken I l x n a b = I(uu_accountId x \<mapsto> a\<lparr>ai_current := None, ai_reserved := Some (fl_userID l)\<rparr>,
     fn_value n \<mapsto> b\<lparr>ai_current := Some (fl_userID l)\<rparr>)"

lemma starting_facts:
  assumes "starting I N L U i l x n a b"
  shows "ai_current a = Some (fl_userID l)" "ai_current b = None" "ai_reserved b = None" "uu_accountId x \<noteq> fn_value n"
proof -
  note s = assms [unfolded starting_def]
  have ok: "claims_ok I N L U" using s by blast
  show cur: "ai_current a = Some (fl_userID l)" using claims_user(2) [OF ok, of "fl_userID l" x] s by simp
  show free: "ai_current b = None" "ai_reserved b = None"
    using claims_number(2) [OF ok, of "fl_numberID l" n] s by (auto simp: claimed_identifier_def)
  show "uu_accountId x \<noteq> fn_value n" using s cur free by auto
qed

lemma starting_users:
  assumes s: "starting I N L U i l x n a b" and x': "uu_id x' = uu_id x" "uu_accountId x' = fn_value n"
  shows "users_ok (taken I l x n a b) (L(i \<mapsto> l)) (U(fl_userID l \<mapsto> x'))"
  unfolding users_ok_def
proof (intro allI impI)
  fix w y assume y: "(U(fl_userID l \<mapsto> x')) w = Some y"
  note f = starting_facts [OF s]
  have ok: "claims_ok I N L U" and l: "L i = None" "lease_active l" and x: "U (fl_userID l) = Some x"
    and a: "I (uu_accountId x) = Some a" and b: "I (fn_value n) = Some b" using s by (simp_all add: starting_def)
  show "uu_id y = w \<and> (\<exists>c. taken I l x n a b (uu_accountId y) = Some c \<and> ai_current c = Some w)
      \<and> (uu_fancy y \<longrightarrow> (\<exists>j m. (L(i \<mapsto> l)) j = Some m \<and> lease_active m \<and> fl_userID m = w))"
  proof (cases "w = fl_userID l")
    case True
    have "\<exists>j m. (L(i \<mapsto> l)) j = Some m \<and> lease_active m \<and> fl_userID m = w" using True l by auto
    then show ?thesis using True y x' claims_user(1) [OF ok x] by (auto simp: taken_def)
  next
    case False
    then have U: "U w = Some y" using y by simp
    obtain c where c: "I (uu_accountId y) = Some c" "ai_current c = Some w" using claims_user(2) [OF ok U] by blast
    then have "uu_accountId y \<noteq> uu_accountId x" "uu_accountId y \<noteq> fn_value n" using a b f(1,2) False by auto
    then show ?thesis
      using c claims_user(1) [OF ok U] lease_kept [OF claims_user(3) [OF ok U] l(1)] by (simp add: taken_def del: fun_upd_apply)
        (simp add: fun_upd_apply)
  qed
qed

lemma starting_idents:
  assumes s: "starting I N L U i l x n a b" and x': "uu_accountId x' = fn_value n"
  shows "idents_ok (taken I l x n a b) (L(i \<mapsto> l)) (U(fl_userID l \<mapsto> x'))"
  unfolding idents_ok_def
proof (intro allI impI conjI)
  note f = starting_facts [OF s]
  have ok: "claims_ok I N L U" and l: "L i = None" "lease_active l" "fl_restoreAccountId l = Some (uu_accountId x)"
    and a: "I (uu_accountId x) = Some a" and b: "I (fn_value n) = Some b" using s by (simp_all add: starting_def)
  fix w c assume c: "taken I l x n a b w = Some c"
  show "ai_value c = w" using c a b claims_ident(1) [OF ok] by (auto simp: taken_def split: if_splits)
  {
    fix z assume z: "ai_current c = Some z"
    show "\<exists>y. (U(fl_userID l \<mapsto> x')) z = Some y \<and> uu_accountId y = w"
    proof (cases "w = fn_value n")
      case True
      then show ?thesis using c z x' by (auto simp: taken_def)
    next
      case False
      then have w: "w \<noteq> uu_accountId x" "I w = Some c" using c z by (auto simp: taken_def split: if_splits)
      then have "z \<noteq> fl_userID l" using claims_current_unique [OF ok w(2) z a] f(1) by auto
      then show ?thesis using claims_ident(2) [OF ok w(2) z] by simp
    qed
  next
    fix z assume z: "ai_reserved c = Some z"
    have v: "w \<noteq> fn_value n" using c z f(3) by (auto simp: taken_def)
    show "ai_current c = None" using c v z claims_ident(3) [OF ok _ z] by (auto simp: taken_def split: if_splits)
    show "\<exists>j m. (L(i \<mapsto> l)) j = Some m \<and> lease_active m \<and> fl_userID m = z \<and> fl_restoreAccountId m = Some w"
    proof (cases "w = uu_accountId x")
      case True
      then show ?thesis using c z v l by (intro exI [of _ i] exI [of _ l]) (auto simp: taken_def)
    next
      case False
      then have "I w = Some c" using c v by (simp add: taken_def)
      then show ?thesis by (intro lease_kept [OF claims_ident(4) [OF ok _ z] l(1)])
    qed
  }
qed

lemma starting_numbers:
  assumes s: "starting I N L U i l x n a b" and n': "fn_id n' = fn_id n" "fn_value n' = fn_value n"
      "fn_status n' = (if fl_permanentAt l = None then LEASED_N else PERMANENT_N)"
  shows "numbers_ok (taken I l x n a b) (N(fl_numberID l \<mapsto> n')) (L(i \<mapsto> l))"
  unfolding numbers_ok_def
proof (intro allI impI)
  note f = starting_facts [OF s]
  have ok: "claims_ok I N L U" and l: "L i = None" "lease_active l" and a: "I (uu_accountId x) = Some a"
    and n: "N (fl_numberID l) = Some n" and x: "U (fl_userID l) = Some x"
    and free: "\<And>j m. L j = Some m \<Longrightarrow> lease_active m \<Longrightarrow> fl_userID m \<noteq> fl_userID l" using s by (simp_all add: starting_def)
  fix j m assume m: "(N(fl_numberID l \<mapsto> n')) j = Some m"
  have same: "k = j" if ke: "(N(fl_numberID l \<mapsto> n')) k = Some e" "fn_value e = fn_value m" for k e
  proof -
    obtain m0 where m0: "N j = Some m0" "fn_value m0 = fn_value m" using value_before [OF m n n'(2)] by blast
    obtain e0 where e0: "N k = Some e0" "fn_value e0 = fn_value e" using value_before [OF ke(1) n n'(2)] by blast
    show ?thesis by (rule claims_number(4) [OF ok m0(1) e0(1)]) (use m0 e0 ke in simp)
  qed
  then have same': "\<forall>k e. (N(fl_numberID l \<mapsto> n')) k = Some e \<and> fn_value e = fn_value m \<longrightarrow> k = j" by blast
  show "fn_id m = j \<and> (\<exists>c. taken I l x n a b (fn_value m) = Some c \<and> ai_reserved c = None
        \<and> (fn_status m = AVAILABLE_N \<longrightarrow> \<not> claimed_identifier c) \<and> (fn_status m = DISABLED_N \<longrightarrow> ai_current c = None))
      \<and> (fn_status m = LEASED_N \<or> fn_status m = PERMANENT_N \<longrightarrow> (\<exists>k e. (L(i \<mapsto> l)) k = Some e \<and> lease_active e \<and> fl_numberID e = j))
      \<and> (\<forall>k e. (N(fl_numberID l \<mapsto> n')) k = Some e \<and> fn_value e = fn_value m \<longrightarrow> k = j)"
  proof (cases "j = fl_numberID l")
    case True
    then have m': "m = n'" using m by simp
    have "\<exists>k e. (L(i \<mapsto> l)) k = Some e \<and> lease_active e \<and> fl_numberID e = j" using True l by auto
    moreover have "taken I l x n a b (fn_value m) = Some (b\<lparr>ai_current := Some (fl_userID l)\<rparr>)" using n' by (simp add: taken_def m')
    moreover have "fn_id m = j" using n' claims_number(1) [OF ok n] True by (simp add: m')
    ultimately show ?thesis using same' n'(3) f(3) by (auto simp: m' simp del: fun_upd_apply)
  next
    case False
    then have jm: "N j = Some m" using m by simp
    have "fn_value m \<noteq> fn_value n" using claims_number(4) [OF ok n jm] False by auto
    moreover have "fn_value m \<noteq> uu_accountId x" using claims_plain_account [OF ok x jm] free by blast
    ultimately have I: "taken I l x n a b (fn_value m) = I (fn_value m)" by (simp add: taken_def)
    show ?thesis unfolding I
      using claims_number(1,2) [OF ok jm] lease_kept [OF claims_number(3) [OF ok jm] l(1)] same' by (intro conjI impI) blast+
  qed
qed

lemma starting_leases:
  assumes s: "starting I N L U i l x n a b" and n': "fn_value n' = fn_value n"
      "fn_status n' = (if fl_permanentAt l = None then LEASED_N else PERMANENT_N)"
    and x': "uu_accountId x' = fn_value n" "uu_fancy x'" "uu_fancyExpiresAt x' = fl_expiresAt l"
      "uu_fancyPermanent x' = (fl_permanentAt l \<noteq> None)"
  shows "leases_fit (taken I l x n a b) (N(fl_numberID l \<mapsto> n')) (L(i \<mapsto> l)) (U(fl_userID l \<mapsto> x'))"
  unfolding leases_fit_def
proof (intro allI impI conjI)
  note f = starting_facts [OF s]
  have ok: "claims_ok I N L U" and a: "I (uu_accountId x) = Some a" and b: "I (fn_value n) = Some b"
    and n: "N (fl_numberID l) = Some n" "fn_status n = AVAILABLE_N"
    and l: "L i = None" "fl_id l = i" "lease_active l" "fl_restoreAccountId l = Some (uu_accountId x)"
      "fl_permanentAt l = None \<longleftrightarrow> fl_expiresAt l \<noteq> None"
    and free: "\<And>j m. L j = Some m \<Longrightarrow> lease_active m \<Longrightarrow> fl_userID m \<noteq> fl_userID l"
    using s unfolding starting_def by blast+
  fix j m assume m: "(L(i \<mapsto> l)) j = Some m"
  show "fl_id m = j" using m l(2) claims_lease(1) [OF ok] by (auto split: if_splits)
  assume act: "lease_active m"
  show "lease_fits (taken I l x n a b) (N(fl_numberID l \<mapsto> n')) (U(fl_userID l \<mapsto> x')) m"
  proof (cases "j = i")
    case True
    then have m': "m = l" using m by simp
    show ?thesis unfolding m' lease_fits_def using n' x' l f(4) by (auto simp: taken_def)
  next
    case False
    then have jm: "L j = Some m" using m by simp
    have fits: "lease_fits I N U m" by (rule claims_lease(2) [OF ok jm act])
    have userID: "fl_userID m \<noteq> fl_userID l" by (rule free [OF jm act])
    have number: "fl_numberID m \<noteq> fl_numberID l" using fits n by (auto simp: lease_fits_def split: if_splits)
    have "s \<noteq> uu_accountId x \<and> s \<noteq> fn_value n" if "I s = Some c" "ai_reserved c = Some (fl_userID m)" for s c
      using that a b f(1,3) claims_ident(3) [OF ok that] by auto
    then show ?thesis using fits userID number by (fastforce simp: lease_fits_def taken_def)
  qed
  fix k e assume e: "(L(i \<mapsto> l)) k = Some e \<and> lease_active e \<and> fl_userID e = fl_userID m"
  show "k = j"
  proof (cases "j = i \<or> k = i")
    case True
    then show ?thesis using e m act free [of k e] free [of j m] by (auto split: if_splits)
  next
    case False
    then show ?thesis using claims_lease(3) [OF ok, of j m k e] m act e by simp
  qed
qed

lemma claims_start:
  assumes "starting I N L U i l x n a b"
    and "fn_id n' = fn_id n" "fn_value n' = fn_value n" "fn_status n' = (if fl_permanentAt l = None then LEASED_N else PERMANENT_N)"
    and "uu_id x' = uu_id x" "uu_accountId x' = fn_value n" "uu_fancy x'" "uu_fancyExpiresAt x' = fl_expiresAt l"
      "uu_fancyPermanent x' = (fl_permanentAt l \<noteq> None)"
  shows "claims_ok (taken I l x n a b) (N(fl_numberID l \<mapsto> n')) (L(i \<mapsto> l)) (U(fl_userID l \<mapsto> x'))"
  using starting_users [OF assms(1)] starting_idents [OF assms(1)] starting_numbers [OF assms(1)] starting_leases [OF assms(1)] assms(2-)
  by (simp add: claims_ok_def)


section \<open>The exchange of a permanent number\<close>

definition exchanging ::
  "account_identifier keymap \<Rightarrow> fancy_number keymap \<Rightarrow> fancy_lease keymap \<Rightarrow> fancy_user keymap \<Rightarrow> string \<Rightarrow> fancy_lease
   \<Rightarrow> fancy_user \<Rightarrow> fancy_number \<Rightarrow> fancy_number \<Rightarrow> account_identifier \<Rightarrow> account_identifier \<Rightarrow> bool" where
  "exchanging I N L U i l x n m a b \<longleftrightarrow> claims_ok I N L U \<and> L i = Some l \<and> lease_active l \<and> fl_permanentAt l \<noteq> None
     \<and> U (fl_userID l) = Some x \<and> N (fl_numberID l) = Some n \<and> N (fn_id m) = Some m \<and> fn_status m = AVAILABLE_N
     \<and> I (fn_value n) = Some a \<and> I (fn_value m) = Some b"

definition moved ::
  "account_identifier keymap \<Rightarrow> string \<Rightarrow> fancy_number \<Rightarrow> fancy_number \<Rightarrow> account_identifier \<Rightarrow> account_identifier \<Rightarrow> account_identifier keymap" where
  "moved I u n m a b = I(fn_value n \<mapsto> a\<lparr>ai_current := None\<rparr>, fn_value m \<mapsto> b\<lparr>ai_current := Some u\<rparr>)"

lemma exchanging_facts:
  assumes "exchanging I N L U i l x n m a b"
  shows "lease_fits I N U l" "uu_accountId x = fn_value n" "ai_current a = Some (fl_userID l)" "ai_reserved a = None"
    "ai_current b = None" "ai_reserved b = None" "fn_value n \<noteq> fn_value m" "fl_numberID l \<noteq> fn_id m"
    "fl_expiresAt l = None" "fn_status n = PERMANENT_N"
proof -
  note s = assms [unfolded exchanging_def]
  have ok: "claims_ok I N L U" using s by blast
  show fits: "lease_fits I N U l" using claims_lease(2) [OF ok] s by blast
  show acc: "uu_accountId x = fn_value n" using fits s by (auto simp: lease_fits_def)
  show cur: "ai_current a = Some (fl_userID l)" using claims_user(2) [OF ok, of "fl_userID l" x] s acc by simp
  show "ai_reserved a = None" using claims_number(2) [OF ok, of "fl_numberID l" n] s by simp
  show free: "ai_current b = None" "ai_reserved b = None"
    using claims_number(2) [OF ok, of "fn_id m" m] s by (auto simp: claimed_identifier_def)
  show "fn_value n \<noteq> fn_value m" using s cur free by auto
  then show "fl_numberID l \<noteq> fn_id m" using s by auto
  show "fl_expiresAt l = None" using fits s by (auto simp: lease_fits_def)
  show "fn_status n = PERMANENT_N" using fits s by (auto simp: lease_fits_def)
qed

lemma exchanging_users:
  assumes s: "exchanging I N L U i l x n m a b" and x': "uu_id x' = uu_id x" "uu_accountId x' = fn_value m"
    and l': "lease_active l'" "fl_userID l' = fl_userID l"
  shows "users_ok (moved I (fl_userID l) n m a b) (L(i \<mapsto> l')) (U(fl_userID l \<mapsto> x'))"
  unfolding users_ok_def
proof (intro allI impI)
  fix w y assume y: "(U(fl_userID l \<mapsto> x')) w = Some y"
  note f = exchanging_facts [OF s]
  have ok: "claims_ok I N L U" and l: "L i = Some l" "lease_active l" and x: "U (fl_userID l) = Some x"
    and a: "I (fn_value n) = Some a" and b: "I (fn_value m) = Some b" using s by (simp_all add: exchanging_def)
  show "uu_id y = w \<and> (\<exists>c. moved I (fl_userID l) n m a b (uu_accountId y) = Some c \<and> ai_current c = Some w)
      \<and> (uu_fancy y \<longrightarrow> (\<exists>j e. (L(i \<mapsto> l')) j = Some e \<and> lease_active e \<and> fl_userID e = w))"
  proof (cases "w = fl_userID l")
    case True
    have "\<exists>j e. (L(i \<mapsto> l')) j = Some e \<and> lease_active e \<and> fl_userID e = w" using True l' by auto
    then show ?thesis using True y x' claims_user(1) [OF ok x] by (auto simp: moved_def)
  next
    case False
    then have U: "U w = Some y" using y by simp
    obtain c where c: "I (uu_accountId y) = Some c" "ai_current c = Some w" using claims_user(2) [OF ok U] by blast
    then have "uu_accountId y \<noteq> fn_value n" "uu_accountId y \<noteq> fn_value m" using a b f(3,5) False by auto
    then have I: "moved I (fl_userID l) n m a b (uu_accountId y) = Some c" using c by (simp add: moved_def)
    have "\<exists>j e. (L(i \<mapsto> l')) j = Some e \<and> lease_active e \<and> fl_userID e = w" if "uu_fancy y"
      by (rule lease_left [OF claims_user(3) [OF ok U that] l(1)]) (use False in simp)
    then show ?thesis using I c claims_user(1) [OF ok U] by blast
  qed
qed

lemma exchanging_idents:
  assumes s: "exchanging I N L U i l x n m a b" and x': "uu_accountId x' = fn_value m"
    and l': "lease_active l'" "fl_userID l' = fl_userID l" "fl_restoreAccountId l' = fl_restoreAccountId l"
  shows "idents_ok (moved I (fl_userID l) n m a b) (L(i \<mapsto> l')) (U(fl_userID l \<mapsto> x'))"
  unfolding idents_ok_def
proof (intro allI impI conjI)
  note f = exchanging_facts [OF s]
  have ok: "claims_ok I N L U" and l: "L i = Some l" "lease_active l"
    and a: "I (fn_value n) = Some a" and b: "I (fn_value m) = Some b" using s by (simp_all add: exchanging_def)
  fix w c assume c: "moved I (fl_userID l) n m a b w = Some c"
  show "ai_value c = w" using c a b claims_ident(1) [OF ok] by (auto simp: moved_def split: if_splits)
  {
    fix z assume z: "ai_current c = Some z"
    show "\<exists>y. (U(fl_userID l \<mapsto> x')) z = Some y \<and> uu_accountId y = w"
    proof (cases "w = fn_value m")
      case True
      then show ?thesis using c z x' by (auto simp: moved_def)
    next
      case False
      then have w: "w \<noteq> fn_value n" "I w = Some c" using c z by (auto simp: moved_def split: if_splits)
      then have "z \<noteq> fl_userID l" using claims_current_unique [OF ok w(2) z a] f(3) by auto
      then show ?thesis using claims_ident(2) [OF ok w(2) z] by simp
    qed
  next
    fix z assume z: "ai_reserved c = Some z"
    have "w \<noteq> fn_value m \<and> w \<noteq> fn_value n" using c z f(4,6,7) by (auto simp: moved_def)
    then have iw: "I w = Some c" using c by (simp add: moved_def)
    show "ai_current c = None" by (rule claims_ident(3) [OF ok iw z])
    obtain j e where e: "L j = Some e" "lease_active e" "fl_userID e = z" "fl_restoreAccountId e = Some w"
      using claims_ident(4) [OF ok iw z] by blast
    show "\<exists>j e. (L(i \<mapsto> l')) j = Some e \<and> lease_active e \<and> fl_userID e = z \<and> fl_restoreAccountId e = Some w"
      using e l l' by (cases "j = i") auto
  }
qed

lemma exchanging_numbers:
  assumes s: "exchanging I N L U i l x n m a b"
    and n': "fn_id n' = fn_id n" "fn_value n' = fn_value n"
      "fn_status n' = (if ai_reserved a \<noteq> None \<or> ai_invite a \<noteq> None then DISABLED_N else AVAILABLE_N)"
    and m': "fn_id m' = fn_id m" "fn_value m' = fn_value m" "fn_status m' = PERMANENT_N"
    and l': "lease_active l'" "fl_numberID l' = fn_id m"
  shows "numbers_ok (moved I (fl_userID l) n m a b) (N(fn_id m \<mapsto> m', fl_numberID l \<mapsto> n')) (L(i \<mapsto> l'))"
  unfolding numbers_ok_def
proof (intro allI impI)
  note f = exchanging_facts [OF s]
  have ok: "claims_ok I N L U" and l: "L i = Some l" "lease_active l" and n: "N (fl_numberID l) = Some n" and m: "N (fn_id m) = Some m"
    using s unfolding exchanging_def by blast+
  let ?N = "N(fn_id m \<mapsto> m', fl_numberID l \<mapsto> n')"
  fix j e assume e: "?N j = Some e"
  have before: "\<exists>d0. N k = Some d0 \<and> fn_value d0 = fn_value d" if kd: "?N k = Some d" for k d
  proof -
    have "(N(fn_id m \<mapsto> m')) (fl_numberID l) = Some n" using n f(8) by simp
    from value_before [OF kd this n'(2)] obtain d1 where d1: "(N(fn_id m \<mapsto> m')) k = Some d1" "fn_value d1 = fn_value d" by blast
    from value_before [OF d1(1) m m'(2)] d1(2) show ?thesis by simp
  qed
  have same: "\<forall>k d. ?N k = Some d \<and> fn_value d = fn_value e \<longrightarrow> k = j"
  proof (intro allI impI)
    fix k d assume d: "?N k = Some d \<and> fn_value d = fn_value e"
    obtain e0 where e0: "N j = Some e0" "fn_value e0 = fn_value e" using before [OF e] by blast
    obtain d0 where d0: "N k = Some d0" "fn_value d0 = fn_value d" using before [of k d] d by blast
    show "k = j" by (rule claims_number(4) [OF ok e0(1) d0(1)]) (use e0 d0 d in simp)
  qed
  have idj: "fn_id e = j"
  proof (cases "j = fl_numberID l")
    case True
    then have "e = n'" using e by simp
    then show ?thesis using True n'(1) claims_number(1) [OF ok n] by metis
  next
    case False
    then have e1: "(N(fn_id m \<mapsto> m')) j = Some e" using e by simp
    show ?thesis
    proof (cases "j = fn_id m")
      case True
      then have "e = m'" using e1 by simp
      then show ?thesis using True m'(1) by metis
    next
      case False
      then have "N j = Some e" using e1 by simp
      then show ?thesis by (rule claims_number(1) [OF ok])
    qed
  qed
  have status: "\<exists>k d. (L(i \<mapsto> l')) k = Some d \<and> lease_active d \<and> fl_numberID d = j"
    if st: "fn_status e = LEASED_N \<or> fn_status e = PERMANENT_N"
  proof (cases "j = fn_id m")
    case True
    then show ?thesis using l' by auto
  next
    case False
    have j: "j \<noteq> fl_numberID l" using e st n' by (auto split: if_splits)
    then have "N j = Some e" using False e by simp
    then show ?thesis by (intro lease_left [OF claims_number(3) [OF ok _ st] l(1)]) (use j in simp_all)
  qed
  have ident: "\<exists>c. moved I (fl_userID l) n m a b (fn_value e) = Some c \<and> ai_reserved c = None
      \<and> (fn_status e = AVAILABLE_N \<longrightarrow> \<not> claimed_identifier c) \<and> (fn_status e = DISABLED_N \<longrightarrow> ai_current c = None)"
  proof (cases "j = fl_numberID l")
    case True
    then have e': "e = n'" using e by simp
    show ?thesis unfolding e' using n'(2,3) f(4,7) by (auto simp: moved_def claimed_identifier_def)
  next
    case False
    then have e1: "(N(fn_id m \<mapsto> m')) j = Some e" using e by simp
    show ?thesis
    proof (cases "j = fn_id m")
      case True
      then have e': "e = m'" using e1 by simp
      show ?thesis unfolding e' using m'(2,3) f(6) by (auto simp: moved_def)
    next
      case no: False
      then have je: "N j = Some e" using e1 by simp
      have "fn_value e \<noteq> fn_value n" "fn_value e \<noteq> fn_value m"
        using claims_number(4) [OF ok n je] claims_number(4) [OF ok m je] no False by blast+
      then have "moved I (fl_userID l) n m a b (fn_value e) = I (fn_value e)" by (simp add: moved_def)
      then show ?thesis using claims_number(2) [OF ok je] by metis
    qed
  qed
  show "fn_id e = j \<and> (\<exists>c. moved I (fl_userID l) n m a b (fn_value e) = Some c \<and> ai_reserved c = None
        \<and> (fn_status e = AVAILABLE_N \<longrightarrow> \<not> claimed_identifier c) \<and> (fn_status e = DISABLED_N \<longrightarrow> ai_current c = None))
      \<and> (fn_status e = LEASED_N \<or> fn_status e = PERMANENT_N \<longrightarrow> (\<exists>k d. (L(i \<mapsto> l')) k = Some d \<and> lease_active d \<and> fl_numberID d = j))
      \<and> (\<forall>k d. ?N k = Some d \<and> fn_value d = fn_value e \<longrightarrow> k = j)"
    by (intro conjI impI idj ident status same)
qed

lemma exchanging_leases:
  assumes s: "exchanging I N L U i l x n m a b"
    and m': "fn_value m' = fn_value m" "fn_status m' = PERMANENT_N"
    and l': "l' = l\<lparr>fl_numberID := fn_id m\<rparr>"
    and x': "uu_accountId x' = fn_value m" "uu_fancy x'" "uu_fancyExpiresAt x' = None" "uu_fancyPermanent x'"
  shows "leases_fit (moved I (fl_userID l) n m a b) (N(fn_id m \<mapsto> m', fl_numberID l \<mapsto> n')) (L(i \<mapsto> l')) (U(fl_userID l \<mapsto> x'))"
  unfolding leases_fit_def
proof (intro allI impI conjI)
  note f = exchanging_facts [OF s]
  have ok: "claims_ok I N L U" and a: "I (fn_value n) = Some a" and b: "I (fn_value m) = Some b"
    and n: "N (fl_numberID l) = Some n" and m: "N (fn_id m) = Some m" "fn_status m = AVAILABLE_N"
    and l: "L i = Some l" "lease_active l" "fl_permanentAt l \<noteq> None"
    using s unfolding exchanging_def by blast+
  have reserved: "s \<noteq> fn_value n \<and> s \<noteq> fn_value m" if "I s = Some c" "ai_reserved c = Some z" for s c z
    using that a b f(4,6) by auto
  fix j e assume e: "(L(i \<mapsto> l')) j = Some e"
  show "fl_id e = j" using e l' l(1) claims_lease(1) [OF ok] by (auto split: if_splits)
  assume act: "lease_active e"
  show "lease_fits (moved I (fl_userID l) n m a b) (N(fn_id m \<mapsto> m', fl_numberID l \<mapsto> n')) (U(fl_userID l \<mapsto> x')) e"
  proof (cases "j = i")
    case True
    then have e': "e = l\<lparr>fl_numberID := fn_id m\<rparr>" using e l' by simp
    have "\<exists>c. moved I (fl_userID l) n m a b r = Some c \<and> ai_reserved c = Some (fl_userID l)" if "fl_restoreAccountId l = Some r" for r
      using f(1) reserved that by (fastforce simp: lease_fits_def moved_def)
    then show ?thesis unfolding e' lease_fits_def using m' x' l f(8,9) by auto
  next
    case False
    then have jm: "L j = Some e" using e by simp
    have fits: "lease_fits I N U e" by (rule claims_lease(2) [OF ok jm act])
    have userID: "fl_userID e \<noteq> fl_userID l" using claims_lease(3) [OF ok l(1,2) jm act] False by auto
    have number: "fl_numberID e \<noteq> fl_numberID l" using claims_lease_number [OF ok jm act l(1,2)] False by auto
    have number': "fl_numberID e \<noteq> fn_id m" using fits m by (auto simp: lease_fits_def split: if_splits)
    show ?thesis using fits userID number number' reserved by (fastforce simp: lease_fits_def moved_def)
  qed
  fix k d assume d: "(L(i \<mapsto> l')) k = Some d \<and> lease_active d \<and> fl_userID d = fl_userID e"
  have before: "\<exists>y. L q = Some y \<and> lease_active y \<and> fl_userID y = fl_userID z" if "(L(i \<mapsto> l')) q = Some z" "lease_active z" for q z
    using that l l' by (auto split: if_splits)
  obtain d0 e0 where "L k = Some d0" "lease_active d0" "fl_userID d0 = fl_userID d" "L j = Some e0" "lease_active e0" "fl_userID e0 = fl_userID e"
    using before [of k d] before [of j e] d e act by blast
  then show "k = j" using claims_lease(3) [OF ok, of j e0 k d0] d by simp
qed

lemma claims_exchange:
  assumes "exchanging I N L U i l x n m a b"
    and "fn_id n' = fn_id n" "fn_value n' = fn_value n"
      "fn_status n' = (if ai_reserved a \<noteq> None \<or> ai_invite a \<noteq> None then DISABLED_N else AVAILABLE_N)"
    and "fn_id m' = fn_id m" "fn_value m' = fn_value m" "fn_status m' = PERMANENT_N"
    and "uu_id x' = uu_id x" "uu_accountId x' = fn_value m" "uu_fancy x'" "uu_fancyExpiresAt x' = None" "uu_fancyPermanent x'"
  shows "claims_ok (moved I (fl_userID l) n m a b) (N(fn_id m \<mapsto> m', fl_numberID l \<mapsto> n'))
    (L(i \<mapsto> l\<lparr>fl_numberID := fn_id m\<rparr>)) (U(fl_userID l \<mapsto> x'))"
proof -
  have l': "lease_active (l\<lparr>fl_numberID := fn_id m\<rparr>)" using assms(1) by (simp add: exchanging_def lease_active_def)
  show ?thesis unfolding claims_ok_def
    using exchanging_users [OF assms(1,8,9) l'] exchanging_idents [OF assms(1,9) l'] exchanging_numbers [OF assms(1-7) l']
      exchanging_leases [OF assms(1,6,7) refl assms(9-12)] by simp
qed


section \<open>Smaller changes\<close>

lemma lease_fits_cong:
  assumes "lease_fits I N U l" "N' (fl_numberID l) = N (fl_numberID l)" "U' (fl_userID l) = U (fl_userID l)"
  shows "lease_fits I N' U' l"
  using assms(1) unfolding lease_fits_def assms(2,3) .

lemma lease_fits_mono:
  assumes "lease_fits I N U l" "\<And>v a. I v = Some a \<Longrightarrow> I' v = Some a" "\<And>i n. N i = Some n \<Longrightarrow> N' i = Some n"
  shows "lease_fits I' N' U l"
proof -
  note f = assms(1) [unfolded lease_fits_def]
  show ?thesis unfolding lease_fits_def
  proof (intro conjI)
    show "fl_permanentAt l = None \<longleftrightarrow> fl_expiresAt l \<noteq> None" "fl_permanentAt l = None \<longrightarrow> fl_restoreAccountId l \<noteq> None"
      using f by blast+
  qed (use f assms(2,3) in blast)+
qed

lemma lease_fits_status:
  assumes "lease_fits I N U l" "N (fl_numberID l) = Some n" "N' (fl_numberID l) = Some n'" "fn_value n' = fn_value n" "fn_status n' = fn_status n"
  shows "lease_fits I N' U l"
proof -
  note f = assms(1) [unfolded lease_fits_def]
  obtain x where "U (fl_userID l) = Some x" "uu_accountId x = fn_value n'"
    "fn_status n' = (if fl_permanentAt l = None then LEASED_N else PERMANENT_N)"
    "uu_fancy x" "uu_fancyExpiresAt x = fl_expiresAt l" "uu_fancyPermanent x = (fl_permanentAt l \<noteq> None)"
    using f assms(2,4,5) by (metis option.inject)
  then show ?thesis unfolding lease_fits_def using f assms(3) by blast
qed

text \<open>New terms for an active lease: a renewal or the conversion to a permanent number.\<close>

lemma claims_terms:
  assumes ok: "claims_ok I N L U" and l: "L i = Some l" "lease_active l" and n: "N (fl_numberID l) = Some n" and x: "U (fl_userID l) = Some x"
    and l': "fl_id l' = fl_id l" "fl_userID l' = fl_userID l" "fl_numberID l' = fl_numberID l"
      "fl_restoreAccountId l' = fl_restoreAccountId l" "lease_active l'"
      "fl_permanentAt l' = None \<longleftrightarrow> fl_expiresAt l' \<noteq> None" "fl_permanentAt l' = None \<longrightarrow> fl_permanentAt l = None"
    and n': "fn_id n' = fn_id n" "fn_value n' = fn_value n" "fn_status n' = (if fl_permanentAt l' = None then LEASED_N else PERMANENT_N)"
    and x': "uu_id x' = uu_id x" "uu_accountId x' = uu_accountId x" "uu_fancy x'" "uu_fancyExpiresAt x' = fl_expiresAt l'"
      "uu_fancyPermanent x' = (fl_permanentAt l' \<noteq> None)"
  shows "claims_ok I (N(fl_numberID l \<mapsto> n')) (L(i \<mapsto> l')) (U(fl_userID l \<mapsto> x'))"
proof -
  let ?N = "N(fl_numberID l \<mapsto> n')" and ?L = "L(i \<mapsto> l')" and ?U = "U(fl_userID l \<mapsto> x')"
  have fits: "lease_fits I N U l" by (rule claims_lease(2) [OF ok l])
  have still: "\<exists>j m. ?L j = Some m \<and> lease_active m \<and> fl_userID m = fl_userID e \<and> fl_numberID m = fl_numberID e
      \<and> fl_restoreAccountId m = fl_restoreAccountId e" if "L k = Some e" "lease_active e" for k e
    by (cases "k = i") (use that l l' in auto)
  have users: "users_ok I ?L ?U" unfolding users_ok_def
  proof (intro allI impI conjI)
    fix w y assume y: "?U w = Some y"
    then obtain y0 where y0: "U w = Some y0" "uu_id y = uu_id y0" "uu_accountId y = uu_accountId y0"
        "uu_fancy y \<longrightarrow> w = fl_userID l \<or> uu_fancy y0" using x x' by (cases "w = fl_userID l") auto
    show "uu_id y = w" "\<exists>a. I (uu_accountId y) = Some a \<and> ai_current a = Some w" using claims_user(1,2) [OF ok y0(1)] y0 by simp_all
    assume "uu_fancy y"
    then show "\<exists>j m. ?L j = Some m \<and> lease_active m \<and> fl_userID m = w" using y0(4) claims_user(3) [OF ok y0(1)] still l by metis
  qed
  have idents: "idents_ok I ?L ?U" unfolding idents_ok_def
  proof (intro allI impI conjI)
    fix v a assume a: "I v = Some a"
    show "ai_value a = v" by (rule claims_ident(1) [OF ok a])
    {
      fix u assume "ai_current a = Some u"
      then obtain y where "U u = Some y" "uu_accountId y = v" using claims_ident(2) [OF ok a] by blast
      then show "\<exists>y. ?U u = Some y \<and> uu_accountId y = v" using x x'(2) by (cases "u = fl_userID l") auto
    next
      fix u assume u: "ai_reserved a = Some u"
      show "ai_current a = None" by (rule claims_ident(3) [OF ok a u])
      show "\<exists>j m. ?L j = Some m \<and> lease_active m \<and> fl_userID m = u \<and> fl_restoreAccountId m = Some v"
        using claims_ident(4) [OF ok a u] still by metis
    }
  qed
  have numbers: "numbers_ok I ?N ?L" unfolding numbers_ok_def
  proof (intro allI impI conjI)
    fix j m assume m: "?N j = Some m"
    obtain m0 where m0: "N j = Some m0" "fn_value m0 = fn_value m" "fn_id m = fn_id m0" using m n n' by (cases "j = fl_numberID l") auto
    show "fn_id m = j" using claims_number(1) [OF ok m0(1)] m0 by simp
    show "\<exists>a. I (fn_value m) = Some a \<and> ai_reserved a = None \<and> (fn_status m = AVAILABLE_N \<longrightarrow> \<not> claimed_identifier a)
        \<and> (fn_status m = DISABLED_N \<longrightarrow> ai_current a = None)"
      using claims_number(2) [OF ok m0(1)] m0 m n' by (cases "j = fl_numberID l") auto
    { assume st: "fn_status m = LEASED_N \<or> fn_status m = PERMANENT_N"
      show "\<exists>k e. ?L k = Some e \<and> lease_active e \<and> fl_numberID e = j"
      proof (cases "j = fl_numberID l")
        case True
        then show ?thesis using still [OF l] by metis
      next
        case False
        then have jm: "N j = Some m" using m by simp
        then show ?thesis using claims_number(3) [OF ok jm st] still by metis
      qed
    next
      fix k e assume e: "?N k = Some e \<and> fn_value e = fn_value m"
      obtain e0 where e0: "N k = Some e0" "fn_value e0 = fn_value e" using value_before [OF conjunct1 [OF e] n n'(2)] by blast
      show "k = j" by (rule claims_number(4) [OF ok m0(1) e0(1)]) (use e0 m0 e in simp) }
  qed
  have leases: "leases_fit I ?N ?L ?U" unfolding leases_fit_def
  proof (intro allI impI conjI)
    fix j m assume m: "?L j = Some m"
    show "fl_id m = j" using m l l'(1) claims_lease(1) [OF ok] by (cases "j = i") auto
    assume act: "lease_active m"
    show "lease_fits I ?N ?U m"
    proof (cases "j = i")
      case True
      then have m': "m = l'" using m by simp
      have acc: "uu_accountId x = fn_value n" using fits n x by (auto simp: lease_fits_def)
      have rest: "fl_permanentAt l = None \<longrightarrow> fl_restoreAccountId l \<noteq> None"
        "\<forall>r. fl_restoreAccountId l = Some r \<longrightarrow> (\<exists>a. I r = Some a \<and> ai_reserved a = Some (fl_userID l))"
        using fits unfolding lease_fits_def by blast+
      show ?thesis unfolding m' lease_fits_def using rest l' n' x' acc by simp
    next
      case False
      then have jm: "L j = Some m" using m by simp
      have "fl_userID m \<noteq> fl_userID l" using claims_lease(3) [OF ok l jm act] False by auto
      moreover have "fl_numberID m \<noteq> fl_numberID l" using claims_lease_number [OF ok jm act l] False by auto
      ultimately show ?thesis by (intro lease_fits_cong [OF claims_lease(2) [OF ok jm act]]) simp_all
    qed
    fix k e assume e: "?L k = Some e \<and> lease_active e \<and> fl_userID e = fl_userID m"
    obtain e0 where e0: "L k = Some e0" "lease_active e0" "fl_userID e0 = fl_userID e" using e l l' by (cases "k = i") auto
    obtain m0 where m0: "L j = Some m0" "lease_active m0" "fl_userID m0 = fl_userID m" using m act l l' by (cases "j = i") auto
    show "k = j" by (rule claims_lease(3) [OF ok m0(1,2) e0(1,2)]) (use e0 m0 e in simp)
  qed
  show ?thesis using users idents numbers leases by (simp add: claims_ok_def)
qed

text \<open>A number is put up, or changed in what no lease depends on.\<close>

lemma claims_new_number:
  assumes ok: "claims_ok I N L U" and v: "I (fn_value n) = Some a" "\<not> claimed_identifier a" and "N k = None" "fn_id n = k"
    and st: "fn_status n = AVAILABLE_N" and plain: "\<And>i m. N i = Some m \<Longrightarrow> fn_value m \<noteq> fn_value n"
  shows "claims_ok I (N(k \<mapsto> n)) L U"
proof -
  have numbers: "numbers_ok I (N(k \<mapsto> n)) L" unfolding numbers_ok_def
  proof (intro allI impI)
    fix j m assume m: "(N(k \<mapsto> n)) j = Some m"
    have same: "\<forall>i e. (N(k \<mapsto> n)) i = Some e \<and> fn_value e = fn_value m \<longrightarrow> i = j"
    proof (intro allI impI)
      fix i e assume e: "(N(k \<mapsto> n)) i = Some e \<and> fn_value e = fn_value m"
      show "i = j"
      proof (cases "i = k \<or> j = k")
        case True
        have no: "N i' \<noteq> Some d" if "fn_value d = fn_value n" for i' d using plain that by blast
        show ?thesis
        proof (rule ccontr)
          assume ne: "i \<noteq> j"
          then consider "i = k" "e = n" "N j = Some m" | "j = k" "m = n" "N i = Some e" using True e m by (metis fun_upd_apply option.inject)
          then show False using no e by cases metis+
        qed
      next
        case False
        then have "N j = Some m" "N i = Some e" using e m by simp_all
        then show ?thesis using claims_number(4) [OF ok] e by blast
      qed
    qed
    show "fn_id m = j \<and> (\<exists>a. I (fn_value m) = Some a \<and> ai_reserved a = None \<and> (fn_status m = AVAILABLE_N \<longrightarrow> \<not> claimed_identifier a)
        \<and> (fn_status m = DISABLED_N \<longrightarrow> ai_current a = None))
      \<and> (fn_status m = LEASED_N \<or> fn_status m = PERMANENT_N \<longrightarrow> (\<exists>i l. L i = Some l \<and> lease_active l \<and> fl_numberID l = j))
      \<and> (\<forall>i e. (N(k \<mapsto> n)) i = Some e \<and> fn_value e = fn_value m \<longrightarrow> i = j)"
    proof (cases "j = k")
      case True
      then have m': "m = n" using m by simp
      have "ai_reserved a = None" using v(2) by (simp add: claimed_identifier_def)
      moreover have "fn_id n = j" using True assms(5) by simp
      ultimately show ?thesis using v st same unfolding m' by simp
    next
      case False
      then have jm: "N j = Some m" using m by simp
      show ?thesis by (intro conjI impI same claims_number(1-3) [OF ok jm])
    qed
  qed
  have "lease_fits I (N(k \<mapsto> n)) U l" if "lease_fits I N U l" for l
    by (rule lease_fits_mono [OF that]) (use assms(4) in auto)
  then have "leases_fit I (N(k \<mapsto> n)) L U" using ok unfolding claims_ok_def leases_fit_def by blast
  then show ?thesis using ok numbers by (simp add: claims_ok_def)
qed

lemma claims_number_update:
  assumes ok: "claims_ok I N L U" and n: "N k = Some n" and n': "fn_id n' = fn_id n" "fn_value n' = fn_value n"
    and st: "fn_status n' = fn_status n \<or> fn_status n \<in> {AVAILABLE_N, DISABLED_N} \<and> fn_status n' \<in> {AVAILABLE_N, DISABLED_N}"
    and free: "fn_status n' = AVAILABLE_N \<Longrightarrow> fn_status n \<noteq> AVAILABLE_N \<Longrightarrow> \<exists>a. I (fn_value n) = Some a \<and> \<not> claimed_identifier a"
  shows "claims_ok I (N(k \<mapsto> n')) L U"
proof -
  have numbers: "numbers_ok I (N(k \<mapsto> n')) L" unfolding numbers_ok_def
  proof (intro allI impI)
    fix j m assume m: "(N(k \<mapsto> n')) j = Some m"
    obtain m0 where m0: "N j = Some m0" "fn_value m0 = fn_value m" using value_before [OF m n n'(2)] by blast
    have same: "\<forall>i e. (N(k \<mapsto> n')) i = Some e \<and> fn_value e = fn_value m \<longrightarrow> i = j"
    proof (intro allI impI)
      fix i e assume e: "(N(k \<mapsto> n')) i = Some e \<and> fn_value e = fn_value m"
      obtain e0 where e0: "N i = Some e0" "fn_value e0 = fn_value e" using value_before [OF conjunct1 [OF e] n n'(2)] by blast
      show "i = j" by (rule claims_number(4) [OF ok m0(1) e0(1)]) (use e0 m0 e in simp)
    qed
    show "fn_id m = j \<and> (\<exists>a. I (fn_value m) = Some a \<and> ai_reserved a = None \<and> (fn_status m = AVAILABLE_N \<longrightarrow> \<not> claimed_identifier a)
        \<and> (fn_status m = DISABLED_N \<longrightarrow> ai_current a = None))
      \<and> (fn_status m = LEASED_N \<or> fn_status m = PERMANENT_N \<longrightarrow> (\<exists>i l. L i = Some l \<and> lease_active l \<and> fl_numberID l = j))
      \<and> (\<forall>i e. (N(k \<mapsto> n')) i = Some e \<and> fn_value e = fn_value m \<longrightarrow> i = j)"
    proof (cases "j = k")
      case True
      then have m': "m = n'" using m by simp
      obtain a where a: "I (fn_value n) = Some a" "ai_reserved a = None" "fn_status n = AVAILABLE_N \<longrightarrow> \<not> claimed_identifier a"
        "fn_status n = DISABLED_N \<longrightarrow> ai_current a = None" using claims_number(2) [OF ok n] by blast
      have "fn_status n' = AVAILABLE_N \<longrightarrow> \<not> claimed_identifier a" "fn_status n' = DISABLED_N \<longrightarrow> ai_current a = None"
        using a st free by (auto simp: claimed_identifier_def)
      moreover have "fn_status n' = LEASED_N \<or> fn_status n' = PERMANENT_N \<longrightarrow> (\<exists>i l. L i = Some l \<and> lease_active l \<and> fl_numberID l = j)"
        using st claims_number(3) [OF ok n] True by auto
      moreover have "fn_id n' = j" "I (fn_value n') = Some a" using a n' claims_number(1) [OF ok n] True by simp_all
      ultimately show ?thesis using a(2) same unfolding m' by blast
    next
      case False
      then have jm: "N j = Some m" using m by simp
      show ?thesis by (intro conjI same impI claims_number(1-3) [OF ok jm])
    qed
  qed
  have "lease_fits I (N(k \<mapsto> n')) U l" if "lease_fits I N U l" for l
  proof (cases "fl_numberID l = k")
    case True
    then have "fn_status n' = fn_status n" using that n st by (auto simp: lease_fits_def split: if_splits)
    then show ?thesis by (intro lease_fits_status [OF that, of n _ n']) (simp_all add: True n n')
  next
    case False
    then show ?thesis by (intro lease_fits_cong [OF that]) simp_all
  qed
  then have "leases_fit I (N(k \<mapsto> n')) L U" using ok unfolding claims_ok_def leases_fit_def by blast
  then show ?thesis using ok numbers by (simp add: claims_ok_def)
qed


text \<open>
  An identifier that is no fancy number: a new unclaimed one, or another invite owner. And a new account id for somebody without a lease,
  \<open>x'\<close> being the user's row afterwards; the identifier of the old one, if there was one, is released and perhaps removed.
\<close>

lemma claims_ident_row:
  assumes ok: "claims_ok I N L U" and plain: "\<And>i n. N i = Some n \<Longrightarrow> fn_value n \<noteq> w"
    and c: "ai_value c = w" "I w = None \<Longrightarrow> ai_current c = None \<and> ai_reserved c = None"
      "\<And>b. I w = Some b \<Longrightarrow> ai_current c = ai_current b \<and> ai_reserved c = ai_reserved b"
  shows "claims_ok (I(w \<mapsto> c)) N L U"
proof -
  let ?I = "I(w \<mapsto> c)"
  have kept: "\<exists>b. ?I v = Some b \<and> ai_current b = ai_current a \<and> ai_reserved b = ai_reserved a" if "I v = Some a" for v a
    using that c(3) by (cases "v = w") auto
  have users: "users_ok ?I L U" unfolding users_ok_def
  proof (intro allI impI conjI)
    fix u x assume x: "U u = Some x"
    show "uu_id x = u" by (rule claims_user(1) [OF ok x])
    obtain a where "I (uu_accountId x) = Some a" "ai_current a = Some u" using claims_user(2) [OF ok x] by blast
    then show "\<exists>a. ?I (uu_accountId x) = Some a \<and> ai_current a = Some u" using kept by metis
    show "\<exists>i l. L i = Some l \<and> lease_active l \<and> fl_userID l = u" if "uu_fancy x" by (rule claims_user(3) [OF ok x that])
  qed
  have idents: "idents_ok ?I L U" unfolding idents_ok_def
  proof (intro allI impI conjI)
    fix v a assume a: "?I v = Some a"
    show "ai_value a = v" using a c(1) claims_ident(1) [OF ok] by (cases "v = w") auto
    have before: "\<exists>b. I v = Some b \<and> ai_current a = ai_current b \<and> ai_reserved a = ai_reserved b"
      if "ai_current a \<noteq> None \<or> ai_reserved a \<noteq> None"
      using a that c(2,3) by (cases "v = w"; cases "I v") auto
    {
      fix u assume u: "ai_current a = Some u"
      then obtain b where b: "I v = Some b" "ai_current b = Some u" using before by auto
      show "\<exists>x. U u = Some x \<and> uu_accountId x = v" by (rule claims_ident(2) [OF ok b])
    next
      fix u assume u: "ai_reserved a = Some u"
      then obtain b where b: "I v = Some b" "ai_reserved b = Some u" "ai_current a = ai_current b" using before by auto
      show "ai_current a = None" using claims_ident(3) [OF ok b(1,2)] b(3) by simp
      show "\<exists>i l. L i = Some l \<and> lease_active l \<and> fl_userID l = u \<and> fl_restoreAccountId l = Some v" by (rule claims_ident(4) [OF ok b(1,2)])
    }
  qed
  have numbers: "numbers_ok ?I N L" unfolding numbers_ok_def
  proof (intro allI impI)
    fix j m assume m: "N j = Some m"
    have I: "?I (fn_value m) = I (fn_value m)" using plain [OF m] by simp
    have "\<forall>i e. N i = Some e \<and> fn_value e = fn_value m \<longrightarrow> i = j" using claims_number(4) [OF ok m] by blast
    then show "fn_id m = j \<and> (\<exists>a. ?I (fn_value m) = Some a \<and> ai_reserved a = None \<and> (fn_status m = AVAILABLE_N \<longrightarrow> \<not> claimed_identifier a)
        \<and> (fn_status m = DISABLED_N \<longrightarrow> ai_current a = None))
      \<and> (fn_status m = LEASED_N \<or> fn_status m = PERMANENT_N \<longrightarrow> (\<exists>i l. L i = Some l \<and> lease_active l \<and> fl_numberID l = j))
      \<and> (\<forall>i e. N i = Some e \<and> fn_value e = fn_value m \<longrightarrow> i = j)"
      unfolding I by (intro conjI impI claims_number(1-3) [OF ok m])
  qed
  have "lease_fits ?I N U l" if f: "lease_fits I N U l" for l
  proof -
    have "\<exists>b. ?I r = Some b \<and> ai_reserved b = Some (fl_userID l)" if "fl_restoreAccountId l = Some r" for r
      using f kept that unfolding lease_fits_def by metis
    then show ?thesis using f unfolding lease_fits_def by blast
  qed
  then have "leases_fit ?I N L U" using ok unfolding claims_ok_def leases_fit_def by blast
  then show ?thesis using users idents numbers by (simp add: claims_ok_def)
qed

lemma claims_account:
  assumes ok: "claims_ok I N L U" and free: "\<And>j m. L j = Some m \<Longrightarrow> lease_active m \<Longrightarrow> fl_userID m \<noteq> u"
    and plain: "\<And>i n. N i = Some n \<Longrightarrow> fn_value n \<noteq> v"
    and v: "\<And>b. I v = Some b \<Longrightarrow> ai_current b = None \<and> ai_reserved b = None"
    and b': "ai_value b' = v" "ai_current b' = Some u" "ai_reserved b' = None"
    and x': "uu_id x' = u" "uu_accountId x' = v" "\<not> uu_fancy x'"
    and old: "\<And>x. U u = Some x \<Longrightarrow> uu_accountId x = old" "U u = None \<Longrightarrow> old = v"
    and oa: "\<And>c. oa = Some c \<Longrightarrow> ai_value c = old \<and> ai_current c = None \<and> ai_reserved c = None"
  shows "claims_ok (I(old := oa, v \<mapsto> b')) N L (U(u \<mapsto> x'))"
proof -
  let ?I = "I(old := oa, v \<mapsto> b')" and ?U = "U(u \<mapsto> x')"
  have held: "w = old" if "I w = Some a" "ai_current a = Some u" for w a
    using claims_ident(2) [OF ok that] old by auto
  have oldcur: "ai_current a = Some u" if "I old = Some a" "old \<noteq> v" for a
  proof -
    obtain x where x: "U u = Some x" using old(2) \<open>old \<noteq> v\<close> by (cases "U u") auto
    then show ?thesis using claims_user(2) [OF ok x] old(1) [OF x] that by simp
  qed
  have other: "?I w = Some a" if "I w = Some a" "ai_current a \<noteq> Some u" "w \<noteq> v" for w a
    using that oldcur by auto
  have users: "users_ok ?I L ?U" unfolding users_ok_def
  proof (intro allI impI conjI)
    fix w y assume y: "?U w = Some y"
    show "uu_id y = w" using y x' claims_user(1) [OF ok] by (cases "w = u") auto
    show "\<exists>a. ?I (uu_accountId y) = Some a \<and> ai_current a = Some w"
    proof (cases "w = u")
      case True
      then show ?thesis using y x' b' by simp
    next
      case False
      then have U: "U w = Some y" using y by simp
      obtain a where a: "I (uu_accountId y) = Some a" "ai_current a = Some w" using claims_user(2) [OF ok U] by blast
      have "uu_accountId y \<noteq> v" using v a by auto
      then show ?thesis using other [OF a(1)] a(2) False by simp
    qed
    assume "uu_fancy y"
    then have "w \<noteq> u" using y x' by auto
    then have "U w = Some y" using y by simp
    then show "\<exists>i l. L i = Some l \<and> lease_active l \<and> fl_userID l = w" by (rule claims_user(3) [OF ok _ \<open>uu_fancy y\<close>])
  qed
  have idents: "idents_ok ?I L ?U" unfolding idents_ok_def
  proof (intro allI impI conjI)
    fix w a assume a: "?I w = Some a"
    consider "w = v" "a = b'" | "w \<noteq> v" "w = old" "oa = Some a" | "w \<noteq> v" "w \<noteq> old" "I w = Some a"
      using a by (cases "w = v"; cases "w = old") auto
    note cases = this
    show "ai_value a = w" using cases by cases (use b' oa claims_ident(1) [OF ok] in auto)
    {
      fix z assume z: "ai_current a = Some z"
      show "\<exists>y. ?U z = Some y \<and> uu_accountId y = w" using cases
      proof cases
        case 3
        then have "z \<noteq> u" using held z by blast
        then show ?thesis using claims_ident(2) [OF ok 3(3) z] by simp
      qed (use z b' x' oa in auto)
    next
      fix z assume z: "ai_reserved a = Some z"
      have "I w = Some a" using cases z b' oa by cases auto
      then show "ai_current a = None" "\<exists>i l. L i = Some l \<and> lease_active l \<and> fl_userID l = z \<and> fl_restoreAccountId l = Some w"
        using claims_ident(3,4) [OF ok _ z] by blast+
    }
  qed
  have numbers: "numbers_ok ?I N L" unfolding numbers_ok_def
  proof (intro allI impI)
    fix j m assume m: "N j = Some m"
    have "fn_value m \<noteq> old" if ne: "old \<noteq> v"
    proof
      assume e: "fn_value m = old"
      obtain x where x: "U u = Some x" using old(2) ne by (cases "U u") auto
      show False using claims_plain_account [OF ok x m] old(1) [OF x] e free by blast
    qed
    then have I: "?I (fn_value m) = I (fn_value m)" using plain [OF m] by auto
    have "\<forall>i e. N i = Some e \<and> fn_value e = fn_value m \<longrightarrow> i = j" using claims_number(4) [OF ok m] by blast
    then show "fn_id m = j \<and> (\<exists>a. ?I (fn_value m) = Some a \<and> ai_reserved a = None \<and> (fn_status m = AVAILABLE_N \<longrightarrow> \<not> claimed_identifier a)
        \<and> (fn_status m = DISABLED_N \<longrightarrow> ai_current a = None))
      \<and> (fn_status m = LEASED_N \<or> fn_status m = PERMANENT_N \<longrightarrow> (\<exists>i l. L i = Some l \<and> lease_active l \<and> fl_numberID l = j))
      \<and> (\<forall>i e. N i = Some e \<and> fn_value e = fn_value m \<longrightarrow> i = j)"
      unfolding I by (intro conjI impI claims_number(1-3) [OF ok m])
  qed
  have leases: "leases_fit ?I N L ?U" unfolding leases_fit_def
  proof (intro allI impI conjI)
    fix j m assume m: "L j = Some m"
    show "fl_id m = j" by (rule claims_lease(1) [OF ok m])
    assume act: "lease_active m"
    have fits: "lease_fits I N ?U m"
      by (rule lease_fits_cong [OF claims_lease(2) [OF ok m act]]) (use free [OF m act] in simp_all)
    have "?I r = Some a" if "I r = Some a" "ai_reserved a = Some (fl_userID m)" for r a
      by (rule other [OF that(1)]) (use that v claims_ident(3) [OF ok that] in auto)
    then have "\<exists>a. ?I r = Some a \<and> ai_reserved a = Some (fl_userID m)" if "fl_restoreAccountId m = Some r" for r
      using fits that unfolding lease_fits_def by metis
    then show "lease_fits ?I N ?U m" using fits unfolding lease_fits_def by blast
    fix k e assume "L k = Some e \<and> lease_active e \<and> fl_userID e = fl_userID m"
    then show "k = j" using claims_lease(3) [OF ok m act] by blast
  qed
  show ?thesis using users idents numbers leases by (simp add: claims_ok_def)
qed

end
