(* ===== verification/FancySteps.thy ===== *)
theory FancySteps
  imports FancyProofs
begin

text \<open>
  Fancy numbers: what each operation does to the maps of \<open>FancyProofs\<close>, that it keeps the invariant, and that the end of a
  due lease never fails.
\<close>

section \<open>The statements on the maps\<close>

lemma fancy_invD:
  "fancy_inv db \<Longrightarrow> keyed db" "fancy_inv db \<Longrightarrow> sound_rows (fz_campaigns db) (fz_identifiers db)"
  "fancy_inv db \<Longrightarrow> claims_ok (idents db) (nums db) (leases db) (people db)"
  by (simp_all add: fancy_inv_def)

lemma unique_column_cong: "map col rows' = map col rows \<Longrightarrow> unique_column col rows' = unique_column col rows"
proof -
  have eq: "List.map_filter col xs = List.map_filter id (map col xs)" for xs
    by (induction xs) (auto simp: List.map_filter_simps split: option.split)
  assume "map col rows' = map col rows"
  then show ?thesis by (simp only: unique_column_def eq)
qed

lemma update_identifiers_sound:
  "update_identifiers p f db = Inr (n, db') \<Longrightarrow> sound_rows (fz_campaigns db) (fz_identifiers db) \<Longrightarrow>
   sound_rows (fz_campaigns db') (fz_identifiers db')"
  by (auto simp: update_identifiers_def Let_def sound_rows_def update_where_def list_ex_iff campaign_claim_def split: if_splits)

text \<open>An update of one identifier that repeats no user in a unique column succeeds.\<close>

lemma update_identifiers_ok:
  assumes k: "keyed db" and inv: "sound_rows (fz_campaigns db) (fz_identifiers db)" and a: "idents db v = Some a" "p a" "claimed_identifier a"
    and p: "\<And>a. p a \<Longrightarrow> ai_value a = v" and f: "\<And>a. ai_value (f a) = ai_value a" "\<And>a. ai_invite (f a) = ai_invite a"
    and cur: "\<And>x y b c u. ((idents db)(v \<mapsto> f a)) x = Some b \<Longrightarrow> ((idents db)(v \<mapsto> f a)) y = Some c \<Longrightarrow>
      ai_current b = Some u \<Longrightarrow> ai_current c = Some u \<Longrightarrow> x = y"
    and res: "\<And>x y b c u. ((idents db)(v \<mapsto> f a)) x = Some b \<Longrightarrow> ((idents db)(v \<mapsto> f a)) y = Some c \<Longrightarrow>
      ai_reserved b = Some u \<Longrightarrow> ai_reserved c = Some u \<Longrightarrow> x = y"
  shows "\<exists>rows. update_identifiers p f db = Inr (1, db\<lparr>fz_identifiers := rows\<rparr>)
    \<and> idents (db\<lparr>fz_identifiers := rows\<rparr>) = (idents db)(v \<mapsto> f a) \<and> keyed (db\<lparr>fz_identifiers := rows\<rparr>)
    \<and> sound_rows (fz_campaigns db) rows"
proof -
  let ?rows = "update_where p f (fz_identifiers db)"
  have d: "distinct (map ai_value (fz_identifiers db))" using k by (simp add: keyed_def)
  have found: "find_where (\<lambda>r. ai_value r = v) (fz_identifiers db) = Some a" using a(1) by (simp add: idents_def find_identifier_def)
  have one: "count_where p (fz_identifiers db) = 1"
    using count_where_key [where k = ai_value and x = v and p = p, OF d p] found a(2) by simp
  have map: "(\<lambda>y. find_where (\<lambda>r. ai_value r = y) ?rows) = (idents db)(v \<mapsto> f a)"
    using lookup_update_one [where k = ai_value and f = f and p = p and x = v, OF d f(1) one p] found
    by (auto simp: idents_def [abs_def] find_identifier_def)
  then have look: "find_where (\<lambda>r. ai_value r = y) ?rows = ((idents db)(v \<mapsto> f a)) y" for y by metis
  have vals: "map ai_value ?rows = map ai_value (fz_identifiers db)" by (rule map_update_where [where k = ai_value]) (rule f(1))
  have d': "distinct (map ai_value ?rows)" using d vals by simp
  have "unique_column ai_current ?rows" by (rule unique_columnI [OF d'], unfold look) (erule (3) cur)
  moreover have "unique_column ai_reserved ?rows" by (rule unique_columnI [OF d'], unfold look) (erule (3) res)
  moreover have "unique_column ai_invite ?rows"
    using inv unique_column_cong [OF map_update_where [where k = ai_invite and f = f and p = p, OF f(2)]] unfolding sound_rows_def by blast
  moreover have "v \<notin> set (fz_campaigns db)" using inv a(3) found by (auto simp: sound_rows_def dest: find_where_SomeD)
  then have "\<not> list_ex (\<lambda>a. p a \<and> campaign_claim db (f a)) (fz_identifiers db)" using p f(1) by (auto simp: list_ex_iff campaign_claim_def)
  ultimately have ran: "update_identifiers p f db = Inr (1, db\<lparr>fz_identifiers := ?rows\<rparr>)"
    using one by (simp add: update_identifiers_def)
  have "sound_rows (fz_campaigns db) ?rows" using update_identifiers_sound [OF ran inv] by simp
  note this ran
  moreover have "keyed (db\<lparr>fz_identifiers := ?rows\<rparr>)" using k d' by (simp add: keyed_def)
  moreover have "idents (db\<lparr>fz_identifiers := ?rows\<rparr>) = (idents db)(v \<mapsto> f a)"
    using map by (simp add: idents_def [abs_def] find_identifier_def)
  ultimately show ?thesis by blast
qed

lemma number_of_value_None: "keyed db \<Longrightarrow> number_of_value v db = None \<longleftrightarrow> (\<forall>i n. nums db i = Some n \<longrightarrow> fn_value n \<noteq> v)"
proof
  assume "number_of_value v db = None"
  then show "\<forall>i n. nums db i = Some n \<longrightarrow> fn_value n \<noteq> v"
    by (auto simp: number_of_value_def find_where_None_iff nums_def find_number_def dest!: find_where_SomeD)
next
  assume k: "keyed db" and no: "\<forall>i n. nums db i = Some n \<longrightarrow> fn_value n \<noteq> v"
  have "fn_value n \<noteq> v" if "n \<in> set (fz_numbers db)" for n
    using no lookup_in [OF _ that, of fn_id] k unfolding nums_def find_number_def keyed_def by blast
  then show "number_of_value v db = None" by (simp add: number_of_value_def find_where_None_iff)
qed

lemma number_of_value_Some: "keyed db \<Longrightarrow> number_of_value v db = Some n \<Longrightarrow> nums db (fn_id n) = Some n \<and> fn_value n = v"
proof -
  assume k: "keyed db" and n: "number_of_value v db = Some n"
  then have "n \<in> set (fz_numbers db)" "fn_value n = v" by (auto simp: number_of_value_def dest!: find_where_SomeD)
  then show ?thesis using lookup_in [of fn_id "fz_numbers db" n] k by (simp add: keyed_def nums_def find_number_def)
qed

text \<open>The user's row when the identifier is already assigned and the old one stays.\<close>

lemma people_in: "keyed db \<Longrightarrow> y \<in> set (fz_users db) \<Longrightarrow> people db (uu_id y) = Some y"
  using lookup_in [of uu_id "fz_users db" y] by (simp add: keyed_def people_def find_fancy_user_def)

lemma cleanup_stays:
  assumes k: "keyed db" and a: "idents db old = Some a" "claimed_identifier a \<or> number_of_value old db \<noteq> None"
  shows "account_identifier_cleanup old v db = Inr db"
proof -
  have stays: "\<not> (ai_value r = old \<and> \<not> claimed_identifier r \<and> number_of_value old db = None)" if r: "r \<in> set (fz_identifiers db)" for r
  proof
    assume n: "ai_value r = old \<and> \<not> claimed_identifier r \<and> number_of_value old db = None"
    then have "idents db old = Some r" using lookup_in [of ai_value "fz_identifiers db" r] k r
      by (simp add: keyed_def idents_def find_identifier_def)
    then show False using a n by simp
  qed
  then have "delete_where (\<lambda>a. ai_value a = old \<and> \<not> claimed_identifier a \<and> number_of_value old db = None) (fz_identifiers db) = fz_identifiers db"
    by (simp add: delete_where_def filter_id_conv)
  then show ?thesis using stays by (auto simp: account_identifier_cleanup_def Let_def list_ex_iff)
qed

lemma update_account_held:
  assumes k: "keyed db" and a: "idents db v = Some a" "ai_current a = Some u" and x: "people db u = Some x"
    and taken: "\<And>w y. people db w = Some y \<Longrightarrow> uu_accountId y = v \<Longrightarrow> w = u"
    and o: "idents db (uu_accountId x) = Some b" "claimed_identifier b \<or> number_of_value (uu_accountId x) db \<noteq> None"
    and f: "\<And>y. uu_id (f y) = uu_id y"
  shows "\<exists>rows. update_account u v f db = Inr (db\<lparr>fz_users := rows\<rparr>)
    \<and> people (db\<lparr>fz_users := rows\<rparr>) = (people db)(u \<mapsto> f x\<lparr>uu_accountId := v\<rparr>) \<and> keyed (db\<lparr>fz_users := rows\<rparr>)"
proof -
  let ?f = "\<lambda>y. f y\<lparr>uu_accountId := v\<rparr>"
  have prep: "account_identifier_prepare u (uu_accountId x) v db = Inr db"
    using a by (simp add: account_identifier_prepare_def occupied_for_def idents_def)
  have free: "\<not> (\<exists>y \<in> set (fz_users db). uu_id y \<noteq> u \<and> uu_accountId y = v)" using people_in [OF k] taken by blast
  obtain db' where db': "update_user u ?f db = Inr db'" using x by (auto simp: update_user_def people_def)
  obtain rows where rows: "db' = db\<lparr>fz_users := rows\<rparr>" "people db' = (people db)(u \<mapsto> ?f x)" "keyed db'"
    using update_user_effect [OF k db'] f x by auto
  have "account_identifier_cleanup (uu_accountId x) v db' = Inr db'"
    by (rule cleanup_stays) (use rows o in \<open>auto simp: number_of_value_def\<close>)
  then show ?thesis using prep free db' rows x
    by (intro exI [of _ rows]) (simp add: update_account_def people_def [symmetric])
qed


section \<open>The end of a lease\<close>

text \<open>\<open>ended_lease\<close>: the maps after lease \<open>l\<close> (id \<open>i\<close>) has ended with the return of \<open>r\<close>; other tables are untouched.\<close>

definition ended_lease :: "int \<Rightarrow> string \<Rightarrow> fancy_lease \<Rightarrow> fancy_db \<Rightarrow> fancy_db \<Rightarrow> bool" where
  "ended_lease now i l db db' \<longleftrightarrow> (\<exists>r n x n'. fl_restoreAccountId l = Some r \<and> nums db (fl_numberID l) = Some n
     \<and> people db (fl_userID l) = Some x \<and> fn_value n' = fn_value n
     \<and> nums db' = (nums db)(fl_numberID l \<mapsto> n') \<and> leases db' = (leases db)(i \<mapsto> l\<lparr>fl_endedAt := Some now\<rparr>)
     \<and> people db' = (people db)(fl_userID l \<mapsto>
         x\<lparr>uu_fancy := False, uu_fancyExpiresAt := None, uu_fancyPermanent := False, uu_accountId := r\<rparr>)
     \<and> idents db' r = map_option (\<lambda>b. b\<lparr>ai_current := Some (fl_userID l), ai_reserved := None\<rparr>) (idents db r)
     \<and> fz_orders db' = fz_orders db \<and> fz_coin db' = fz_coin db
     \<and> fz_leases db' = update_where (\<lambda>x. fl_id x = i \<and> due_lease now x) (\<lambda>x. x\<lparr>fl_endedAt := Some now\<rparr>) (fz_leases db))"

lemma due_leaseD: "due_lease now l \<Longrightarrow> lease_active l \<and> fl_permanentAt l = None \<and> (\<exists>t. fl_expiresAt l = Some t \<and> t \<le> now)"
  by (auto simp: due_lease_def lease_active_def split: option.splits)

text \<open>The rows that a due lease needs are all there.\<close>

lemma due_ending:
  assumes "fancy_inv db" "leases db i = Some l" "due_lease now l"
  obtains r n x a b where "ending (idents db) (nums db) (leases db) (people db) i l r n x a b" "restorable l db = Inr (fn_value n, r)"
proof -
  note ok = fancy_invD(3) [OF assms(1)]
  have act: "lease_active l" and perm: "fl_permanentAt l = None" using due_leaseD [OF assms(3)] by auto
  have fits: "lease_fits (idents db) (nums db) (people db) l" by (rule claims_lease(2) [OF ok assms(2) act])
  then obtain n x where nx: "nums db (fl_numberID l) = Some n" "people db (fl_userID l) = Some x" "uu_accountId x = fn_value n"
    unfolding lease_fits_def by blast
  obtain r where r: "fl_restoreAccountId l = Some r" using fits perm unfolding lease_fits_def by blast
  obtain b where b: "idents db r = Some b" using fits r unfolding lease_fits_def by blast
  obtain a where a: "idents db (fn_value n) = Some a" using claims_number(2) [OF ok nx(1)] by blast
  show thesis
    by (rule that [of r n x a b])
      (use ok assms(2) act r nx a b in \<open>simp_all add: ending_def restorable_def people_def [symmetric] nums_def [symmetric]\<close>)
qed

lemma close_due:
  assumes k: "keyed db" and l: "leases db i = Some l" "due_lease now l" "fl_id l = i"
  shows "\<exists>rows. close_lease now l db = (1, db\<lparr>fz_leases := rows\<rparr>) \<and> keyed (db\<lparr>fz_leases := rows\<rparr>)
    \<and> leases (db\<lparr>fz_leases := rows\<rparr>) = (leases db)(i \<mapsto> l\<lparr>fl_endedAt := Some now\<rparr>)
    \<and> rows = update_where (\<lambda>x. fl_id x = i \<and> due_lease now x) (\<lambda>x. x\<lparr>fl_endedAt := Some now\<rparr>) (fz_leases db)"
proof -
  let ?hit = "\<lambda>x. fl_id x = i \<and> due_lease now x" and ?f = "\<lambda>x :: fancy_lease. x\<lparr>fl_endedAt := Some now\<rparr>"
  have d: "distinct (map fl_id (fz_leases db))" using k by (simp add: keyed_def)
  have one: "count_where ?hit (fz_leases db) = 1"
    using count_where_key [where k = fl_id and x = i and p = ?hit, OF d] l by (simp add: leases_def find_lease_def)
  obtain l0 where "leases db i = Some l0" "leases (db\<lparr>fz_leases := update_where ?hit ?f (fz_leases db)\<rparr>) = (leases db)(i \<mapsto> ?f l0)"
      "keyed (db\<lparr>fz_leases := update_where ?hit ?f (fz_leases db)\<rparr>)"
    using update_leases_one [of db ?hit i ?f, OF k one _ _ refl] by auto
  then show ?thesis using one l by (simp add: close_lease_def)
qed

lemma update_numbers_ok:
  assumes k: "keyed db" and n: "nums db i = Some n" "p n" and p: "\<And>n. p n \<Longrightarrow> fn_id n = i" and f: "\<And>n. fn_id (f n) = fn_id n"
  shows "\<exists>rows. update_numbers p f db = (1, db\<lparr>fz_numbers := rows\<rparr>)
    \<and> nums (db\<lparr>fz_numbers := rows\<rparr>) = (nums db)(i \<mapsto> f n) \<and> keyed (db\<lparr>fz_numbers := rows\<rparr>)"
proof -
  have d: "distinct (map fn_id (fz_numbers db))" using k by (simp add: keyed_def)
  have "count_where p (fz_numbers db) = 1"
    using count_where_key [where k = fn_id and x = i and p = p, OF d p] n by (simp add: nums_def find_number_def)
  then have u: "update_numbers p f db = (1, db\<lparr>fz_numbers := update_where p f (fz_numbers db)\<rparr>)" by (simp add: update_numbers_def)
  from update_numbers_one [OF k u p f] n(1) show ?thesis using u by auto
qed

lemma nums_id: "nums db i = Some n \<Longrightarrow> fn_id n = i"
  by (auto simp: nums_def find_number_def dest: find_where_SomeD)

lemma release_ok:
  assumes k: "keyed db" and a: "idents db (fn_value n) = Some a" "ai_current a = None"
    and n: "nums db i = Some n" "fn_status n = st"
  shows "\<exists>rows n'. releaseFancyNumberInventory i (fn_value n) st now db = Inr (db\<lparr>fz_numbers := rows\<rparr>)
    \<and> nums (db\<lparr>fz_numbers := rows\<rparr>) = (nums db)(i \<mapsto> n') \<and> keyed (db\<lparr>fz_numbers := rows\<rparr>)
    \<and> fn_id n' = fn_id n \<and> fn_value n' = fn_value n
    \<and> fn_status n' = (if ai_reserved a \<noteq> None \<or> ai_invite a \<noteq> None then DISABLED_N else AVAILABLE_N)"
proof -
  let ?f = "\<lambda>n. if ai_reserved a \<noteq> None \<or> ai_invite a \<noteq> None then n\<lparr>fn_status := DISABLED_N, fn_disabledAt := Some now\<rparr>
    else n\<lparr>fn_status := AVAILABLE_N, fn_disabledAt := None\<rparr>"
  obtain rows where rows: "update_numbers (\<lambda>n. fn_id n = i \<and> fn_status n = st) ?f db = (1, db\<lparr>fz_numbers := rows\<rparr>)"
      "nums (db\<lparr>fz_numbers := rows\<rparr>) = (nums db)(i \<mapsto> ?f n)" "keyed (db\<lparr>fz_numbers := rows\<rparr>)"
    using update_numbers_ok [where f = ?f and p = "\<lambda>n. fn_id n = i \<and> fn_status n = st", OF k n(1)] n(2) nums_id [OF n(1)]
    by (elim meta_impE) (simp_all, blast)
  then show ?thesis using a
    by (intro exI [of _ rows] exI [of _ "?f n"]) (simp add: releaseFancyNumberInventory_def idents_def)
qed

text \<open>The registry: keys, and no user twice in a unique column.\<close>

definition ident_unique :: "account_identifier keymap \<Rightarrow> bool" where
  "ident_unique I \<longleftrightarrow> (\<forall>x y b c u. I x = Some b \<and> I y = Some c
     \<and> (ai_current b = Some u \<and> ai_current c = Some u \<or> ai_reserved b = Some u \<and> ai_reserved c = Some u) \<longrightarrow> x = y)"

definition registry_ok :: "fancy_db \<Rightarrow> bool" where
  "registry_ok db \<longleftrightarrow> keyed db \<and> sound_rows (fz_campaigns db) (fz_identifiers db) \<and> ident_unique (idents db)"

lemma registry_inv: "fancy_inv db \<Longrightarrow> registry_ok db"
proof -
  assume inv: "fancy_inv db"
  note ok = fancy_invD(3) [OF inv]
  have "x = y" if "idents db x = Some b" "idents db y = Some c"
    "ai_current b = Some u \<and> ai_current c = Some u \<or> ai_reserved b = Some u \<and> ai_reserved c = Some u" for x y b c u
    using that(3) claims_current_unique [OF ok that(1) _ that(2)] claims_reserved_unique [OF ok that(1) _ that(2)] by blast
  then have "ident_unique (idents db)" unfolding ident_unique_def by blast
  then show ?thesis using fancy_invD(1,2) [OF inv] by (simp add: registry_ok_def)
qed

lemma ident_unique_update:
  assumes "ident_unique I"
    and "\<And>u w b. w \<noteq> v \<Longrightarrow> I w = Some b \<Longrightarrow> ai_current d = Some u \<Longrightarrow> ai_current b \<noteq> Some u"
    and "\<And>u w b. w \<noteq> v \<Longrightarrow> I w = Some b \<Longrightarrow> ai_reserved d = Some u \<Longrightarrow> ai_reserved b \<noteq> Some u"
  shows "ident_unique (I(v \<mapsto> d))"
  unfolding ident_unique_def
proof (intro allI impI)
  fix x y b c u
  assume a: "(I(v \<mapsto> d)) x = Some b \<and> (I(v \<mapsto> d)) y = Some c
    \<and> (ai_current b = Some u \<and> ai_current c = Some u \<or> ai_reserved b = Some u \<and> ai_reserved c = Some u)"
  show "x = y"
  proof (cases "x = v \<or> y = v")
    case True
    then consider "x = v" "y = v" | "x = v" "y \<noteq> v" "b = d" "I y = Some c" | "y = v" "x \<noteq> v" "c = d" "I x = Some b"
      using a by fastforce
    then show ?thesis using a assms(2,3) by cases blast+
  next
    case False
    then have "I x = Some b" "I y = Some c" using a by simp_all
    then show ?thesis using a assms(1) unfolding ident_unique_def by blast
  qed
qed

lemma registry_update:
  assumes reg: "registry_ok db" and a: "idents db v = Some a" "p a" "claimed_identifier a"
    and p: "\<And>a. p a \<Longrightarrow> ai_value a = v" and f: "\<And>a. ai_value (f a) = ai_value a" "\<And>a. ai_invite (f a) = ai_invite a"
    and new: "\<And>u w b. w \<noteq> v \<Longrightarrow> idents db w = Some b \<Longrightarrow> ai_current (f a) = Some u \<Longrightarrow> ai_current b \<noteq> Some u"
      "\<And>u w b. w \<noteq> v \<Longrightarrow> idents db w = Some b \<Longrightarrow> ai_reserved (f a) = Some u \<Longrightarrow> ai_reserved b \<noteq> Some u"
  shows "\<exists>rows. update_identifiers p f db = Inr (1, db\<lparr>fz_identifiers := rows\<rparr>)
    \<and> idents (db\<lparr>fz_identifiers := rows\<rparr>) = (idents db)(v \<mapsto> f a) \<and> registry_ok (db\<lparr>fz_identifiers := rows\<rparr>)"
proof -
  have u: "ident_unique ((idents db)(v \<mapsto> f a))"
    by (rule ident_unique_update) (use reg in \<open>simp add: registry_ok_def\<close>, erule (2) new(1), erule (2) new(2))
  have "\<exists>rows. update_identifiers p f db = Inr (1, db\<lparr>fz_identifiers := rows\<rparr>)
    \<and> idents (db\<lparr>fz_identifiers := rows\<rparr>) = (idents db)(v \<mapsto> f a) \<and> keyed (db\<lparr>fz_identifiers := rows\<rparr>)
    \<and> sound_rows (fz_campaigns db) rows"
  proof (rule update_identifiers_ok [where p = p and f = f, OF _ _ a p f])
    show "keyed db" "sound_rows (fz_campaigns db) (fz_identifiers db)" using reg by (simp_all add: registry_ok_def)
  qed (use u [unfolded ident_unique_def] in blast)+
  then show ?thesis using u by (auto simp: registry_ok_def simp del: fun_upd_apply)
qed

lemma return_account_ok:
  assumes reg: "registry_ok db"
    and e: "ending (idents db) (nums db) L (people db) i l r n x a b" and st: "fn_status n = LEASED_N"
  shows "\<exists>is us ns n'. let db' = db\<lparr>fz_identifiers := is, fz_users := us, fz_numbers := ns\<rparr>
    in return_account now l (fn_value n) r db = Inr db' \<and> registry_ok db'
      \<and> idents db' = returned (idents db) l r n a b
      \<and> nums db' = (nums db)(fl_numberID l \<mapsto> n') \<and> fn_id n' = fn_id n \<and> fn_value n' = fn_value n
      \<and> fn_status n' = (if ai_reserved a \<noteq> None \<or> ai_invite a \<noteq> None then DISABLED_N else AVAILABLE_N)
      \<and> people db' = (people db)(fl_userID l \<mapsto> x\<lparr>uu_fancy := False, uu_fancyExpiresAt := None, uu_fancyPermanent := False, uu_accountId := r\<rparr>)"
proof -
  let ?u = "fl_userID l" and ?v = "fn_value n" and ?I = "idents db"
  note f = ending_facts [OF e] and rows = e [unfolded ending_def]
  have ok: "claims_ok ?I (nums db) L (people db)" using rows by blast
  have ia: "?I ?v = Some a" and ib: "?I r = Some b" and pn: "nums db (fl_numberID l) = Some n" and px: "people db ?u = Some x"
    using rows by blast+
  have vals: "ai_value a = ?v" "ai_value b = r" using claims_ident(1) [OF ok] ia ib by auto
  obtain is1 where s1: "update_identifiers (\<lambda>a. ai_value a = ?v \<and> ai_current a = Some ?u) (\<lambda>a. a\<lparr>ai_current := None\<rparr>) db
        = Inr (1, db\<lparr>fz_identifiers := is1\<rparr>)"
      "idents (db\<lparr>fz_identifiers := is1\<rparr>) = ?I(?v \<mapsto> a\<lparr>ai_current := None\<rparr>)" "registry_ok (db\<lparr>fz_identifiers := is1\<rparr>)"
    using registry_update [where p = "\<lambda>a. ai_value a = ?v \<and> ai_current a = Some ?u" and f = "\<lambda>a. a\<lparr>ai_current := None\<rparr>",
        OF reg ia] vals f(3,4) by (auto simp: claimed_identifier_def)
  let ?db1 = "db\<lparr>fz_identifiers := is1\<rparr>"
  have ib1: "idents ?db1 r = Some b" using s1(2) ib f(7) by simp
  have nobody: "ai_current c \<noteq> Some ?u" if "idents ?db1 w = Some c" for w c
    using that claims_current_unique [OF ok _ _ ia f(3)] by (auto simp: s1(2) split: if_splits)
  obtain is2 where s2: "update_identifiers (\<lambda>a. ai_value a = r \<and> ai_current a = None \<and> ai_reserved a = Some ?u)
        (\<lambda>a. a\<lparr>ai_current := Some ?u, ai_reserved := None\<rparr>) ?db1 = Inr (1, db\<lparr>fz_identifiers := is2\<rparr>)"
      "idents (db\<lparr>fz_identifiers := is2\<rparr>) = returned ?I l r n a b" "registry_ok (db\<lparr>fz_identifiers := is2\<rparr>)"
    using registry_update [where p = "\<lambda>a. ai_value a = r \<and> ai_current a = None \<and> ai_reserved a = Some ?u"
        and f = "\<lambda>a. a\<lparr>ai_current := Some ?u, ai_reserved := None\<rparr>", OF s1(3) ib1] vals f(5,6) nobody
    by (auto simp: returned_def s1(2) claimed_identifier_def simp del: fun_upd_apply)
  let ?db2 = "db\<lparr>fz_identifiers := is2\<rparr>" and ?f = "\<lambda>x. x\<lparr>uu_fancy := False, uu_fancyExpiresAt := None, uu_fancyPermanent := False\<rparr>"
  have taken: "w = ?u" if "people ?db2 w = Some y" "uu_accountId y = r" for w y
    using that claims_user(2) [OF ok, of w y] ib f(6) by auto
  have num: "number_of_value (uu_accountId x) ?db2 \<noteq> None"
    using number_of_value_None [of ?db2 "uu_accountId x"] s2(3) pn f(2) by (auto simp: registry_ok_def)
  have held: "idents ?db2 r = Some (b\<lparr>ai_current := Some ?u, ai_reserved := None\<rparr>)" "idents ?db2 (uu_accountId x) = Some (a\<lparr>ai_current := None\<rparr>)"
    using f(2,7) by (simp_all add: s2(2) returned_def)
  have k2: "keyed ?db2" using s2(3) by (simp add: registry_ok_def)
  have "\<exists>us. update_account ?u r ?f ?db2 = Inr (?db2\<lparr>fz_users := us\<rparr>)
      \<and> people (?db2\<lparr>fz_users := us\<rparr>) = (people ?db2)(?u \<mapsto> ?f x\<lparr>uu_accountId := r\<rparr>) \<and> keyed (?db2\<lparr>fz_users := us\<rparr>)"
    by (rule update_account_held [OF k2 held(1) _ _ taken held(2)]) (use px num in simp_all)
  then obtain us where s3: "update_account ?u r ?f ?db2 = Inr (?db2\<lparr>fz_users := us\<rparr>)"
      "people (?db2\<lparr>fz_users := us\<rparr>) = (people db)(?u \<mapsto> ?f x\<lparr>uu_accountId := r\<rparr>)" "keyed (?db2\<lparr>fz_users := us\<rparr>)"
    by auto
  let ?db3 = "?db2\<lparr>fz_users := us\<rparr>"
  have ia3: "idents ?db3 ?v = Some (a\<lparr>ai_current := None\<rparr>)" using held(2) f(2) by simp
  obtain ns n' where s4: "releaseFancyNumberInventory (fl_numberID l) ?v LEASED_N now ?db3 = Inr (?db3\<lparr>fz_numbers := ns\<rparr>)"
      "nums (?db3\<lparr>fz_numbers := ns\<rparr>) = (nums db)(fl_numberID l \<mapsto> n')" "keyed (?db3\<lparr>fz_numbers := ns\<rparr>)"
      "fn_id n' = fn_id n" "fn_value n' = fn_value n"
      "fn_status n' = (if ai_reserved a \<noteq> None \<or> ai_invite a \<noteq> None then DISABLED_N else AVAILABLE_N)"
    using release_ok [OF s3(3) ia3, of "fl_numberID l" LEASED_N now] pn st by auto
  show ?thesis
    by (intro exI [of _ is2] exI [of _ us] exI [of _ ns] exI [of _ n'])
      (use s1(1) s2 s3 s4 in \<open>simp add: return_account_def registry_ok_def Let_def\<close>)
qed

lemma expireLease_due:
  assumes inv: "fancy_inv db" and l: "leases db i = Some l" "due_lease now l"
  shows "\<exists>db'. expireLease now i db = Inr (True, db') \<and> fancy_inv db' \<and> ended_lease now i l db db'
    \<and> restoreExpiredLeaseInTransaction now l db = Inr db'"
proof -
  note ok = fancy_invD(3) [OF inv] and k = fancy_invD(1) [OF inv]
  obtain r n x a b where e: "ending (idents db) (nums db) (leases db) (people db) i l r n x a b"
    and rest: "restorable l db = Inr (fn_value n, r)" by (rule due_ending [OF inv l])
  note f = ending_facts [OF e] and rows = e [unfolded ending_def]
  let ?u = "fl_userID l" and ?v = "fn_value n"
  have li: "fl_id l = i" by (rule claims_lease(1) [OF ok l(1)])
  obtain ls where ls: "close_lease now l db = (1, db\<lparr>fz_leases := ls\<rparr>)" "keyed (db\<lparr>fz_leases := ls\<rparr>)"
      "leases (db\<lparr>fz_leases := ls\<rparr>) = (leases db)(i \<mapsto> l\<lparr>fl_endedAt := Some now\<rparr>)"
      "ls = update_where (\<lambda>x. fl_id x = i \<and> due_lease now x) (\<lambda>x. x\<lparr>fl_endedAt := Some now\<rparr>) (fz_leases db)"
    using close_due [OF k l li] by blast
  let ?db1 = "db\<lparr>fz_leases := ls\<rparr>"
  have reg: "registry_ok ?db1" using registry_inv [OF inv] ls(2) by (simp add: registry_ok_def)
  have e1: "ending (idents ?db1) (nums ?db1) (leases db) (people ?db1) i l r n x a b" using e by simp
  have "fn_status n = LEASED_N"
    using f(1) rows due_leaseD [OF l(2)] by (auto simp: lease_fits_def)
  from return_account_ok [OF reg e1 this, of now] obtain ids us ns n'
    where db': "return_account now l (fn_value n) r ?db1 = Inr (?db1\<lparr>fz_identifiers := ids, fz_users := us, fz_numbers := ns\<rparr>)"
      and r': "registry_ok (?db1\<lparr>fz_identifiers := ids, fz_users := us, fz_numbers := ns\<rparr>)"
      and maps: "idents (?db1\<lparr>fz_identifiers := ids, fz_users := us, fz_numbers := ns\<rparr>) = returned (idents db) l r n a b"
        "nums (?db1\<lparr>fz_identifiers := ids, fz_users := us, fz_numbers := ns\<rparr>) = (nums db)(fl_numberID l \<mapsto> n')"
        "people (?db1\<lparr>fz_identifiers := ids, fz_users := us, fz_numbers := ns\<rparr>)
           = (people db)(?u \<mapsto> x\<lparr>uu_fancy := False, uu_fancyExpiresAt := None, uu_fancyPermanent := False, uu_accountId := r\<rparr>)"
      and n': "fn_id n' = fn_id n" "fn_value n' = fn_value n"
        "fn_status n' = (if ai_reserved a \<noteq> None \<or> ai_invite a \<noteq> None then DISABLED_N else AVAILABLE_N)"
    by (auto simp: Let_def)
  let ?db' = "?db1\<lparr>fz_identifiers := ids, fz_users := us, fz_numbers := ns\<rparr>"
  have lm: "leases ?db' = (leases db)(i \<mapsto> l\<lparr>fl_endedAt := Some now\<rparr>)" using ls(3) by simp
  have "fancy_inv ?db'"
    using r' claims_end [OF e n', of "x\<lparr>uu_fancy := False, uu_fancyExpiresAt := None, uu_fancyPermanent := False, uu_accountId := r\<rparr>" now]
    unfolding fancy_inv_def registry_ok_def maps lm by simp
  moreover have "ended_lease now i l db ?db'"
    unfolding ended_lease_def
    by (intro exI [of _ r] exI [of _ n] exI [of _ x] exI [of _ n'])
      (use rows n' maps lm ls(4) f(7) in \<open>simp add: returned_def\<close>)
  moreover have "expireLease now i db = Inr (True, ?db')" "restoreExpiredLeaseInTransaction now l db = Inr ?db'"
    using l db' ls(1) rest by (simp_all add: expireLease_def restoreExpiredLeaseInTransaction_def leases_def [symmetric])
  ultimately show ?thesis by blast
qed

lemma expireLease_not_due: "\<not> (\<exists>l. leases db i = Some l \<and> due_lease now l) \<Longrightarrow> expireLease now i db = Inr (False, db)"
  by (auto simp: expireLease_def leases_def split: option.split)


section \<open>The protocol\<close>

text \<open>
  What any request may do to a lease: an ended lease is final, a permanent one does not end, user, account id to restore and start
  never change, and only a permanent lease moves to another number. Orders stay.
\<close>

definition lease_step :: "fancy_lease \<Rightarrow> fancy_lease \<Rightarrow> bool" where
  "lease_step l l' \<longleftrightarrow> fl_id l' = fl_id l \<and> fl_userID l' = fl_userID l \<and> fl_restoreAccountId l' = fl_restoreAccountId l
     \<and> fl_startedAt l' = fl_startedAt l \<and> (fl_endedAt l \<noteq> None \<longrightarrow> l' = l)
     \<and> (fl_permanentAt l \<noteq> None \<longrightarrow> fl_permanentAt l' = fl_permanentAt l \<and> fl_endedAt l' = fl_endedAt l)
     \<and> (fl_permanentAt l' = None \<longrightarrow> fl_numberID l' = fl_numberID l)"

definition fancy_evolves :: "fancy_db \<Rightarrow> fancy_db \<Rightarrow> bool" where
  "fancy_evolves db db' \<longleftrightarrow> fancy_inv db'
     \<and> (\<forall>i l. leases db i = Some l \<longrightarrow> (\<exists>l'. leases db' i = Some l' \<and> lease_step l l'))
     \<and> (\<forall>k r. find_order k db = Some r \<longrightarrow> find_order k db' = Some r)"

lemma lease_step_refl [simp]: "lease_step l l"
  by (simp add: lease_step_def)

lemma lease_step_trans: "lease_step a b \<Longrightarrow> lease_step b c \<Longrightarrow> lease_step a c"
  unfolding lease_step_def by metis

interpretation fancy_run: interleaved fancy_evolves fancy_inv
proof
  show "fancy_evolves a a" if "fancy_inv a" for a using that by (simp add: fancy_evolves_def)
  show "fancy_evolves a c" if ab: "fancy_evolves a b" and bc: "fancy_evolves b c" for a b c
    unfolding fancy_evolves_def
  proof (intro conjI allI impI)
    show "fancy_inv c" using bc by (simp add: fancy_evolves_def)
    show "find_order k c = Some r" if "find_order k a = Some r" for k r
      using that ab bc by (simp add: fancy_evolves_def)
    fix i l assume "leases a i = Some l"
    then obtain m where "leases b i = Some m" "lease_step l m" using ab unfolding fancy_evolves_def by blast
    moreover then obtain n where "leases c i = Some n" "lease_step m n" using bc unfolding fancy_evolves_def by blast
    ultimately show "\<exists>n. leases c i = Some n \<and> lease_step l n" using lease_step_trans by blast
  qed
  show "fancy_inv b" if "fancy_evolves a b" for a b using that by (simp add: fancy_evolves_def)
qed

lemma evolves_one:
  assumes "fancy_inv db'" "leases db i = Some l" "lease_step l l'" "leases db' = (leases db)(i \<mapsto> l')"
    and "\<And>k r. find_order k db = Some r \<Longrightarrow> find_order k db' = Some r"
  shows "fancy_evolves db db'"
  using assms by (simp add: fancy_evolves_def)

lemma evolves_same:
  "fancy_inv db' \<Longrightarrow> leases db' = leases db \<Longrightarrow> fz_orders db' = fz_orders db \<Longrightarrow> fancy_evolves db db'"
  by (simp add: fancy_evolves_def find_order_def)

lemma order_frame [simp]:
  "find_order k (db\<lparr>fz_numbers := ns\<rparr>) = find_order k db" "find_order k (db\<lparr>fz_leases := ls\<rparr>) = find_order k db"
  "find_order k (db\<lparr>fz_users := us\<rparr>) = find_order k db" "find_order k (db\<lparr>fz_identifiers := ids\<rparr>) = find_order k db"
  "find_order k (db\<lparr>fz_coin := c\<rparr>) = find_order k db"
  by (simp_all add: find_order_def)

lemma fancy_inv_elsewhere [simp]:
  "fancy_inv (db\<lparr>fz_orders := rs\<rparr>) = fancy_inv db" "fancy_inv (db\<lparr>fz_coin := c\<rparr>) = fancy_inv db"
  by (simp_all add: fancy_inv_def)

text \<open>Orders and money: nothing of the maps.\<close>

definition new_orders :: "fancy_db \<Rightarrow> fancy_db \<Rightarrow> bool" where
  "new_orders db db' \<longleftrightarrow> fz_identifiers db' = fz_identifiers db \<and> fz_numbers db' = fz_numbers db \<and> fz_leases db' = fz_leases db
     \<and> fz_users db' = fz_users db \<and> fz_campaigns db' = fz_campaigns db \<and> (\<exists>rs. fz_orders db' = fz_orders db @ rs)"

lemma new_orders_maps:
  assumes "new_orders db db'"
  shows "fancy_inv db' = fancy_inv db" "leases db' = leases db" "idents db' = idents db" "nums db' = nums db" "people db' = people db"
    "find_order k db = Some r \<Longrightarrow> find_order k db' = Some r"
proof -
  show maps: "leases db' = leases db" "idents db' = idents db" "nums db' = nums db" "people db' = people db"
    using assms by (simp_all add: new_orders_def view_defs [abs_def])
  show "fancy_inv db' = fancy_inv db" using assms unfolding fancy_inv_def maps by (simp add: new_orders_def keyed_def)
  show "find_order k db = Some r \<Longrightarrow> find_order k db' = Some r"
    using assms by (auto simp: new_orders_def find_order_def find_where_append)
qed

lemma new_orders_trans: "new_orders a b \<Longrightarrow> new_orders b c \<Longrightarrow> new_orders a c"
  by (auto simp: new_orders_def)

lemma new_orders_simps:
  "create_order r db = Inr db' \<Longrightarrow> new_orders db db'"
  "book_points e u p b k db = Inr db' \<Longrightarrow> new_orders db db'"
  "debit_points u p db = Inr (b, db') \<Longrightarrow> new_orders db db'"
  "charge_wallet u p db = Inr (b, db') \<Longrightarrow> new_orders db db'"
  "new_orders db db" "new_orders db (db\<lparr>fz_coin := c\<rparr>)"
proof -
  show a: "new_orders db db" for db by (simp add: new_orders_def)
  show c: "new_orders db (db\<lparr>fz_coin := c\<rparr>)" for db c by (simp add: new_orders_def)
  show "create_order r db = Inr db' \<Longrightarrow> new_orders db db'"
    by (auto simp: create_order_def new_orders_def split: if_splits)
  show "book_points e u p b k db = Inr db' \<Longrightarrow> new_orders db db'"
    using c by (auto simp: book_points_def split: sum.splits)
  show d: "debit_points u p db = Inr (b, db') \<Longrightarrow> new_orders db db'" for db
    using c by (auto simp: debit_points_def split: prod.splits if_splits option.splits)
  show "charge_wallet u p db = Inr (b, db') \<Longrightarrow> new_orders db db'"
    using c d new_orders_trans [OF c d] by (auto simp: charge_wallet_def Let_def split: if_splits option.splits)
qed

section \<open>Every transaction follows the protocol\<close>

lemma committed_snd: "snd (committed r db) = (case r of Inl _ \<Rightarrow> db | Inr (_, db') \<Rightarrow> db')"
  by (simp add: committed_def split: sum.split)

lemma evolves_committed: "fancy_inv db \<Longrightarrow> (\<And>a db'. r = Inr (a, db') \<Longrightarrow> fancy_evolves db db') \<Longrightarrow> fancy_evolves db (snd (committed r db))"
  by (auto simp: committed_snd fancy_run.evol_refl split: sum.split)

lemma lease_step_end: "due_lease now l \<Longrightarrow> lease_step l (l\<lparr>fl_endedAt := Some now\<rparr>)"
  using due_leaseD [of now l] by (auto simp: lease_step_def lease_active_def)

lemma ended_evolves:
  assumes "fancy_inv db'" "ended_lease now i l db db'" "leases db i = Some l" "due_lease now l"
  shows "fancy_evolves db db'"
  by (rule evolves_one [OF assms(1,3) lease_step_end [OF assms(4)]])
    (use assms(2) in \<open>auto simp: ended_lease_def find_order_def\<close>)

lemma evolves_expireLease:
  assumes "fancy_inv db"
  shows "fancy_evolves db (snd (committed (expireLease now i db) db))"
proof (cases "\<exists>l. leases db i = Some l \<and> due_lease now l")
  case True
  then obtain l where l: "leases db i = Some l" "due_lease now l" by blast
  obtain db' where "expireLease now i db = Inr (True, db')" "fancy_inv db'" "ended_lease now i l db db'"
    using expireLease_due [OF assms l] by blast
  then show ?thesis using ended_evolves l by (simp add: committed_snd)
next
  case False
  then show ?thesis using assms by (simp add: expireLease_not_due committed_snd fancy_run.evol_refl)
qed

lemma active_lease_Some:
  assumes "keyed db" "active_lease u db = Some l"
  shows "leases db (fl_id l) = Some l" "lease_active l" "fl_userID l = u"
  using assms lookup_in [of fl_id "fz_leases db" l]
  by (auto simp: active_lease_def lease_active_def leases_def find_lease_def keyed_def dest!: find_where_SomeD)

lemma active_lease_None:
  assumes "active_lease u db = None" "leases db i = Some l" "lease_active l"
  shows "fl_userID l \<noteq> u"
  using assms by (auto simp: active_lease_def lease_active_def leases_def find_lease_def find_where_None_iff dest!: find_where_SomeD)

lemma evolves_terms:
  assumes inv: "fancy_inv db" and l: "leases db i = Some l" "lease_active l"
    and l': "fl_id l' = fl_id l" "fl_userID l' = fl_userID l" "fl_numberID l' = fl_numberID l" "fl_startedAt l' = fl_startedAt l"
      "fl_restoreAccountId l' = fl_restoreAccountId l" "lease_active l'"
      "fl_permanentAt l' = None \<longleftrightarrow> fl_expiresAt l' \<noteq> None" "fl_permanentAt l = None"
    and n: "nums db (fl_numberID l) = Some n" and x: "people db (fl_userID l) = Some x"
    and n': "fn_id n' = fn_id n" "fn_value n' = fn_value n" "fn_status n' = (if fl_permanentAt l' = None then LEASED_N else PERMANENT_N)"
    and x': "uu_id x' = uu_id x" "uu_accountId x' = uu_accountId x" "uu_fancy x'" "uu_fancyExpiresAt x' = fl_expiresAt l'"
      "uu_fancyPermanent x' = (fl_permanentAt l' \<noteq> None)"
    and maps: "idents db' = idents db" "nums db' = (nums db)(fl_numberID l \<mapsto> n')" "leases db' = (leases db)(i \<mapsto> l')"
      "people db' = (people db)(fl_userID l \<mapsto> x')" "keyed db'" "fz_identifiers db' = fz_identifiers db" "fz_campaigns db' = fz_campaigns db"
    and orders: "\<And>k r. find_order k db = Some r \<Longrightarrow> find_order k db' = Some r"
  shows "fancy_evolves db db'"
proof -
  have "lease_step l l'" using l l' by (simp add: lease_step_def lease_active_def)
  moreover have "fancy_inv db'"
    unfolding fancy_inv_def maps
    using claims_terms [OF fancy_invD(3) [OF inv] l n x l'(1-3,5-7) _ n' x'] l'(8) maps(5-7) fancy_invD(2) [OF inv] by simp
  ultimately show ?thesis by (intro evolves_one [OF _ l(1) _ maps(3) orders])
qed


lemma evolves_convert:
  assumes inv: "fancy_inv db" and c: "convertActiveLeaseToPermanent now orderId u db = Inr (b, db')"
  shows "fancy_evolves db db'"
proof -
  note ok = fancy_invD(3) [OF inv] and k = fancy_invD(1) [OF inv]
  show ?thesis
  proof (cases "\<exists>l t. active_lease u db = Some l \<and> fl_permanentAt l = None \<and> fl_expiresAt l = Some t")
    case False
    then have "db' = db" using c by (auto simp: convertActiveLeaseToPermanent_def split: option.splits)
    then show ?thesis using inv by (simp add: fancy_run.evol_refl)
  next
    case True
    then obtain l t where al: "active_lease u db = Some l" and terms: "fl_permanentAt l = None" "fl_expiresAt l = Some t" by blast
    note l = active_lease_Some [OF k al]
    show ?thesis
    proof (cases "t \<le> now")
      case True
      then have due: "due_lease now l" using terms l(2) by (simp add: due_lease_def lease_active_def)
      obtain d where "restoreExpiredLeaseInTransaction now l db = Inr d" "fancy_inv d" "ended_lease now (fl_id l) l db d"
        using expireLease_due [OF inv l(1) due] by blast
      then show ?thesis using c al terms True ended_evolves [OF _ _ l(1) due]
        by (auto simp: convertActiveLeaseToPermanent_def result_simps)
    next
      case False
      let ?g = "\<lambda>x. x\<lparr>fl_expiresAt := None, fl_permanentAt := Some now\<rparr>"
        and ?h = "\<lambda>n. n\<lparr>fn_status := PERMANENT_N, fn_disabledAt := None\<rparr>"
        and ?j = "\<lambda>x. x\<lparr>uu_fancy := True, uu_fancyExpiresAt := None, uu_fancyPermanent := True\<rparr>"
        and ?hit = "\<lambda>x. fl_id x = fl_id l \<and> fl_endedAt x = None \<and> fl_permanentAt x = None
                   \<and> (case fl_expiresAt x of None \<Rightarrow> False | Some t \<Rightarrow> now < t)"
      obtain db2 db3 where one: "count_where ?hit (fz_leases db) = 1"
        and u2: "update_number (fl_numberID l) ?h (db\<lparr>fz_leases := update_where ?hit ?g (fz_leases db)\<rparr>) = Inr db2"
        and u3: "update_user u ?j db2 = Inr db3" and rest: "new_orders db3 db'"
        using c al terms False new_orders_simps(1,5)
        by (auto simp: convertActiveLeaseToPermanent_def convert_lease_def Let_def result_simps split: if_splits)
      let ?db1 = "db\<lparr>fz_leases := update_where ?hit ?g (fz_leases db)\<rparr>"
      obtain l0 where "leases db (fl_id l) = Some l0" "leases ?db1 = (leases db)(fl_id l \<mapsto> ?g l0)" "keyed ?db1"
        using update_leases_one [of db ?hit "fl_id l" ?g, OF k one _ _ refl] by auto
      then have m1: "leases ?db1 = (leases db)(fl_id l \<mapsto> ?g l)" and k1: "keyed ?db1" using l(1) by auto
      obtain n rows2 where m2: "nums db (fl_numberID l) = Some n" "db2 = ?db1\<lparr>fz_numbers := rows2\<rparr>"
          "nums db2 = (nums db)(fl_numberID l \<mapsto> ?h n)" "keyed db2"
        using update_number_effect [OF k1 u2] by auto
      obtain x rows3 where m3: "people db u = Some x" "db3 = db2\<lparr>fz_users := rows3\<rparr>" "people db3 = (people db)(u \<mapsto> ?j x)" "keyed db3"
        using update_user_effect [OF m2(4) u3] m2(2) by auto
      have "fancy_evolves db db3"
        by (rule evolves_terms [OF inv l(1,2), of "?g l" n x "?h n" "?j x"])
          (use l terms m1 m2 m3 in \<open>simp_all add: lease_active_def\<close>)
      then show ?thesis using new_orders_maps [OF rest] by (auto simp: fancy_evolves_def)
    qed
  qed
qed

lemma evolves_then_orders: "fancy_evolves db d \<Longrightarrow> new_orders d db' \<Longrightarrow> fancy_evolves db db'"
  using new_orders_maps [of d db'] by (auto simp: fancy_evolves_def)

lemma evolves_write_renewal:
  assumes inv: "fancy_inv db" and al: "active_lease u db = Some l" and terms: "fl_permanentAt l = None" "fl_expiresAt l = Some t"
    and w: "write_renewal e l n old months key db = Inr (r, db')"
  shows "fancy_evolves db db'"
proof -
  note ok = fancy_invD(3) [OF inv] and k = fancy_invD(1) [OF inv]
  note l = active_lease_Some [OF k al]
  obtain c b db1 db2 db3 db4 until where d1: "debit_points u (months * FANCY_NUMBER_UNIT_PRICE) (db\<lparr>fz_coin := c\<rparr>) = Inr (b, db1)"
    and u2: "update_lease (fl_id l) (\<lambda>x. x\<lparr>fl_expiresAt := Some until\<rparr>) db1 = Inr db2"
    and u3: "update_user u (\<lambda>x. x\<lparr>uu_fancyExpiresAt := Some until\<rparr>) db2 = Inr db3" and o4: "new_orders db3 db4" "new_orders db4 db'"
    using w l(3) by (auto simp: write_renewal_def Let_def result_simps dest!: new_orders_simps(1,2))
  let ?t = "Some until"
  note rest = new_orders_trans [OF o4]
  have o1: "new_orders db db1" using new_orders_trans [OF new_orders_simps(6) new_orders_simps(3) [OF d1]] .
  note m1 = new_orders_maps [OF o1]
  have inv1: "fancy_inv db1" using m1 inv by simp
  have k1: "keyed db1" by (rule fancy_invD(1) [OF inv1])
  have l1: "leases db1 (fl_id l) = Some l" using m1 l(1) by simp
  let ?g = "\<lambda>x. x\<lparr>fl_expiresAt := ?t\<rparr>" and ?p = "\<lambda>x. fl_id x = fl_id l"
  have d: "distinct (map fl_id (fz_leases db1))" using k1 by (simp add: keyed_def)
  have "count_where ?p (fz_leases db1) = 1"
    using count_where_key [where k = fl_id and x = "fl_id l" and p = ?p, OF d] l1 by (simp add: leases_def find_lease_def)
  then obtain l0 where "leases db1 (fl_id l) = Some l0" "leases (db1\<lparr>fz_leases := update_where ?p ?g (fz_leases db1)\<rparr>) = (leases db1)(fl_id l \<mapsto> ?g l0)"
      "keyed (db1\<lparr>fz_leases := update_where ?p ?g (fz_leases db1)\<rparr>)"
    using update_leases_one [of db1 ?p "fl_id l" ?g, OF k1 _ _ _ refl] by auto
  then have m2: "db2 = db1\<lparr>fz_leases := update_where ?p ?g (fz_leases db1)\<rparr>" "leases db2 = (leases db1)(fl_id l \<mapsto> ?g l)" "keyed db2"
    using u2 l1 by (auto simp: update_lease_def Let_def split: if_splits)
  obtain x rows where m3: "people db1 u = Some x" "db3 = db2\<lparr>fz_users := rows\<rparr>"
      "people db3 = (people db1)(u \<mapsto> x\<lparr>uu_fancyExpiresAt := ?t\<rparr>)" "keyed db3"
    using update_user_effect [OF m2(3) u3] m2(1) by auto
  have fits: "lease_fits (idents db1) (nums db1) (people db1) l" by (rule claims_lease(2) [OF fancy_invD(3) [OF inv1] l1 l(2)])
  then obtain n0 where n0: "nums db1 (fl_numberID l) = Some n0" "fn_status n0 = LEASED_N" "uu_fancy x" "\<not> uu_fancyPermanent x"
    using terms m3(1) l(3) unfolding lease_fits_def by auto
  have "fancy_evolves db1 db3"
    by (rule evolves_terms [OF inv1 l1 l(2), of "?g l" n0 x n0 "x\<lparr>uu_fancyExpiresAt := ?t\<rparr>"])
      (use l terms m2 m3 n0 in \<open>simp_all add: lease_active_def fun_upd_idem\<close>)
  then have "fancy_evolves db1 db'" by (rule evolves_then_orders [OF _ rest])
  then show ?thesis using m1 by (auto simp: fancy_evolves_def)
qed

lemma evolves_renew_tx:
  assumes "fancy_inv db" "renew_tx e u months key quote db = Inr (r, db')"
  shows "fancy_evolves db db'"
  using assms evolves_write_renewal [OF assms(1)]
  by (auto simp: renew_tx_def fancy_run.evol_refl split: option.splits if_splits)


section \<open>Purchase and exchange\<close>

lemma create_identifier_evolves:
  assumes inv: "fancy_inv db" and c: "create_identifier v db = Inr db'"
  shows "fancy_evolves db db' \<and> idents db' = (idents db)(v \<mapsto> \<lparr>ai_value = v, ai_current = None, ai_reserved = None, ai_invite = None\<rparr>)
    \<and> idents db v = None \<and> nums db' = nums db \<and> leases db' = leases db \<and> people db' = people db
    \<and> fz_orders db' = fz_orders db \<and> fz_coin db' = fz_coin db \<and> fz_numbers db' = fz_numbers db"
proof -
  let ?a = "\<lparr>ai_value = v, ai_current = None, ai_reserved = None, ai_invite = None\<rparr>"
  have none: "idents db v = None" and db': "db' = db\<lparr>fz_identifiers := fz_identifiers db @ [?a]\<rparr>"
    using c by (auto simp: create_identifier_def idents_def split: if_splits)
  have free: "find_where (\<lambda>r. ai_value r = ai_value ?a) (fz_identifiers db) = None" using none by (simp add: idents_def find_identifier_def)
  have maps: "idents db' = (idents db)(v \<mapsto> ?a)"
    using lookup_snoc [where k = ai_value, OF free] by (simp add: db' idents_def [abs_def] find_identifier_def)
  have "keyed db'" using fancy_invD(1) [OF inv] distinct_snoc [where k = ai_value, OF _ free] by (simp add: keyed_def db')
  moreover have "sound_rows (fz_campaigns db') (fz_identifiers db')"
    using fancy_invD(2) [OF inv] by (simp add: db' sound_rows_def unique_column_def List.map_filter_def claimed_identifier_def)
  moreover have "fn_value n \<noteq> v" if "nums db i = Some n" for i n using claims_number(2) [OF fancy_invD(3) [OF inv] that] none by auto
  then have "claims_ok (idents db') (nums db) (leases db) (people db)"
    unfolding maps by (intro claims_ident_row [OF fancy_invD(3) [OF inv]]) (simp_all add: none)
  ultimately have "fancy_inv db'" by (simp add: fancy_inv_def db')
  then show ?thesis using none maps by (auto simp: db' intro: evolves_same)
qed

lemma create_number_evolves:
  assumes inv: "fancy_inv db" and c: "create_number n db = Inr db'" and st: "fn_status n = AVAILABLE_N"
    and a: "idents db (fn_value n) = Some a" "\<not> claimed_identifier a"
  shows "fancy_evolves db db' \<and> nums db' = (nums db)(fn_id n \<mapsto> n) \<and> idents db' = idents db \<and> leases db' = leases db \<and> people db' = people db
    \<and> fz_orders db' = fz_orders db \<and> fz_coin db' = fz_coin db"
proof -
  note k = fancy_invD(1) [OF inv]
  have none: "number_of_value (fn_value n) db = None" "nums db (fn_id n) = None" and db': "db' = db\<lparr>fz_numbers := fz_numbers db @ [n]\<rparr>"
    using c by (auto simp: create_number_def nums_def split: if_splits)
  have free: "find_where (\<lambda>r. fn_id r = fn_id n) (fz_numbers db) = None" using none by (simp add: nums_def find_number_def)
  have maps: "nums db' = (nums db)(fn_id n \<mapsto> n)"
    using lookup_snoc [where k = fn_id, OF free] by (simp add: db' nums_def [abs_def] find_number_def)
  have "keyed db'" using k distinct_snoc [where k = fn_id, OF _ free] by (simp add: keyed_def db')
  moreover have "claims_ok (idents db) (nums db') (leases db) (people db)"
    unfolding maps using none number_of_value_None [OF k] by (intro claims_new_number [OF fancy_invD(3) [OF inv] a _ refl st]) auto
  ultimately have "fancy_inv db'" using fancy_invD(2) [OF inv] by (simp add: fancy_inv_def db')
  then show ?thesis using maps by (auto simp: db' intro: evolves_same)
qed

lemma unclaimed_target:
  assumes "\<not> hasAccountIdentifierClaim v db"
  shows "\<exists>b. idents db v = Some b \<and> \<not> claimed_identifier b"
  using assms by (auto simp: hasAccountIdentifierClaim_def idents_def split: option.splits)

lemma available_target_ok:
  assumes inv: "fancy_inv db" and t: "available_target e target u db = Inr (n, db1)"
  shows "fancy_evolves db db1 \<and> nums db1 (fn_id n) = Some n \<and> fn_status n = AVAILABLE_N
    \<and> (\<exists>b. idents db1 (fn_value n) = Some b \<and> \<not> claimed_identifier b)
    \<and> leases db1 = leases db \<and> people db1 = people db \<and> fz_orders db1 = fz_orders db \<and> fz_coin db1 = fz_coin db"
proof -
  note k = fancy_invD(1) [OF inv]
  have r: "resolvePurchasableTarget e target u db = Inr (Some n, db1)" and st: "fn_status n = AVAILABLE_N"
    using t by (auto simp: available_target_def result_simps split: option.splits if_splits)
  consider (Held) "db1 = db" "nums db (fn_id n) = Some n" "\<not> hasAccountIdentifierClaim (fn_value n) db"
    | (New) d where "create_identifier (fn_value n) db = Inr d" "create_number n d = Inr db1"
  proof (cases target)
    case (Inventory i)
    then show ?thesis using r nums_id [of db i n] that(1)
      by (auto simp: resolvePurchasableTarget_def nums_def split: option.splits if_splits)
  next
    case (Custom v)
    show ?thesis
    proof (cases "number_of_value v db")
      case (Some m)
      then have "db1 = db" "m = n" "\<not> hasAccountIdentifierClaim (fn_value n) db"
        using r Custom by (auto simp: resolvePurchasableTarget_def split: if_splits)
      then show ?thesis using that(1) number_of_value_Some [OF k Some] by simp
    next
      case None
      define n0 where "n0 = \<lparr>fn_id = fe_numberId e, fn_value = v, fn_status = AVAILABLE_N, fn_source = CUSTOM_SOURCE,
        fn_recommended = False, fn_sortOrder = 0, fn_createdBy = Some u, fn_disabledAt = None\<rparr>"
      define res where "res = bind_res (create_identifier v db) (create_number n0)"
      have "find_identifier v db = None" using r Custom None by (auto simp: resolvePurchasableTarget_def split: if_splits)
      then have *: "(case res of Inl UniqueViolation \<Rightarrow> Inl NotAvailable | Inl err \<Rightarrow> Inl err | Inr db1 \<Rightarrow> Inr (Some n0, db1)) = Inr (Some n, db1)"
        using r Custom None by (simp add: resolvePurchasableTarget_def n0_def [symmetric] res_def [symmetric])
      obtain d where "res = Inr d"
      proof (cases res)
        case (Inl err)
        then show ?thesis using * by (cases err) simp_all
      qed
      then have "res = Inr db1" "n = n0" using * by simp_all
      then show ?thesis using that(2) by (auto simp: res_def n0_def result_simps)
    qed
  qed
  then show ?thesis
  proof cases
    case Held
    then show ?thesis using st inv unclaimed_target [OF Held(3)] by (simp add: fancy_run.evol_refl)
  next
    case New
    note c = create_identifier_evolves [OF inv New(1)]
    have inv1: "fancy_inv d" using c fancy_run.evol_inv by blast
    have a: "idents d (fn_value n) = Some \<lparr>ai_value = fn_value n, ai_current = None, ai_reserved = None, ai_invite = None\<rparr>" using c by simp
    note m = create_number_evolves [OF inv1 New(2) st a]
    have m': "fancy_evolves d db1" "nums db1 = (nums d)(fn_id n \<mapsto> n)" "idents db1 = idents d" "leases db1 = leases d" "people db1 = people d"
        "fz_orders db1 = fz_orders d" "fz_coin db1 = fz_coin d" using m by (simp_all add: claimed_identifier_def)
    show ?thesis using c m' st a fancy_run.evol_trans by (auto simp: claimed_identifier_def)
  qed
qed


lemma create_lease_effect:
  assumes k: "keyed db" and c: "create_lease l db = Inr db'"
  shows "db' = db\<lparr>fz_leases := fz_leases db @ [l]\<rparr>" "leases db (fl_id l) = None" "leases db' = (leases db)(fl_id l \<mapsto> l)" "keyed db'"
proof -
  have ok: "leases_ok (fz_leases db @ [l])" and db': "db' = db\<lparr>fz_leases := fz_leases db @ [l]\<rparr>"
    using c by (auto simp: create_lease_def split: if_splits)
  have "fl_id l \<notin> fl_id ` set (fz_leases db)" using ok by (simp add: leases_ok_def)
  then have free: "find_where (\<lambda>r. fl_id r = fl_id l) (fz_leases db) = None" unfolding find_where_None_iff by (metis imageI)
  show "db' = db\<lparr>fz_leases := fz_leases db @ [l]\<rparr>" by (rule db')
  show "leases db (fl_id l) = None" using free by (simp add: leases_def find_lease_def)
  show "leases db' = (leases db)(fl_id l \<mapsto> l)"
    using lookup_snoc [where k = fl_id, OF free] by (simp add: db' leases_def [abs_def] find_lease_def)
  show "keyed db'" using k distinct_snoc [where k = fl_id, OF _ free] by (simp add: keyed_def db')
qed

lemma guard_Inr_iff: "(if c then Inl e else k) = Inr b \<longleftrightarrow> \<not> c \<and> k = Inr b"
  by simp

lemma map_sum_Inr_iff: "map_sum id f r = Inr t \<longleftrightarrow> (\<exists>x. r = Inr x \<and> t = f x)"
  by (cases r) auto

lemma lease_end_None: "lease_end now months = Inr t \<Longrightarrow> t = None \<longleftrightarrow> months = None"
  by (auto simp: lease_end_def map_sum_Inr_iff split: option.splits)

text \<open>The statements of a purchase and of an exchange, one after the other.\<close>

lemma write_purchase_parts:
  assumes "write_purchase e x target n months key db = Inr (res, db')"
  obtains db1 db2 db3 db4 db5 db6 db7 balance t where
    "claim_number n (if months = None then PERMANENT_N else LEASED_N) db = Inr db1"
    "reserve_original (uu_id x) (uu_accountId x) db1 = Inr db2"
    "assign_identifier (uu_id x) (fn_value n) db2 = Inr (1, db3)"
    "charge_wallet (uu_id x) (months_price months) db3 = Inr (balance, db4)"
    "lease_end (fe_now e) months = Inr t" "create_lease (purchased_lease e x n months t) db4 = Inr db5"
    "update_account (uu_id x) (fn_value n) (\<lambda>y. y\<lparr>uu_fancy := True, uu_fancyExpiresAt := t,
        uu_fancyPermanent := (months = None)\<rparr>) db5 = Inr db6"
    "create_order (purchase_order e x target n months t key balance) db6 = Inr db7"
    "(if 0 < months_price months then book_points e (uu_id x) (months_price months) balance key db7 else Inr db7) = Inr db'"
    "res = order_result (purchase_order e x target n months t key balance) (displayTargetValue (fn_value n) target) (months = None)"
  using assms unfolding write_purchase_def Let_def bind_res_Inr_iff split_paired_Ex prod.case guard_Inr_iff by blast

lemma write_switch_parts:
  assumes "write_switch e l old target n key db = Inr (res, db')"
  obtains db1 db2 db3 db4 db5 db6 db7 db8 balance where
    "charge_wallet (fl_userID l) FANCY_NUMBER_UNIT_PRICE db = Inr (balance, db1)"
    "claim_number n PERMANENT_N db1 = Inr db2"
    "update_identifiers (\<lambda>a. ai_value a = old \<and> ai_current a = Some (fl_userID l)) (\<lambda>a. a\<lparr>ai_current := None\<rparr>) db2 = Inr (1, db3)"
    "assign_identifier (fl_userID l) (fn_value n) db3 = Inr (1, db4)"
    "releaseFancyNumberInventory (fl_numberID l) old PERMANENT_N (fe_now e) db4 = Inr db5"
    "update_lease (fl_id l) (\<lambda>x. x\<lparr>fl_numberID := fn_id n\<rparr>) db5 = Inr db6"
    "update_account (fl_userID l) (fn_value n) (\<lambda>y. y\<lparr>uu_fancy := True, uu_fancyExpiresAt := None, uu_fancyPermanent := True\<rparr>) db6 = Inr db7"
    "create_order (switch_order e l target n key balance) db7 = Inr db8"
    "book_points e (fl_userID l) FANCY_NUMBER_UNIT_PRICE balance key db8 = Inr db'"
    "res = order_result (switch_order e l target n key balance) (displayTargetValue (fn_value n) target) True"
  using assms unfolding write_switch_def Let_def bind_res_Inr_iff split_paired_Ex prod.case guard_Inr_iff de_Morgan_disj not_not
  by blast

text \<open>The claim of an available number, the reservation of the old account id and the assignment of the new one, on the maps.\<close>

lemma claim_number_effect:
  assumes k: "keyed db" and n: "nums db (fn_id n) = Some n" and c: "claim_number n st db = Inr db'"
  shows "\<exists>rows n'. db' = db\<lparr>fz_numbers := rows\<rparr> \<and> nums db' = (nums db)(fn_id n \<mapsto> n') \<and> keyed db'
    \<and> fn_id n' = fn_id n \<and> fn_value n' = fn_value n \<and> fn_status n' = st"
proof -
  let ?f = "\<lambda>m. m\<lparr>fn_status := st, fn_disabledAt := None\<rparr>"
  have u: "update_numbers (\<lambda>m. fn_id m = fn_id n \<and> fn_status m = AVAILABLE_N) ?f db = (1, db')"
    using c by (auto simp: claim_number_def split: prod.splits if_splits)
  obtain m rows where "nums db (fn_id n) = Some m" "db' = db\<lparr>fz_numbers := rows\<rparr>" "nums db' = (nums db)(fn_id n \<mapsto> ?f m)" "keyed db'"
    using update_numbers_one [OF k u, of "fn_id n"] by auto
  then show ?thesis using n by (intro exI [of _ rows] exI [of _ "?f n"]) simp
qed

lemma assign_identifier_effect:
  assumes k: "keyed db" "sound_rows (fz_campaigns db) (fz_identifiers db)" and c: "assign_identifier u v db = Inr (1, db')"
  shows "\<exists>rows b. db' = db\<lparr>fz_identifiers := rows\<rparr> \<and> idents db v = Some b \<and> \<not> claimed_identifier b
    \<and> idents db' = (idents db)(v \<mapsto> b\<lparr>ai_current := Some u\<rparr>) \<and> keyed db' \<and> sound_rows (fz_campaigns db) rows"
proof -
  note c = c [unfolded assign_identifier_def]
  obtain b rows where "idents db v = Some b" "ai_value b = v \<and> \<not> claimed_identifier b" "db' = db\<lparr>fz_identifiers := rows\<rparr>"
      "idents db' = (idents db)(v \<mapsto> b\<lparr>ai_current := Some u\<rparr>)" "keyed db'"
    using update_identifiers_one [OF k(1) c, of v] by auto
  then show ?thesis using update_identifiers_sound [OF c k(2)] by auto
qed

lemma write_purchase_evolves:
  assumes inv: "fancy_inv db" and x: "people db (uu_id x) = Some x" and free: "\<And>j m. leases db j = Some m \<Longrightarrow> lease_active m \<Longrightarrow> fl_userID m \<noteq> uu_id x"
    and n: "nums db (fn_id n) = Some n" "fn_status n = AVAILABLE_N" and w: "write_purchase e x target n months key db = Inr (res, db')"
  shows "\<exists>t. lease_end (fe_now e) months = Inr t \<and> fancy_evolves db db' \<and> leases db' = (leases db)(fe_leaseId e \<mapsto> purchased_lease e x n months t)
    \<and> map_option uu_accountId (people db' (uu_id x)) = Some (fn_value n)
    \<and> map_option uu_active (people db' (uu_id x)) = Some (uu_active x)"
proof -
  note ok = fancy_invD(3) [OF inv] and k = fancy_invD(1) [OF inv]
  let ?u = "uu_id x" and ?o = "uu_accountId x" and ?v = "fn_value n"
  obtain db1 db2 db3 db4 db5 db6 db7 balance t where
    s1: "claim_number n (if months = None then PERMANENT_N else LEASED_N) db = Inr db1"
    and r2: "reserve_original ?u ?o db1 = Inr db2" and s3: "assign_identifier ?u ?v db2 = Inr (1, db3)"
    and s4: "charge_wallet ?u (months_price months) db3 = Inr (balance, db4)"
    and t: "lease_end (fe_now e) months = Inr t" and s5: "create_lease (purchased_lease e x n months t) db4 = Inr db5"
    and s6: "update_account ?u ?v (\<lambda>y. y\<lparr>uu_fancy := True, uu_fancyExpiresAt := t, uu_fancyPermanent := (months = None)\<rparr>) db5 = Inr db6"
    and s7: "create_order (purchase_order e x target n months t key balance) db6 = Inr db7"
    and s8: "(if 0 < months_price months then book_points e ?u (months_price months) balance key db7 else Inr db7) = Inr db'"
    by (rule write_purchase_parts [OF w])
  let ?l = "purchased_lease e x n months t"
  let ?f = "\<lambda>y. y\<lparr>uu_fancy := True, uu_fancyExpiresAt := t, uu_fancyPermanent := (months = None)\<rparr>"
  obtain ns n' where m1: "db1 = db\<lparr>fz_numbers := ns\<rparr>" "nums db1 = (nums db)(fn_id n \<mapsto> n')" "keyed db1"
      and n': "fn_id n' = fn_id n" "fn_value n' = ?v" "fn_status n' = (if months = None then PERMANENT_N else LEASED_N)"
    using claim_number_effect [OF k n(1) s1] by auto
  have r: "update_identifiers (\<lambda>a. ai_value a = ?o \<and> ai_current a = Some ?u \<and> ai_reserved a = None)
       (\<lambda>a. a\<lparr>ai_current := None, ai_reserved := Some ?u\<rparr>) db1 = Inr (1, db2)"
    using r2 by (auto simp: reserve_original_def result_simps split: if_splits)
  obtain a ids where a: "idents db ?o = Some a" "db2 = db1\<lparr>fz_identifiers := ids\<rparr>"
      "idents db2 = (idents db)(?o \<mapsto> a\<lparr>ai_current := None, ai_reserved := Some ?u\<rparr>)" "keyed db2"
    using update_identifiers_one [OF m1(3) r, of ?o] m1(1) by auto
  have s2: "sound_rows (fz_campaigns db2) (fz_identifiers db2)"
    by (rule update_identifiers_sound [OF r]) (simp add: m1(1) fancy_invD(2) [OF inv])
  obtain b0 ids3 where m3: "db3 = db2\<lparr>fz_identifiers := ids3\<rparr>" "idents db2 ?v = Some b0" "\<not> claimed_identifier b0"
      "idents db3 = (idents db2)(?v \<mapsto> b0\<lparr>ai_current := Some ?u\<rparr>)" "keyed db3" "sound_rows (fz_campaigns db2) ids3"
    using assign_identifier_effect [OF a(4) s2 s3] by auto
  have ov: "?o \<noteq> ?v" using m3(2,3) a(3) by (auto simp: claimed_identifier_def)
  then have b: "idents db ?v = Some b0" using m3(2) a(3) by simp
  have o4: "new_orders db3 db4" by (rule new_orders_simps(4) [OF s4])
  note m4 = new_orders_maps [OF o4]
  have k4: "keyed db4" using m3(5) o4 by (simp add: keyed_def new_orders_def)
  note m5 = create_lease_effect [OF k4 s5]
  have lid: "fl_id ?l = fe_leaseId e" "fl_userID ?l = ?u" "fl_numberID ?l = fn_id n" "lease_active ?l" "fl_restoreAccountId ?l = Some ?o"
      "fl_permanentAt ?l = None \<longleftrightarrow> fl_expiresAt ?l \<noteq> None" "fl_permanentAt ?l = None \<longleftrightarrow> months \<noteq> None"
    using lease_end_None [OF t] by (auto simp: purchased_lease_def lease_active_def)
  have L: "leases db (fe_leaseId e) = None" "leases db5 = (leases db)(fe_leaseId e \<mapsto> ?l)"
    using m5(2,3) m4 m3(1) a(2) m1(1) lid(1) by simp_all
  have start: "starting (idents db) (nums db) (leases db) (people db) (fe_leaseId e) ?l x n a b0"
    unfolding starting_def using ok x free n a(1) b L(1) lid by auto
  have I5: "idents db5 = taken (idents db) ?l x n a b0" using m5(1) m4 m3(4) a(3) lid by (simp add: taken_def)
  have P5: "people db5 = people db" and N5: "nums db5 = (nums db)(fn_id n \<mapsto> n')" using m5(1) m4 m3(1) a(2) m1 by simp_all
  have held: "idents db5 ?v = Some (b0\<lparr>ai_current := Some ?u\<rparr>)" "idents db5 ?o = Some (a\<lparr>ai_current := None, ai_reserved := Some ?u\<rparr>)"
    using ov by (simp_all add: I5 taken_def lid)
  have taken: "w = ?u" if "people db5 w = Some y" "uu_accountId y = ?v" for w y
    using claims_user(2) [OF ok, of w y] that P5 b m3(3) by (auto simp: claimed_identifier_def)
  have "\<exists>us. update_account ?u ?v ?f db5 = Inr (db5\<lparr>fz_users := us\<rparr>) \<and> people (db5\<lparr>fz_users := us\<rparr>) = (people db5)(?u \<mapsto> ?f x\<lparr>uu_accountId := ?v\<rparr>)
      \<and> keyed (db5\<lparr>fz_users := us\<rparr>)"
    by (rule update_account_held [OF m5(4) held(1) _ _ taken held(2)]) (use x P5 in \<open>simp_all add: claimed_identifier_def\<close>)
  then obtain us where m6: "db6 = db5\<lparr>fz_users := us\<rparr>" "people db6 = (people db)(?u \<mapsto> ?f x\<lparr>uu_accountId := ?v\<rparr>)" "keyed db6"
    using s6 P5 by auto
  have o8: "new_orders db6 db'"
    using new_orders_simps(1) [OF s7] s8 new_orders_trans new_orders_simps(2,5) by (auto split: if_splits)
  have maps6: "idents db6 = taken (idents db) ?l x n a b0" "nums db6 = (nums db)(fl_numberID ?l \<mapsto> n')"
      "leases db6 = (leases db)(fe_leaseId e \<mapsto> ?l)"
    by (simp_all add: m6(1) I5 N5 L(2) lid)
  have p6: "people db6 = (people db)(fl_userID ?l \<mapsto> ?f x\<lparr>uu_accountId := ?v\<rparr>)" using m6(2) lid by simp
  have "claims_ok (idents db6) (nums db6) (leases db6) (people db6)"
    unfolding maps6 p6 by (rule claims_start [OF start]) (simp_all add: n' purchased_lease_def)
  then have "fancy_inv db6" using m6 m5(1) o4 m3 a(2) m1(1) by (simp add: fancy_inv_def new_orders_def)
  moreover have "find_order q db = Some d \<Longrightarrow> find_order q db6 = Some d" for q d
    using m6(1) m5(1) m4(6) [of q d] m3(1) a(2) m1(1) by simp
  ultimately have "fancy_evolves db db6" using L m6(1) by (auto simp: fancy_evolves_def)
  then show ?thesis using evolves_then_orders [OF _ o8] new_orders_maps [OF o8] L m6 t by simp
qed

end
