(* ===== verification/FancyRuns.thy ===== *)
theory FancyRuns
  imports FancySteps
begin

text \<open>
  Fancy numbers: the requests as a whole. Every purchase, exchange, renewal, change of an account id, sweep and administrative
  change is one step of the protocol of \<open>FancySteps\<close>, with the requests of others between its statements.
\<close>

section \<open>Purchases\<close>

lemma evolves_purchase_tx:
  assumes inv: "fancy_inv db" and p: "purchase_tx e u target months key quote db = Inr (r, db')"
  shows "fancy_evolves db db'"
proof -
  note k = fancy_invD(1) [OF inv]
  obtain x where x: "find_fancy_user u db = Some x" using p by (auto simp: purchase_tx_def split: option.splits)
  then have ux: "uu_id x = u" by (auto simp: find_fancy_user_def dest: find_where_SomeD)
  show ?thesis
  proof (cases "find_order key db")
    case (Some o')
    then have "db' = db" using p x by (auto simp: purchase_tx_def split: option.splits if_splits)
    then show ?thesis using inv by (simp add: fancy_run.evol_refl)
  next
    case None
    then obtain n db1 m where al: "active_lease u db = None" and a: "available_target e target u db = Inr (n, db1)"
        and w: "write_purchase e x target n m key db1 = Inr (r, db')"
      using p x by (auto simp: purchase_tx_def Let_def result_simps split: if_splits)
    note t = available_target_ok [OF inv a]
    have inv1: "fancy_inv db1" using t fancy_run.evol_inv by blast
    have free: "fl_userID m \<noteq> uu_id x" if "leases db1 j = Some m" "lease_active m" for j m
      using that t active_lease_None [OF al] ux by auto
    have xx: "people db1 (uu_id x) = Some x" using t x ux by (simp add: people_def)
    have "fancy_evolves db1 db'" using write_purchase_evolves [OF inv1 xx _ _ _ w] free t by blast
    then show ?thesis using t fancy_run.evol_trans by blast
  qed
qed

lemma evolves_expireOverdue:
  assumes inv: "fancy_inv db" and rely: "relies fancy_evolves fancy_inv others"
  shows "fancy_evolves db (snd (expireOverdueLeaseForUser others k now u db))"
proof -
  have 1: "fancy_evolves db (others k db)" by (rule fancy_run.rely_first [OF rely inv])
  have 2: "fancy_evolves db (others (Suc k) (others k db))" by (rule fancy_run.rely_step [OF rely 1])
  show ?thesis using 1 fancy_run.evol_then [OF 2 evolves_expireLease]
    by (simp add: expireOverdueLeaseForUser_def Let_def split: option.split)
qed

lemma evolves_purchaseTarget:
  assumes inv: "fancy_inv db" and rely: "relies fancy_evolves fancy_inv others"
  shows "fancy_evolves db (snd (purchaseTarget others e u target months clientKey quote db))"
proof -
  obtain r d where d: "expireOverdueLeaseForUser others 0 (fe_now e) u db = (r, d)" by fastforce
  have 1: "fancy_evolves db d" using evolves_expireOverdue [OF inv rely, of 0 "fe_now e" u] by (simp add: d)
  have 2: "fancy_evolves db (others 2 d)" by (rule fancy_run.rely_step [OF rely 1])
  have 3: "fancy_evolves db (snd (committed (purchase_tx e u target months key quote (others 2 d)) (others 2 d)))" for key
    using evolves_purchase_tx by (blast intro: fancy_run.evol_then [OF 2 evolves_committed])
  show ?thesis using 1 3 inv by (auto simp: purchaseTarget_def d Let_def fancy_run.evol_refl split: sum.split)
qed


section \<open>Exchanges\<close>

lemma update_lease_effect:
  assumes k: "keyed db" and l: "leases db i = Some l" and u: "update_lease i f db = Inr db'" and f: "\<And>x. fl_id (f x) = fl_id x"
  shows "db' = db\<lparr>fz_leases := update_where (\<lambda>x. fl_id x = i) f (fz_leases db)\<rparr> \<and> leases db' = (leases db)(i \<mapsto> f l) \<and> keyed db'"
proof -
  let ?p = "\<lambda>x. fl_id x = i"
  have db': "db' = db\<lparr>fz_leases := update_where ?p f (fz_leases db)\<rparr>" using u by (auto simp: update_lease_def Let_def split: if_splits)
  have d: "distinct (map fl_id (fz_leases db))" using k by (simp add: keyed_def)
  have one: "count_where ?p (fz_leases db) = 1"
    using count_where_key [where k = fl_id and x = i and p = ?p, OF d] l
    by (auto simp: leases_def find_lease_def dest: find_where_SomeD)
  show ?thesis using update_leases_one [OF k one _ f db', of i] l by (auto simp: db')
qed

lemma write_switch_evolves:
  assumes inv: "fancy_inv db" and l: "leases db (fl_id l) = Some l" "lease_active l" "fl_permanentAt l \<noteq> None"
    and x: "people db (fl_userID l) = Some x" and n: "nums db (fl_numberID l) = Some n" and acc: "uu_accountId x = fn_value n"
    and m: "nums db (fn_id m) = Some m" "fn_status m = AVAILABLE_N" and w: "write_switch e l (fn_value n) target m key db = Inr (res, db')"
  shows "fancy_evolves db db'"
proof -
  let ?u = "fl_userID l" and ?o = "fn_value n" and ?v = "fn_value m" and ?l = "l\<lparr>fl_numberID := fn_id m\<rparr>"
  let ?f = "\<lambda>y. y\<lparr>uu_fancy := True, uu_fancyExpiresAt := None, uu_fancyPermanent := True\<rparr>"
  obtain db1 db2 db3 db4 db5 db6 db7 db8 balance where
    s1: "charge_wallet ?u FANCY_NUMBER_UNIT_PRICE db = Inr (balance, db1)" and s2: "claim_number m PERMANENT_N db1 = Inr db2"
    and s3: "update_identifiers (\<lambda>a. ai_value a = ?o \<and> ai_current a = Some ?u) (\<lambda>a. a\<lparr>ai_current := None\<rparr>) db2 = Inr (1, db3)"
    and s4: "assign_identifier ?u ?v db3 = Inr (1, db4)"
    and s5: "releaseFancyNumberInventory (fl_numberID l) ?o PERMANENT_N (fe_now e) db4 = Inr db5"
    and s6: "update_lease (fl_id l) (\<lambda>x. x\<lparr>fl_numberID := fn_id m\<rparr>) db5 = Inr db6"
    and s7: "update_account ?u ?v ?f db6 = Inr db7" and s8: "create_order (switch_order e l target m key balance) db7 = Inr db8"
    and s9: "book_points e ?u FANCY_NUMBER_UNIT_PRICE balance key db8 = Inr db'"
    by (rule write_switch_parts [OF w])
  have o1: "new_orders db db1" by (rule new_orders_simps(4) [OF s1])
  note q1 = new_orders_maps [OF o1]
  have inv1: "fancy_inv db1" using q1 inv by simp
  have k1: "keyed db1" and ok: "claims_ok (idents db1) (nums db1) (leases db1) (people db1)"
    using fancy_invD [OF inv1] by blast+
  have m1: "nums db1 (fn_id m) = Some m" using m q1 by simp
  obtain ns m' where m2: "db2 = db1\<lparr>fz_numbers := ns\<rparr>" "nums db2 = (nums db1)(fn_id m \<mapsto> m')" "keyed db2"
      and m': "fn_id m' = fn_id m" "fn_value m' = ?v" "fn_status m' = PERMANENT_N"
    using claim_number_effect [OF k1 m1 s2] by auto
  obtain a ids where a: "idents db1 ?o = Some a" "db3 = db2\<lparr>fz_identifiers := ids\<rparr>"
      "idents db3 = (idents db1)(?o \<mapsto> a\<lparr>ai_current := None\<rparr>)" "keyed db3"
    using update_identifiers_one [OF m2(3) s3, of ?o] m2(1) by auto
  have snd3: "sound_rows (fz_campaigns db3) (fz_identifiers db3)"
    by (rule update_identifiers_sound [OF s3]) (simp add: m2(1) fancy_invD(2) [OF inv1])
  obtain b ids4 where b4: "db4 = db3\<lparr>fz_identifiers := ids4\<rparr>" "idents db3 ?v = Some b"
      "idents db4 = (idents db3)(?v \<mapsto> b\<lparr>ai_current := Some ?u\<rparr>)" "keyed db4" "sound_rows (fz_campaigns db3) ids4"
    using assign_identifier_effect [OF a(4) snd3 s4] by auto
  obtain b0 where b0: "idents db1 ?v = Some b0" "\<not> claimed_identifier b0" using claims_number(2) [OF ok m1] m by auto
  have cur: "ai_current a = Some ?u" using claims_user(2) [OF ok, of ?u x] x q1 acc a(1) by auto
  have ov: "?o \<noteq> ?v" using b0 a(1) cur by (auto simp: claimed_identifier_def)
  have b: "idents db1 ?v = Some b" using b4(2) a(3) ov by simp
  have ex: "exchanging (idents db1) (nums db1) (leases db1) (people db1) (fl_id l) l x n m a b"
    unfolding exchanging_def using ok l x n m a(1) b q1 by simp
  note f = exchanging_facts [OF ex]
  have N4: "nums db4 = (nums db1)(fn_id m \<mapsto> m')" and L4: "leases db4 = leases db1" and P4: "people db4 = people db1"
    using b4(1) a(2) m2 by simp_all
  have I4: "idents db4 = moved (idents db1) ?u n m a b" using b4(3) a(3) by (simp add: moved_def)
  have held: "idents db4 ?o = Some (a\<lparr>ai_current := None\<rparr>)" "idents db4 ?v = Some (b\<lparr>ai_current := Some ?u\<rparr>)"
    using ov by (simp_all add: I4 moved_def)
  have n4: "nums db4 (fl_numberID l) = Some n" using N4 n q1 f(8) by simp
  obtain ns5 n' where n5: "db5 = db4\<lparr>fz_numbers := ns5\<rparr>" "nums db5 = (nums db4)(fl_numberID l \<mapsto> n')" "keyed db5"
      and n': "fn_id n' = fn_id n" "fn_value n' = ?o" "fn_status n' = (if ai_reserved a \<noteq> None \<or> ai_invite a \<noteq> None then DISABLED_N else AVAILABLE_N)"
    using release_ok [OF b4(4) held(1) _ n4 f(10), of "fe_now e"] s5 by auto
  have l5: "leases db5 (fl_id l) = Some l" using n5(1) L4 q1 l by simp
  have e6: "db6 = db5\<lparr>fz_leases := update_where (\<lambda>x. fl_id x = fl_id l) (\<lambda>x. x\<lparr>fl_numberID := fn_id m\<rparr>) (fz_leases db5)\<rparr>
      \<and> leases db6 = (leases db5)(fl_id l \<mapsto> ?l) \<and> keyed db6"
    by (rule update_lease_effect [OF n5(3) l5 s6]) simp
  have I6: "idents db6 = idents db4" and N6: "nums db6 = (nums db1)(fn_id m \<mapsto> m', fl_numberID l \<mapsto> n')" and P6: "people db6 = people db1"
    using e6 n5 N4 P4 by simp_all
  have "leases db5 = leases db1" using n5(1) L4 by simp
  then have L6: "leases db6 = (leases db1)(fl_id l \<mapsto> ?l)" using e6 by metis
  have k6: "keyed db6" using e6 by blast
  have taken: "w = ?u" if "people db6 w = Some y" "uu_accountId y = ?v" for w y
    using claims_user(2) [OF ok, of w y] that P6 b0 by (auto simp: claimed_identifier_def)
  have holder: "number_of_value ?o db6 \<noteq> None"
    using number_of_value_None [of db6 ?o] e6 N6 n' by (metis fun_upd_same)
  have "\<exists>us. update_account ?u ?v ?f db6 = Inr (db6\<lparr>fz_users := us\<rparr>) \<and> people (db6\<lparr>fz_users := us\<rparr>) = (people db6)(?u \<mapsto> ?f x\<lparr>uu_accountId := ?v\<rparr>)
      \<and> keyed (db6\<lparr>fz_users := us\<rparr>)"
    by (rule update_account_held [OF k6 held(2) [folded I6] _ _ taken, where b = "a\<lparr>ai_current := None\<rparr>"])
      (use x P6 q1 I6 held acc holder in \<open>simp_all del: not_None_eq\<close>)
  then obtain us where m7: "db7 = db6\<lparr>fz_users := us\<rparr>" "people db7 = (people db1)(?u \<mapsto> ?f x\<lparr>uu_accountId := ?v\<rparr>)" "keyed db7"
    using s7 P6 by auto
  have maps: "idents db7 = moved (idents db1) ?u n m a b" "nums db7 = (nums db1)(fn_id m \<mapsto> m', fl_numberID l \<mapsto> n')"
      "leases db7 = (leases db1)(fl_id l \<mapsto> ?l)"
    using I6 I4 N6 L6 unfolding m7(1) by simp_all
  have "claims_ok (idents db7) (nums db7) (leases db7) (people db7)"
    unfolding maps m7(2) by (rule claims_exchange [OF ex]) (simp_all add: n' m')
  moreover have "sound_rows (fz_campaigns db7) (fz_identifiers db7)" using m7(1) e6 n5(1) b4 by simp
  ultimately have inv7: "fancy_inv db7" using m7(3) by (simp add: fancy_inv_def)
  have ord: "find_order q db1 = Some d \<Longrightarrow> find_order q db7 = Some d" for q d
    using m7(1) e6 n5(1) b4(1) a(2) m2(1) by simp
  have "fancy_evolves db1 db7"
    by (rule evolves_one [OF inv7 _ _ maps(3)]) (use l q1 ord in \<open>auto simp: lease_step_def lease_active_def\<close>)
  then have "fancy_evolves db1 db'"
    by (rule evolves_then_orders [OF _ new_orders_trans [OF new_orders_simps(1) [OF s8] new_orders_simps(2) [OF s9]]])
  then show ?thesis using q1 by (auto simp: fancy_evolves_def)
qed


lemma evolves_switch_tx:
  assumes inv: "fancy_inv db" and s: "switch_tx e u target key quote db = Inr (r, db')"
  shows "fancy_evolves db db'"
proof -
  obtain l where al: "active_lease u db = Some l" using s by (auto simp: switch_tx_def split: option.splits)
  note l = active_lease_Some [OF fancy_invD(1) [OF inv] al]
  obtain x n where x: "find_fancy_user u db = Some x" and n: "find_number (fl_numberID l) db = Some n"
    using s al by (auto simp: switch_tx_def split: option.splits)
  show ?thesis
  proof (cases "find_order key db")
    case (Some o')
    then have "db' = db" using s al x n by (auto simp: switch_tx_def split: option.splits if_splits)
    then show ?thesis using inv by (simp add: fancy_run.evol_refl)
  next
    case None
    obtain m db1 where perm: "fl_permanentAt l \<noteq> None" and acc: "uu_accountId x = fn_value n" and a: "available_target e target u db = Inr (m, db1)"
        and w: "write_switch e l (fn_value n) target m key db1 = Inr (r, db')"
      using s al x n None by (auto simp: switch_tx_def result_simps split: if_splits)
    note t = available_target_ok [OF inv a]
    have inv1: "fancy_inv db1" using t fancy_run.evol_inv by blast
    have "leases db1 (fl_id l) = Some l" "people db1 (fl_userID l) = Some x"
      using t l x by (simp_all add: people_def)
    moreover have "\<exists>n1. nums db1 (fl_numberID l) = Some n1 \<and> fn_value n1 = fn_value n"
      using claims_lease(2) [OF fancy_invD(3) [OF inv1], of "fl_id l" l] calculation l(2) acc by (auto simp: lease_fits_def)
    ultimately have "fancy_evolves db1 db'"
      using write_switch_evolves [OF inv1, of l x _ m e target key r db'] l(2) perm acc t w by auto
    then show ?thesis using t fancy_run.evol_trans by blast
  qed
qed

lemma evolves_handler:
  assumes inv: "fancy_inv db" and rely: "relies fancy_evolves fancy_inv others" and to: "fancy_evolves db d"
    and tx: "\<And>d a d'. fancy_inv d \<Longrightarrow> tx d = Inr (a, d') \<Longrightarrow> fancy_evolves d d'"
  shows "fancy_evolves db (snd (committed (tx (others k d)) (others k d)))"
  using tx by (blast intro: fancy_run.evol_then [OF fancy_run.rely_step [OF rely to] evolves_committed])

lemma evolves_switchPermanentTarget:
  assumes inv: "fancy_inv db" and rely: "relies fancy_evolves fancy_inv others"
  shows "fancy_evolves db (snd (switchPermanentTarget others e u target clientKey quote db))"
  using evolves_handler [OF inv rely fancy_run.evol_refl [OF inv] evolves_switch_tx] inv
  by (auto simp: switchPermanentTarget_def Let_def fancy_run.evol_refl split: sum.split)


section \<open>Renewals\<close>

lemma evolves_renew:
  assumes inv: "fancy_inv db" and rely: "relies fancy_evolves fancy_inv others"
  shows "fancy_evolves db (snd (renew others e u months clientKey quote db))"
proof -
  have 1: "fancy_evolves db (others 0 db)" by (rule fancy_run.rely_first [OF rely inv])
  obtain r d where d: "expireOverdueLeaseForUser others 1 (fe_now e) u (others 0 db) = (r, d)" by fastforce
  have 2: "fancy_evolves db d"
    using fancy_run.evol_then [OF 1 evolves_expireOverdue [OF _ rely]] by (metis d snd_conv)
  have 3: "fancy_evolves db (snd (committed (renew_tx e u months key quote (others 3 d)) (others 3 d)))" for key
    by (rule evolves_handler [OF inv rely 2]) (rule evolves_renew_tx)
  show ?thesis using 1 2 3 inv
    by (auto simp: renew_def d [simplified] Let_def fancy_run.evol_refl split: sum.split option.split bool.split)
qed


section \<open>The account id of a user\<close>

lemma evolves_end_read:
  assumes inv: "fancy_inv db" and rely: "relies fancy_evolves fancy_inv others"
  shows "fancy_evolves db (snd (committed (expireLease now i (others 1 (others 0 db))) (others 1 (others 0 db))))"
  by (rule fancy_run.evol_then [OF fancy_run.rely_step [OF rely fancy_run.rely_first [OF rely inv]] evolves_expireLease])

lemma evolves_getMine:
  assumes inv: "fancy_inv db" and rely: "relies fancy_evolves fancy_inv others"
  shows "fancy_evolves db (snd (getMine others now u db))"
  using fancy_run.rely_first [OF rely inv] evolves_end_read [OF inv rely, of now]
  by (auto simp: getMine_def Let_def split: option.split prod.split sum.split) (metis snd_conv)+

lemma evolves_ensureAccountIdChangeAllowed:
  assumes inv: "fancy_inv db" and rely: "relies fancy_evolves fancy_inv others"
  shows "fancy_evolves db (snd (ensureAccountIdChangeAllowed others now u db))"
  using fancy_run.rely_first [OF rely inv] evolves_end_read [OF inv rely, of now]
  by (auto simp: ensureAccountIdChangeAllowed_def Let_def split: option.split prod.split sum.split) (metis snd_conv)+


text \<open>The triggers around a change of the account id.\<close>

lemma update_identifiers_key:
  assumes k: "keyed db" "sound_rows (fz_campaigns db) (fz_identifiers db)" and a: "idents db v = Some a" "p a" and u: "update_identifiers p f db = Inr (n, db')"
    and p: "\<And>a. p a \<Longrightarrow> ai_value a = v" and f: "\<And>a. ai_value (f a) = ai_value a"
  shows "n = 1 \<and> (\<exists>rows. db' = db\<lparr>fz_identifiers := rows\<rparr> \<and> idents db' = (idents db)(v \<mapsto> f a) \<and> keyed db' \<and> sound_rows (fz_campaigns db) rows)"
proof -
  have d: "distinct (map ai_value (fz_identifiers db))" using k(1) by (simp add: keyed_def)
  have "count_where p (fz_identifiers db) = 1"
    using count_where_key [where k = ai_value and x = v and p = p, OF d p] a by (simp add: idents_def find_identifier_def)
  then have n: "n = 1" using u by (auto simp: update_identifiers_def Let_def split: if_splits)
  obtain b rows where "idents db v = Some b" "db' = db\<lparr>fz_identifiers := rows\<rparr>" "idents db' = (idents db)(v \<mapsto> f b)" "keyed db'"
    using update_identifiers_one [OF k(1) u [unfolded n] p f] by auto
  then show ?thesis using n a update_identifiers_sound [OF u k(2)] by auto
qed

lemma ensure_row:
  assumes inv: "fancy_inv db" and a_def: "a = (case idents db v of None \<Rightarrow> \<lparr>ai_value = v, ai_current = None, ai_reserved = None, ai_invite = None\<rparr> | Some a \<Rightarrow> a)"
  shows "\<exists>rows. ensure_identifier v db = db\<lparr>fz_identifiers := rows\<rparr> \<and> idents (db\<lparr>fz_identifiers := rows\<rparr>) = (idents db)(v \<mapsto> a)
    \<and> fancy_inv (db\<lparr>fz_identifiers := rows\<rparr>)"
proof (cases "idents db v")
  case None
  then obtain db' where c: "create_identifier v db = Inr db'" by (auto simp: create_identifier_def idents_def)
  have "\<exists>rows. db' = db\<lparr>fz_identifiers := rows\<rparr>" using c by (auto simp: create_identifier_def split: if_splits)
  then obtain rows where db': "db' = db\<lparr>fz_identifiers := rows\<rparr>" by blast
  note e = create_identifier_evolves [OF inv c]
  have "idents db' = (idents db)(v \<mapsto> a)" using e by (simp add: a_def None)
  moreover have "fancy_inv db'" using e fancy_run.evol_inv by blast
  ultimately show ?thesis using c by (intro exI [of _ rows]) (simp add: ensure_identifier_def db')
next
  case (Some b)
  then have "create_identifier v db = Inl UniqueViolation" by (simp add: create_identifier_def idents_def)
  then show ?thesis using Some inv by (intro exI [of _ "fz_identifiers db"]) (simp add: ensure_identifier_def a_def fun_upd_idem)
qed

lemma prepare_effect:
  assumes inv: "fancy_inv db" and old: "idents db old = Some a" "ai_current a = Some u" and v: "v \<noteq> old"
    and free: "\<And>b. idents db v = Some b \<Longrightarrow> ai_current b = None" and c: "account_identifier_prepare u old v db = Inr db'"
  shows "\<exists>rows b. db' = db\<lparr>fz_identifiers := rows\<rparr> \<and> idents db' = (idents db)(old \<mapsto> a\<lparr>ai_current := None\<rparr>, v \<mapsto> b\<lparr>ai_current := Some u\<rparr>)
    \<and> keyed db' \<and> sound_rows (fz_campaigns db) rows \<and> ai_value b = v \<and> (idents db v = Some b \<or> idents db v = None \<and> ai_reserved b = None)"
proof -
  let ?b = "case idents db v of None \<Rightarrow> \<lparr>ai_value = v, ai_current = None, ai_reserved = None, ai_invite = None\<rparr> | Some b \<Rightarrow> b"
  have b: "ai_current ?b = None" "ai_value ?b = v" "idents db v = Some ?b \<or> idents db v = None \<and> ai_reserved ?b = None"
    using free claims_ident(1) [OF fancy_invD(3) [OF inv], of v] by (auto split: option.split)
  obtain ids where e: "ensure_identifier v db = db\<lparr>fz_identifiers := ids\<rparr>" "idents (db\<lparr>fz_identifiers := ids\<rparr>) = (idents db)(v \<mapsto> ?b)"
      "fancy_inv (db\<lparr>fz_identifiers := ids\<rparr>)"
    using ensure_row [OF inv refl, of v] by auto
  have row: "(if find_identifier v db = None then db\<lparr>fz_identifiers := fz_identifiers db
      @ [\<lparr>ai_value = v, ai_current = None, ai_reserved = None, ai_invite = None\<rparr>]\<rparr> else db) = db\<lparr>fz_identifiers := ids\<rparr>"
    using e(1) by (simp add: ensure_identifier_def create_identifier_def split: if_splits)
  have "\<not> (case find_identifier v db of Some a \<Rightarrow> ai_current a = Some u | None \<Rightarrow> False)"
    using free by (auto simp: idents_def split: option.split)
  then obtain n db2 m where u1: "update_identifiers (\<lambda>a. ai_value a = old \<and> ai_current a = Some u) (\<lambda>a. a\<lparr>ai_current := None\<rparr>) (db\<lparr>fz_identifiers := ids\<rparr>) = Inr (n, db2)"
      and u2: "update_identifiers (\<lambda>a. ai_value a = v \<and> ai_current a = None) (\<lambda>a. a\<lparr>ai_current := Some u\<rparr>) db2 = Inr (m, db')"
    using c v unfolding account_identifier_prepare_def row by (auto simp: Let_def result_simps split: if_splits)
  have a: "idents (db\<lparr>fz_identifiers := ids\<rparr>) old = Some a" "ai_value a = old" using e(2) v old claims_ident(1) [OF fancy_invD(3) [OF inv] old(1)] by auto
  obtain ids2 where m2: "db2 = db\<lparr>fz_identifiers := ids2\<rparr>" "idents db2 = (idents (db\<lparr>fz_identifiers := ids\<rparr>))(old \<mapsto> a\<lparr>ai_current := None\<rparr>)" "keyed db2" "sound_rows (fz_campaigns db) ids2"
    using update_identifiers_key [OF fancy_invD(1,2) [OF e(3)] a(1) _ u1] a(2) old(2) by auto
  have bv: "idents db2 v = Some ?b" using m2(2) e(2) v by simp
  obtain ids3 where m3: "db' = db2\<lparr>fz_identifiers := ids3\<rparr>" "idents db' = (idents db2)(v \<mapsto> ?b\<lparr>ai_current := Some u\<rparr>)" "keyed db'" "sound_rows (fz_campaigns db) ids3"
    using update_identifiers_key [OF m2(3) _ bv _ u2] b m2(1,4) by auto
  have "idents db' = (idents db)(old \<mapsto> a\<lparr>ai_current := None\<rparr>, v \<mapsto> ?b\<lparr>ai_current := Some u\<rparr>)"
    unfolding m3(2) m2(2) e(2) using v by (auto simp: fun_upd_twist)
  then show ?thesis using m3 m2(1) b by (intro exI [of _ ids3] exI [of _ ?b]) simp
qed

lemma cleanup_effect:
  assumes k: "keyed db" and a: "idents db old = Some a" and inv: "sound_rows (fz_campaigns db) (fz_identifiers db)" and v: "v \<noteq> old"
    and c: "account_identifier_cleanup old v db = Inr db'"
  shows "\<exists>rows. db' = db\<lparr>fz_identifiers := rows\<rparr> \<and> keyed (db\<lparr>fz_identifiers := rows\<rparr>) \<and> sound_rows (fz_campaigns db) rows
    \<and> idents (db\<lparr>fz_identifiers := rows\<rparr>) = (idents db)(old := if \<not> claimed_identifier a \<and> number_of_value old db = None then None else Some a)"
proof -
  let ?p = "\<lambda>a. ai_value a = old \<and> \<not> claimed_identifier a \<and> number_of_value old db = None"
  have d: "distinct (map ai_value (fz_identifiers db))" using k by (simp add: keyed_def)
  have av: "ai_value a = old" using a by (auto simp: idents_def find_identifier_def dest: find_where_SomeD)
  have db': "db' = db\<lparr>fz_identifiers := delete_where ?p (fz_identifiers db)\<rparr>"
    using c v by (auto simp: account_identifier_cleanup_def Let_def split: if_splits)
  have "sound_rows (fz_campaigns db) (delete_where ?p (fz_identifiers db))"
    using inv unique_column_delete [of ai_invite "fz_identifiers db" ?p] by (auto simp: sound_rows_def delete_where_def)
  then show ?thesis
    using lookup_delete [where k = ai_value and p = ?p and x = old, OF d] distinct_delete [OF d, of ?p] k a av v
    by (intro exI [of _ "delete_where ?p (fz_identifiers db)"])
      (simp add: db' keyed_def idents_def [abs_def] find_identifier_def)
qed

lemma evolves_change_account_tx:
  assumes inv: "fancy_inv db" and c: "change_account_tx u v db = Inr (r, db')"
  shows "fancy_evolves db db'"
proof -
  note k = fancy_invD(1) [OF inv] and ok = fancy_invD(3) [OF inv]
  obtain x where al: "active_lease u db = None" and x: "people db u = Some x" and v: "v \<noteq> uu_accountId x"
      and taken: "\<not> identifier_taken u v db" and up: "update_account u v (\<lambda>y. y) db = Inr db'"
    using c by (auto simp: change_account_tx_def people_def result_simps split: option.splits if_splits)
  obtain a where a: "idents db (uu_accountId x) = Some a" "ai_current a = Some u" using claims_user(2) [OF ok x] by blast
  have free: "ai_current b = None \<and> ai_reserved b = None \<and> number_of_value v db = None" if b: "idents db v = Some b" for b
  proof -
    have "ai_current b \<noteq> Some u" using claims_ident(2) [OF ok b, of u] x v by auto
    then show ?thesis using taken b by (auto simp: identifier_taken_def idents_def)
  qed
  obtain db1 db2 where s1: "account_identifier_prepare u (uu_accountId x) v db = Inr db1" and s2: "update_user u (\<lambda>y. y\<lparr>uu_accountId := v\<rparr>) db1 = Inr db2"
      and s3: "account_identifier_cleanup (uu_accountId x) v db2 = Inr db'"
    using up x by (auto simp: update_account_def people_def result_simps split: if_splits)
  obtain ids b where m1: "db1 = db\<lparr>fz_identifiers := ids\<rparr>" "idents db1 = (idents db)(uu_accountId x \<mapsto> a\<lparr>ai_current := None\<rparr>, v \<mapsto> b\<lparr>ai_current := Some u\<rparr>)"
      "keyed db1" "sound_rows (fz_campaigns db) ids" "ai_value b = v" "idents db v = Some b \<or> idents db v = None \<and> ai_reserved b = None"
    using prepare_effect [OF inv a v _ s1] free by blast
  obtain x0 us where m2: "people db1 u = Some x0" "db2 = db1\<lparr>fz_users := us\<rparr>" "people db2 = (people db1)(u \<mapsto> x0\<lparr>uu_accountId := v\<rparr>)" "keyed db2"
    using update_user_effect [OF m1(3) s2] by auto
  have x0: "x0 = x" using m2(1) m1(1) x by simp
  have I2: "idents db2 = idents db1" using m2(2) by simp
  have o2: "idents db2 (uu_accountId x) = Some (a\<lparr>ai_current := None\<rparr>)" using I2 m1(2) v by simp
  have inv2: "sound_rows (fz_campaigns db2) (fz_identifiers db2)" using m2(2) m1(1,4) by simp
  let ?oa = "if \<not> claimed_identifier (a\<lparr>ai_current := None\<rparr>) \<and> number_of_value (uu_accountId x) db2 = None then None else Some (a\<lparr>ai_current := None\<rparr>)"
  obtain ids3 where m3: "db' = db2\<lparr>fz_identifiers := ids3\<rparr>" "keyed db'" "sound_rows (fz_campaigns db2) ids3"
      "idents db' = (idents db2)(uu_accountId x := ?oa)"
    using cleanup_effect [OF m2(4) o2 inv2 v s3] by auto
  have "people db' = people db2" using m3(1) by simp
  moreover have "people db1 = people db" "nums db' = nums db" "leases db' = leases db" by (simp_all add: m3(1) m2(2) m1(1))
  moreover have "idents db' = (idents db)(uu_accountId x := ?oa, v \<mapsto> b\<lparr>ai_current := Some u\<rparr>)"
    unfolding m3(4) I2 m1(2) using v by (auto simp: fun_upd_twist)
  ultimately have maps: "idents db' = (idents db)(uu_accountId x := ?oa, v \<mapsto> b\<lparr>ai_current := Some u\<rparr>)" "nums db' = nums db"
      "leases db' = leases db" "people db' = (people db)(u \<mapsto> x\<lparr>uu_accountId := v\<rparr>)"
    using m2(3) x0 by metis+
  have "claims_ok (idents db') (nums db') (leases db') (people db')" unfolding maps
  proof (rule claims_account [OF ok])
    show none: "fl_userID m \<noteq> u" if "leases db j = Some m" "lease_active m" for j m using active_lease_None [OF al that] .
    show "fn_value n \<noteq> v" if "nums db i = Some n" for i n
      using that free number_of_value_None [OF k, of v] claims_number(2) [OF ok that] by metis
    show "ai_current b = None \<and> ai_reserved b = None" if "idents db v = Some b" for b using free [OF that] by simp
    show "ai_value (b\<lparr>ai_current := Some u\<rparr>) = v" "ai_current (b\<lparr>ai_current := Some u\<rparr>) = Some u" "ai_reserved (b\<lparr>ai_current := Some u\<rparr>) = None"
      using m1(5,6) free by auto
    show "uu_id (x\<lparr>uu_accountId := v\<rparr>) = u" "uu_accountId (x\<lparr>uu_accountId := v\<rparr>) = v" using claims_user(1) [OF ok x] by auto
    show "\<not> uu_fancy (x\<lparr>uu_accountId := v\<rparr>)" using claims_user(3) [OF ok x] none by auto
    show "uu_accountId y = uu_accountId x" if "people db u = Some y" for y using that x by simp
    show "uu_accountId x = v" if "people db u = None" using that x by simp
    show "ai_value c = uu_accountId x \<and> ai_current c = None \<and> ai_reserved c = None" if "?oa = Some c" for c
      using that claims_ident(1,3) [OF ok a(1)] a(2) by (cases "ai_reserved a") (auto split: if_splits)
  qed
  then have "fancy_inv db'" using m3 by (simp add: fancy_inv_def)
  then show ?thesis by (rule evolves_same) (simp_all add: m3(1) m2(2) m1(1))
qed

lemma evolves_changeAccountId:
  assumes inv: "fancy_inv db" and rely: "relies fancy_evolves fancy_inv others"
  shows "fancy_evolves db (snd (changeAccountId others now u accountId db))"
proof -
  obtain r d where d: "ensureAccountIdChangeAllowed others now u db = (r, d)" by fastforce
  have 1: "fancy_evolves db d" using evolves_ensureAccountIdChangeAllowed [OF inv rely, of now u] by (simp add: d)
  have 2: "fancy_evolves db (snd (committed (change_account_tx u v (others 2 d)) (others 2 d)))" for v
    by (rule evolves_handler [OF inv rely 1]) (rule evolves_change_account_tx)
  show ?thesis using 1 2 [of "js_lower (js_trim accountId)"] inv
    by (auto simp: changeAccountId_def d Let_def fancy_run.evol_refl split: sum.split prod.split)
qed



section \<open>New users\<close>

lemma not_occupied_for_new:
  assumes inv: "fancy_inv db" and f: "\<not> occupied_for_new v db"
  shows "idents db v = Some a \<Longrightarrow> \<not> claimed_identifier a" "nums db i = Some n \<Longrightarrow> fn_value n \<noteq> v"
proof -
  show "\<not> claimed_identifier a" if "idents db v = Some a" using that f by (simp add: occupied_for_new_def idents_def)
  show "fn_value n \<noteq> v" if n: "nums db i = Some n"
  proof
    assume v: "fn_value n = v"
    then obtain a where "idents db v = Some a" using claims_number(2) [OF fancy_invD(3) [OF inv] n] by auto
    then have "number_of_value v db = None" using f by (simp add: occupied_for_new_def idents_def)
    then show False using number_of_value_None [OF fancy_invD(1) [OF inv]] n v by blast
  qed
qed

lemma create_user_evolves:
  assumes inv: "fancy_inv db" and c: "create_user x w db = Inr db'" and plain: "\<not> uu_fancy x"
  shows "fancy_evolves db db'"
proof -
  let ?u = "uu_id x" and ?v = "uu_accountId x"
  let ?db1 = "ensure_identifier ?v db"
  define db2 where "db2 = (if w \<noteq> ?v then ensure_identifier w ?db1 else ?db1)"
  let ?db3 = "db2\<lparr>fz_users := fz_users db2 @ [x]\<rparr>"
  have ov: "\<not> occupied_for_new ?v db" and ow: "w \<noteq> ?v \<Longrightarrow> \<not> occupied_for_new w ?db1" and new: "find_fancy_user ?u db2 = None"
    using c by (auto simp: create_user_def Let_def db2_def split: if_splits)
  obtain ids1 where e1: "?db1 = db\<lparr>fz_identifiers := ids1\<rparr>" "fancy_inv ?db1"
      "idents ?db1 = (idents db)(?v \<mapsto> case idents db ?v of None \<Rightarrow> \<lparr>ai_value = ?v, ai_current = None, ai_reserved = None, ai_invite = None\<rparr> | Some a \<Rightarrow> a)"
    using ensure_row [OF inv refl, of ?v] by auto
  have f1: "\<exists>a. idents ?db1 ?v = Some a \<and> \<not> claimed_identifier a \<and> ai_value a = ?v"
    using not_occupied_for_new(1) [OF inv ov] claims_ident(1) [OF fancy_invD(3) [OF inv], of ?v] unfolding e1(3)
    by (auto simp: claimed_identifier_def split: option.split)
  have N1: "fn_value n \<noteq> ?v" if "nums ?db1 i = Some n" for i n using not_occupied_for_new(2) [OF inv ov] that by (simp add: e1(1))
  obtain ids2 where e2: "db2 = db\<lparr>fz_identifiers := ids2\<rparr>" "fancy_inv db2" "w \<noteq> ?v \<Longrightarrow> \<exists>b. idents db2 w = Some b"
      "idents db2 ?v = idents ?db1 ?v"
  proof (cases "w = ?v")
    case True
    then show ?thesis using that [of ids1] e1 by (simp add: db2_def)
  next
    case False
    then show ?thesis using ensure_row [OF e1(2) refl, of w] that e1(1) by (auto simp: db2_def)
  qed
  note k2 = fancy_invD(1) [OF e2(2)] and ok2 = fancy_invD(3) [OF e2(2)]
  have N2: "fn_value n \<noteq> ?v" "fn_value n \<noteq> w" if "nums db2 i = Some n" for i n
  proof -
    have n: "nums ?db1 i = Some n" using that by (simp add: e2(1) e1(1))
    show v: "fn_value n \<noteq> ?v" by (rule N1 [OF n])
    show "fn_value n \<noteq> w" using not_occupied_for_new(2) [OF e1(2) ow n] v by blast
  qed
  have free: "find_where (\<lambda>r. uu_id r = ?u) (fz_users db2) = None" using new by (simp add: find_fancy_user_def)
  have P3: "people ?db3 = (people db2)(?u \<mapsto> x)"
    using lookup_snoc [where k = uu_id, OF free] by (simp add: people_def [abs_def] find_fancy_user_def)
  have k3: "keyed ?db3" using k2 distinct_snoc [where k = uu_id, OF _ free] by (simp add: keyed_def)
  obtain n4 db4 where s4: "update_identifiers (\<lambda>a. ai_value a = ?v)
        (\<lambda>a. a\<lparr>ai_current := Some ?u, ai_invite := (if ?v = w then Some ?u else ai_invite a)\<rparr>) ?db3 = Inr (n4, db4)"
      and s5: "(if w = ?v then Inr db4 else bind_res (update_identifiers (\<lambda>a. ai_value a = w) (\<lambda>a. a\<lparr>ai_invite := Some ?u\<rparr>) db4)
        (\<lambda>(_, db5). Inr db5)) = Inr db'"
    using c unfolding create_user_def Let_def db2_def [symmetric] by (auto simp: result_simps split: if_splits)
  obtain a where a: "idents db2 ?v = Some a" "\<not> claimed_identifier a" "ai_value a = ?v" using f1 e2(4) by auto
  let ?a = "a\<lparr>ai_current := Some ?u, ai_invite := (if ?v = w then Some ?u else ai_invite a)\<rparr>"
  have "idents ?db3 ?v = Some a" using a by simp
  then obtain ids4 where m4: "db4 = ?db3\<lparr>fz_identifiers := ids4\<rparr>" "idents db4 = (idents ?db3)(?v \<mapsto> ?a)" "keyed db4" "sound_rows (fz_campaigns db2) ids4"
    using update_identifiers_key [OF k3 _ _ _ s4, of ?v a] a fancy_invD(2) [OF e2(2)] by auto
  have I4: "idents db4 = (idents db2)(?v := None, ?v \<mapsto> ?a)" using m4(2) by simp
  have L4: "leases db4 = leases db2" "nums db4 = nums db2" "people db4 = (people db2)(?u \<mapsto> x)" using P3 by (simp_all add: m4(1))
  have no: "people db2 ?u = None" using new by (simp add: people_def)
  have ok4: "claims_ok (idents db4) (nums db4) (leases db4) (people db4)" unfolding I4 L4
  proof (rule claims_account [OF ok2])
    show "fl_userID m \<noteq> ?u" if "leases db2 j = Some m" "lease_active m" for j m
      using claims_lease(2) [OF ok2 that] no by (auto simp: lease_fits_def)
    show "fn_value n \<noteq> ?v" if "nums db2 i = Some n" for i n by (rule N2(1) [OF that])
  qed (use a plain no in \<open>auto simp: claimed_identifier_def\<close>)
  have inv4: "fancy_inv db4" using ok4 m4 by (simp add: fancy_inv_def)
  have "fancy_inv db' \<and> (\<exists>ids. db' = db4\<lparr>fz_identifiers := ids\<rparr>)"
  proof (cases "w = ?v")
    case True
    then show ?thesis using s5 inv4 by (intro conjI exI [of _ "fz_identifiers db4"]) simp_all
  next
    case False
    obtain n5 where s5: "update_identifiers (\<lambda>a. ai_value a = w) (\<lambda>a. a\<lparr>ai_invite := Some ?u\<rparr>) db4 = Inr (n5, db')"
      using s5 False by (auto simp: result_simps)
    obtain b where b: "idents db4 w = Some b" using e2(3) False I4 by auto
    have bw: "ai_value b = w" by (rule claims_ident(1) [OF ok4 b])
    obtain ids5 where m5: "db' = db4\<lparr>fz_identifiers := ids5\<rparr>" "idents db' = (idents db4)(w \<mapsto> b\<lparr>ai_invite := Some ?u\<rparr>)" "keyed db'" "sound_rows (fz_campaigns db4) ids5"
      using update_identifiers_key [OF m4(3) _ b _ s5] bw m4(1,4) by auto
    have "claims_ok (idents db') (nums db4) (leases db4) (people db4)" unfolding m5(2)
      by (rule claims_ident_row [OF ok4]) (use N2(2) L4(2) bw b in auto)
    then show ?thesis using m5 by (auto simp: fancy_inv_def)
  qed
  then show ?thesis using m4(1) e2(1) by (auto intro!: evolves_same)
qed

end
