(* ===== verification/FancyAdmin.thy ===== *)
theory FancyAdmin
  imports FancyRuns
begin

text \<open>
  Fancy numbers: the administrative changes and the sweep of due leases, as steps of the protocol; the sweep ends every due
  lease when nobody interferes.
\<close>

section \<open>Columns the claims do not depend on\<close>

definition bare_number :: "fancy_number \<Rightarrow> string \<times> string \<times> number_status" where
  "bare_number n = (fn_id n, fn_value n, fn_status n)"

lemma numbers_dressed:
  assumes inv: "fancy_inv db" and rows: "map bare_number rows = map bare_number (fz_numbers db)"
  shows "fancy_evolves db (db\<lparr>fz_numbers := rows\<rparr>)"
proof -
  let ?db = "db\<lparr>fz_numbers := rows\<rparr>"
  note ok = fancy_invD(3) [OF inv]
  have look: "map_option bare_number (find_where (\<lambda>n. fn_id n = i) xs) = map_option bare_number (find_where (\<lambda>n. fn_id n = i) ys)"
    if "map bare_number xs = map bare_number ys" for i xs ys
    using map_eq_imp_length_eq [OF that] that by (induction xs ys rule: list_induct2) (simp_all add: bare_number_def)
  have same: "map_option bare_number (nums ?db i) = map_option bare_number (nums db i)" for i
    using look [OF rows] by (simp add: nums_def find_number_def)
  have bk: "\<exists>n. nums db i = Some n \<and> fn_id n = fn_id n' \<and> fn_value n = fn_value n' \<and> fn_status n = fn_status n'" if "nums ?db i = Some n'" for i n'
    using same [of i] that by (cases "nums db i") (simp_all add: bare_number_def)
  have fw: "\<exists>n'. nums ?db i = Some n' \<and> fn_id n = fn_id n' \<and> fn_value n = fn_value n' \<and> fn_status n = fn_status n'" if "nums db i = Some n" for i n
    using same [of i] that by (cases "nums ?db i") (simp_all add: bare_number_def)
  have "map fn_id rows = map fn_id (fz_numbers db)"
    using arg_cong [OF rows, of "map fst"] by (simp add: bare_number_def comp_def)
  then have "keyed ?db" using fancy_invD(1) [OF inv] by (simp add: keyed_def)
  moreover have "numbers_ok (idents db) (nums ?db) (leases db)"
    unfolding numbers_ok_def
  proof (intro allI impI)
    fix i n' assume "nums ?db i = Some n'"
    then obtain n where n: "nums db i = Some n" "fn_id n = fn_id n'" "fn_value n = fn_value n'" "fn_status n = fn_status n'" using bk by blast
    have "\<forall>j m. nums ?db j = Some m \<and> fn_value m = fn_value n' \<longrightarrow> j = i"
      using claims_number(4) [OF ok n(1)] bk n(3) by metis
    then show "fn_id n' = i \<and> (\<exists>a. idents db (fn_value n') = Some a \<and> ai_reserved a = None \<and> (fn_status n' = AVAILABLE_N \<longrightarrow> \<not> claimed_identifier a)
         \<and> (fn_status n' = DISABLED_N \<longrightarrow> ai_current a = None))
       \<and> (fn_status n' = LEASED_N \<or> fn_status n' = PERMANENT_N \<longrightarrow> (\<exists>j l. leases db j = Some l \<and> lease_active l \<and> fl_numberID l = i))
       \<and> (\<forall>j m. nums ?db j = Some m \<and> fn_value m = fn_value n' \<longrightarrow> j = i)"
      using claims_number(1-3) [OF ok n(1)] n(2-4) by simp
  qed
  moreover have "leases_fit (idents db) (nums ?db) (leases db) (people db)"
    unfolding leases_fit_def
  proof (intro allI impI conjI)
    fix i l assume l: "leases db i = Some l"
    show "fl_id l = i" by (rule claims_lease(1) [OF ok l])
    assume a: "lease_active l"
    then have f: "lease_fits (idents db) (nums db) (people db) l" by (rule claims_lease(2) [OF ok l])
    then obtain n where "nums db (fl_numberID l) = Some n" by (auto simp: lease_fits_def)
    moreover obtain n' where "nums ?db (fl_numberID l) = Some n'" "fn_value n = fn_value n'" "fn_status n = fn_status n'"
      using fw [OF calculation] by blast
    ultimately show "lease_fits (idents db) (nums ?db) (people db) l"
      using f unfolding lease_fits_def by (cases "fl_permanentAt l = None") auto
    show "j = i" if "leases db j = Some m \<and> lease_active m \<and> fl_userID m = fl_userID l" for j m
      using claims_lease(3) [OF ok l a, of j m] that by blast
  qed
  ultimately have "fancy_inv ?db" using inv by (simp add: fancy_inv_def claims_ok_def)
  then show ?thesis by (rule evolves_same) simp_all
qed

lemma bare_update: "(\<And>n. bare_number (f n) = bare_number n) \<Longrightarrow> map bare_number (update_where p f rows) = map bare_number rows"
  by (rule map_update_where)

lemma bare_updates:
  assumes "\<And>k v n. bare_number (f k v n) = bare_number n"
  shows "map bare_number (foldl (\<lambda>rows (k, v). update_where (p v) (f k v) rows) rows kvs) = map bare_number rows"
proof (induction kvs arbitrary: rows)
  case (Cons a kvs)
  then show ?case using bare_update [of "f (fst a) (snd a)" "p (snd a)"] assms by (auto simp: case_prod_beta)
qed simp

lemma recommend_evolves: "fancy_inv db \<Longrightarrow> fancy_evolves db (recommend_existing vals first db)"
  unfolding recommend_existing_def by (rule numbers_dressed) (auto intro!: bare_updates simp: bare_number_def)

lemma reorder_evolves: "fancy_inv db \<Longrightarrow> adminReorderRecommendations expectedIds ids db = Inr (r, db') \<Longrightarrow> fancy_evolves db db'"
  by (auto simp: adminReorderRecommendations_def Let_def split: if_splits intro!: numbers_dressed bare_updates) (simp add: bare_number_def)

lemma setRecommendation_evolves: "fancy_inv db \<Longrightarrow> adminSetRecommendation i b db = Inr (r, db') \<Longrightarrow> fancy_evolves db db'"
  by (auto simp: adminSetRecommendation_def update_number_def Let_def result_simps split: option.splits if_splits
      intro!: numbers_dressed bare_update) (simp_all add: bare_number_def)

lemma setAvailability_evolves:
  assumes inv: "fancy_inv db" and s: "adminSetAvailability now i enabled db = Inr (r, db')"
  shows "fancy_evolves db db'"
proof -
  let ?f = "\<lambda>m. m\<lparr>fn_status := (if enabled then AVAILABLE_N else DISABLED_N), fn_disabledAt := (if enabled then None else Some now)\<rparr>"
  obtain n where n: "nums db i = Some n" "fn_status n \<noteq> LEASED_N" "fn_status n \<noteq> PERMANENT_N"
      "enabled \<Longrightarrow> \<not> hasAccountIdentifierClaim (fn_value n) db" and u: "update_number i ?f db = Inr db'"
    using s by (auto simp: adminSetAvailability_def nums_def result_simps Let_def split: option.splits if_splits)
  obtain n0 rows where m: "nums db i = Some n0" "db' = db\<lparr>fz_numbers := rows\<rparr>" "nums db' = (nums db)(i \<mapsto> ?f n0)" "keyed db'"
    using update_number_effect [OF fancy_invD(1) [OF inv] u] by auto
  have "claims_ok (idents db) (nums db') (leases db) (people db)" unfolding m(3)
    by (rule claims_number_update [OF fancy_invD(3) [OF inv] m(1)])
      (use n m(1) unclaimed_target in \<open>cases "fn_status n"; auto split: if_splits\<close>)+
  then have "fancy_inv db'" using m fancy_invD(2) [OF inv] by (simp add: fancy_inv_def)
  then show ?thesis by (rule evolves_same) (simp_all add: m(2))
qed


section \<open>New campaigns\<close>

lemma campaign_code_evolves:
  "fancy_inv db \<Longrightarrow> campaign_code ds db = Inr (c, db') \<Longrightarrow> fancy_evolves db db'"
proof (induction ds db rule: campaign_code.induct)
  case (2 c' cs db)
  let ?v = "js_lower c'"
  show ?case
  proof (cases "find_identifier ?v db")
    case None
    then obtain d where d: "create_identifier ?v db = Inr d" "db' = d\<lparr>fz_campaigns := fz_campaigns d @ [?v]\<rparr>"
      using 2(3) by (auto simp: Let_def result_simps split: if_splits)
    note e = create_identifier_evolves [OF 2(2) d(1)]
    have inv: "fancy_inv d" using e fancy_run.evol_inv by blast
    have "\<not> claimed_identifier a" if a: "a \<in> set (fz_identifiers d)" "ai_value a = ?v" for a
    proof -
      have "idents d ?v = Some a"
        using lookup_in [of ai_value "fz_identifiers d" a] a fancy_invD(1) [OF inv] by (simp add: keyed_def idents_def find_identifier_def)
      then show ?thesis using e by (auto simp: claimed_identifier_def)
    qed
    then have "sound_rows (fz_campaigns db') (fz_identifiers db')" using fancy_invD(2) [OF inv] by (auto simp: d(2) sound_rows_def)
    moreover have maps: "idents db' = idents d" "nums db' = nums d" "leases db' = leases d" "people db' = people d"
      by (simp_all add: d(2) view_defs [abs_def])
    ultimately have "fancy_inv db'" using inv unfolding fancy_inv_def maps by (simp add: keyed_def d(2))
    then have "fancy_evolves d db'" by (rule evolves_same) (simp_all add: maps(3), simp add: d(2))
    then show ?thesis using e fancy_run.evol_trans by blast
  qed (use 2 in \<open>simp add: Let_def\<close>)
qed simp

lemma campaign_codes_evolves: "fancy_inv db \<Longrightarrow> campaign_codes draws db = Inr (cs, db') \<Longrightarrow> fancy_evolves db db'"
proof (induction draws arbitrary: cs db)
  case (Cons ds draws)
  then obtain c d cs' where c: "campaign_code (take 30 ds) db = Inr (c, d)" "campaign_codes draws d = Inr (cs', db')"
    by (auto simp: result_simps)
  have "fancy_evolves db d" by (rule campaign_code_evolves [OF Cons.prems(1) c(1)])
  then show ?case using Cons.IH [OF _ c(2)] fancy_run.evol_inv fancy_run.evol_trans by blast
qed (simp add: fancy_run.evol_refl)


section \<open>New numbers\<close>

lemma create_identifiers_evolves:
  "fancy_inv db \<Longrightarrow> create_identifiers vs db = Inr db' \<Longrightarrow> fancy_evolves db db' \<and> (\<forall>v \<in> set vs. \<exists>a. idents db' v = Some a \<and> \<not> claimed_identifier a)
     \<and> (\<forall>v a. idents db v = Some a \<longrightarrow> idents db' v = Some a)"
proof (induction vs arbitrary: db)
  case (Cons v vs)
  then obtain d where d: "create_identifier v db = Inr d" "create_identifiers vs d = Inr db'" by (auto simp: result_simps)
  note e = create_identifier_evolves [OF Cons.prems(1) d(1)]
  have ih: "fancy_evolves d db' \<and> (\<forall>v \<in> set vs. \<exists>a. idents db' v = Some a \<and> \<not> claimed_identifier a) \<and> (\<forall>v a. idents d v = Some a \<longrightarrow> idents db' v = Some a)"
    using Cons.IH [OF _ d(2)] e fancy_run.evol_inv by blast
  moreover have "idents d v = Some \<lparr>ai_value = v, ai_current = None, ai_reserved = None, ai_invite = None\<rparr>" using e by simp
  then have "\<exists>a. idents db' v = Some a \<and> \<not> claimed_identifier a" using ih by (auto simp: claimed_identifier_def)
  moreover have "idents db' w = Some a" if "idents db w = Some a" for w a
  proof -
    have "w \<noteq> v" using that e by auto
    then show ?thesis using e ih that by simp
  qed
  moreover have "fancy_evolves db db'" using e ih fancy_run.evol_trans by blast
  ultimately show ?case by auto
qed (simp add: fancy_run.evol_refl)

lemma create_numbers_evolves:
  "fancy_inv db \<Longrightarrow> create_numbers actor recommended newId vs db = Inr db' \<Longrightarrow>
   \<forall>v \<in> fst ` set vs. \<exists>a. idents db v = Some a \<and> \<not> claimed_identifier a \<Longrightarrow> fancy_evolves db db'"
proof (induction actor recommended newId vs db rule: create_numbers.induct)
  case (2 actor recommended newId v k vs db)
  let ?n = "\<lparr>fn_id = newId v, fn_value = v, fn_status = AVAILABLE_N, fn_source = ADMIN_SOURCE,
         fn_recommended = recommended, fn_sortOrder = k, fn_createdBy = actor, fn_disabledAt = None\<rparr>"
  obtain d where d: "create_number ?n db = Inr d" "create_numbers actor recommended newId vs d = Inr db'"
    using 2(3) by (auto simp: result_simps)
  obtain a where "idents db v = Some a" "\<not> claimed_identifier a" using 2(4) by auto
  then have e: "fancy_evolves db d" "idents d = idents db" using create_number_evolves [OF 2(2) d(1)] by auto
  have "fancy_evolves d db'"
    using 2(1) [OF fancy_run.evol_inv [OF e(1)] d(2)] 2(4) e(2) by auto
  then show ?case by (rule fancy_run.evol_trans [OF e(1)])
qed (simp add: fancy_run.evol_refl)

lemma batchCreate_evolves:
  assumes inv: "fancy_inv db" and c: "adminBatchCreate collate newId actor vals db = Inr (r, db')"
  shows "fancy_evolves db db'"
proof -
  let ?vs = "collate (remdups (map (\<lambda>v. js_lower (js_trim v)) vals))"
  obtain d where d: "create_identifiers ?vs db = Inr d"
      "create_numbers (Some actor) False newId (zip ?vs (map int [0..<length ?vs])) d = Inr db'"
    using c by (auto simp: adminBatchCreate_def Let_def result_simps split: if_splits sum.splits)
  note e = create_identifiers_evolves [OF inv d(1)]
  have "\<forall>v \<in> fst ` set (zip ?vs (map int [0..<length ?vs])). \<exists>a. idents d v = Some a \<and> \<not> claimed_identifier a"
    using e by (auto dest: set_zip_leftD)
  then have "fancy_evolves d db'" using create_numbers_evolves [OF _ d(2)] e fancy_run.evol_inv by blast
  then show ?thesis using e fancy_run.evol_trans by blast
qed

lemma addRecommendations_evolves:
  assumes inv: "fancy_inv db" and c: "adminAddRecommendations newId actor vals db = Inr (r, db')"
  shows "fancy_evolves db db'"
proof -
  obtain append first new db1 where d: "create_identifiers (map snd new) db = Inr db1"
      "create_numbers (Some actor) True newId (map (\<lambda>(k, v). (v, first + int k)) new) (recommend_existing append first db1) = Inr db'"
    using c by (auto simp: adminAddRecommendations_def Let_def result_simps split: if_splits sum.splits)
  note e = create_identifiers_evolves [OF inv d(1)]
  have 2: "fancy_evolves db1 (recommend_existing append first db1)" using e fancy_run.evol_inv recommend_evolves by blast
  have "idents (recommend_existing append first db1) = idents db1" by (simp add: recommend_existing_def)
  then have "\<forall>v \<in> fst ` set (map (\<lambda>(k, v). (v, first + int k)) new). \<exists>a. idents (recommend_existing append first db1) v = Some a \<and> \<not> claimed_identifier a"
    using e by auto
  then have "fancy_evolves (recommend_existing append first db1) db'" using create_numbers_evolves [OF fancy_run.evol_inv [OF 2] d(2)] by blast
  then show ?thesis using e 2 fancy_run.evol_trans by blast
qed



section \<open>The sweep\<close>

lemma evolves_expire_leases:
  "relies fancy_evolves fancy_inv others \<Longrightarrow> fancy_inv db \<Longrightarrow> fancy_evolves db (snd (expire_each others k now ls db))"
proof (induction others k now ls db rule: expire_each.induct)
  case (2 others k now l ls db)
  let ?d = "others k db"
  obtain r d2 where c: "committed (expireLease now (fl_id l) ?d) ?d = (r, d2)" by fastforce
  have 1: "fancy_evolves db d2"
    using fancy_run.evol_then [OF fancy_run.rely_first [OF 2(2,3)] evolves_expireLease] by (metis c snd_conv)
  have "fancy_evolves d2 (snd (expire_each others (Suc k) now ls d2))"
    by (rule "2.IH" [OF refl c [symmetric] 2(2) fancy_run.evol_inv [OF 1]])
  then have "fancy_evolves db (snd (expire_each others (Suc k) now ls d2))" by (rule fancy_run.evol_trans [OF 1])
  then show ?case by (auto simp: c Let_def split: prod.split)
qed (simp add: fancy_run.evol_refl)

lemma evolves_expire_pages:
  "relies fancy_evolves fancy_inv others \<Longrightarrow> fancy_inv db \<Longrightarrow> fancy_evolves db (snd (expire_pages others fuel k now after db))"
proof (induction fuel arbitrary: k after db)
  case (Suc fuel)
  let ?d = "others k db"
  obtain n d2 where e: "expire_each others (Suc k) now (due_page now after ?d) ?d = (n, d2)" by fastforce
  have 1: "fancy_evolves db d2"
    using fancy_run.evol_then [OF fancy_run.rely_first [OF Suc.prems] evolves_expire_leases [OF Suc.prems(1)]] by (metis e snd_conv)
  have "fancy_evolves db (snd (expire_pages others fuel k' now after' d2))" for k' after'
    by (rule fancy_run.evol_trans [OF 1 Suc.IH [OF Suc.prems(1) fancy_run.evol_inv [OF 1]]])
  then show ?case using 1 by (simp add: e Let_def split: prod.split) (metis snd_conv)
qed (simp add: fancy_run.evol_refl)

text \<open>Undisturbed, it ends every due lease.\<close>

definition due_rows :: "int \<Rightarrow> fancy_db \<Rightarrow> fancy_lease list" where
  "due_rows now db = filter (due_lease now) (fz_leases db)"

lemma due_rows_ended:
  "filter (due_lease now) (update_where (\<lambda>x. fl_id x = i \<and> due_lease now x) (\<lambda>x. x\<lparr>fl_endedAt := Some now\<rparr>) rows)
   = filter (\<lambda>l. fl_id l \<noteq> i) (filter (due_lease now) rows)"
  by (induction rows) (auto simp: due_lease_def)

lemma due_rows_lease: "fancy_inv db \<Longrightarrow> l \<in> set (due_rows now db) \<Longrightarrow> leases db (fl_id l) = Some l \<and> due_lease now l"
  using lookup_in [of fl_id "fz_leases db" l] by (auto simp: due_rows_def fancy_inv_def keyed_def leases_def find_lease_def)

lemma expire_each_alone:
  assumes "fancy_inv db" "distinct (map fl_id ls)" "set ls \<subseteq> set (due_rows now db)"
  shows "\<exists>db'. expire_each (\<lambda>_ d. d) k now ls db = (length ls, db') \<and> fancy_inv db'
    \<and> due_rows now db' = filter (\<lambda>l. fl_id l \<notin> fl_id ` set ls) (due_rows now db)"
  using assms
proof (induction ls arbitrary: k db)
  case (Cons l ls)
  then have l: "leases db (fl_id l) = Some l" "due_lease now l" using due_rows_lease [OF Cons.prems(1), of l] by auto
  obtain d where d: "expireLease now (fl_id l) db = Inr (True, d)" "fancy_inv d" "ended_lease now (fl_id l) l db d"
    using expireLease_due [OF Cons.prems(1) l] by blast
  have rows: "due_rows now d = filter (\<lambda>m. fl_id m \<noteq> fl_id l) (due_rows now db)"
    using d(3) due_rows_ended by (auto simp: ended_lease_def due_rows_def)
  have "set ls \<subseteq> set (due_rows now d)" using Cons.prems(2,3) by (auto simp: rows) (metis imageI)
  then obtain db' where db': "expire_each (\<lambda>_ d. d) (Suc k) now ls d = (length ls, db')" "fancy_inv db'"
      "due_rows now db' = filter (\<lambda>m. fl_id m \<notin> fl_id ` set ls) (due_rows now d)"
    using Cons.IH [OF d(2)] Cons.prems(2) by fastforce
  have "due_rows now db' = filter (\<lambda>m. fl_id m \<notin> fl_id ` set (l # ls)) (due_rows now db)"
    unfolding db'(3) rows by (auto intro: filter_cong)
  then show ?case using db' by (auto simp: d committed_def)
qed auto

lemma sweep_alone:
  assumes inv: "fancy_inv db" and order: "\<And>l t i. l \<in> set (due_rows now db) \<Longrightarrow> after = Some (t, i) \<Longrightarrow> (t, i) < lease_order l"
    and fuel: "length (due_rows now db) div EXPIRE_PAGE < fuel"
  shows "\<exists>db'. expire_pages (\<lambda>_ d. d) fuel k now after db = (Some (length (due_rows now db)), db') \<and> fancy_inv db' \<and> due_rows now db' = []"
  using assms
proof (induction fuel arbitrary: k after db)
  case (Suc fuel)
  let ?rows = "due_rows now db"
  let ?xs = "sort_key lease_order ?rows" and ?page = "due_page now after db"
  have "due_lease now l \<and> (case after of None \<Rightarrow> True | Some (t, i) \<Rightarrow> (case fl_expiresAt l of None \<Rightarrow> False
      | Some t' \<Rightarrow> t < t' \<or> t' = t \<and> i < fl_id l)) \<longleftrightarrow> due_lease now l" if "l \<in> set (fz_leases db)" for l
    using Suc.prems(2) [of l] that by (auto simp: due_rows_def lease_order_def due_lease_def split: option.splits)
  then have page: "?page = take EXPIRE_PAGE ?xs"
    unfolding due_page_def due_rows_def by (simp cong: filter_cong)
  have dist: "distinct (map fl_id ?rows)" using Suc.prems(1) by (auto simp: due_rows_def fancy_inv_def keyed_def distinct_map_filter)
  have inj: "inj_on fl_id (set ?rows)" using dist by (simp add: distinct_map)
  have dxs: "distinct (map fl_id ?xs)" using dist by (simp add: distinct_map)
  have "distinct (map fl_id ?page)" unfolding page using dxs by (simp add: take_map [symmetric])
  moreover have sub: "set ?page \<subseteq> set ?rows" using set_take_subset [of EXPIRE_PAGE ?xs] by (simp add: page)
  ultimately obtain d where d: "expire_each (\<lambda>_ d. d) (Suc k) now ?page db = (length ?page, d)" "fancy_inv d"
      "due_rows now d = filter (\<lambda>l. fl_id l \<notin> fl_id ` set ?page) ?rows"
    using expire_each_alone [OF Suc.prems(1)] by blast
  have "set (take EXPIRE_PAGE ?xs) \<union> set (drop EXPIRE_PAGE ?xs) = set ?xs" by (metis append_take_drop_id set_append)
  then have parts: "set ?page \<union> set (drop EXPIRE_PAGE ?xs) = set ?rows" by (simp add: page)
  have apart: "fl_id ` set ?page \<inter> fl_id ` set (drop EXPIRE_PAGE ?xs) = {}"
    using dxs unfolding page by (metis append_take_drop_id distinct_append list.set_map map_append)
  have left: "set (due_rows now d) = set (drop EXPIRE_PAGE ?xs)" using parts apart by (auto simp: d(3))
  have "distinct (due_rows now d)" using dist by (simp add: d(3) distinct_map)
  moreover have "distinct (drop EXPIRE_PAGE ?xs)" using dxs by (simp add: distinct_map)
  ultimately have len: "length (due_rows now d) = length ?rows - EXPIRE_PAGE"
    using left distinct_card [of "due_rows now d"] distinct_card [of "drop EXPIRE_PAGE ?xs"] by simp
  show ?case
  proof (cases "length ?page < EXPIRE_PAGE")
    case True
    then have "length ?page = length ?rows" "due_rows now d = []" using len by (simp_all add: page)
    then show ?thesis using True d by simp
  next
    case False
    then have full: "length ?page = EXPIRE_PAGE" "EXPIRE_PAGE \<le> length ?rows" by (simp_all add: page)
    have pos: "0 < EXPIRE_PAGE" by (simp add: EXPIRE_PAGE_def)
    have ne: "?page \<noteq> []" using full(1) pos by auto
    have "sorted (map lease_order (take EXPIRE_PAGE ?xs) @ map lease_order (drop EXPIRE_PAGE ?xs))" by (simp flip: map_append)
    then have le: "lease_order m \<le> lease_order l" if "m \<in> set ?page" "l \<in> set (due_rows now d)" for m l
      using that unfolding left page sorted_append by simp
    have later: "lease_order (last ?page) < lease_order l" if l: "l \<in> set (due_rows now d)" for l
    proof -
      have "lease_order (last ?page) \<noteq> lease_order l"
        using l imageI [OF last_in_set [OF ne], of fl_id] by (auto simp: d(3) lease_order_def)
      then show ?thesis using le [OF last_in_set [OF ne] l] by simp
    qed
    have rest: "length (due_rows now d) div EXPIRE_PAGE < fuel"
      using Suc.prems(3) full(2) pos by (simp add: len le_div_geq)
    obtain db' where "expire_pages (\<lambda>_ d. d) fuel (k + Suc (length ?page)) now (Some (lease_order (last ?page))) d = (Some (length (due_rows now d)), db')"
        "fancy_inv db'" "due_rows now db' = []"
      using Suc.IH [OF d(2) _ rest, of "Some (lease_order (last ?page))" "k + Suc (length ?page)"] later by force
    then show ?thesis using False d(1) full by (auto simp: len)
  qed
qed simp


section \<open>Requests and histories\<close>

datatype fancy_op =
    PurchaseOp fancy_env string string "int option" string "int option"
  | PurchaseCustomOp fancy_env string string "int option" string "int option"
  | SwitchOp fancy_env string string string "int option"
  | SwitchCustomOp fancy_env string string string "int option"
  | RenewOp fancy_env string int string "int option"
  | ConvertOp int string string
  | GetMineOp int string
  | ChangeAccountOp int string string
  | CreateUserOp fancy_user string
  | SweepOp nat int
  | BatchOp "string list \<Rightarrow> string list" "string \<Rightarrow> string" string "string list"
  | AddRecommendationsOp "string \<Rightarrow> string" string "string list"
  | SetRecommendationOp string bool
  | ReorderOp "string list" "string list"
  | AvailabilityOp int string bool
  | CampaignOp "string list list"

text \<open>One request with interference; a transaction without a read before it is one step.\<close>

fun fancy_exec :: "(nat \<Rightarrow> fancy_db \<Rightarrow> fancy_db) \<Rightarrow> fancy_op \<Rightarrow> fancy_db \<Rightarrow> fancy_db" where
  "fancy_exec others (PurchaseOp e u i months key quote) db = snd (purchase others e u i months key quote db)"
| "fancy_exec others (PurchaseCustomOp e u v months key quote) db = snd (purchaseCustom others e u v months key quote db)"
| "fancy_exec others (SwitchOp e u i key quote) db = snd (switchPermanent others e u i key quote db)"
| "fancy_exec others (SwitchCustomOp e u v key quote) db = snd (switchPermanentCustom others e u v key quote db)"
| "fancy_exec others (RenewOp e u months key quote) db = snd (renew others e u months key quote db)"
| "fancy_exec others (ConvertOp now i u) db = snd (committed (convertActiveLeaseToPermanent now i u (others 0 db)) (others 0 db))"
| "fancy_exec others (GetMineOp now u) db = snd (getMine others now u db)"
| "fancy_exec others (ChangeAccountOp now u v) db = snd (changeAccountId others now u v db)"
| "fancy_exec others (CreateUserOp x w) db = snd (committed (map_sum id (\<lambda>d. ((), d)) (create_user x w (others 0 db))) (others 0 db))"
| "fancy_exec others (SweepOp fuel now) db = snd (expireDue others fuel now db)"
| "fancy_exec others (BatchOp collate newId actor vals) db = snd (committed (adminBatchCreate collate newId actor vals (others 0 db)) (others 0 db))"
| "fancy_exec others (AddRecommendationsOp newId actor vals) db = snd (committed (adminAddRecommendations newId actor vals (others 0 db)) (others 0 db))"
| "fancy_exec others (SetRecommendationOp i b) db = snd (committed (adminSetRecommendation i b (others 0 db)) (others 0 db))"
| "fancy_exec others (ReorderOp es is') db = snd (committed (adminReorderRecommendations es is' (others 0 db)) (others 0 db))"
| "fancy_exec others (AvailabilityOp now i b) db = snd (committed (adminSetAvailability now i b (others 0 db)) (others 0 db))"
| "fancy_exec others (CampaignOp draws) db = snd (committed (campaign_codes draws (others 0 db)) (others 0 db))"

text \<open>New users have no number yet, and \<open>localeCompare\<close> only sorts.\<close>

fun fancy_allowed :: "fancy_op \<Rightarrow> bool" where
  "fancy_allowed (CreateUserOp x w) \<longleftrightarrow> \<not> uu_fancy x"
| "fancy_allowed _ \<longleftrightarrow> True"

lemma evolves_fancy_exec:
  assumes rely: "relies fancy_evolves fancy_inv others" and inv: "fancy_inv db" and ok: "fancy_allowed x"
  shows "fancy_evolves db (fancy_exec others x db)"
proof -
  note r = fancy_run.evol_refl [OF inv]
  note h = evolves_handler [OF inv rely r, of _ 0]
  show ?thesis
  proof (cases x)
    case PurchaseOp then show ?thesis using evolves_purchaseTarget [OF inv rely] by (simp add: purchase_def)
  next
    case PurchaseCustomOp
    then show ?thesis using evolves_purchaseTarget [OF inv rely] r by (auto simp: purchaseCustom_def split: sum.split)
  next
    case SwitchOp then show ?thesis using evolves_switchPermanentTarget [OF inv rely] by (simp add: switchPermanent_def)
  next
    case SwitchCustomOp
    then show ?thesis using evolves_switchPermanentTarget [OF inv rely] r by (auto simp: switchPermanentCustom_def split: sum.split)
  next
    case RenewOp then show ?thesis using evolves_renew [OF inv rely] by simp
  next
    case (ConvertOp now i u) show ?thesis unfolding ConvertOp fancy_exec.simps by (rule h) (rule evolves_convert)
  next
    case GetMineOp then show ?thesis using evolves_getMine [OF inv rely] by simp
  next
    case ChangeAccountOp then show ?thesis using evolves_changeAccountId [OF inv rely] by simp
  next
    case (CreateUserOp y w)
    have "fancy_evolves d d'" if "fancy_inv d" "map_sum id (\<lambda>d. ((), d)) (create_user y w d) = Inr (a, d')" for d a d'
      using that create_user_evolves [OF that(1)] ok CreateUserOp by (cases "create_user y w d") auto
    then show ?thesis unfolding CreateUserOp fancy_exec.simps by (rule h)
  next
    case SweepOp then show ?thesis using evolves_expire_pages [OF rely inv] by (simp add: expireDue_def)
  next
    case (BatchOp c g a v) show ?thesis unfolding BatchOp fancy_exec.simps by (rule h) (rule batchCreate_evolves)
  next
    case (AddRecommendationsOp g a v) show ?thesis unfolding AddRecommendationsOp fancy_exec.simps by (rule h) (rule addRecommendations_evolves)
  next
    case (SetRecommendationOp i b) show ?thesis unfolding SetRecommendationOp fancy_exec.simps by (rule h) (rule setRecommendation_evolves)
  next
    case (ReorderOp es is') show ?thesis unfolding ReorderOp fancy_exec.simps by (rule h) (rule reorder_evolves)
  next
    case (AvailabilityOp now i b) show ?thesis unfolding AvailabilityOp fancy_exec.simps by (rule h) (rule setAvailability_evolves)
  next
    case (CampaignOp draws) show ?thesis unfolding CampaignOp fancy_exec.simps by (rule h) (rule campaign_codes_evolves)
  qed
qed

lemma evolves_fancy_history:
  assumes "\<forall>(others, x) \<in> set rs. relies fancy_evolves fancy_inv others \<and> fancy_allowed x" "fancy_inv db"
  shows "fancy_evolves db (fold (\<lambda>(others, x). fancy_exec others x) rs db)"
  by (rule fancy_run.evol_fold_allowed [OF evolves_fancy_exec assms])

end
