(* ===== verification/FancyPay.thy ===== *)
theory FancyPay
  imports FancyAdmin
begin

text \<open>
  Fancy numbers and coins: purchases, exchanges and renewals take their price from the wallet and book it in the ledger of
  \<open>Coin\<close>, whose invariant they keep; an idempotency key is spent at most once.
\<close>

definition charged :: "string \<Rightarrow> int \<Rightarrow> coin_db \<Rightarrow> coin_db \<Rightarrow> bool" where
  "charged u price c c' \<longleftrightarrow> coin_inv c' \<and> (\<forall>v. bal v c' = bal v c - (if v = u then price else 0)) \<and> price \<le> bal u c
     \<and> (\<forall>v. ledger_total v c' = ledger_total v c - (if v = u then price else 0))"

text \<open>The wallet after the debit, before the ledger row.\<close>

definition debited :: "string \<Rightarrow> int \<Rightarrow> coin_db \<Rightarrow> coin_db \<Rightarrow> bool" where
  "debited u price c c' \<longleftrightarrow> distinct (map wl_user (wallets c')) \<and> (\<forall>v. bal v c' = bal v c - (if v = u then price else 0))
     \<and> price \<le> bal u c \<and> ledger c' = ledger c \<and> gifts c' = gifts c"

lemma debit_points_debited:
  assumes "coin_inv c" "debit_points u price (db\<lparr>fz_coin := upsert_wallet u c\<rparr>) = Inr (b, db')"
  shows "debited u price c (fz_coin db')"
proof -
  obtain c' where "debit_wallets u price (upsert_wallet u c) = (1, c')" "fz_coin db' = c'"
    using assms(2) by (auto simp: debit_points_def split: prod.splits if_splits option.splits)
  then show ?thesis
    using debit_wallets_effect [where u = u and n = price, OF distinct_upsert [OF coin_inv_dist [OF assms(1)]]]
    by (simp add: debited_def distinct_upsert coin_inv_dist [OF assms(1)])
qed

lemma charge_wallet_debited:
  assumes inv: "coin_inv (fz_coin db)" and c: "charge_wallet u price db = Inr (b, db')" and p: "0 \<le> price"
  shows "debited u price (fz_coin db) (fz_coin db')"
proof (cases "0 < price")
  case True
  then have d: "debit_points u price (db\<lparr>fz_coin := upsert_wallet u (fz_coin db)\<rparr>) = Inr (b, db')"
    using c by (simp add: charge_wallet_def)
  show ?thesis by (rule debit_points_debited [OF inv d])
next
  case False
  then have "fz_coin db' = upsert_wallet u (fz_coin db)" using c by (auto simp: charge_wallet_def Let_def split: option.splits)
  then show ?thesis using False p coin_inv_nonneg [OF inv, of u] distinct_upsert [OF coin_inv_dist [OF inv]] by (simp add: debited_def)
qed

lemma booked_charged:
  assumes inv: "coin_inv c" and d: "debited u price c (fz_coin db)" and b: "book_points e u price balance key db = Inr db'" and p: "0 \<le> price"
  shows "charged u price c (fz_coin db')"
proof -
  let ?t = "\<lparr>ct_user = u, ct_type = PURCHASE, ct_amount = - price, ct_balance = balance, ct_note = Some (fe_note e),
             ct_related = Some (fe_orderId e), ct_key = Some (''fancy-number:'' @ key), ct_at = fe_now e\<rparr>"
  obtain c' where "append_ledger ?t (fz_coin db) = Inr c'" "fz_coin db' = c'" using b by (auto simp: book_points_def split: sum.splits)
  then have c': "fz_coin db' = (fz_coin db)\<lparr>ledger := ledger (fz_coin db) @ [?t]\<rparr>" using append_ledger_effect by blast
  have led: "ledger (fz_coin db') = ledger c @ [?t]" using d by (simp add: c' debited_def)
  have bal: "bal v (fz_coin db') = bal v c - (if v = u then price else 0)" for v
    using d bal_frame [of "fz_coin db'" "fz_coin db" v] by (simp add: c' debited_def)
  have tot: "ledger_total v (fz_coin db') = ledger_total v c - (if v = u then price else 0)" for v
    using ledger_total_snoc [OF led, of v] by simp
  have "price \<le> bal u c" using d by (simp add: debited_def)
  then have "0 \<le> ledger_total v (fz_coin db')" for v
    using tot [of v] coin_inv_bal [OF inv, of v] coin_inv_nonneg [OF inv, of v] by auto
  moreover have "distinct (map wl_user (wallets (fz_coin db')))" "gifts (fz_coin db') = gifts c" using d by (simp_all add: c' debited_def)
  ultimately have "coin_inv (fz_coin db')" using inv bal tot led by (simp add: coin_inv_def)
  then show ?thesis using bal tot \<open>price \<le> bal u c\<close> by (simp add: charged_def)
qed

lemma free_charged:
  assumes inv: "coin_inv c" and d: "debited u 0 c c'"
  shows "charged u 0 c c'"
proof -
  have "ledger_total v c' = ledger_total v c" for v using d by (simp add: debited_def ledger_total_def)
  moreover have "coin_inv c'" using inv d calculation by (simp add: coin_inv_def debited_def)
  ultimately show ?thesis using d by (simp add: charged_def debited_def)
qed

text \<open>The other statements leave the coins alone.\<close>

lemma coin_frames:
  "claim_number n st db = Inr db' \<Longrightarrow> fz_coin db' = fz_coin db"
  "reserve_original u v db = Inr db' \<Longrightarrow> fz_coin db' = fz_coin db"
  "assign_identifier u v db = Inr (k, db') \<Longrightarrow> fz_coin db' = fz_coin db"
  "update_identifiers p f db = Inr (k, db') \<Longrightarrow> fz_coin db' = fz_coin db"
  "create_lease l db = Inr db' \<Longrightarrow> fz_coin db' = fz_coin db"
  "create_order r db = Inr db' \<Longrightarrow> fz_coin db' = fz_coin db"
  "releaseFancyNumberInventory i v st now db = Inr db' \<Longrightarrow> fz_coin db' = fz_coin db"
  "update_lease i g db = Inr db' \<Longrightarrow> fz_coin db' = fz_coin db"
  "update_user u h db = Inr db' \<Longrightarrow> fz_coin db' = fz_coin db"
proof -
  show ids: "update_identifiers p f db = Inr (k, db') \<Longrightarrow> fz_coin db' = fz_coin db" for p f k db db'
    by (auto simp: update_identifiers_def Let_def split: if_splits)
  show "claim_number n st db = Inr db' \<Longrightarrow> fz_coin db' = fz_coin db"
    by (auto simp: claim_number_def update_numbers_def split: prod.splits if_splits)
  show "reserve_original u v db = Inr db' \<Longrightarrow> fz_coin db' = fz_coin db"
    by (auto simp: reserve_original_def result_simps dest: ids split: if_splits)
  show "assign_identifier u v db = Inr (k, db') \<Longrightarrow> fz_coin db' = fz_coin db"
    unfolding assign_identifier_def by (rule ids)
  show "create_lease l db = Inr db' \<Longrightarrow> fz_coin db' = fz_coin db" by (auto simp: create_lease_def split: if_splits)
  show "create_order r db = Inr db' \<Longrightarrow> fz_coin db' = fz_coin db" by (auto simp: create_order_def split: if_splits)
  show "releaseFancyNumberInventory i v st now db = Inr db' \<Longrightarrow> fz_coin db' = fz_coin db"
    by (auto simp: releaseFancyNumberInventory_def update_numbers_def Let_def split: option.splits if_splits)
  show "update_lease i g db = Inr db' \<Longrightarrow> fz_coin db' = fz_coin db" by (auto simp: update_lease_def Let_def split: if_splits)
  show "update_user u h db = Inr db' \<Longrightarrow> fz_coin db' = fz_coin db" by (auto simp: update_user_def split: if_splits)
qed

lemma account_coin: "update_account u v f db = Inr db' \<Longrightarrow> fz_coin db' = fz_coin db"
  by (auto simp: update_account_def account_identifier_prepare_def account_identifier_cleanup_def Let_def result_simps
      dest!: coin_frames(4,9) split: option.splits if_splits)

lemma order_created: "create_order r db = Inr db' \<Longrightarrow> find_order (fo_key r) db' = Some r \<and> find_order (fo_key r) db = None"
  by (auto simp: create_order_def find_order_def find_where_append split: if_splits)

lemma write_purchase_pays:
  assumes inv: "coin_inv (fz_coin db)" and w: "write_purchase e x target n months key db = Inr (res, db')" and m: "\<And>k. months = Some k \<Longrightarrow> 1 \<le> k"
  shows "charged (uu_id x) (months_price months) (fz_coin db) (fz_coin db')
    \<and> (\<exists>t b. lease_end (fe_now e) months = Inr t \<and> find_order key db' = Some (purchase_order e x target n months t key b)
        \<and> res = order_result (purchase_order e x target n months t key b) (displayTargetValue (fn_value n) target) (months = None))"
proof -
  let ?u = "uu_id x" and ?p = "months_price months"
  have p: "0 \<le> ?p" using m by (fastforce simp: months_price_def FANCY_NUMBER_UNIT_PRICE_def split: option.split)
  obtain db1 db2 db3 db4 db5 db6 db7 b t where
    s1: "claim_number n (if months = None then PERMANENT_N else LEASED_N) db = Inr db1" and s2: "reserve_original ?u (uu_accountId x) db1 = Inr db2"
    and s3: "assign_identifier ?u (fn_value n) db2 = Inr (1, db3)" and s4: "charge_wallet ?u ?p db3 = Inr (b, db4)"
    and t: "lease_end (fe_now e) months = Inr t" and s5: "create_lease (purchased_lease e x n months t) db4 = Inr db5"
    and s6: "update_account ?u (fn_value n) (\<lambda>y. y\<lparr>uu_fancy := True, uu_fancyExpiresAt := t, uu_fancyPermanent := (months = None)\<rparr>) db5 = Inr db6"
    and s7: "create_order (purchase_order e x target n months t key b) db6 = Inr db7"
    and s8: "(if 0 < ?p then book_points e ?u ?p b key db7 else Inr db7) = Inr db'"
    and res: "res = order_result (purchase_order e x target n months t key b) (displayTargetValue (fn_value n) target) (months = None)"
    by (rule write_purchase_parts [OF w])
  have c3: "fz_coin db3 = fz_coin db" using coin_frames(1) [OF s1] coin_frames(2) [OF s2] coin_frames(3) [OF s3] by simp
  have c7: "fz_coin db7 = fz_coin db4" using coin_frames(5) [OF s5] account_coin [OF s6] coin_frames(6) [OF s7] by simp
  have d: "debited ?u ?p (fz_coin db) (fz_coin db7)"
    using charge_wallet_debited [OF _ s4 p] inv c3 c7 by simp
  have "charged ?u ?p (fz_coin db) (fz_coin db')"
  proof (cases "0 < ?p")
    case True
    then show ?thesis using s8 by (intro booked_charged [OF inv d _ p]) simp
  next
    case False
    then have "?p = 0" "db' = db7" using p s8 by simp_all
    then show ?thesis using free_charged [OF inv] d by simp
  qed
  moreover have "find_order key db7 = Some (purchase_order e x target n months t key b)"
    using order_created [OF s7] by (simp add: purchase_order_def)
  then have "find_order key db' = Some (purchase_order e x target n months t key b)"
    using s8 new_orders_maps(6) [OF new_orders_simps(2)] by (auto split: if_splits)
  ultimately show ?thesis using res t by blast
qed

lemma write_switch_pays:
  assumes inv: "coin_inv (fz_coin db)" and w: "write_switch e l old target n key db = Inr (res, db')"
  shows "charged (fl_userID l) FANCY_NUMBER_UNIT_PRICE (fz_coin db) (fz_coin db') \<and> (\<exists>r. find_order key db' = Some r \<and> fo_type r = SWITCH_ORDER)"
proof -
  let ?u = "fl_userID l" and ?p = FANCY_NUMBER_UNIT_PRICE
  have p: "0 \<le> ?p" by (simp add: FANCY_NUMBER_UNIT_PRICE_def)
  obtain db1 db2 db3 db4 db5 db6 db7 db8 b where
    s1: "charge_wallet ?u ?p db = Inr (b, db1)" and s2: "claim_number n PERMANENT_N db1 = Inr db2"
    and s3: "update_identifiers (\<lambda>a. ai_value a = old \<and> ai_current a = Some ?u) (\<lambda>a. a\<lparr>ai_current := None\<rparr>) db2 = Inr (1, db3)"
    and s4: "assign_identifier ?u (fn_value n) db3 = Inr (1, db4)" and s5: "releaseFancyNumberInventory (fl_numberID l) old PERMANENT_N (fe_now e) db4 = Inr db5"
    and s6: "update_lease (fl_id l) (\<lambda>x. x\<lparr>fl_numberID := fn_id n\<rparr>) db5 = Inr db6"
    and s7: "update_account ?u (fn_value n) (\<lambda>y. y\<lparr>uu_fancy := True, uu_fancyExpiresAt := None, uu_fancyPermanent := True\<rparr>) db6 = Inr db7"
    and s8: "create_order (switch_order e l target n key b) db7 = Inr db8" and s9: "book_points e ?u ?p b key db8 = Inr db'"
    by (rule write_switch_parts [OF w])
  have c8: "fz_coin db8 = fz_coin db1"
    using coin_frames(1) [OF s2] coin_frames(4) [OF s3] coin_frames(3) [OF s4] coin_frames(7) [OF s5] coin_frames(8) [OF s6] account_coin [OF s7]
      coin_frames(6) [OF s8] by simp
  have d: "debited ?u ?p (fz_coin db) (fz_coin db8)" using charge_wallet_debited [OF inv s1 p] c8 by simp
  have "find_order key db8 = Some (switch_order e l target n key b)" using order_created [OF s8] by (simp add: switch_order_def)
  then have "find_order key db' = Some (switch_order e l target n key b)" by (rule new_orders_maps(6) [OF new_orders_simps(2) [OF s9]])
  then show ?thesis using booked_charged [OF inv d s9 p] by (simp add: switch_order_def)
qed

lemma write_renewal_pays:
  assumes inv: "coin_inv (fz_coin db)" and w: "write_renewal e l n old months key db = Inr (res, db')" and m: "1 \<le> months"
  shows "charged (fl_userID l) (months * FANCY_NUMBER_UNIT_PRICE) (fz_coin db) (fz_coin db') \<and> (\<exists>r. find_order key db' = Some r \<and> fo_type r = RENEWAL_ORDER)"
proof -
  let ?u = "fl_userID l" and ?p = "months * FANCY_NUMBER_UNIT_PRICE"
  have p: "0 \<le> ?p" using m by (simp add: FANCY_NUMBER_UNIT_PRICE_def)
  obtain b t db1 db2 db3 db4 where
    s1: "debit_points ?u ?p (db\<lparr>fz_coin := upsert_wallet ?u (fz_coin db)\<rparr>) = Inr (b, db1)"
    and s2: "update_lease (fl_id l) (\<lambda>x. x\<lparr>fl_expiresAt := Some t\<rparr>) db1 = Inr db2"
    and s3: "update_user ?u (\<lambda>x. x\<lparr>uu_fancyExpiresAt := Some t\<rparr>) db2 = Inr db3"
    and s4: "create_order (renewal_order e l n old months t key b) db3 = Inr db4" and s5: "book_points e ?u ?p b key db4 = Inr db'"
    using w by (auto simp: write_renewal_def Let_def result_simps)
  have c4: "fz_coin db4 = fz_coin db1" using coin_frames(8) [OF s2] coin_frames(9) [OF s3] coin_frames(6) [OF s4] by simp
  have d: "debited ?u ?p (fz_coin db) (fz_coin db4)" using debit_points_debited [OF inv s1] c4 by simp
  have "find_order key db4 = Some (renewal_order e l n old months t key b)" using order_created [OF s4] by (simp add: renewal_order_def)
  then have "find_order key db' = Some (renewal_order e l n old months t key b)" by (rule new_orders_maps(6) [OF new_orders_simps(2) [OF s5]])
  then show ?thesis using booked_charged [OF inv d s5 p] by (simp add: renewal_order_def)
qed

end
