(* ===== verification/FancyNames.thy ===== *)
theory FancyNames
  imports FancyAdmin
begin

text \<open>
  Fancy numbers: the type of what is registered. Every identifier in the registry, and with the invariant of \<open>FancyProofs\<close>
  every account id and number, is a well-formed account id in lower case.
\<close>

definition stored_name :: "string \<Rightarrow> bool" where
  "stored_name v \<longleftrightarrow> account_id_pattern v \<and> js_lower v = v"

definition registered :: "fancy_db \<Rightarrow> string set" where
  "registered db = ai_value ` set (fz_identifiers db)"

definition names_ok :: "fancy_db \<Rightarrow> bool" where
  "names_ok db \<longleftrightarrow> (\<forall>v \<in> registered db. stored_name v)"

interpretation names_run: interleaved "\<lambda>a. names_ok" names_ok
  by unfold_locales

section \<open>Values\<close>

lemma code_lowered: "code c \<le> 222 \<Longrightarrow> code (char_of (code c + 32)) = code c + 32"
  by (simp add: code_def)

lemma lower_lower [simp]: "lower_char (lower_char c) = lower_char c"
  using code_lowered [of c] by (auto simp: lower_char_def is_upper_def)

lemma js_lower_lower [simp]: "js_lower (js_lower s) = js_lower s"
  by (simp add: js_lower_def)

lemma lower_plain: "is_upper c \<or> is_digit c \<Longrightarrow> is_lower (lower_char c) \<or> is_digit (lower_char c)"
  using code_lowered [of c] by (auto simp: lower_char_def is_upper_def is_digit_def is_lower_def)

lemma custom_stored: "custom_pattern d \<Longrightarrow> stored_name (js_lower d)"
  using lower_plain by (auto simp: custom_pattern_def stored_name_def account_id_pattern_def js_lower_def)

lemma requireCustom_stored: "requireCustomFancyNumber v = Inr (shown, stored) \<Longrightarrow> stored_name stored"
  by (auto simp: requireCustomFancyNumber_def validateCustomFancyNumber_def normalizeCustomFancyNumber_def Let_def
      intro!: custom_stored split: if_splits)

section \<open>Statements\<close>

lemma registered_frames [simp]:
  "registered (db\<lparr>fz_numbers := ns\<rparr>) = registered db" "registered (db\<lparr>fz_leases := ls\<rparr>) = registered db"
  "registered (db\<lparr>fz_users := us\<rparr>) = registered db" "registered (db\<lparr>fz_orders := rs\<rparr>) = registered db"
  "registered (db\<lparr>fz_coin := c\<rparr>) = registered db" "registered (db\<lparr>fz_campaigns := vs\<rparr>) = registered db"
  by (simp_all add: registered_def)

definition keeps_value :: "(account_identifier \<Rightarrow> account_identifier) \<Rightarrow> bool" where
  "keeps_value f \<longleftrightarrow> (\<forall>a. ai_value (f a) = ai_value a)"

lemma registered_update: "update_identifiers p f db = Inr (n, db') \<Longrightarrow> keeps_value f \<Longrightarrow> registered db' = registered db"
proof -
  assume u: "update_identifiers p f db = Inr (n, db')" and f: "keeps_value f"
  have "map ai_value (update_where p f (fz_identifiers db)) = map ai_value (fz_identifiers db)"
    by (rule map_update_where) (use f in \<open>simp add: keeps_value_def\<close>)
  then have "ai_value ` set (update_where p f (fz_identifiers db)) = ai_value ` set (fz_identifiers db)" by (metis list.set_map)
  then show "registered db' = registered db" using u by (auto simp: update_identifiers_def Let_def registered_def split: if_splits)
qed

text \<open>A row that was updated is in the registry.\<close>

lemma updated_registered: "update_identifiers p f db = Inr (1, db') \<Longrightarrow> (\<And>a. p a \<Longrightarrow> ai_value a = v) \<Longrightarrow> v \<in> registered db"
  using count_where_pos_iff [of p "fz_identifiers db"]
  by (force simp: update_identifiers_def Let_def registered_def split: if_splits)

lemma keeps_value_simps [simp]:
  "keeps_value (\<lambda>a. a\<lparr>ai_current := g a\<rparr>)" "keeps_value (\<lambda>a. a\<lparr>ai_current := g a, ai_reserved := h a\<rparr>)"
  "keeps_value (\<lambda>a. a\<lparr>ai_invite := h a\<rparr>)" "keeps_value (\<lambda>a. a\<lparr>ai_current := g a, ai_invite := h a\<rparr>)"
  by (simp_all add: keeps_value_def)


lemma registered_create: "create_identifier v db = Inr db' \<Longrightarrow> registered db' = insert v (registered db)"
  by (auto simp: create_identifier_def registered_def split: if_splits)

lemma registered_rows:
  "claim_number n st db = Inr db' \<Longrightarrow> registered db' = registered db"
  "create_number n db = Inr db' \<Longrightarrow> registered db' = registered db"
  "create_lease l db = Inr db' \<Longrightarrow> registered db' = registered db"
  "create_order r db = Inr db' \<Longrightarrow> registered db' = registered db"
  "releaseFancyNumberInventory i v st now db = Inr db' \<Longrightarrow> registered db' = registered db"
  "update_lease i g db = Inr db' \<Longrightarrow> registered db' = registered db"
  "update_user u h db = Inr db' \<Longrightarrow> registered db' = registered db"
  "update_number i q db = Inr db' \<Longrightarrow> registered db' = registered db"
  "new_orders db db' \<Longrightarrow> registered db' = registered db"
  by (auto simp: claim_number_def update_numbers_def create_number_def create_lease_def create_order_def releaseFancyNumberInventory_def
      update_lease_def update_user_def update_number_def new_orders_def registered_def Let_def split: prod.splits if_splits option.splits)

lemma registered_prepare:
  assumes "account_identifier_prepare u old v db = Inr db'"
  shows "registered db' \<subseteq> insert v (registered db)"
proof -
  define a where "a = (if find_identifier v db = None then db\<lparr>fz_identifiers := fz_identifiers db
      @ [\<lparr>ai_value = v, ai_current = None, ai_reserved = None, ai_invite = None\<rparr>]\<rparr> else db)"
  have add: "registered a \<subseteq> insert v (registered db)" by (auto simp: registered_def a_def)
  have p: "account_identifier_prepare u old v db = (if v = old then Inr db else if occupied_for u v db then Inl IdentifierCollision
      else if (case find_identifier v db of Some a \<Rightarrow> ai_current a = Some u | None \<Rightarrow> False) then Inr db
      else bind_res (update_identifiers (\<lambda>a. ai_value a = old \<and> ai_current a = Some u) (\<lambda>a. a\<lparr>ai_current := None\<rparr>) a) (\<lambda>(_, db2).
           bind_res (update_identifiers (\<lambda>a. ai_value a = v \<and> ai_current a = None) (\<lambda>a. a\<lparr>ai_current := Some u\<rparr>) db2) (\<lambda>(n, db3).
           if n = 0 then Inl IdentifierCollision else Inr db3)))"
    by (simp add: account_identifier_prepare_def a_def Let_def)
  show ?thesis
  proof (cases "db' = db")
    case False
    then obtain n db2 m where
      "update_identifiers (\<lambda>a. ai_value a = old \<and> ai_current a = Some u) (\<lambda>a. a\<lparr>ai_current := None\<rparr>) a = Inr (n, db2)"
      "update_identifiers (\<lambda>a. ai_value a = v \<and> ai_current a = None) (\<lambda>a. a\<lparr>ai_current := Some u\<rparr>) db2 = Inr (m, db')"
      using assms unfolding p by (auto simp: result_simps split: if_splits)
    then have "registered db' = registered db2" "registered db2 = registered a" using registered_update by (simp_all add: keeps_value_def)
    with add show ?thesis by simp
  qed auto
qed

lemma registered_account:
  assumes "update_account u v f db = Inr db'"
  shows "registered db' \<subseteq> insert v (registered db)"
proof -
  obtain x where "find_fancy_user u db = Some x" using assms by (auto simp: update_account_def split: option.splits)
  then obtain db1 db2 where p: "account_identifier_prepare u (uu_accountId x) v db = Inr db1" and u: "update_user u (\<lambda>y. f y\<lparr>uu_accountId := v\<rparr>) db1 = Inr db2"
      and d: "account_identifier_cleanup (uu_accountId x) v db2 = Inr db'"
    using assms by (auto simp: update_account_def result_simps split: if_splits)
  have "registered db' \<subseteq> registered db2"
    using d by (auto simp: account_identifier_cleanup_def registered_def Let_def split: if_splits)
  then show ?thesis using registered_prepare [OF p] registered_rows(7) [OF u] by auto
qed

lemma names_okI: "names_ok db \<Longrightarrow> registered db' \<subseteq> insert v (registered db) \<Longrightarrow> stored_name v \<or> v \<in> registered db \<Longrightarrow> names_ok db'"
  by (auto simp: names_ok_def)

lemma names_same: "registered db' = registered db \<Longrightarrow> names_ok db' = names_ok db"
  by (simp add: names_ok_def)

section \<open>Transactions\<close>

lemma names_return_account:
  assumes ok: "names_ok db" and r: "return_account now l v r db = Inr db'"
  shows "names_ok db'"
proof -
  obtain db1 db2 db3 where s1: "update_identifiers (\<lambda>a. ai_value a = v \<and> ai_current a = Some (fl_userID l)) (\<lambda>a. a\<lparr>ai_current := None\<rparr>) db = Inr (1, db1)"
    and s2: "update_identifiers (\<lambda>a. ai_value a = r \<and> ai_current a = None \<and> ai_reserved a = Some (fl_userID l))
       (\<lambda>a. a\<lparr>ai_current := Some (fl_userID l), ai_reserved := None\<rparr>) db1 = Inr (1, db2)"
    and s3: "update_account (fl_userID l) r (\<lambda>x. x\<lparr>uu_fancy := False, uu_fancyExpiresAt := None, uu_fancyPermanent := False\<rparr>) db2 = Inr db3"
    and s4: "releaseFancyNumberInventory (fl_numberID l) v LEASED_N now db3 = Inr db'"
    using r by (auto simp: return_account_def result_simps split: if_splits)
  have e: "registered db2 = registered db" "registered db1 = registered db"
    using registered_update [OF s1] registered_update [OF s2] by simp_all
  have "r \<in> registered db1" by (rule updated_registered [OF s2]) simp
  then have "names_ok db3" by (intro names_okI [OF ok, of db3 r]) (use registered_account [OF s3] e in auto)
  then show ?thesis using names_same [OF registered_rows(5) [OF s4]] by simp
qed

lemma names_expireLease:
  assumes ok: "names_ok db"
  shows "names_ok (snd (committed (expireLease now i db) db))"
proof (cases "\<exists>db'. expireLease now i db = Inr (True, db')")
  case True
  then obtain db' where db': "expireLease now i db = Inr (True, db')" by blast
  obtain k d l where c: "find_lease i db = Some l" "close_lease now l db = (k, d)"
    using db' that by (cases "find_lease i db") (simp_all add: expireLease_def, metis surj_pair)
  then obtain v r where e: "return_account now l v r (snd (close_lease now l db)) = Inr db'"
    using db' by (auto simp: expireLease_def result_simps split: if_splits)
  have "names_ok (snd (close_lease now l db))" using ok names_same [of "snd (close_lease now l db)" db] by (simp add: close_lease_def Let_def)
  then show ?thesis using names_return_account [OF _ e] db' by (simp add: committed_snd)
next
  case False
  have "fz_identifiers (snd (committed (expireLease now i db) db)) = fz_identifiers db"
    using False by (auto simp: committed_snd expireLease_def close_lease_def result_simps Let_def split: sum.split option.splits if_splits prod.splits)
  then show ?thesis using ok by (simp add: names_ok_def registered_def)
qed


lemma names_target:
  assumes ok: "names_ok db" and t: "available_target e target u db = Inr (n, db1)" and c: "\<And>v. target = Custom v \<Longrightarrow> stored_name v"
  shows "names_ok db1"
proof -
  have r: "resolvePurchasableTarget e target u db = Inr (Some n, db1)"
    using t by (auto simp: available_target_def result_simps split: option.splits if_splits)
  show ?thesis
  proof (cases "db1 = db")
    case False
    then obtain v where v: "target = Custom v" "number_of_value v db = None" "find_identifier v db = None"
      using r by (auto simp: resolvePurchasableTarget_def split: number_target.splits option.splits if_splits)
    obtain d m where "create_identifier v db = Inr d" "create_number m d = Inr db1"
      using r v by (auto simp: resolvePurchasableTarget_def Let_def result_simps split: sum.splits fancy_error.splits)
    then have "registered db1 = insert v (registered db)" using registered_create registered_rows(2) by metis
    then show ?thesis using ok c [OF v(1)] by (simp add: names_ok_def)
  qed (simp add: ok)
qed

lemma names_write_purchase:
  assumes ok: "names_ok db" and w: "write_purchase e x target n months key db = Inr (res, db')"
  shows "names_ok db'"
proof -
  obtain db1 db2 db3 db4 db5 db6 db7 b f t where
    s1: "claim_number n (if months = None then PERMANENT_N else LEASED_N) db = Inr db1" and s2: "reserve_original (uu_id x) (uu_accountId x) db1 = Inr db2"
    and s3: "assign_identifier (uu_id x) (fn_value n) db2 = Inr (1, db3)" and s4: "charge_wallet (uu_id x) (months_price months) db3 = Inr (b, db4)"
    and s5: "create_lease (purchased_lease e x n months t) db4 = Inr db5" and s6: "update_account (uu_id x) (fn_value n) f db5 = Inr db6"
    and s7: "create_order (purchase_order e x target n months t key b) db6 = Inr db7"
    and s8: "(if 0 < months_price months then book_points e (uu_id x) (months_price months) b key db7 else Inr db7) = Inr db'"
    by (rule write_purchase_parts [OF w])
  have r: "registered db2 = registered db1"
    using s2 registered_update by (fastforce simp: reserve_original_def result_simps split: if_splits)
  have "fn_value n \<in> registered db2" using s3 unfolding assign_identifier_def by (rule updated_registered) simp
  moreover have "registered db3 = registered db2" using s3 unfolding assign_identifier_def by (rule registered_update) simp
  ultimately have d: "registered db5 = registered db" "fn_value n \<in> registered db"
    using r registered_rows(1) [OF s1] registered_rows(9) [OF new_orders_simps(4) [OF s4]] registered_rows(3) [OF s5] by auto
  have "registered db' = registered db7" using s8 registered_rows(9) [OF new_orders_simps(2)] by (auto split: if_splits)
  then have "registered db' \<subseteq> insert (fn_value n) (registered db)"
    using registered_account [OF s6] registered_rows(4) [OF s7] d by simp
  then show ?thesis using names_okI [OF ok] d by blast
qed

lemma names_write_switch:
  assumes ok: "names_ok db" and w: "write_switch e l old target n key db = Inr (res, db')"
  shows "names_ok db'"
proof -
  obtain db1 db2 db3 db4 db5 db6 db7 db8 b f where
    s1: "charge_wallet (fl_userID l) FANCY_NUMBER_UNIT_PRICE db = Inr (b, db1)" and s2: "claim_number n PERMANENT_N db1 = Inr db2"
    and s3: "update_identifiers (\<lambda>a. ai_value a = old \<and> ai_current a = Some (fl_userID l)) (\<lambda>a. a\<lparr>ai_current := None\<rparr>) db2 = Inr (1, db3)"
    and s4: "assign_identifier (fl_userID l) (fn_value n) db3 = Inr (1, db4)"
    and s5: "releaseFancyNumberInventory (fl_numberID l) old PERMANENT_N (fe_now e) db4 = Inr db5"
    and s6: "update_lease (fl_id l) (\<lambda>x. x\<lparr>fl_numberID := fn_id n\<rparr>) db5 = Inr db6" and s7: "update_account (fl_userID l) (fn_value n) f db6 = Inr db7"
    and s8: "create_order (switch_order e l target n key b) db7 = Inr db8" and s9: "book_points e (fl_userID l) FANCY_NUMBER_UNIT_PRICE b key db8 = Inr db'"
    by (rule write_switch_parts [OF w])
  have "fn_value n \<in> registered db3" using s4 unfolding assign_identifier_def by (rule updated_registered) simp
  moreover have "registered db4 = registered db3" using s4 unfolding assign_identifier_def by (rule registered_update) simp
  moreover have "registered db3 = registered db2" by (rule registered_update [OF s3]) simp
  ultimately have d: "registered db6 = registered db" "fn_value n \<in> registered db"
    using registered_rows(9) [OF new_orders_simps(4) [OF s1]] registered_rows(1) [OF s2] registered_rows(5) [OF s5] registered_rows(6) [OF s6] by auto
  have "registered db' = registered db7" using registered_rows(9) [OF new_orders_simps(2) [OF s9]] registered_rows(4) [OF s8] by simp
  then have "registered db' \<subseteq> insert (fn_value n) (registered db)" using registered_account [OF s7] d by simp
  then show ?thesis using names_okI [OF ok] d by blast
qed

lemma names_write_renewal:
  assumes ok: "names_ok db" and w: "write_renewal e l n old months key db = Inr (res, db')"
  shows "names_ok db'"
proof -
  obtain c b db1 db2 db3 db4 g h r where s: "debit_points (fl_userID l) (months * FANCY_NUMBER_UNIT_PRICE) (db\<lparr>fz_coin := c\<rparr>) = Inr (b, db1)"
      "update_lease (fl_id l) g db1 = Inr db2" "update_user (fl_userID l) h db2 = Inr db3"
      "create_order r db3 = Inr db4" "book_points e (fl_userID l) (months * FANCY_NUMBER_UNIT_PRICE) b key db4 = Inr db'"
    using w by (auto simp: write_renewal_def Let_def result_simps)
  have "registered db1 = registered db" using registered_rows(9) [OF new_orders_simps(3) [OF s(1)]] by simp
  then have "registered db' = registered db"
    using registered_rows(6) [OF s(2)] registered_rows(7) [OF s(3)] registered_rows(4) [OF s(4)] registered_rows(9) [OF new_orders_simps(2) [OF s(5)]] by simp
  then show ?thesis using ok names_same by blast
qed

lemma names_purchase_tx:
  assumes ok: "names_ok db" and p: "purchase_tx e u target months key quote db = Inr (r, db')" and c: "\<And>v. target = Custom v \<Longrightarrow> stored_name v"
  shows "names_ok db'"
proof (cases "db' = db")
  case False
  then obtain x m n db1 where "available_target e target u db = Inr (n, db1)" "write_purchase e x target n m key db1 = Inr (r, db')"
    using p by (auto simp: purchase_tx_def Let_def result_simps split: option.splits if_splits)
  then show ?thesis using names_write_purchase names_target [OF ok _ c] by blast
qed (simp add: ok)

lemma names_switch_tx:
  assumes ok: "names_ok db" and p: "switch_tx e u target key quote db = Inr (r, db')" and c: "\<And>v. target = Custom v \<Longrightarrow> stored_name v"
  shows "names_ok db'"
proof (cases "db' = db")
  case False
  then obtain l old n db1 where "available_target e target u db = Inr (n, db1)" "write_switch e l old target n key db1 = Inr (r, db')"
    using p by (auto simp: switch_tx_def result_simps split: option.splits if_splits)
  then show ?thesis using names_write_switch names_target [OF ok _ c] by blast
qed (simp add: ok)

lemma names_renew_tx: "names_ok db \<Longrightarrow> renew_tx e u months key quote db = Inr (r, db') \<Longrightarrow> names_ok db'"
  using names_write_renewal by (auto simp: renew_tx_def split: option.splits if_splits)

lemma names_change_account_tx:
  assumes ok: "names_ok db" and v: "stored_name v" and c: "change_account_tx u v db = Inr (r, db')"
  shows "names_ok db'"
proof -
  have "update_account u v (\<lambda>y. y) db = Inr db'"
    using c by (auto simp: change_account_tx_def result_simps split: option.splits if_splits)
  then show ?thesis using names_okI [OF ok registered_account] v by blast
qed

lemma names_convert:
  assumes ok: "names_ok db" and c: "convertActiveLeaseToPermanent now orderId u db = Inr (b, db')"
  shows "names_ok db'"
proof (cases "db' = db")
  case False
  obtain l t where l: "active_lease u db = Some l" "fl_permanentAt l = None" "fl_expiresAt l = Some t"
    using False c by (auto simp: convertActiveLeaseToPermanent_def split: option.splits)
  show ?thesis
  proof (cases "t \<le> now")
    case True
    obtain k d where "close_lease now l db = (k, d)" by fastforce
    then obtain v r where e: "return_account now l v r (snd (close_lease now l db)) = Inr db'"
      using c l True by (auto simp: convertActiveLeaseToPermanent_def restoreExpiredLeaseInTransaction_def result_simps split: if_splits)
    have "names_ok (snd (close_lease now l db))" using ok names_same [of "snd (close_lease now l db)" db] by (simp add: close_lease_def Let_def)
    then show ?thesis by (rule names_return_account [OF _ e])
  next
    case False
    then obtain db2 db3 where u: "update_number (fl_numberID l) (\<lambda>n. n\<lparr>fn_status := PERMANENT_N, fn_disabledAt := None\<rparr>) (snd (convert_lease now l db)) = Inr db2"
          "update_user u (\<lambda>x. x\<lparr>uu_fancy := True, uu_fancyExpiresAt := None, uu_fancyPermanent := True\<rparr>) db2 = Inr db3"
        and o: "db' = db3 \<or> (\<exists>r. create_order r db3 = Inr db')"
      using c l by (auto simp: convertActiveLeaseToPermanent_def Let_def result_simps split: prod.splits if_splits)
    have "registered db' = registered db"
      using registered_rows(8) [OF u(1)] registered_rows(7) [OF u(2)] o registered_rows(4) by (auto simp: convert_lease_def Let_def)
    then show ?thesis using ok names_same by blast
  qed
qed (simp add: ok)

lemma names_ensure: "registered (ensure_identifier v db) \<subseteq> insert v (registered db)"
proof (cases "create_identifier v db")
  case (Inr db')
  then show ?thesis using registered_create [OF Inr] by (simp add: ensure_identifier_def)
qed (auto simp: ensure_identifier_def)

lemma names_create_user:
  assumes ok: "names_ok db" and c: "create_user x w db = Inr db'" and v: "stored_name (uu_accountId x)" "stored_name w"
  shows "names_ok db'"
proof -
  let ?v = "uu_accountId x" and ?u = "uu_id x"
  define db2 where "db2 = (if w \<noteq> ?v then ensure_identifier w (ensure_identifier ?v db) else ensure_identifier ?v db)"
  obtain n4 db4 f where s4: "update_identifiers (\<lambda>a. ai_value a = ?v) f (db2\<lparr>fz_users := fz_users db2 @ [x]\<rparr>) = Inr (n4, db4)" "keeps_value f"
      and s5: "db' = db4 \<or> (\<exists>n. update_identifiers (\<lambda>a. ai_value a = w) (\<lambda>a. a\<lparr>ai_invite := Some ?u\<rparr>) db4 = Inr (n, db'))"
    using c unfolding create_user_def Let_def db2_def [symmetric] by (auto simp: result_simps split: if_splits)
  have "registered db2 \<subseteq> insert w (insert ?v (registered db))"
    using names_ensure [of ?v db] names_ensure [of w "ensure_identifier ?v db"] by (auto simp: db2_def)
  moreover have "registered db4 = registered db2" using registered_update [OF s4] by simp
  moreover have "registered db' = registered db4" using s5 registered_update [of _ _ db4 _ db'] by auto
  ultimately show ?thesis using ok v by (auto simp: names_ok_def)
qed

section \<open>Administration\<close>

lemma names_campaign_code:
  "names_ok db \<Longrightarrow> \<forall>c \<in> set ds. stored_name (js_lower c) \<Longrightarrow> campaign_code ds db = Inr (c, db') \<Longrightarrow> names_ok db'"
proof (induction ds db rule: campaign_code.induct)
  case (2 c' cs db)
  then show ?case
    by (auto simp: Let_def result_simps names_ok_def dest!: registered_create split: if_splits)
qed simp

lemma names_campaign_codes:
  "names_ok db \<Longrightarrow> \<forall>ds \<in> set draws. \<forall>c \<in> set ds. stored_name (js_lower c) \<Longrightarrow> campaign_codes draws db = Inr (cs, db') \<Longrightarrow> names_ok db'"
proof (induction draws arbitrary: cs db)
  case (Cons ds draws)
  then obtain c d cs' where c: "campaign_code (take 30 ds) db = Inr (c, d)" "campaign_codes draws d = Inr (cs', db')"
    by (auto simp: result_simps)
  have "\<forall>c \<in> set (take 30 ds). stored_name (js_lower c)" using Cons.prems(2) in_set_takeD [of _ 30 ds] by simp
  then have "names_ok d" by (rule names_campaign_code [OF Cons.prems(1) _ c(1)])
  then show ?case using Cons.IH [OF _ _ c(2)] Cons.prems(2) by simp
qed simp

lemma registered_creates: "create_identifiers vs db = Inr db' \<Longrightarrow> registered db' = set vs \<union> registered db"
proof (induction vs arbitrary: db)
  case (Cons v vs)
  then obtain d where "create_identifier v db = Inr d" "create_identifiers vs d = Inr db'" by (auto simp: result_simps)
  then show ?case using Cons.IH [of d] registered_create by auto
qed simp

lemma registered_numbers: "create_numbers actor b newId vs db = Inr db' \<Longrightarrow> registered db' = registered db"
proof (induction actor b newId vs db rule: create_numbers.induct)
  case (2 actor b newId v k vs db)
  then show ?case using registered_rows(2) by (auto simp: result_simps)
qed simp

lemma registered_recommend [simp]: "registered (recommend_existing vals k db) = registered db"
  by (simp add: recommend_existing_def)

lemma names_batch:
  assumes ok: "names_ok db" and c: "adminBatchCreate collate newId actor vals db = Inr (r, db')" and sort: "\<And>xs. set (collate xs) \<subseteq> set xs"
  shows "names_ok db'"
proof -
  let ?vs = "collate (remdups (map (\<lambda>v. js_lower (js_trim v)) vals))"
  obtain d where d: "create_identifiers ?vs db = Inr d" "\<forall>v \<in> set ?vs. account_id_pattern v"
      "create_numbers (Some actor) False newId (zip ?vs (map int [0..<length ?vs])) d = Inr db'"
    using c by (auto simp: adminBatchCreate_def Let_def result_simps list_ex_iff split: if_splits sum.splits)
  have "js_lower v = v" if "v \<in> set ?vs" for v using subsetD [OF sort that] by auto
  then have "\<forall>v \<in> set ?vs. stored_name v" using d(2) by (simp add: stored_name_def)
  then show ?thesis using ok registered_creates [OF d(1)] registered_numbers [OF d(3)] by (auto simp: names_ok_def)
qed

lemma collect_res_set: "collect_res rs = Inr vs \<Longrightarrow> v \<in> set vs \<Longrightarrow> Inr v \<in> set rs"
  by (induction rs arbitrary: vs) (auto simp: result_simps)

lemma names_addRecommendations:
  assumes ok: "names_ok db" and c: "adminAddRecommendations newId actor vals db = Inr (r, db')"
  shows "names_ok db'"
proof -
  obtain normalized where n: "collect_res (map (\<lambda>v. map_sum id snd (requireCustomFancyNumber v)) vals) = Inr normalized"
    using c by (auto simp: adminAddRecommendations_def result_simps)
  have good: "stored_name v" if "v \<in> set normalized" for v
    using collect_res_set [OF n that] requireCustom_stored by (auto simp: map_sum_def split: sum.splits)
  define append where "append = filter (\<lambda>v. case number_of_value v db of None \<Rightarrow> True | Some n \<Rightarrow> \<not> fn_recommended n) normalized"
  define new where "new = filter (\<lambda>(k, v). number_of_value v db = None) (enumerate 0 append)"
  obtain db1 first where d: "create_identifiers (map snd new) db = Inr db1"
      "create_numbers (Some actor) True newId (map (\<lambda>(k, v). (v, first + int k)) new) (recommend_existing append first db1) = Inr db'"
    using c n unfolding adminAddRecommendations_def Let_def append_def [symmetric] new_def [symmetric]
    by (auto simp: result_simps append_def [symmetric] new_def [symmetric] split: if_splits sum.splits)
  have "set (map snd new) \<subseteq> set normalized" by (auto simp: new_def append_def enumerate_eq_zip dest!: set_zip_rightD)
  then show ?thesis using ok good registered_creates [OF d(1)] registered_numbers [OF d(2)] by (auto simp: names_ok_def)
qed

lemma registered_admin:
  "adminSetRecommendation i b db = Inr (r, db') \<Longrightarrow> registered db' = registered db"
  "adminReorderRecommendations es is' db = Inr (rs, db') \<Longrightarrow> registered db' = registered db"
  "adminSetAvailability now i b db = Inr (r, db') \<Longrightarrow> registered db' = registered db"
  by (auto simp: adminSetRecommendation_def adminReorderRecommendations_def adminSetAvailability_def update_number_def Let_def result_simps
      split: option.splits if_splits)

section \<open>Requests and histories\<close>

lemma names_committed: "names_ok db \<Longrightarrow> (\<And>a db'. r = Inr (a, db') \<Longrightarrow> names_ok db') \<Longrightarrow> names_ok (snd (committed r db))"
  by (auto simp: committed_snd split: sum.split)

lemma names_tx:
  assumes rely: "relies (\<lambda>a. names_ok) names_ok others" and ok: "names_ok db" and tx: "\<And>d a d'. names_ok d \<Longrightarrow> tx d = Inr (a, d') \<Longrightarrow> names_ok d'"
  shows "names_ok (snd (committed (tx (others k db)) (others k db)))"
  using names_run.rely_first [OF rely ok] tx by (blast intro: names_committed)

lemma names_expireOverdue:
  assumes rely: "relies (\<lambda>a. names_ok) names_ok others" and ok: "names_ok db"
  shows "names_ok (snd (expireOverdueLeaseForUser others k now u db))"
  using names_run.rely_first [OF rely] ok names_expireLease by (auto simp: expireOverdueLeaseForUser_def Let_def split: option.split)

lemma names_purchaseTarget:
  assumes rely: "relies (\<lambda>a. names_ok) names_ok others" and ok: "names_ok db" and c: "\<And>v. target = Custom v \<Longrightarrow> stored_name v"
  shows "names_ok (snd (purchaseTarget others e u target months clientKey quote db))"
proof -
  obtain r d where d: "expireOverdueLeaseForUser others 0 (fe_now e) u db = (r, d)" by fastforce
  have 1: "names_ok d" using names_expireOverdue [OF rely ok, of 0 "fe_now e" u] by (simp add: d)
  have "names_ok (snd (committed (purchase_tx e u target months key quote (others 2 d)) (others 2 d)))" for key
    by (rule names_tx [OF rely 1]) (rule names_purchase_tx [OF _ _ c])
  then show ?thesis using 1 ok by (auto simp: purchaseTarget_def d Let_def split: sum.split)
qed

lemma names_switchPermanentTarget:
  assumes rely: "relies (\<lambda>a. names_ok) names_ok others" and ok: "names_ok db" and c: "\<And>v. target = Custom v \<Longrightarrow> stored_name v"
  shows "names_ok (snd (switchPermanentTarget others e u target clientKey quote db))"
proof -
  have "names_ok (snd (committed (switch_tx e u target key quote (others 0 db)) (others 0 db)))" for key
    by (rule names_tx [OF rely ok]) (rule names_switch_tx [OF _ _ c])
  then show ?thesis using ok by (auto simp: switchPermanentTarget_def Let_def split: sum.split)
qed

lemma names_renew:
  assumes rely: "relies (\<lambda>a. names_ok) names_ok others" and ok: "names_ok db"
  shows "names_ok (snd (renew others e u months clientKey quote db))"
proof -
  have 1: "names_ok (others 0 db)" by (rule names_run.rely_first [OF rely ok])
  obtain r d where d: "expireOverdueLeaseForUser others 1 (fe_now e) u (others 0 db) = (r, d)" by fastforce
  have 2: "names_ok d" using names_expireOverdue [OF rely 1, of 1 "fe_now e" u] by (simp only: d snd_conv)
  have 3: "names_ok (snd (committed (renew_tx e u months key quote (others 3 d)) (others 3 d)))" for key
    by (rule names_tx [OF rely 2]) (rule names_renew_tx)
  show ?thesis using 1 2 3 ok by (auto simp: renew_def d [simplified] Let_def split: sum.split option.split bool.split)
qed

lemma names_end_read:
  assumes rely: "relies (\<lambda>a. names_ok) names_ok others" and ok: "names_ok db"
  shows "names_ok (snd (committed (expireLease now i (others 1 (others 0 db))) (others 1 (others 0 db))))"
  by (intro names_expireLease names_run.rely_first [OF rely] ok)

lemma names_getMine:
  assumes rely: "relies (\<lambda>a. names_ok) names_ok others" and ok: "names_ok db"
  shows "names_ok (snd (getMine others now u db))"
  using names_run.rely_first [OF rely ok] names_end_read [OF rely ok, of now]
  by (auto simp: getMine_def Let_def split: option.split prod.split sum.split) (metis snd_conv)+

lemma names_changeAccountId:
  assumes rely: "relies (\<lambda>a. names_ok) names_ok others" and ok: "names_ok db"
  shows "names_ok (snd (changeAccountId others now u accountId db))"
proof -
  let ?v = "js_lower (js_trim accountId)"
  obtain r d where d: "ensureAccountIdChangeAllowed others now u db = (r, d)" by fastforce
  have "names_ok (snd (ensureAccountIdChangeAllowed others now u db))"
    using names_run.rely_first [OF rely ok] names_end_read [OF rely ok, of now]
    by (auto simp: ensureAccountIdChangeAllowed_def Let_def split: option.split prod.split sum.split) (metis snd_conv)+
  then have 1: "names_ok d" by (simp add: d)
  have 2: "names_ok (snd (committed (change_account_tx u ?v (others 2 d)) (others 2 d)))" if "account_id_pattern ?v"
    by (rule names_tx [OF rely 1]) (rule names_change_account_tx, use that in \<open>auto simp: stored_name_def\<close>)
  show ?thesis using 1 2 ok by (auto simp: changeAccountId_def d Let_def split: sum.split prod.split)
qed

lemma names_expire_pages:
  assumes rely: "relies (\<lambda>a. names_ok) names_ok others"
  shows "names_ok db \<Longrightarrow> names_ok (snd (expire_pages others fuel k now after db))"
proof (induction fuel arbitrary: k after db)
  case (Suc fuel)
  have each: "names_ok d \<Longrightarrow> names_ok (snd (expire_each others j now ls d))" for j ls d
  proof (induction ls arbitrary: j d)
    case (Cons l ls)
    obtain r d2 where c: "committed (expireLease now (fl_id l) (others j d)) (others j d) = (r, d2)" by fastforce
    have "names_ok d2" using names_expireLease [OF names_run.rely_first [OF rely Cons.prems], of now "fl_id l" j] by (simp add: c)
    then have "names_ok (snd (expire_each others (Suc j) now ls d2))" by (rule Cons.IH)
    then show ?case by (auto simp: c Let_def split: prod.split)
  qed simp
  obtain n d2 where e: "expire_each others (Suc k) now (due_page now after (others k db)) (others k db) = (n, d2)" by fastforce
  have 1: "names_ok d2" using each [OF names_run.rely_first [OF rely Suc.prems], of "Suc k"] by (metis e snd_conv)
  have "names_ok (snd (expire_pages others fuel k' now after' d2))" for k' after' by (rule Suc.IH [OF 1])
  then show ?case using 1 by (simp add: e Let_def split: prod.split) (metis snd_conv)
qed simp

text \<open>Registration and the generators of invite codes make well-formed names, and \<open>localeCompare\<close> only sorts.\<close>

fun names_allowed :: "fancy_op \<Rightarrow> bool" where
  "names_allowed (CreateUserOp x w) \<longleftrightarrow> stored_name (uu_accountId x) \<and> stored_name w"
| "names_allowed (BatchOp collate newId actor vals) \<longleftrightarrow> (\<forall>xs. set (collate xs) \<subseteq> set xs)"
| "names_allowed (CampaignOp draws) \<longleftrightarrow> (\<forall>ds \<in> set draws. \<forall>c \<in> set ds. stored_name (js_lower c))"
| "names_allowed _ \<longleftrightarrow> True"

lemma names_fancy_exec:
  assumes rely: "relies (\<lambda>a. names_ok) names_ok others" and ok: "names_ok db" and a: "names_allowed x"
  shows "names_ok (fancy_exec others x db)"
proof -
  note h = names_tx [OF rely ok, of _ 0]
  show ?thesis
  proof (cases x)
    case PurchaseOp then show ?thesis by (auto simp: purchase_def intro!: names_purchaseTarget [OF rely ok])
  next
    case (PurchaseCustomOp e u v m k q)
    show ?thesis
    proof (cases "requireCustomFancyNumber v")
      case (Inr p)
      then have "stored_name (snd p)" using requireCustom_stored [of v "fst p" "snd p"] by simp
      then show ?thesis using Inr PurchaseCustomOp by (cases p) (auto simp: purchaseCustom_def intro!: names_purchaseTarget [OF rely ok])
    qed (simp add: purchaseCustom_def PurchaseCustomOp ok)
  next
    case SwitchOp then show ?thesis by (auto simp: switchPermanent_def intro!: names_switchPermanentTarget [OF rely ok])
  next
    case (SwitchCustomOp e u v k q)
    show ?thesis
    proof (cases "requireCustomFancyNumber v")
      case (Inr p)
      then have "stored_name (snd p)" using requireCustom_stored [of v "fst p" "snd p"] by simp
      then show ?thesis using Inr SwitchCustomOp by (cases p) (auto simp: switchPermanentCustom_def intro!: names_switchPermanentTarget [OF rely ok])
    qed (simp add: switchPermanentCustom_def SwitchCustomOp ok)
  next
    case RenewOp then show ?thesis using names_renew [OF rely ok] by simp
  next
    case (ConvertOp now i u) show ?thesis unfolding ConvertOp fancy_exec.simps by (rule h) (rule names_convert)
  next
    case GetMineOp then show ?thesis using names_getMine [OF rely ok] by simp
  next
    case ChangeAccountOp then show ?thesis using names_changeAccountId [OF rely ok] by simp
  next
    case (CreateUserOp y w)
    have "names_ok d'" if "names_ok d" "map_sum id (\<lambda>d. ((), d)) (create_user y w d) = Inr (r, d')" for d r d'
      using that names_create_user [OF that(1)] a CreateUserOp by (cases "create_user y w d") auto
    then show ?thesis unfolding CreateUserOp fancy_exec.simps by (rule h)
  next
    case SweepOp then show ?thesis using names_expire_pages [OF rely ok] by (simp add: expireDue_def)
  next
    case (BatchOp c g b v)
    then have "set (c xs) \<subseteq> set xs" for xs using a by simp
    then show ?thesis unfolding BatchOp fancy_exec.simps by (intro h) (rule names_batch)
  next
    case (AddRecommendationsOp g b v) show ?thesis unfolding AddRecommendationsOp fancy_exec.simps by (rule h) (rule names_addRecommendations)
  next
    case (SetRecommendationOp i b)
    show ?thesis unfolding SetRecommendationOp fancy_exec.simps by (rule h) (simp add: names_same [OF registered_admin(1)])
  next
    case (ReorderOp es is')
    show ?thesis unfolding ReorderOp fancy_exec.simps by (rule h) (simp add: names_same [OF registered_admin(2)])
  next
    case (AvailabilityOp now i b)
    show ?thesis unfolding AvailabilityOp fancy_exec.simps by (rule h) (simp add: names_same [OF registered_admin(3)])
  next
    case (CampaignOp draws)
    then have "\<forall>ds \<in> set draws. \<forall>c \<in> set ds. stored_name (js_lower c)" using a by simp
    then show ?thesis unfolding CampaignOp fancy_exec.simps by (intro h) (rule names_campaign_codes)
  qed
qed

end
