(* ===== verification/FancyClaims.thy ===== *)
theory FancyClaims
  imports FancyPay FancyNames
begin

text \<open>
  Fancy numbers: the properties. A consistent registry after any history, the return of the account id when a lease ends, the
  sweep, and one payment per idempotency key.
\<close>

section \<open>Purchases in full\<close>

lemma purchase_new:
  assumes inv: "fancy_inv db" and coin: "coin_inv (fz_coin db)" and p: "purchase_tx e u target months key quote db = Inr (res, db')"
    and new: "find_order key db = None"
  shows "\<exists>x n m t b l. people db u = Some x \<and> uu_id x = u \<and> uu_active x \<and> fancy_evolves db db'
    \<and> (m = (if 4 \<le> uu_vipLevel x then None else months)) \<and> (m = None \<longleftrightarrow> 4 \<le> uu_vipLevel x)
    \<and> (\<forall>k. m = Some k \<longrightarrow> 1 \<le> k \<and> k \<le> 12) \<and> (t = None \<longleftrightarrow> m = None)
    \<and> l = purchased_lease e x n m t \<and> leases db' (fe_leaseId e) = Some l
    \<and> map_option uu_accountId (people db' u) = Some (fn_value n) \<and> map_option uu_active (people db' u) = Some True
    \<and> charged u (months_price m) (fz_coin db) (fz_coin db')
    \<and> find_order key db' = Some (purchase_order e x target n m t key b)
    \<and> res = order_result (purchase_order e x target n m t key b) (displayTargetValue (fn_value n) target) (m = None)"
proof -
  note k = fancy_invD(1) [OF inv]
  obtain x where x: "find_fancy_user u db = Some x" "uu_active x"
    using p by (auto simp: purchase_tx_def split: option.splits if_splits)
  then have ux: "uu_id x = u" "people db u = Some x" by (auto simp: find_fancy_user_def people_def dest: find_where_SomeD)
  let ?permanent = "4 \<le> uu_vipLevel x"
  have level: "resolveEffectiveMembershipLevel (uu_vipLevel x) (uu_vipExpiresAt x) (fe_now e) = 4 \<longleftrightarrow> ?permanent"
    by (auto simp: resolveEffectiveMembershipLevel_def split: option.split)
  let ?m = "if ?permanent then None else months"
  obtain n db1 where al: "active_lease u db = None" and a: "available_target e target u db = Inr (n, db1)"
      and w: "write_purchase e x target n ?m key db1 = Inr (res, db')"
      and range: "\<not> (\<not> ?permanent \<and> (case months of None \<Rightarrow> True | Some k \<Rightarrow> k < 1 \<or> 12 < k))"
    using p x new by (auto simp: purchase_tx_def level Let_def result_simps split: if_splits)
  have none: "?m = None \<longleftrightarrow> ?permanent" using range by (auto split: option.splits)
  have mok: "1 \<le> j \<and> j \<le> 12" if "?m = Some j" for j using that range by (auto split: if_splits)
  note t = available_target_ok [OF inv a]
  have inv1: "fancy_inv db1" using t fancy_run.evol_inv by blast
  have free: "fl_userID m \<noteq> uu_id x" if "leases db1 j = Some m" "lease_active m" for j m
    using that t active_lease_None [OF al] ux by auto
  have xx: "people db1 (uu_id x) = Some x" using t ux by simp
  obtain t where till: "lease_end (fe_now e) ?m = Inr t" and e: "fancy_evolves db1 db'" "leases db' (fe_leaseId e) = Some (purchased_lease e x n ?m t)"
      "map_option uu_accountId (people db' u) = Some (fn_value n)" "map_option uu_active (people db' u) = Some True"
    using write_purchase_evolves [OF inv1 xx _ _ _ w] free t ux x(2) by auto
  have "coin_inv (fz_coin db1)" using coin t by simp
  from write_purchase_pays [OF this w] mok till obtain b where
    "charged u (months_price ?m) (fz_coin db) (fz_coin db')" "find_order key db' = Some (purchase_order e x target n ?m t key b)"
    "res = order_result (purchase_order e x target n ?m t key b) (displayTargetValue (fn_value n) target) (?m = None)"
    using t ux by auto
  moreover have "fancy_evolves db db'" using t e(1) fancy_run.evol_trans by blast
  ultimately show ?thesis using ux x(2) e mok none lease_end_None [OF till]
    by (intro exI [of _ x] exI [of _ n] exI [of _ ?m] exI [of _ t] exI [of _ b] exI [of _ "purchased_lease e x n ?m t"] conjI allI impI) simp_all
qed



section \<open>A small database\<close>

definition demo_ann :: fancy_user where
  "demo_ann = \<lparr>uu_id = ''u1'', uu_active = True, uu_accountId = ''anna'', uu_vipLevel = 0, uu_vipExpiresAt = None,
     uu_fancy = False, uu_fancyExpiresAt = None, uu_fancyPermanent = False\<rparr>"

definition demo_coins :: coin_db where
  "demo_coins = \<lparr>wallets = [\<lparr>wl_user = ''u1'', wl_balance = 500\<rparr>],
     ledger = [\<lparr>ct_user = ''u1'', ct_type = RECHARGE, ct_amount = 500, ct_balance = 500, ct_note = None, ct_related = None, ct_key = None, ct_at = 0\<rparr>],
     gifts = [], accounts = [], friendships = []\<rparr>"

definition demo_db :: "fancy_number list \<Rightarrow> fancy_lease list \<Rightarrow> fancy_order list \<Rightarrow> account_identifier list \<Rightarrow> fancy_user list \<Rightarrow> coin_db \<Rightarrow> fancy_db" where
  "demo_db ns ls os is' us c = \<lparr>fz_numbers = ns, fz_leases = ls, fz_orders = os, fz_identifiers = is', fz_campaigns = [], fz_users = us, fz_coin = c\<rparr>"

definition demo_number :: "number_status \<Rightarrow> fancy_number" where
  "demo_number st = \<lparr>fn_id = ''n1'', fn_value = ''abc123'', fn_status = st, fn_source = CUSTOM_SOURCE, fn_recommended = False,
     fn_sortOrder = 0, fn_createdBy = Some ''u1'', fn_disabledAt = None\<rparr>"

definition demo_ident :: "string \<Rightarrow> string option \<Rightarrow> string option \<Rightarrow> account_identifier" where
  "demo_ident v u r = \<lparr>ai_value = v, ai_current = u, ai_reserved = r, ai_invite = None\<rparr>"

definition demo_fancy :: fancy_db where
  "demo_fancy = demo_db [] [] [] [demo_ident ''anna'' (Some ''u1'') None] [demo_ann] demo_coins"

definition demo_env :: fancy_env where
  "demo_env = \<lparr>fe_now = 0, fe_numberId = ''n1'', fe_leaseId = ''l1'', fe_orderId = ''o1'', fe_note = []\<rparr>"

lemmas demo_rows = demo_db_def demo_number_def demo_ident_def

lemma demo_fancy_inv: "fancy_inv demo_fancy"
proof -
  have maps: "idents demo_fancy = [''anna'' \<mapsto> demo_ident ''anna'' (Some ''u1'') None]"
      "nums demo_fancy = Map.empty" "leases demo_fancy = Map.empty" "people demo_fancy = [''u1'' \<mapsto> demo_ann]"
    by (auto simp: view_defs [abs_def] demo_fancy_def demo_rows demo_ann_def)
  show ?thesis unfolding fancy_inv_def maps
    by (auto simp: claims_ok_def claims_defs demo_ann_def demo_rows keyed_def demo_fancy_def sound_rows_def unique_column_def List.map_filter_simps split: if_splits)
qed

lemma demo_coin_inv: "coin_inv (fz_coin demo_fancy)"
  by (auto simp: demo_fancy_def demo_rows demo_coins_def coin_inv_def bal_def balance_of_def ledger_total_def)

definition demo_end :: int where "demo_end = utc 1970 2 1 0"

lemma demo_term: "lease_end 0 (Some 2) = Inr (Some demo_end)"
proof -
  have d: "day_of 0 = day_number 1970 0 1" by (simp add: day_of_def MS_DAY_def EPOCH_DAY_def day_number_def year_start_def)
  have "civil (day_of 0) = (1970, 0, 1)" unfolding d by (rule civil_day_number) (simp add: civil_ok_def month_lengths_def)
  from addUtcCalendarMonths_eq [OF this, of 1970 2 2 31] have "addUtcCalendarMonths (Some 0) 2 = Inr (Some demo_end)"
    using early_in_range [of 1970 2 31 0] early_in_range [of 1970 2 1 0]
    by (simp add: month_lengths_def demo_end_def MS_DAY_def)
  then show ?thesis by (simp add: lease_end_def term_end_def)
qed

definition demo_lease :: fancy_lease where
  "demo_lease = \<lparr>fl_id = ''l1'', fl_userID = ''u1'', fl_numberID = ''n1'', fl_restoreAccountId = Some ''anna'', fl_startedAt = 0,
     fl_expiresAt = Some demo_end, fl_permanentAt = None, fl_endedAt = None\<rparr>"

definition demo_order :: fancy_order where
  "demo_order = \<lparr>fo_id = ''o1'', fo_key = ''client:u1:k'', fo_print = PurchasePrint ''u1'' (Custom ''abc123'') (Some 2), fo_type = PURCHASE_ORDER, fo_userID = ''u1'',
     fo_numberID = ''n1'', fo_leaseID = ''l1'', fo_months = Some 2, fo_unitPrice = 100, fo_totalPrice = 200, fo_walletAfter = Some 300,
     fo_previousExpiresAt = None, fo_newExpiresAt = Some demo_end\<rparr>"

definition demo_holder :: fancy_user where
  "demo_holder = demo_ann\<lparr>uu_accountId := ''abc123'', uu_fancy := True, uu_fancyExpiresAt := Some demo_end\<rparr>"

definition demo_paid :: "coin_tx list \<Rightarrow> coin_db" where
  "demo_paid rows = demo_coins\<lparr>wallets := [\<lparr>wl_user = ''u1'', wl_balance = 300\<rparr>], ledger := ledger demo_coins @ rows\<rparr>"

definition demo_payment :: coin_tx where
  "demo_payment = \<lparr>ct_user = ''u1'', ct_type = PURCHASE, ct_amount = -200, ct_balance = 300, ct_note = Some [], ct_related = Some ''o1'',
         ct_key = Some ''fancy-number:client:u1:k'', ct_at = 0\<rparr>"

definition demo_sold :: fancy_db where
  "demo_sold = demo_db [demo_number LEASED_N] [demo_lease] [demo_order] [demo_ident ''anna'' None (Some ''u1''), demo_ident ''abc123'' (Some ''u1'') None]
     [demo_holder] (demo_paid [demo_payment])"

lemmas find_defs = find_fancy_user_def find_order_def find_number_def find_identifier_def find_lease_def number_of_value_def

lemma demo_target:
  "available_target demo_env (Custom ''abc123'') ''u1'' demo_fancy = Inr (demo_number AVAILABLE_N, demo_db [demo_number AVAILABLE_N] [] []
     [demo_ident ''anna'' (Some ''u1'') None, demo_ident ''abc123'' None None] [demo_ann] demo_coins)"
  by (simp add: available_target_def resolvePurchasableTarget_def find_defs demo_fancy_def demo_env_def demo_rows create_identifier_def create_number_def campaign_number_def Let_def)

lemma demo_ledger: "append_ledger demo_payment (demo_paid []) = Inr (demo_paid [demo_payment])"
  by (simp add: append_ledger_def demo_paid_def demo_payment_def demo_coins_def int4_def int4_max_def)

lemma demo_steps:
  "claim_number (demo_number AVAILABLE_N) LEASED_N (demo_db [demo_number AVAILABLE_N] ls os is' us c) = Inr (demo_db [demo_number LEASED_N] ls os is' us c)"
  "reserve_original ''u1'' ''anna'' (demo_db ns ls os [demo_ident ''anna'' (Some ''u1'') None, demo_ident ''abc123'' None None] us c)
    = Inr (demo_db ns ls os [demo_ident ''anna'' None (Some ''u1''), demo_ident ''abc123'' None None] us c)"
  "assign_identifier ''u1'' ''abc123'' (demo_db ns ls os [demo_ident ''anna'' None (Some ''u1''), demo_ident ''abc123'' None None] us c)
    = Inr (1, demo_db ns ls os [demo_ident ''anna'' None (Some ''u1''), demo_ident ''abc123'' (Some ''u1'') None] us c)"
  "charge_wallet ''u1'' 200 (demo_db ns ls os is' us demo_coins) = Inr (300, demo_db ns ls os is' us (demo_paid []))"
  "create_lease demo_lease (demo_db ns [] os is' us c) = Inr (demo_db ns [demo_lease] os is' us c)"
  "create_order demo_order (demo_db ns ls [] is' us c) = Inr (demo_db ns ls [demo_order] is' us c)"
  by (simp_all add: claim_number_def update_numbers_def demo_rows reserve_original_def assign_identifier_def update_identifiers_def campaign_claim_def Let_def
    unique_column_def List.map_filter_simps claimed_identifier_def charge_wallet_def debit_points_def debit_wallets_def upsert_wallet_def balance_of_def
    demo_coins_def demo_paid_def create_lease_def create_order_def leases_ok_def demo_lease_def find_order_def table_simps)

lemma demo_account:
  "update_account ''u1'' ''abc123'' (\<lambda>y. y\<lparr>uu_fancy := True, uu_fancyExpiresAt := Some demo_end, uu_fancyPermanent := False\<rparr>)
     (demo_db ns ls os [demo_ident ''anna'' None (Some ''u1''), demo_ident ''abc123'' (Some ''u1'') None] [demo_ann] c)
   = Inr (demo_db ns ls os [demo_ident ''anna'' None (Some ''u1''), demo_ident ''abc123'' (Some ''u1'') None] [demo_holder] c)"
  by (simp add: update_account_def account_identifier_prepare_def occupied_for_def account_identifier_cleanup_def update_user_def find_defs
    demo_rows demo_ann_def demo_holder_def claimed_identifier_def delete_where_def Let_def)

lemma demo_book:
  "book_points demo_env ''u1'' 200 300 ''client:u1:k'' (demo_db ns ls os is' us (demo_paid [])) = Inr (demo_db ns ls os is' us (demo_paid [demo_payment]))"
proof -
  have "book_points demo_env ''u1'' 200 300 ''client:u1:k'' (demo_db ns ls os is' us (demo_paid []))
    = (case append_ledger demo_payment (demo_paid []) of Inl err \<Rightarrow> Inl (PaymentFailed err) | Inr c \<Rightarrow> Inr (demo_db ns ls os is' us c))"
    by (simp add: book_points_def demo_payment_def demo_env_def demo_db_def split: sum.split)
  then show ?thesis by (simp add: demo_ledger)
qed

lemma demo_tx:
  "purchase_tx demo_env ''u1'' (Custom ''abc123'') (Some 2) ''client:u1:k'' None demo_fancy
   = Inr (order_result demo_order ''ABC123'' False, demo_sold)"
proof -
  have u: "find_fancy_user ''u1'' demo_fancy = Some demo_ann" "find_order ''client:u1:k'' demo_fancy = None" "active_lease ''u1'' demo_fancy = None"
    by (simp_all add: find_defs demo_fancy_def demo_db_def demo_ann_def active_lease_def)
  have a: "uu_id demo_ann = ''u1''" "uu_accountId demo_ann = ''anna''" "uu_active demo_ann" "fn_value (demo_number st) = ''abc123''"
      "resolveEffectiveMembershipLevel (uu_vipLevel demo_ann) (uu_vipExpiresAt demo_ann) t \<noteq> 4" for st t
    by (simp_all add: demo_ann_def demo_number_def resolveEffectiveMembershipLevel_def)
  have l: "purchased_lease demo_env demo_ann (demo_number AVAILABLE_N) (Some 2) (Some demo_end) = demo_lease"
    by (simp add: purchased_lease_def demo_env_def demo_ann_def demo_number_def demo_lease_def)
  have o': "purchase_order demo_env demo_ann (Custom ''abc123'') (demo_number AVAILABLE_N) (Some 2) (Some demo_end) ''client:u1:k'' 300 = demo_order"
    by (simp add: purchase_order_def purchased_lease_def demo_env_def demo_ann_def demo_number_def demo_order_def demo_lease_def months_price_def FANCY_NUMBER_UNIT_PRICE_def)
  have e: "lease_end (fe_now demo_env) (Some 2) = Inr (Some demo_end)" by (simp add: demo_env_def demo_term)
  have p: "months_price (Some 2) = 200" by (simp add: months_price_def FANCY_NUMBER_UNIT_PRICE_def)
  have up: "js_upper ''abc123'' = ''ABC123''" by code_simp
  have w: "write_purchase demo_env demo_ann (Custom ''abc123'') (demo_number AVAILABLE_N) (Some 2) ''client:u1:k''
      (demo_db [demo_number AVAILABLE_N] [] [] [demo_ident ''anna'' (Some ''u1'') None, demo_ident ''abc123'' None None] [demo_ann] demo_coins)
    = Inr (order_result demo_order ''ABC123'' False, demo_sold)"
    by (simp add: write_purchase_def Let_def l o' p e a demo_steps demo_account demo_book up displayTargetValue_def demo_sold_def)
  show ?thesis by (simp add: purchase_tx_def u a quote_changed_def demo_target w Let_def)
qed


section \<open>The registry\<close>

text \<open>C9: after any history of purchases, exchanges, renewals, conversions, changes of account ids, new users, sweeps, campaigns and
  administrative changes, in any order and with the requests of others between their reads and transactions, the registry is
  consistent: no two users have the same account id, no two active leases are on one number, and the holder of an active lease
  carries its number as account id while the original id is reserved for the holder and free of owners.\<close>

theorem fancy_registry_consistent:
  assumes "\<forall>(others, x) \<in> set rs. relies fancy_evolves fancy_inv others \<and> fancy_allowed x" "fancy_inv db"
    and db': "db' = fold (\<lambda>(others, x). fancy_exec others x) rs db"
  shows "fancy_inv db'
    \<and> (\<forall>u w x y. people db' u = Some x \<and> people db' w = Some y \<and> uu_accountId x = uu_accountId y \<longrightarrow> u = w)
    \<and> (\<forall>i j l m. leases db' i = Some l \<and> leases db' j = Some m \<and> lease_active l \<and> lease_active m \<and> fl_numberID l = fl_numberID m \<longrightarrow> i = j)
    \<and> (\<forall>i l. leases db' i = Some l \<and> lease_active l \<longrightarrow> (\<exists>n x. nums db' (fl_numberID l) = Some n \<and> people db' (fl_userID l) = Some x
         \<and> uu_accountId x = fn_value n \<and> (\<forall>r. fl_restoreAccountId l = Some r \<longrightarrow>
             (\<exists>a. idents db' r = Some a \<and> ai_reserved a = Some (fl_userID l) \<and> ai_current a = None))))"
proof -
  have inv: "fancy_inv db'" using evolves_fancy_history [OF assms(1,2)] fancy_run.evol_inv db' by blast
  note ok = fancy_invD(3) [OF inv]
  have users: "u = w" if "people db' u = Some x" "people db' w = Some y" "uu_accountId x = uu_accountId y" for u w x y
    using claims_user(2) [OF ok that(1)] claims_user(2) [OF ok that(2)] that(3) by auto
  have lease: "\<exists>n x. nums db' (fl_numberID l) = Some n \<and> people db' (fl_userID l) = Some x \<and> uu_accountId x = fn_value n
      \<and> (\<forall>r. fl_restoreAccountId l = Some r \<longrightarrow> (\<exists>a. idents db' r = Some a \<and> ai_reserved a = Some (fl_userID l) \<and> ai_current a = None))"
    if "leases db' i = Some l" "lease_active l" for i l
    using claims_lease(2) [OF ok that] claims_ident(3) [OF ok] unfolding lease_fits_def by metis
  show ?thesis using inv users lease claims_lease_number [OF ok] by blast
qed

theorem fancy_registry_consistent_witness:
  "fancy_inv (fold (\<lambda>(others, x). fancy_exec others x) [(\<lambda>_ d. d, PurchaseCustomOp demo_env ''u1'' ''abc123'' (Some 2) ''k'' None),
     (\<lambda>k d. if k = 0 then fancy_exec (\<lambda>_ d. d) (GetMineOp 7 ''u1'') d else d, SweepOp 3 9999999999999)] demo_fancy)"
proof -
  have idle: "relies fancy_evolves fancy_inv (\<lambda>_ d. d)" by (simp add: relies_def fancy_run.evol_refl)
  have "relies fancy_evolves fancy_inv (\<lambda>k d. if k = 0 then fancy_exec (\<lambda>_ d. d) (GetMineOp 7 ''u1'') d else d)"
    using evolves_fancy_exec [OF idle, of _ "GetMineOp 7 ''u1''"] by (auto simp: relies_def fancy_run.evol_refl)
  then show ?thesis using idle by (intro conjunct1 [OF fancy_registry_consistent [OF _ demo_fancy_inv refl]]) simp
qed

text \<open>C13: the account id comes back. Whatever requests follow a purchase, when its lease is due its end succeeds, gives the user
  the account id from before the purchase, and leaves no trace of the number at the user.\<close>

theorem lease_gives_account_back:
  assumes inv: "fancy_inv db" "coin_inv (fz_coin db)" and x: "people db u = Some x"
    and p: "purchase_tx e u target months key quote db = Inr (res, db1)" "find_order key db = None"
    and hist: "\<forall>(others, y) \<in> set rs. relies fancy_evolves fancy_inv others \<and> fancy_allowed y" "db2 = fold (\<lambda>(others, y). fancy_exec others y) rs db1"
    and due: "leases db2 (fe_leaseId e) = Some l" "due_lease now l"
  shows "\<exists>db3 y. expireLease now (fe_leaseId e) db2 = Inr (True, db3) \<and> fancy_inv db3 \<and> people db3 u = Some y
    \<and> uu_accountId y = uu_accountId x \<and> \<not> uu_fancy y \<and> \<not> uu_fancyPermanent y \<and> uu_fancyExpiresAt y = None"
proof -
  obtain n m t where new: "fancy_evolves db db1" "leases db1 (fe_leaseId e) = Some (purchased_lease e x n m t)" "uu_id x = u"
    using purchase_new [OF inv p] x by (metis option.inject)
  have ev: "fancy_evolves db1 db2" unfolding hist(2) by (rule evolves_fancy_history [OF hist(1) fancy_run.evol_inv [OF new(1)]])
  then have "lease_step (purchased_lease e x n m t) l" using new(2) due(1) unfolding fancy_evolves_def by (metis option.inject)
  then have l: "fl_restoreAccountId l = Some (uu_accountId x)" "fl_userID l = u" using new(3) by (simp_all add: lease_step_def purchased_lease_def)
  obtain db3 where db3: "expireLease now (fe_leaseId e) db2 = Inr (True, db3)" "fancy_inv db3" "ended_lease now (fe_leaseId e) l db2 db3"
    using expireLease_due [OF fancy_run.evol_inv [OF ev] due] by blast
  then show ?thesis using l by (auto simp: ended_lease_def)
qed

theorem lease_gives_account_back_witness:
  "\<exists>db3 y. expireLease demo_end ''l1'' demo_sold = Inr (True, db3) \<and> fancy_inv db3 \<and> people db3 ''u1'' = Some y
    \<and> uu_accountId y = ''anna'' \<and> \<not> uu_fancy y \<and> \<not> uu_fancyPermanent y \<and> uu_fancyExpiresAt y = None"
proof -
  have "find_order ''client:u1:k'' demo_fancy = None" "people demo_fancy ''u1'' = Some demo_ann" "leases demo_sold ''l1'' = Some demo_lease"
      "due_lease demo_end demo_lease"
    by (simp_all add: demo_fancy_def demo_sold_def demo_db_def find_order_def view_defs demo_ann_def demo_lease_def due_lease_def)
  moreover have "fe_leaseId demo_env = ''l1''" "uu_accountId demo_ann = ''anna''" by (simp_all add: demo_env_def demo_ann_def)
  ultimately show ?thesis
    using lease_gives_account_back [OF demo_fancy_inv demo_coin_inv _ demo_tx, where rs = "[]" and x = demo_ann and l = demo_lease
      and now = demo_end] by simp
qed

text \<open>C24: the sweep that nobody disturbs ends every due lease, counts them, and stops: one round more than the full pages is
  enough fuel.\<close>

theorem sweep_leaves_nothing_due:
  assumes "fancy_inv db" "length (due_rows now db) div EXPIRE_PAGE < fuel"
  shows "\<exists>db'. expireDue (\<lambda>_ d. d) fuel now db = (Some (length (due_rows now db)), db') \<and> fancy_inv db'
    \<and> (\<forall>l \<in> set (fz_leases db'). \<not> due_lease now l)"
proof -
  obtain db' where "expire_pages (\<lambda>_ d. d) fuel 0 now None db = (Some (length (due_rows now db)), db')" "fancy_inv db'" "due_rows now db' = []"
    using sweep_alone [OF assms(1) _ assms(2), of None 0] by auto
  then show ?thesis by (auto simp: expireDue_def due_rows_def filter_empty_conv)
qed

lemma demo_sold_inv: "fancy_inv demo_sold"
  using purchase_new [OF demo_fancy_inv demo_coin_inv demo_tx] fancy_run.evol_inv
  by (auto simp: demo_fancy_def demo_db_def find_order_def)

theorem sweep_leaves_nothing_due_witness:
  "\<exists>db'. expireDue (\<lambda>_ d. d) 1 demo_end demo_sold = (Some 1, db') \<and> fancy_inv db'
    \<and> (\<forall>l \<in> set (fz_leases db'). \<not> due_lease demo_end l)"
proof -
  have "length (due_rows demo_end demo_sold) = 1"
    by (simp add: due_rows_def demo_sold_def demo_db_def demo_lease_def due_lease_def)
  then show ?thesis using sweep_leaves_nothing_due [OF demo_sold_inv, of demo_end 1] by (simp add: EXPIRE_PAGE_def)
qed

section \<open>One payment per key\<close>

text \<open>Ending a lease touches neither coins nor orders.\<close>

lemma expireLease_frame:
  assumes inv: "fancy_inv db" and r: "expireLease now i db = Inr (b, db')"
  shows "fz_coin db' = fz_coin db \<and> fz_orders db' = fz_orders db"
proof (cases "\<exists>l. leases db i = Some l \<and> due_lease now l")
  case True
  then show ?thesis using expireLease_due [OF inv] r by (fastforce simp: ended_lease_def)
next
  case False
  then have "db' = db" using r by (auto simp: expireLease_def leases_def split: option.splits if_splits)
  then show ?thesis by simp
qed

text \<open>Other requests that leave money and orders alone, and the requests that carry a key.\<close>

definition quiet :: "(nat \<Rightarrow> fancy_db \<Rightarrow> fancy_db) \<Rightarrow> bool" where
  "quiet others \<longleftrightarrow> (\<forall>k db. fz_coin (others k db) = fz_coin db \<and> fz_orders (others k db) = fz_orders db)"

fun spends :: "string \<Rightarrow> fancy_op \<Rightarrow> bool" where
  "spends key (PurchaseOp e u i months ck quote) \<longleftrightarrow> clientIdempotencyKey u ck = Inr key"
| "spends key (PurchaseCustomOp e u v months ck quote) \<longleftrightarrow> clientIdempotencyKey u ck = Inr key"
| "spends key (SwitchOp e u i ck quote) \<longleftrightarrow> clientIdempotencyKey u ck = Inr key"
| "spends key (SwitchCustomOp e u v ck quote) \<longleftrightarrow> clientIdempotencyKey u ck = Inr key"
| "spends key (RenewOp e u months ck quote) \<longleftrightarrow> clientIdempotencyKey u ck = Inr key"
| "spends key _ \<longleftrightarrow> False"

definition same_money :: "fancy_db \<Rightarrow> fancy_db \<Rightarrow> bool" where
  "same_money db db' \<longleftrightarrow> fz_coin db' = fz_coin db \<and> fz_orders db' = fz_orders db"

lemma same_money_simps [simp]: "same_money db db" "quiet others \<Longrightarrow> same_money db (others k db)"
  by (simp_all add: same_money_def quiet_def)

lemma same_money_trans [trans]: "same_money a b \<Longrightarrow> same_money b c \<Longrightarrow> same_money a c"
  by (simp add: same_money_def)

lemma same_money_order: "same_money db db' \<Longrightarrow> find_order key db' = find_order key db"
  by (simp add: same_money_def find_order_def)

lemma expireOverdue_money:
  assumes inv: "fancy_inv db" and rely: "relies fancy_evolves fancy_inv others" and q: "quiet others"
  shows "same_money db (snd (expireOverdueLeaseForUser others k now u db))"
proof -
  have 1: "same_money db (others k db)" using q by simp
  also have "same_money (others k db) (others (Suc k) (others k db))" using q by simp
  finally have 2: "same_money db (others (Suc k) (others k db))" .
  have "fancy_evolves db (others (Suc k) (others k db))" by (intro fancy_run.rely_step [OF rely] fancy_run.rely_first [OF rely inv])
  then have "fancy_inv (others (Suc k) (others k db))" by (rule fancy_run.evol_inv)
  then have 3: "same_money (others (Suc k) (others k db)) (snd (committed (expireLease now i (others (Suc k) (others k db))) (others (Suc k) (others k db))))" for i
    using expireLease_frame by (fastforce simp: committed_def same_money_def split: sum.split)
  show ?thesis using 1 same_money_trans [OF 2 3]
    by (simp add: expireOverdueLeaseForUser_def Let_def split: option.split)
qed

lemma spent_key_tx:
  assumes "find_order key db = Some r"
  shows "purchase_tx e u target months key quote db = Inr (res, db') \<Longrightarrow> db' = db"
    "switch_tx e u target key quote db = Inr (res, db') \<Longrightarrow> db' = db"
    "renew_tx e u k key quote db = Inr (res, db') \<Longrightarrow> db' = db"
  using assms by (auto simp: purchase_tx_def switch_tx_def renew_tx_def split: option.splits if_splits)

lemma committed_money: "(\<And>a db'. r = Inr (a, db') \<Longrightarrow> db' = db) \<Longrightarrow> snd (committed r db) = db"
  by (auto simp: committed_def split: sum.split)

lemma purchaseTarget_spent:
  assumes inv: "fancy_inv db" and rely: "relies fancy_evolves fancy_inv others" and q: "quiet others"
    and key: "clientIdempotencyKey u ck = Inr key" "find_order key db = Some r"
  shows "same_money db (snd (purchaseTarget others e u target months ck quote db))"
proof -
  obtain x d where d: "expireOverdueLeaseForUser others 0 (fe_now e) u db = (x, d)" by fastforce
  have 1: "same_money db d" using expireOverdue_money [OF inv rely q, of 0 "fe_now e" u] by (simp add: d)
  then have 2: "same_money db (others 2 d)" using q same_money_simps(2) same_money_trans by blast
  have "snd (committed (purchase_tx e u target months key quote (others 2 d)) (others 2 d)) = others 2 d"
    using spent_key_tx(1) same_money_order [OF 2] key(2) by (intro committed_money) auto
  then show ?thesis using 1 2 by (simp add: purchaseTarget_def key(1) d Let_def split: sum.split)
qed

lemma switchPermanentTarget_spent:
  assumes q: "quiet others" and key: "clientIdempotencyKey u ck = Inr key" "find_order key db = Some r"
  shows "same_money db (snd (switchPermanentTarget others e u target ck quote db))"
proof -
  have 1: "same_money db (others 0 db)" using q by simp
  have "snd (committed (switch_tx e u target key quote (others 0 db)) (others 0 db)) = others 0 db"
    using spent_key_tx(2) same_money_order [OF 1] key(2) by (intro committed_money) auto
  then show ?thesis using 1 by (simp add: switchPermanentTarget_def key(1) Let_def)
qed

lemma renew_spent:
  assumes q: "quiet others" and key: "clientIdempotencyKey u ck = Inr key" "find_order key db = Some r"
  shows "same_money db (snd (renew others e u months ck quote db))"
proof -
  have 1: "same_money db (others 0 db)" using q by simp
  then show ?thesis using same_money_order [OF 1] key by (simp add: renew_def Let_def)
qed

lemma spends_nothing:
  assumes inv: "fancy_inv db" and rely: "relies fancy_evolves fancy_inv others" and q: "quiet others"
    and y: "spends key y" and r: "find_order key db = Some r"
  shows "same_money db (fancy_exec others y db)"
  using y purchaseTarget_spent [OF inv rely q _ r] switchPermanentTarget_spent [OF q _ r] renew_spent [OF q _ r]
  by (cases y) (auto simp: purchase_def purchaseCustom_def switchPermanent_def switchPermanentCustom_def split: sum.split)

text \<open>The same request again: the due lease is ended if need be, and the answer is read from the order.\<close>

lemma purchase_tx_again:
  assumes "find_fancy_user u db = Some y" "uu_active y" "find_order key db = Some (purchase_order e x target n m t key b)"
    and "nums db (fn_id n) = Some n'" "fn_value n' = fn_value n" "uu_id x = u" "t = None \<longleftrightarrow> m = None" "m = None \<or> m = months"
  shows "purchase_tx e' u target months key quote db =
    Inr (order_result (purchase_order e x target n m t key b) (displayTargetValue (fn_value n) target) (m = None), db)"
  using assms unfolding purchase_tx_def by (auto simp: purchase_order_def nums_def)

lemma overdue_alone:
  assumes inv: "fancy_inv db" and d: "expireOverdueLeaseForUser (\<lambda>_ d. d) k now u db = (r, db')"
  shows "(\<exists>b. r = Inr b) \<and> same_money db db'
    \<and> (\<forall>w x. people db w = Some x \<longrightarrow> (\<exists>y. people db' w = Some y \<and> uu_active y = uu_active x))
    \<and> (\<forall>i n. nums db i = Some n \<longrightarrow> (\<exists>n'. nums db' i = Some n' \<and> fn_value n' = fn_value n))"
proof (cases "find_where (\<lambda>l. fl_userID l = u \<and> due_lease now l) (fz_leases db)")
  case None
  then show ?thesis using d by (auto simp: expireOverdueLeaseForUser_def Let_def)
next
  case (Some l)
  then have l: "l \<in> set (fz_leases db)" "due_lease now l" by (auto dest: find_where_SomeD)
  have "leases db (fl_id l) = Some l"
    using lookup_in [of fl_id "fz_leases db" l] l fancy_invD(1) [OF inv] by (simp add: keyed_def leases_def find_lease_def)
  then obtain db2 where e: "expireLease now (fl_id l) db = Inr (True, db2)" "ended_lease now (fl_id l) l db db2"
    using expireLease_due [OF inv _ l(2)] by blast
  then have "r = Inr True" "db' = db2" using d Some by (auto simp: expireOverdueLeaseForUser_def committed_def)
  then show ?thesis using e(2) by (auto simp: ended_lease_def same_money_def)
qed

lemma purchaseTarget_meets:
  assumes inv: "fancy_inv db" and rely: "relies fancy_evolves fancy_inv others"
    and d: "d = others 2 (snd (expireOverdueLeaseForUser others 0 (fe_now e) u db))"
    and p: "purchaseTarget others e u target months clientKey quote db = (Inr res, db1)" and key: "clientIdempotencyKey u clientKey = Inr key"
  shows "purchase_tx e u target months key quote d = Inr (res, db1)" "fancy_inv d"
proof -
  obtain r where r: "expireOverdueLeaseForUser others 0 (fe_now e) u db = (Inr r, snd (expireOverdueLeaseForUser others 0 (fe_now e) u db))"
    using p key by (cases "expireOverdueLeaseForUser others 0 (fe_now e) u db") (auto simp: purchaseTarget_def split: sum.splits)
  show "purchase_tx e u target months key quote d = Inr (res, db1)"
    using p unfolding purchaseTarget_def key d by (subst (asm) r) (auto simp: Let_def committed_def split: sum.splits)
  have "fancy_evolves db (snd (expireOverdueLeaseForUser others 0 (fe_now e) u db))" by (rule evolves_expireOverdue [OF inv rely])
  then show "fancy_inv d" unfolding d by (intro fancy_run.evol_inv fancy_run.rely_step [OF rely])
qed

text \<open>C16: a purchase that meets the database \<open>d\<close> in its transaction takes exactly its price from the buyer's wallet and ledger
  and nothing from anybody else's, and the wallet never goes below zero: members of the highest level pay nothing and keep the number for
  good, everybody else pays 100 for each month asked for, one to twelve. And the key is spent: the same request again gives the
  same answer and neither charges nor files an order, also when the lease has run out meanwhile; after any history no purchase, exchange or
  renewal of anybody with that key moves coins or files an order, and in whatever state such a transaction starts it changes
  nothing.\<close>

theorem purchase_pays_once:
  assumes inv: "fancy_inv db" "coin_inv (fz_coin d)" and rely: "relies fancy_evolves fancy_inv others"
    and d: "d = others 2 (snd (expireOverdueLeaseForUser others 0 (fe_now e) u db))"
    and p: "purchaseTarget others e u target months clientKey quote db = (Inr res, db1)"
    and new: "clientIdempotencyKey u clientKey = Inr key" "find_order key d = None" and x: "people d u = Some x"
    and hist: "\<forall>(others, y) \<in> set rs. relies fancy_evolves fancy_inv others \<and> fancy_allowed y" "db2 = fold (\<lambda>(others, y). fancy_exec others y) rs db1"
    and late: "relies fancy_evolves fancy_inv others'" "quiet others'" "spends key y"
  shows "(\<exists>price. (if 4 \<le> uu_vipLevel x then price = 0 else \<exists>k. months = Some k \<and> 1 \<le> k \<and> k \<le> 12 \<and> price = 100 * k)
        \<and> charged u price (fz_coin d) (fz_coin db1) \<and> rs_totalPrice res = price \<and> (rs_permanent res \<longleftrightarrow> 4 \<le> uu_vipLevel x))
    \<and> (\<exists>db1'. purchaseTarget (\<lambda>_ d. d) e' u target months clientKey quote' db1 = (Inr res, db1') \<and> same_money db1 db1')
    \<and> same_money db2 (fancy_exec others' y db2)
    \<and> (purchase_tx e'' u' target' months' key quote'' db2 = Inr (r, c) \<longrightarrow> c = db2)
    \<and> (switch_tx e'' u' target' key quote'' db2 = Inr (r, c) \<longrightarrow> c = db2)
    \<and> (renew_tx e'' u' k' key quote'' db2 = Inr (r, c) \<longrightarrow> c = db2)"
proof -
  note invd = purchaseTarget_meets(2) [OF inv(1) rely d p new(1)] and tx = purchaseTarget_meets(1) [OF inv(1) rely d p new(1)]
  obtain x' n m t b l where x': "people d u = Some x'" "uu_id x' = u" and ev: "fancy_evolves d db1"
      and m: "m = (if 4 \<le> uu_vipLevel x' then None else months)" "m = None \<longleftrightarrow> 4 \<le> uu_vipLevel x'" "t = None \<longleftrightarrow> m = None"
        "\<forall>k. m = Some k \<longrightarrow> 1 \<le> k \<and> k \<le> 12"
      and l: "l = purchased_lease e x' n m t" "leases db1 (fe_leaseId e) = Some l"
      and acc: "map_option uu_accountId (people db1 u) = Some (fn_value n)" "map_option uu_active (people db1 u) = Some True"
      and pay: "charged u (months_price m) (fz_coin d) (fz_coin db1)"
      and ord: "find_order key db1 = Some (purchase_order e x' target n m t key b)"
      and res: "res = order_result (purchase_order e x' target n m t key b) (displayTargetValue (fn_value n) target) (m = None)"
    using purchase_new [OF invd inv(2) tx new(2)] by metis
  have xx: "x' = x" using x x'(1) by simp
  have price: "if 4 \<le> uu_vipLevel x then months_price m = 0 else \<exists>k. months = Some k \<and> 1 \<le> k \<and> k \<le> 12 \<and> months_price m = 100 * k"
    using m by (cases m) (auto simp: xx months_price_def FANCY_NUMBER_UNIT_PRICE_def)
  have r: "rs_totalPrice res = months_price m" "rs_permanent res \<longleftrightarrow> 4 \<le> uu_vipLevel x"
    using m(2) by (simp_all add: res order_result_def purchase_order_def xx)
  have inv1: "fancy_inv db1" by (rule fancy_run.evol_inv [OF ev])
  have "lease_active l" by (simp add: l(1) purchased_lease_def lease_active_def)
  then have "lease_fits (idents db1) (nums db1) (people db1) l" by (rule claims_lease(2) [OF fancy_invD(3) [OF inv1] l(2)])
  then obtain n' where n': "nums db1 (fn_id n) = Some n'" "fn_value n' = fn_value n"
    using acc(1) x'(2) by (auto simp: lease_fits_def l(1) purchased_lease_def)
  obtain y0 where y0: "people db1 u = Some y0" "uu_active y0" using acc(2) by auto
  obtain o2 db1' where o2: "expireOverdueLeaseForUser (\<lambda>_ d. d) 0 (fe_now e') u db1 = (o2, db1')" by fastforce
  note alone = overdue_alone [OF inv1 o2]
  obtain y1 n1 where y1: "find_fancy_user u db1' = Some y1" "uu_active y1" and n1: "nums db1' (fn_id n) = Some n1" "fn_value n1 = fn_value n"
    using alone y0 n' by (metis people_def)
  have "find_order key db1' = Some (purchase_order e x' target n m t key b)" using alone same_money_order ord by metis
  from purchase_tx_again [OF y1 this n1 x'(2) m(3)] m(1) have "purchase_tx e' u target months key quote' db1' = Inr (res, db1')"
    by (simp add: res)
  then have again: "purchaseTarget (\<lambda>_ d. d) e' u target months clientKey quote' db1 = (Inr res, db1') \<and> same_money db1 db1'"
    using alone by (auto simp: purchaseTarget_def new(1) o2 committed_def)
  have ev2: "fancy_evolves db1 db2" unfolding hist(2) by (rule evolves_fancy_history [OF hist(1) inv1])
  then have kept: "find_order key db2 = Some (purchase_order e x' target n m t key b)" using ord by (simp add: fancy_evolves_def)
  note late' = spends_nothing [OF fancy_run.evol_inv [OF ev2] late kept]
  show ?thesis using price pay r again late' spent_key_tx [OF kept] by blast
qed

text \<open>The demonstration: two months of a custom number for a user without membership, and the same key in a renewal much later.\<close>

theorem purchase_pays_once_witness:
  "\<exists>db1'. purchaseTarget (\<lambda>_ d. d) (demo_env\<lparr>fe_now := demo_end\<rparr>) ''u1'' (Custom ''abc123'') (Some 2) ''k'' None demo_sold
      = (Inr (order_result demo_order ''ABC123'' False), db1') \<and> same_money demo_sold db1'
    \<and> charged ''u1'' 200 (fz_coin demo_fancy) (fz_coin demo_sold)
    \<and> same_money demo_sold (fancy_exec (\<lambda>_ d. d) (RenewOp demo_env ''u1'' 3 ''k'' None) demo_sold)"
proof -
  have none: "expireOverdueLeaseForUser (\<lambda>_ d. d) 0 (fe_now demo_env) ''u1'' demo_fancy = (Inr False, demo_fancy)"
    by (simp add: expireOverdueLeaseForUser_def demo_fancy_def demo_db_def find_where_def)
  have key: "clientIdempotencyKey ''u1'' ''k'' = Inr ''client:u1:k''" by code_simp
  have p: "purchaseTarget (\<lambda>_ d. d) demo_env ''u1'' (Custom ''abc123'') (Some 2) ''k'' None demo_fancy
      = (Inr (order_result demo_order ''ABC123'' False), demo_sold)"
    by (simp add: purchaseTarget_def key none demo_tx committed_def)
  have new: "find_order ''client:u1:k'' demo_fancy = None" and x: "people demo_fancy ''u1'' = Some demo_ann"
    by (simp_all add: demo_fancy_def demo_db_def find_order_def view_defs demo_ann_def)
  have idle: "relies fancy_evolves fancy_inv (\<lambda>_ d. d)" "quiet (\<lambda>_ d. d)" by (simp_all add: relies_def fancy_run.evol_refl quiet_def)
  have spends: "spends ''client:u1:k'' (RenewOp demo_env ''u1'' 3 ''k'' None)" by (simp add: key)
  have d: "demo_fancy = (\<lambda>_ d. d) (2 :: nat) (snd (expireOverdueLeaseForUser (\<lambda>_ d. d) 0 (fe_now demo_env) ''u1'' demo_fancy))"
    by (simp add: none)
  have price: "rs_totalPrice (order_result demo_order ''ABC123'' False) = 200" by (simp add: order_result_def demo_order_def)
  have hist: "\<forall>(others, y) \<in> set []. relies fancy_evolves fancy_inv others \<and> fancy_allowed y" by simp
  note c = purchase_pays_once [OF demo_fancy_inv demo_coin_inv idle(1) d p key new x hist refl idle spends,
      where e' = "demo_env\<lparr>fe_now := demo_end\<rparr>" and quote' = None, unfolded price fold_Nil id_apply]
  note paid = conjunct1 [OF c] and again = conjunct1 [OF conjunct2 [OF c]] and later = conjunct1 [OF conjunct2 [OF conjunct2 [OF c]]]
  have "charged ''u1'' 200 (fz_coin demo_fancy) (fz_coin demo_sold)" using paid by blast
  then show ?thesis using again later by blast
qed

text \<open>C37: what is registered is well typed. After any history every identifier of the registry is an account id in lower case
  that fits the pattern of account ids, and so are the account ids of the users and the values of the numbers.\<close>

theorem fancy_names_well_formed:
  assumes "\<forall>(others, x) \<in> set rs. relies (\<lambda>a. names_ok) names_ok others \<and> names_allowed x"
    and "\<forall>(others, x) \<in> set rs. relies fancy_evolves fancy_inv others \<and> fancy_allowed x" "fancy_inv db" "names_ok db"
    and db': "db' = fold (\<lambda>(others, x). fancy_exec others x) rs db"
  shows "(\<forall>v \<in> registered db'. stored_name v) \<and> (\<forall>u x. people db' u = Some x \<longrightarrow> stored_name (uu_accountId x))
    \<and> (\<forall>i n. nums db' i = Some n \<longrightarrow> stored_name (fn_value n))"
proof -
  have "fancy_inv db'" using evolves_fancy_history [OF assms(2,3)] fancy_run.evol_inv db' by blast
  note ok = fancy_invD(3) [OF this]
  have names: "names_ok db'" unfolding db' by (rule names_run.evol_fold_allowed [OF names_fancy_exec assms(1,4)])
  have "v \<in> registered db'" if "idents db' v = Some a" for v a
    using that by (auto simp: idents_def find_identifier_def registered_def dest!: find_where_SomeD)
  then show ?thesis using names claims_user(2) [OF ok] claims_number(2) [OF ok] unfolding names_ok_def by metis
qed

theorem fancy_names_well_formed_witness:
  "registered (fold (\<lambda>(others, x). fancy_exec others x) [(\<lambda>_ d. d, PurchaseCustomOp demo_env ''u1'' '' aBc123'' (Some 2) ''k'' None)] demo_fancy) \<subseteq> Collect stored_name"
  (is "registered ?db \<subseteq> _")
proof -
  have "names_ok demo_fancy" unfolding names_ok_def registered_def demo_fancy_def demo_rows by (simp, code_simp)
  then have "\<forall>v \<in> registered ?db. stored_name v"
    by (intro conjunct1 [OF fancy_names_well_formed [OF _ _ demo_fancy_inv _ refl]]) (simp_all add: relies_def fancy_run.evol_refl)
  then show ?thesis by blast
qed

end
