(* ===== verification/RefreshTokens.thy ===== *)
theory RefreshTokens
  imports JsValue "HOL-Library.List_Lexorder"
begin

text \<open>
  Login sessions: \<open>src/auth/refresh-token.service.ts\<close>. A session is a chain of refresh
  token rows (a family); rotation retires one row and adds the next. Revocation is
  durable in two ways: rows are marked, and per-user scope counters (account,
  audience, device, family) advance, which kills every access token issued
  under an older count unless its family is exempt.
  The hash of a token and the random draws are arguments.
\<close>

section \<open>Data\<close>

datatype audience = APP | ADMIN

datatype revocation_reason =
    ROTATED | SINGLE_DEVICE_REPLACED | LOGOUT | LOGOUT_ALL | SESSION_REVOKED
  | OTHER_SESSIONS_REVOKED | TOKEN_FAMILY_REUSE

datatype revocation_scope = ACCOUNT | AUDIENCE | DEVICE | FAMILY

record refresh_token =
  rt_id :: string
  rt_userId :: string
  rt_token :: string
  rt_familyId :: string
  rt_accountGeneration :: int
  rt_audienceGeneration :: int
  rt_deviceGeneration :: int
  rt_familyGeneration :: int
  rt_audience :: audience
  rt_deviceName :: "string option"
  rt_ip :: "string option"
  rt_userAgent :: "string option"
  rt_deviceKey :: "string option"
  rt_expiredAt :: int
  rt_accessTokenExpiresAt :: "int option"
  rt_accessRevokedAt :: "int option"
  rt_accessRevocationNotifiedAt :: "int option"
  rt_accessRevocationLockedAt :: "int option"
  rt_accessRevocationLeaseToken :: "string option"
  rt_revokedAt :: "int option"
  rt_revocationReason :: "revocation_reason option"
  rt_createdAt :: int
  rt_lastUsedAt :: int

record scope_generation =
  sg_userId :: string
  sg_scope :: revocation_scope
  sg_scopeKey :: string
  sg_generation :: int
  sg_exemptFamilyId :: "string option"
  sg_notificationPending :: bool
  sg_updatedAt :: int

record session_user =
  su_id :: string
  su_status :: user_status
  su_singleDeviceLoginEnabled :: bool
  su_accessTokensRevokedAt :: "int option"

record session_db =
  tokens :: "refresh_token list"
  scopes :: "scope_generation list"
  users :: "session_user list"

record session_context =
  sc_deviceName :: "string option"
  sc_ip :: "string option"
  sc_userAgent :: "string option"
  sc_deviceKey :: "string option"

datatype auth_error =
    InvalidRefreshToken
  | InactiveAccount
  | SessionNotActive
  | ReuseDetected
  | SessionUniqueViolation
  | SessionRecordNotFound

record draws =
  dr_rawToken :: string
  dr_id :: string
  dr_familyId :: string

section \<open>Configuration\<close>

definition DEFAULT_REFRESH_TOKEN_TTL_DAYS :: rat where
  "DEFAULT_REFRESH_TOKEN_TTL_DAYS = 7"

definition DEFAULT_ADMIN_REFRESH_TTL :: string where
  "DEFAULT_ADMIN_REFRESH_TTL = ''12h''"

definition MAX_DEVICE_NAME_LENGTH :: nat where "MAX_DEVICE_NAME_LENGTH = 64"

definition MAX_USER_AGENT_LENGTH :: nat where "MAX_USER_AGENT_LENGTH = 256"

definition MAX_IP_LENGTH :: nat where "MAX_IP_LENGTH = 64"

definition REVOCATION_PAGE_SIZE :: nat where "REVOCATION_PAGE_SIZE = 100"

definition ACCESS_REVOCATION_CLAIM_LEASE_MS :: int where
  "ACCESS_REVOCATION_CLAIM_LEASE_MS = 2 * 60000"

definition ACTIVE_SESSION_LIST_LIMIT :: nat where "ACTIVE_SESSION_LIST_LIMIT = 100"

definition ACCOUNT_SCOPE_KEY :: string where "ACCOUNT_SCOPE_KEY = ''*''"

definition MS_PER_MINUTE :: rat where "MS_PER_MINUTE = 60000"

definition MS_PER_HOUR :: rat where "MS_PER_HOUR = 3600000"

definition MS_PER_DAY :: rat where "MS_PER_DAY = 86400000"

text \<open>
  The literal \<open>(\d+)\s*([dhm]?)\<close> in a trimmed string: the digits, and the unit in lower
  case if there is one.
\<close>

definition parse_amount_unit :: "string \<Rightarrow> (nat \<times> char option) option" where
  "parse_amount_unit t =
     (let ds = takeWhile is_digit t; rest = dropWhile is_space (dropWhile is_digit t)
      in if ds = [] then None
         else (case rest of
                 [] \<Rightarrow> Some (digits_value 0 ds, None)
               | [c] \<Rightarrow> if lower c \<in> {CHR ''d'', CHR ''h'', CHR ''m''}
                        then Some (digits_value 0 ds, Some (lower c)) else None
               | _ \<Rightarrow> None))"

definition parseRefreshTtlMs :: "js \<Rightarrow> rat option" where
  "parseRefreshTtlMs v =
     (case v of
        JNum x \<Rightarrow> if 0 < x then Some (x * MS_PER_DAY) else None
      | JStr s \<Rightarrow>
          if js_trim s = '''' then None
          else (case parse_amount_unit (js_trim s) of
                  None \<Rightarrow> None
                | Some (n, u) \<Rightarrow>
                    if \<not> js_finite n \<or> n = 0 then None
                    else Some (of_nat n * (case u of
                        Some c \<Rightarrow> if c = CHR ''h'' then MS_PER_HOUR
                                  else if c = CHR ''m'' then MS_PER_MINUTE else MS_PER_DAY
                      | None \<Rightarrow> MS_PER_DAY)))
      | _ \<Rightarrow> None)"

record ttl_config =
  tc_ttlMs :: rat
  tc_adminTtlMs :: rat

definition read_ttl_config :: "js \<Rightarrow> js \<Rightarrow> js \<Rightarrow> ttl_config" where
  "read_ttl_config refreshExpiresIn refreshExpiresInDays adminRefreshExpiresIn =
     (let ttl = (case parseRefreshTtlMs refreshExpiresIn of
                   Some t \<Rightarrow> t
                 | None \<Rightarrow> (case parseRefreshTtlMs refreshExpiresInDays of
                     Some t \<Rightarrow> t
                   | None \<Rightarrow> DEFAULT_REFRESH_TOKEN_TTL_DAYS * MS_PER_DAY));
          admin = (case parseRefreshTtlMs adminRefreshExpiresIn of
                   Some t \<Rightarrow> t
                 | None \<Rightarrow> (case parseRefreshTtlMs (JStr DEFAULT_ADMIN_REFRESH_TTL) of
                     Some t \<Rightarrow> t | None \<Rightarrow> 0))
      in \<lparr>tc_ttlMs = ttl, tc_adminTtlMs = min admin ttl\<rparr>)"

definition ttlMsFor :: "ttl_config \<Rightarrow> audience \<Rightarrow> rat" where
  "ttlMsFor cfg a = (case a of ADMIN \<Rightarrow> tc_adminTtlMs cfg | APP \<Rightarrow> tc_ttlMs cfg)"

definition truncate_to :: "nat \<Rightarrow> string option \<Rightarrow> string option" where
  "truncate_to n v = map_option (\<lambda>s. if length s > n then take n s else s) v"

definition normalizeContext :: "session_context option \<Rightarrow> session_context" where
  "normalizeContext ctx =
     (case ctx of
        None \<Rightarrow> \<lparr>sc_deviceName = None, sc_ip = None, sc_userAgent = None, sc_deviceKey = None\<rparr>
      | Some c \<Rightarrow> \<lparr>sc_deviceName = truncate_to MAX_DEVICE_NAME_LENGTH (sc_deviceName c),
                  sc_ip = truncate_to MAX_IP_LENGTH (sc_ip c),
                  sc_userAgent = truncate_to MAX_USER_AGENT_LENGTH (sc_userAgent c),
                  sc_deviceKey = sc_deviceKey c\<rparr>)"

section \<open>Scope generations\<close>

definition audience_name :: "audience \<Rightarrow> string" where
  "audience_name a = (case a of APP \<Rightarrow> ''APP'' | ADMIN \<Rightarrow> ''ADMIN'')"

text \<open>
  The generation rows of one session: one key per scope; a missing or empty device key
  asks for no device row.
\<close>

definition scope_key_requested ::
  "audience \<Rightarrow> string option \<Rightarrow> string \<Rightarrow> revocation_scope \<Rightarrow> string \<Rightarrow> bool" where
  "scope_key_requested a deviceKey familyId sc key =
     (case sc of
        ACCOUNT \<Rightarrow> key = ACCOUNT_SCOPE_KEY
      | AUDIENCE \<Rightarrow> key = audience_name a
      | DEVICE \<Rightarrow> (case deviceKey of None \<Rightarrow> False | Some k \<Rightarrow> k \<noteq> '''' \<and> key = k)
      | FAMILY \<Rightarrow> key = familyId)"

definition session_scope_rows ::
  "string \<Rightarrow> audience \<Rightarrow> string option \<Rightarrow> string \<Rightarrow> session_db \<Rightarrow> scope_generation list" where
  "session_scope_rows userId a deviceKey familyId db =
     filter (\<lambda>g. sg_userId g = userId
       \<and> scope_key_requested a deviceKey familyId (sg_scope g) (sg_scopeKey g)) (scopes db)"

definition currentScopeGenerations ::
  "string \<Rightarrow> audience \<Rightarrow> string option \<Rightarrow> string \<Rightarrow> session_db \<Rightarrow> revocation_scope \<Rightarrow> int" where
  "currentScopeGenerations userId a deviceKey familyId db =
     foldl (\<lambda>result row. result(sg_scope row := sg_generation row)) (\<lambda>_. 0)
       (session_scope_rows userId a deviceKey familyId db)"

definition scope_row_is :: "string \<Rightarrow> revocation_scope \<Rightarrow> string \<Rightarrow> scope_generation \<Rightarrow> bool" where
  "scope_row_is userId sc key g \<longleftrightarrow> sg_userId g = userId \<and> sg_scope g = sc \<and> sg_scopeKey g = key"

definition advanceScopeGeneration ::
  "int \<Rightarrow> string \<Rightarrow> revocation_scope \<Rightarrow> string \<Rightarrow> string option \<Rightarrow> session_db \<Rightarrow> int \<times> session_db" where
  "advanceScopeGeneration now userId sc key exempt db =
     (case find_where (scope_row_is userId sc key) (scopes db) of
        None \<Rightarrow> (1, db\<lparr>scopes := scopes db @ [\<lparr>sg_userId = userId, sg_scope = sc, sg_scopeKey = key,
                   sg_generation = 1, sg_exemptFamilyId = exempt, sg_notificationPending = True,
                   sg_updatedAt = now\<rparr>]\<rparr>)
      | Some g \<Rightarrow> (sg_generation g + 1,
          db\<lparr>scopes := update_where (scope_row_is userId sc key)
               (\<lambda>g. g\<lparr>sg_generation := sg_generation g + 1, sg_exemptFamilyId := exempt,
                       sg_notificationPending := True, sg_updatedAt := now\<rparr>) (scopes db)\<rparr>))"

record scope_event =
  se_userId :: string
  se_scope :: revocation_scope
  se_scopeKey :: string
  se_exemptFamilyId :: "string option"
  se_generation :: int

text \<open>
  After the commit the change is announced; \<open>delivered\<close> is the answer of the revocation
  service, \<open>None\<close> when it threw. Only a delivered announcement clears the row's flag,
  and only if the row has not advanced since.
\<close>

definition notifyScopeRevocationBestEffort ::
  "bool option \<Rightarrow> scope_event \<Rightarrow> session_db \<Rightarrow> session_db" where
  "notifyScopeRevocationBestEffort delivered ev db =
     (if delivered = Some True
      then db\<lparr>scopes := update_where
             (\<lambda>g. scope_row_is (se_userId ev) (se_scope ev) (se_scopeKey ev) g
                  \<and> sg_generation g = se_generation ev \<and> sg_notificationPending g)
             (\<lambda>g. g\<lparr>sg_notificationPending := False\<rparr>) (scopes db)\<rparr>
      else db)"

section \<open>Creating and revoking rows\<close>

definition createWithClient ::
  "(string \<Rightarrow> string) \<Rightarrow> ttl_config \<Rightarrow> int \<Rightarrow> draws \<Rightarrow> string \<Rightarrow> session_context option \<Rightarrow> audience
   \<Rightarrow> string \<Rightarrow> session_db \<Rightarrow> auth_error + ((string \<times> string) \<times> session_db)" where
  "createWithClient h cfg now d userId ctx a familyId db =
     (let safe = normalizeContext ctx;
          gens = currentScopeGenerations userId a (sc_deviceKey safe) familyId db
      in if \<exists>r \<in> set (tokens db). rt_token r = h (dr_rawToken d) \<or> rt_id r = dr_id d
         then Inl SessionUniqueViolation
         else Inr ((dr_rawToken d, dr_id d), db\<lparr>tokens := tokens db @ [\<lparr>
           rt_id = dr_id d, rt_userId = userId, rt_token = h (dr_rawToken d), rt_familyId = familyId,
           rt_accountGeneration = gens ACCOUNT, rt_audienceGeneration = gens AUDIENCE,
           rt_deviceGeneration = gens DEVICE, rt_familyGeneration = gens FAMILY,
           rt_audience = a, rt_deviceName = sc_deviceName safe, rt_ip = sc_ip safe,
           rt_userAgent = sc_userAgent safe, rt_deviceKey = sc_deviceKey safe,
           rt_expiredAt = \<lfloor>of_int now + ttlMsFor cfg a\<rfloor>,
           rt_accessTokenExpiresAt = None, rt_accessRevokedAt = None,
           rt_accessRevocationNotifiedAt = None, rt_accessRevocationLockedAt = None,
           rt_accessRevocationLeaseToken = None, rt_revokedAt = None, rt_revocationReason = None,
           rt_createdAt = now, rt_lastUsedAt = now\<rparr>]\<rparr>))"

text \<open>\<open>create\<close> outside a transaction draws a new family.\<close>

definition create_session ::
  "(string \<Rightarrow> string) \<Rightarrow> ttl_config \<Rightarrow> int \<Rightarrow> draws \<Rightarrow> string \<Rightarrow> session_context option \<Rightarrow> audience
   \<Rightarrow> session_db \<Rightarrow> auth_error + ((string \<times> string) \<times> session_db)" where
  "create_session h cfg now d userId ctx a db =
     createWithClient h cfg now d userId ctx a (dr_familyId d) db"

definition revoke_rows ::
  "int \<Rightarrow> revocation_reason \<Rightarrow> (refresh_token \<Rightarrow> bool) \<Rightarrow> session_db \<Rightarrow> session_db" where
  "revoke_rows now why p db = db\<lparr>tokens := update_where (\<lambda>r. p r \<and> rt_revokedAt r = None)
     (\<lambda>r. r\<lparr>rt_revokedAt := Some now, rt_revocationReason := Some why\<rparr>) (tokens db)\<rparr>"

definition revocable :: "(refresh_token \<Rightarrow> bool) \<Rightarrow> session_db \<Rightarrow> nat" where
  "revocable p db = count_where (\<lambda>r. p r \<and> rt_revokedAt r = None) (tokens db)"

definition find_token :: "string \<Rightarrow> session_db \<Rightarrow> refresh_token option" where
  "find_token th db = find_where (\<lambda>r. rt_token r = th) (tokens db)"

definition find_session :: "string \<Rightarrow> string \<Rightarrow> session_db \<Rightarrow> refresh_token option" where
  "find_session userId sid db = find_where (\<lambda>r. rt_id r = sid \<and> rt_userId r = userId) (tokens db)"

definition recordAccessTokenIssued ::
  "string \<Rightarrow> string \<Rightarrow> int \<Rightarrow> session_db \<Rightarrow> auth_error + (unit \<times> session_db)" where
  "recordAccessTokenIssued userId sid expiresAt db =
     (let hit = (\<lambda>r. rt_id r = sid \<and> rt_userId r = userId) in
      if count_where hit (tokens db) \<noteq> 1 then Inl SessionNotActive
      else Inr ((), db\<lparr>tokens := update_where hit
             (\<lambda>r. r\<lparr>rt_accessTokenExpiresAt := Some expiresAt\<rparr>) (tokens db)\<rparr>))"

definition replaceForSingleDeviceWithClient ::
  "(string \<Rightarrow> string) \<Rightarrow> ttl_config \<Rightarrow> int \<Rightarrow> draws \<Rightarrow> string \<Rightarrow> session_context option \<Rightarrow> audience
   \<Rightarrow> session_db \<Rightarrow> auth_error + (((string \<times> string) \<times> scope_event) \<times> session_db)" where
  "replaceForSingleDeviceWithClient h cfg now d userId ctx a db =
     (let (gen, db1) = advanceScopeGeneration now userId AUDIENCE (audience_name a)
                         (Some (dr_familyId d)) db;
          db2 = revoke_rows now SINGLE_DEVICE_REPLACED
                  (\<lambda>r. rt_userId r = userId \<and> rt_audience r = a) db1
      in bind_res (createWithClient h cfg now d userId ctx a (dr_familyId d) db2) (\<lambda>(s, db3).
           Inr ((s, \<lparr>se_userId = userId, se_scope = AUDIENCE, se_scopeKey = audience_name a,
                     se_exemptFamilyId = Some (dr_familyId d), se_generation = gen\<rparr>), db3)))"

definition replaceForSingleDevice ::
  "(string \<Rightarrow> string) \<Rightarrow> ttl_config \<Rightarrow> int \<Rightarrow> draws \<Rightarrow> bool option \<Rightarrow> string \<Rightarrow> session_context option
   \<Rightarrow> audience \<Rightarrow> session_db \<Rightarrow> auth_error + ((string \<times> string) \<times> session_db)" where
  "replaceForSingleDevice h cfg now d delivered userId ctx a db =
     bind_res (replaceForSingleDeviceWithClient h cfg now d userId ctx a db)
       (\<lambda>((s, ev), db'). Inr (s, notifyScopeRevocationBestEffort delivered ev db'))"

definition find_user :: "string \<Rightarrow> session_db \<Rightarrow> session_user option" where
  "find_user u db = find_where (\<lambda>x. su_id x = u) (users db)"

definition createSessionForCurrentSingleDeviceSetting ::
  "(string \<Rightarrow> string) \<Rightarrow> ttl_config \<Rightarrow> int \<Rightarrow> draws \<Rightarrow> bool option \<Rightarrow> string \<Rightarrow> session_context option
   \<Rightarrow> audience \<Rightarrow> session_db \<Rightarrow> auth_error + ((string \<times> string) \<times> session_db)" where
  "createSessionForCurrentSingleDeviceSetting h cfg now d delivered userId ctx a db =
     (case find_user userId db of
        None \<Rightarrow> Inl InactiveAccount
      | Some u \<Rightarrow>
          if su_singleDeviceLoginEnabled u
          then replaceForSingleDevice h cfg now d delivered userId ctx a db
          else createWithClient h cfg now d userId ctx a (dr_familyId d) db)"

definition setSingleDeviceLogin ::
  "int \<Rightarrow> bool option \<Rightarrow> string \<Rightarrow> bool \<Rightarrow> string option \<Rightarrow> session_db \<Rightarrow> auth_error + (unit \<times> session_db)" where
  "setSingleDeviceLogin now delivered userId enabled currentSessionId db =
     (if find_user userId db = None then Inl SessionRecordNotFound
      else
        let db1 = db\<lparr>users := update_where (\<lambda>x. su_id x = userId)
                       (\<lambda>x. x\<lparr>su_singleDeviceLoginEnabled := enabled\<rparr>) (users db)\<rparr> in
        if \<not> enabled then Inr ((), db1)
        else
          let sid = (case currentSessionId of None \<Rightarrow> None | Some s \<Rightarrow> if s = '''' then None else Some s);
              current = (case sid of None \<Rightarrow> None | Some s \<Rightarrow> find_session userId s db1);
              keep = (\<lambda>r. case current of
                         Some c \<Rightarrow> rt_familyId r = rt_familyId c
                       | None \<Rightarrow> (case sid of None \<Rightarrow> False | Some s \<Rightarrow> rt_id r = s));
              exempt = map_option rt_familyId current;
              (gen, db2) = advanceScopeGeneration now userId ACCOUNT ACCOUNT_SCOPE_KEY exempt db1;
              db3 = revoke_rows now OTHER_SESSIONS_REVOKED (\<lambda>r. rt_userId r = userId \<and> \<not> keep r) db2
          in Inr ((), notifyScopeRevocationBestEffort delivered
               \<lparr>se_userId = userId, se_scope = ACCOUNT, se_scopeKey = ACCOUNT_SCOPE_KEY,
                se_exemptFamilyId = exempt, se_generation = gen\<rparr> db3))"

section \<open>Rotation\<close>

definition ownerForToken :: "(string \<Rightarrow> string) \<Rightarrow> string \<Rightarrow> audience \<Rightarrow> session_db \<Rightarrow> auth_error + string" where
  "ownerForToken h raw a db =
     (case find_token (h raw) db of
        None \<Rightarrow> Inl InvalidRefreshToken
      | Some r \<Rightarrow> if rt_audience r \<noteq> a then Inl InvalidRefreshToken else Inr (rt_userId r))"

record rotated_session =
  rs_token :: string
  rs_userId :: string
  rs_sessionId :: string
  rs_deviceKey :: "string option"
  rs_deviceName :: "string option"

datatype rotation_outcome = Rotated rotated_session | Reuse string string int

definition or_else :: "'a option \<Rightarrow> 'a option \<Rightarrow> 'a option" where
  "or_else x y = (case x of Some a \<Rightarrow> Some a | None \<Rightarrow> y)"

definition rotation_context :: "session_context option \<Rightarrow> refresh_token \<Rightarrow> session_context" where
  "rotation_context ctx r =
     \<lparr>sc_deviceName = or_else (Option.bind ctx sc_deviceName) (rt_deviceName r),
      sc_ip = or_else (Option.bind ctx sc_ip) (rt_ip r),
      sc_userAgent = or_else (Option.bind ctx sc_userAgent) (rt_userAgent r),
      sc_deviceKey = or_else (rt_deviceKey r) (Option.bind ctx sc_deviceKey)\<rparr>"

text \<open>
  The step under the account lock. A retired token that was rotated away is a replay: its whole
  family is revoked and the counter of the family advances, and that is committed.
\<close>

definition rotateLocked ::
  "(string \<Rightarrow> string) \<Rightarrow> ttl_config \<Rightarrow> int \<Rightarrow> draws \<Rightarrow> string \<Rightarrow> string \<Rightarrow> session_context option \<Rightarrow> audience
   \<Rightarrow> session_db \<Rightarrow> auth_error + (rotation_outcome \<times> session_db)" where
  "rotateLocked h cfg now d th owner ctx a db =
     (case find_token th db of
        None \<Rightarrow> Inl InvalidRefreshToken
      | Some r \<Rightarrow>
          if rt_audience r \<noteq> a \<or> rt_userId r \<noteq> owner then Inl InvalidRefreshToken
          else if rt_expiredAt r \<le> now then Inl InvalidRefreshToken
          else if rt_revokedAt r \<noteq> None then
            (if rt_revocationReason r \<noteq> Some ROTATED \<and> rt_revocationReason r \<noteq> None
             then Inl InvalidRefreshToken
             else
               let (gen, db1) = advanceScopeGeneration now (rt_userId r) FAMILY (rt_familyId r) None db;
                   db2 = revoke_rows now TOKEN_FAMILY_REUSE
                           (\<lambda>x. rt_userId x = rt_userId r \<and> rt_familyId x = rt_familyId r) db1
               in Inr (Reuse (rt_userId r) (rt_familyId r) gen, db2))
          else
            let live = (\<lambda>x. rt_token x = th \<and> now < rt_expiredAt x \<and> rt_audience x = a) in
            if revocable live db \<noteq> 1 then Inl InvalidRefreshToken
            else
              let db1 = revoke_rows now ROTATED live db; c = rotation_context ctx r in
              bind_res (createWithClient h cfg now d (rt_userId r) (Some c) (rt_audience r) (rt_familyId r) db1)
                (\<lambda>((raw, sid), db2). Inr (Rotated
                   \<lparr>rs_token = raw, rs_userId = rt_userId r, rs_sessionId = sid,
                    rs_deviceKey = sc_deviceKey c, rs_deviceName = sc_deviceName c\<rparr>, db2)))"

text \<open>
  \<open>rotate\<close> finds the owner before the lock; \<open>others\<close> is what happens until the lock is
  held. A replay throws after its commit, so the error comes with a changed database.
\<close>

definition rotate ::
  "(string \<Rightarrow> string) \<Rightarrow> ttl_config \<Rightarrow> (session_db \<Rightarrow> session_db) \<Rightarrow> int \<Rightarrow> draws \<Rightarrow> bool option \<Rightarrow> string
   \<Rightarrow> session_context option \<Rightarrow> audience \<Rightarrow> session_db \<Rightarrow> (auth_error + rotated_session) \<times> session_db" where
  "rotate h cfg others now d delivered raw ctx a db =
     (case ownerForToken h raw a db of
        Inl e \<Rightarrow> (Inl e, db)
      | Inr owner \<Rightarrow>
          let db1 = others db in
          (case rotateLocked h cfg now d (h raw) owner ctx a db1 of
             Inl e \<Rightarrow> (Inl e, db1)
           | Inr (Rotated s, db2) \<Rightarrow> (Inr s, db2)
           | Inr (Reuse u f gen, db2) \<Rightarrow>
               (Inl ReuseDetected, notifyScopeRevocationBestEffort delivered
                  \<lparr>se_userId = u, se_scope = FAMILY, se_scopeKey = f, se_exemptFamilyId = None,
                   se_generation = gen\<rparr> db2)))"

section \<open>Revocation\<close>

definition assertSessionActive :: "int \<Rightarrow> string \<Rightarrow> string \<Rightarrow> session_db \<Rightarrow> auth_error + unit" where
  "assertSessionActive now userId sid db =
     (case find_where (\<lambda>r. rt_id r = sid \<and> rt_userId r = userId \<and> rt_revokedAt r = None
                            \<and> now < rt_expiredAt r) (tokens db) of
        None \<Rightarrow> Inl SessionNotActive
      | Some _ \<Rightarrow> Inr ())"

definition revokeSessionFamily ::
  "int \<Rightarrow> bool option \<Rightarrow> string \<Rightarrow> string \<Rightarrow> revocation_reason \<Rightarrow> session_db \<Rightarrow> bool \<times> session_db" where
  "revokeSessionFamily now delivered userId sid why db =
     (case find_session userId sid db of
        None \<Rightarrow> (False, db)
      | Some s \<Rightarrow>
          let (gen, db1) = advanceScopeGeneration now userId FAMILY (rt_familyId s) None db;
              target = (\<lambda>r. rt_userId r = userId \<and> rt_familyId r = rt_familyId s
                          \<and> (why = LOGOUT \<longrightarrow> now < rt_expiredAt r));
              n = revocable target db1;
              db2 = revoke_rows now why target db1
          in (0 < n, notifyScopeRevocationBestEffort delivered
               \<lparr>se_userId = userId, se_scope = FAMILY, se_scopeKey = rt_familyId s,
                se_exemptFamilyId = None, se_generation = gen\<rparr> db2))"

text \<open>
  \<open>revoke\<close> returns the owner when it ended a live session. (It also writes the Redis marker
  of the session, see \<open>SessionVerify\<close>.)
\<close>

definition revoke_token ::
  "(string \<Rightarrow> string) \<Rightarrow> int \<Rightarrow> bool option \<Rightarrow> string \<Rightarrow> session_db
   \<Rightarrow> (string \<times> audience \<times> string) option \<times> session_db" where
  "revoke_token h now delivered raw db =
     (case find_token (h raw) db of
        None \<Rightarrow> (None, db)
      | Some r \<Rightarrow>
          let (revoked, db') = revokeSessionFamily now delivered (rt_userId r) (rt_id r) LOGOUT db
          in (if revoked then Some (rt_userId r, rt_audience r, rt_id r) else None, db'))"

definition revokeAll :: "int \<Rightarrow> string \<Rightarrow> session_db \<Rightarrow> auth_error + (unit \<times> session_db)" where
  "revokeAll now userId db =
     (let db1 = revoke_rows now LOGOUT_ALL (\<lambda>r. rt_userId r = userId) db in
      if find_user userId db1 = None then Inl SessionRecordNotFound
      else Inr ((), db1\<lparr>users := update_where (\<lambda>x. su_id x = userId)
             (\<lambda>x. x\<lparr>su_accessTokensRevokedAt := Some now\<rparr>) (users db1)\<rparr>))"

definition findSessionDeviceKey :: "string \<Rightarrow> string \<Rightarrow> session_db \<Rightarrow> string option" where
  "findSessionDeviceKey userId sid db = Option.bind (find_session userId sid db) rt_deviceKey"

text \<open>The flag says whether the Redis marker of the session is written next.\<close>

definition revokeSession :: "int \<Rightarrow> string \<Rightarrow> string \<Rightarrow> session_db \<Rightarrow> bool \<times> session_db" where
  "revokeSession now userId sid db =
     (let p = (\<lambda>r. rt_id r = sid \<and> rt_userId r = userId)
      in (revocable p db = 1, revoke_rows now SESSION_REVOKED p db))"

definition revokeDeviceSessions ::
  "int \<Rightarrow> bool option \<Rightarrow> string \<Rightarrow> string \<Rightarrow> session_db \<Rightarrow> session_db" where
  "revokeDeviceSessions now delivered userId deviceKey db =
     (let (gen, db1) = advanceScopeGeneration now userId DEVICE deviceKey None db;
          db2 = revoke_rows now SESSION_REVOKED
                  (\<lambda>r. rt_userId r = userId \<and> rt_deviceKey r = Some deviceKey) db1
      in notifyScopeRevocationBestEffort delivered
           \<lparr>se_userId = userId, se_scope = DEVICE, se_scopeKey = deviceKey, se_exemptFamilyId = None,
            se_generation = gen\<rparr> db2)"

definition revokeOtherSessions ::
  "int \<Rightarrow> bool option \<Rightarrow> string \<Rightarrow> string option \<Rightarrow> session_db \<Rightarrow> session_db" where
  "revokeOtherSessions now delivered userId currentSessionId db =
     (case currentSessionId of
        None \<Rightarrow> db
      | Some sid \<Rightarrow>
          if sid = '''' then db
          else
            let current = find_session userId sid db;
                keep = (\<lambda>r. case current of Some c \<Rightarrow> rt_familyId r = rt_familyId c | None \<Rightarrow> rt_id r = sid);
                exempt = map_option rt_familyId current;
                (gen, db1) = advanceScopeGeneration now userId ACCOUNT ACCOUNT_SCOPE_KEY exempt db;
                db2 = revoke_rows now OTHER_SESSIONS_REVOKED (\<lambda>r. rt_userId r = userId \<and> \<not> keep r) db1
            in notifyScopeRevocationBestEffort delivered
                 \<lparr>se_userId = userId, se_scope = ACCOUNT, se_scopeKey = ACCOUNT_SCOPE_KEY,
                  se_exemptFamilyId = exempt, se_generation = gen\<rparr> db2)"

definition session_before :: "refresh_token \<Rightarrow> refresh_token \<Rightarrow> bool" where
  "session_before a b \<longleftrightarrow> rt_lastUsedAt b < rt_lastUsedAt a
     \<or> (rt_lastUsedAt a = rt_lastUsedAt b
        \<and> (rt_createdAt b < rt_createdAt a
           \<or> (rt_createdAt a = rt_createdAt b \<and> rt_id b \<le> rt_id a)))"

fun insert_session :: "refresh_token \<Rightarrow> refresh_token list \<Rightarrow> refresh_token list" where
  "insert_session x [] = [x]"
| "insert_session x (y # ys) = (if session_before x y then x # y # ys else y # insert_session x ys)"

text \<open>Most recently used first, ties by creation time, then by id.\<close>

definition listActiveSessions :: "int \<Rightarrow> string \<Rightarrow> session_db \<Rightarrow> refresh_token list" where
  "listActiveSessions now userId db =
     take ACTIVE_SESSION_LIST_LIMIT (foldr insert_session
       (filter (\<lambda>r. rt_userId r = userId \<and> rt_revokedAt r = None \<and> now < rt_expiredAt r) (tokens db)) [])"

end
