(* ===== verification/SessionVerify.thy ===== *)
theory SessionVerify
  imports RefreshTokens
begin

text \<open>
  The answer to "may this access token still be used": the Redis markers of
  \<open>src/auth/session-revocation.service.ts\<close> (with the two commands of
  \<open>src/redis/redis.service.ts\<close> it uses), the one-statement lookup and its
  narrowing in \<open>session-verification.query.ts\<close>, and the verdict of
  \<open>session-verifier.service.ts\<close>. Durations are those of \<open>src/utils/duration.ts\<close>.
\<close>

section \<open>Durations\<close>

text \<open>Amounts are exact rationals; rounding of doubles is not modelled.\<close>

definition DURATION_UNITS_IN_MS :: "(string \<times> rat) list" where
  "DURATION_UNITS_IN_MS =
     [(''ms'', 1),
      (''s'', 1000), (''sec'', 1000), (''secs'', 1000), (''second'', 1000), (''seconds'', 1000),
      (''m'', 60000), (''min'', 60000), (''mins'', 60000), (''minute'', 60000), (''minutes'', 60000),
      (''h'', 3600000), (''hr'', 3600000), (''hrs'', 3600000), (''hour'', 3600000), (''hours'', 3600000),
      (''d'', 86400000), (''day'', 86400000), (''days'', 86400000),
      (''w'', 604800000), (''week'', 604800000), (''weeks'', 604800000),
      (''y'', 31557600000), (''year'', 31557600000), (''years'', 31557600000)]"

definition is_letter :: "char \<Rightarrow> bool" where
  "is_letter c \<longleftrightarrow> is_lower (lower c)"

text \<open>
  The literal of the regular expression: digits, then a dot with at least one digit or nothing;
  the result is the amount and the rest.
\<close>

definition scan_decimal :: "string \<Rightarrow> (rat \<times> string) option" where
  "scan_decimal t =
     (let ds = takeWhile is_digit t; rest = dropWhile is_digit t in
      if ds = [] then None
      else (case rest of
              c # tl1 \<Rightarrow>
                if c = CHR ''.'' \<and> takeWhile is_digit tl1 \<noteq> []
                then (let fs = takeWhile is_digit tl1 in
                      Some (of_nat (digits_value 0 ds)
                              + of_nat (digits_value 0 fs) / 10 ^ length fs, dropWhile is_digit tl1))
                else Some (of_nat (digits_value 0 ds), rest)
            | [] \<Rightarrow> Some (of_nat (digits_value 0 ds), rest)))"

definition parseDurationMilliseconds :: "js \<Rightarrow> rat option" where
  "parseDurationMilliseconds v =
     (case v of
        JStr s \<Rightarrow>
          (case scan_decimal (js_trim s) of
             None \<Rightarrow> None
           | Some (amount, rest) \<Rightarrow>
               let u = dropWhile is_space rest in
               if \<not> list_all is_letter u then None
               else (case map_of DURATION_UNITS_IN_MS (if u = [] then ''ms'' else map lower u) of
                       None \<Rightarrow> None
                     | Some k \<Rightarrow> if amount \<le> 0 \<or> \<not> js_finite (nat \<lfloor>amount * k\<rfloor>) then None
                                else Some (amount * k)))
      | _ \<Rightarrow> None)"

definition DEFAULT_ACCESS_TOKEN_TTL_SECONDS :: int where
  "DEFAULT_ACCESS_TOKEN_TTL_SECONDS = 60 * 60"

definition accessTokenTtlSeconds :: "js \<Rightarrow> int" where
  "accessTokenTtlSeconds raw =
     (case raw of
        JNum x \<Rightarrow> if 0 < x then \<lceil>x\<rceil> else DEFAULT_ACCESS_TOKEN_TTL_SECONDS
      | JStr _ \<Rightarrow> (case parseDurationMilliseconds raw of
                    None \<Rightarrow> DEFAULT_ACCESS_TOKEN_TTL_SECONDS
                  | Some ms \<Rightarrow> max 1 \<lceil>ms / 1000\<rceil>)
      | _ \<Rightarrow> DEFAULT_ACCESS_TOKEN_TTL_SECONDS)"

section \<open>Redis markers\<close>

text \<open>
  The keys Redis holds, with the numbers stored under them. A key may vanish at any time
  (expiry, eviction); \<open>up\<close> says whether a command is answered.
\<close>

record redis =
  rd_enabled :: bool
  rd_kv :: "(string \<times> int) list"

definition kv_set :: "string \<Rightarrow> int \<Rightarrow> redis \<Rightarrow> redis" where
  "kv_set k v r = r\<lparr>rd_kv := (k, v) # filter (\<lambda>(k', _). k' \<noteq> k) (rd_kv r)\<rparr>"

definition kv_get :: "string \<Rightarrow> redis \<Rightarrow> int option" where
  "kv_get k r = map_of (rd_kv r) k"

definition setNumericMax :: "bool \<Rightarrow> string \<Rightarrow> int \<Rightarrow> redis \<Rightarrow> bool \<times> redis" where
  "setNumericMax up k v r =
     (if \<not> up then (False, r)
      else (case kv_get k r of
              Some cur \<Rightarrow> if v \<le> cur then (True, r) else (True, kv_set k v r)
            | None \<Rightarrow> (True, kv_set k v r)))"

definition setJson :: "bool \<Rightarrow> string \<Rightarrow> int \<Rightarrow> redis \<Rightarrow> bool \<times> redis" where
  "setJson up k v r = (if up then (True, kv_set k v r) else (False, r))"

definition getJsonMany :: "bool \<Rightarrow> string list \<Rightarrow> redis \<Rightarrow> int option list option" where
  "getJsonMany up ks r =
     (if ks = [] then Some [] else if up then Some (map (\<lambda>k. kv_get k r) ks) else None)"

definition userKey :: "string \<Rightarrow> string" where "userKey u = ''authrev:u:'' @ u"

definition sessionKey :: "string \<Rightarrow> string" where "sessionKey s = ''authrev:s:'' @ s"

text \<open>\<open>pub\<close> is what publishing the broadcast answers.\<close>

definition revokeUserAt :: "bool \<Rightarrow> bool \<Rightarrow> string \<Rightarrow> int \<Rightarrow> redis \<Rightarrow> bool \<times> redis" where
  "revokeUserAt up pub userId revokedAtMs r =
     (if \<not> rd_enabled r then (False, r)
      else let (stored, r') = setNumericMax up (userKey userId) revokedAtMs r
           in if \<not> stored then (False, r') else (pub, r'))"

definition revokeSessionMarker :: "bool \<Rightarrow> bool \<Rightarrow> string \<Rightarrow> redis \<Rightarrow> bool \<times> redis" where
  "revokeSessionMarker up pub sid r =
     (if \<not> rd_enabled r then (True, r)
      else let (_, r') = setJson up (sessionKey sid) 1 r in (pub, r'))"

definition revokeScope :: "bool \<Rightarrow> redis \<Rightarrow> bool" where
  "revokeScope pub r = (if \<not> rd_enabled r then True else pub)"

text \<open>The claims of a token; a claim that is not a string, or not a finite number, is absent.\<close>

record token_claims =
  tk_sub :: "string option"
  tk_sid :: "string option"
  tk_iat :: "int option"
  tk_issuedAtMs :: "int option"

definition issuedAtMs :: "token_claims \<Rightarrow> int option" where
  "issuedAtMs t = (case tk_issuedAtMs t of Some m \<Rightarrow> Some m
     | None \<Rightarrow> map_option (\<lambda>s. s * 1000) (tk_iat t))"

datatype revocation_state = RevRevoked | RevActive | RevUnknown

definition marker_ms :: "int \<Rightarrow> int" where
  "marker_ms v = (if v < 1000000000000 then v * 1000 else v)"

definition checkRevocation :: "bool \<Rightarrow> token_claims \<Rightarrow> redis \<Rightarrow> revocation_state" where
  "checkRevocation up t r =
     (if \<not> rd_enabled r then RevUnknown
      else
        let sid = (case tk_sid t of Some s \<Rightarrow> if s = '''' then None else Some s | None \<Rightarrow> None);
            sub = (case tk_sub t of Some s \<Rightarrow> if s = '''' then None else Some s | None \<Rightarrow> None);
            iss = issuedAtMs t;
            ks = (case sid of Some s \<Rightarrow> [sessionKey s] | None \<Rightarrow> [])
                 @ (case (sub, iss) of (Some u, Some _) \<Rightarrow> [userKey u] | _ \<Rightarrow> [])
        in if ks = [] then RevActive
           else (case getJsonMany up ks r of
                   None \<Rightarrow> RevUnknown
                 | Some ms \<Rightarrow>
                     let sidHit = (case sid of None \<Rightarrow> False
                                   | Some _ \<Rightarrow> (case ms of Some v # _ \<Rightarrow> v \<noteq> 0 | _ \<Rightarrow> False));
                         rest = (case sid of None \<Rightarrow> ms | Some _ \<Rightarrow> drop 1 ms)
                     in if sidHit then RevRevoked
                        else (case (sub, iss, rest) of
                                (Some _, Some i, Some v # _) \<Rightarrow>
                                  if i \<le> marker_ms v then RevRevoked else RevActive
                              | _ \<Rightarrow> RevActive)))"

section \<open>The lookup\<close>

definition status_name :: "user_status \<Rightarrow> string" where
  "status_name s = (case s of ACTIVE \<Rightarrow> ''ACTIVE'' | BANNED \<Rightarrow> ''BANNED'' | DELETED \<Rightarrow> ''DELETED'')"

definition reason_name :: "revocation_reason \<Rightarrow> string" where
  "reason_name r = (case r of ROTATED \<Rightarrow> ''ROTATED'' | SINGLE_DEVICE_REPLACED \<Rightarrow> ''SINGLE_DEVICE_REPLACED''
     | LOGOUT \<Rightarrow> ''LOGOUT'' | LOGOUT_ALL \<Rightarrow> ''LOGOUT_ALL'' | SESSION_REVOKED \<Rightarrow> ''SESSION_REVOKED''
     | OTHER_SESSIONS_REVOKED \<Rightarrow> ''OTHER_SESSIONS_REVOKED'' | TOKEN_FAMILY_REUSE \<Rightarrow> ''TOKEN_FAMILY_REUSE'')"

definition scope_name :: "revocation_scope \<Rightarrow> string" where
  "scope_name s = (case s of ACCOUNT \<Rightarrow> ''ACCOUNT'' | AUDIENCE \<Rightarrow> ''AUDIENCE'' | DEVICE \<Rightarrow> ''DEVICE''
     | FAMILY \<Rightarrow> ''FAMILY'')"

definition scope_json :: "scope_generation \<Rightarrow> js" where
  "scope_json g = JObj [(''scope'', JStr (scope_name (sg_scope g))), (''generation'', js_int (sg_generation g)),
     (''exemptFamilyId'', js_of_option JStr (sg_exemptFamilyId g))]"

text \<open>
  The statement: always one row, the account by id, the session by primary key alone, and the
  generation rows of the token's user for the session's four scopes.
\<close>

definition verification_row ::
  "session_user option \<Rightarrow> refresh_token option \<Rightarrow> scope_generation list \<Rightarrow> (string \<times> js) list" where
  "verification_row u s gens =
     (let col = (\<lambda>f. case s of None \<Rightarrow> JNull | Some r \<Rightarrow> f r) in
        [(''userStatus'', js_of_option (\<lambda>x. JStr (status_name (su_status x))) u),
         (''accessTokensRevokedAt'', case u of None \<Rightarrow> JNull
            | Some x \<Rightarrow> js_of_option JDate (su_accessTokensRevokedAt x)),
         (''sessionId'', col (\<lambda>r. JStr (rt_id r))),
         (''sessionUserId'', col (\<lambda>r. JStr (rt_userId r))),
         (''revokedAt'', col (\<lambda>r. js_of_option JDate (rt_revokedAt r))),
         (''revocationReason'', col (\<lambda>r. js_of_option (\<lambda>x. JStr (reason_name x)) (rt_revocationReason r))),
         (''accessRevokedAt'', col (\<lambda>r. js_of_option JDate (rt_accessRevokedAt r))),
         (''familyId'', col (\<lambda>r. JStr (rt_familyId r))),
         (''audience'', col (\<lambda>r. JStr (audience_name (rt_audience r)))),
         (''deviceKey'', col (\<lambda>r. js_of_option JStr (rt_deviceKey r))),
         (''accountGeneration'', col (\<lambda>r. js_int (rt_accountGeneration r))),
         (''audienceGeneration'', col (\<lambda>r. js_int (rt_audienceGeneration r))),
         (''deviceGeneration'', col (\<lambda>r. js_int (rt_deviceGeneration r))),
         (''familyGeneration'', col (\<lambda>r. js_int (rt_familyGeneration r))),
         (''generations'', JArr (map scope_json gens))])"

definition sessionVerificationQuery :: "string \<Rightarrow> string option \<Rightarrow> session_db \<Rightarrow> js" where
  "sessionVerificationQuery userId sid db =
     (let s = (case sid of None \<Rightarrow> None | Some i \<Rightarrow> find_where (\<lambda>r. rt_id r = i) (tokens db));
          gens = (case s of None \<Rightarrow> []
                  | Some r \<Rightarrow> session_scope_rows userId (rt_audience r) (rt_deviceKey r) (rt_familyId r) db)
      in JArr [JObj (verification_row (find_user userId db) s gens)])"

text \<open>A value of the wrong shape is an error that names the column and what it should be.\<close>

datatype row_error = RowError string string

definition readString :: "(string \<times> js) list \<Rightarrow> string \<Rightarrow> row_error + string" where
  "readString row c = (case js_get c row of JStr s \<Rightarrow> Inr s | _ \<Rightarrow> Inl (RowError c ''a string''))"

definition readNullableString :: "(string \<times> js) list \<Rightarrow> string \<Rightarrow> row_error + string option" where
  "readNullableString row c = (case js_get c row of JNull \<Rightarrow> Inr None | JStr s \<Rightarrow> Inr (Some s)
     | _ \<Rightarrow> Inl (RowError c ''a string or null''))"

definition readNullableDate :: "(string \<times> js) list \<Rightarrow> string \<Rightarrow> row_error + int option" where
  "readNullableDate row c = (case js_get c row of JNull \<Rightarrow> Inr None | JDate d \<Rightarrow> Inr (Some d)
     | _ \<Rightarrow> Inl (RowError c ''a Date or null''))"

definition readInteger :: "(string \<times> js) list \<Rightarrow> string \<Rightarrow> row_error + int" where
  "readInteger row c = (case js_get c row of
       JNum x \<Rightarrow> if of_int \<lfloor>x\<rfloor> = x then Inr \<lfloor>x\<rfloor> else Inl (RowError c ''an integer'')
     | _ \<Rightarrow> Inl (RowError c ''an integer''))"

text \<open>\<open>isRecord\<close>: an object that is no array; a date has none of the columns.\<close>

definition as_record :: "js \<Rightarrow> (string \<times> js) list option" where
  "as_record v = (case v of JObj fs \<Rightarrow> Some fs | JDate _ \<Rightarrow> Some [] | JInvalidDate \<Rightarrow> Some [] | _ \<Rightarrow> None)"

record lookup_user =
  lu_status :: string
  lu_accessTokensRevokedAt :: "int option"

record lookup_session =
  ls_userId :: string
  ls_revokedAt :: "int option"
  ls_revocationReason :: "string option"
  ls_accessRevokedAt :: "int option"
  ls_familyId :: string
  ls_audience :: audience
  ls_deviceKey :: "string option"
  ls_accountGeneration :: int
  ls_audienceGeneration :: int
  ls_deviceGeneration :: int
  ls_familyGeneration :: int

record lookup =
  lk_user :: "lookup_user option"
  lk_session :: "lookup_session option"
  lk_generations :: js

definition readUser :: "(string \<times> js) list \<Rightarrow> row_error + lookup_user option" where
  "readUser row = bind_res (readNullableString row ''userStatus'') (\<lambda>st.
     case st of None \<Rightarrow> Inr None
     | Some s \<Rightarrow> bind_res (readNullableDate row ''accessTokensRevokedAt'') (\<lambda>ra.
         Inr (Some \<lparr>lu_status = s, lu_accessTokensRevokedAt = ra\<rparr>)))"

definition readAudience :: "(string \<times> js) list \<Rightarrow> row_error + audience" where
  "readAudience row = bind_res (readString row ''audience'') (\<lambda>a.
     if a = ''APP'' then Inr APP else if a = ''ADMIN'' then Inr ADMIN
     else Inl (RowError ''audience'' ''a known audience''))"

definition readSession :: "(string \<times> js) list \<Rightarrow> row_error + lookup_session option" where
  "readSession row = bind_res (readNullableString row ''sessionId'') (\<lambda>sid.
     case sid of None \<Rightarrow> Inr None
     | Some _ \<Rightarrow>
        bind_res (readAudience row) (\<lambda>a.
        bind_res (readString row ''sessionUserId'') (\<lambda>u.
        bind_res (readNullableDate row ''revokedAt'') (\<lambda>rv.
        bind_res (readNullableString row ''revocationReason'') (\<lambda>why.
        bind_res (readNullableDate row ''accessRevokedAt'') (\<lambda>ar.
        bind_res (readString row ''familyId'') (\<lambda>f.
        bind_res (readNullableString row ''deviceKey'') (\<lambda>dk.
        bind_res (readInteger row ''accountGeneration'') (\<lambda>g1.
        bind_res (readInteger row ''audienceGeneration'') (\<lambda>g2.
        bind_res (readInteger row ''deviceGeneration'') (\<lambda>g3.
        bind_res (readInteger row ''familyGeneration'') (\<lambda>g4.
          Inr (Some \<lparr>ls_userId = u, ls_revokedAt = rv, ls_revocationReason = why,
            ls_accessRevokedAt = ar, ls_familyId = f, ls_audience = a, ls_deviceKey = dk,
            ls_accountGeneration = g1, ls_audienceGeneration = g2, ls_deviceGeneration = g3,
            ls_familyGeneration = g4\<rparr>)))))))))))))"

definition readSessionVerificationLookup :: "js \<Rightarrow> row_error + lookup" where
  "readSessionVerificationLookup rows =
     (case rows of
        JArr [r] \<Rightarrow>
          (case as_record r of
             None \<Rightarrow> Inl (RowError ''result'' ''exactly one row'')
           | Some row \<Rightarrow>
               bind_res (readUser row) (\<lambda>u. bind_res (readSession row) (\<lambda>s.
                 Inr \<lparr>lk_user = u, lk_session = s, lk_generations = js_get ''generations'' row\<rparr>)))
      | _ \<Rightarrow> Inl (RowError ''result'' ''exactly one row''))"

record scope_read =
  sr_scope :: revocation_scope
  sr_generation :: int
  sr_exemptFamilyId :: "string option"

definition readScope :: "js \<Rightarrow> row_error + revocation_scope" where
  "readScope v = (case v of
     JStr s \<Rightarrow> if s = ''ACCOUNT'' then Inr ACCOUNT else if s = ''AUDIENCE'' then Inr AUDIENCE
       else if s = ''DEVICE'' then Inr DEVICE else if s = ''FAMILY'' then Inr FAMILY
       else Inl (RowError ''generations[].scope'' ''a known scope'')
   | _ \<Rightarrow> Inl (RowError ''generations[].scope'' ''a known scope''))"

definition readScopeEntry :: "js \<Rightarrow> row_error + scope_read" where
  "readScopeEntry v =
     (case as_record v of
        None \<Rightarrow> Inl (RowError ''generations[]'' ''an object'')
      | Some fs \<Rightarrow>
          bind_res (readScope (js_get ''scope'' fs)) (\<lambda>sc.
          bind_res (readInteger fs ''generation'') (\<lambda>g.
          bind_res (readNullableString fs ''exemptFamilyId'') (\<lambda>e.
            Inr \<lparr>sr_scope = sc, sr_generation = g, sr_exemptFamilyId = e\<rparr>))))"

fun read_all :: "('a \<Rightarrow> 'e + 'b) \<Rightarrow> 'a list \<Rightarrow> 'e + 'b list" where
  "read_all f [] = Inr []"
| "read_all f (x # xs) = bind_res (f x) (\<lambda>y. bind_res (read_all f xs) (\<lambda>ys. Inr (y # ys)))"

definition readScopeGenerations :: "js \<Rightarrow> row_error + scope_read list" where
  "readScopeGenerations v =
     (case v of JArr xs \<Rightarrow> read_all readScopeEntry xs | _ \<Rightarrow> Inl (RowError ''generations'' ''an array''))"

section \<open>The verdict\<close>

datatype session_verdict = Active | Revoked | Unavailable

record session_identity =
  si_sessionId :: string
  si_familyId :: string
  si_audience :: audience
  si_deviceKey :: "string option"
  si_issuedAtMs :: "int option"

definition ls_snapshot :: "lookup_session \<Rightarrow> revocation_scope \<Rightarrow> int" where
  "ls_snapshot s sc = (case sc of ACCOUNT \<Rightarrow> ls_accountGeneration s | AUDIENCE \<Rightarrow> ls_audienceGeneration s
     | DEVICE \<Rightarrow> ls_deviceGeneration s | FAMILY \<Rightarrow> ls_familyGeneration s)"

definition judge :: "token_claims \<Rightarrow> string \<Rightarrow> lookup \<Rightarrow> session_verdict \<times> session_identity option" where
  "judge t userId lk =
     (let iss = issuedAtMs t in
      case lk_user lk of
        None \<Rightarrow> (Revoked, None)
      | Some u \<Rightarrow>
        if lu_status u \<noteq> ''ACTIVE'' then (Revoked, None)
        else if (case lu_accessTokensRevokedAt u of None \<Rightarrow> False
                 | Some ra \<Rightarrow> (case iss of None \<Rightarrow> True | Some i \<Rightarrow> i \<le> ra)) then (Revoked, None)
        else (case (lk_session lk, tk_sid t) of
          (Some s, sid) \<Rightarrow>
            if ls_userId s \<noteq> userId \<or> ls_accessRevokedAt s \<noteq> None
               \<or> (ls_revokedAt s \<noteq> None \<and> ls_revocationReason s \<noteq> Some ''ROTATED'') then (Revoked, None)
            else (case sid of
              None \<Rightarrow> (Active, None)
            | Some i \<Rightarrow>
                (case readScopeGenerations (lk_generations lk) of
                   Inl _ \<Rightarrow> (Unavailable, None)
                 | Inr gs \<Rightarrow>
                     if list_ex (\<lambda>g. sr_generation g \<noteq> ls_snapshot s (sr_scope g)
                          \<and> sr_exemptFamilyId g \<noteq> Some (ls_familyId s)) gs
                     then (Revoked, None)
                     else (Active, Some \<lparr>si_sessionId = i, si_familyId = ls_familyId s,
                       si_audience = ls_audience s, si_deviceKey = ls_deviceKey s, si_issuedAtMs = iss\<rparr>)))
        | (None, _) \<Rightarrow> (Active, None)))"

text \<open>\<open>rows\<close> is the answer of the database, \<open>None\<close> when the query failed.\<close>

definition verifyInDatabase ::
  "token_claims \<Rightarrow> (string \<Rightarrow> string option \<Rightarrow> js option) \<Rightarrow> session_verdict \<times> session_identity option" where
  "verifyInDatabase t rows =
     (case tk_sub t of
        None \<Rightarrow> (Revoked, None)
      | Some userId \<Rightarrow>
          let sid = (case tk_sid t of Some s \<Rightarrow> if s = '''' then None else Some s | None \<Rightarrow> None) in
          (case rows userId sid of
             None \<Rightarrow> (Unavailable, None)
           | Some answer \<Rightarrow>
               (case readSessionVerificationLookup answer of
                  Inl _ \<Rightarrow> (Unavailable, None)
                | Inr lk \<Rightarrow> judge t userId lk)))"

definition verifyWithIdentity ::
  "bool \<Rightarrow> token_claims \<Rightarrow> redis \<Rightarrow> (string \<Rightarrow> string option \<Rightarrow> js option)
   \<Rightarrow> session_verdict \<times> session_identity option" where
  "verifyWithIdentity up t r rows =
     (if checkRevocation up t r = RevRevoked then (Revoked, None) else verifyInDatabase t rows)"

end
