(* ===== verification/SessionProofs.thy ===== *)
theory SessionProofs
  imports RefreshTokens SessionVerify
begin

text \<open>
  What the session code guarantees: the generation counters of a session, the verdict on an
  access token stated over the tables, the invariant of the session tables under every
  operation, and the effect of each revocation.
\<close>

named_theorems session_simps \<open>projections of the session operations\<close>

section \<open>Generation counters\<close>

text \<open>The one row a session watches in a scope, if it watches any.\<close>

definition watched_key :: "audience \<Rightarrow> string option \<Rightarrow> string \<Rightarrow> revocation_scope \<Rightarrow> string option" where
  "watched_key a dk fam sc =
     (case sc of
        ACCOUNT \<Rightarrow> Some ACCOUNT_SCOPE_KEY
      | AUDIENCE \<Rightarrow> Some (audience_name a)
      | DEVICE \<Rightarrow> (case dk of None \<Rightarrow> None | Some k \<Rightarrow> if k = '''' then None else Some k)
      | FAMILY \<Rightarrow> Some fam)"

definition scope_at :: "string \<Rightarrow> revocation_scope \<Rightarrow> string \<Rightarrow> session_db \<Rightarrow> scope_generation option" where
  "scope_at u sc k db = find_where (scope_row_is u sc k) (scopes db)"

definition gen_of :: "string \<Rightarrow> revocation_scope \<Rightarrow> string \<Rightarrow> session_db \<Rightarrow> int" where
  "gen_of u sc k db = (case scope_at u sc k db of None \<Rightarrow> 0 | Some g \<Rightarrow> sg_generation g)"

definition scope_key_of :: "scope_generation \<Rightarrow> string \<times> revocation_scope \<times> string" where
  "scope_key_of g = (sg_userId g, sg_scope g, sg_scopeKey g)"

definition scopes_unique :: "session_db \<Rightarrow> bool" where
  "scopes_unique db \<longleftrightarrow> distinct (map scope_key_of (scopes db))"

lemma scope_key_requested_watched:
  "scope_key_requested a dk fam sc k \<longleftrightarrow> watched_key a dk fam sc = Some k"
  by (auto simp: scope_key_requested_def watched_key_def split: revocation_scope.splits option.splits)

lemma scope_row_is_key: "scope_row_is u sc k g \<longleftrightarrow> scope_key_of g = (u, sc, k)"
  by (auto simp: scope_row_is_def scope_key_of_def)

lemma find_where_filter:
  "find_where p (filter q xs) = find_where (\<lambda>x. q x \<and> p x) xs"
  by (induction xs) auto

lemma find_where_cong:
  "(\<And>x. x \<in> set xs \<Longrightarrow> p x = q x) \<Longrightarrow> find_where p xs = find_where q xs"
  by (induction xs) auto

lemma foldl_update_lookup:
  "distinct (map s xs) \<Longrightarrow>
   foldl (\<lambda>f x. f(s x := g x)) f xs c = (case find_where (\<lambda>x. s x = c) xs of None \<Rightarrow> f c | Some x \<Rightarrow> g x)"
proof (induction xs arbitrary: f)
  case (Cons x xs)
  have "find_where (\<lambda>y. s y = s x) xs = None"
    using Cons.prems by (auto simp: find_where_None_iff image_iff)
  with Cons show ?case by auto
qed simp

lemma session_scope_rows_distinct:
  assumes "scopes_unique db"
  shows "distinct (map sg_scope (session_scope_rows u a dk fam db))"
proof -
  have "distinct (scopes db)"
    using assms by (auto simp: scopes_unique_def distinct_map)
  moreover have "inj_on sg_scope (set (session_scope_rows u a dk fam db))"
  proof (rule inj_onI)
    fix x y assume xy: "x \<in> set (session_scope_rows u a dk fam db)"
      "y \<in> set (session_scope_rows u a dk fam db)" "sg_scope x = sg_scope y"
    then have "scope_key_of x = scope_key_of y"
      by (auto simp: session_scope_rows_def scope_key_requested_watched scope_key_of_def)
    with xy assms show "x = y"
      by (intro distinct_map_eq [where k = scope_key_of])
        (auto simp: scopes_unique_def session_scope_rows_def)
  qed
  ultimately show ?thesis by (auto simp: distinct_map session_scope_rows_def)
qed

lemma currentScopeGenerations_eq:
  assumes "scopes_unique db"
  shows "currentScopeGenerations u a dk fam db sc =
    (case watched_key a dk fam sc of None \<Rightarrow> 0 | Some k \<Rightarrow> gen_of u sc k db)"
proof -
  have "find_where (\<lambda>x. sg_scope x = sc) (session_scope_rows u a dk fam db) =
    (case watched_key a dk fam sc of None \<Rightarrow> None | Some k \<Rightarrow> scope_at u sc k db)"
  proof (cases "watched_key a dk fam sc")
    case None
    then show ?thesis
      by (auto simp: find_where_None_iff session_scope_rows_def scope_key_requested_watched)
  next
    case (Some k)
    have "(sg_userId x = u \<and> scope_key_requested a dk fam (sg_scope x) (sg_scopeKey x)) \<and> sg_scope x = sc
      \<longleftrightarrow> scope_row_is u sc k x" for x
      using Some by (auto simp: scope_key_requested_watched scope_row_is_def)
    with Some show ?thesis
      by (simp add: session_scope_rows_def find_where_filter scope_at_def)
  qed
  then show ?thesis
    using session_scope_rows_distinct [OF assms]
    by (simp add: currentScopeGenerations_def foldl_update_lookup gen_of_def split: option.split)
qed

definition scope_row ::
  "string \<Rightarrow> revocation_scope \<Rightarrow> string \<Rightarrow> int \<Rightarrow> string option \<Rightarrow> int \<Rightarrow> scope_generation" where
  "scope_row u sc k gen ex now = \<lparr>sg_userId = u, sg_scope = sc, sg_scopeKey = k, sg_generation = gen,
     sg_exemptFamilyId = ex, sg_notificationPending = True, sg_updatedAt = now\<rparr>"

lemma scope_at_advance:
  assumes "advanceScopeGeneration now u sc k ex db = (gen, db')"
  shows "gen = gen_of u sc k db + 1"
    and "scope_at u' sc' k' db' =
      (if (u', sc', k') = (u, sc, k)
       then Some (scope_row u sc k gen ex now)
       else scope_at u' sc' k' db)"
    and "tokens db' = tokens db" and "users db' = users db"
    and "scopes_unique db \<Longrightarrow> scopes_unique db'"
proof -
  have parts: "gen = gen_of u sc k db + 1 \<and> scope_at u' sc' k' db' =
      (if (u', sc', k') = (u, sc, k)
       then Some (scope_row u sc k gen ex now)
       else scope_at u' sc' k' db) \<and> tokens db' = tokens db \<and> users db' = users db
       \<and> (scopes_unique db \<longrightarrow> scopes_unique db')"
  proof (cases "find_where (scope_row_is u sc k) (scopes db)")
    case None
    then have new: "(u, sc, k) \<notin> scope_key_of ` set (scopes db)"
      by (auto simp: find_where_None_iff scope_row_is_key)
    have key: "scope_key_of (scope_row u sc k 1 ex now) = (u, sc, k)"
      by (simp add: scope_key_of_def scope_row_def)
    have db': "gen = 1" "db' = db\<lparr>scopes := scopes db @ [scope_row u sc k 1 ex now]\<rparr>"
      using None assms by (auto simp: advanceScopeGeneration_def scope_row_def)
    show ?thesis
      using None new
      by (auto simp: db' scope_at_def find_where_append scopes_unique_def scope_row_is_key key
          gen_of_def split: option.split)
  next
    case (Some g)
    then have g: "sg_userId g = u" "sg_scope g = sc" "sg_scopeKey g = k"
      by (auto dest!: find_where_SomeD simp: scope_row_is_def)
    define f :: "scope_generation \<Rightarrow> scope_generation" where "f = (\<lambda>g. g\<lparr>sg_generation := sg_generation g + 1, sg_exemptFamilyId := ex,
                       sg_notificationPending := True, sg_updatedAt := now\<rparr>)"
    have f: "scope_key_of (f x) = scope_key_of x" for x by (simp add: f_def scope_key_of_def)
    have db': "gen = sg_generation g + 1"
      "db' = db\<lparr>scopes := update_where (scope_row_is u sc k) f (scopes db)\<rparr>"
      using assms Some by (auto simp: advanceScopeGeneration_def f_def)
    have look: "scope_at u2 sc2 k2 db' =
        map_option (\<lambda>r. if scope_row_is u sc k r then f r else r) (scope_at u2 sc2 k2 db)" for u2 sc2 k2
      unfolding db' scope_at_def by (simp add: find_where_update scope_row_is_key f)
    have "map scope_key_of (scopes db') = map scope_key_of (scopes db)"
      by (simp add: db' map_update_where f)
    moreover have "scope_at u' sc' k' db' =
      (if (u', sc', k') = (u, sc, k)
       then Some (scope_row u sc k gen ex now)
       else scope_at u' sc' k' db)"
    proof (cases "(u', sc', k') = (u, sc, k)")
      case True
      with Some have "scope_at u' sc' k' db = Some g" by (simp add: scope_at_def)
      with True g show ?thesis
        by (auto simp: look db'(1) f_def scope_row_is_def scope_row_def intro: scope_generation.equality)
    next
      case False
      then have "\<not> scope_row_is u sc k r" if "scope_at u' sc' k' db = Some r" for r
        using that by (auto simp: scope_at_def dest!: find_where_SomeD simp: scope_row_is_key)
      with False show ?thesis by (cases "scope_at u' sc' k' db") (auto simp: look)
    qed
    ultimately show ?thesis
      using Some by (auto simp: db'(1) gen_of_def scope_at_def scopes_unique_def db'(2))
  qed
  then show "gen = gen_of u sc k db + 1"
    and "scope_at u' sc' k' db' =
      (if (u', sc', k') = (u, sc, k)
       then Some (scope_row u sc k gen ex now)
       else scope_at u' sc' k' db)"
    and "tokens db' = tokens db" and "users db' = users db"
    and "scopes_unique db \<Longrightarrow> scopes_unique db'"
    by blast+
qed

lemma gen_of_advance:
  assumes "advanceScopeGeneration now u sc k ex db = (gen, db')"
  shows "gen_of u' sc' k' db' = (if (u', sc', k') = (u, sc, k) then gen_of u sc k db + 1
    else gen_of u' sc' k' db)"
  using scope_at_advance(1,2) [OF assms] by (simp add: gen_of_def scope_row_def)

section \<open>The verdict over the tables\<close>

definition rt_snapshot :: "refresh_token \<Rightarrow> revocation_scope \<Rightarrow> int" where
  "rt_snapshot r sc = (case sc of ACCOUNT \<Rightarrow> rt_accountGeneration r | AUDIENCE \<Rightarrow> rt_audienceGeneration r
     | DEVICE \<Rightarrow> rt_deviceGeneration r | FAMILY \<Rightarrow> rt_familyGeneration r)"

definition scope_stale :: "refresh_token \<Rightarrow> session_db \<Rightarrow> revocation_scope \<Rightarrow> bool" where
  "scope_stale r db sc =
     (case watched_key (rt_audience r) (rt_deviceKey r) (rt_familyId r) sc of
        None \<Rightarrow> False
      | Some k \<Rightarrow>
          (case scope_at (rt_userId r) sc k db of
             None \<Rightarrow> False
           | Some g \<Rightarrow> sg_generation g \<noteq> rt_snapshot r sc \<and> sg_exemptFamilyId g \<noteq> Some (rt_familyId r)))"

definition row_dead :: "string \<Rightarrow> refresh_token \<Rightarrow> session_db \<Rightarrow> bool" where
  "row_dead u r db \<longleftrightarrow> rt_userId r \<noteq> u \<or> rt_accessRevokedAt r \<noteq> None
     \<or> (rt_revokedAt r \<noteq> None \<and> rt_revocationReason r \<noteq> Some ROTATED)
     \<or> list_ex (scope_stale r db) [ACCOUNT, AUDIENCE, DEVICE, FAMILY]"

definition account_dead :: "token_claims \<Rightarrow> string \<Rightarrow> session_db \<Rightarrow> bool" where
  "account_dead t u db =
     (case find_user u db of
        None \<Rightarrow> True
      | Some x \<Rightarrow> su_status x \<noteq> ACTIVE
          \<or> (case su_accessTokensRevokedAt x of
               None \<Rightarrow> False
             | Some ra \<Rightarrow> (case issuedAtMs t of None \<Rightarrow> True | Some i \<Rightarrow> i \<le> ra)))"

definition session_row :: "token_claims \<Rightarrow> session_db \<Rightarrow> refresh_token option" where
  "session_row t db =
     (case tk_sid t of
        None \<Rightarrow> None
      | Some s \<Rightarrow> if s = '''' then None else find_where (\<lambda>r. rt_id r = s) (tokens db))"

definition row_identity :: "token_claims \<Rightarrow> refresh_token \<Rightarrow> session_identity" where
  "row_identity t r = \<lparr>si_sessionId = rt_id r, si_familyId = rt_familyId r, si_audience = rt_audience r,
     si_deviceKey = rt_deviceKey r, si_issuedAtMs = issuedAtMs t\<rparr>"

text \<open>What the verifier promises, stated over the tables.\<close>

definition access_verdict :: "token_claims \<Rightarrow> session_db \<Rightarrow> session_verdict \<times> session_identity option" where
  "access_verdict t db =
     (case tk_sub t of
        None \<Rightarrow> (Revoked, None)
      | Some u \<Rightarrow>
          if account_dead t u db then (Revoked, None)
          else (case session_row t db of
                  None \<Rightarrow> (Active, None)
                | Some r \<Rightarrow> if row_dead u r db then (Revoked, None) else (Active, Some (row_identity t r))))"

text \<open>The columns of the lookup as the reader returns them.\<close>

definition lookup_of_row :: "refresh_token \<Rightarrow> lookup_session" where
  "lookup_of_row r = \<lparr>ls_userId = rt_userId r, ls_revokedAt = rt_revokedAt r,
     ls_revocationReason = map_option reason_name (rt_revocationReason r),
     ls_accessRevokedAt = rt_accessRevokedAt r, ls_familyId = rt_familyId r, ls_audience = rt_audience r,
     ls_deviceKey = rt_deviceKey r, ls_accountGeneration = rt_accountGeneration r,
     ls_audienceGeneration = rt_audienceGeneration r, ls_deviceGeneration = rt_deviceGeneration r,
     ls_familyGeneration = rt_familyGeneration r\<rparr>"

definition lookup_of_user :: "session_user \<Rightarrow> lookup_user" where
  "lookup_of_user x = \<lparr>lu_status = status_name (su_status x),
     lu_accessTokensRevokedAt = su_accessTokensRevokedAt x\<rparr>"

definition scope_read_of :: "scope_generation \<Rightarrow> scope_read" where
  "scope_read_of g = \<lparr>sr_scope = sg_scope g, sr_generation = sg_generation g,
     sr_exemptFamilyId = sg_exemptFamilyId g\<rparr>"

lemma read_option_cols:
  "js_get c row = js_of_option JStr x \<Longrightarrow> readNullableString row c = Inr x"
  "js_get c row = js_of_option JDate y \<Longrightarrow> readNullableDate row c = Inr y"
  "js_get c row = js_int n \<Longrightarrow> readInteger row c = Inr n"
  "js_get c row = JStr s \<Longrightarrow> readString row c = Inr s"
  by (auto simp: readNullableString_def readNullableDate_def readInteger_def readString_def
      js_of_option_def js_int_def split: option.splits)

lemma js_of_option_map:
  "js_of_option (\<lambda>x. JStr (status_name (su_status x))) u = js_of_option JStr (map_option (\<lambda>x. status_name (su_status x)) u)"
  "js_of_option (\<lambda>x. JStr (reason_name x)) y = js_of_option JStr (map_option reason_name y)"
  by (simp_all add: js_of_option_def split: option.split)

lemma verification_row_get:
  "js_get ''generations'' (verification_row x s gens) = JArr (map scope_json gens)"
  "js_get ''userStatus'' (verification_row x s gens) = js_of_option JStr (map_option (\<lambda>x. status_name (su_status x)) x)"
  "js_get ''accessTokensRevokedAt'' (verification_row x s gens) = js_of_option JDate (Option.bind x su_accessTokensRevokedAt)"
  "js_get ''sessionId'' (verification_row x s gens) = js_of_option JStr (map_option rt_id s)"
proof -
  have st: "js_get ''accessTokensRevokedAt'' (verification_row x s gens) =
      (case x of None \<Rightarrow> JNull | Some x \<Rightarrow> js_of_option JDate (su_accessTokensRevokedAt x))"
    and sid: "js_get ''sessionId'' (verification_row x s gens) = (case s of None \<Rightarrow> JNull | Some r \<Rightarrow> JStr (rt_id r))"
    by (simp_all add: verification_row_def)
  show "js_get ''generations'' (verification_row x s gens) = JArr (map scope_json gens)"
    and "js_get ''userStatus'' (verification_row x s gens) = js_of_option JStr (map_option (\<lambda>x. status_name (su_status x)) x)"
    by (simp_all add: verification_row_def js_of_option_map)
  show "js_get ''accessTokensRevokedAt'' (verification_row x s gens) = js_of_option JDate (Option.bind x su_accessTokensRevokedAt)"
    unfolding st by (cases x) (simp_all add: js_of_option_def)
  show "js_get ''sessionId'' (verification_row x s gens) = js_of_option JStr (map_option rt_id s)"
    unfolding sid by (cases s) (simp_all add: js_of_option_def)
qed

lemma verification_row_session:
  "js_get ''audience'' (verification_row x (Some r) gens) = JStr (audience_name (rt_audience r))"
  "js_get ''sessionUserId'' (verification_row x (Some r) gens) = JStr (rt_userId r)"
  "js_get ''revokedAt'' (verification_row x (Some r) gens) = js_of_option JDate (rt_revokedAt r)"
  "js_get ''revocationReason'' (verification_row x (Some r) gens) =
     js_of_option JStr (map_option reason_name (rt_revocationReason r))"
  "js_get ''accessRevokedAt'' (verification_row x (Some r) gens) = js_of_option JDate (rt_accessRevokedAt r)"
  "js_get ''familyId'' (verification_row x (Some r) gens) = JStr (rt_familyId r)"
  "js_get ''deviceKey'' (verification_row x (Some r) gens) = js_of_option JStr (rt_deviceKey r)"
  "js_get ''accountGeneration'' (verification_row x (Some r) gens) = js_int (rt_accountGeneration r)"
  "js_get ''audienceGeneration'' (verification_row x (Some r) gens) = js_int (rt_audienceGeneration r)"
  "js_get ''deviceGeneration'' (verification_row x (Some r) gens) = js_int (rt_deviceGeneration r)"
  "js_get ''familyGeneration'' (verification_row x (Some r) gens) = js_int (rt_familyGeneration r)"
  by (simp_all add: verification_row_def js_of_option_map)

lemmas verification_row_read =
  verification_row_get(2,4) [THEN read_option_cols(1)]
  verification_row_get(3) [THEN read_option_cols(2)]
  verification_row_session(2,6) [THEN read_option_cols(4)]
  verification_row_session(3,5) [THEN read_option_cols(2)]
  verification_row_session(4,7) [THEN read_option_cols(1)]
  verification_row_session(8-11) [THEN read_option_cols(3)]

lemma readUser_verification_row:
  "readUser (verification_row x s gens) = Inr (map_option lookup_of_user x)"
  by (cases x) (simp_all add: readUser_def verification_row_read lookup_of_user_def)

lemma readSession_verification_row:
  "readSession (verification_row x s gens) = Inr (map_option lookup_of_row s)"
proof (cases s)
  case (Some r)
  have "readAudience (verification_row x (Some r) gens) = Inr (rt_audience r)"
    using verification_row_session(1) [THEN read_option_cols(4), of x r gens]
    by (cases "rt_audience r") (simp_all add: readAudience_def audience_name_def)
  with Some show ?thesis
    by (simp add: readSession_def verification_row_read lookup_of_row_def)
qed (simp add: readSession_def verification_row_read)

text \<open>Reading the statement's answer never fails, and gives the columns back.\<close>

lemma read_sessionVerificationQuery:
  "readSessionVerificationLookup (sessionVerificationQuery u sid db) =
     (let s = Option.bind sid (\<lambda>i. find_where (\<lambda>r. rt_id r = i) (tokens db)) in
      Inr \<lparr>lk_user = map_option lookup_of_user (find_user u db), lk_session = map_option lookup_of_row s,
          lk_generations = JArr (map scope_json
            (case s of None \<Rightarrow> []
             | Some r \<Rightarrow> session_scope_rows u (rt_audience r) (rt_deviceKey r) (rt_familyId r) db))\<rparr>)"
proof -
  have b: "Option.bind sid f = (case sid of None \<Rightarrow> None | Some i \<Rightarrow> f i)" for f :: "string \<Rightarrow> refresh_token option"
    by (cases sid) auto
  show ?thesis
    by (simp add: sessionVerificationQuery_def readSessionVerificationLookup_def as_record_def Let_def
        readUser_verification_row readSession_verification_row verification_row_get b del: js_get.simps)
qed

lemma readScopeEntry_json: "readScopeEntry (scope_json g) = Inr (scope_read_of g)"
  by (cases "sg_scope g") (simp_all add: readScopeEntry_def scope_json_def as_record_def readScope_def
      scope_name_def readInteger_def js_int_def readNullableString_def js_of_option_def scope_read_of_def
      split: option.splits)

lemma read_all_map: "(\<And>x. f (g x) = Inr (h x)) \<Longrightarrow> read_all f (map g xs) = Inr (map h xs)"
  by (induction xs) auto

lemma readScopeGenerations_json:
  "readScopeGenerations (JArr (map scope_json gs)) = Inr (map scope_read_of gs)"
  by (simp add: readScopeGenerations_def read_all_map readScopeEntry_json)

lemma stale_rows:
  assumes "scopes_unique db" "rt_userId r = u"
  shows "list_ex (\<lambda>g. sg_generation g \<noteq> rt_snapshot r (sg_scope g) \<and> sg_exemptFamilyId g \<noteq> Some (rt_familyId r))
      (session_scope_rows u (rt_audience r) (rt_deviceKey r) (rt_familyId r) db)
    \<longleftrightarrow> (\<exists>sc. scope_stale r db sc)"
  (is "?L \<longleftrightarrow> ?R")
proof -
  have at: "scope_at u (sg_scope g) (sg_scopeKey g) db = Some g" if "g \<in> set (scopes db)" "sg_userId g = u" for g
    using assms that unfolding scope_at_def
    by (intro find_where_unique [where k = scope_key_of]) (auto simp: scopes_unique_def scope_row_is_key scope_key_of_def)
  show ?thesis
  proof
    assume ?L
    then obtain g where g: "g \<in> set (scopes db)" "sg_userId g = u"
      "watched_key (rt_audience r) (rt_deviceKey r) (rt_familyId r) (sg_scope g) = Some (sg_scopeKey g)"
      "sg_generation g \<noteq> rt_snapshot r (sg_scope g)" "sg_exemptFamilyId g \<noteq> Some (rt_familyId r)"
      by (auto simp: list_ex_iff session_scope_rows_def scope_key_requested_watched)
    then have "scope_stale r db (sg_scope g)"
      using at [OF g(1,2)] assms(2) by (simp add: scope_stale_def)
    then show ?R ..
  next
    assume ?R
    then obtain sc k g where "watched_key (rt_audience r) (rt_deviceKey r) (rt_familyId r) sc = Some k"
      "scope_at u sc k db = Some g" "sg_generation g \<noteq> rt_snapshot r sc" "sg_exemptFamilyId g \<noteq> Some (rt_familyId r)"
      using assms(2) by (auto simp: scope_stale_def split: option.splits)
    then show ?L
      by (auto simp: list_ex_iff session_scope_rows_def scope_key_requested_watched scope_at_def scope_row_is_def
          dest!: find_where_SomeD)
  qed
qed

lemma ex_scope: "(\<exists>sc. P sc) \<longleftrightarrow> list_ex P [ACCOUNT, AUDIENCE, DEVICE, FAMILY]"
  by (auto simp: list_ex_iff) (metis revocation_scope.exhaust)

lemma status_name_inj: "status_name s = ''ACTIVE'' \<longleftrightarrow> s = ACTIVE"
  by (cases s) (auto simp: status_name_def)

lemma reason_name_inj: "reason_name s = ''ROTATED'' \<longleftrightarrow> s = ROTATED"
  by (cases s) (auto simp: reason_name_def)

lemma verifier_pair:
  assumes "scopes_unique db"
  shows "verifyInDatabase t (\<lambda>u s. Some (sessionVerificationQuery u s db)) = access_verdict t db"
proof (cases "tk_sub t")
  case (Some u)
  define sid where "sid = (case tk_sid t of Some s \<Rightarrow> if s = '''' then None else Some s | None \<Rightarrow> None)"
  define s where "s = Option.bind sid (\<lambda>i. find_where (\<lambda>r. rt_id r = i) (tokens db))"
  have s: "session_row t db = s"
    by (auto simp: s_def sid_def session_row_def split: option.split)
  have acc: "account_dead t u db \<longleftrightarrow> (case map_option lookup_of_user (find_user u db) of None \<Rightarrow> True
      | Some x \<Rightarrow> lu_status x \<noteq> ''ACTIVE'' \<or> (case lu_accessTokensRevokedAt x of None \<Rightarrow> False
          | Some ra \<Rightarrow> (case issuedAtMs t of None \<Rightarrow> True | Some i \<Rightarrow> i \<le> ra)))"
    by (simp add: account_dead_def lookup_of_user_def status_name_inj split: option.split)
  have snap: "ls_snapshot (lookup_of_row r) = rt_snapshot r" for r
    by (auto simp: fun_eq_iff ls_snapshot_def lookup_of_row_def rt_snapshot_def split: revocation_scope.split)
  show ?thesis
  proof (cases s)
    case None
    then show ?thesis
      using acc by (auto simp: verifyInDatabase_def Some sid_def [symmetric] read_sessionVerificationQuery
          s_def [symmetric] judge_def access_verdict_def s Let_def split: option.splits)
  next
    case (Some r)
    then obtain i where i: "sid = Some i" "tk_sid t = Some i" "rt_id r = i"
      by (auto simp: s_def sid_def dest!: find_where_SomeD split: option.splits if_splits)
    have ended: "ls_revokedAt (lookup_of_row r) = rt_revokedAt r"
      "ls_revocationReason (lookup_of_row r) = Some ''ROTATED'' \<longleftrightarrow> rt_revocationReason r = Some ROTATED"
      by (cases "rt_revocationReason r"; simp add: lookup_of_row_def reason_name_inj)+
    have ls: "ls_userId (lookup_of_row r) = rt_userId r" "ls_accessRevokedAt (lookup_of_row r) = rt_accessRevokedAt r"
      "ls_familyId (lookup_of_row r) = rt_familyId r" "ls_audience (lookup_of_row r) = rt_audience r"
      "ls_deviceKey (lookup_of_row r) = rt_deviceKey r"
      by (simp_all add: lookup_of_row_def)
    have st: "list_ex (\<lambda>g. sr_generation g \<noteq> ls_snapshot (lookup_of_row r) (sr_scope g)
        \<and> sr_exemptFamilyId g \<noteq> Some (ls_familyId (lookup_of_row r)))
        (map scope_read_of (session_scope_rows u (rt_audience r) (rt_deviceKey r) (rt_familyId r) db))
      \<longleftrightarrow> list_ex (scope_stale r db) [ACCOUNT, AUDIENCE, DEVICE, FAMILY]" if "rt_userId r = u"
      using stale_rows [OF assms that] unfolding ex_scope [symmetric]
      by (simp add: list_ex_iff snap scope_read_of_def ls)
    have "verifyInDatabase t (\<lambda>u s. Some (sessionVerificationQuery u s db)) =
        judge t u \<lparr>lk_user = map_option lookup_of_user (find_user u db), lk_session = Some (lookup_of_row r),
          lk_generations = JArr (map scope_json (session_scope_rows u (rt_audience r) (rt_deviceKey r) (rt_familyId r) db))\<rparr>"
      by (simp add: verifyInDatabase_def \<open>tk_sub t = Some u\<close> sid_def [symmetric] read_sessionVerificationQuery
          s_def [symmetric] Some Let_def)
    also have "\<dots> = (if account_dead t u db then (Revoked, None)
        else if row_dead u r db then (Revoked, None) else (Active, Some (row_identity t r)))"
      using st unfolding judge_def Let_def acc row_dead_def
      by (auto simp: ended ls readScopeGenerations_json i row_identity_def split: option.splits)
    finally show ?thesis by (simp add: access_verdict_def \<open>tk_sub t = Some u\<close> s Some)
  qed
qed (simp add: verifyInDatabase_def access_verdict_def)

section \<open>What changes to the tables do to rows\<close>

definition row_core where
  "row_core r = (rt_id r, rt_userId r, rt_token r, rt_familyId r, rt_audience r, rt_deviceKey r,
     rt_accountGeneration r, rt_audienceGeneration r, rt_deviceGeneration r, rt_familyGeneration r,
     rt_expiredAt r)"

abbreviation row_live :: "refresh_token \<Rightarrow> bool" where
  "row_live r \<equiv> rt_revokedAt r = None"

abbreviation row_watched :: "refresh_token \<Rightarrow> revocation_scope \<Rightarrow> string option" where
  "row_watched r \<equiv> watched_key (rt_audience r) (rt_deviceKey r) (rt_familyId r)"

definition row_ended :: "refresh_token \<Rightarrow> bool" where
  "row_ended r \<longleftrightarrow> rt_accessRevokedAt r \<noteq> None \<or> (rt_revokedAt r \<noteq> None \<and> rt_revocationReason r \<noteq> Some ROTATED)"

text \<open>A retired row is never rewritten.\<close>

definition stays_retired :: "refresh_token \<Rightarrow> refresh_token \<Rightarrow> bool" where
  "stays_retired r r' \<longleftrightarrow> (\<not> row_live r \<longrightarrow>
     rt_revokedAt r' = rt_revokedAt r \<and> rt_revocationReason r' = rt_revocationReason r)"

definition in_family :: "refresh_token \<Rightarrow> refresh_token \<Rightarrow> session_db \<Rightarrow> bool" where
  "in_family r r' db \<longleftrightarrow> rt_userId r = rt_userId r' \<and> rt_audience r = rt_audience r'
     \<and> scope_stale r db ACCOUNT = scope_stale r' db ACCOUNT \<and> (row_live r \<and> row_live r' \<longrightarrow> r = r')"

definition base_inv :: "session_db \<Rightarrow> bool" where
  "base_inv db \<longleftrightarrow> scopes_unique db \<and> distinct (map rt_id (tokens db)) \<and> distinct (map rt_token (tokens db))
     \<and> (\<forall>r \<in> set (tokens db). \<forall>sc k. row_watched r sc = Some k \<longrightarrow> rt_snapshot r sc \<le> gen_of (rt_userId r) sc k db)
     \<and> (\<forall>r \<in> set (tokens db). \<forall>r' \<in> set (tokens db). rt_familyId r = rt_familyId r' \<longrightarrow> in_family r r' db)"

definition live_fresh :: "session_db \<Rightarrow> bool" where
  "live_fresh db \<longleftrightarrow> (\<forall>r \<in> set (tokens db). row_live r \<longrightarrow> \<not> scope_stale r db ACCOUNT)"

text \<open>The invariant of the session tables.\<close>

definition session_inv :: "session_db \<Rightarrow> bool" where
  "session_inv db \<longleftrightarrow> base_inv db \<and> live_fresh db"

lemma row_core_eq:
  assumes "row_core r = row_core r'"
  shows "rt_id r = rt_id r'" "rt_userId r = rt_userId r'" "rt_token r = rt_token r'"
    "rt_familyId r = rt_familyId r'" "rt_audience r = rt_audience r'" "rt_deviceKey r = rt_deviceKey r'"
    "rt_snapshot r = rt_snapshot r'" "scope_stale r db = scope_stale r' db" "rt_expiredAt r = rt_expiredAt r'"
proof -
  show eqs: "rt_id r = rt_id r'" "rt_userId r = rt_userId r'" "rt_token r = rt_token r'"
    "rt_familyId r = rt_familyId r'" "rt_audience r = rt_audience r'" "rt_deviceKey r = rt_deviceKey r'"
    using assms by (auto simp: row_core_def)
  show sn: "rt_snapshot r = rt_snapshot r'"
    using assms by (auto simp: row_core_def rt_snapshot_def fun_eq_iff split: revocation_scope.split)
  show "scope_stale r db = scope_stale r' db"
    by (rule ext) (simp add: scope_stale_def eqs sn split: option.split)
  show "rt_expiredAt r = rt_expiredAt r'" using assms by (simp add: row_core_def)
qed

lemma scope_at_scopes: "scopes db' = scopes db \<Longrightarrow> scope_at u sc k db' = scope_at u sc k db"
  by (simp add: scope_at_def)

lemma scope_stale_scopes: "scopes db' = scopes db \<Longrightarrow> scope_stale r db' = scope_stale r db"
  by (rule ext) (simp add: scope_stale_def scope_at_scopes [of db' db] split: option.split)

lemma gen_of_scopes: "scopes db' = scopes db \<Longrightarrow> gen_of u sc k db' = gen_of u sc k db"
  by (simp add: gen_of_def scope_at_scopes [of db' db])

text \<open>Rows rewritten one by one, keeping what identifies them and reviving none.\<close>

lemma base_inv_map:
  assumes "base_inv db" "\<And>r. row_core (f r) = row_core r" "\<And>r. row_live (f r) \<Longrightarrow> row_live r"
    "tokens db' = map f (tokens db)" "scopes db' = scopes db"
  shows "base_inv db'"
proof -
  note core = row_core_eq [OF assms(2)]
  have ids: "map rt_id (tokens db') = map rt_id (tokens db)"
    "map rt_token (tokens db') = map rt_token (tokens db)"
    by (simp_all add: assms(4) core)
  have "in_family (f r) (f r') db'" if "r \<in> set (tokens db)" "r' \<in> set (tokens db)"
    "rt_familyId r = rt_familyId r'" for r r'
  proof -
    have "in_family r r' db" using assms(1) that by (simp add: base_inv_def)
    then show ?thesis
      using assms(3) [of r] assms(3) [of r']
      by (auto simp: in_family_def core scope_stale_scopes [OF assms(5)])
  qed
  then have fam: "\<forall>r \<in> set (tokens db'). \<forall>r' \<in> set (tokens db'). rt_familyId r = rt_familyId r' \<longrightarrow> in_family r r' db'"
    by (auto simp: assms(4) core)
  have "\<forall>r \<in> set (tokens db'). \<forall>sc k. row_watched r sc = Some k \<longrightarrow> rt_snapshot r sc \<le> gen_of (rt_userId r) sc k db'"
    using assms(1) by (simp add: base_inv_def assms(4) core gen_of_scopes [OF assms(5)])
  moreover have "scopes_unique db'" "distinct (map rt_id (tokens db'))" "distinct (map rt_token (tokens db'))"
    using assms(1) unfolding ids by (simp_all add: base_inv_def scopes_unique_def assms(5))
  ultimately show ?thesis using fam by (simp add: base_inv_def)
qed

text \<open>A counter advances.\<close>

lemma scope_stale_advance:
  assumes "advanceScopeGeneration now u sc k ex db = (gen, db')"
    "\<And>k. row_watched r sc' = Some k \<Longrightarrow> rt_snapshot r sc' \<le> gen_of (rt_userId r) sc' k db"
  shows "scope_stale r db' sc' = (if sc' = sc \<and> rt_userId r = u \<and> row_watched r sc' = Some k
           then ex \<noteq> Some (rt_familyId r) else scope_stale r db sc')"
proof (cases "row_watched r sc'")
  case (Some k')
  with assms(2) [of k'] show ?thesis
    using scope_at_advance(1,2) [OF assms(1)]
    by (auto simp: scope_stale_def scope_row_def)
qed (simp add: scope_stale_def)

lemma base_inv_advance:
  assumes "advanceScopeGeneration now u sc k ex db = (gen, db')" "base_inv db"
  shows "base_inv db'"
proof -
  note adv = scope_at_advance [OF assms(1)]
  have le: "rt_snapshot r sc' \<le> gen_of (rt_userId r) sc' k' db"
    if "r \<in> set (tokens db)" "row_watched r sc' = Some k'" for r sc' k'
    using assms(2) that by (auto simp: base_inv_def)
  have st: "scope_stale r db' ACCOUNT = (if sc = ACCOUNT \<and> rt_userId r = u \<and> ACCOUNT_SCOPE_KEY = k
      then ex \<noteq> Some (rt_familyId r) else scope_stale r db ACCOUNT)" if "r \<in> set (tokens db)" for r
  proof (cases "sc = ACCOUNT")
    case True
    then show ?thesis
      using scope_stale_advance [OF assms(1) le [OF that], of ACCOUNT] by (simp add: watched_key_def)
  next
    case False
    then show ?thesis
      using scope_stale_advance [OF assms(1) le [OF that], of ACCOUNT] by simp
  qed
  have fam: "in_family r r' db'" if "r \<in> set (tokens db)" "r' \<in> set (tokens db)" "rt_familyId r = rt_familyId r'" for r r'
  proof -
    have "in_family r r' db" using assms(2) that by (simp add: base_inv_def)
    then show ?thesis using st [OF that(1)] st [OF that(2)] that(3) by (simp add: in_family_def)
  qed
  have "rt_snapshot r sc' \<le> gen_of (rt_userId r) sc' k' db'"
    if "r \<in> set (tokens db)" "row_watched r sc' = Some k'" for r sc' k'
    using le [OF that] by (auto simp: gen_of_advance [OF assms(1)])
  then show ?thesis using assms(2) fam adv(3,5) by (simp add: base_inv_def)
qed

text \<open>A new row joins its family.\<close>

lemma createWithClient_Inr:
  assumes "createWithClient h cfg now d u ctx a fam db = Inr (s, db')"
  shows "s = (dr_rawToken d, dr_id d) \<and> (\<exists>r. db' = db\<lparr>tokens := tokens db @ [r]\<rparr>
    \<and> rt_id r = dr_id d \<and> rt_token r = h (dr_rawToken d) \<and> rt_userId r = u \<and> rt_familyId r = fam
    \<and> rt_audience r = a \<and> rt_deviceKey r = sc_deviceKey (normalizeContext ctx) \<and> row_live r
    \<and> rt_revocationReason r = None \<and> rt_accessRevokedAt r = None
    \<and> rt_snapshot r = currentScopeGenerations u a (rt_deviceKey r) fam db
    \<and> rt_expiredAt r = \<lfloor>of_int now + ttlMsFor cfg a\<rfloor>)
    \<and> (\<forall>r \<in> set (tokens db). rt_token r \<noteq> h (dr_rawToken d) \<and> rt_id r \<noteq> dr_id d)"
  using assms
  by (auto simp: createWithClient_def Let_def fun_eq_iff rt_snapshot_def split: if_splits revocation_scope.split)

lemma fresh_row:
  assumes "scopes_unique db" "scopes db' = scopes db"
    "rt_snapshot r = currentScopeGenerations (rt_userId r) (rt_audience r) (rt_deviceKey r) (rt_familyId r) db"
  shows "\<not> scope_stale r db' sc"
    and "row_watched r sc = Some k \<Longrightarrow> rt_snapshot r sc \<le> gen_of (rt_userId r) sc k db'"
  by (auto simp: scope_stale_def scope_at_scopes [OF assms(2)] gen_of_scopes [OF assms(2)] assms(3)
      currentScopeGenerations_eq [OF assms(1)] gen_of_def split: option.splits)

lemma base_inv_create:
  assumes "base_inv db" "createWithClient h cfg now d u ctx a fam db = Inr (s, db')"
    "\<And>r. r \<in> set (tokens db) \<Longrightarrow> rt_familyId r = fam \<Longrightarrow>
       rt_userId r = u \<and> rt_audience r = a \<and> \<not> row_live r \<and> \<not> scope_stale r db ACCOUNT"
  shows "base_inv db'"
proof -
  obtain n where n: "db' = db\<lparr>tokens := tokens db @ [n]\<rparr>" "rt_userId n = u" "rt_familyId n = fam"
    "rt_audience n = a" "row_live n"
    "rt_snapshot n = currentScopeGenerations u a (rt_deviceKey n) fam db"
    "\<forall>r \<in> set (tokens db). rt_token r \<noteq> rt_token n \<and> rt_id r \<noteq> rt_id n"
    using createWithClient_Inr [OF assms(2)] by (clarsimp; blast)
  have sc: "scopes db' = scopes db" by (simp add: n(1))
  have toks: "tokens db' = tokens db @ [n]" by (simp add: n(1))
  have uq: "scopes_unique db" using assms(1) by (simp add: base_inv_def)
  have new: "\<not> scope_stale n db' sc" "row_watched n sc = Some k \<Longrightarrow> rt_snapshot n sc \<le> gen_of (rt_userId n) sc k db'" for sc k
    using fresh_row [OF uq sc, of n] n(2-4,6) by simp_all
  have old: "rt_snapshot r sc' \<le> gen_of (rt_userId r) sc' k' db'"
    if "r \<in> set (tokens db)" "row_watched r sc' = Some k'" for r sc' k'
    using assms(1) that by (simp add: base_inv_def gen_of_scopes [OF sc])
  have join: "in_family r n db' \<and> in_family n r db'" if "r \<in> set (tokens db)" "rt_familyId r = fam" for r
    using assms(3) [OF that] n(2,4,5) new(1) [of ACCOUNT]
    unfolding in_family_def scope_stale_scopes [OF sc] by (elim conjE) (intro conjI iffI impI; simp)
  have oldfam: "in_family r r' db'" if "r \<in> set (tokens db)" "r' \<in> set (tokens db)" "rt_familyId r = rt_familyId r'" for r r'
  proof -
    have "in_family r r' db" using assms(1) that by (simp add: base_inv_def)
    then show ?thesis by (simp add: in_family_def scope_stale_scopes [OF sc])
  qed
  have self: "in_family n n db'" by (simp add: in_family_def)
  have "\<forall>r \<in> set (tokens db'). \<forall>r' \<in> set (tokens db'). rt_familyId r = rt_familyId r' \<longrightarrow> in_family r r' db'"
    unfolding toks using join oldfam self n(3) by auto
  moreover have "\<forall>r \<in> set (tokens db'). \<forall>sc k. row_watched r sc = Some k \<longrightarrow> rt_snapshot r sc \<le> gen_of (rt_userId r) sc k db'"
    unfolding toks using old new(2) by auto
  moreover have "scopes_unique db'" using uq by (simp add: scopes_unique_def sc)
  moreover have "distinct (map rt_id (tokens db'))" "distinct (map rt_token (tokens db'))"
    unfolding toks using assms(1) n(7) by (auto simp: base_inv_def)
  ultimately show ?thesis by (simp add: base_inv_def)
qed

lemma live_fresh_create:
  assumes "base_inv db" "live_fresh db" "createWithClient h cfg now d u ctx a fam db = Inr (s, db')"
  shows "live_fresh db'"
proof -
  obtain n where n: "db' = db\<lparr>tokens := tokens db @ [n]\<rparr>" "rt_userId n = u" "rt_familyId n = fam" "rt_audience n = a"
    "rt_snapshot n = currentScopeGenerations u a (rt_deviceKey n) fam db"
    using createWithClient_Inr [OF assms(3)] by (clarsimp; blast)
  have sc: "scopes db' = scopes db" by (simp add: n(1))
  have "\<not> scope_stale n db' ACCOUNT"
    using assms(1) fresh_row(1) [OF _ sc, of n] n(2-5) by (simp add: base_inv_def)
  moreover have "tokens db' = tokens db @ [n]" by (simp add: n(1))
  ultimately show ?thesis
    using assms(2) scope_stale_scopes [OF sc] by (auto simp: live_fresh_def)
qed

section \<open>Loss of access is permanent\<close>

lemma stays_retired_refl [simp]: "stays_retired r r" by (simp add: stays_retired_def)

definition user_decays :: "session_user \<Rightarrow> session_user \<Rightarrow> bool" where
  "user_decays x x' \<longleftrightarrow> su_status x' = su_status x
     \<and> (\<forall>c. su_accessTokensRevokedAt x = Some c \<longrightarrow> (\<exists>c' \<ge> c. su_accessTokensRevokedAt x' = Some c'))"

definition find_row :: "string \<Rightarrow> session_db \<Rightarrow> refresh_token option" where
  "find_row i db = find_where (\<lambda>r. rt_id r = i) (tokens db)"

text \<open>
  Every account and every session of the first database is in the second, with no more access, except that
  families in the set may have caught up with the account's counter.
\<close>

definition caught_up :: "string set \<Rightarrow> refresh_token \<Rightarrow> revocation_scope \<Rightarrow> bool" where
  "caught_up E r sc \<longleftrightarrow> sc = ACCOUNT \<and> rt_familyId r \<in> E"

definition decays_but :: "string set \<Rightarrow> session_db \<Rightarrow> session_db \<Rightarrow> bool" where
  "decays_but E db db' \<longleftrightarrow>
     (\<forall>u. rel_option user_decays (find_user u db) (find_user u db'))
     \<and> (\<forall>i r. find_row i db = Some r \<longrightarrow> (\<exists>r'. find_row i db' = Some r' \<and> row_core r' = row_core r
            \<and> (row_ended r \<longrightarrow> row_ended r') \<and> stays_retired r r'
            \<and> (\<forall>sc. scope_stale r db sc \<longrightarrow> scope_stale r' db' sc \<or> caught_up E r sc)))"

abbreviation decays :: "session_db \<Rightarrow> session_db \<Rightarrow> bool" where
  "decays \<equiv> decays_but {}"

lemma caught_up_empty [simp]: "\<not> caught_up {} r sc" by (simp add: caught_up_def)

lemma user_decays_refl [simp]: "user_decays x x" by (simp add: user_decays_def)

lemma user_decays_trans: "user_decays x y \<Longrightarrow> user_decays y z \<Longrightarrow> user_decays x z"
  unfolding user_decays_def by (metis order_trans)

lemma decays_refl [simp]: "decays_but E db db"
  by (auto simp: decays_but_def intro: option.rel_refl)

lemma decays_but_trans: "decays_but E a b \<Longrightarrow> decays_but F b c \<Longrightarrow> decays_but (E \<union> F) a c"
  unfolding decays_but_def
proof (intro conjI allI, goal_cases)
  case (1 u)
  then have "rel_option user_decays (find_user u a) (find_user u b)"
    "rel_option user_decays (find_user u b) (find_user u c)" by blast+
  then show ?case
    by (cases "find_user u a"; cases "find_user u b"; cases "find_user u c") (auto intro: user_decays_trans)
next
  case (2 i r)
  show ?case
  proof
    assume "find_row i a = Some r"
    with 2(1) obtain r1 where r1: "find_row i b = Some r1" "row_core r1 = row_core r" "row_ended r \<longrightarrow> row_ended r1" "stays_retired r r1"
      "\<forall>sc. scope_stale r a sc \<longrightarrow> scope_stale r1 b sc \<or> caught_up E r sc" by blast
    with 2(2) obtain r2 where r2: "find_row i c = Some r2" "row_core r2 = row_core r1"
      "row_ended r1 \<longrightarrow> row_ended r2" "stays_retired r1 r2" "\<forall>sc. scope_stale r1 b sc \<longrightarrow> scope_stale r2 c sc \<or> caught_up F r1 sc" by blast
    have "scope_stale r2 c sc \<or> caught_up (E \<union> F) r sc" if "scope_stale r a sc" for sc
      using r1(5) r2(5) that row_core_eq(4) [OF r1(2)] unfolding caught_up_def by auto
    moreover have "stays_retired r r2" using r1(4) r2(4) by (auto simp: stays_retired_def)
    ultimately show "\<exists>r'. find_row i c = Some r' \<and> row_core r' = row_core r \<and> (row_ended r \<longrightarrow> row_ended r')
        \<and> stays_retired r r' \<and> (\<forall>sc. scope_stale r a sc \<longrightarrow> scope_stale r' c sc \<or> caught_up (E \<union> F) r sc)"
      using r1(2,3) r2(1-3) by (intro exI [of _ r2]) simp
  qed
qed

lemmas decays_trans = decays_but_trans [of "{}" _ _ "{}", simplified]

lemma row_dead_iff: "row_dead u r db \<longleftrightarrow> rt_userId r \<noteq> u \<or> row_ended r \<or> (\<exists>sc. scope_stale r db sc)"
  unfolding ex_scope by (auto simp: row_dead_def row_ended_def)

text \<open>The one way back: a token refused only because its session is behind the account's counter.\<close>

definition only_behind :: "token_claims \<Rightarrow> session_db \<Rightarrow> string set \<Rightarrow> bool" where
  "only_behind t db E \<longleftrightarrow> (\<exists>u r. tk_sub t = Some u \<and> \<not> account_dead t u db \<and> session_row t db = Some r
     \<and> rt_userId r = u \<and> \<not> row_ended r \<and> scope_stale r db ACCOUNT
     \<and> (\<forall>sc. scope_stale r db sc \<longrightarrow> sc = ACCOUNT) \<and> rt_familyId r \<in> E)"

lemma decays_revoked:
  assumes "decays_but E db db'" "fst (access_verdict t db) = Revoked" "\<not> only_behind t db E"
  shows "fst (access_verdict t db') = Revoked"
proof (cases "tk_sub t")
  case (Some u)
  have acc: "account_dead t u db'" if "account_dead t u db"
  proof -
    have "rel_option user_decays (find_user u db) (find_user u db')" using assms(1) by (simp add: decays_but_def)
    with that show ?thesis
      by (cases "find_user u db"; cases "find_user u db'")
        (fastforce simp: account_dead_def user_decays_def split: option.splits)+
  qed
  show ?thesis
  proof (cases "account_dead t u db'")
    case False
    with acc assms(2) Some obtain r where r: "session_row t db = Some r" "row_dead u r db"
      by (auto simp: access_verdict_def split: option.splits if_splits)
    then obtain i where i: "tk_sid t = Some i" "i \<noteq> ''''" "find_row i db = Some r"
      by (auto simp: session_row_def find_row_def split: option.splits if_splits)
    then obtain r' where r': "find_row i db' = Some r'" "row_core r' = row_core r"
      "row_ended r \<longrightarrow> row_ended r'" "\<forall>sc. scope_stale r db sc \<longrightarrow> scope_stale r' db' sc \<or> caught_up E r sc"
      using assms(1) unfolding decays_but_def by blast
    moreover have "\<not> account_dead t u db" using False acc by blast
    then have "rt_userId r \<noteq> u \<or> row_ended r \<or> (\<exists>sc. scope_stale r db sc \<and> \<not> caught_up E r sc)"
      using assms(3) Some r by (auto simp: only_behind_def row_dead_iff caught_up_def)
    ultimately have "row_dead u r' db'" using row_core_eq [OF r'(2)] by (auto simp: row_dead_iff)
    moreover have "session_row t db' = Some r'"
      using i r'(1) by (simp add: session_row_def find_row_def)
    ultimately show ?thesis by (simp add: access_verdict_def Some)
  qed (simp add: access_verdict_def Some)
qed (simp add: access_verdict_def)

section \<open>Each kind of change, for the invariant and for access\<close>

lemma find_where_map:
  "(\<And>r. q (f r) = q r) \<Longrightarrow> find_where q (map f xs) = map_option f (find_where q xs)"
  by (induction xs) auto

lemma decays_map:
  assumes "\<And>r. row_core (f r) = row_core r" "\<And>r. row_ended r \<Longrightarrow> row_ended (f r)"
    "\<And>r. stays_retired r (f r)" "tokens db' = map f (tokens db)" "scopes db' = scopes db" "users db' = users db"
  shows "decays db db'"
proof -
  have "find_row i db' = map_option f (find_row i db)" for i
    by (simp add: find_row_def assms(4) find_where_map row_core_eq(1) [OF assms(1)])
  moreover have "find_user u db' = find_user u db" for u by (simp add: find_user_def assms(6))
  ultimately show ?thesis
    using assms(1,2,3) by (auto simp: decays_but_def scope_stale_scopes [OF assms(5)] row_core_eq(8) [OF assms(1)]
        intro: option.rel_refl)
qed

lemma decays_append:
  assumes "tokens db' = tokens db @ ns" "scopes db' = scopes db" "users db' = users db"
  shows "decays db db'"
  using assms(1,3) unfolding decays_but_def
  by (auto simp: find_row_def find_where_append find_user_def scope_stale_scopes [OF assms(2)]
      intro: option.rel_refl)

lemma find_row_mem: "find_row i db = Some r \<Longrightarrow> r \<in> set (tokens db) \<and> rt_id r = i"
  by (auto simp: find_row_def dest: find_where_SomeD)

lemma base_inv_snapshot:
  "base_inv db \<Longrightarrow> r \<in> set (tokens db) \<Longrightarrow> row_watched r sc = Some k \<Longrightarrow>
   rt_snapshot r sc \<le> gen_of (rt_userId r) sc k db"
  by (simp add: base_inv_def)

lemma base_inv_family:
  "base_inv db \<Longrightarrow> r \<in> set (tokens db) \<Longrightarrow> r' \<in> set (tokens db) \<Longrightarrow> rt_familyId r = rt_familyId r' \<Longrightarrow>
   in_family r r' db"
  by (simp add: base_inv_def)

lemmas stale_after_advance =
  scope_stale_advance [OF _ base_inv_snapshot]

lemma decays_advance:
  assumes "advanceScopeGeneration now u sc k ex db = (gen, db')" "base_inv db"
    "\<And>r. r \<in> set (tokens db) \<Longrightarrow> ex = Some (rt_familyId r) \<Longrightarrow> rt_userId r = u \<Longrightarrow>
       row_watched r sc = Some k \<Longrightarrow> scope_stale r db sc \<Longrightarrow> caught_up E r sc"
  shows "decays_but E db db'"
proof -
  note adv = scope_at_advance(3,4) [OF assms(1)]
  have "scope_stale r db' sc' \<or> caught_up E r sc'" if "find_row i db = Some r" "scope_stale r db sc'" for i r sc'
  proof -
    have r: "r \<in> set (tokens db)" using find_row_mem [OF that(1)] by simp
    show ?thesis
      using stale_after_advance [OF assms(1,2) r, of sc'] that(2) assms(3) [OF r] by auto
  qed
  then show ?thesis
    using adv by (auto simp: decays_but_def find_row_def find_user_def intro: option.rel_refl)
qed

text \<open>Announcing a change touches only the flag of the scope row.\<close>

lemma scope_at_notify:
  "map_option (\<lambda>g. (sg_generation g, sg_exemptFamilyId g))
     (scope_at u sc k (notifyScopeRevocationBestEffort dl ev db)) =
   map_option (\<lambda>g. (sg_generation g, sg_exemptFamilyId g)) (scope_at u sc k db)"
proof -
  define q :: "scope_generation \<Rightarrow> bool" where "q = (\<lambda>g. scope_row_is (se_userId ev) (se_scope ev) (se_scopeKey ev) g
                  \<and> sg_generation g = se_generation ev \<and> sg_notificationPending g)"
  define f :: "scope_generation \<Rightarrow> scope_generation" where "f = (\<lambda>g. g\<lparr>sg_notificationPending := False\<rparr>)"
  have "find_where (scope_row_is u sc k) (update_where q f (scopes db)) =
      map_option (\<lambda>g. if q g then f g else g) (find_where (scope_row_is u sc k) (scopes db))"
    by (intro find_where_update) (simp add: f_def scope_row_is_def)
  then show ?thesis
    by (simp add: notifyScopeRevocationBestEffort_def scope_at_def q_def [symmetric] f_def [symmetric]
        option.map_comp comp_def if_distrib) (simp add: f_def cong: if_cong)
qed

lemma notify_same:
  fixes dl ev db
  defines "db' \<equiv> notifyScopeRevocationBestEffort dl ev db"
  shows "tokens db' = tokens db" "users db' = users db"
    "scope_stale r db' = scope_stale r db" "gen_of u sc k db' = gen_of u sc k db"
    "scopes_unique db' = scopes_unique db"
proof -
  show "tokens db' = tokens db" "users db' = users db"
    by (simp_all add: db'_def notifyScopeRevocationBestEffort_def)
  have at: "map_option (\<lambda>g. (sg_generation g, sg_exemptFamilyId g)) (scope_at u sc k db') =
    map_option (\<lambda>g. (sg_generation g, sg_exemptFamilyId g)) (scope_at u sc k db)" for u sc k
    by (simp add: db'_def scope_at_notify)
  show "gen_of u sc k db' = gen_of u sc k db"
    using at [of u sc k] by (auto simp: gen_of_def split: option.splits)
  show "scope_stale r db' = scope_stale r db"
  proof
    fix sc
    show "scope_stale r db' sc = scope_stale r db sc"
      using at [of "rt_userId r" sc "the (row_watched r sc)"]
      by (auto simp: scope_stale_def split: option.splits)
  qed
  have "map scope_key_of (scopes db') = map scope_key_of (scopes db)"
    by (auto simp: db'_def notifyScopeRevocationBestEffort_def scope_key_of_def intro!: map_update_where)
  then show "scopes_unique db' = scopes_unique db" by (simp add: scopes_unique_def)
qed

lemma decays_notify: "decays db (notifyScopeRevocationBestEffort dl ev db)"
  by (auto simp: decays_but_def find_row_def find_user_def notify_same intro: option.rel_refl)

lemma session_inv_notify: "session_inv (notifyScopeRevocationBestEffort dl ev db) = session_inv db"
  by (simp add: session_inv_def base_inv_def live_fresh_def in_family_def notify_same)

definition revoke_row :: "int \<Rightarrow> revocation_reason \<Rightarrow> (refresh_token \<Rightarrow> bool) \<Rightarrow> refresh_token \<Rightarrow> refresh_token" where
  "revoke_row now why p r = (if p r \<and> row_live r
     then r\<lparr>rt_revokedAt := Some now, rt_revocationReason := Some why\<rparr> else r)"

lemma revoke_rows_eq: "revoke_rows now why p db = db\<lparr>tokens := map (revoke_row now why p) (tokens db)\<rparr>"
  by (simp add: revoke_rows_def update_where_def revoke_row_def [abs_def])

lemma revoke_row_props:
  "row_core (revoke_row now why p r) = row_core r"
  "row_live (revoke_row now why p r) \<longleftrightarrow> row_live r \<and> \<not> p r"
  "row_ended r \<Longrightarrow> row_ended (revoke_row now why p r)"
  "stays_retired r (revoke_row now why p r)"
  by (auto simp: revoke_row_def row_core_def row_ended_def stays_retired_def)

lemma base_inv_revoke: "base_inv db \<Longrightarrow> base_inv (revoke_rows now why p db)"
  by (erule base_inv_map [where f = "revoke_row now why p"]) (simp_all add: revoke_rows_eq revoke_row_props)

lemma decays_revoke: "decays db (revoke_rows now why p db)"
  by (rule decays_map [where f = "revoke_row now why p"]) (simp_all add: revoke_rows_eq revoke_row_props)

lemma live_fresh_revoke:
  assumes "\<And>r. r \<in> set (tokens db) \<Longrightarrow> row_live r \<Longrightarrow> \<not> p r \<Longrightarrow> \<not> scope_stale r db ACCOUNT"
  shows "live_fresh (revoke_rows now why p db)"
proof -
  have "scope_stale (revoke_row now why p r) (revoke_rows now why p db) = scope_stale r db" for r
    using scope_stale_scopes [of "revoke_rows now why p db" db] row_core_eq(8) [OF revoke_row_props(1)]
    by (simp add: revoke_rows_eq)
  with assms show ?thesis
    by (auto simp: live_fresh_def revoke_rows_eq revoke_row_props)
qed

section \<open>Every operation keeps the invariant and only takes access away\<close>

definition keeps_but :: "string set \<Rightarrow> session_db \<Rightarrow> session_db \<Rightarrow> bool" where
  "keeps_but E db db' \<longleftrightarrow> session_inv db' \<and> decays_but E db db'"

abbreviation keeps :: "session_db \<Rightarrow> session_db \<Rightarrow> bool" where
  "keeps \<equiv> keeps_but {}"

lemmas keeps_def = keeps_but_def

lemma keeps_refl: "session_inv db \<Longrightarrow> keeps_but E db db" by (simp add: keeps_def)

lemma keeps_but_trans: "keeps_but E a b \<Longrightarrow> (session_inv b \<Longrightarrow> keeps_but F b c) \<Longrightarrow> keeps_but (E \<union> F) a c"
  by (auto simp: keeps_def intro: decays_but_trans)

lemmas keeps_trans = keeps_but_trans [of "{}" _ _ "{}", simplified]
lemmas keeps_then = keeps_but_trans [where F = "{}", simplified]
lemmas then_keeps = keeps_but_trans [where E = "{}", simplified]

lemma keeps_notify: "session_inv db \<Longrightarrow> keeps db (notifyScopeRevocationBestEffort dl ev db)"
  by (simp add: keeps_def session_inv_notify decays_notify)

lemma keeps_revoke: "session_inv db \<Longrightarrow> keeps db (revoke_rows now why p db)"
  using live_fresh_revoke [of db p now why]
  by (simp add: keeps_def session_inv_def base_inv_revoke decays_revoke live_fresh_def [of db])

lemma keeps_create:
  assumes "session_inv db" "createWithClient h cfg now d u ctx a fam db = Inr (s, db')"
    "\<And>r. r \<in> set (tokens db) \<Longrightarrow> rt_familyId r = fam \<Longrightarrow>
       rt_userId r = u \<and> rt_audience r = a \<and> \<not> row_live r \<and> \<not> scope_stale r db ACCOUNT"
  shows "keeps db db'"
proof -
  have inv: "base_inv db" "live_fresh db" using assms(1) by (simp_all add: session_inv_def)
  have "decays db db'"
    using createWithClient_Inr [OF assms(2)] by (auto intro!: decays_append)
  then show ?thesis
    using base_inv_create [OF inv(1) assms(2,3)] live_fresh_create [OF inv assms(2)]
    by (simp add: keeps_def session_inv_def)
qed

definition fresh_family :: "string \<Rightarrow> session_db \<Rightarrow> bool" where
  "fresh_family f db \<longleftrightarrow> (\<forall>r \<in> set (tokens db). rt_familyId r \<noteq> f)"

lemma fresh_family_mono:
  assumes "map rt_familyId (tokens db') = map rt_familyId (tokens db)"
  shows "fresh_family f db' \<longleftrightarrow> fresh_family f db"
proof -
  have "fresh_family f x \<longleftrightarrow> f \<notin> set (map rt_familyId (tokens x))" for x
    by (auto simp: fresh_family_def)
  then show ?thesis by (simp only: assms)
qed

lemma keeps_create_fresh:
  assumes "session_inv db" "createWithClient h cfg now d u ctx a fam db = Inr (s, db')" "fresh_family fam db"
  shows "keeps db db'"
  using assms(3) by (intro keeps_create [OF assms(1,2)]) (auto simp: fresh_family_def)

text \<open>Counters other than the account's, advanced for no one's benefit or for a new family's.\<close>

lemma keeps_advance:
  assumes "advanceScopeGeneration now u sc k ex db = (gen, db')" "session_inv db" "sc \<noteq> ACCOUNT"
    "\<And>f. ex = Some f \<Longrightarrow> fresh_family f db"
  shows "keeps db db'"
proof -
  have inv: "base_inv db" "live_fresh db" using assms(2) by (simp_all add: session_inv_def)
  have "decays db db'"
    using assms(4) by (intro decays_advance [OF assms(1) inv(1)]) (auto simp: fresh_family_def)
  moreover have "live_fresh db'"
    using inv assms(3) stale_after_advance [OF assms(1) inv(1), where sc' = ACCOUNT]
    by (auto simp: live_fresh_def scope_at_advance(3) [OF assms(1)])
  ultimately show ?thesis
    using base_inv_advance [OF assms(1) inv(1)] by (simp add: keeps_def session_inv_def)
qed

text \<open>The account's counter, with the sessions it ends.\<close>

lemma keeps_account_advance:
  assumes "advanceScopeGeneration now u ACCOUNT ACCOUNT_SCOPE_KEY ex db = (gen, db1)" "session_inv db"
    "\<And>r. r \<in> set (tokens db) \<Longrightarrow> ex = Some (rt_familyId r) \<Longrightarrow> scope_stale r db ACCOUNT \<Longrightarrow> rt_familyId r \<in> E"
    "\<And>r. rt_userId r = u \<Longrightarrow> ex \<noteq> Some (rt_familyId r) \<Longrightarrow> r \<in> set (tokens db) \<Longrightarrow> p r"
  shows "keeps_but E db (revoke_rows t why p db1)"
proof -
  have inv: "base_inv db" "live_fresh db" using assms(2) by (simp_all add: session_inv_def)
  have toks: "tokens db1 = tokens db" by (rule scope_at_advance(3) [OF assms(1)])
  have d: "decays_but E db db1"
    using assms(3) by (intro decays_advance [OF assms(1) inv(1)]) (auto simp: caught_up_def)
  have "\<not> scope_stale r db1 ACCOUNT" if "r \<in> set (tokens db1)" "row_live r" "\<not> p r" for r
    using stale_after_advance [OF assms(1) inv(1), of r ACCOUNT] that inv(2) assms(4) [of r]
    by (auto simp: toks live_fresh_def watched_key_def split: if_splits)
  then have "live_fresh (revoke_rows t why p db1)" by (rule live_fresh_revoke)
  moreover have "base_inv (revoke_rows t why p db1)"
    by (rule base_inv_revoke [OF base_inv_advance [OF assms(1) inv(1)]])
  ultimately show ?thesis
    using decays_but_trans [OF d decays_revoke] by (simp add: keeps_def session_inv_def)
qed

lemma keeps_users:
  assumes "session_inv db" "\<And>x. user_decays x (f x)" "\<And>x. su_id (f x) = su_id x"
  shows "keeps db (db\<lparr>users := update_where p f (users db)\<rparr>)"
proof -
  define db' where "db' = db\<lparr>users := update_where p f (users db)\<rparr>"
  have same: "tokens db' = tokens db" "scopes db' = scopes db" by (simp_all add: db'_def)
  have "session_inv db'"
    using assms(1) unfolding session_inv_def base_inv_def live_fresh_def in_family_def
      scope_stale_scopes [OF same(2)] gen_of_scopes [OF same(2)] scopes_unique_def same .
  moreover have "rel_option user_decays (find_user u db) (find_user u db')" for u
    by (simp add: find_user_def db'_def find_where_update assms(3) option.rel_map option.rel_refl assms(2))
  then have "decays db db'"
    by (auto simp: decays_but_def find_row_def same scope_stale_scopes [OF same(2)])
  ultimately show ?thesis by (simp add: keeps_def db'_def)
qed

section \<open>The operations\<close>

datatype session_op =
    OpCreate draws string "session_context option" audience "bool option"
  | OpRotate draws string string "session_context option" audience
  | OpIssue string string int
  | OpLogout string "bool option"
  | OpRevokeFamily string string revocation_reason "bool option"
  | OpRevokeAll string
  | OpRevokeSession string string
  | OpRevokeDevice string string "bool option"
  | OpRevokeOthers string "string option" "bool option"
  | OpSetSingleDevice string bool "string option" "bool option"

text \<open>One locked operation, at its time. A replayed token is an outcome, its writes are committed.\<close>

fun session_exec ::
  "(string \<Rightarrow> string) \<Rightarrow> ttl_config \<Rightarrow> int \<times> session_op \<Rightarrow> session_db \<Rightarrow> auth_error + (unit \<times> session_db)" where
  "session_exec h cfg (now, OpCreate d u ctx a dl) db =
     bind_res (createSessionForCurrentSingleDeviceSetting h cfg now d dl u ctx a db) (\<lambda>(_, db'). Inr ((), db'))"
| "session_exec h cfg (now, OpRotate d raw owner ctx a) db =
     bind_res (rotateLocked h cfg now d (h raw) owner ctx a db) (\<lambda>(_, db'). Inr ((), db'))"
| "session_exec h cfg (now, OpIssue u sid e) db = recordAccessTokenIssued u sid e db"
| "session_exec h cfg (now, OpLogout raw dl) db = Inr ((), snd (revoke_token h now dl raw db))"
| "session_exec h cfg (now, OpRevokeFamily u sid why dl) db =
     Inr ((), snd (revokeSessionFamily now dl u sid why db))"
| "session_exec h cfg (now, OpRevokeAll u) db = revokeAll now u db"
| "session_exec h cfg (now, OpRevokeSession u sid) db = Inr ((), snd (revokeSession now u sid db))"
| "session_exec h cfg (now, OpRevokeDevice u k dl) db = Inr ((), revokeDeviceSessions now dl u k db)"
| "session_exec h cfg (now, OpRevokeOthers u sid dl) db = Inr ((), revokeOtherSessions now dl u sid db)"
| "session_exec h cfg (now, OpSetSingleDevice u e sid dl) db = setSingleDeviceLogin now dl u e sid db"

text \<open>
  What the callers guarantee: a new family id is unused, and the clock has not gone back behind the last
  global logout. Nothing is assumed about the session on whose behalf others are ended: the verifier
  accepted it before the request took its lock, but it may have been ended since.
\<close>

fun session_allowed :: "int \<times> session_op \<Rightarrow> session_db \<Rightarrow> bool" where
  "session_allowed (now, OpCreate d u ctx a dl) db = fresh_family (dr_familyId d) db"
| "session_allowed (now, OpRevokeAll u) db =
     list_all (\<lambda>x. case su_accessTokensRevokedAt x of None \<Rightarrow> True | Some c \<Rightarrow> c \<le> now) (users db)"
| "session_allowed _ db = True"

text \<open>The family that a request exempts although it is behind the account's counter itself: its session was ended before.\<close>

definition ended_caller :: "string \<Rightarrow> string option \<Rightarrow> session_db \<Rightarrow> string set" where
  "ended_caller u sid db =
     (case sid of
        None \<Rightarrow> {}
      | Some s \<Rightarrow>
          if s = '''' then {}
          else (case find_session u s db of
                  None \<Rightarrow> {}
                | Some c \<Rightarrow> if scope_stale c db ACCOUNT then {rt_familyId c} else {}))"

fun revives :: "int \<times> session_op \<Rightarrow> session_db \<Rightarrow> string set" where
  "revives (now, OpRevokeOthers u sid dl) db = ended_caller u sid db"
| "revives (now, OpSetSingleDevice u e sid dl) db = (if e then ended_caller u sid db else {})"
| "revives _ db = {}"

lemma keeps_replace:
  assumes "replaceForSingleDeviceWithClient h cfg now d u ctx a db = Inr (s, db')" "session_inv db"
    "fresh_family (dr_familyId d) db"
  shows "keeps db db'"
proof -
  obtain gen db1 where adv: "advanceScopeGeneration now u AUDIENCE (audience_name a) (Some (dr_familyId d)) db = (gen, db1)"
    by fastforce
  define db2 where "db2 = revoke_rows now SINGLE_DEVICE_REPLACED (\<lambda>r. rt_userId r = u \<and> rt_audience r = a) db1"
  from assms(1) adv obtain s' where c: "createWithClient h cfg now d u ctx a (dr_familyId d) db2 = Inr (s', db')"
    by (auto simp: replaceForSingleDeviceWithClient_def db2_def bind_res_Inr_iff)
  have "map rt_familyId (tokens db2) = map rt_familyId (tokens db)"
    by (simp add: db2_def revoke_rows_eq row_core_eq(4) [OF revoke_row_props(1)] scope_at_advance(3) [OF adv])
  then have fresh: "fresh_family (dr_familyId d) db2"
    using assms(3) fresh_family_mono by blast
  have 1: "keeps db db1" using assms(3) by (intro keeps_advance [OF adv assms(2)]) auto
  have "keeps db db2" unfolding db2_def by (rule keeps_trans [OF 1 keeps_revoke])
  then show ?thesis by (rule keeps_trans) (rule keeps_create_fresh [OF _ c fresh])
qed

lemma keeps_create_op:
  assumes "createSessionForCurrentSingleDeviceSetting h cfg now d dl u ctx a db = Inr (s, db')"
    "session_inv db" "fresh_family (dr_familyId d) db"
  shows "keeps db db'"
proof (cases "\<exists>x. find_user u db = Some x \<and> su_singleDeviceLoginEnabled x")
  case True
  with assms(1) obtain s' ev db1 where
    r: "replaceForSingleDeviceWithClient h cfg now d u ctx a db = Inr ((s', ev), db1)"
      "db' = notifyScopeRevocationBestEffort dl ev db1"
    by (auto simp: createSessionForCurrentSingleDeviceSetting_def replaceForSingleDevice_def bind_res_Inr_iff)
  show ?thesis
    unfolding r(2) by (rule keeps_trans [OF keeps_replace [OF r(1) assms(2,3)] keeps_notify])
next
  case False
  with assms(1) have "createWithClient h cfg now d u ctx a (dr_familyId d) db = Inr (s, db')"
    by (auto simp: createSessionForCurrentSingleDeviceSetting_def split: option.splits if_splits)
  then show ?thesis by (rule keeps_create_fresh [OF assms(2) _ assms(3)])
qed

lemma keeps_family:
  assumes "session_inv db"
  shows "keeps db (snd (revokeSessionFamily now dl u sid why db))"
proof (cases "find_session u sid db")
  case None
  with assms show ?thesis by (simp add: revokeSessionFamily_def keeps_refl)
next
  case (Some s)
  obtain gen db1 where adv: "advanceScopeGeneration now u FAMILY (rt_familyId s) None db = (gen, db1)"
    by fastforce
  have "keeps db db1" by (intro keeps_advance [OF adv assms]) auto
  then show ?thesis
    by (auto simp: revokeSessionFamily_def Some adv Let_def intro!: keeps_trans [OF _ keeps_notify]
        keeps_trans [OF _ keeps_revoke])
qed

lemma keeps_logout: "session_inv db \<Longrightarrow> keeps db (snd (revoke_token h now dl raw db))"
  by (auto simp: revoke_token_def keeps_refl case_prod_beta keeps_family split: option.split)

lemma keeps_device: "session_inv db \<Longrightarrow> keeps db (revokeDeviceSessions now dl u k db)"
proof -
  assume inv: "session_inv db"
  obtain gen db1 where adv: "advanceScopeGeneration now u DEVICE k None db = (gen, db1)" by fastforce
  have "keeps db db1" by (intro keeps_advance [OF adv inv]) auto
  then show ?thesis
    by (auto simp: revokeDeviceSessions_def adv Let_def intro!: keeps_trans [OF _ keeps_notify]
        keeps_trans [OF _ keeps_revoke])
qed

lemma find_session_mem:
  "find_session u sid db = Some c \<Longrightarrow> c \<in> set (tokens db) \<and> rt_id c = sid \<and> rt_userId c = u"
  by (auto simp: find_session_def dest: find_where_SomeD)

text \<open>The caller's family keeps its access, all of it; every other session of the user ends.\<close>

lemma keeps_others:
  assumes "advanceScopeGeneration now u ACCOUNT ACCOUNT_SCOPE_KEY (map_option rt_familyId cur) db = (gen, db1)"
    "session_inv db" "cur = find_session u sid db"
    "\<And>c. cur = Some c \<Longrightarrow> scope_stale c db ACCOUNT \<Longrightarrow> rt_familyId c \<in> E"
  shows "keeps_but E db (notifyScopeRevocationBestEffort dl ev (revoke_rows now OTHER_SESSIONS_REVOKED
    (\<lambda>r. rt_userId r = u \<and> \<not> (case cur of Some c \<Rightarrow> rt_familyId r = rt_familyId c | None \<Rightarrow> rt_id r = sid)) db1))"
proof (rule keeps_then [OF keeps_account_advance [OF assms(1,2)] keeps_notify])
  have inv: "base_inv db" using assms(2) by (simp add: session_inv_def)
  fix r assume r: "r \<in> set (tokens db)" "map_option rt_familyId cur = Some (rt_familyId r)"
    and stale: "scope_stale r db ACCOUNT"
  then obtain c where c: "cur = Some c" "rt_familyId c = rt_familyId r" by auto
  then have "c \<in> set (tokens db)" using assms(3) find_session_mem by metis
  then have "in_family c r db" using base_inv_family [OF inv _ r(1)] c(2) by blast
  with stale have "scope_stale c db ACCOUNT" by (simp add: in_family_def)
  from assms(4) [OF c(1) this] c(2) show "rt_familyId r \<in> E" by simp
next
  fix r assume "rt_userId r = u" "map_option rt_familyId cur \<noteq> Some (rt_familyId r)" "r \<in> set (tokens db)"
  then show "rt_userId r = u \<and> \<not> (case cur of Some c \<Rightarrow> rt_familyId r = rt_familyId c | None \<Rightarrow> rt_id r = sid)"
    using assms(3) by (auto simp: find_session_def find_where_None_iff split: option.split)
qed

lemma keeps_revoke_others:
  assumes "session_inv db"
  shows "keeps_but (ended_caller u sid db) db (revokeOtherSessions now dl u sid db)"
proof (cases "sid = None \<or> sid = Some ''''")
  case True
  then show ?thesis by (auto simp: revokeOtherSessions_def keeps_refl assms)
next
  case False
  then obtain s where s: "sid = Some s" "s \<noteq> ''''" by auto
  obtain gen db1 where adv: "advanceScopeGeneration now u ACCOUNT ACCOUNT_SCOPE_KEY
      (map_option rt_familyId (find_session u s db)) db = (gen, db1)" by fastforce
  have pass: "rt_familyId c \<in> ended_caller u sid db" if "find_session u s db = Some c" "scope_stale c db ACCOUNT" for c
    using s that by (simp add: ended_caller_def)
  show ?thesis
    using keeps_others [OF adv assms refl pass] s by (simp add: revokeOtherSessions_def adv Let_def)
qed

lemma keeps_single_device:
  assumes "setSingleDeviceLogin now dl u e sid db = Inr (x, db')" "session_inv db"
  shows "keeps_but (if e then ended_caller u sid db else {}) db db'"
proof -
  define db1 where "db1 = db\<lparr>users := update_where (\<lambda>x. su_id x = u)
                       (\<lambda>x. x\<lparr>su_singleDeviceLoginEnabled := e\<rparr>) (users db)\<rparr>"
  have k: "keeps db db1"
    unfolding db1_def by (intro keeps_users [OF assms(2)]) (simp_all add: user_decays_def)
  then have inv1: "session_inv db1" by (simp add: keeps_def)
  have same: "tokens db1 = tokens db" "scopes db1 = scopes db" by (simp_all add: db1_def)
  have fs: "find_session u s db1 = find_session u s db" for s by (simp add: find_session_def same)
  have stale: "scope_stale c db1 = scope_stale c db" for c by (simp add: scope_stale_scopes [OF same(2)])
  define s where "s = (case sid of None \<Rightarrow> None | Some s \<Rightarrow> if s = '''' then None else Some s)"
  obtain gen db2 where adv: "advanceScopeGeneration now u ACCOUNT ACCOUNT_SCOPE_KEY
      (map_option rt_familyId (case s of None \<Rightarrow> None | Some i \<Rightarrow> find_session u i db1)) db1 = (gen, db2)"
    by fastforce
  note run = assms(1) [unfolded setSingleDeviceLogin_def Let_def, folded db1_def s_def]
  show ?thesis
  proof (cases e)
    case False
    with assms(1) have "db' = db1" by (auto simp: setSingleDeviceLogin_def db1_def split: if_splits)
    with k show ?thesis by (simp add: False)
  next
    case True
    show ?thesis
    proof (cases s)
      case None
      have "keeps_but (ended_caller u sid db) db1 (revoke_rows now OTHER_SESSIONS_REVOKED (\<lambda>r. rt_userId r = u) db2)"
        using adv None by (intro keeps_account_advance [OF _ inv1]) auto
      then have "keeps_but (ended_caller u sid db) db (revoke_rows now OTHER_SESSIONS_REVOKED (\<lambda>r. rt_userId r = u) db2)"
        by (rule then_keeps [OF k])
      then show ?thesis
        using run True adv None
        by (auto intro: keeps_then [OF _ keeps_notify] split: if_splits)
    next
      case (Some i)
      have pass: "rt_familyId c \<in> ended_caller u sid db" if "find_session u i db1 = Some c" "scope_stale c db1 ACCOUNT" for c
        using that Some by (auto simp: ended_caller_def s_def fs stale split: option.splits if_splits)
      have "map_option rt_familyId (find_session u i db1) = map_option rt_familyId (case s of None \<Rightarrow> None | Some i \<Rightarrow> find_session u i db1)"
        by (simp add: Some)
      with adv have adv': "advanceScopeGeneration now u ACCOUNT ACCOUNT_SCOPE_KEY
          (map_option rt_familyId (find_session u i db1)) db1 = (gen, db2)" by simp
      have keep: "(case find_session u i db1 of Some c \<Rightarrow> rt_familyId r = rt_familyId c | None \<Rightarrow> (case s of None \<Rightarrow> False | Some j \<Rightarrow> rt_id r = j))
        = (case find_session u i db1 of Some c \<Rightarrow> rt_familyId r = rt_familyId c | None \<Rightarrow> rt_id r = i)" for r
        by (simp add: Some split: option.split)
      show ?thesis
        using run True adv then_keeps [OF k keeps_others [OF adv' inv1 refl pass]]
        by (auto simp: Some split: if_splits cong: option.case_cong)
    qed
  qed
qed

lemma keeps_revoke_all:
  assumes "revokeAll now u db = Inr (x, db')" "session_inv db"
    "list_all (\<lambda>x. case su_accessTokensRevokedAt x of None \<Rightarrow> True | Some c \<Rightarrow> c \<le> now) (users db)"
  shows "keeps db db'"
proof -
  define db1 where "db1 = revoke_rows now LOGOUT_ALL (\<lambda>r. rt_userId r = u) db"
  have k: "keeps db db1" unfolding db1_def by (rule keeps_revoke [OF assms(2)])
  define f where "f = (\<lambda>x :: session_user. if su_id x = u \<and> (case su_accessTokensRevokedAt x of None \<Rightarrow> True | Some c \<Rightarrow> c \<le> now)
    then x\<lparr>su_accessTokensRevokedAt := Some now\<rparr> else x)"
  have us: "users db1 = users db" by (simp add: db1_def revoke_rows_eq)
  have "update_where (\<lambda>x. su_id x = u) (\<lambda>x. x\<lparr>su_accessTokensRevokedAt := Some now\<rparr>) (users db1)
      = update_where (\<lambda>x. su_id x = u) f (users db1)"
    using assms(3) by (auto simp: us update_where_def f_def list_all_iff)
  with assms(1) have "db' = db1\<lparr>users := update_where (\<lambda>x. su_id x = u) f (users db1)\<rparr>"
    by (auto simp: revokeAll_def Let_def db1_def [symmetric] split: if_splits)
  moreover have "keeps db1 (db1\<lparr>users := update_where (\<lambda>x. su_id x = u) f (users db1)\<rparr>)"
    using k by (intro keeps_users) (auto simp: keeps_def f_def user_decays_def split: option.splits)
  ultimately show ?thesis using k by (auto intro: keeps_trans)
qed

lemma keeps_issue:
  assumes "recordAccessTokenIssued u sid e db = Inr (x, db')" "session_inv db"
  shows "keeps db db'"
proof -
  define f where "f = (\<lambda>r :: refresh_token. if rt_id r = sid \<and> rt_userId r = u then r\<lparr>rt_accessTokenExpiresAt := Some e\<rparr> else r)"
  have f: "row_core (f r) = row_core r" "rt_revokedAt (f r) = rt_revokedAt r" "row_ended (f r) = row_ended r"
    "stays_retired r (f r)" for r
    by (auto simp: f_def row_core_def row_ended_def stays_retired_def)
  have db': "tokens db' = map f (tokens db)" "scopes db' = scopes db" "users db' = users db"
    using assms(1) by (auto simp: recordAccessTokenIssued_def Let_def update_where_def f_def split: if_splits)
  have inv: "base_inv db" "live_fresh db" using assms(2) by (simp_all add: session_inv_def)
  have "base_inv db'"
    by (rule base_inv_map [OF inv(1) f(1) _ db'(1,2)]) (simp add: f(2))
  moreover have "live_fresh db'"
    using inv(2) by (simp add: live_fresh_def db'(1) f(2) scope_stale_scopes [OF db'(2)] row_core_eq(8) [OF f(1)])
  moreover have "decays db db'" by (rule decays_map [where f = f]) (simp_all add: f db')
  ultimately show ?thesis by (simp add: keeps_def session_inv_def)
qed

lemma keeps_rotate:
  assumes "rotateLocked h cfg now d th owner ctx a db = Inr (out, db')" "session_inv db"
  shows "keeps db db'"
proof -
  from assms(1) obtain r where r: "find_token th db = Some r" by (auto simp: rotateLocked_def split: option.splits)
  have mem: "r \<in> set (tokens db)" "rt_token r = th"
    using find_where_SomeD [OF r [unfolded find_token_def]] by auto
  show ?thesis
  proof (cases "row_live r")
    case False
    obtain gen db1 where adv: "advanceScopeGeneration now (rt_userId r) FAMILY (rt_familyId r) None db = (gen, db1)"
      by fastforce
    have "keeps db db1" by (intro keeps_advance [OF adv assms(2)]) auto
    moreover have "db' = revoke_rows now TOKEN_FAMILY_REUSE
        (\<lambda>x. rt_userId x = rt_userId r \<and> rt_familyId x = rt_familyId r) db1"
      using assms(1) False by (auto simp: rotateLocked_def r adv Let_def split: if_splits)
    ultimately show ?thesis by (auto intro: keeps_trans keeps_revoke)
  next
    case True
    define live where "live = (\<lambda>x :: refresh_token. rt_token x = th \<and> now < rt_expiredAt x \<and> rt_audience x = a)"
    define db1 where "db1 = revoke_rows now ROTATED live db"
    from assms(1) True obtain s where lv: "live r"
      and c: "createWithClient h cfg now d (rt_userId r) (Some (rotation_context ctx r)) (rt_audience r) (rt_familyId r) db1 = Inr (s, db')"
      by (auto simp: rotateLocked_def r Let_def bind_res_Inr_iff live_def db1_def mem(2) split: if_splits)
    have inv: "base_inv db" "live_fresh db" using assms(2) by (simp_all add: session_inv_def)
    have "rt_userId x = rt_userId r \<and> rt_audience x = rt_audience r \<and> \<not> row_live x \<and> \<not> scope_stale x db1 ACCOUNT"
      if x: "x \<in> set (tokens db1)" "rt_familyId x = rt_familyId r" for x
    proof -
      obtain x0 where x0: "x0 \<in> set (tokens db)" "x = revoke_row now ROTATED live x0"
        using x(1) by (auto simp: db1_def revoke_rows_eq)
      note core = row_core_eq [OF revoke_row_props(1), of now ROTATED live x0, folded x0(2)]
      have fam: "in_family x0 r db" using base_inv_family [OF inv(1) x0(1) mem(1)] x(2) core(4) by simp
      have "\<not> scope_stale r db ACCOUNT" using inv(2) mem(1) True by (simp add: live_fresh_def)
      moreover have "scope_stale x db1 = scope_stale x0 db"
        using core(8) scope_stale_scopes [of db1 db] by (simp add: db1_def revoke_rows_eq)
      moreover have "\<not> row_live x"
        using fam True lv by (auto simp: x0(2) revoke_row_props in_family_def)
      ultimately show ?thesis using fam core by (simp add: in_family_def)
    qed
    with keeps_create [OF _ c] have "session_inv db1 \<Longrightarrow> keeps db1 db'" by blast
    with keeps_revoke [OF assms(2)] show ?thesis unfolding db1_def by (rule keeps_trans)
  qed
qed

lemma session_exec_keeps:
  assumes "session_allowed x db" "session_inv db" "session_exec h cfg x db = Inr (u, db')"
  shows "keeps_but (revives x db) db db'"
  using assms
proof (cases rule: session_op.exhaust [of "snd x"])
  case OpCreate
  with assms show ?thesis by (cases x) (auto simp: bind_res_Inr_iff intro: keeps_create_op)
next
  case OpRotate
  with assms show ?thesis by (cases x) (auto simp: bind_res_Inr_iff intro: keeps_rotate)
next
  case OpIssue
  with assms show ?thesis by (cases x) (auto intro: keeps_issue)
next
  case OpLogout
  with assms show ?thesis by (cases x) (auto intro: keeps_logout)
next
  case OpRevokeFamily
  with assms show ?thesis by (cases x) (auto intro: keeps_family)
next
  case OpRevokeAll
  with assms show ?thesis by (cases x) (auto intro: keeps_revoke_all)
next
  case OpRevokeSession
  with assms show ?thesis by (cases x) (auto simp: revokeSession_def Let_def intro: keeps_revoke)
next
  case OpRevokeDevice
  with assms show ?thesis by (cases x) (auto intro: keeps_device)
next
  case OpRevokeOthers
  with assms show ?thesis by (cases x) (auto intro: keeps_revoke_others)
next
  case OpSetSingleDevice
  with assms show ?thesis by (cases x) (auto dest!: keeps_single_device)
qed

text \<open>The families that the requests of a run exempt although they were ended.\<close>

fun revived :: "(string \<Rightarrow> string) \<Rightarrow> ttl_config \<Rightarrow> (int \<times> session_op) list \<Rightarrow> session_db \<Rightarrow> string set" where
  "revived h cfg [] db = {}"
| "revived h cfg (x # xs) db =
     (case session_exec h cfg x db of
        Inl _ \<Rightarrow> revived h cfg xs db
      | Inr (_, db') \<Rightarrow> revives x db \<union> revived h cfg xs db')"

lemma run_keeps:
  "run_allowed (session_exec h cfg) session_allowed xs db \<Longrightarrow> session_inv db \<Longrightarrow>
   keeps_but (revived h cfg xs db) db (run_ops (session_exec h cfg) xs db)"
proof (induction xs arbitrary: db)
  case (Cons x xs)
  show ?case
  proof (cases "session_exec h cfg x db")
    case (Inl e)
    with Cons show ?thesis by simp
  next
    case (Inr p)
    then obtain u db' where p: "session_exec h cfg x db = Inr (u, db')" by (cases p) auto
    have "keeps_but (revives x db) db db'"
      using Cons.prems by (intro session_exec_keeps [OF _ _ p]) auto
    then have "keeps_but (revives x db \<union> revived h cfg xs db') db (run_ops (session_exec h cfg) xs db')"
      using Cons.IH [of db'] Cons.prems(1) by (elim keeps_but_trans) (simp add: p)
    with p show ?thesis by simp
  qed
qed (simp add: keeps_refl)

text \<open>The access tokens that the database refuses for a reason no request can take back.\<close>

definition lost_tokens :: "session_db \<Rightarrow> token_claims set" where
  "lost_tokens db = {t. fst (access_verdict t db) = Revoked \<and> \<not> only_behind t db UNIV}"

lemma lost_stays:
  assumes k: "decays_but E db db'" and lost: "t \<in> lost_tokens db"
  shows "t \<in> lost_tokens db'"
proof -
  have E: "only_behind t db E \<Longrightarrow> only_behind t db UNIV" for E by (auto simp: only_behind_def)
  have rev: "fst (access_verdict t db') = Revoked"
    using decays_revoked [OF k] lost E by (auto simp: lost_tokens_def)
  have "\<not> only_behind t db' UNIV"
  proof
    assume "only_behind t db' UNIV"
    then obtain u r' where b: "tk_sub t = Some u" "\<not> account_dead t u db'" "session_row t db' = Some r'"
      "rt_userId r' = u" "\<not> row_ended r'" "\<forall>sc. scope_stale r' db' sc \<longrightarrow> sc = ACCOUNT"
      by (auto simp: only_behind_def)
    have "rel_option user_decays (find_user u db) (find_user u db')" using k by (simp add: decays_but_def)
    then have alive: "\<not> account_dead t u db"
      using b(2) by (cases "find_user u db"; cases "find_user u db'")
        (fastforce simp: account_dead_def user_decays_def split: option.splits)+
    then obtain r where r: "session_row t db = Some r" "row_dead u r db"
      using lost b(1) by (auto simp: lost_tokens_def access_verdict_def split: option.splits if_splits)
    then obtain i where i: "tk_sid t = Some i" "i \<noteq> ''''" "find_row i db = Some r"
      by (auto simp: session_row_def find_row_def split: option.splits if_splits)
    then obtain r2 where r2: "find_row i db' = Some r2" "row_core r2 = row_core r" "row_ended r \<longrightarrow> row_ended r2"
      "\<forall>sc. scope_stale r db sc \<longrightarrow> scope_stale r2 db' sc \<or> caught_up E r sc"
      using k unfolding decays_but_def by blast
    then have "r2 = r'" using b(3) i by (simp add: session_row_def find_row_def)
    with r2 b have "rt_userId r = u" "\<not> row_ended r" "\<forall>sc. scope_stale r db sc \<longrightarrow> sc = ACCOUNT"
      using row_core_eq(2) [OF r2(2)] by (auto simp: caught_up_def)
    with r(2) have "only_behind t db UNIV"
      using alive b(1) r(1) by (auto simp: only_behind_def row_dead_iff)
    with lost show False by (simp add: lost_tokens_def)
  qed
  with rev show ?thesis by (simp add: lost_tokens_def)
qed

interpretation sessions: transactional_monotone "session_exec h cfg" session_allowed session_inv lost_tokens
  for h cfg
proof unfold_locales
  fix x db u db'
  assume "session_allowed x db" "session_inv db" "session_exec h cfg x db = Inr (u, db')"
  then have k: "keeps_but (revives x db) db db'" by (rule session_exec_keeps)
  then show "session_inv db'" by (simp add: keeps_def)
  from k show "lost_tokens db \<le> lost_tokens db'" using lost_stays by (auto simp: keeps_def)
qed

end
