(* ===== verification/SessionClaims.thy ===== *)
theory SessionClaims
  imports SessionProofs
begin

text \<open>
  The properties of login sessions: the verifier answers by the tables alone, refusals are
  permanent, each revocation ends exactly the sessions it names, a refresh token is
  exchanged once and its replay ends its family, and a family has one live token.
\<close>

section \<open>The extent of a revocation\<close>

definition ends_exactly :: "(refresh_token \<Rightarrow> bool) \<Rightarrow> session_db \<Rightarrow> session_db \<Rightarrow> bool" where
  "ends_exactly hit db db' \<longleftrightarrow>
     (\<forall>t. case session_row t db of
            None \<Rightarrow> access_verdict t db' = access_verdict t db
          | Some x \<Rightarrow> if hit x then fst (access_verdict t db') = Revoked
                      else access_verdict t db' = access_verdict t db)"

lemma account_dead_users: "users db' = users db \<Longrightarrow> account_dead t u db' = account_dead t u db"
  by (simp add: account_dead_def find_user_def)

lemma session_row_map:
  assumes "tokens db' = map f (tokens db)" "\<And>r. row_core (f r) = row_core r"
  shows "session_row t db' = map_option f (session_row t db)"
  using row_core_eq(1) [OF assms(2)]
  by (simp add: session_row_def assms(1) find_where_map split: option.split)

lemma session_row_mem: "session_row t db = Some r \<Longrightarrow> r \<in> set (tokens db)"
  by (auto simp: session_row_def dest: find_where_SomeD split: option.splits if_splits)

lemma row_identity_core: "row_core r' = row_core r \<Longrightarrow> row_identity t r' = row_identity t r"
  by (simp add: row_identity_def row_core_eq(1,4,5,6) [of r' r])

lemma access_verdict_row:
  "session_row t db = Some r \<Longrightarrow> access_verdict t db = (case tk_sub t of None \<Rightarrow> (Revoked, None)
     | Some u \<Rightarrow> if account_dead t u db \<or> row_dead u r db then (Revoked, None) else (Active, Some (row_identity t r)))"
  by (simp add: access_verdict_def split: option.split)

lemma access_verdict_no_row:
  "session_row t db = None \<Longrightarrow> access_verdict t db = (case tk_sub t of None \<Rightarrow> (Revoked, None)
     | Some u \<Rightarrow> if account_dead t u db then (Revoked, None) else (Active, None))"
  by (simp add: access_verdict_def split: option.split)

lemma ends_exactly_map:
  assumes "tokens db' = map f (tokens db)" "users db' = users db" "\<And>r. row_core (f r) = row_core r"
    "\<And>r u. r \<in> set (tokens db) \<Longrightarrow> hit r \<Longrightarrow> row_dead u (f r) db'"
    "\<And>r u. r \<in> set (tokens db) \<Longrightarrow> \<not> hit r \<Longrightarrow> row_dead u (f r) db' = row_dead u r db"
  shows "ends_exactly hit db db'"
proof -
  have "case session_row t db of None \<Rightarrow> access_verdict t db' = access_verdict t db
          | Some x \<Rightarrow> if hit x then fst (access_verdict t db') = Revoked
                      else access_verdict t db' = access_verdict t db" for t
  proof (cases "session_row t db")
    case None
    then show ?thesis
      using session_row_map [OF assms(1,3)]
      by (simp add: access_verdict_no_row account_dead_users [OF assms(2)] split: option.split)
  next
    case (Some r)
    have r: "r \<in> set (tokens db)" by (rule session_row_mem [OF Some])
    have r': "session_row t db' = Some (f r)" using session_row_map [OF assms(1,3)] Some by simp
    show ?thesis
      using assms(4) [OF r] assms(5) [OF r]
      by (simp add: Some access_verdict_row [OF Some] access_verdict_row [OF r']
          account_dead_users [OF assms(2)] row_identity_core [OF assms(3)] split: option.split)
  qed
  then show ?thesis by (simp add: ends_exactly_def)
qed

text \<open>The common shape: a counter advances, the matching rows are retired, the change is announced.\<close>

lemma scope_revocation_exact:
  assumes "advanceScopeGeneration now u sc k ex db = (gen, db1)" "base_inv db"
    "\<And>r. r \<in> set (tokens db) \<Longrightarrow> hit r \<longleftrightarrow> rt_userId r = u \<and> row_watched r sc = Some k \<and> ex \<noteq> Some (rt_familyId r)"
    "\<And>r. r \<in> set (tokens db) \<Longrightarrow> p r \<Longrightarrow> hit r"
    "\<And>r. r \<in> set (tokens db) \<Longrightarrow> ex = Some (rt_familyId r) \<Longrightarrow> rt_userId r = u \<Longrightarrow> \<not> scope_stale r db sc"
  shows "ends_exactly hit db (notifyScopeRevocationBestEffort dl ev (revoke_rows t why p db1))"
proof (rule ends_exactly_map [where f = "revoke_row t why p"])
  define db' where "db' = notifyScopeRevocationBestEffort dl ev (revoke_rows t why p db1)"
  have stale: "scope_stale (revoke_row t why p r) db' = scope_stale r db1" for r
    using row_core_eq(8) [OF revoke_row_props(1)] scope_stale_scopes [of "revoke_rows t why p db1" db1]
    by (simp add: db'_def notify_same revoke_rows_eq)
  note adv = stale_after_advance [OF assms(1,2)]
  show "tokens (notifyScopeRevocationBestEffort dl ev (revoke_rows t why p db1)) =
      map (revoke_row t why p) (tokens db)"
    by (simp add: notify_same revoke_rows_eq scope_at_advance(3) [OF assms(1)])
  show "users (notifyScopeRevocationBestEffort dl ev (revoke_rows t why p db1)) = users db"
    by (simp add: notify_same revoke_rows_eq scope_at_advance(4) [OF assms(1)])
  show "row_core (revoke_row t why p r) = row_core r" for r by (rule revoke_row_props)
  show "row_dead v (revoke_row t why p r) (notifyScopeRevocationBestEffort dl ev (revoke_rows t why p db1))"
    if "r \<in> set (tokens db)" "hit r" for v r
  proof -
    have "scope_stale r db1 sc" using adv [OF that(1), of sc] that assms(3) by simp
    then show ?thesis by (auto simp: row_dead_iff db'_def [symmetric] stale)
  qed
  show "row_dead v (revoke_row t why p r) (notifyScopeRevocationBestEffort dl ev (revoke_rows t why p db1)) = row_dead v r db"
    if r: "r \<in> set (tokens db)" "\<not> hit r" for v r
  proof -
    have "revoke_row t why p r = r" using assms(4) [OF r(1)] r(2) by (auto simp: revoke_row_def)
    moreover have "scope_stale r db1 sc' = scope_stale r db sc'" for sc'
      using adv [OF r(1), of sc'] assms(3,5) [OF r(1)] r(2) by auto
    ultimately show ?thesis using stale [of r] by (simp add: row_dead_iff db'_def [symmetric])
  qed
qed

lemma retired_after_revoke:
  assumes "r \<in> set (tokens (notifyScopeRevocationBestEffort dl ev (revoke_rows t why p db)))"
    "\<And>x. row_core x = row_core r \<Longrightarrow> p x"
  shows "\<not> row_live r"
proof -
  obtain x where x: "r = revoke_row t why p x"
    using assms(1) by (auto simp: notify_same revoke_rows_eq)
  then have "p x" using assms(2) [of x] revoke_row_props(1) [of t why p x] by simp
  then show ?thesis unfolding x revoke_row_props(2) by simp
qed

section \<open>Properties\<close>

definition session_example_row :: "string \<Rightarrow> string \<Rightarrow> string option \<Rightarrow> refresh_token" where
  "session_example_row i f dk = \<lparr>rt_id = i, rt_userId = ''u'', rt_token = ''t'' @ i, rt_familyId = f,
     rt_accountGeneration = 0, rt_audienceGeneration = 0, rt_deviceGeneration = 0, rt_familyGeneration = 0,
     rt_audience = APP, rt_deviceName = None, rt_ip = None, rt_userAgent = None, rt_deviceKey = dk,
     rt_expiredAt = 100, rt_accessTokenExpiresAt = None, rt_accessRevokedAt = None,
     rt_accessRevocationNotifiedAt = None, rt_accessRevocationLockedAt = None,
     rt_accessRevocationLeaseToken = None, rt_revokedAt = None, rt_revocationReason = None,
     rt_createdAt = 0, rt_lastUsedAt = 0\<rparr>"

definition session_example_users :: "session_user list" where
  "session_example_users = [\<lparr>su_id = ''u'', su_status = ACTIVE, su_singleDeviceLoginEnabled = False,
     su_accessTokensRevokedAt = None\<rparr>]"

text \<open>One account with two sessions on two devices.\<close>

definition session_example :: session_db where
  "session_example = \<lparr>tokens = [session_example_row ''a'' ''f'' (Some ''d''), session_example_row ''b'' ''g'' None],
     scopes = [], users = session_example_users\<rparr>"

definition session_example_claims :: token_claims where
  "session_example_claims = \<lparr>tk_sub = Some ''u'', tk_sid = Some ''b'', tk_iat = Some 1, tk_issuedAtMs = None\<rparr>"

lemma session_example_inv: "session_inv session_example"
  by (auto simp: session_inv_def base_inv_def live_fresh_def in_family_def session_example_def scopes_unique_def
      session_example_row_def scope_stale_def scope_at_def gen_of_def rt_snapshot_def
      split: option.splits revocation_scope.splits)

lemma session_example_no_scopes: "scope_stale r session_example sc = False"
  by (simp add: scope_stale_def scope_at_def session_example_def split: option.split)

lemma session_example_rows:
  "find_session ''u'' ''a'' session_example = Some (session_example_row ''a'' ''f'' (Some ''d''))"
  "row_dead ''u'' (session_example_row ''a'' ''f'' (Some ''d'')) session_example = False"
  "session_row session_example_claims session_example = Some (session_example_row ''b'' ''g'' None)"
  "access_verdict session_example_claims session_example =
     (Active, Some (row_identity session_example_claims (session_example_row ''b'' ''g'' None)))"
proof -
  show "find_session ''u'' ''a'' session_example = Some (session_example_row ''a'' ''f'' (Some ''d''))"
    by (simp add: find_session_def session_example_def session_example_row_def)
  have dead: "row_dead ''u'' (session_example_row i f dk) session_example = False" for i f dk
    by (simp add: row_dead_def session_example_no_scopes session_example_row_def)
  then show "row_dead ''u'' (session_example_row ''a'' ''f'' (Some ''d'')) session_example = False" .
  show row: "session_row session_example_claims session_example = Some (session_example_row ''b'' ''g'' None)"
    by (simp add: session_row_def session_example_claims_def session_example_def session_example_row_def)
  have "account_dead session_example_claims ''u'' session_example = False"
    by (simp add: account_dead_def find_user_def session_example_def session_example_users_def)
  then show "access_verdict session_example_claims session_example =
     (Active, Some (row_identity session_example_claims (session_example_row ''b'' ''g'' None)))"
    using dead row by (simp add: access_verdict_row session_example_claims_def)
qed

text \<open>C5: The verifier's answer from PostgreSQL (the one statement, its JSON columns narrowed one
  by one, and the judgement of them) is exactly the verdict stated over the tables:
  subject, account status and global cut-off, then the session row's owner, revocation and
  four generation counters with their exempt family. Its narrowing never fails on an
  answer of the statement, so it is never unavailable.\<close>

theorem verifier_answers_by_tables:
  assumes "scopes_unique db"
  shows "verifyWithIdentity up t r (\<lambda>u s. Some (sessionVerificationQuery u s db)) =
    (if checkRevocation up t r = RevRevoked then (Revoked, None) else access_verdict t db)"
  using verifier_pair [OF assms] by (simp add: verifyWithIdentity_def)

theorem verifier_answers_by_tables_witness:
  "verifyWithIdentity True session_example_claims \<lparr>rd_enabled = False, rd_kv = []\<rparr>
     (\<lambda>u s. Some (sessionVerificationQuery u s session_example)) =
   (Active, Some (row_identity session_example_claims (session_example_row ''b'' ''g'' None)))"
proof -
  have "scopes_unique session_example" by (simp add: scopes_unique_def session_example_def)
  from verifier_answers_by_tables [OF this, of True session_example_claims "\<lparr>rd_enabled = False, rd_kv = []\<rparr>"]
  show ?thesis by (simp add: checkRevocation_def session_example_rows)
qed

text \<open>C4: Refusal is permanent, with the one exception the code leaves open. An access token the database
  refuses is refused after any history of logins, rotations, logouts, device and account revocations and
  setting changes (under a clock that does not go back behind a global logout, and with new family ids unused),
  also when the session on whose behalf other sessions are ended was itself ended in the meantime; unless
  the token's account stands, its session row was neither retired for good nor behind any counter but the account's, and
  one of the requests exempted that very family from that counter although it was behind it already.\<close>

theorem refusal_is_permanent:
  assumes "session_inv db" "run_allowed (session_exec h cfg) session_allowed xs db"
    "fst (access_verdict t db) = Revoked"
  shows "fst (access_verdict t (run_ops (session_exec h cfg) xs db)) = Revoked
    \<or> (\<exists>u r. tk_sub t = Some u \<and> \<not> account_dead t u db \<and> session_row t db = Some r \<and> rt_userId r = u
         \<and> rt_accessRevokedAt r = None \<and> (rt_revokedAt r = None \<or> rt_revocationReason r = Some ROTATED)
         \<and> scope_stale r db ACCOUNT \<and> (\<forall>sc. scope_stale r db sc \<longrightarrow> sc = ACCOUNT)
         \<and> rt_familyId r \<in> revived h cfg xs db)"
proof (cases "only_behind t db (revived h cfg xs db)")
  case True
  then show ?thesis by (fastforce simp: only_behind_def row_ended_def)
next
  case False
  have "decays_but (revived h cfg xs db) db (run_ops (session_exec h cfg) xs db)"
    using run_keeps [OF assms(2,1)] by (simp add: keeps_def)
  from decays_revoked [OF this assms(3) False] show ?thesis ..
qed

definition session_example_cfg :: ttl_config where
  "session_example_cfg = \<lparr>tc_ttlMs = 1000, tc_adminTtlMs = 500\<rparr>"

definition session_example_logged_out :: session_db where
  "session_example_logged_out = revokeOtherSessions 5 None ''u'' (Some ''a'') session_example"

lemma session_example_logged_out_eq:
  "session_example_logged_out = session_example\<lparr>
     tokens := [session_example_row ''a'' ''f'' (Some ''d''),
                (session_example_row ''b'' ''g'' None)\<lparr>rt_revokedAt := Some 5, rt_revocationReason := Some OTHER_SESSIONS_REVOKED\<rparr>],
     scopes := [scope_row ''u'' ACCOUNT ''*'' 1 (Some ''f'') 5]\<rparr>"
  by (simp add: session_example_logged_out_def revokeOtherSessions_def session_example_rows
      advanceScopeGeneration_def revoke_rows_def notifyScopeRevocationBestEffort_def scope_row_def
      ACCOUNT_SCOPE_KEY_def) (simp add: session_example_def session_example_row_def)

theorem refusal_is_permanent_witness:
  "fst (access_verdict session_example_claims (run_ops (session_exec id session_example_cfg)
     [(6, OpRevokeOthers ''u'' (Some ''a'') None)] session_example_logged_out)) = Revoked"
proof -
  have inv: "session_inv session_example_logged_out"
    using keeps_revoke_others [OF session_example_inv, of "''u''" "Some ''a''" 5 None]
    by (simp add: session_example_logged_out_def keeps_def)
  have rev: "fst (access_verdict session_example_claims session_example_logged_out) = Revoked"
    by (simp add: access_verdict_def session_example_claims_def account_dead_def session_row_def
        session_example_logged_out_eq find_user_def session_example_def session_example_users_def
        session_example_row_def row_dead_def)
  have "find_session ''u'' ''a'' session_example_logged_out = Some (session_example_row ''a'' ''f'' (Some ''d''))"
    by (simp add: session_example_logged_out_eq find_session_def session_example_row_def)
  moreover have "\<not> scope_stale (session_example_row ''a'' ''f'' (Some ''d'')) session_example_logged_out sc" for sc
    by (simp add: scope_stale_def scope_at_def session_example_logged_out_eq scope_row_is_def scope_row_def
        session_example_row_def split: option.split)
  ultimately have "revived id session_example_cfg [(6, OpRevokeOthers ''u'' (Some ''a'') None)] session_example_logged_out = {}"
    by (simp add: ended_caller_def)
  then show ?thesis
    using refusal_is_permanent [OF inv _ rev, of id session_example_cfg "[(6, OpRevokeOthers ''u'' (Some ''a'') None)]"]
    by simp
qed

text \<open>The exception is real: a request of a session that was ended between the verifier's answer and the
  lock exempts its own family from the account's counter, and the access tokens of that family's rotated sessions
  are accepted again.\<close>

lemma ended_family_revives:
  assumes "session_inv db" "find_session u sid db = Some c" "sid \<noteq> ''''"
    and "tk_sub t = Some u" "\<not> account_dead t u db"
    and r: "session_row t db = Some r" "rt_familyId r = rt_familyId c" "\<not> row_ended r"
      "scope_stale r db ACCOUNT" "\<forall>sc. scope_stale r db sc \<longrightarrow> sc = ACCOUNT"
  shows "fst (access_verdict t db) = Revoked"
    and "fst (access_verdict t (revokeOtherSessions now dl u (Some sid) db)) = Active"
proof -
  obtain gen db1 where adv: "advanceScopeGeneration now u ACCOUNT ACCOUNT_SCOPE_KEY (Some (rt_familyId c)) db = (gen, db1)"
    by fastforce
  define p where "p = (\<lambda>r :: refresh_token. rt_userId r = u \<and> rt_familyId r \<noteq> rt_familyId c)"
  define db2 where "db2 = notifyScopeRevocationBestEffort dl \<lparr>se_userId = u, se_scope = ACCOUNT,
      se_scopeKey = ACCOUNT_SCOPE_KEY, se_exemptFamilyId = Some (rt_familyId c), se_generation = gen\<rparr>
      (revoke_rows now OTHER_SESSIONS_REVOKED p db1)"
  have run: "revokeOtherSessions now dl u (Some sid) db = db2"
    by (simp add: revokeOtherSessions_def assms(2,3) adv Let_def p_def db2_def)
  have inv: "base_inv db" using assms(1) by (simp add: session_inv_def)
  have mem: "r \<in> set (tokens db)" by (rule session_row_mem [OF r(1)])
  have c: "c \<in> set (tokens db)" "rt_userId c = u" using find_session_mem [OF assms(2)] by auto
  have ru: "rt_userId r = u" using base_inv_family [OF inv mem c(1) r(2)] c(2) by (simp add: in_family_def)
  show "fst (access_verdict t db) = Revoked"
    using r(4) assms(4) by (auto simp: access_verdict_row [OF r(1)] row_dead_iff)
  have "tokens db2 = map (revoke_row now OTHER_SESSIONS_REVOKED p) (tokens db)" and us: "users db2 = users db"
    by (simp_all add: db2_def notify_same revoke_rows_eq scope_at_advance(3,4) [OF adv])
  then have row: "session_row t db2 = Some r"
    using session_row_map [where db' = db2 and f = "revoke_row now OTHER_SESSIONS_REVOKED p" and t = t,
        OF _ revoke_row_props(1)] r(1,2)
    by simp (simp add: revoke_row_def p_def)
  have "scope_stale r db2 = scope_stale r db1"
    using scope_stale_scopes [of "revoke_rows now OTHER_SESSIONS_REVOKED p db1" db1]
    by (simp add: db2_def notify_same revoke_rows_eq)
  moreover have "\<not> scope_stale r db1 sc" for sc
    using stale_after_advance [OF adv inv mem, of sc] r(2,5) ru by (auto simp: watched_key_def split: if_splits)
  ultimately have "\<not> row_dead u r db2" using ru r(3) by (simp add: row_dead_iff)
  then show "fst (access_verdict t (revokeOtherSessions now dl u (Some sid) db)) = Active"
    using assms(4,5) by (simp add: run access_verdict_row [OF row] account_dead_users [OF us])
qed

text \<open>C18: After any such history from tables without sessions, no family has two live refresh
  tokens, and no two rows share an id or a token hash.\<close>

theorem one_live_token_per_family:
  assumes "run_allowed (session_exec h cfg) session_allowed xs \<lparr>tokens = [], scopes = [], users = us\<rparr>"
    "db = run_ops (session_exec h cfg) xs \<lparr>tokens = [], scopes = [], users = us\<rparr>"
  shows "count_where (\<lambda>r. rt_familyId r = f \<and> rt_revokedAt r = None) (tokens db) \<le> 1
    \<and> distinct (map rt_id (tokens db)) \<and> distinct (map rt_token (tokens db))"
proof -
  have "session_inv \<lparr>tokens = [], scopes = [], users = us\<rparr>"
    by (simp add: session_inv_def base_inv_def live_fresh_def scopes_unique_def)
  then have inv: "base_inv db" using sessions.run_inv [OF assms(1)] assms(2) by (simp add: session_inv_def)
  have "r = r'" if "r \<in> set (tokens db)" "r' \<in> set (tokens db)" "rt_familyId r = f \<and> row_live r"
    "rt_familyId r' = f \<and> row_live r'" for r r'
    using base_inv_family [OF inv that(1,2)] that(3,4) by (simp add: in_family_def)
  moreover have ids: "distinct (map rt_id (tokens db))" using inv by (simp add: base_inv_def)
  ultimately have "count_where (\<lambda>r. rt_familyId r = f \<and> row_live r) (tokens db) \<le> 1"
    by (rule count_where_at_most_one)
  then show ?thesis using inv by (simp add: base_inv_def)
qed

theorem one_live_token_per_family_witness:
  "count_where (\<lambda>r. rt_familyId r = ''f'' \<and> rt_revokedAt r = None)
     (tokens (run_ops (session_exec id session_example_cfg)
        [(1, OpCreate \<lparr>dr_rawToken = ''t'', dr_id = ''a'', dr_familyId = ''f''\<rparr> ''u'' None APP None),
         (2, OpRotate \<lparr>dr_rawToken = ''t2'', dr_id = ''b'', dr_familyId = ''g''\<rparr> ''t'' ''u'' None APP)]
        \<lparr>tokens = [], scopes = [], users = session_example_users\<rparr>)) \<le> 1"
  by (rule one_live_token_per_family [where us = session_example_users, OF _ refl, THEN conjunct1])
    (simp add: fresh_family_def)

lemma family_revocation_exact:
  assumes "advanceScopeGeneration now u FAMILY f None db = (gen, db1)" "base_inv db"
    "\<And>x. p x \<Longrightarrow> rt_userId x = u \<and> rt_familyId x = f"
  shows "ends_exactly (\<lambda>x. rt_userId x = u \<and> rt_familyId x = f) db
    (notifyScopeRevocationBestEffort dl ev (revoke_rows t why p db1))"
  by (rule scope_revocation_exact [OF assms(1,2)]) (auto simp: watched_key_def dest: assms(3))

text \<open>C20: Logging a session out (or revoking its family for another reason) refuses every access
  token of its family, retires its refresh tokens (for a logout, the unexpired ones), leaves
  every other session's verdict as it was, and reports success iff a live token was retired.\<close>

theorem logout_ends_family_exactly:
  assumes "session_inv db" "find_session u sid db = Some c"
    "revokeSessionFamily now dl u sid why db = (ended, db')"
  shows "ends_exactly (\<lambda>x. rt_userId x = u \<and> rt_familyId x = rt_familyId c) db db'
    \<and> (\<forall>x \<in> set (tokens db'). rt_userId x = u \<and> rt_familyId x = rt_familyId c
         \<and> (why = LOGOUT \<longrightarrow> now < rt_expiredAt x) \<longrightarrow> rt_revokedAt x \<noteq> None)
    \<and> ended = (\<exists>x \<in> set (tokens db). rt_userId x = u \<and> rt_familyId x = rt_familyId c
         \<and> (why = LOGOUT \<longrightarrow> now < rt_expiredAt x) \<and> rt_revokedAt x = None)"
proof -
  obtain gen db1 where adv: "advanceScopeGeneration now u FAMILY (rt_familyId c) None db = (gen, db1)" by fastforce
  define p where "p = (\<lambda>r :: refresh_token. rt_userId r = u \<and> rt_familyId r = rt_familyId c \<and> (why = LOGOUT \<longrightarrow> now < rt_expiredAt r))"
  have db': "db' = notifyScopeRevocationBestEffort dl \<lparr>se_userId = u, se_scope = FAMILY,
      se_scopeKey = rt_familyId c, se_exemptFamilyId = None, se_generation = gen\<rparr> (revoke_rows now why p db1)"
    and ended: "ended = (0 < revocable p db1)"
    using assms(3) by (simp_all add: revokeSessionFamily_def assms(2) adv Let_def p_def)
  have inv: "base_inv db" using assms(1) by (simp add: session_inv_def)
  have exact: "ends_exactly (\<lambda>x. rt_userId x = u \<and> rt_familyId x = rt_familyId c) db db'"
    unfolding db' by (rule family_revocation_exact [OF adv inv]) (simp add: p_def)
  have retired: "rt_revokedAt x \<noteq> None" if "x \<in> set (tokens db')" "p x" for x
    using that unfolding db' by (elim retired_after_revoke) (auto simp: p_def dest: row_core_eq(2,4,9))
  have ended': "ended = (\<exists>x \<in> set (tokens db). p x \<and> row_live x)"
    by (simp add: ended revocable_def count_where_pos_iff scope_at_advance(3) [OF adv])
  show ?thesis
    using exact retired unfolding ended' by (auto simp: p_def)
qed

theorem logout_ends_family_exactly_witness:
  "fst (access_verdict session_example_claims
     (snd (revokeSessionFamily 5 None ''u'' ''b'' LOGOUT session_example))) = Revoked"
proof -
  obtain e d where run: "revokeSessionFamily 5 None ''u'' ''b'' LOGOUT session_example = (e, d)" by fastforce
  have "find_session ''u'' ''b'' session_example = Some (session_example_row ''b'' ''g'' None)"
    by (simp add: find_session_def session_example_def session_example_row_def)
  from logout_ends_family_exactly [OF session_example_inv this run, THEN conjunct1]
  show ?thesis
    using session_example_rows(3)
    by (auto simp: run ends_exactly_def session_example_row_def dest!: spec [of _ session_example_claims])
qed

text \<open>C36: Ending the other sessions from an accepted session refuses exactly the user's access tokens
  of other families, retires their refresh tokens, and leaves the rows of the
  caller's own family and the verdicts on them, and on everyone else's, untouched.\<close>

theorem other_sessions_end_exactly:
  assumes "session_inv db" "find_session u sid db = Some c" "\<not> row_dead u c db" "sid \<noteq> ''''"
    "revokeOtherSessions now dl u (Some sid) db = db'"
  shows "ends_exactly (\<lambda>x. rt_userId x = u \<and> rt_familyId x \<noteq> rt_familyId c) db db'
    \<and> (\<forall>x \<in> set (tokens db'). rt_userId x = u \<and> rt_familyId x \<noteq> rt_familyId c \<longrightarrow> rt_revokedAt x \<noteq> None)
    \<and> filter (\<lambda>x. rt_familyId x = rt_familyId c) (tokens db') = filter (\<lambda>x. rt_familyId x = rt_familyId c) (tokens db)"
proof -
  obtain gen db1 where adv: "advanceScopeGeneration now u ACCOUNT ACCOUNT_SCOPE_KEY (Some (rt_familyId c)) db = (gen, db1)"
    by fastforce
  define p where "p = (\<lambda>r :: refresh_token. rt_userId r = u \<and> rt_familyId r \<noteq> rt_familyId c)"
  have db': "db' = notifyScopeRevocationBestEffort dl \<lparr>se_userId = u, se_scope = ACCOUNT,
      se_scopeKey = ACCOUNT_SCOPE_KEY, se_exemptFamilyId = Some (rt_familyId c), se_generation = gen\<rparr>
      (revoke_rows now OTHER_SESSIONS_REVOKED p db1)"
    using assms(5) by (simp add: revokeOtherSessions_def assms(2,4) adv Let_def p_def)
  have inv: "base_inv db" using assms(1) by (simp add: session_inv_def)
  have c: "c \<in> set (tokens db)" "\<not> scope_stale c db ACCOUNT"
    using find_session_mem [OF assms(2)] assms(3) by (auto simp: row_dead_def)
  have "ends_exactly p db db'"
    unfolding db'
  proof (rule scope_revocation_exact [OF adv inv])
    fix r assume r: "r \<in> set (tokens db)" "Some (rt_familyId c) = Some (rt_familyId r)"
    then show "\<not> scope_stale r db ACCOUNT" using base_inv_family [OF inv c(1) r(1)] c(2) by (simp add: in_family_def)
  qed (auto simp: p_def watched_key_def)
  moreover have "rt_revokedAt x \<noteq> None" if "x \<in> set (tokens db')" "p x" for x
    using that unfolding db' by (elim retired_after_revoke) (auto simp: p_def dest: row_core_eq(2,4))
  moreover have "filter (\<lambda>x. rt_familyId x = rt_familyId c) (map (revoke_row now OTHER_SESSIONS_REVOKED p) xs)
      = filter (\<lambda>x. rt_familyId x = rt_familyId c) xs" for xs
    by (induction xs) (auto simp: revoke_row_def p_def)
  ultimately show ?thesis
    by (auto simp: p_def db' notify_same revoke_rows_eq scope_at_advance(3) [OF adv])
qed

theorem other_sessions_end_exactly_witness:
  "fst (access_verdict session_example_claims (revokeOtherSessions 5 None ''u'' (Some ''a'') session_example)) = Revoked
   \<and> filter (\<lambda>x. rt_familyId x = ''f'') (tokens (revokeOtherSessions 5 None ''u'' (Some ''a'') session_example))
      = [session_example_row ''a'' ''f'' (Some ''d'')]"
proof -
  have alive: "\<not> row_dead ''u'' (session_example_row ''a'' ''f'' (Some ''d'')) session_example"
    using session_example_rows(2) by simp
  note ends = other_sessions_end_exactly [OF session_example_inv session_example_rows(1) alive _ refl, of 5 None]
  have "fst (access_verdict session_example_claims (revokeOtherSessions 5 None ''u'' (Some ''a'') session_example)) = Revoked"
    using ends session_example_rows(3)
    by (auto simp: ends_exactly_def session_example_row_def dest!: spec [of _ session_example_claims])
  moreover have "filter (\<lambda>x. rt_familyId x = ''f'') (tokens (revokeOtherSessions 5 None ''u'' (Some ''a'') session_example))
      = [session_example_row ''a'' ''f'' (Some ''d'')]"
    using ends by (simp add: session_example_def session_example_row_def)
  ultimately show ?thesis by simp
qed

text \<open>Revoking a device refuses exactly the user's access tokens whose session row carries that
  device key, whether the row is live, rotated away or expired, and retires its refresh tokens.\<close>

lemma device_sessions_end_exactly:
  assumes "session_inv db" "k \<noteq> ''''" "revokeDeviceSessions now dl u k db = db'"
  shows "ends_exactly (\<lambda>x. rt_userId x = u \<and> rt_deviceKey x = Some k) db db'
    \<and> (\<forall>x \<in> set (tokens db'). rt_userId x = u \<and> rt_deviceKey x = Some k \<longrightarrow> rt_revokedAt x \<noteq> None)"
proof -
  obtain gen db1 where adv: "advanceScopeGeneration now u DEVICE k None db = (gen, db1)" by fastforce
  define p where "p = (\<lambda>r :: refresh_token. rt_userId r = u \<and> rt_deviceKey r = Some k)"
  have db': "db' = notifyScopeRevocationBestEffort dl \<lparr>se_userId = u, se_scope = DEVICE,
      se_scopeKey = k, se_exemptFamilyId = None, se_generation = gen\<rparr> (revoke_rows now SESSION_REVOKED p db1)"
    using assms(3) by (simp add: revokeDeviceSessions_def adv Let_def p_def)
  have inv: "base_inv db" using assms(1) by (simp add: session_inv_def)
  have "ends_exactly p db db'"
    unfolding db' using assms(2)
    by (intro scope_revocation_exact [OF adv inv]) (auto simp: p_def watched_key_def split: option.splits if_splits)
  moreover have "rt_revokedAt x \<noteq> None" if "x \<in> set (tokens db')" "p x" for x
    using that unfolding db' by (elim retired_after_revoke) (auto simp: p_def dest: row_core_eq(2,6))
  ultimately show ?thesis by (simp add: p_def)
qed

section \<open>One device at a time\<close>

lemma session_row_append:
  "tokens db' = tokens db @ [n] \<Longrightarrow> session_row t db = Some r \<Longrightarrow> session_row t db' = Some r"
  by (auto simp: session_row_def find_where_append split: option.splits if_splits)

lemma access_verdict_append:
  assumes "db' = db\<lparr>tokens := tokens db @ [n]\<rparr>" "session_row t db = Some r"
  shows "access_verdict t db' = access_verdict t db"
proof -
  have same: "scopes db' = scopes db" "users db' = users db" by (simp_all add: assms(1))
  have "session_row t db' = Some r" by (rule session_row_append [OF _ assms(2)]) (simp add: assms(1))
  then show ?thesis
    by (simp add: access_verdict_row [OF assms(2)] access_verdict_row row_dead_def scope_stale_scopes [OF same(1)]
        account_dead_users [OF same(2)] split: option.split)
qed

lemma access_verdict_notify: "access_verdict t (notifyScopeRevocationBestEffort dl ev db) = access_verdict t db"
  by (simp add: access_verdict_def account_dead_def find_user_def session_row_def row_dead_def notify_same
      split: option.split)

lemma replace_parts:
  assumes "session_inv db" "fresh_family (dr_familyId d) db"
    "replaceForSingleDevice h cfg now d dl u ctx a db = Inr ((raw, sid), db')"
  shows "(\<exists>n. filter (\<lambda>x. rt_userId x = u \<and> rt_audience x = a \<and> rt_revokedAt x = None) (tokens db') = [n]
         \<and> rt_id n = sid)
    \<and> (\<forall>t x. session_row t db = Some x \<longrightarrow>
         (if rt_userId x = u \<and> rt_audience x = a then fst (access_verdict t db') = Revoked
          else access_verdict t db' = access_verdict t db))
    \<and> (\<forall>t. tk_sub t = Some u \<and> tk_sid t = Some sid \<and> sid \<noteq> '''' \<and> \<not> account_dead t u db \<longrightarrow>
         fst (access_verdict t db') = Active)"
proof -
  have inv: "base_inv db" using assms(1) by (simp add: session_inv_def)
  define p where "p = (\<lambda>r :: refresh_token. rt_userId r = u \<and> rt_audience r = a)"
  obtain gen db1 where adv: "advanceScopeGeneration now u AUDIENCE (audience_name a) (Some (dr_familyId d)) db = (gen, db1)"
    by fastforce
  define db2 where "db2 = revoke_rows now SINGLE_DEVICE_REPLACED p db1"
  obtain db3 ev where c: "createWithClient h cfg now d u ctx a (dr_familyId d) db2 = Inr ((raw, sid), db3)"
    and db': "db' = notifyScopeRevocationBestEffort dl ev db3"
    using assms(3) by (auto simp: replaceForSingleDevice_def replaceForSingleDeviceWithClient_def adv
        db2_def p_def bind_res_Inr_iff)
  obtain n where n: "db3 = db2\<lparr>tokens := tokens db2 @ [n]\<rparr>" "rt_id n = sid" "rt_userId n = u" "rt_audience n = a"
    "row_live n" "rt_accessRevokedAt n = None" "rt_familyId n = dr_familyId d"
    "rt_snapshot n = currentScopeGenerations u a (rt_deviceKey n) (dr_familyId d) db2"
    "\<forall>r \<in> set (tokens db2). rt_id r \<noteq> sid"
    using createWithClient_Inr [OF c] by (clarsimp; blast)
  have toks2: "tokens db2 = map (revoke_row now SINGLE_DEVICE_REPLACED p) (tokens db)"
    by (simp add: db2_def revoke_rows_eq scope_at_advance(3) [OF adv])
  have users2: "users db2 = users db" by (simp add: db2_def revoke_rows_eq scope_at_advance(4) [OF adv])
  have toks': "tokens db' = tokens db2 @ [n]" by (simp add: db' notify_same n(1))
  have retired: "\<not> row_live x" if x: "x \<in> set (tokens db2)" "p x" for x
  proof -
    obtain y where y: "x = revoke_row now SINGLE_DEVICE_REPLACED p y"
      using x(1) unfolding toks2 by auto
    then have "p y" using x(2) row_core_eq(2,5) [OF revoke_row_props(1), of now SINGLE_DEVICE_REPLACED p y]
      by (simp add: p_def)
    then show ?thesis unfolding y revoke_row_props(2) by simp
  qed
  have one: "filter (\<lambda>x. rt_userId x = u \<and> rt_audience x = a \<and> rt_revokedAt x = None) (tokens db') = [n]"
    using retired n(3-5) by (auto simp: toks' filter_empty_conv p_def)
  have "ends_exactly p db (notifyScopeRevocationBestEffort None ev db2)"
    unfolding db2_def
  proof (rule scope_revocation_exact [OF adv inv])
    fix r assume "r \<in> set (tokens db)"
    then show "p r \<longleftrightarrow> rt_userId r = u \<and> row_watched r AUDIENCE = Some (audience_name a) \<and> Some (dr_familyId d) \<noteq> Some (rt_familyId r)"
      using assms(2) by (auto simp: p_def watched_key_def fresh_family_def audience_name_def split: audience.splits)
  qed (use assms(2) in \<open>auto simp: fresh_family_def\<close>)
  then have "ends_exactly p db db2" by (simp add: notifyScopeRevocationBestEffort_def)
  then have old: "if p x then fst (access_verdict t db2) = Revoked else access_verdict t db2 = access_verdict t db"
    if "session_row t db = Some x" for t x
    using that by (auto simp: ends_exactly_def split: option.splits dest!: spec [of _ t])
  have same: "access_verdict t db' = access_verdict t db2" if "session_row t db = Some x" for t x
  proof -
    have "session_row t db2 = Some (revoke_row now SINGLE_DEVICE_REPLACED p x)"
      using session_row_map [OF toks2 revoke_row_props(1)] that by simp
    then show ?thesis by (simp add: db' access_verdict_notify access_verdict_append [OF n(1)])
  qed
  have uq2: "scopes_unique db2"
    using base_inv_revoke [OF base_inv_advance [OF adv inv]] by (simp add: db2_def base_inv_def)
  have sc3: "scopes db3 = scopes db2" by (simp add: n(1))
  have fresh: "\<not> scope_stale n db' sc" for sc
    using fresh_row(1) [OF uq2 sc3, of n sc] n(3,4,7,8) by (simp add: db' notify_same)
  have new: "fst (access_verdict t db') = Active"
    if "tk_sub t = Some u" "tk_sid t = Some sid" "sid \<noteq> ''''" "\<not> account_dead t u db" for t
  proof -
    have "find_where (\<lambda>r. rt_id r = sid) (tokens db2) = None" using n(9) by (simp add: find_where_None_iff)
    then have "session_row t db' = Some n"
      using that(2,3) n(2) by (simp add: session_row_def toks' find_where_append)
    moreover have "account_dead t u db' = account_dead t u db"
      by (rule account_dead_users) (simp add: db' notify_same n(1) users2)
    moreover have "\<not> row_dead u n db'" using fresh n(3,5,6) by (simp add: row_dead_def)
    ultimately show ?thesis using that(1,4) by (simp add: access_verdict_row)
  qed
  show ?thesis using one n(2) old same new unfolding p_def by auto
qed

text \<open>A login that replaces all others of its audience leaves exactly one live refresh token for
  the account and audience, the new one; every access token of an older session of that
  audience is refused, tokens of the other audience and other accounts keep their
  verdict, and the new session is accepted if the account is.\<close>

lemma single_device_login:
  assumes "session_inv db" "fresh_family (dr_familyId d) db"
    "replaceForSingleDevice h cfg now d dl u ctx a db = Inr ((raw, sid), db')"
  shows "(\<exists>n. filter (\<lambda>x. rt_userId x = u \<and> rt_audience x = a \<and> rt_revokedAt x = None) (tokens db') = [n]
         \<and> rt_id n = sid)
    \<and> (\<forall>t x. session_row t db = Some x \<longrightarrow>
         (if rt_userId x = u \<and> rt_audience x = a then fst (access_verdict t db') = Revoked
          else access_verdict t db' = access_verdict t db))
    \<and> (\<forall>t. tk_sub t = Some u \<and> tk_sid t = Some sid \<and> sid \<noteq> '''' \<and> \<not> account_dead t u db \<longrightarrow>
         fst (access_verdict t db') = Active)"
  by (rule replace_parts [OF assms])

section \<open>Replay of a rotated token\<close>

text \<open>A rotated row is found again, retired and unchanged, after anything else.\<close>

definition rotated_away :: "string \<Rightarrow> string \<Rightarrow> string \<Rightarrow> audience \<Rightarrow> int \<Rightarrow> session_db \<Rightarrow> bool" where
  "rotated_away th u f a e db \<longleftrightarrow> (\<exists>r. find_token th db = Some r \<and> rt_userId r = u \<and> rt_familyId r = f
     \<and> rt_audience r = a \<and> rt_expiredAt r = e \<and> \<not> row_live r \<and> rt_revocationReason r = Some ROTATED)"

lemma rotated_away_keeps:
  assumes "rotated_away th u f a e db" "session_inv db" "keeps_but E db db'"
  shows "rotated_away th u f a e db'"
proof -
  obtain r where r: "find_token th db = Some r" "rt_userId r = u" "rt_familyId r = f" "rt_audience r = a"
    "rt_expiredAt r = e" "\<not> row_live r" "rt_revocationReason r = Some ROTATED"
    using assms(1) by (auto simp: rotated_away_def)
  then have mem: "r \<in> set (tokens db)" "rt_token r = th" by (auto simp: find_token_def dest: find_where_SomeD)
  have "distinct (map rt_id (tokens db))" using assms(2) by (simp add: session_inv_def base_inv_def)
  then have "find_row (rt_id r) db = Some r"
    unfolding find_row_def by (intro find_where_unique [where k = rt_id]) (simp_all add: mem)
  then obtain r' where r': "find_row (rt_id r) db' = Some r'" "row_core r' = row_core r" "stays_retired r r'"
    using assms(3) unfolding keeps_def decays_but_def by blast
  note core = row_core_eq [OF r'(2)]
  have "distinct (map rt_token (tokens db'))" using assms(3) by (simp add: keeps_def session_inv_def base_inv_def)
  then have "find_token th db' = Some r'"
    unfolding find_token_def using find_row_mem [OF r'(1)] core(3) mem(2)
    by (intro find_where_unique [where k = rt_token]) auto
  then show ?thesis using r r'(3) core by (auto simp: rotated_away_def stays_retired_def)
qed

lemma rotated_retires:
  assumes "session_inv db" "rotateLocked h cfg now d th owner ctx a db = Inr (Rotated s, db1)"
    "find_token th db = Some r"
  shows "rotated_away th owner (rt_familyId r) a (rt_expiredAt r) db1"
proof -
  define live where "live = (\<lambda>x :: refresh_token. rt_token x = th \<and> now < rt_expiredAt x \<and> rt_audience x = a)"
  define dbr where "dbr = revoke_rows now ROTATED live db"
  have mem: "r \<in> set (tokens db)" "rt_token r = th"
    using assms(3) by (auto simp: find_token_def dest: find_where_SomeD)
  obtain s' where ok: "rt_audience r = a" "rt_userId r = owner" "now < rt_expiredAt r" "row_live r"
    and c: "createWithClient h cfg now d (rt_userId r) (Some (rotation_context ctx r)) (rt_audience r) (rt_familyId r) dbr = Inr (s', db1)"
    using assms(2,3) by (auto simp: rotateLocked_def Let_def bind_res_Inr_iff live_def dbr_def mem(2)
        split: if_splits prod.splits)
  obtain n where toks: "tokens db1 = tokens dbr @ [n]"
    using createWithClient_Inr [OF c] by auto
  have "find_token th dbr = Some (revoke_row now ROTATED live r)"
    using assms(3) row_core_eq(3) [OF revoke_row_props(1)]
    by (simp add: find_token_def dbr_def revoke_rows_eq find_where_map)
  then have "find_token th db1 = Some (revoke_row now ROTATED live r)"
    by (simp add: find_token_def toks find_where_append)
  moreover have "revoke_row now ROTATED live r = r\<lparr>rt_revokedAt := Some now, rt_revocationReason := Some ROTATED\<rparr>"
    using ok mem by (simp add: revoke_row_def live_def)
  ultimately show ?thesis using ok by (simp add: rotated_away_def)
qed

lemma replay_parts:
  assumes "session_inv db" "rotated_away (h raw) u f a e db" "now < e" "others db = db1" "keeps_but E db db1"
    "rotate h cfg others now d dl raw ctx a db = (res, db2)"
  shows "res = Inl ReuseDetected" and "ends_exactly (\<lambda>x. rt_userId x = u \<and> rt_familyId x = f) db1 db2"
    and "\<forall>x \<in> set (tokens db2). rt_familyId x = f \<longrightarrow> rt_revokedAt x \<noteq> None"
proof -
  have inv: "base_inv db1" using assms(5) by (simp add: keeps_def session_inv_def)
  have own: "ownerForToken h raw a db = Inr u" using assms(2) by (auto simp: ownerForToken_def rotated_away_def)
  obtain r where r: "find_token (h raw) db1 = Some r" "rt_userId r = u" "rt_familyId r = f" "rt_audience r = a"
    "rt_expiredAt r = e" "\<not> row_live r" "rt_revocationReason r = Some ROTATED"
    using rotated_away_keeps [OF assms(2,1,5)] by (auto simp: rotated_away_def)
  have mem: "r \<in> set (tokens db1)" using r(1) by (auto simp: find_token_def dest: find_where_SomeD)
  obtain gen dba where adv: "advanceScopeGeneration now u FAMILY f None db1 = (gen, dba)" by fastforce
  define p where "p = (\<lambda>x :: refresh_token. rt_userId x = u \<and> rt_familyId x = f)"
  have run: "res = Inl ReuseDetected" "db2 = notifyScopeRevocationBestEffort dl
      \<lparr>se_userId = u, se_scope = FAMILY, se_scopeKey = f, se_exemptFamilyId = None, se_generation = gen\<rparr>
      (revoke_rows now TOKEN_FAMILY_REUSE p dba)"
    using assms(3,6) r by (auto simp: rotate_def own assms(4) rotateLocked_def adv Let_def p_def)
  then show "res = Inl ReuseDetected" by simp
  show "ends_exactly (\<lambda>x. rt_userId x = u \<and> rt_familyId x = f) db1 db2"
    unfolding run(2) by (rule family_revocation_exact [OF adv inv]) (simp add: p_def)
  show "\<forall>x \<in> set (tokens db2). rt_familyId x = f \<longrightarrow> rt_revokedAt x \<noteq> None"
  proof (intro ballI impI)
    fix x assume x: "x \<in> set (tokens db2)" "rt_familyId x = f"
    obtain y where y: "y \<in> set (tokens db1)" "x = revoke_row now TOKEN_FAMILY_REUSE p y"
      using x(1) by (auto simp: run(2) notify_same revoke_rows_eq scope_at_advance(3) [OF adv])
    have "rt_familyId y = f" using x(2) y(2) row_core_eq(4) [OF revoke_row_props(1)] by simp
    then have "p y" using base_inv_family [OF inv y(1) mem] r(2,3) by (simp add: p_def in_family_def)
    then show "rt_revokedAt x \<noteq> None" unfolding y(2) revoke_row_props(2) by simp
  qed
qed

text \<open>C6: A refresh token is exchanged once: after a rotation and any further history, presenting
  the old token again before its expiry, with any other operations slipping in before the lock,
  is detected as reuse; it yields no session, leaves no live token in the family, refuses every
  access token of the family and changes no other verdict.\<close>

theorem replay_ends_family:
  assumes "session_inv db" "find_token (h raw) db = Some r"
    "rotateLocked h cfg now d (h raw) owner ctx a db = Inr (Rotated s, db1)"
    "run_allowed (session_exec h cfg) session_allowed xs db1" "db2 = run_ops (session_exec h cfg) xs db1"
    "run_allowed (session_exec h cfg) session_allowed ys db2" "db3 = run_ops (session_exec h cfg) ys db2"
    "later < rt_expiredAt r"
    "rotate h cfg (run_ops (session_exec h cfg) ys) later d' dl raw ctx' a db2 = (res, db4)"
  shows "res = Inl ReuseDetected
    \<and> (\<forall>x \<in> set (tokens db4). rt_familyId x = rt_familyId r \<longrightarrow> rt_revokedAt x \<noteq> None)
    \<and> ends_exactly (\<lambda>x. rt_userId x = owner \<and> rt_familyId x = rt_familyId r) db3 db4"
proof -
  have inv1: "session_inv db1" using keeps_rotate [OF assms(3,1)] by (simp add: keeps_def)
  have k2: "keeps_but (revived h cfg xs db1) db1 db2" using run_keeps [OF assms(4) inv1] assms(5) by simp
  have inv2: "session_inv db2" using k2 by (simp add: keeps_def)
  have k3: "keeps_but (revived h cfg ys db2) db2 db3" using run_keeps [OF assms(6) inv2] assms(7) by simp
  have away: "rotated_away (h raw) owner (rt_familyId r) a (rt_expiredAt r) db2"
    by (rule rotated_away_keeps [OF rotated_retires [OF assms(1,3,2)] inv1 k2])
  note parts = replay_parts [OF inv2 away assms(8) assms(7) [symmetric] k3 assms(9)]
  show ?thesis using parts by blast
qed

theorem replay_ends_family_witness:
  "\<exists>s db1. rotateLocked id session_example_cfg 5 \<lparr>dr_rawToken = ''tc'', dr_id = ''c'', dr_familyId = ''k''\<rparr>
       ''tb'' ''u'' None APP session_example = Inr (Rotated s, db1)
     \<and> fst (rotate id session_example_cfg (run_ops (session_exec id session_example_cfg) []) 6
          \<lparr>dr_rawToken = ''td'', dr_id = ''d'', dr_familyId = ''l''\<rparr> None ''tb'' None APP db1) = Inl ReuseDetected"
proof -
  have tok: "find_token (id ''tb'') session_example = Some (session_example_row ''b'' ''g'' None)"
    by (simp add: find_token_def session_example_def session_example_row_def)
  obtain s db1 where run: "rotateLocked id session_example_cfg 5 \<lparr>dr_rawToken = ''tc'', dr_id = ''c'', dr_familyId = ''k''\<rparr>
      (id ''tb'') ''u'' None APP session_example = Inr (Rotated s, db1)"
    by (simp add: rotateLocked_def find_token_def createWithClient_def revoke_rows_def revocable_def Let_def
        session_example_def session_example_row_def rotation_context_def)
  obtain res db4 where again: "rotate id session_example_cfg (run_ops (session_exec id session_example_cfg) []) 6
      \<lparr>dr_rawToken = ''td'', dr_id = ''d'', dr_familyId = ''l''\<rparr> None ''tb'' None APP db1 = (res, db4)" by fastforce
  have "res = Inl ReuseDetected"
    by (rule replay_ends_family [OF session_example_inv tok run _ refl _ refl _, of "[]" "[]" 6, THEN conjunct1])
      (use again in \<open>auto simp: session_example_row_def\<close>)
  then show ?thesis using run again by auto
qed

section \<open>Lifetimes\<close>

lemma parseRefreshTtlMs_pos: "parseRefreshTtlMs v = Some t \<Longrightarrow> 0 < t"
  by (auto simp: parseRefreshTtlMs_def MS_PER_DAY_def MS_PER_HOUR_def MS_PER_MINUTE_def
      split: js.splits if_splits option.splits)

lemma code_letters:
  "is_digit CHR ''d'' = False" "is_digit CHR ''h'' = False" "is_digit CHR ''m'' = False"
  "is_space CHR ''d'' = False" "is_space CHR ''h'' = False" "is_space CHR ''m'' = False"
  "lower CHR ''d'' = CHR ''d''" "lower CHR ''h'' = CHR ''h''" "lower CHR ''m'' = CHR ''m''"
  by (simp_all add: is_digit_def is_space_def lower_def is_upper_def code_def)

lemma parse_amount_unit_show:
  assumes "c \<in> {CHR ''d'', CHR ''h'', CHR ''m''}"
  shows "parse_amount_unit (show_nat n @ [c]) = Some (n, Some c)"
    and "js_trim (show_nat n @ [c]) = show_nat n @ [c]"
proof -
  have c: "\<not> is_digit c" "\<not> is_space c" "lower c = c" using assms by (auto simp: code_letters)
  show "parse_amount_unit (show_nat n @ [c]) = Some (n, Some c)"
    using c assms by (auto simp: parse_amount_unit_def takeWhile_digits_show show_nat_nonempty digits_value_show)
  show "js_trim (show_nat n @ [c]) = show_nat n @ [c]"
    using c(2) digit_not_space [OF hd_show_nat] by (intro js_trim_id) auto
qed

lemma default_admin_ttl: "parseRefreshTtlMs (JStr DEFAULT_ADMIN_REFRESH_TTL) = Some (12 * MS_PER_HOUR)"
  by (simp add: parseRefreshTtlMs_def DEFAULT_ADMIN_REFRESH_TTL_def js_trim_def parse_amount_unit_def
      is_space_def is_digit_def code_def lower_def is_upper_def js_finite_def)

text \<open>Whatever the configuration holds (missing, malformed, zero or negative values included), both
  refresh lifetimes are positive and an admin session never outlives an app session.\<close>

lemma refresh_ttl_sound:
  "0 < ttlMsFor (read_ttl_config a b c) ADMIN
   \<and> ttlMsFor (read_ttl_config a b c) ADMIN \<le> ttlMsFor (read_ttl_config a b c) APP"
  by (auto simp: ttlMsFor_def read_ttl_config_def default_admin_ttl MS_PER_HOUR_def MS_PER_DAY_def
      DEFAULT_REFRESH_TOKEN_TTL_DAYS_def dest: parseRefreshTtlMs_pos split: option.split)

text \<open>A lifetime printed as a positive decimal number and a unit letter is read back exactly.\<close>

lemma refresh_ttl_roundtrip:
  assumes "0 < n" "js_finite n"
  shows "parseRefreshTtlMs (JStr (show_nat n @ ''d'')) = Some (of_nat n * 86400000)
    \<and> parseRefreshTtlMs (JStr (show_nat n @ ''h'')) = Some (of_nat n * 3600000)
    \<and> parseRefreshTtlMs (JStr (show_nat n @ ''m'')) = Some (of_nat n * 60000)"
  using assms by (simp add: parseRefreshTtlMs_def parse_amount_unit_show MS_PER_DAY_def MS_PER_HOUR_def MS_PER_MINUTE_def)

section \<open>Redis markers\<close>

definition user_marked :: "string \<Rightarrow> int \<Rightarrow> redis \<Rightarrow> bool" where
  "user_marked u v r \<longleftrightarrow> rd_enabled r \<and> (\<exists>cur \<ge> v. kv_get (userKey u) r = Some cur)"

lemma kv_get_set: "kv_get k (kv_set k' v r) = (if k = k' then Some v else kv_get k r)"
proof -
  have "map_of (filter (\<lambda>(k', _). k' \<noteq> k0) xs) k = map_of xs k" if "k \<noteq> k0" for k0 and xs :: "(string \<times> int) list"
    using that by (induction xs) auto
  then show ?thesis by (simp add: kv_get_def kv_set_def)
qed

lemma user_marked_revokeUserAt:
  "rd_enabled r \<Longrightarrow> user_marked u v (snd (revokeUserAt True pub u v r))"
  by (auto simp: user_marked_def revokeUserAt_def setNumericMax_def kv_get_set split: option.split)
    (simp_all add: kv_set_def)

lemma user_marked_keeps: "user_marked u v r \<Longrightarrow> user_marked u v (snd (revokeUserAt up pub u' v' r))"
  by (auto simp: user_marked_def revokeUserAt_def setNumericMax_def kv_get_set split: option.split)
    (simp_all add: kv_set_def)

lemma user_marked_keeps_session: "userKey u \<noteq> sessionKey s \<Longrightarrow> user_marked u v r \<Longrightarrow>
  user_marked u v (snd (revokeSessionMarker up pub s r))"
  by (auto simp: user_marked_def revokeSessionMarker_def setJson_def kv_get_set) (simp_all add: kv_set_def)

lemma user_not_session_key: "userKey u \<noteq> sessionKey s"
  by (simp add: userKey_def sessionKey_def)

lemma user_marked_denies:
  assumes "user_marked u v r" "1000000000000 \<le> v" "u \<noteq> ''''" "tk_sub t = Some u" "issuedAtMs t = Some i" "i \<le> v"
  shows "checkRevocation True t r = RevRevoked"
  using assms by (auto simp: user_marked_def checkRevocation_def getJsonMany_def marker_ms_def Let_def split: option.splits)

datatype marker_write = UserMarker bool bool string int | SessionMarker bool bool string

fun write_marker :: "marker_write \<Rightarrow> redis \<Rightarrow> redis" where
  "write_marker (UserMarker up pub u v) r = snd (revokeUserAt up pub u v r)"
| "write_marker (SessionMarker up pub s) r = snd (revokeSessionMarker up pub s r)"

text \<open>C30: Once a user's marker is stored in Redis, every token of the user issued up to then is denied
  after any number of further markers, older ones for the same user included, whether or
  not those writes or their broadcasts succeed.\<close>

theorem user_marker_never_lowered:
  assumes "rd_enabled r" "u \<noteq> ''''" "1000000000000 \<le> v" "tk_sub t = Some u" "issuedAtMs t = Some i" "i \<le> v"
  shows "checkRevocation True t (fold write_marker ws (write_marker (UserMarker True pub u v) r)) = RevRevoked"
proof -
  have "user_marked u v (fold write_marker ws r')" if "user_marked u v r'" for r'
    using that
  proof (induction ws arbitrary: r')
    case (Cons w ws)
    have "user_marked u v (write_marker w r')"
      using Cons.prems user_not_session_key
      by (cases w) (auto intro: user_marked_keeps user_marked_keeps_session)
    then show ?case using Cons.IH by simp
  qed simp
  from this [OF user_marked_revokeUserAt [OF assms(1), of u v pub]]
  show ?thesis by (intro user_marked_denies [OF _ assms(3,2,4-6)]) simp
qed

theorem user_marker_never_lowered_witness:
  "checkRevocation True (session_example_claims\<lparr>tk_issuedAtMs := Some 1700000000000\<rparr>)
     (fold write_marker [UserMarker True True ''u'' 1600000000000, SessionMarker False True ''b'']
        (write_marker (UserMarker True False ''u'' 1700000000001) \<lparr>rd_enabled = True, rd_kv = []\<rparr>)) = RevRevoked"
  by (rule user_marker_never_lowered [where i = 1700000000000])
    (simp_all add: session_example_claims_def issuedAtMs_def)

end
