(* ===== verification/SessionJobs.thy ===== *)
theory SessionJobs
  imports SessionProofs "HOL-Library.List_Lexorder"
begin

text \<open>
  The background jobs of login sessions: the outbox that delivers per-session revocations and
  generation changes (\<open>src/auth/refresh-token.service.ts\<close>) and the pruning of dead rows
  (\<open>src/auth/refresh-token.cleanup.ts\<close>). Other instances may run between any two statements.
\<close>

section \<open>The access revocation outbox\<close>

definition REVOCATION_BATCH_SIZE :: nat where "REVOCATION_BATCH_SIZE = 25"

definition access_pending :: "refresh_token \<Rightarrow> bool" where
  "access_pending r \<longleftrightarrow> rt_accessRevokedAt r \<noteq> None \<and> rt_accessRevocationNotifiedAt r = None"

text \<open>An access token recorded for the row may still be in use.\<close>

definition eligibleAccessToken :: "int \<Rightarrow> refresh_token \<Rightarrow> bool" where
  "eligibleAccessToken now r =
     (case rt_accessTokenExpiresAt r of Some e \<Rightarrow> now < e | None \<Rightarrow> now < rt_expiredAt r)"

definition availableLease :: "int \<Rightarrow> refresh_token \<Rightarrow> bool" where
  "availableLease now r =
     (case rt_accessRevocationLockedAt r of None \<Rightarrow> True | Some l \<Rightarrow> l \<le> now - ACCESS_REVOCATION_CLAIM_LEASE_MS)"

definition access_claimable :: "int \<Rightarrow> refresh_token \<Rightarrow> bool" where
  "access_claimable now r \<longleftrightarrow> access_pending r \<and> eligibleAccessToken now r \<and> availableLease now r"

definition access_page :: "int \<Rightarrow> (refresh_token \<Rightarrow> bool) \<Rightarrow> session_db \<Rightarrow> string list" where
  "access_page now wh db =
     map rt_id (take REVOCATION_PAGE_SIZE (sort_key rt_id (filter (\<lambda>r. wh r \<and> access_claimable now r) (tokens db))))"

definition claim_access_rows :: "int \<Rightarrow> string \<Rightarrow> string list \<Rightarrow> session_db \<Rightarrow> session_db" where
  "claim_access_rows now lease ids db =
     db\<lparr>tokens := update_where (\<lambda>r. rt_id r \<in> set ids \<and> access_claimable now r)
       (\<lambda>r. r\<lparr>rt_accessRevocationLockedAt := Some now, rt_accessRevocationLeaseToken := Some lease\<rparr>) (tokens db)\<rparr>"

definition claimed_access_rows :: "string \<Rightarrow> string list \<Rightarrow> session_db \<Rightarrow> string list" where
  "claimed_access_rows lease ids db =
     map rt_id (take REVOCATION_PAGE_SIZE (sort_key rt_id
       (filter (\<lambda>r. rt_id r \<in> set ids \<and> rt_accessRevocationLeaseToken r = Some lease) (tokens db))))"

text \<open>Sessions are announced in batches; \<open>delivered\<close> is the answer for each.\<close>

function revokeAccessSessions :: "(string \<Rightarrow> bool) \<Rightarrow> string list \<Rightarrow> string list" where
  "revokeAccessSessions delivered ids =
     (if ids = [] then []
      else filter delivered (take REVOCATION_BATCH_SIZE ids)
             @ revokeAccessSessions delivered (drop REVOCATION_BATCH_SIZE ids))"
  by pat_completeness auto

termination
  by (relation "measure (\<lambda>(_, ids). length ids)") (auto simp: REVOCATION_BATCH_SIZE_def)

definition mark_notified :: "int \<Rightarrow> string \<Rightarrow> string list \<Rightarrow> session_db \<Rightarrow> session_db" where
  "mark_notified now lease ids db =
     (if ids = [] then db
      else db\<lparr>tokens := update_where
        (\<lambda>r. rt_id r \<in> set ids \<and> rt_accessRevocationNotifiedAt r = None \<and> rt_accessRevocationLeaseToken r = Some lease)
        (\<lambda>r. r\<lparr>rt_accessRevocationNotifiedAt := Some now, rt_accessRevocationLockedAt := None,
                rt_accessRevocationLeaseToken := None\<rparr>) (tokens db)\<rparr>)"

definition release_failed :: "string \<Rightarrow> string list \<Rightarrow> session_db \<Rightarrow> session_db" where
  "release_failed lease ids db =
     (if ids = [] then db
      else db\<lparr>tokens := update_where
        (\<lambda>r. rt_id r \<in> set ids \<and> rt_accessRevocationLeaseToken r = Some lease)
        (\<lambda>r. r\<lparr>rt_accessRevocationLockedAt := None, rt_accessRevocationLeaseToken := None\<rparr>) (tokens db)\<rparr>)"

text \<open>\<open>others i\<close> is what other instances do before the i-th statement after the first.\<close>

definition notifyPendingAccessRevocations ::
  "int \<Rightarrow> int \<Rightarrow> string \<Rightarrow> (string \<Rightarrow> bool) \<Rightarrow> (nat \<Rightarrow> session_db \<Rightarrow> session_db) \<Rightarrow> (refresh_token \<Rightarrow> bool)
   \<Rightarrow> session_db \<Rightarrow> nat \<times> session_db" where
  "notifyPendingAccessRevocations now later lease delivered others wh db =
     (let page = access_page now wh db in
      if page = [] then (0, db)
      else
        let db1 = claim_access_rows now lease page (others 0 db);
            db2 = others 1 db1;
            sessionIds = claimed_access_rows lease page db2
        in if sessionIds = [] then (0, db2)
           else
             let notified = revokeAccessSessions delivered sessionIds;
                 db3 = mark_notified later lease notified (others 2 db2);
                 failed = filter (\<lambda>i. i \<notin> set notified) sessionIds;
                 db4 = release_failed lease failed (others 3 db3)
             in (length sessionIds, db4))"

definition scope_event_of :: "scope_generation \<Rightarrow> scope_event" where
  "scope_event_of g = \<lparr>se_userId = sg_userId g, se_scope = sg_scope g, se_scopeKey = sg_scopeKey g,
     se_exemptFamilyId = sg_exemptFamilyId g, se_generation = sg_generation g\<rparr>"

definition same_event :: "scope_generation \<Rightarrow> scope_generation \<Rightarrow> bool" where
  "same_event p g \<longleftrightarrow> sg_userId g = sg_userId p \<and> sg_scope g = sg_scope p
     \<and> sg_scopeKey g = sg_scopeKey p \<and> sg_generation g = sg_generation p"

definition notifyPendingScopeRevocations ::
  "(scope_event \<Rightarrow> bool) \<Rightarrow> (session_db \<Rightarrow> session_db) \<Rightarrow> session_db \<Rightarrow> nat \<times> session_db" where
  "notifyPendingScopeRevocations delivered others db =
     (let pending = take REVOCATION_PAGE_SIZE (sort_key sg_updatedAt (filter sg_notificationPending (scopes db)));
          sent = filter (\<lambda>g. delivered (scope_event_of g)) pending;
          db1 = others db
      in (length sent,
          if sent = [] then db1
          else db1\<lparr>scopes := update_where (\<lambda>g. sg_notificationPending g \<and> list_ex (\<lambda>p. same_event p g) sent)
                 (\<lambda>g. g\<lparr>sg_notificationPending := False\<rparr>) (scopes db1)\<rparr>))"

text \<open>A sweep that is already running makes the next one skip.\<close>

definition flushPendingAccessRevocations ::
  "bool \<Rightarrow> int \<Rightarrow> int \<Rightarrow> string \<Rightarrow> (string \<Rightarrow> bool) \<Rightarrow> (scope_event \<Rightarrow> bool) \<Rightarrow> (nat \<Rightarrow> session_db \<Rightarrow> session_db)
   \<Rightarrow> session_db \<Rightarrow> session_db" where
  "flushPendingAccessRevocations running now later lease delivered deliveredScope others db =
     (if running then db
      else let (_, db1) = notifyPendingAccessRevocations now later lease delivered others (\<lambda>_. True) db
           in snd (notifyPendingScopeRevocations deliveredScope (others 5) (others 4 db1)))"

section \<open>Pruning\<close>

definition PRUNE_BATCH_SIZE :: nat where "PRUNE_BATCH_SIZE = 1000"

definition MAX_BATCHES_PER_RUN :: nat where "MAX_BATCHES_PER_RUN = 20"

definition REVOKED_RETENTION_MS :: int where "REVOKED_RETENTION_MS = 30 * 24 * 60 * 60 * 1000"

definition EMAIL_CODE_RETENTION_MS :: int where "EMAIL_CODE_RETENTION_MS = 24 * 60 * 60 * 1000"

text \<open>
  One bounded loop of deletions, as the sweep has for each of its three tables. \<open>held\<close> is the
  job lease at each of its checks (two in a round), \<open>down\<close> says whether the database fails in
  the round, \<open>others\<close> what happens between selecting and deleting. The third component says
  that the sweep was aborted by a failure.
\<close>

fun prune ::
  "('r \<Rightarrow> bool) \<Rightarrow> ('r \<Rightarrow> 'k) \<Rightarrow> ('r \<Rightarrow> 'o::linorder) \<Rightarrow> (nat \<Rightarrow> bool) \<Rightarrow> (nat \<Rightarrow> bool)
   \<Rightarrow> (nat \<Rightarrow> 'r list \<Rightarrow> 'r list) \<Rightarrow> nat \<Rightarrow> 'r list \<Rightarrow> nat \<times> 'r list \<times> bool" where
  "prune stale key order held down others 0 rows = (0, rows, False)"
| "prune stale key order held down others (Suc b) rows =
     (if \<not> held (2 * b + 1) then (0, rows, False)
      else if down b then (0, rows, True)
      else
        let candidates = take PRUNE_BATCH_SIZE (sort_key order (filter stale rows)) in
        if candidates = [] then (0, rows, False)
        else if \<not> held (2 * b) then (0, rows, False)
        else
          let rows1 = others b rows;
              gone = (\<lambda>r. stale r \<and> key r \<in> set (map key candidates));
              n = count_where gone rows1;
              rows2 = delete_where gone rows1
          in if length candidates < PRUNE_BATCH_SIZE then (n, rows2, False)
             else let (m, rows3, failed) = prune stale key order held down others b rows2
                  in (n + m, rows3, failed))"

definition token_stale :: "int \<Rightarrow> refresh_token \<Rightarrow> bool" where
  "token_stale now r \<longleftrightarrow>
     (rt_expiredAt r < now
      \<or> (case rt_revokedAt r of None \<Rightarrow> False | Some v \<Rightarrow> v < now - REVOKED_RETENTION_MS))
     \<and> (case rt_accessTokenExpiresAt r of Some e \<Rightarrow> e \<le> now | None \<Rightarrow> rt_expiredAt r \<le> now)"

record expiring_row =
  er_id :: string
  er_expiresAt :: int

record cleanup_db =
  cl_tokens :: "refresh_token list"
  cl_challenges :: "expiring_row list"
  cl_emailCodes :: "expiring_row list"

definition LOGIN_CHALLENGE_RETENTION_MS :: int where
  "LOGIN_CHALLENGE_RETENTION_MS = 24 * 60 * 60 * 1000"

definition challenge_stale :: "int \<Rightarrow> expiring_row \<Rightarrow> bool" where
  "challenge_stale now r \<longleftrightarrow> er_expiresAt r < now - LOGIN_CHALLENGE_RETENTION_MS"

definition email_code_stale :: "int \<Rightarrow> expiring_row \<Rightarrow> bool" where
  "email_code_stale now r \<longleftrightarrow> er_expiresAt r < now - EMAIL_CODE_RETENTION_MS"

definition pruneExpiredEmailCodes ::
  "int \<Rightarrow> (nat \<Rightarrow> bool) \<Rightarrow> (nat \<Rightarrow> bool) \<Rightarrow> (nat \<Rightarrow> expiring_row list \<Rightarrow> expiring_row list)
   \<Rightarrow> expiring_row list \<Rightarrow> nat \<times> expiring_row list \<times> bool" where
  "pruneExpiredEmailCodes now held down others rows =
     prune (email_code_stale now) er_id er_expiresAt held down others MAX_BATCHES_PER_RUN rows"

text \<open>A failure ends the sweep; what was deleted stays deleted.\<close>

definition sweepOnce ::
  "int \<Rightarrow> (nat \<Rightarrow> nat \<Rightarrow> bool) \<Rightarrow> (nat \<Rightarrow> nat \<Rightarrow> bool) \<Rightarrow> (nat \<Rightarrow> refresh_token list \<Rightarrow> refresh_token list)
   \<Rightarrow> (nat \<Rightarrow> expiring_row list \<Rightarrow> expiring_row list) \<Rightarrow> (nat \<Rightarrow> expiring_row list \<Rightarrow> expiring_row list)
   \<Rightarrow> cleanup_db \<Rightarrow> cleanup_db" where
  "sweepOnce now held down othersT othersC othersE db =
     (let (_, ts, failedT) = prune (token_stale now) rt_id rt_id (held 0) (down 0) othersT MAX_BATCHES_PER_RUN (cl_tokens db);
          db1 = db\<lparr>cl_tokens := ts\<rparr>
      in if failedT then db1
         else
           let (_, cs, failedC) = prune (challenge_stale now) er_id er_id (held 1) (down 1) othersC MAX_BATCHES_PER_RUN (cl_challenges db1);
               db2 = db1\<lparr>cl_challenges := cs\<rparr>
           in if failedC then db2
              else let (_, es, _) = pruneExpiredEmailCodes now (held 2) (down 2) othersE (cl_emailCodes db2)
                   in db2\<lparr>cl_emailCodes := es\<rparr>)"

section \<open>Lemmas\<close>

declare revokeAccessSessions.simps [simp del]

lemma revokeAccessSessions_filter: "revokeAccessSessions delivered ids = filter delivered ids"
proof (induction ids rule: revokeAccessSessions.induct [of _ delivered])
  case (1 delivered ids)
  have "filter delivered (take REVOCATION_BATCH_SIZE ids) @ filter delivered (drop REVOCATION_BATCH_SIZE ids)
      = filter delivered ids"
    by (metis append_take_drop_id filter_append)
  moreover have "revokeAccessSessions delivered ids = (if ids = [] then []
      else filter delivered (take REVOCATION_BATCH_SIZE ids) @ revokeAccessSessions delivered (drop REVOCATION_BATCH_SIZE ids))"
    by (rule revokeAccessSessions.simps)
  ultimately show ?case using 1 by (cases "ids = []") auto
qed

lemma set_take_sort_subset: "set (take n (sort_key k xs)) \<subseteq> set xs"
  using set_take_subset [of n "sort_key k xs"] by simp

lemma length_page_le: "length (take n (sort_key k xs)) \<le> n" by simp

lemma access_page_subset:
  "i \<in> set (access_page now wh db) \<Longrightarrow> \<exists>r \<in> set (tokens db). rt_id r = i \<and> wh r \<and> access_claimable now r"
  using set_take_sort_subset [of REVOCATION_PAGE_SIZE rt_id] by (fastforce simp: access_page_def)

lemma update_where_map: "update_where p f xs = map (\<lambda>r. if p r then f r else r) xs"
  by (simp add: update_where_def)

text \<open>A row under a lease that has not run out.\<close>

definition leased_to :: "string \<Rightarrow> int \<Rightarrow> refresh_token \<Rightarrow> bool" where
  "leased_to lease since r \<longleftrightarrow> rt_accessRevocationLeaseToken r = Some lease \<and> rt_accessRevocationLockedAt r = Some since"

lemma leased_not_claimable:
  "leased_to a since r \<Longrightarrow> now < since + ACCESS_REVOCATION_CLAIM_LEASE_MS \<Longrightarrow> \<not> access_claimable now r"
  by (simp add: leased_to_def access_claimable_def availableLease_def)

lemma leased_survives:
  assumes "leased_to a since r" "r \<in> set (tokens db)" "now < since + ACCESS_REVOCATION_CLAIM_LEASE_MS" "a \<noteq> b"
  shows "r \<in> set (tokens (claim_access_rows now b ids db))"
    and "r \<in> set (tokens (mark_notified later b ids db))"
    and "r \<in> set (tokens (release_failed b ids db))"
  using assms leased_not_claimable [OF assms(1,3)]
  by (auto simp: claim_access_rows_def mark_notified_def release_failed_def set_update_where leased_to_def)

text \<open>A row under another worker's unexpired lease is left exactly as it is by a whole round of
  the outbox, however the round's own announcements fare.\<close>

lemma outbox_respects_lease:
  assumes "leased_to a since r" "r \<in> set (tokens db)" "now < since + ACCESS_REVOCATION_CLAIM_LEASE_MS" "a \<noteq> b"
    "notifyPendingAccessRevocations now later b delivered (\<lambda>_ x. x) wh db = (n, db')"
  shows "r \<in> set (tokens db')"
  using assms(2,5) leased_survives [OF assms(1) _ assms(3,4)]
  by (auto simp: notifyPendingAccessRevocations_def Let_def split: if_splits)

text \<open>The rows after a round nobody interferes with.\<close>

definition outbox_row :: "int \<Rightarrow> (string \<Rightarrow> bool) \<Rightarrow> string list \<Rightarrow> refresh_token \<Rightarrow> refresh_token" where
  "outbox_row later delivered page r =
     (if rt_id r \<notin> set page then r
      else if delivered (rt_id r)
      then r\<lparr>rt_accessRevocationNotifiedAt := Some later, rt_accessRevocationLockedAt := None, rt_accessRevocationLeaseToken := None\<rparr>
      else r\<lparr>rt_accessRevocationLockedAt := None, rt_accessRevocationLeaseToken := None\<rparr>)"

lemma sorted_distinct_ids:
  assumes "distinct (map k xs)" "distinct (map k ys)" "k ` set xs = k ` set ys"
  shows "map k (sort_key k xs) = map k (sort_key k ys)"
proof -
  have s: "sorted (map k (sort_key k xs))" "sorted (map k (sort_key k ys))" by simp_all
  have d: "distinct (map k (sort_key k xs))" "distinct (map k (sort_key k ys))"
    using assms(1,2) by (simp_all add: distinct_map)
  have "set (map k (sort_key k xs)) = set (map k (sort_key k ys))" using assms(3) by simp
  then show ?thesis using s d sorted_distinct_set_unique by blast
qed

lemma image_restrict: "A \<subseteq> f ` T \<Longrightarrow> f ` {x \<in> T. f x \<in> A} = A"
  by blast

lemma claimed_page:
  assumes "distinct (map rt_id (tokens db))" "\<forall>r \<in> set (tokens db). rt_accessRevocationLeaseToken r \<noteq> Some lease"
    "page = access_page now wh db"
  shows "claimed_access_rows lease page (claim_access_rows now lease page db) = page"
proof -
  define g where "g = (\<lambda>r. if rt_id r \<in> set page \<and> access_claimable now r
      then r\<lparr>rt_accessRevocationLockedAt := Some now, rt_accessRevocationLeaseToken := Some lease\<rparr> else r)"
  define sel where "sel = take REVOCATION_PAGE_SIZE (sort_key rt_id (filter (\<lambda>r. wh r \<and> access_claimable now r) (tokens db)))"
  have page: "page = map rt_id sel" by (simp add: assms(3) access_page_def sel_def)
  have gid: "rt_id (g r) = rt_id r" for r by (simp add: g_def)
  have toks: "tokens (claim_access_rows now lease page db) = map g (tokens db)"
    by (simp add: claim_access_rows_def update_where_map g_def)
  have selsub: "set sel \<subseteq> {r \<in> set (tokens db). wh r \<and> access_claimable now r}"
    using set_take_sort_subset [of REVOCATION_PAGE_SIZE rt_id] by (fastforce simp: sel_def)
  have claimable: "access_claimable now r" if "r \<in> set (tokens db)" "rt_id r \<in> set page" for r
  proof -
    from that(2) obtain s where s: "s \<in> set sel" "rt_id s = rt_id r" unfolding page by auto
    then have "s \<in> set (tokens db)" "access_claimable now s" using selsub by auto
    then show ?thesis using distinct_map_eq [OF assms(1) _ that(1) s(2)] by simp
  qed
  define hit where "hit = filter (\<lambda>r. rt_id r \<in> set page \<and> rt_accessRevocationLeaseToken r = Some lease) (map g (tokens db))"
  have "hit = map g (filter (\<lambda>r. rt_id r \<in> set page) (tokens db))"
  proof -
    have "rt_id (g r) \<in> set page \<and> rt_accessRevocationLeaseToken (g r) = Some lease \<longleftrightarrow> rt_id r \<in> set page"
      if "r \<in> set (tokens db)" for r
      using that claimable [OF that] assms(2) by (auto simp: g_def)
    then show ?thesis by (auto simp: hit_def filter_map comp_def intro!: arg_cong [where f = "map g"] filter_cong)
  qed
  then have hit: "map rt_id hit = map rt_id (filter (\<lambda>r. rt_id r \<in> set page) (tokens db))"
    by (simp add: gid comp_def)
  have dist: "distinct (map rt_id hit)" unfolding hit using assms(1) by (rule distinct_map_filter)
  have "rt_id ` set sel \<subseteq> rt_id ` set (tokens db)" using selsub by auto
  moreover have "rt_id ` set hit = rt_id ` {x \<in> set (tokens db). rt_id x \<in> rt_id ` set sel}"
    using arg_cong [OF hit, of set] by (simp add: page)
  ultimately have ids: "rt_id ` set hit = set page" unfolding page by (simp add: image_restrict)
  have dsel: "distinct (map rt_id sel)"
  proof -
    have "distinct (map rt_id (sort_key rt_id (filter (\<lambda>r. wh r \<and> access_claimable now r) (tokens db))))"
      using assms(1) by (simp add: distinct_map inj_on_def)
    then show ?thesis by (simp add: sel_def take_map [symmetric])
  qed
  have "sorted (map rt_id sel)" unfolding sel_def take_map [symmetric] by (intro sorted_wrt_take) simp
  moreover have "map rt_id (sort_key rt_id hit) = map rt_id (sort_key rt_id sel)"
    using ids page by (intro sorted_distinct_ids [OF dist dsel]) simp
  moreover have "sort_key rt_id sel = sel" using calculation(1) by (rule sort_key_id_if_sorted)
  ultimately have all: "map rt_id (sort_key rt_id hit) = page" by (simp add: page)
  then have "length (sort_key rt_id hit) = length sel" unfolding page by (rule map_eq_imp_length_eq)
  then have "length (sort_key rt_id hit) \<le> REVOCATION_PAGE_SIZE" by (simp add: sel_def)
  with all show ?thesis by (simp add: claimed_access_rows_def toks hit_def [symmetric])
qed

lemma outbox_round_parts:
  assumes "distinct (map rt_id (tokens db))" "\<forall>r \<in> set (tokens db). rt_accessRevocationLeaseToken r \<noteq> Some lease"
    "page = access_page now wh db"
  shows "notifyPendingAccessRevocations now later lease delivered (\<lambda>_ x. x) wh db =
    (length page, db\<lparr>tokens := map (outbox_row later delivered page) (tokens db)\<rparr>)"
proof (cases "page = []")
  case True
  then show ?thesis using assms(3) by (simp add: notifyPendingAccessRevocations_def outbox_row_def [abs_def])
next
  case False
  define sent where "sent = filter delivered page"
  define failed where "failed = filter (\<lambda>i. \<not> delivered i) page"
  have failed: "filter (\<lambda>i. i \<notin> set sent) page = failed"
    by (auto simp: sent_def failed_def intro!: filter_cong)
  have claimable: "access_claimable now r" if r: "r \<in> set (tokens db)" "rt_id r \<in> set page" for r
  proof -
    obtain s where "s \<in> set (tokens db)" "rt_id s = rt_id r" "access_claimable now s"
      using r(2) access_page_subset [of "rt_id r" now wh db] assms(3) by auto
    then show ?thesis using distinct_map_eq [OF assms(1) _ r(1)] by metis
  qed
  define g1 where "g1 = (\<lambda>r :: refresh_token. if rt_id r \<in> set page \<and> access_claimable now r
        then r\<lparr>rt_accessRevocationLockedAt := Some now, rt_accessRevocationLeaseToken := Some lease\<rparr> else r)"
  define g2 where "g2 = (\<lambda>r :: refresh_token. if rt_id r \<in> set sent \<and> rt_accessRevocationNotifiedAt r = None
          \<and> rt_accessRevocationLeaseToken r = Some lease
        then r\<lparr>rt_accessRevocationNotifiedAt := Some later, rt_accessRevocationLockedAt := None,
                rt_accessRevocationLeaseToken := None\<rparr> else r)"
  define g3 where "g3 = (\<lambda>r :: refresh_token. if rt_id r \<in> set failed \<and> rt_accessRevocationLeaseToken r = Some lease
        then r\<lparr>rt_accessRevocationLockedAt := None, rt_accessRevocationLeaseToken := None\<rparr> else r)"
  have row: "g3 (g2 (g1 r)) = outbox_row later delivered page r" if "r \<in> set (tokens db)" for r
    using claimable [OF that] that assms(2)
    by (auto simp: g1_def g2_def g3_def outbox_row_def sent_def failed_def access_claimable_def access_pending_def)
  have "release_failed lease failed (mark_notified later lease sent (claim_access_rows now lease page db)) =
      db\<lparr>tokens := map (outbox_row later delivered page) (tokens db)\<rparr>"
  proof -
    have r: "release_failed lease failed x = x\<lparr>tokens := map g3 (tokens x)\<rparr>" for x
      by (cases "failed = []") (simp_all add: release_failed_def update_where_def g3_def)
    have m: "mark_notified later lease sent x = x\<lparr>tokens := map g2 (tokens x)\<rparr>" for x
      by (cases "sent = []") (simp_all add: mark_notified_def update_where_def g2_def)
    have c: "claim_access_rows now lease page db = db\<lparr>tokens := map g1 (tokens db)\<rparr>"
      by (simp add: claim_access_rows_def update_where_def g1_def)
    show ?thesis unfolding r m c using row by simp
  qed
  then show ?thesis
    using False claimed_page [OF assms] failed
    by (simp add: notifyPendingAccessRevocations_def Let_def assms(3) [symmetric]
        revokeAccessSessions_filter sent_def [symmetric])
qed

text \<open>C33: An undisturbed round of the outbox takes the first hundred claimable rows in order of id;
  each one announced becomes notified, each one that failed is left pending with its
  lease given back, and no other row is touched.\<close>

theorem outbox_round:
  assumes "distinct (map rt_id (tokens db))" "\<forall>r \<in> set (tokens db). rt_accessRevocationLeaseToken r \<noteq> Some lease"
  shows "notifyPendingAccessRevocations now later lease delivered (\<lambda>_ x. x) wh db =
    (length (access_page now wh db),
     db\<lparr>tokens := map (outbox_row later delivered (access_page now wh db)) (tokens db)\<rparr>)
    \<and> length (access_page now wh db) \<le> 100
    \<and> (\<forall>i \<in> set (access_page now wh db). \<exists>r \<in> set (tokens db). rt_id r = i \<and> access_claimable now r)"
proof (intro conjI ballI)
  show "length (access_page now wh db) \<le> 100" by (simp add: access_page_def REVOCATION_PAGE_SIZE_def)
  show "\<exists>r \<in> set (tokens db). rt_id r = i \<and> access_claimable now r" if "i \<in> set (access_page now wh db)" for i
    using access_page_subset [OF that] by blast
qed (rule outbox_round_parts [OF assms refl])

definition outbox_example_row :: "string \<Rightarrow> refresh_token" where
  "outbox_example_row i = \<lparr>rt_id = i, rt_userId = ''u'', rt_token = ''t'' @ i, rt_familyId = i,
     rt_accountGeneration = 0, rt_audienceGeneration = 0, rt_deviceGeneration = 0, rt_familyGeneration = 0,
     rt_audience = APP, rt_deviceName = None, rt_ip = None, rt_userAgent = None, rt_deviceKey = None,
     rt_expiredAt = 1000000, rt_accessTokenExpiresAt = None, rt_accessRevokedAt = Some 1,
     rt_accessRevocationNotifiedAt = None, rt_accessRevocationLockedAt = None,
     rt_accessRevocationLeaseToken = None, rt_revokedAt = Some 1, rt_revocationReason = Some LOGOUT,
     rt_createdAt = 0, rt_lastUsedAt = 0\<rparr>"

theorem outbox_round_witness:
  "snd (notifyPendingAccessRevocations 5 6 ''l'' (\<lambda>i. i = ''a'') (\<lambda>_ x. x) (\<lambda>_. True)
      \<lparr>tokens = [outbox_example_row ''b'', outbox_example_row ''a''], scopes = [], users = []\<rparr>) =
   \<lparr>tokens = [outbox_example_row ''b'', (outbox_example_row ''a'')\<lparr>rt_accessRevocationNotifiedAt := Some 6\<rparr>],
    scopes = [], users = []\<rparr>"
proof -
  let ?db = "\<lparr>tokens = [outbox_example_row ''b'', outbox_example_row ''a''], scopes = [], users = []\<rparr>"
  have c: "access_claimable 5 (outbox_example_row i)" for i
    by (simp add: access_claimable_def access_pending_def eligibleAccessToken_def availableLease_def outbox_example_row_def)
  have "access_page 5 (\<lambda>_. True) ?db = [''a'', ''b'']"
    by (simp add: access_page_def c REVOCATION_PAGE_SIZE_def) (simp add: outbox_example_row_def)
  moreover have "distinct (map rt_id (tokens ?db))"
    "\<forall>r \<in> set (tokens ?db). rt_accessRevocationLeaseToken r \<noteq> Some ''l''"
    by (simp_all add: outbox_example_row_def)
  ultimately show ?thesis
    using outbox_round [of ?db "''l''" 5 6 "\<lambda>i. i = ''a''" "\<lambda>_. True", THEN conjunct1]
    by (simp add: outbox_row_def) (simp add: outbox_example_row_def)
qed

section \<open>What pruning removes\<close>

lemma prune_keeps:
  assumes "\<not> stale r" "\<And>b xs. r \<in> set xs \<Longrightarrow> r \<in> set (others b xs)"
  shows "r \<in> set rows \<Longrightarrow> prune stale key order held down others b rows = (n, rows', f) \<Longrightarrow> r \<in> set rows'"
proof (induction b arbitrary: rows n)
  case (Suc b)
  define cand where "cand = take PRUNE_BATCH_SIZE (sort_key order (filter stale rows))"
  define rows2 where "rows2 = delete_where (\<lambda>r. stale r \<and> key r \<in> set (map key cand)) (others b rows)"
  obtain m r3 f3 where rec: "prune stale key order held down others b rows2 = (m, r3, f3)"
    by (cases "prune stale key order held down others b rows2")
  have r2: "r \<in> set rows2" using assms Suc.prems(1) by (simp add: rows2_def)
  have "rows' \<in> {rows, rows2} \<or> rows' = r3 \<and> f = f3"
    using Suc.prems(2) rec [unfolded rows2_def]
    by (auto simp: Let_def cand_def [symmetric] rows2_def split: if_splits)
  then show ?case using r2 Suc.prems(1) Suc.IH [OF r2] rec by auto
qed simp

lemma filter_sort_length: "length (filter p (sort_key k xs)) = length (filter p xs)"
  by (simp add: filter_sort)

lemma prune_batch_left:
  fixes order :: "'r \<Rightarrow> 'o::linorder"
  assumes "candidates = take n (sort_key order (filter stale rows))"
  shows "length (filter stale (delete_where (\<lambda>r. stale r \<and> key r \<in> set (map key candidates)) rows))
    \<le> length (filter stale rows) - length candidates"
proof -
  define keep where "keep = (\<lambda>r. key r \<notin> set (map key candidates))"
  define rest where "rest = drop n (sort_key order (filter stale rows))"
  have split: "sort_key order (filter stale rows) = candidates @ rest" by (simp add: assms rest_def)
  have "filter stale (delete_where (\<lambda>r. stale r \<and> key r \<in> set (map key candidates)) rows) = filter keep (filter stale rows)"
    by (auto simp: delete_where_def keep_def intro: filter_cong)
  moreover have "length (filter keep (filter stale rows)) = length (filter keep (candidates @ rest))"
    using filter_sort_length [of keep order "filter stale rows"] by (simp add: split)
  moreover have "filter keep candidates = []" by (auto simp: keep_def filter_empty_conv)
  moreover have "length (filter stale rows) = length candidates + length rest"
    using arg_cong [OF split, of length] by simp
  ultimately show ?thesis by simp
qed

lemma prune_all:
  "length (filter stale rows) \<le> PRUNE_BATCH_SIZE * b \<Longrightarrow>
    prune stale key order (\<lambda>_. True) (\<lambda>_. False) (\<lambda>_ x. x) b rows = (n, rows', f) \<Longrightarrow> filter stale rows' = [] \<and> \<not> f"
proof (induction b arbitrary: rows n rows' f)
  case (Suc b)
  define cand where "cand = take PRUNE_BATCH_SIZE (sort_key order (filter stale rows))"
  define rows2 where "rows2 = delete_where (\<lambda>r. stale r \<and> key r \<in> set (map key cand)) rows"
  have left: "length (filter stale rows2) \<le> length (filter stale rows) - length cand"
    unfolding rows2_def by (rule prune_batch_left [OF cand_def])
  have len: "length cand = min (length (filter stale rows)) PRUNE_BATCH_SIZE" by (simp add: cand_def)
  show ?case
  proof (cases "cand = []")
    case True
    with len have "length (filter stale rows) = 0" by (simp add: PRUNE_BATCH_SIZE_def min_def split: if_splits)
    then have "filter stale rows = []" by simp
    with True Suc.prems(2) show ?thesis by (simp add: cand_def [symmetric] Let_def)
  next
    case nonempty: False
    show ?thesis
    proof (cases "length cand < PRUNE_BATCH_SIZE")
      case True
      with len left have "filter stale rows2 = []" by simp
      with True nonempty Suc.prems(2) show ?thesis
        by (auto simp: Let_def cand_def [symmetric] rows2_def)
    next
      case False
      obtain m r3 f3 where rec: "prune stale key order (\<lambda>_. True) (\<lambda>_. False) (\<lambda>_ x. x) b rows2 = (m, r3, f3)"
        by (cases "prune stale key order (\<lambda>_. True) (\<lambda>_. False) (\<lambda>_ x. x) b rows2")
      have "length (filter stale rows2) \<le> PRUNE_BATCH_SIZE * b"
        using left False Suc.prems(1) by simp
      then have "filter stale r3 = [] \<and> \<not> f3" using Suc.IH rec by blast
      moreover have "rows' = r3" "f = f3"
        using Suc.prems(2) nonempty False rec [unfolded rows2_def]
        by (auto simp: Let_def cand_def [symmetric])
      ultimately show ?thesis by simp
    qed
  qed
qed simp

text \<open>C31: Pruning never removes a session row whose access token may still be in use (its recorded
  expiry, or the refresh expiry where none is recorded, is ahead): whatever else happens, whichever
  lease check or statement fails, the verifier still finds the row and its revocation.\<close>

theorem cleanup_keeps_usable_rows:
  assumes "r \<in> set (cl_tokens db)"
    "case rt_accessTokenExpiresAt r of Some e \<Rightarrow> now < e | None \<Rightarrow> now < rt_expiredAt r"
    "\<And>b xs. r \<in> set xs \<Longrightarrow> r \<in> set (othersT b xs)"
  shows "r \<in> set (cl_tokens (sweepOnce now held down othersT othersC othersE db))"
proof -
  have ns: "\<not> token_stale now r" using assms(2) by (auto simp: token_stale_def split: option.splits)
  obtain n ts f where run: "prune (token_stale now) rt_id rt_id (held 0) (down 0) othersT MAX_BATCHES_PER_RUN (cl_tokens db) = (n, ts, f)"
    by (cases "prune (token_stale now) rt_id rt_id (held 0) (down 0) othersT MAX_BATCHES_PER_RUN (cl_tokens db)")
  have "r \<in> set ts" by (rule prune_keeps [OF ns assms(3) assms(1) run])
  then show ?thesis by (auto simp: sweepOnce_def run Let_def split: prod.split)
qed

theorem cleanup_keeps_usable_rows_witness:
  "(outbox_example_row ''a'')\<lparr>rt_expiredAt := 1, rt_accessTokenExpiresAt := Some 9\<rparr> \<in> set (cl_tokens
     (sweepOnce 8 (\<lambda>_ _. True) (\<lambda>_ _. False) (\<lambda>_ xs. xs) (\<lambda>_ xs. xs) (\<lambda>_ xs. xs)
       \<lparr>cl_tokens = [(outbox_example_row ''a'')\<lparr>rt_expiredAt := 1, rt_accessTokenExpiresAt := Some 9\<rparr>],
        cl_challenges = [], cl_emailCodes = []\<rparr>))"
  by (rule cleanup_keeps_usable_rows) simp_all

text \<open>A sweep that keeps its lease and meets no failure leaves none of the up to 20000 dead rows of
  each of the three tables.\<close>

lemma cleanup_complete:
  assumes "\<And>k i. held k i" "\<And>k i. \<not> down k i"
    "length (filter (token_stale now) (cl_tokens db)) \<le> 20000"
    "length (filter (challenge_stale now) (cl_challenges db)) \<le> 20000"
    "length (filter (email_code_stale now) (cl_emailCodes db)) \<le> 20000"
    "db' = sweepOnce now held down (\<lambda>_ x. x) (\<lambda>_ x. x) (\<lambda>_ x. x) db"
  shows "filter (token_stale now) (cl_tokens db') = [] \<and> filter (challenge_stale now) (cl_challenges db') = []
    \<and> filter (email_code_stale now) (cl_emailCodes db') = []"
proof -
  have on: "held k = (\<lambda>_. True)" "down k = (\<lambda>_. False)" for k using assms(1,2) by auto
  obtain n1 ts f1 where t: "prune (token_stale now) rt_id rt_id (held 0) (down 0) (\<lambda>_ x. x) MAX_BATCHES_PER_RUN (cl_tokens db) = (n1, ts, f1)"
    by (cases "prune (token_stale now) rt_id rt_id (held 0) (down 0) (\<lambda>_ x. x) MAX_BATCHES_PER_RUN (cl_tokens db)")
  obtain n2 cs f2 where c: "prune (challenge_stale now) er_id er_id (held 1) (down 1) (\<lambda>_ x. x) MAX_BATCHES_PER_RUN (cl_challenges db) = (n2, cs, f2)"
    by (cases "prune (challenge_stale now) er_id er_id (held 1) (down 1) (\<lambda>_ x. x) MAX_BATCHES_PER_RUN (cl_challenges db)")
  obtain n3 es f3 where e: "prune (email_code_stale now) er_id er_expiresAt (held 2) (down 2) (\<lambda>_ x. x) MAX_BATCHES_PER_RUN (cl_emailCodes db) = (n3, es, f3)"
    by (cases "prune (email_code_stale now) er_id er_expiresAt (held 2) (down 2) (\<lambda>_ x. x) MAX_BATCHES_PER_RUN (cl_emailCodes db)")
  have bound: "(20000::nat) = PRUNE_BATCH_SIZE * MAX_BATCHES_PER_RUN" by (simp add: PRUNE_BATCH_SIZE_def MAX_BATCHES_PER_RUN_def)
  note all = prune_all [OF assms(3) [unfolded bound] t [unfolded on]] prune_all [OF assms(4) [unfolded bound] c [unfolded on]]
    prune_all [OF assms(5) [unfolded bound] e [unfolded on]]
  then show ?thesis by (simp add: assms(6) sweepOnce_def pruneExpiredEmailCodes_def t c e del: One_nat_def)
qed

end
