(* ===== verification/Call.thy ===== *)
theory Call
  imports ChatStore JsValue
begin

text \<open>
  Calls: \<open>src/call/call.service.ts\<close>. A call is a session row with one row per participant.
  Handlers run concurrently: each statement is atomic (a conditional \<open>updateMany\<close>, or a
  transaction), and \<open>others i\<close> is what other requests do before the i-th of a handler's later
  statements. Handlers return their answer, which may be an error, with the database, because what
  they wrote before an error stays. The media server's answers are arguments, or part of the state as far as deletions
  of rooms go; broadcasts, pushes, metrics and all logging but the warnings of failed deletions are left out.
\<close>

section \<open>Data\<close>

datatype call_status = C_RINGING | C_ACTIVE | C_ENDED | C_CANCELED | C_MISSED | C_FAILED

datatype participant_status = INVITED | JOINED | LEFT | P_REJECTED | P_MISSED

datatype end_reason = NORMAL | CANCELED | ALL_LEFT | NO_ANSWER | TIMEOUT | NETWORK | ERROR

datatype call_type = AUDIO | VIDEO

datatype call_permission = EVERYONE | FRIENDS_ONLY | NOBODY

datatype circle_admin_state = CA_ACTIVE | DISABLING | DISABLED | RESTORING | SYNC_FAILED | DISMISSED

datatype circle_member_status = CM_ACTIVE | CM_PENDING | CM_REJECTED

datatype temp_chat_status = TC_ACTIVE | TC_ENDED | TC_EXPIRED

record call_row =
  ca_id :: string
  ca_conversationID :: string
  ca_sessionType :: int
  ca_callType :: call_type
  ca_status :: call_status
  ca_livekitRoomName :: string
  ca_initiatorID :: string
  ca_startedAt :: "int option"
  ca_endedAt :: "int option"
  ca_expiresAt :: int
  ca_endedByID :: "string option"
  ca_endReason :: "end_reason option"
  ca_idempotencyKey :: "string option"
  ca_createdAt :: int

record participant =
  cp_callID :: string
  cp_userID :: string
  cp_status :: participant_status
  cp_invitedAt :: int
  cp_joinedAt :: "int option"
  cp_leftAt :: "int option"
  cp_rejectedAt :: "int option"
  cp_missedAt :: "int option"
  cp_lastTokenAt :: "int option"

text \<open>A session row as a handler read it, with its participants.\<close>

record call_view =
  vw_call :: call_row
  vw_participants :: "participant list"

text \<open>The record message that follows the end of a call, as it was decided.\<close>

record call_ending =
  en_view :: call_view
  en_reason :: end_reason
  en_endedAt :: int
  en_suppressOfflinePush :: bool

record circle_row =
  ci_id :: string
  ci_groupID :: "string option"
  ci_adminState :: circle_admin_state
  ci_deleted :: bool

record circle_member_row =
  cm_circleID :: string
  cm_userID :: string
  cm_status :: circle_member_status

record call_conversation =
  cc_id :: string
  cc_type :: conversation_type
  cc_circleID :: "string option"
  cc_tempChatID :: "string option"

record temp_chat_row =
  tc_id :: string
  tc_status :: temp_chat_status
  tc_endedAt :: "int option"
  tc_expiresAt :: int

record seat_row =
  se_conversationID :: string
  se_userID :: string
  se_leftAt :: "int option"

text \<open>The facts about people and groups that decide who may call whom.\<close>

record call_world =
  w_friends :: "(string \<times> string \<times> friend_state) list"
  w_blocks :: "(string \<times> string) list"
  w_callPermission :: "string \<Rightarrow> call_permission"
  w_activeUsers :: "string list"
  w_circles :: "circle_row list"
  w_circleMembers :: "circle_member_row list"
  w_conversations :: "call_conversation list"
  w_tempChats :: "temp_chat_row list"
  w_seats :: "seat_row list"

text \<open>
  The tables, and of the media server the rooms that exist, those whose deletion it would at the moment
  refuse or not answer (other requests may change both), and the warnings that failed deletions left in the log.
\<close>

record call_db =
  calls :: "call_row list"
  parts :: "participant list"
  rooms :: "string list"
  stuck :: "string list"
  warned :: "string list"
  endings :: "call_ending list"
  world :: call_world

datatype call_error =
    Ended | Expired | Busy | NotGroupMember | ParticipantLimit | InviteesRequired | InviteeInvalid
  | NotAccepted | VideoDisabled | NotInvited | NotFound | NotAllowed | AlreadyActive | NotFriend
  | PermissionDenied | LivekitUnavailable | GroupNotFound | TransactionFailed

definition GROUP_SESSION_TYPE :: int where "GROUP_SESSION_TYPE = 3"

definition SINGLE_SESSION_TYPE :: int where "SINGLE_SESSION_TYPE = 1"

definition CALL_RECORD_SEND_ATTEMPTS :: nat where "CALL_RECORD_SEND_ATTEMPTS = 3"

record call_config =
  cf_enableVideo :: bool
  cf_maxParticipants :: nat
  cf_ringTimeoutSeconds :: int

text \<open>A number from the configuration counts only if it is a positive integer.\<close>

definition readPositiveInt :: "int option \<Rightarrow> int \<Rightarrow> int" where
  "readPositiveInt v fallback = (case v of Some n \<Rightarrow> if 0 < n then n else fallback | None \<Rightarrow> fallback)"

definition read_call_config :: "bool \<Rightarrow> int option \<Rightarrow> int option \<Rightarrow> call_config" where
  "read_call_config video maxP ring =
     \<lparr>cf_enableVideo = video, cf_maxParticipants = nat (readPositiveInt maxP 10),
      cf_ringTimeoutSeconds = readPositiveInt ring 45\<rparr>"

section \<open>Who may call\<close>

definition uniqueIDs :: "string list \<Rightarrow> string list" where
  "uniqueIDs ids = rev (remdups (rev (filter (\<lambda>i. i \<noteq> '''') (map js_trim ids))))"

definition groupIDCandidates :: "string \<Rightarrow> string list" where
  "groupIDCandidates g = remdups [g, if take 3 g = ''sg_'' then drop 3 g else g]"

text \<open>The two errors of every membership check: the caller's own, or a target's.\<close>

definition check_members :: "string \<Rightarrow> string list \<Rightarrow> string set \<Rightarrow> call_error + unit" where
  "check_members initiator ids present =
     (if initiator \<notin> present then Inl NotGroupMember
      else if \<not> list_all (\<lambda>i. i \<in> present) ids then Inl InviteeInvalid
      else Inr ())"

definition active_members :: "string \<Rightarrow> string list \<Rightarrow> call_world \<Rightarrow> string set" where
  "active_members circle ids w =
     set (map cm_userID (filter (\<lambda>m. cm_circleID m = circle \<and> cm_userID m \<in> set ids \<and> cm_status m = CM_ACTIVE)
       (w_circleMembers w)))"

definition seated_members :: "string \<Rightarrow> string list \<Rightarrow> call_world \<Rightarrow> string set" where
  "seated_members conv ids w =
     set (map se_userID (filter (\<lambda>s. se_conversationID s = conv \<and> se_userID s \<in> set ids \<and> se_leftAt s = None)
       (w_seats w)))"

definition assertGroupMembers ::
  "int \<Rightarrow> string \<Rightarrow> string list \<Rightarrow> string \<Rightarrow> call_world \<Rightarrow> call_error + unit" where
  "assertGroupMembers now conv ids initiator w =
     (case find_where (\<lambda>c. \<not> ci_deleted c
             \<and> (ci_id c = conv \<or> (case ci_groupID c of None \<Rightarrow> False | Some g \<Rightarrow> g \<in> set (groupIDCandidates conv))))
             (w_circles w) of
        Some c \<Rightarrow>
          if ci_adminState c \<noteq> CA_ACTIVE then Inl NotGroupMember
          else check_members initiator ids (active_members (ci_id c) ids w)
      | None \<Rightarrow>
          (case find_where (\<lambda>v. cc_id v = conv) (w_conversations w) of
             None \<Rightarrow> Inl InviteeInvalid
           | Some v \<Rightarrow>
               if cc_type v \<noteq> GROUP \<and> cc_type v \<noteq> TEMP then Inl InviteeInvalid
               else
                 bind_res
                   (case cc_circleID v of
                      None \<Rightarrow> Inr ()
                    | Some k \<Rightarrow>
                        if k = '''' then Inr ()
                        else if find_where (\<lambda>c. ci_id c = k \<and> \<not> ci_deleted c \<and> ci_adminState c = CA_ACTIVE) (w_circles w) = None
                        then Inl NotGroupMember
                        else check_members initiator ids (active_members k ids w))
                   (\<lambda>_. bind_res
                      (if cc_type v \<noteq> TEMP then Inr ()
                       else (case Option.bind (cc_tempChatID v)
                                    (\<lambda>k. find_where (\<lambda>r. tc_id r = k) (w_tempChats w)) of
                               None \<Rightarrow> Inl NotGroupMember
                             | Some r \<Rightarrow> if tc_status r \<noteq> TC_ACTIVE \<or> tc_endedAt r \<noteq> None \<or> tc_expiresAt r \<le> now
                                         then Inl NotGroupMember else Inr ()))
                      (\<lambda>_. check_members initiator ids (seated_members conv ids w)))))"

definition accepted_friends :: "string \<Rightarrow> string \<Rightarrow> call_world \<Rightarrow> bool" where
  "accepted_friends a b w \<longleftrightarrow> list_ex (\<lambda>(u, f, s). s = ACCEPTED \<and> ((u = a \<and> f = b) \<or> (u = b \<and> f = a))) (w_friends w)"

definition either_blocked :: "string \<Rightarrow> string \<Rightarrow> call_world \<Rightarrow> bool" where
  "either_blocked a b w \<longleftrightarrow> list_ex (\<lambda>(x, y). (x = b \<and> y = a) \<or> (x = a \<and> y = b)) (w_blocks w)"

definition permissionAllows :: "call_permission \<Rightarrow> bool \<Rightarrow> bool" where
  "permissionAllows p isFriend = (case p of NOBODY \<Rightarrow> False | FRIENDS_ONLY \<Rightarrow> isFriend | EVERYONE \<Rightarrow> True)"

definition filterCallableInvitees :: "string \<Rightarrow> string list \<Rightarrow> call_world \<Rightarrow> string list" where
  "filterCallableInvitees initiator ids w =
     filter (\<lambda>u. permissionAllows (w_callPermission w u) (accepted_friends initiator u w)) ids"

definition assertDirectCallee :: "string \<Rightarrow> string \<Rightarrow> call_world \<Rightarrow> call_error + unit" where
  "assertDirectCallee initiator callee w =
     (if \<not> accepted_friends initiator callee w \<or> either_blocked initiator callee w then Inl NotFriend
      else if \<not> permissionAllows (w_callPermission w callee) True then Inl PermissionDenied
      else Inr ())"

definition loadActiveUsers :: "string list \<Rightarrow> call_world \<Rightarrow> call_error + unit" where
  "loadActiveUsers ids w =
     (if length (filter (\<lambda>u. u \<in> set ids) (w_activeUsers w)) < length ids then Inl InviteeInvalid else Inr ())"

text \<open>
  A historical invitation is no permanent grant: the media token is minted only after the
  membership or friendship of the moment was checked.
\<close>

definition assertCurrentCallAccess :: "int \<Rightarrow> call_view \<Rightarrow> string \<Rightarrow> call_world \<Rightarrow> call_error + unit" where
  "assertCurrentCallAccess now v u w =
     (let c = vw_call v in
      if ca_sessionType c = GROUP_SESSION_TYPE then assertGroupMembers now (ca_conversationID c) [u] u w
      else if ca_sessionType c = SINGLE_SESSION_TYPE \<and> ca_initiatorID c \<noteq> ''''
      then (let callee = (if u \<noteq> ca_initiatorID c then Some u
                          else map_option cp_userID
                                 (find_where (\<lambda>p. cp_userID p \<noteq> ca_initiatorID c) (vw_participants v)))
            in case callee of
                 None \<Rightarrow> Inl NotFriend
               | Some k \<Rightarrow> if k = '''' then Inl NotFriend else assertDirectCallee (ca_initiatorID c) k w)
      else Inl NotFound)"

record token_grant =
  tg_identity :: string
  tg_room :: string
  tg_callType :: call_type

definition mintToken :: "bool \<Rightarrow> int \<Rightarrow> call_view \<Rightarrow> string \<Rightarrow> call_world \<Rightarrow> call_error + token_grant" where
  "mintToken livekitUp now v u w =
     (if ca_livekitRoomName (vw_call v) = '''' then Inl LivekitUnavailable
      else bind_res (assertCurrentCallAccess now v u w) (\<lambda>_.
        if \<not> livekitUp then Inl LivekitUnavailable
        else Inr \<lparr>tg_identity = u, tg_room = ca_livekitRoomName (vw_call v), tg_callType = ca_callType (vw_call v)\<rparr>))"

section \<open>Reading\<close>

definition call_parts :: "string \<Rightarrow> call_db \<Rightarrow> participant list" where
  "call_parts i db = filter (\<lambda>p. cp_callID p = i) (parts db)"

definition view_of :: "call_row \<Rightarrow> call_db \<Rightarrow> call_view" where
  "view_of c db = \<lparr>vw_call = c, vw_participants = call_parts (ca_id c) db\<rparr>"

definition find_call :: "string \<Rightarrow> call_db \<Rightarrow> call_row option" where
  "find_call i db = find_where (\<lambda>c. ca_id c = i) (calls db)"

definition load_call :: "string \<Rightarrow> call_db \<Rightarrow> call_view option" where
  "load_call i db = map_option (\<lambda>c. view_of c db) (find_call i db)"

definition find_part :: "string \<Rightarrow> string \<Rightarrow> call_db \<Rightarrow> participant option" where
  "find_part i u db = find_where (\<lambda>p. cp_callID p = i \<and> cp_userID p = u) (parts db)"

definition findParticipantForUser :: "string \<Rightarrow> string \<Rightarrow> call_db \<Rightarrow> call_error + participant \<times> call_view" where
  "findParticipantForUser i u db =
     (case (find_part i u db, load_call i db) of
        (Some p, Some v) \<Rightarrow> Inr (p, v)
      | _ \<Rightarrow> Inl NotFound)"

definition status_live :: "call_status \<Rightarrow> bool" where
  "status_live s \<longleftrightarrow> s = C_RINGING \<or> s = C_ACTIVE"

definition part_busy :: "participant \<Rightarrow> bool" where
  "part_busy p \<longleftrightarrow> cp_status p = INVITED \<or> cp_status p = JOINED"

definition user_in_call :: "string \<Rightarrow> call_row \<Rightarrow> call_db \<Rightarrow> bool" where
  "user_in_call u c db \<longleftrightarrow> list_ex (\<lambda>p. cp_callID p = ca_id c \<and> cp_userID p = u \<and> part_busy p) (parts db)"

definition assertNotBusy :: "string list \<Rightarrow> call_db \<Rightarrow> call_error + unit" where
  "assertNotBusy ids db =
     (if list_ex (\<lambda>c. status_live (ca_status c) \<and> list_ex (\<lambda>u. user_in_call u c db) ids) (calls db)
      then Inl Busy else Inr ())"

definition findIdempotentCreateCall :: "string \<Rightarrow> string option \<Rightarrow> call_db \<Rightarrow> call_view option" where
  "findIdempotentCreateCall initiator key db =
     (case map_option js_trim key of
        None \<Rightarrow> None
      | Some k \<Rightarrow>
          if k = '''' then None
          else map_option (\<lambda>c. view_of c db)
                 (find_where (\<lambda>c. ca_initiatorID c = initiator \<and> status_live (ca_status c)
                    \<and> ca_idempotencyKey c = Some k) (calls db)))"

text \<open>The newest call in which the user is still expected, ringing ones only while they ring.\<close>

definition getCurrentCall :: "int \<Rightarrow> string \<Rightarrow> call_db \<Rightarrow> (call_view \<times> participant option) option" where
  "getCurrentCall now u db =
     (case rev (sort_key ca_createdAt
             (filter (\<lambda>c. (ca_status c = C_ACTIVE \<or> (ca_status c = C_RINGING \<and> now < ca_expiresAt c)) \<and> user_in_call u c db)
                (calls db))) of
        [] \<Rightarrow> None
      | c # _ \<Rightarrow> Some (view_of c db, find_where (\<lambda>p. cp_userID p = u) (call_parts (ca_id c) db)))"

definition durationSeconds :: "int option \<Rightarrow> int option \<Rightarrow> int option" where
  "durationSeconds startedAt endedAt =
     (case (startedAt, endedAt) of (Some s, Some e) \<Rightarrow> Some (max 0 ((e - s) div 1000)) | _ \<Rightarrow> None)"

section \<open>Statements\<close>

definition set_call :: "(call_row \<Rightarrow> bool) \<Rightarrow> (call_row \<Rightarrow> call_row) \<Rightarrow> call_db \<Rightarrow> call_db" where
  "set_call p f db = db\<lparr>calls := update_where p f (calls db)\<rparr>"

definition set_parts :: "(participant \<Rightarrow> bool) \<Rightarrow> (participant \<Rightarrow> participant) \<Rightarrow> call_db \<Rightarrow> call_db" where
  "set_parts p f db = db\<lparr>parts := update_where p f (parts db)\<rparr>"

text \<open>
  The conditional write that ends a call. Whoever wins it owes the call its record message, which
  is decided here (\<open>shown\<close> is the row the message is built from) though it is sent after the handler's
  other statements.
\<close>

definition end_call ::
  "string \<Rightarrow> (call_status \<Rightarrow> bool) \<Rightarrow> call_status \<Rightarrow> end_reason \<Rightarrow> int \<Rightarrow> string option \<Rightarrow> (call_db \<Rightarrow> call_view option)
   \<Rightarrow> bool \<Rightarrow> call_db \<Rightarrow> bool \<times> call_db" where
  "end_call i from status why endedAt endedBy shown suppress db =
     (let hit = (\<lambda>c. ca_id c = i \<and> from (ca_status c)) in
      if count_where hit (calls db) = 0 then (False, db)
      else
        let db1 = set_call hit (\<lambda>c. c\<lparr>ca_status := status, ca_endReason := Some why, ca_endedAt := Some endedAt,
                    ca_endedByID := (case endedBy of None \<Rightarrow> ca_endedByID c | Some u \<Rightarrow> Some u)\<rparr>) db
        in (True, (case shown db1 of
                     None \<Rightarrow> db1
                   | Some v \<Rightarrow> db1\<lparr>endings := endings db1 @ [\<lparr>en_view = v, en_reason = why, en_endedAt = endedAt,
                                 en_suppressOfflinePush = suppress\<rparr>]\<rparr>)))"

definition mark_missed :: "string \<Rightarrow> int \<Rightarrow> call_db \<Rightarrow> call_db" where
  "mark_missed i t = set_parts (\<lambda>p. cp_callID p = i \<and> cp_status p = INVITED)
     (\<lambda>p. p\<lparr>cp_status := P_MISSED, cp_missedAt := Some t\<rparr>)"

definition mark_left :: "string \<Rightarrow> int \<Rightarrow> call_db \<Rightarrow> call_db" where
  "mark_left i t = set_parts (\<lambda>p. cp_callID p = i \<and> cp_status p = JOINED)
     (\<lambda>p. p\<lparr>cp_status := LEFT, cp_leftAt := Some t\<rparr>)"

text \<open>
  The two calls of \<open>livekit.service.ts\<close>. Making a room succeeds, fails, or times out although the server
  makes the room in the end. Deleting one swallows every failure and every timeout: the room stays and a warning is logged.
\<close>

datatype room_outcome = RoomMade | RoomFailed | RoomLate

definition createRoom :: "string \<Rightarrow> call_db \<Rightarrow> call_db" where
  "createRoom r db = db\<lparr>rooms := r # rooms db\<rparr>"

definition deleteRoom :: "string \<Rightarrow> call_db \<Rightarrow> call_db" where
  "deleteRoom r db =
     (if r = '''' then db
      else if r \<in> set (stuck db) then db\<lparr>warned := warned db @ [r]\<rparr>
      else db\<lparr>rooms := filter (\<lambda>x. x \<noteq> r) (rooms db)\<rparr>)"

section \<open>Ends nobody asked for\<close>

definition expireRingingCallAsMissed ::
  "(nat \<Rightarrow> call_db \<Rightarrow> call_db) \<Rightarrow> int \<Rightarrow> bool \<Rightarrow> call_view \<Rightarrow> call_db \<Rightarrow> call_db" where
  "expireRingingCallAsMissed others now suppress v db =
     (let i = ca_id (vw_call v);
          (won, db1) = end_call i (\<lambda>s. s = C_RINGING) C_MISSED NO_ANSWER now None (\<lambda>_. Some v) suppress db
      in if \<not> won then db1
         else let db2 = mark_missed i now (others 0 db1)
              in deleteRoom (ca_livekitRoomName (vw_call v)) (others 1 db2))"

definition failRingingCallAsError ::
  "(nat \<Rightarrow> call_db \<Rightarrow> call_db) \<Rightarrow> int \<Rightarrow> call_view \<Rightarrow> call_db \<Rightarrow> call_db" where
  "failRingingCallAsError others now v db =
     (let (won, db1) = end_call (ca_id (vw_call v)) (\<lambda>s. s = C_RINGING) C_FAILED ERROR now None (\<lambda>_. Some v) False db
      in if \<not> won then db1 else deleteRoom (ca_livekitRoomName (vw_call v)) (others 0 db1))"

definition endLiveKitFinishedCall ::
  "(nat \<Rightarrow> call_db \<Rightarrow> call_db) \<Rightarrow> int \<Rightarrow> call_view \<Rightarrow> call_db \<Rightarrow> call_db" where
  "endLiveKitFinishedCall others now v db =
     (let i = ca_id (vw_call v);
          (won, db1) = end_call i status_live C_ENDED NORMAL now None (\<lambda>_. Some v) False db
      in if \<not> won then db1 else mark_left i now (others 0 db1))"

fun expire_each :: "(nat \<Rightarrow> call_db \<Rightarrow> call_db) \<Rightarrow> int \<Rightarrow> call_view list \<Rightarrow> call_db \<Rightarrow> call_db" where
  "expire_each others now [] db = db"
| "expire_each others now (v # vs) db =
     expire_each (\<lambda>k. others (k + 3)) now vs (others 2 (expireRingingCallAsMissed others now False v db))"

definition stale_ringing :: "int \<Rightarrow> call_row \<Rightarrow> bool" where
  "stale_ringing now c \<longleftrightarrow> ca_status c = C_RINGING \<and> ca_expiresAt c \<le> now"

definition expireStaleRingingCallsForUsers ::
  "(nat \<Rightarrow> call_db \<Rightarrow> call_db) \<Rightarrow> int \<Rightarrow> string list \<Rightarrow> call_db \<Rightarrow> call_db" where
  "expireStaleRingingCallsForUsers others now ids db =
     expire_each others now
       (map (\<lambda>c. view_of c db) (take 20 (filter (\<lambda>c. stale_ringing now c \<and> list_ex (\<lambda>u. user_in_call u c db) ids) (calls db)))) db"

definition sweepExpiredRingingCalls ::
  "(nat \<Rightarrow> call_db \<Rightarrow> call_db) \<Rightarrow> int \<Rightarrow> nat \<Rightarrow> call_db \<Rightarrow> nat \<times> call_db" where
  "sweepExpiredRingingCalls others now limit db =
     (let stale = take limit (filter (stale_ringing now) (calls db))
      in (length stale, expire_each others now (map (\<lambda>c. view_of c db) stale) db))"

datatype webhook_outcome = handled | ignored

definition handleLiveKitWebhook ::
  "(nat \<Rightarrow> call_db \<Rightarrow> call_db) \<Rightarrow> int \<Rightarrow> string \<Rightarrow> string option \<Rightarrow> call_db \<Rightarrow> webhook_outcome \<times> call_db" where
  "handleLiveKitWebhook others now event room db =
     (if event \<noteq> ''room_finished'' then (ignored, db)
      else (case map_option js_trim room of
              None \<Rightarrow> (ignored, db)
            | Some r \<Rightarrow>
                if r = '''' then (ignored, db)
                else (case find_where (\<lambda>c. ca_livekitRoomName c = r) (calls db) of
                        None \<Rightarrow> (ignored, db)
                      | Some c \<Rightarrow> (handled, endLiveKitFinishedCall (\<lambda>k. others (k + 1)) now (view_of c db) (others 0 db)))))"

definition endRingingCallIfNoInviteesRemain ::
  "(nat \<Rightarrow> call_db \<Rightarrow> call_db) \<Rightarrow> int \<Rightarrow> call_view \<Rightarrow> call_db \<Rightarrow> call_db" where
  "endRingingCallIfNoInviteesRemain others now v db =
     (if ca_status (vw_call v) \<noteq> C_RINGING then db
      else if 0 < count_where (\<lambda>p. cp_callID p = ca_id (vw_call v) \<and> cp_status p = INVITED) (parts db) then db
      else expireRingingCallAsMissed (\<lambda>k. others (k + 1)) now True v (others 0 db))"

section \<open>Starting a call\<close>

record start_params =
  sp_initiatorID :: string
  sp_conversationID :: string
  sp_sessionType :: int
  sp_callType :: call_type
  sp_inviteeIDs :: "string list"
  sp_idempotencyKey :: "string option"
  sp_revalidate :: bool

text \<open>What the outside answers during one start: the new id and room, the media server, the database.\<close>

record start_env =
  sv_callId :: string
  sv_room :: room_outcome
  sv_txFails :: bool
  sv_livekitUp :: bool

definition room_name :: "string \<Rightarrow> string" where
  "room_name callId = ''circle_call_'' @ filter (\<lambda>c. c \<noteq> CHR ''-'') callId"

definition new_call_row :: "call_config \<Rightarrow> int \<Rightarrow> start_params \<Rightarrow> start_env \<Rightarrow> call_row" where
  "new_call_row cfg now sp e =
     \<lparr>ca_id = sv_callId e, ca_conversationID = sp_conversationID sp, ca_sessionType = sp_sessionType sp,
      ca_callType = sp_callType sp, ca_status = C_RINGING, ca_livekitRoomName = room_name (sv_callId e),
      ca_initiatorID = sp_initiatorID sp, ca_startedAt = None, ca_endedAt = None,
      ca_expiresAt = now + cf_ringTimeoutSeconds cfg * 1000, ca_endedByID = None, ca_endReason = None,
      ca_idempotencyKey = (case sp_idempotencyKey sp of None \<Rightarrow> None | Some k \<Rightarrow> if k = '''' then None else Some k),
      ca_createdAt = now\<rparr>"

definition new_participant :: "int \<Rightarrow> string \<Rightarrow> string \<Rightarrow> string \<Rightarrow> participant" where
  "new_participant now callId initiator u =
     \<lparr>cp_callID = callId, cp_userID = u, cp_status = (if u = initiator then JOINED else INVITED),
      cp_invitedAt = now, cp_joinedAt = (if u = initiator then Some now else None), cp_leftAt = None,
      cp_rejectedAt = None, cp_missedAt = None, cp_lastTokenAt = (if u = initiator then Some now else None)\<rparr>"

text \<open>
  The serializable transaction under the locks of all participants. Its value says whether it
  found the call of a concurrent request with the same key.
\<close>

definition create_tx ::
  "call_config \<Rightarrow> int \<Rightarrow> start_params \<Rightarrow> start_env \<Rightarrow> call_db \<Rightarrow> call_error + ((call_view \<times> bool) \<times> call_db)" where
  "create_tx cfg now sp e db =
     (let ids = sp_initiatorID sp # sp_inviteeIDs sp in
      if sv_txFails e then Inl TransactionFailed
      else case findIdempotentCreateCall (sp_initiatorID sp) (sp_idempotencyKey sp) db of
        Some v \<Rightarrow> Inr ((v, True), db)
      | None \<Rightarrow>
          bind_res (assertNotBusy ids db) (\<lambda>_.
          bind_res (if sp_revalidate sp
                    then assertDirectCallee (sp_initiatorID sp) (hd (sp_inviteeIDs sp)) (world db) else Inr ()) (\<lambda>_.
            let c = new_call_row cfg now sp e;
                db' = db\<lparr>calls := calls db @ [c],
                         parts := parts db @ map (new_participant now (ca_id c) (sp_initiatorID sp)) ids\<rparr>
            in if find_call (ca_id c) db \<noteq> None
                  \<or> find_where (\<lambda>x. ca_livekitRoomName x = ca_livekitRoomName c) (calls db) \<noteq> None \<or> \<not> distinct ids
               then Inl TransactionFailed else Inr ((view_of c db', False), db'))))"

text \<open>
  When the room request times out, the handler fails at once, and the service deletes the room as soon as
  the server has made it; that late deletion is part of the database returned here.
\<close>

definition createCallSession ::
  "(nat \<Rightarrow> call_db \<Rightarrow> call_db) \<Rightarrow> call_config \<Rightarrow> int \<Rightarrow> start_params \<Rightarrow> start_env \<Rightarrow> call_db
   \<Rightarrow> (call_error + (call_view \<times> token_grant)) \<times> call_db" where
  "createCallSession others cfg now sp e db =
     (let ids = sp_initiatorID sp # sp_inviteeIDs sp;
          db1 = others 0 (expireStaleRingingCallsForUsers (\<lambda>k. others (k + 10)) now ids db);
          mint = (\<lambda>v w. map_sum id (\<lambda>g. (v, g)) (mintToken (sv_livekitUp e) now v (sp_initiatorID sp) w))
      in case findIdempotentCreateCall (sp_initiatorID sp) (sp_idempotencyKey sp) db1 of
        Some v \<Rightarrow> (mint v (world (others 1 db1)), others 1 db1)
      | None \<Rightarrow>
          (case assertNotBusy ids (others 1 db1) of
             Inl x \<Rightarrow> (Inl x, others 1 db1)
           | Inr _ \<Rightarrow>
               if sv_room e = RoomFailed then (Inl LivekitUnavailable, others 1 db1)
               else if sv_room e = RoomLate
               then (Inl LivekitUnavailable,
                     deleteRoom (room_name (sv_callId e)) (others 2 (createRoom (room_name (sv_callId e)) (others 1 db1))))
               else
                 let db2 = createRoom (room_name (sv_callId e)) (others 1 db1) in
                 (case create_tx cfg now sp e (others 2 db2) of
                    Inl x \<Rightarrow> (Inl x, deleteRoom (room_name (sv_callId e)) (others 2 db2))
                  | Inr ((v, replayed), db3) \<Rightarrow>
                      if replayed
                      then let db4 = deleteRoom (room_name (sv_callId e)) (others 3 db3)
                           in (mint v (world (others 4 db4)), others 4 db4)
                      else (case mint v (world (others 3 db3)) of
                              Inl x \<Rightarrow> (Inl x, failRingingCallAsError (\<lambda>k. others (k + 5)) now v (others 4 (others 3 db3)))
                            | Inr r \<Rightarrow> (Inr r, others 3 db3)))))"

definition assertCallTypeEnabled :: "call_config \<Rightarrow> call_type \<Rightarrow> call_error + unit" where
  "assertCallTypeEnabled cfg t = (if t = VIDEO \<and> \<not> cf_enableVideo cfg then Inl VideoDisabled else Inr ())"

definition assertParticipantLimit :: "call_config \<Rightarrow> nat \<Rightarrow> call_error + unit" where
  "assertParticipantLimit cfg n = (if cf_maxParticipants cfg < n then Inl ParticipantLimit else Inr ())"

definition normalizeID :: "string \<Rightarrow> call_error \<Rightarrow> call_error + string" where
  "normalizeID v e = (if js_trim v = '''' then Inl e else Inr (js_trim v))"

text \<open>The checks before a group call: the invitees who may be rung.\<close>

definition group_call_params ::
  "call_config \<Rightarrow> int \<Rightarrow> string \<Rightarrow> string \<Rightarrow> string list \<Rightarrow> call_type \<Rightarrow> string option \<Rightarrow> call_world
   \<Rightarrow> call_error + start_params" where
  "group_call_params cfg now initiator conv invitees t key w =
     bind_res (normalizeID conv GroupNotFound) (\<lambda>c.
       let ids = filter (\<lambda>u. u \<noteq> initiator) (uniqueIDs invitees) in
       if ids = [] then Inl InviteesRequired
       else
         bind_res (assertCallTypeEnabled cfg t) (\<lambda>_.
         bind_res (assertParticipantLimit cfg (length ids + 1)) (\<lambda>_.
         bind_res (assertGroupMembers now c (initiator # ids) initiator w) (\<lambda>_.
           let callable = filterCallableInvitees initiator ids w in
           if callable = [] then Inl InviteesRequired
           else bind_res (loadActiveUsers (initiator # callable) w) (\<lambda>_.
             Inr \<lparr>sp_initiatorID = initiator, sp_conversationID = c, sp_sessionType = GROUP_SESSION_TYPE,
                  sp_callType = t, sp_inviteeIDs = callable, sp_idempotencyKey = key, sp_revalidate = False\<rparr>)))))"

definition direct_call_params ::
  "call_config \<Rightarrow> string \<Rightarrow> string \<Rightarrow> call_type \<Rightarrow> string option \<Rightarrow> call_world \<Rightarrow> call_error + start_params" where
  "direct_call_params cfg initiator callee t key w =
     bind_res (normalizeID callee NotFriend) (\<lambda>k.
       if k = initiator then Inl InviteeInvalid
       else
         bind_res (assertCallTypeEnabled cfg t) (\<lambda>_.
         bind_res (assertDirectCallee initiator k w) (\<lambda>_.
         bind_res (loadActiveUsers [initiator, k] w) (\<lambda>_.
           Inr \<lparr>sp_initiatorID = initiator,
                sp_conversationID = ''direct:'' @ (if initiator < k then initiator @ '':'' @ k else k @ '':'' @ initiator),
                sp_sessionType = SINGLE_SESSION_TYPE, sp_callType = t, sp_inviteeIDs = [k],
                sp_idempotencyKey = key, sp_revalidate = True\<rparr>))))"

definition createGroupCall where
  "createGroupCall others cfg now initiator conv invitees t key e db =
     (case group_call_params cfg now initiator conv invitees t key (world db) of
        Inl x \<Rightarrow> (Inl x, db)
      | Inr sp \<Rightarrow> createCallSession (\<lambda>k. others (k + 1)) cfg now sp e (others 0 db))"

definition createDirectCall where
  "createDirectCall others cfg now initiator callee t key e db =
     (case direct_call_params cfg initiator callee t key (world db) of
        Inl x \<Rightarrow> (Inl x, db)
      | Inr sp \<Rightarrow> createCallSession (\<lambda>k. others (k + 1)) cfg now sp e (others 0 db))"

section \<open>Answering\<close>

text \<open>The transaction of an accept; its value says whether another request of the user had joined.\<close>

definition accept_tx :: "int \<Rightarrow> string \<Rightarrow> call_view \<Rightarrow> call_db \<Rightarrow> call_error + (bool \<times> call_db)" where
  "accept_tx now u v db =
     (let i = ca_id (vw_call v) in
      bind_res (if ca_sessionType (vw_call v) = SINGLE_SESSION_TYPE \<and> ca_initiatorID (vw_call v) \<noteq> ''''
                then assertDirectCallee (ca_initiatorID (vw_call v)) u (world db) else Inr ()) (\<lambda>_.
        let invited = (\<lambda>p. cp_callID p = i \<and> cp_userID p = u \<and> cp_status p = INVITED);
            won = 0 < count_where invited (parts db);
            db1 = set_parts invited (\<lambda>p. p\<lparr>cp_status := JOINED, cp_joinedAt := Some now, cp_lastTokenAt := Some now\<rparr>) db
        in if \<not> won \<and> map_option cp_status (find_part i u db) \<noteq> Some JOINED then Inl Ended
           else
             let ringing = (\<lambda>c. ca_id c = i \<and> ca_status c = C_RINGING) in
             if 0 < count_where ringing (calls db1)
             then Inr (\<not> won, set_call ringing (\<lambda>c. c\<lparr>ca_status := C_ACTIVE, ca_startedAt := Some now\<rparr>) db1)
             else if map_option ca_status (find_call i db1) \<noteq> Some C_ACTIVE then Inl Ended
             else Inr (\<not> won, db1)))"

definition joinInvitedCall ::
  "(nat \<Rightarrow> call_db \<Rightarrow> call_db) \<Rightarrow> bool \<Rightarrow> int \<Rightarrow> string \<Rightarrow> call_view \<Rightarrow> call_db
   \<Rightarrow> (call_error + token_grant) \<times> call_db" where
  "joinInvitedCall others livekitUp now u v db =
     (if \<not> status_live (ca_status (vw_call v)) then (Inl Ended, db)
      else if ca_expiresAt (vw_call v) < now then (Inl Expired, expireRingingCallAsMissed others now False v db)
      else
        (case assertCurrentCallAccess now v u (world db) of
           Inl x \<Rightarrow> (Inl x, db)
         | Inr _ \<Rightarrow>
             (case accept_tx now u v (others 0 db) of
                Inl x \<Rightarrow> (Inl x, others 0 db)
              | Inr (_, db1) \<Rightarrow> (mintToken livekitUp now v u (world (others 1 db1)), others 1 db1))))"

definition acceptCall ::
  "(nat \<Rightarrow> call_db \<Rightarrow> call_db) \<Rightarrow> bool \<Rightarrow> int \<Rightarrow> string \<Rightarrow> string \<Rightarrow> call_db \<Rightarrow> (call_error + token_grant) \<times> call_db" where
  "acceptCall others livekitUp now u i db =
     (case findParticipantForUser i u db of
        Inl x \<Rightarrow> (Inl x, db)
      | Inr (p, v) \<Rightarrow>
          if cp_status p = JOINED
          then if \<not> status_live (ca_status (vw_call v)) then (Inl Ended, db)
               else (mintToken livekitUp now v u (world (others 0 db)), others 0 db)
          else if cp_status p \<noteq> INVITED then (Inl NotInvited, db)
          else joinInvitedCall (\<lambda>k. others (k + 1)) livekitUp now u v (others 0 db))"

definition rejectCall ::
  "(nat \<Rightarrow> call_db \<Rightarrow> call_db) \<Rightarrow> int \<Rightarrow> string \<Rightarrow> string \<Rightarrow> call_db \<Rightarrow> (call_error + call_view) \<times> call_db" where
  "rejectCall others now u i db =
     (case findParticipantForUser i u db of
        Inl x \<Rightarrow> (Inl x, db)
      | Inr (p, v) \<Rightarrow>
          if cp_status p = P_REJECTED then (Inr v, db)
          else if cp_status p \<noteq> INVITED then (Inl NotInvited, db)
          else
            let db1 = others 0 db;
                invited = (\<lambda>p. cp_callID p = i \<and> cp_userID p = u \<and> cp_status p = INVITED);
                reload = (\<lambda>d. case load_call i d of Some w \<Rightarrow> w | None \<Rightarrow> v)
            in if count_where invited (parts db1) = 0
               then (if map_option cp_status (find_part i u (others 1 db1)) = Some P_REJECTED
                     then (Inr (reload (others 1 db1)), others 1 db1) else (Inl NotInvited, others 1 db1))
               else
                 let db2 = set_parts invited (\<lambda>p. p\<lparr>cp_status := P_REJECTED, cp_rejectedAt := Some now\<rparr>) db1;
                     db3 = others 1 db2
                 in if find_part i u db3 = None then (Inl NotInvited, db3)
                    else let db4 = others 2 (endRingingCallIfNoInviteesRemain (\<lambda>k. others (k + 3)) now v db3)
                         in (Inr (reload db4), db4))"

text \<open>A decline from a push succeeds whatever has become of the call.\<close>

definition declineFromPush where
  "declineFromPush others now u i db =
     (case rejectCall others now u i db of
        (Inl e, db') \<Rightarrow> (if e = NotFound \<or> e = NotInvited then Inr () else Inl e, db')
      | (Inr _, db') \<Rightarrow> (Inr (), db'))"

section \<open>Hanging up\<close>

definition endSingleCallOnFirstLeave ::
  "(nat \<Rightarrow> call_db \<Rightarrow> call_db) \<Rightarrow> int \<Rightarrow> string \<Rightarrow> call_view \<Rightarrow> call_db \<Rightarrow> call_db" where
  "endSingleCallOnFirstLeave others now u v db =
     (let i = ca_id (vw_call v);
          (won, db1) = end_call i (\<lambda>s. s = C_ACTIVE) C_ENDED ALL_LEFT now (Some u) (\<lambda>_. Some v) False db
      in if \<not> won then db1
         else deleteRoom (ca_livekitRoomName (vw_call v)) (others 1 (mark_left i now (others 0 db1))))"

definition leaveCall ::
  "(nat \<Rightarrow> call_db \<Rightarrow> call_db) \<Rightarrow> int \<Rightarrow> string \<Rightarrow> string \<Rightarrow> call_db \<Rightarrow> (call_error + unit) \<times> call_db" where
  "leaveCall others now u i db =
     (case findParticipantForUser i u db of
        Inl x \<Rightarrow> (Inl x, db)
      | Inr (p, v) \<Rightarrow>
          if cp_status p \<noteq> JOINED then (Inr (), db)
          else
            let db1 = set_parts (\<lambda>p. cp_callID p = i \<and> cp_userID p = u)
                        (\<lambda>p. p\<lparr>cp_status := LEFT, cp_leftAt := Some now\<rparr>) (others 0 db);
                db2 = others 1 db1
            in if ca_sessionType (vw_call v) = SINGLE_SESSION_TYPE \<and> ca_status (vw_call v) = C_ACTIVE
               then (Inr (), endSingleCallOnFirstLeave (\<lambda>k. others (k + 2)) now u v db2)
               else if 0 < count_where (\<lambda>p. cp_callID p = i \<and> cp_status p = JOINED) (parts db2) then (Inr (), db2)
               else
                 let (won, db3) = end_call i status_live C_ENDED ALL_LEFT now (Some u) (load_call i) False (others 2 db2)
                 in (Inr (), if \<not> won then db3 else deleteRoom (ca_livekitRoomName (vw_call v)) (others 3 db3)))"

definition cancelCall ::
  "(nat \<Rightarrow> call_db \<Rightarrow> call_db) \<Rightarrow> int \<Rightarrow> string \<Rightarrow> string \<Rightarrow> call_db \<Rightarrow> (call_error + call_view) \<times> call_db" where
  "cancelCall others now u i db =
     (case load_call i db of
        None \<Rightarrow> (Inl NotFound, db)
      | Some v \<Rightarrow>
          if ca_initiatorID (vw_call v) \<noteq> u then (Inl NotAllowed, db)
          else if ca_status (vw_call v) = C_CANCELED then (Inr v, db)
          else if ca_status (vw_call v) \<noteq> C_RINGING then (Inl AlreadyActive, db)
          else
            let (won, db1) = end_call i (\<lambda>s. s = C_RINGING) C_CANCELED CANCELED now (Some u) (load_call i) False (others 0 db)
            in if \<not> won
               then (case load_call i (others 1 db1) of
                       Some w \<Rightarrow> (if ca_status (vw_call w) = C_CANCELED then Inr w else Inl AlreadyActive, others 1 db1)
                     | None \<Rightarrow> (Inl AlreadyActive, others 1 db1))
               else
                 let db2 = others 2 (mark_missed i now (others 1 db1));
                     shown = (case load_call i db2 of Some w \<Rightarrow> w | None \<Rightarrow> v)
                 in (Inr shown, deleteRoom (ca_livekitRoomName (vw_call v)) (others 3 db2)))"

definition createJoinToken ::
  "(nat \<Rightarrow> call_db \<Rightarrow> call_db) \<Rightarrow> bool \<Rightarrow> int \<Rightarrow> string \<Rightarrow> string \<Rightarrow> call_db \<Rightarrow> (call_error + token_grant) \<times> call_db" where
  "createJoinToken others livekitUp now u i db =
     (case findParticipantForUser i u db of
        Inl x \<Rightarrow> (Inl x, db)
      | Inr (p, v) \<Rightarrow>
          if \<not> status_live (ca_status (vw_call v)) then (Inl Ended, db)
          else if ca_status (vw_call v) = C_RINGING \<and> ca_expiresAt (vw_call v) < now
          then (Inl Expired, expireRingingCallAsMissed (\<lambda>k. others (k + 1)) now False v (others 0 db))
          else if cp_status p \<noteq> JOINED then (Inl NotAccepted, db)
          else
            let db1 = set_parts (\<lambda>p. cp_callID p = i \<and> cp_userID p = u) (\<lambda>p. p\<lparr>cp_lastTokenAt := Some now\<rparr>) (others 0 db);
                db2 = others 1 db1
            in (mintToken livekitUp now v u (world db2), db2))"

end
