(* ===== verification/CallProofs.thy ===== *)
theory CallProofs
  imports Call
begin

text \<open>
  What the call handlers guarantee under any interleaving: the life of a call and of a participant
  as step relations, the invariant of the tables, and that every statement and so every
  handler keeps it.
\<close>

section \<open>The life of a call\<close>

inductive call_step :: "call_status \<Rightarrow> call_status \<Rightarrow> bool" where
  answer: "call_step C_RINGING C_ACTIVE"
| cancel: "call_step C_RINGING C_CANCELED"
| miss: "call_step C_RINGING C_MISSED"
| break_off: "call_step C_RINGING C_FAILED"
| finish: "status_live s \<Longrightarrow> call_step s C_ENDED"

inductive part_step :: "participant_status \<Rightarrow> participant_status \<Rightarrow> bool" where
  join: "part_step INVITED JOINED"
| decline: "part_step INVITED P_REJECTED"
| time_out: "part_step INVITED P_MISSED"
| leave: "part_step JOINED LEFT"

inductive_cases call_stepE: "call_step s s'"
inductive_cases part_stepE: "part_step s s'"

inductive_simps call_step_terminal:
  "call_step C_ENDED s" "call_step C_CANCELED s" "call_step C_MISSED s" "call_step C_FAILED s" "call_step C_ACTIVE s"

inductive_simps part_step_from: "part_step JOINED s" "part_step LEFT s" "part_step INVITED s"

abbreviation call_steps :: "call_status \<Rightarrow> call_status \<Rightarrow> bool" where "call_steps \<equiv> call_step\<^sup>*\<^sup>*"

abbreviation part_steps :: "participant_status \<Rightarrow> participant_status \<Rightarrow> bool" where "part_steps \<equiv> part_step\<^sup>*\<^sup>*"

lemma call_steps_active: "call_steps s t \<Longrightarrow> s = C_ACTIVE \<or> s = C_ENDED \<Longrightarrow> t = C_ACTIVE \<or> t = C_ENDED"
  by (induction rule: rtranclp_induct) (auto simp: call_step_terminal)

lemma part_steps_joined: "part_steps s t \<Longrightarrow> s = JOINED \<or> s = LEFT \<Longrightarrow> t = JOINED \<or> t = LEFT"
  by (induction rule: rtranclp_induct) (auto simp: part_step_from)

section \<open>The invariant\<close>

definition cp_key :: "participant \<Rightarrow> string \<times> string" where
  "cp_key p = (cp_callID p, cp_userID p)"

definition ending_of :: "string \<Rightarrow> call_db \<Rightarrow> call_ending list" where
  "ending_of i db = filter (\<lambda>e. ca_id (vw_call (en_view e)) = i) (endings db)"

text \<open>An ended call has its reason and owes exactly one record with that reason; a live one has none.\<close>

definition call_ok :: "call_row \<Rightarrow> call_db \<Rightarrow> bool" where
  "call_ok c db \<longleftrightarrow> map en_reason (ending_of (ca_id c) db) = (case ca_endReason c of None \<Rightarrow> [] | Some r \<Rightarrow> [r])
     \<and> (ca_endReason c = None \<longleftrightarrow> status_live (ca_status c))"

definition one_call_each :: "call_db \<Rightarrow> bool" where
  "one_call_each db \<longleftrightarrow> (\<forall>u. \<forall>c \<in> set (calls db). \<forall>c' \<in> set (calls db).
     status_live (ca_status c) \<and> status_live (ca_status c') \<and> user_in_call u c db \<and> user_in_call u c' db \<longrightarrow> ca_id c = ca_id c')"

definition known_ids :: "call_db \<Rightarrow> bool" where
  "known_ids db \<longleftrightarrow> (\<forall>p \<in> set (parts db). cp_callID p \<in> ca_id ` set (calls db))
     \<and> (\<forall>e \<in> set (endings db). ca_id (vw_call (en_view e)) \<in> ca_id ` set (calls db))"

definition call_inv :: "call_db \<Rightarrow> bool" where
  "call_inv db \<longleftrightarrow> distinct (map ca_id (calls db)) \<and> distinct (map cp_key (parts db))
     \<and> one_call_each db \<and> (\<forall>c \<in> set (calls db). call_ok c db) \<and> known_ids db"

definition call_static :: "call_row \<Rightarrow> string \<times> string \<times> int \<times> call_type \<times> string \<times> string \<times> int \<times> string option" where
  "call_static c = (ca_id c, ca_conversationID c, ca_sessionType c, ca_callType c, ca_livekitRoomName c,
     ca_initiatorID c, ca_expiresAt c, ca_idempotencyKey c)"

definition calls_advance :: "call_db \<Rightarrow> call_db \<Rightarrow> bool" where
  "calls_advance db db' \<longleftrightarrow> (\<forall>c \<in> set (calls db). \<exists>c' \<in> set (calls db'). call_static c' = call_static c
     \<and> call_steps (ca_status c) (ca_status c') \<and> (\<not> status_live (ca_status c) \<longrightarrow> c' = c))"

definition parts_advance :: "call_db \<Rightarrow> call_db \<Rightarrow> bool" where
  "parts_advance db db' \<longleftrightarrow> (\<forall>p \<in> set (parts db). \<exists>p' \<in> set (parts db'). cp_key p' = cp_key p
     \<and> part_steps (cp_status p) (cp_status p'))"

text \<open>The database moves on: the invariant holds, and every row only takes steps of its life.\<close>

definition evolves :: "call_db \<Rightarrow> call_db \<Rightarrow> bool" where
  "evolves db db' \<longleftrightarrow> call_inv db' \<and> calls_advance db db' \<and> parts_advance db db'"

abbreviation rely :: "(nat \<Rightarrow> call_db \<Rightarrow> call_db) \<Rightarrow> bool" where
  "rely \<equiv> relies evolves call_inv"

lemma evolves_refl: "call_inv db \<Longrightarrow> evolves db db"
  by (auto simp: evolves_def calls_advance_def parts_advance_def)

lemma calls_advance_trans:
  assumes "calls_advance a b" "calls_advance b c"
  shows "calls_advance a c"
  unfolding calls_advance_def
proof
  fix x assume "x \<in> set (calls a)"
  then obtain y where y: "y \<in> set (calls b)" "call_static y = call_static x" "call_steps (ca_status x) (ca_status y)"
    "\<not> status_live (ca_status x) \<longrightarrow> y = x" using assms(1) by (auto simp: calls_advance_def)
  then obtain z where "z \<in> set (calls c)" "call_static z = call_static y" "call_steps (ca_status y) (ca_status z)"
    "\<not> status_live (ca_status y) \<longrightarrow> z = y" using assms(2) unfolding calls_advance_def by blast
  with y show "\<exists>z \<in> set (calls c). call_static z = call_static x \<and> call_steps (ca_status x) (ca_status z)
      \<and> (\<not> status_live (ca_status x) \<longrightarrow> z = x)"
    by (intro bexI [of _ z]) (auto intro: rtranclp_trans)
qed

lemma parts_advance_trans:
  assumes "parts_advance a b" "parts_advance b c"
  shows "parts_advance a c"
  unfolding parts_advance_def
proof
  fix x assume "x \<in> set (parts a)"
  then obtain y where y: "y \<in> set (parts b)" "cp_key y = cp_key x" "part_steps (cp_status x) (cp_status y)"
    using assms(1) by (auto simp: parts_advance_def)
  then obtain z where "z \<in> set (parts c)" "cp_key z = cp_key y" "part_steps (cp_status y) (cp_status z)"
    using assms(2) unfolding parts_advance_def by blast
  with y show "\<exists>z \<in> set (parts c). cp_key z = cp_key x \<and> part_steps (cp_status x) (cp_status z)"
    by (intro bexI [of _ z]) (auto intro: rtranclp_trans)
qed

lemma evolves_inv: "evolves a b \<Longrightarrow> call_inv b" by (simp add: evolves_def)

lemma evolves_trans: "evolves a b \<Longrightarrow> evolves b c \<Longrightarrow> evolves a c"
  by (auto simp: evolves_def intro: calls_advance_trans parts_advance_trans)

interpretation call_run: interleaved evolves call_inv
  by unfold_locales (auto intro: evolves_refl evolves_trans dest: evolves_inv)

lemmas evolves_then = call_run.evol_then
lemmas rely_step = call_run.rely_step
lemmas rely_first = call_run.rely_first
lemmas rely_shift = relies_shift [of evolves call_inv]
lemmas rely_Suc = relies_Suc [of evolves call_inv]

section \<open>Statements\<close>

lemma user_in_call_alt:
  "user_in_call u c db \<longleftrightarrow> (\<exists>p \<in> set (parts db). cp_callID p = ca_id c \<and> cp_userID p = u \<and> part_busy p)"
  by (simp add: user_in_call_def list_ex_iff)

text \<open>Participants change; calls and endings stay.\<close>

lemma evolves_parts:
  assumes "call_inv db" "\<And>p. p \<in> set (parts db) \<Longrightarrow> hit p \<Longrightarrow>
      cp_key (f p) = cp_key p \<and> part_steps (cp_status p) (cp_status (f p)) \<and> (part_busy (f p) \<longrightarrow> part_busy p)"
  shows "evolves db (set_parts hit f db)"
proof -
  define g where "g = (\<lambda>p. if hit p then f p else p)"
  define db' where "db' = set_parts hit f db"
  have same: "calls db' = calls db" "endings db' = endings db" "parts db' = map g (parts db)"
    by (simp_all add: db'_def set_parts_def update_where_def g_def)
  have g: "cp_key (g p) = cp_key p" "part_steps (cp_status p) (cp_status (g p))" "part_busy (g p) \<Longrightarrow> part_busy p"
    if "p \<in> set (parts db)" for p using assms(2) [OF that] by (auto simp: g_def split: if_splits)
  have keys: "map cp_key (parts db') = map cp_key (parts db)" using g(1) by (simp add: same)
  have ucall: "user_in_call u c db" if "user_in_call u c db'" for u c
    using that g(1,3) unfolding user_in_call_alt same cp_key_def by fastforce
  have "known_ids db'" using assms(1) g(1) by (auto simp: call_inv_def known_ids_def same cp_key_def)
  moreover have "one_call_each db'"
    using assms(1) ucall unfolding call_inv_def one_call_each_def same by blast
  moreover have "call_ok c db' = call_ok c db" for c by (simp add: call_ok_def ending_of_def same)
  ultimately have "call_inv db'" using assms(1) unfolding call_inv_def keys by (simp add: same(1))
  moreover have "calls_advance db db'" by (auto simp: calls_advance_def same)
  moreover have "parts_advance db db'" using g by (auto simp: parts_advance_def same)
  ultimately show ?thesis by (simp add: evolves_def db'_def)
qed

text \<open>Nothing but rooms and the outside world change.\<close>

lemma evolves_rooms:
  assumes "call_inv db" "calls db' = calls db" "parts db' = parts db" "endings db' = endings db"
  shows "evolves db db'"
  using assms by (auto simp: evolves_def calls_advance_def parts_advance_def call_inv_def one_call_each_def
      call_ok_def ending_of_def known_ids_def user_in_call_def)

lemma evolves_deleteRoom: "call_inv db \<Longrightarrow> evolves db (deleteRoom r db)"
  by (rule evolves_rooms) (simp_all add: deleteRoom_def)

lemma evolves_createRoom: "call_inv db \<Longrightarrow> evolves db (createRoom r db)"
  by (rule evolves_rooms) (simp_all add: createRoom_def)

lemma evolves_mark_missed: "call_inv db \<Longrightarrow> evolves db (mark_missed i t db)"
  unfolding mark_missed_def by (rule evolves_parts) (auto simp: cp_key_def part_busy_def intro: part_step.intros)

lemma evolves_mark_left: "call_inv db \<Longrightarrow> evolves db (mark_left i t db)"
  unfolding mark_left_def by (rule evolves_parts) (auto simp: cp_key_def part_busy_def intro: part_step.intros)

text \<open>One call's row changes; \<open>es\<close> are the endings it adds.\<close>

lemma evolves_call:
  assumes "call_inv db" "c0 \<in> set (calls db)" "hit c0" "\<And>c. c \<in> set (calls db) \<Longrightarrow> hit c \<Longrightarrow> ca_id c = ca_id c0"
    "call_static (f c0) = call_static c0" "status_live (ca_status c0)" "call_step (ca_status c0) (ca_status (f c0))"
    "calls db' = update_where hit f (calls db)" "parts db' = parts db" "endings db' = endings db @ es"
    "\<And>e. e \<in> set es \<Longrightarrow> ca_id (vw_call (en_view e)) = ca_id c0"
    "map en_reason es = (case ca_endReason (f c0) of None \<Rightarrow> [] | Some r \<Rightarrow> [r])"
    "ca_endReason (f c0) = None \<longleftrightarrow> status_live (ca_status (f c0))"
  shows "evolves db db'"
proof -
  define g where "g = (\<lambda>c. if c = c0 then f c0 else c)"
  have only: "hit c \<longleftrightarrow> c = c0" if "c \<in> set (calls db)" for c
  proof
    assume "hit c"
    moreover have "distinct (map ca_id (calls db))" using assms(1) by (simp add: call_inv_def)
    ultimately show "c = c0" using distinct_map_eq [OF _ that assms(2)] assms(4) [OF that] by blast
  qed (simp add: assms(3))
  have calls': "calls db' = map g (calls db)"
    using only by (auto simp: assms(8) update_where_def g_def)
  have st: "call_static (g c) = call_static c" for c using assms(5) by (simp add: g_def)
  then have id: "ca_id (g c) = ca_id c" for c by (auto simp: call_static_def)
  have ids: "map ca_id (calls db') = map ca_id (calls db)" by (simp add: calls' id)
  have live: "status_live (ca_status c)" if "status_live (ca_status (g c))" for c
    using that assms(6) by (auto simp: g_def split: if_splits)
  have uic: "user_in_call u (g c) db' = user_in_call u c db" for u c
    by (simp add: user_in_call_def id assms(9))
  have one: "one_call_each db'"
    unfolding one_call_each_def
  proof (intro allI ballI impI)
    fix u c c' assume "c \<in> set (calls db')" "c' \<in> set (calls db')"
      and b: "status_live (ca_status c) \<and> status_live (ca_status c') \<and> user_in_call u c db' \<and> user_in_call u c' db'"
    then obtain x x' where x: "x \<in> set (calls db)" "c = g x" "x' \<in> set (calls db)" "c' = g x'" by (auto simp: calls')
    then have "ca_id x = ca_id x'"
      using assms(1) b live [of x] live [of x'] by (auto simp: call_inv_def one_call_each_def uic)
    then show "ca_id c = ca_id c'" by (simp add: x id)
  qed
  have ok: "call_ok (g c) db'" if c: "c \<in> set (calls db)" for c
  proof (cases "c = c0")
    case True
    have "ending_of (ca_id c0) db = []"
      using assms(1,2,6) by (auto simp: call_inv_def call_ok_def split: option.splits)
    then have "ending_of (ca_id c0) db' = es" using assms(11) by (simp add: ending_of_def assms(10))
    with True assms(12,13) id [of c0] show ?thesis by (simp add: call_ok_def g_def)
  next
    case False
    have "ca_id c \<noteq> ca_id c0"
    proof
      assume "ca_id c = ca_id c0"
      moreover have "distinct (map ca_id (calls db))" using assms(1) by (simp add: call_inv_def)
      ultimately show False using False distinct_map_eq [OF _ c assms(2)] by blast
    qed
    then have "filter (\<lambda>e. ca_id (vw_call (en_view e)) = ca_id c) es = []" using assms(11) by (auto simp: filter_empty_conv)
    then have "ending_of (ca_id c) db' = ending_of (ca_id c) db" by (simp add: ending_of_def assms(10))
    moreover have "call_ok c db" using assms(1) c by (simp add: call_inv_def)
    ultimately show ?thesis using False by (simp add: call_ok_def g_def)
  qed
  have idset: "ca_id ` set (calls db') = ca_id ` set (calls db)" using arg_cong [OF ids, of set] by simp
  have "known_ids db'"
    using assms(1,2,11) by (auto simp: call_inv_def known_ids_def idset assms(9,10))
  then have "call_inv db'"
    using assms(1) one ok unfolding call_inv_def ids assms(9) by (auto simp: calls')
  moreover have "calls_advance db db'"
    unfolding calls_advance_def calls'
  proof
    fix c assume "c \<in> set (calls db)"
    then show "\<exists>c' \<in> set (map g (calls db)). call_static c' = call_static c \<and> call_steps (ca_status c) (ca_status c')
        \<and> (\<not> status_live (ca_status c) \<longrightarrow> c' = c)"
      using assms(6,7) by (intro bexI [of _ "g c"]) (auto simp: st, auto simp: g_def)
  qed
  moreover have "parts_advance db db'" by (auto simp: parts_advance_def assms(9))
  ultimately show ?thesis by (simp add: evolves_def)
qed

lemma find_call_mem: "find_call i db = Some c \<Longrightarrow> c \<in> set (calls db) \<and> ca_id c = i"
  by (auto simp: find_call_def dest: find_where_SomeD)

lemma load_call_id: "load_call i db = Some v \<Longrightarrow> ca_id (vw_call v) = i"
  by (auto simp: load_call_def view_of_def dest: find_call_mem)

text \<open>The statuses a call can be ended from and to.\<close>

definition ends_to :: "(call_status \<Rightarrow> bool) \<Rightarrow> call_status \<Rightarrow> bool" where
  "ends_to from to \<longleftrightarrow> \<not> status_live to \<and> (\<forall>s. from s \<longrightarrow> status_live s \<and> call_step s to)"

lemma ends_to_cases [simp]:
  "ends_to (\<lambda>s. s = C_RINGING) C_MISSED" "ends_to (\<lambda>s. s = C_RINGING) C_FAILED"
  "ends_to (\<lambda>s. s = C_RINGING) C_CANCELED" "ends_to (\<lambda>s. s = C_ACTIVE) C_ENDED" "ends_to status_live C_ENDED"
  by (auto simp: ends_to_def status_live_def intro: call_step.intros finish simp: status_live_def)

lemma evolves_end_call:
  assumes "call_inv db" "ends_to from to" "\<And>d. ca_id ` set (calls d) = ca_id ` set (calls db) \<Longrightarrow> i \<in> ca_id ` set (calls d) \<Longrightarrow>
      \<exists>v. shown d = Some v \<and> ca_id (vw_call v) = i"
    "end_call i from to why t by_whom shown quiet db = (won, db')"
  shows "evolves db db'"
proof (cases "won")
  case False
  then have "db' = db" using assms(4) by (auto simp: end_call_def Let_def split: if_splits)
  then show ?thesis using assms(1) by (simp add: evolves_refl)
next
  case True
  define hit where "hit = (\<lambda>c :: call_row. ca_id c = i \<and> from (ca_status c))"
  define f where "f = (\<lambda>c :: call_row. c\<lparr>ca_status := to, ca_endReason := Some why, ca_endedAt := Some t,
                    ca_endedByID := (case by_whom of None \<Rightarrow> ca_endedByID c | Some u \<Rightarrow> Some u)\<rparr>)"
  define db1 where "db1 = set_call hit f db"
  have pos: "0 < count_where hit (calls db)"
    using True assms(4) by (auto simp: end_call_def Let_def hit_def split: if_splits)
  then obtain c0 where c0: "c0 \<in> set (calls db)" "ca_id c0 = i" "from (ca_status c0)"
    by (auto simp: count_where_pos_iff hit_def)
  have "map ca_id (calls db1) = map ca_id (calls db)"
    by (simp add: db1_def set_call_def map_update_where f_def)
  from arg_cong [OF this, of set] have "ca_id ` set (calls db1) = ca_id ` set (calls db)" by simp
  then obtain v where v: "shown db1 = Some v" "ca_id (vw_call v) = i"
    using assms(3) [of db1] c0(1,2) by auto
  have db': "db' = db1\<lparr>endings := endings db1 @ [\<lparr>en_view = v, en_reason = why, en_endedAt = t, en_suppressOfflinePush = quiet\<rparr>]\<rparr>"
    using assms(4) pos v(1) by (auto simp: end_call_def Let_def hit_def [symmetric] f_def [symmetric] db1_def [symmetric])
  show ?thesis
  proof (rule evolves_call [OF assms(1) c0(1), where hit = hit and f = f])
    show "hit c0" using c0 by (simp add: hit_def)
    show "ca_id c = ca_id c0" if "c \<in> set (calls db)" "hit c" for c using that c0 by (simp add: hit_def)
    show "call_static (f c0) = call_static c0" by (simp add: f_def call_static_def)
    show "status_live (ca_status c0)" "call_step (ca_status c0) (ca_status (f c0))"
      using assms(2) c0(3) by (auto simp: ends_to_def f_def)
    show "calls db' = update_where hit f (calls db)" "parts db' = parts db"
      by (simp_all add: db' db1_def set_call_def)
    show "endings db' = endings db @ [\<lparr>en_view = v, en_reason = why, en_endedAt = t, en_suppressOfflinePush = quiet\<rparr>]"
      by (simp add: db' db1_def set_call_def)
    show "ca_id (vw_call (en_view e)) = ca_id c0"
      if "e \<in> set [\<lparr>en_view = v, en_reason = why, en_endedAt = t, en_suppressOfflinePush = quiet\<rparr>]" for e
      using that v(2) c0(2) by simp
    show "map en_reason [\<lparr>en_view = v, en_reason = why, en_endedAt = t, en_suppressOfflinePush = quiet\<rparr>] =
        (case ca_endReason (f c0) of None \<Rightarrow> [] | Some r \<Rightarrow> [r])" by (simp add: f_def)
    show "ca_endReason (f c0) = None \<longleftrightarrow> status_live (ca_status (f c0))"
      using assms(2) by (simp add: f_def ends_to_def)
  qed
qed

lemma evolves_end_view:
  "call_inv db \<Longrightarrow> ends_to from to \<Longrightarrow>
   end_call (ca_id (vw_call v)) from to why t by_whom (\<lambda>_. Some v) quiet db = (won, db') \<Longrightarrow> evolves db db'"
  by (rule evolves_end_call) auto

lemma evolves_end_load:
  assumes "call_inv db" "ends_to from to" "end_call i from to why t by_whom (load_call i) quiet db = (won, db')"
  shows "evolves db db'"
proof (rule evolves_end_call [OF assms(1,2) _ assms(3)])
  fix d :: call_db assume "i \<in> ca_id ` set (calls d)"
  then have "find_call i d \<noteq> None" by (auto simp: find_call_def find_where_None_iff)
  then obtain v where "load_call i d = Some v" by (auto simp: load_call_def)
  with load_call_id [OF this] show "\<exists>v. load_call i d = Some v \<and> ca_id (vw_call v) = i" by blast
qed

section \<open>Handlers\<close>

lemma evolves_expire:
  assumes "rely others" "call_inv db"
  shows "evolves db (expireRingingCallAsMissed others now quiet v db)"
proof -
  obtain won db1 where e: "end_call (ca_id (vw_call v)) (\<lambda>s. s = C_RINGING) C_MISSED NO_ANSWER now None (\<lambda>_. Some v) quiet db = (won, db1)"
    by fastforce
  have 1: "evolves db db1" by (rule evolves_end_view [OF assms(2) _ e]) simp
  have 2: "evolves db (others 1 (mark_missed (ca_id (vw_call v)) now (others 0 db1)))"
    by (rule rely_step [OF assms(1) evolves_then [OF rely_step [OF assms(1) 1] evolves_mark_missed]])
  show ?thesis
    using 1 evolves_then [OF 2 evolves_deleteRoom] by (simp add: expireRingingCallAsMissed_def e Let_def)
qed

lemma evolves_fail:
  assumes "rely others" "call_inv db"
  shows "evolves db (failRingingCallAsError others now v db)"
proof -
  obtain won db1 where e: "end_call (ca_id (vw_call v)) (\<lambda>s. s = C_RINGING) C_FAILED ERROR now None (\<lambda>_. Some v) False db = (won, db1)"
    by fastforce
  have 1: "evolves db db1" by (rule evolves_end_view [OF assms(2) _ e]) simp
  show ?thesis
    using 1 evolves_then [OF rely_step [OF assms(1) 1] evolves_deleteRoom] by (simp add: failRingingCallAsError_def e Let_def)
qed

lemma evolves_finish:
  assumes "rely others" "call_inv db"
  shows "evolves db (endLiveKitFinishedCall others now v db)"
proof -
  obtain won db1 where e: "end_call (ca_id (vw_call v)) status_live C_ENDED NORMAL now None (\<lambda>_. Some v) False db = (won, db1)"
    by fastforce
  have 1: "evolves db db1" by (rule evolves_end_view [OF assms(2) _ e]) simp
  show ?thesis
    using 1 evolves_then [OF rely_step [OF assms(1) 1] evolves_mark_left] by (simp add: endLiveKitFinishedCall_def e Let_def)
qed

lemma evolves_expire_each:
  "rely others \<Longrightarrow> call_inv db \<Longrightarrow> evolves db (expire_each others now vs db)"
proof (induction vs arbitrary: others db)
  case (Cons v vs)
  have 1: "evolves db (others 2 (expireRingingCallAsMissed others now False v db))"
    by (rule rely_step [OF Cons.prems(1) evolves_expire [OF Cons.prems]])
  show ?case
    using evolves_then [OF 1 Cons.IH [OF rely_shift [OF Cons.prems(1)]]] by simp
qed (simp add: evolves_refl)

lemma evolves_sweep:
  "rely others \<Longrightarrow> call_inv db \<Longrightarrow> evolves db (snd (sweepExpiredRingingCalls others now limit db))"
  by (simp add: sweepExpiredRingingCalls_def Let_def evolves_expire_each)

lemma evolves_stale:
  "rely others \<Longrightarrow> call_inv db \<Longrightarrow> evolves db (expireStaleRingingCallsForUsers others now ids db)"
  by (simp add: expireStaleRingingCallsForUsers_def evolves_expire_each)

lemma evolves_webhook:
  assumes "rely others" "call_inv db"
  shows "evolves db (snd (handleLiveKitWebhook others now ev room db))"
  using assms evolves_then [OF rely_first [OF assms, of 0] evolves_finish [OF rely_Suc [OF assms(1)]]]
  by (auto simp: handleLiveKitWebhook_def evolves_refl split: option.split)

lemma evolves_no_invitees:
  assumes "rely others" "call_inv db"
  shows "evolves db (endRingingCallIfNoInviteesRemain others now v db)"
  using assms evolves_then [OF rely_first [OF assms, of 0] evolves_expire [OF rely_Suc [OF assms(1)]]]
  by (simp add: endRingingCallIfNoInviteesRemain_def evolves_refl)

lemma evolves_accept_tx:
  assumes "call_inv db" "accept_tx now u v db = Inr (r, db')"
  shows "evolves db db'"
proof -
  define i where "i = ca_id (vw_call v)"
  define invited where "invited = (\<lambda>p :: participant. cp_callID p = i \<and> cp_userID p = u \<and> cp_status p = INVITED)"
  define db1 where "db1 = set_parts invited (\<lambda>p. p\<lparr>cp_status := JOINED, cp_joinedAt := Some now, cp_lastTokenAt := Some now\<rparr>) db"
  define ringing where "ringing = (\<lambda>c :: call_row. ca_id c = i \<and> ca_status c = C_RINGING)"
  define act where "act = (\<lambda>c :: call_row. c\<lparr>ca_status := C_ACTIVE, ca_startedAt := Some now\<rparr>)"
  have 1: "evolves db db1"
    unfolding db1_def by (rule evolves_parts [OF assms(1)])
      (auto simp: invited_def cp_key_def part_busy_def intro: part_step.intros)
  have "db' = db1 \<or> (db' = set_call ringing act db1 \<and> 0 < count_where ringing (calls db1))"
    using assms(2)
    by (auto simp: accept_tx_def Let_def bind_res_Inr_iff i_def [symmetric] invited_def [symmetric] db1_def [symmetric]
        ringing_def [symmetric] act_def [symmetric] split: if_splits)
  then show ?thesis
  proof
    assume "db' = db1" with 1 show ?thesis by simp
  next
    assume r: "db' = set_call ringing act db1 \<and> 0 < count_where ringing (calls db1)"
    then obtain c0 where c0: "c0 \<in> set (calls db1)" "ringing c0" by (auto simp: count_where_pos_iff)
    have inv1: "call_inv db1" by (rule evolves_inv [OF 1])
    have none: "ca_endReason c0 = None"
      using inv1 c0 by (auto simp: call_inv_def call_ok_def ringing_def status_live_def)
    have "evolves db1 db'"
      by (rule evolves_call [where hit = ringing and f = act and es = "[]", OF inv1 c0])
        (use c0 r none in \<open>auto simp: ringing_def act_def call_static_def status_live_def set_call_def intro: call_step.intros\<close>)
    with 1 show ?thesis by (rule evolves_trans)
  qed
qed

lemma inv_knownD:
  assumes "call_inv db"
  shows "p \<in> set (parts db) \<Longrightarrow> cp_callID p \<in> ca_id ` set (calls db)"
    "en \<in> set (endings db) \<Longrightarrow> ca_id (vw_call (en_view en)) \<in> ca_id ` set (calls db)"
  using assms by (simp_all add: call_inv_def known_ids_def)

text \<open>A new call with its participants, none of whom is in a live call.\<close>

lemma evolves_new_call:
  assumes inv: "call_inv db" and fresh: "find_call (ca_id c) db = None" and ringing: "ca_status c = C_RINGING"
    and open_call: "ca_endReason c = None" and ids: "distinct ids" and free: "assertNotBusy ids db = Inr ()"
    and db': "calls db' = calls db @ [c]" "parts db' = parts db @ map (new_participant now (ca_id c) k) ids"
      "endings db' = endings db"
  shows "evolves db db'"
proof -
  have new_id: "ca_id c \<notin> ca_id ` set (calls db)" using fresh by (auto simp: find_call_def find_where_None_iff)
  have key: "cp_callID (new_participant now (ca_id c) k u) = ca_id c" "cp_userID (new_participant now (ca_id c) k u) = u" for u
    by (simp_all add: new_participant_def)
  have no_parts: "cp_callID p \<noteq> ca_id c" if "p \<in> set (parts db)" for p
    using inv_knownD(1) [OF inv that] new_id by metis
  have no_end: "ca_id (vw_call (en_view e)) \<noteq> ca_id c" if "e \<in> set (endings db)" for e
    using inv_knownD(2) [OF inv that] new_id by metis
  have old: "user_in_call u x db' = user_in_call u x db" if "x \<in> set (calls db)" for u x
  proof -
    have "ca_id x \<noteq> ca_id c" using new_id imageI [OF that, of ca_id] by metis
    then show ?thesis by (auto simp: user_in_call_alt db'(2) key)
  qed
  have new: "u \<in> set ids" if "user_in_call u c db'" for u
    using that no_parts by (auto simp: user_in_call_alt db'(2) key)
  have not_live: "\<not> (status_live (ca_status x) \<and> user_in_call u x db)" if "x \<in> set (calls db)" "u \<in> set ids" for x u
    using free that by (auto simp: assertNotBusy_def list_ex_iff split: if_splits)
  have one: "one_call_each db'"
    unfolding one_call_each_def
  proof (intro allI ballI impI)
    fix u x y assume x: "x \<in> set (calls db')" and y: "y \<in> set (calls db')"
      and b: "status_live (ca_status x) \<and> status_live (ca_status y) \<and> user_in_call u x db' \<and> user_in_call u y db'"
    from x y consider "x = c" "y = c" | "x = c" "y \<in> set (calls db)" | "y = c" "x \<in> set (calls db)"
      | "x \<in> set (calls db)" "y \<in> set (calls db)" by (auto simp: db'(1))
    then show "ca_id x = ca_id y"
    proof cases
      case 2 with b new [of u] not_live [of y u] old [of y u] show ?thesis by simp
    next
      case 3 with b new [of u] not_live [of x u] old [of x u] show ?thesis by simp
    next
      case 4 with b old [of x u] old [of y u] inv show ?thesis unfolding call_inv_def one_call_each_def by blast
    qed simp
  qed
  have "cp_key ` set (parts db) \<inter> cp_key ` new_participant now (ca_id c) k ` set ids = {}"
    using no_parts by (auto simp: cp_key_def key)
  moreover have "distinct (map cp_key (map (new_participant now (ca_id c) k) ids))"
    using ids by (simp add: distinct_map comp_def cp_key_def key inj_on_def)
  ultimately have keys: "distinct (map cp_key (parts db'))"
    using inv by (simp only: db'(2) map_append distinct_append call_inv_def set_map)
  have end_same: "ending_of i db' = ending_of i db" for i by (simp add: ending_of_def db'(3))
  have "ending_of (ca_id c) db = []" using no_end by (auto simp: ending_of_def filter_empty_conv)
  then have "call_ok c db'" using ringing open_call by (simp add: call_ok_def end_same status_live_def)
  moreover have "call_ok x db'" if "x \<in> set (calls db)" for x
    using inv that by (simp add: call_inv_def call_ok_def end_same)
  ultimately have ok: "\<forall>x \<in> set (calls db'). call_ok x db'" by (simp add: db'(1))
  have "known_ids db'" using inv by (auto simp: call_inv_def known_ids_def db' key)
  moreover have "distinct (map ca_id (calls db'))" using inv new_id by (simp add: db'(1) call_inv_def)
  ultimately have "call_inv db'" using one ok keys by (simp add: call_inv_def)
  moreover have "calls_advance db db'" by (auto simp: calls_advance_def db'(1))
  moreover have "parts_advance db db'" by (auto simp: parts_advance_def db'(2))
  ultimately show ?thesis by (simp add: evolves_def)
qed

lemma evolves_create_tx:
  assumes "call_inv db" "create_tx cfg now sp e db = Inr ((v, replayed), db')"
  shows "evolves db db'"
proof (cases "findIdempotentCreateCall (sp_initiatorID sp) (sp_idempotencyKey sp) db")
  case (Some w)
  with assms show ?thesis by (simp add: create_tx_def Let_def evolves_refl split: if_splits)
next
  case None
  define ids where "ids = sp_initiatorID sp # sp_inviteeIDs sp"
  define c where "c = new_call_row cfg now sp e"
  have free: "assertNotBusy ids db = Inr ()" and fresh: "find_call (ca_id c) db = None" and d: "distinct ids"
    and db': "db' = db\<lparr>calls := calls db @ [c], parts := parts db @ map (new_participant now (ca_id c) (sp_initiatorID sp)) ids\<rparr>"
    using assms(2) None unfolding create_tx_def Let_def ids_def [symmetric] c_def [symmetric]
    by (auto simp: bind_res_Inr_iff split: if_splits)
  show ?thesis
    by (rule evolves_new_call [OF assms(1) fresh _ _ d free, where now = now and k = "sp_initiatorID sp"])
      (simp_all add: db' c_def new_call_row_def)
qed


lemma evolves_createCallSession:
  assumes r: "rely others" and inv: "call_inv db"
  shows "evolves db (snd (createCallSession others cfg now sp e db))"
proof -
  define ids where "ids = sp_initiatorID sp # sp_inviteeIDs sp"
  define db1 where "db1 = others 0 (expireStaleRingingCallsForUsers (\<lambda>k. others (k + 10)) now ids db)"
  have 1: "evolves db (others 1 db1)"
    unfolding db1_def by (intro rely_step [OF r] evolves_stale [OF rely_shift [OF r] inv])
  define db2 where "db2 = createRoom (room_name (sv_callId e)) (others 1 db1)"
  have 2: "evolves db (others 2 db2)"
    unfolding db2_def by (rule rely_step [OF r evolves_then [OF 1 evolves_createRoom]])
  show ?thesis
  proof (cases "create_tx cfg now sp e (others 2 db2)")
    case (Inl x)
    then show ?thesis
      using 1 evolves_then [OF 2 evolves_deleteRoom]
      by (simp add: createCallSession_def Let_def ids_def [symmetric] db1_def [symmetric] db2_def [symmetric]
          del: One_nat_def split: option.split sum.split)
  next
    case (Inr p)
    obtain v rep db3 where p: "p = ((v, rep), db3)" by (metis prod.exhaust)
    have 3: "evolves db (others 3 db3)"
      using evolves_then [OF 2 evolves_create_tx] Inr p by (intro rely_step [OF r]) simp
    have 4: "evolves db (others 4 (deleteRoom (room_name (sv_callId e)) (others 3 db3)))"
      by (rule rely_step [OF r evolves_then [OF 3 evolves_deleteRoom]])
    have 5: "evolves db (failRingingCallAsError (\<lambda>k. others (k + 5)) now v (others 4 (others 3 db3)))"
      by (rule evolves_then [OF rely_step [OF r 3] evolves_fail [OF rely_shift [OF r]]])
    show ?thesis
      using 1 3 4 5 Inr evolves_then [OF 2 evolves_deleteRoom]
      by (simp add: createCallSession_def Let_def ids_def [symmetric] db1_def [symmetric] db2_def [symmetric] p
          del: One_nat_def split: option.split sum.split)
  qed
qed

lemma evolves_createGroupCall:
  assumes "rely others" "call_inv db"
  shows "evolves db (snd (createGroupCall others cfg now initiator conv invitees t key e db))"
  using assms evolves_then [OF rely_first [OF assms, of 0] evolves_createCallSession [OF rely_Suc [OF assms(1)]]]
  by (simp add: createGroupCall_def evolves_refl split: sum.split)

lemma evolves_createDirectCall:
  assumes "rely others" "call_inv db"
  shows "evolves db (snd (createDirectCall others cfg now initiator callee t key e db))"
  using assms evolves_then [OF rely_first [OF assms, of 0] evolves_createCallSession [OF rely_Suc [OF assms(1)]]]
  by (simp add: createDirectCall_def evolves_refl split: sum.split)

lemma evolves_joinInvitedCall:
  assumes r: "rely others" and inv: "call_inv db"
  shows "evolves db (snd (joinInvitedCall others up now u v db))"
  using inv evolves_expire [OF r inv] rely_first [OF r inv, of 0]
    rely_step [OF r evolves_then [OF rely_first [OF r inv, of 0] evolves_accept_tx]]
  by (auto simp: joinInvitedCall_def evolves_refl split: sum.split)

lemma evolves_acceptCall:
  assumes r: "rely others" and inv: "call_inv db"
  shows "evolves db (snd (acceptCall others up now u i db))"
  using inv rely_first [OF r inv, of 0] evolves_then [OF rely_first [OF r inv, of 0] evolves_joinInvitedCall [OF rely_Suc [OF r]]]
  by (auto simp: acceptCall_def evolves_refl split: sum.split)

lemma evolves_reject_part:
  "call_inv db \<Longrightarrow> evolves db (set_parts (\<lambda>p. cp_callID p = i \<and> cp_userID p = u \<and> cp_status p = INVITED)
     (\<lambda>p. p\<lparr>cp_status := P_REJECTED, cp_rejectedAt := Some now\<rparr>) db)"
  by (rule evolves_parts) (auto simp: cp_key_def part_busy_def intro: part_step.intros)

lemma evolves_rejectCall:
  assumes r: "rely others" and inv: "call_inv db"
  shows "evolves db (snd (rejectCall others now u i db))"
proof -
  have 1: "evolves db (others 0 db)" by (rule rely_first [OF r inv])
  have 2: "evolves db (others 1 (others 0 db))" by (rule rely_step [OF r 1])
  have 3: "evolves db (others 1 (set_parts (\<lambda>p. cp_callID p = i \<and> cp_userID p = u \<and> cp_status p = INVITED)
     (\<lambda>p. p\<lparr>cp_status := P_REJECTED, cp_rejectedAt := Some now\<rparr>) (others 0 db)))" (is "evolves db ?d3")
    by (rule rely_step [OF r evolves_then [OF 1 evolves_reject_part]])
  have 4: "evolves db (others 2 (endRingingCallIfNoInviteesRemain (\<lambda>k. others (k + 3)) now v ?d3))" for v
    by (rule rely_step [OF r evolves_then [OF 3 evolves_no_invitees [OF rely_shift [OF r]]]])
  show ?thesis
    using inv 2 3 4 by (simp add: rejectCall_def evolves_refl Let_def split: sum.split)
qed

lemma evolves_declineFromPush:
  "rely others \<Longrightarrow> call_inv db \<Longrightarrow> evolves db (snd (declineFromPush others now u i db))"
  using evolves_rejectCall [of others db now u i]
  by (cases "rejectCall others now u i db") (simp add: declineFromPush_def split: sum.split)

lemma evolves_single_leave:
  assumes r: "rely others" and inv: "call_inv db"
  shows "evolves db (endSingleCallOnFirstLeave others now u v db)"
proof -
  obtain won db1 where e: "end_call (ca_id (vw_call v)) (\<lambda>s. s = C_ACTIVE) C_ENDED ALL_LEFT now (Some u) (\<lambda>_. Some v) False db = (won, db1)"
    by fastforce
  have 1: "evolves db db1" by (rule evolves_end_view [OF inv _ e]) simp
  have 2: "evolves db (others 1 (mark_left (ca_id (vw_call v)) now (others 0 db1)))"
    by (rule rely_step [OF r evolves_then [OF rely_step [OF r 1] evolves_mark_left]])
  show ?thesis
    using 1 evolves_then [OF 2 evolves_deleteRoom] by (simp add: endSingleCallOnFirstLeave_def e Let_def)
qed

text \<open>Hanging up is unconditional, but whoever had joined is only ever joined or gone.\<close>

lemma evolves_hang_up:
  assumes r: "rely others" and inv: "call_inv db" and p: "find_part i u db = Some p" "cp_status p = JOINED"
  shows "evolves db (set_parts (\<lambda>p. cp_callID p = i \<and> cp_userID p = u)
     (\<lambda>p. p\<lparr>cp_status := LEFT, cp_leftAt := Some now\<rparr>) (others k db))"
proof (rule evolves_then [OF rely_first [OF r inv]])
  assume inv1: "call_inv (others k db)"
  have pin: "p \<in> set (parts db)" "cp_key p = (i, u)"
    using p(1) by (auto simp: find_part_def cp_key_def dest: find_where_SomeD)
  have "parts_advance db (others k db)" using rely_first [OF r inv, of k] by (simp add: evolves_def)
  then obtain p' where p': "p' \<in> set (parts (others k db))" "cp_key p' = (i, u)" "part_steps (cp_status p) (cp_status p')"
    using pin unfolding parts_advance_def by metis
  have joined: "cp_status q = JOINED \<or> cp_status q = LEFT"
    if "q \<in> set (parts (others k db))" "cp_callID q = i \<and> cp_userID q = u" for q
  proof -
    have "distinct (map cp_key (parts (others k db)))" using inv1 by (simp add: call_inv_def)
    then have "q = p'" using distinct_map_eq [OF _ that(1) p'(1), of cp_key] that(2) p'(2) by (simp add: cp_key_def)
    then show ?thesis using part_steps_joined [OF p'(3)] p(2) by simp
  qed
  show "evolves (others k db) (set_parts (\<lambda>p. cp_callID p = i \<and> cp_userID p = u)
     (\<lambda>p. p\<lparr>cp_status := LEFT, cp_leftAt := Some now\<rparr>) (others k db))"
  proof (rule evolves_parts [OF inv1], elim conjE)
    fix q :: participant assume q: "q \<in> set (parts (others k db))" "cp_callID q = i" "cp_userID q = u"
    then show "cp_key (q\<lparr>cp_status := LEFT, cp_leftAt := Some now\<rparr>) = cp_key q \<and>
        part_steps (cp_status q) (cp_status (q\<lparr>cp_status := LEFT, cp_leftAt := Some now\<rparr>)) \<and>
        (part_busy (q\<lparr>cp_status := LEFT, cp_leftAt := Some now\<rparr>) \<longrightarrow> part_busy q)"
      using joined [OF q(1)] by (auto simp: cp_key_def part_busy_def intro!: r_into_rtranclp [of part_step, OF leave])
  qed
qed


lemma evolves_leaveCall:
  assumes r: "rely others" and inv: "call_inv db"
  shows "evolves db (snd (leaveCall others now u i db))"
proof (cases "findParticipantForUser i u db")
  case (Inl x)
  with inv show ?thesis by (simp add: leaveCall_def evolves_refl)
next
  case (Inr pv)
  obtain p v where pv: "pv = (p, v)" by (cases pv)
  show ?thesis
  proof (cases "cp_status p = JOINED")
    case False
    with Inr pv inv show ?thesis by (simp add: leaveCall_def evolves_refl)
  next
    case True
    have found: "find_part i u db = Some p"
      using Inr pv by (auto simp: findParticipantForUser_def split: option.splits)
    define db2 where "db2 = others 1 (set_parts (\<lambda>p :: participant. cp_callID p = i \<and> cp_userID p = u)
      (\<lambda>p. p\<lparr>cp_status := LEFT, cp_leftAt := Some now\<rparr>) (others 0 db))"
    have 2: "evolves db db2"
      unfolding db2_def by (rule rely_step [OF r evolves_hang_up [OF r inv found True]])
    obtain won db3 where e: "end_call i status_live C_ENDED ALL_LEFT now (Some u) (load_call i) False (others 2 db2) = (won, db3)"
      by fastforce
    have 3: "evolves db db3"
      by (rule evolves_then [OF rely_step [OF r 2] evolves_end_load [OF _ _ e]]) simp_all
    have 4: "evolves db (endSingleCallOnFirstLeave (\<lambda>k. others (k + 2)) now u v db2)"
      by (rule evolves_then [OF 2 evolves_single_leave [OF rely_shift [OF r]]])
    show ?thesis
      using Inr True 2 3 4 evolves_then [OF rely_step [OF r 3] evolves_deleteRoom]
      by (simp add: leaveCall_def pv Let_def db2_def [symmetric] e del: One_nat_def)
  qed
qed

lemma evolves_cancelCall:
  assumes r: "rely others" and inv: "call_inv db"
  shows "evolves db (snd (cancelCall others now u i db))"
proof -
  obtain won db1 where e: "end_call i (\<lambda>s. s = C_RINGING) C_CANCELED CANCELED now (Some u) (load_call i) False (others 0 db) = (won, db1)"
    by fastforce
  have 1: "evolves db db1"
    by (rule evolves_then [OF rely_first [OF r inv] evolves_end_load [OF _ _ e]]) simp_all
  have 2: "evolves db (others 2 (mark_missed i now (others 1 db1)))"
    by (rule rely_step [OF r evolves_then [OF rely_step [OF r 1] evolves_mark_missed]])
  show ?thesis
    using inv rely_step [OF r 1, of 1] evolves_then [OF rely_step [OF r 2] evolves_deleteRoom]
    by (simp add: cancelCall_def evolves_refl e Let_def del: One_nat_def split: option.split)
qed

lemma evolves_createJoinToken:
  assumes r: "rely others" and inv: "call_inv db"
  shows "evolves db (snd (createJoinToken others up now u i db))"
proof -
  have "evolves db (set_parts (\<lambda>p. cp_callID p = i \<and> cp_userID p = u) (\<lambda>p. p\<lparr>cp_lastTokenAt := Some now\<rparr>) (others 0 db))"
    by (rule evolves_then [OF rely_first [OF r inv] evolves_parts]) (auto simp: cp_key_def part_busy_def)
  then show ?thesis
    using inv rely_step [OF r] evolves_then [OF rely_first [OF r inv, of 0] evolves_expire [OF rely_Suc [OF r]]]
    by (auto simp: createJoinToken_def evolves_refl Let_def split: sum.split)
qed

section \<open>All requests\<close>

text \<open>One request of the service: its arguments, the clock it reads and the answers it gets.\<close>

datatype call_op =
    CreateGroup call_config int string string "string list" call_type "string option" start_env
  | CreateDirect call_config int string string call_type "string option" start_env
  | Accept bool int string string
  | Reject int string string
  | DeclineFromPush int string string
  | Leave int string string
  | Cancel int string string
  | JoinToken bool int string string
  | Webhook int string "string option"
  | Sweep int nat

fun call_exec :: "(nat \<Rightarrow> call_db \<Rightarrow> call_db) \<Rightarrow> call_op \<Rightarrow> call_db \<Rightarrow> call_db" where
  "call_exec others (CreateGroup cfg now u conv ids t key e) db = snd (createGroupCall others cfg now u conv ids t key e db)"
| "call_exec others (CreateDirect cfg now u k t key e) db = snd (createDirectCall others cfg now u k t key e db)"
| "call_exec others (Accept up now u i) db = snd (acceptCall others up now u i db)"
| "call_exec others (Reject now u i) db = snd (rejectCall others now u i db)"
| "call_exec others (DeclineFromPush now u i) db = snd (declineFromPush others now u i db)"
| "call_exec others (Leave now u i) db = snd (leaveCall others now u i db)"
| "call_exec others (Cancel now u i) db = snd (cancelCall others now u i db)"
| "call_exec others (JoinToken up now u i) db = snd (createJoinToken others up now u i db)"
| "call_exec others (Webhook now ev room) db = snd (handleLiveKitWebhook others now ev room db)"
| "call_exec others (Sweep now limit) db = snd (sweepExpiredRingingCalls others now limit db)"

theorem evolves_call_exec:
  "rely others \<Longrightarrow> call_inv db \<Longrightarrow> evolves db (call_exec others x db)"
  by (cases x) (simp_all add: evolves_createGroupCall evolves_createDirectCall evolves_acceptCall evolves_rejectCall
      evolves_declineFromPush evolves_leaveCall evolves_cancelCall evolves_createJoinToken evolves_webhook evolves_sweep)

end
