(* ===== verification/CallClaims.thy ===== *)
theory CallClaims
  imports CallProofs
begin

text \<open>
  What the call service promises its users, and concrete runs of it.
\<close>

section \<open>A concrete run\<close>

definition solo :: "nat \<Rightarrow> call_db \<Rightarrow> call_db" where
  "solo k d = d"

lemma rely_solo: "rely solo"
  by (simp add: relies_def solo_def evolves_refl)

definition demo_world :: call_world where
  "demo_world = \<lparr>w_friends = [(''a'', ''b'', ACCEPTED)], w_blocks = [], w_callPermission = (\<lambda>_. EVERYONE),
     w_activeUsers = [''a'', ''b''], w_circles = [], w_circleMembers = [], w_conversations = [],
     w_tempChats = [], w_seats = []\<rparr>"

definition demo_calls :: call_db where
  "demo_calls = \<lparr>calls = [], parts = [], rooms = [], stuck = [], warned = [], endings = [], world = demo_world\<rparr>"

definition demo_config :: call_config where
  "demo_config = read_call_config True None None"

definition demo_env :: start_env where
  "demo_env = \<lparr>sv_callId = ''c-1'', sv_room = RoomMade, sv_txFails = False, sv_livekitUp = True\<rparr>"

definition demo_start :: call_op where
  "demo_start = CreateDirect demo_config 1000 ''a'' ''b'' AUDIO None demo_env"

definition demo_call :: call_row where
  "demo_call = \<lparr>ca_id = ''c-1'', ca_conversationID = ''direct:a:b'', ca_sessionType = 1, ca_callType = AUDIO,
     ca_status = C_RINGING, ca_livekitRoomName = ''circle_call_c1'', ca_initiatorID = ''a'', ca_startedAt = None,
     ca_endedAt = None, ca_expiresAt = 46000, ca_endedByID = None, ca_endReason = None, ca_idempotencyKey = None,
     ca_createdAt = 1000\<rparr>"

lemma demo_inv: "call_inv demo_calls"
  by (simp add: call_inv_def demo_calls_def one_call_each_def known_ids_def)

lemmas demo_defs = demo_calls_def demo_world_def demo_config_def demo_env_def demo_start_def read_call_config_def
  readPositiveInt_def

definition demo_ringing :: call_db where
  "demo_ringing = \<lparr>calls = [demo_call], parts = [new_participant 1000 ''c-1'' ''a'' ''a'', new_participant 1000 ''c-1'' ''a'' ''b''],
     rooms = [''circle_call_c1''], stuck = [], warned = [], endings = [], world = demo_world\<rparr>"

lemma demo_started: "call_exec solo demo_start demo_calls = demo_ringing"
  by (simp add: demo_defs demo_ringing_def demo_call_def solo_def createDirectCall_def direct_call_params_def
      normalizeID_def js_trim_def is_space_def code_def of_char_def assertCallTypeEnabled_def assertDirectCallee_def
      accepted_friends_def either_blocked_def permissionAllows_def loadActiveUsers_def createCallSession_def
      expireStaleRingingCallsForUsers_def findIdempotentCreateCall_def assertNotBusy_def createRoom_def create_tx_def
      new_call_row_def room_name_def find_call_def view_of_def call_parts_def mintToken_def assertCurrentCallAccess_def
      SINGLE_SESSION_TYPE_def GROUP_SESSION_TYPE_def new_participant_def Let_def)

section \<open>Histories\<close>

text \<open>
  Requests arrive one after the other, each with its own interference: what other requests do
  between its statements.
\<close>

definition call_history :: "((nat \<Rightarrow> call_db \<Rightarrow> call_db) \<times> call_op) list \<Rightarrow> call_db \<Rightarrow> call_db" where
  "call_history = fold (\<lambda>(others, x). call_exec others x)"

definition empty_calls :: "call_world \<Rightarrow> call_db" where
  "empty_calls w = \<lparr>calls = [], parts = [], rooms = [], stuck = [], warned = [], endings = [], world = w\<rparr>"

lemma evolves_history:
  "\<forall>(others, x) \<in> set rs. rely others \<Longrightarrow> call_inv db \<Longrightarrow> evolves db (call_history rs db)"
  unfolding call_history_def by (rule call_run.evol_fold [OF evolves_call_exec])

lemma empty_calls_inv: "call_inv (empty_calls w)"
  by (simp add: call_inv_def empty_calls_def one_call_each_def known_ids_def)

lemma history_inv: "\<forall>(others, x) \<in> set rs. rely others \<Longrightarrow> call_inv (call_history rs (empty_calls w))"
  by (rule evolves_inv [OF evolves_history [OF _ empty_calls_inv]])

text \<open>
  C7: Nobody is ever in two calls. Whatever requests the service has served since it was empty, and
  whatever was interleaved with their statements, a user who is invited to or has joined a call
  that rings or runs is in no other such call.
\<close>

theorem one_live_call_per_user:
  assumes "\<forall>(others, x) \<in> set rs. rely others" "db = call_history rs (empty_calls w)"
    and "c \<in> set (calls db)" "status_live (ca_status c)" "user_in_call u c db"
    and "c' \<in> set (calls db)" "status_live (ca_status c')" "user_in_call u c' db"
  shows "c = c'"
proof -
  have inv: "call_inv db" using history_inv [OF assms(1)] assms(2) by simp
  then have "one_call_each db" by (simp add: call_inv_def)
  then have "ca_id c = ca_id c'" using assms(3-8) unfolding one_call_each_def by blast
  moreover have "distinct (map ca_id (calls db))" using inv by (simp add: call_inv_def)
  ultimately show ?thesis using distinct_map_eq [OF _ assms(3,6)] by blast
qed

lemma demo_calls_empty: "demo_calls = empty_calls demo_world"
  by (simp add: demo_calls_def empty_calls_def)

lemma demo_history: "call_history [(solo, demo_start)] (empty_calls demo_world) = demo_ringing"
  by (simp add: call_history_def demo_started flip: demo_calls_empty)

lemma demo_in:
  "demo_call \<in> set (calls demo_ringing)" "status_live (ca_status demo_call)" "user_in_call ''b'' demo_call demo_ringing"
  by (simp_all add: demo_ringing_def demo_call_def status_live_def user_in_call_def part_busy_def new_participant_def)

theorem one_live_call_per_user_witness:
  "hd (calls demo_ringing) = demo_call \<and> user_in_call ''b'' (hd (calls demo_ringing)) demo_ringing"
  using one_live_call_per_user [OF _ demo_history [symmetric] _ _ _ demo_in, of "hd (calls demo_ringing)"] demo_in
  by (simp add: rely_solo demo_ringing_def)

text \<open>
  C12: Every call that ended owes the conversation exactly one record, with the reason stored in the
  call's row; a call that rings or runs has no reason and owes none. This holds after any requests, with any
  interference: of two requests that try to end a call only one decides and records.
\<close>

theorem ended_call_has_one_record:
  assumes "\<forall>(others, x) \<in> set rs. rely others" "db = call_history rs (empty_calls w)" "c \<in> set (calls db)"
  shows "(if status_live (ca_status c) then ca_endReason c = None \<and> ending_of (ca_id c) db = []
          else \<exists>e. ending_of (ca_id c) db = [e] \<and> ca_endReason c = Some (en_reason e))"
proof -
  have "call_ok c db" using history_inv [OF assms(1)] assms(2,3) by (simp add: call_inv_def)
  then show ?thesis by (auto simp: call_ok_def split: option.splits)
qed

definition demo_ended :: call_db where
  "demo_ended = call_history [(solo, demo_start), (solo, Cancel 2000 ''a'' ''c-1'')] (empty_calls demo_world)"

lemma demo_cancel:
  "calls demo_ended = [demo_call\<lparr>ca_status := C_CANCELED, ca_endReason := Some CANCELED, ca_endedAt := Some 2000,
     ca_endedByID := Some ''a''\<rparr>]"
proof -
  have run: "demo_ended = call_exec solo (Cancel 2000 ''a'' ''c-1'') demo_ringing"
    by (simp add: demo_ended_def call_history_def demo_started flip: demo_calls_empty)
  show ?thesis
    unfolding run
    by (simp add: cancelCall_def load_call_def find_call_def demo_ringing_def demo_call_def view_of_def call_parts_def
        new_participant_def end_call_def solo_def mark_missed_def set_parts_def set_call_def deleteRoom_def Let_def)
qed

theorem ended_call_has_one_record_witness:
  "\<exists>e. ending_of ''c-1'' demo_ended = [e] \<and> en_reason e = CANCELED"
proof -
  let ?c = "demo_call\<lparr>ca_status := C_CANCELED, ca_endReason := Some CANCELED, ca_endedAt := Some 2000,
     ca_endedByID := Some ''a''\<rparr>"
  have "if status_live (ca_status ?c) then ca_endReason ?c = None \<and> ending_of (ca_id ?c) demo_ended = []
      else \<exists>e. ending_of (ca_id ?c) demo_ended = [e] \<and> ca_endReason ?c = Some (en_reason e)"
    by (rule ended_call_has_one_record [OF _ demo_ended_def]) (simp_all add: rely_solo demo_cancel)
  then show ?thesis by (auto simp: demo_call_def status_live_def)
qed

text \<open>
  C19: Calls and participants only move forward. A call that ended keeps its row as it is, for ever; a
  call that was answered can only end as \<open>ENDED\<close>, never as missed, cancelled or failed; and who
  joined a call is joined or has left, and is never invited, missed or rejected again.
\<close>

theorem calls_move_forward:
  assumes "\<forall>(others, x) \<in> set (rs @ rs'). rely others"
    and "db = call_history rs (empty_calls w)" "db' = call_history rs' db"
  shows "(\<forall>c \<in> set (calls db). (\<not> status_live (ca_status c) \<longrightarrow> c \<in> set (calls db'))
            \<and> (ca_status c = C_ACTIVE \<longrightarrow> (\<exists>c' \<in> set (calls db'). call_static c' = call_static c
                 \<and> ca_status c' \<in> {C_ACTIVE, C_ENDED})))
    \<and> (\<forall>p \<in> set (parts db). cp_status p = JOINED \<longrightarrow>
         (\<exists>p' \<in> set (parts db'). cp_key p' = cp_key p \<and> cp_status p' \<in> {JOINED, LEFT}))"
proof -
  have "evolves db db'"
    unfolding assms(3) by (rule evolves_history) (use assms(1,2) history_inv [of rs w] in auto)
  then have c: "calls_advance db db'" and p: "parts_advance db db'" by (auto simp: evolves_def)
  have "(\<not> status_live (ca_status c) \<longrightarrow> c \<in> set (calls db'))
      \<and> (ca_status c = C_ACTIVE \<longrightarrow> (\<exists>c' \<in> set (calls db'). call_static c' = call_static c
           \<and> ca_status c' \<in> {C_ACTIVE, C_ENDED}))" if x: "c \<in> set (calls db)" for c
  proof -
    from c x obtain c' where "c' \<in> set (calls db')" "call_static c' = call_static c"
      "call_steps (ca_status c) (ca_status c')" "\<not> status_live (ca_status c) \<longrightarrow> c' = c"
      unfolding calls_advance_def by blast
    then show ?thesis using call_steps_active [of "ca_status c" "ca_status c'"] by auto
  qed
  moreover have "\<exists>p' \<in> set (parts db'). cp_key p' = cp_key p \<and> cp_status p' \<in> {JOINED, LEFT}"
    if x: "p \<in> set (parts db)" "cp_status p = JOINED" for p
  proof -
    from p x obtain p' where "p' \<in> set (parts db')" "cp_key p' = cp_key p" "part_steps (cp_status p) (cp_status p')"
      unfolding parts_advance_def by blast
    then show ?thesis using part_steps_joined [of "cp_status p" "cp_status p'"] x(2) by auto
  qed
  ultimately show ?thesis by blast
qed

theorem calls_move_forward_witness:
  "call_history [(solo, Accept True 3000 ''b'' ''c-1''), (solo, Sweep 99000 5)] demo_ended \<noteq> demo_calls
   \<and> demo_call\<lparr>ca_status := C_CANCELED, ca_endReason := Some CANCELED, ca_endedAt := Some 2000, ca_endedByID := Some ''a''\<rparr>
     \<in> set (calls (call_history [(solo, Accept True 3000 ''b'' ''c-1''), (solo, Sweep 99000 5)] demo_ended))"
  (is "?d \<noteq> _ \<and> ?c \<in> _")
proof -
  have "?c \<in> set (calls ?d)"
    using calls_move_forward [of "[(solo, demo_start), (solo, Cancel 2000 ''a'' ''c-1'')]"
        "[(solo, Accept True 3000 ''b'' ''c-1''), (solo, Sweep 99000 5)]" demo_ended demo_world ?d]
    by (simp add: rely_solo demo_ended_def [symmetric] demo_cancel status_live_def)
  then show ?thesis by (auto simp: demo_calls_def)
qed

section \<open>Who gets a media token\<close>

text \<open>What the token of a call requires of the world at the moment it is minted.\<close>

definition may_join :: "int \<Rightarrow> call_view \<Rightarrow> string \<Rightarrow> call_world \<Rightarrow> bool" where
  "may_join now v u w \<longleftrightarrow>
     (if ca_sessionType (vw_call v) = GROUP_SESSION_TYPE
      then is_ok (assertGroupMembers now (ca_conversationID (vw_call v)) [u] u w)
      else ca_sessionType (vw_call v) = SINGLE_SESSION_TYPE \<and>
        (\<exists>k. k \<noteq> '''' \<and> (u \<noteq> ca_initiatorID (vw_call v) \<longrightarrow> k = u)
             \<and> (u = ca_initiatorID (vw_call v) \<longrightarrow> k \<noteq> u \<and> k \<in> cp_userID ` set (vw_participants v))
             \<and> accepted_friends (ca_initiatorID (vw_call v)) k w \<and> \<not> either_blocked (ca_initiatorID (vw_call v)) k w
             \<and> w_callPermission w k \<noteq> NOBODY))"

lemma assertDirectCallee_ok:
  "assertDirectCallee a k w = Inr () \<longleftrightarrow> accepted_friends a k w \<and> \<not> either_blocked a k w \<and> w_callPermission w k \<noteq> NOBODY"
  by (auto simp: assertDirectCallee_def permissionAllows_def split: call_permission.splits)

lemma assertCurrentCallAccess_may:
  assumes "assertCurrentCallAccess now v u w = Inr ()"
  shows "may_join now v u w"
proof (cases "ca_sessionType (vw_call v) = GROUP_SESSION_TYPE")
  case True
  with assms show ?thesis by (simp add: assertCurrentCallAccess_def may_join_def Let_def)
next
  case False
  then have s: "ca_sessionType (vw_call v) = SINGLE_SESSION_TYPE"
    using assms by (auto simp: assertCurrentCallAccess_def Let_def split: if_splits)
  show ?thesis
  proof (cases "u = ca_initiatorID (vw_call v)")
    case True
    then obtain p where "find_where (\<lambda>p. cp_userID p \<noteq> u) (vw_participants v) = Some p"
      "cp_userID p \<noteq> ''''" "assertDirectCallee u (cp_userID p) w = Inr ()"
      using assms False by (auto simp: assertCurrentCallAccess_def Let_def split: if_splits option.splits)
    with s True False show ?thesis
      by (auto simp: may_join_def assertDirectCallee_ok dest!: find_where_SomeD)
  next
    case u: False
    with assms False s show ?thesis
      by (auto simp: assertCurrentCallAccess_def Let_def may_join_def assertDirectCallee_ok split: if_splits)
  qed
qed

lemma mintToken_ok:
  assumes "mintToken up now v u w = Inr g"
  shows "tg_identity g = u \<and> tg_room g = ca_livekitRoomName (vw_call v) \<and> tg_room g \<noteq> '''' \<and> may_join now v u w"
  using assms assertCurrentCallAccess_may by (auto simp: mintToken_def bind_res_Inr_iff split: if_splits)

lemma findParticipant_view:
  "findParticipantForUser i u db = Inr (p, v) \<Longrightarrow> load_call i db = Some v \<and> find_part i u db = Some p"
  by (auto simp: findParticipantForUser_def split: option.splits)

text \<open>The token in the answer of a request, who asked, and when.\<close>

fun op_token :: "(nat \<Rightarrow> call_db \<Rightarrow> call_db) \<Rightarrow> call_op \<Rightarrow> call_db \<Rightarrow> token_grant option" where
  "op_token others (CreateGroup cfg now u conv ids t key e) db =
     (case fst (createGroupCall others cfg now u conv ids t key e db) of Inr (_, g) \<Rightarrow> Some g | Inl _ \<Rightarrow> None)"
| "op_token others (CreateDirect cfg now u k t key e) db =
     (case fst (createDirectCall others cfg now u k t key e db) of Inr (_, g) \<Rightarrow> Some g | Inl _ \<Rightarrow> None)"
| "op_token others (Accept up now u i) db =
     (case fst (acceptCall others up now u i db) of Inr g \<Rightarrow> Some g | Inl _ \<Rightarrow> None)"
| "op_token others (JoinToken up now u i) db =
     (case fst (createJoinToken others up now u i db) of Inr g \<Rightarrow> Some g | Inl _ \<Rightarrow> None)"
| "op_token others x db = None"

fun op_user :: "call_op \<Rightarrow> string" where
  "op_user (CreateGroup cfg now u conv ids t key e) = u"
| "op_user (CreateDirect cfg now u k t key e) = u"
| "op_user (Accept up now u i) = u"
| "op_user (JoinToken up now u i) = u"
| "op_user x = ''''"

fun op_now :: "call_op \<Rightarrow> int" where
  "op_now (CreateGroup cfg now u conv ids t key e) = now"
| "op_now (CreateDirect cfg now u k t key e) = now"
| "op_now (Accept up now u i) = now"
| "op_now (JoinToken up now u i) = now"
| "op_now x = 0"

fun starts_call :: "call_op \<Rightarrow> bool" where
  "starts_call (CreateGroup cfg now u conv ids t key e) = True"
| "starts_call (CreateDirect cfg now u k t key e) = True"
| "starts_call x = False"

text \<open>The call a token is for, at a moment between the request's arrival and its answer.\<close>

definition token_for :: "bool \<Rightarrow> int \<Rightarrow> string \<Rightarrow> token_grant \<Rightarrow> call_db \<Rightarrow> call_db \<Rightarrow> call_db \<Rightarrow> call_row \<Rightarrow> bool" where
  "token_for starting now u g db db' d c \<longleftrightarrow>
     evolves db d \<and> evolves d db' \<and> c \<in> set (calls d) \<and> status_live (ca_status c)
     \<and> tg_identity g = u \<and> tg_room g = ca_livekitRoomName c \<and> tg_callType g = ca_callType c
     \<and> (if starting then ca_initiatorID c = u
        else \<exists>p \<in> set (parts d). cp_callID p = ca_id c \<and> cp_userID p = u \<and> cp_status p = JOINED)
     \<and> may_join now (view_of c d) u (world db')"

lemma token_for_first: "evolves a b \<Longrightarrow> token_for s now u g b db' d c \<Longrightarrow> token_for s now u g a db' d c"
  by (auto simp: token_for_def intro: evolves_trans)

lemma may_join_view:
  "may_join now v u w \<Longrightarrow> call_static (vw_call v') = call_static (vw_call v) \<Longrightarrow>
   cp_userID ` set (vw_participants v) \<subseteq> cp_userID ` set (vw_participants v') \<Longrightarrow> may_join now v' u w"
  by (auto simp: may_join_def call_static_def split: if_splits)

lemma evolves_view:
  assumes ev: "evolves a b" and c: "c \<in> set (calls a)" "c' \<in> set (calls b)" "ca_id c' = ca_id c"
  shows "call_static (vw_call (view_of c' b)) = call_static (vw_call (view_of c a))"
    "cp_userID ` set (vw_participants (view_of c a)) \<subseteq> cp_userID ` set (vw_participants (view_of c' b))"
proof -
  obtain c2 where c2: "c2 \<in> set (calls b)" "call_static c2 = call_static c"
    using ev c(1) by (auto simp: evolves_def calls_advance_def)
  moreover have "distinct (map ca_id (calls b))" using evolves_inv [OF ev] by (simp add: call_inv_def)
  ultimately have "c2 = c'" using distinct_map_eq [of ca_id "calls b" c2 c'] c by (auto simp: call_static_def)
  with c2 show "call_static (vw_call (view_of c' b)) = call_static (vw_call (view_of c a))" by (simp add: view_of_def)
  show "cp_userID ` set (vw_participants (view_of c a)) \<subseteq> cp_userID ` set (vw_participants (view_of c' b))"
  proof
    fix k assume "k \<in> cp_userID ` set (vw_participants (view_of c a))"
    then obtain p where p: "p \<in> set (parts a)" "cp_key p = (ca_id c, k)"
      by (auto simp: view_of_def call_parts_def cp_key_def)
    then obtain p' where "p' \<in> set (parts b)" "cp_key p' = (ca_id c, k)"
      using ev by (fastforce simp: evolves_def parts_advance_def)
    then show "k \<in> cp_userID ` set (vw_participants (view_of c' b))"
      using c(3) by (auto simp: view_of_def call_parts_def cp_key_def intro!: image_eqI [of _ _ p'])
  qed
qed

lemma minted_for:
  assumes "mintToken up now (view_of c0 d0) u (world db') = Inr g"
    and "evolves db d0" "evolves d0 d" "evolves d db'"
    and "c0 \<in> set (calls d0)" "c \<in> set (calls d)" "ca_id c = ca_id c0" "status_live (ca_status c)"
    and "if starting then ca_initiatorID c = u
         else \<exists>p \<in> set (parts d). cp_callID p = ca_id c \<and> cp_userID p = u \<and> cp_status p = JOINED"
  shows "token_for starting now u g db db' d c"
proof -
  note v = evolves_view [OF assms(3,5,6,7)]
  have m: "tg_identity g = u" "tg_room g = ca_livekitRoomName c0" "may_join now (view_of c0 d0) u (world db')"
    using mintToken_ok [OF assms(1)] by (simp_all add: view_of_def)
  have "tg_callType g = ca_callType c0"
    using assms(1) by (auto simp: mintToken_def bind_res_Inr_iff view_of_def split: if_splits)
  moreover have "ca_callType c0 = ca_callType c" "ca_livekitRoomName c0 = ca_livekitRoomName c"
    using v(1) by (simp_all add: view_of_def call_static_def)
  ultimately show ?thesis
    using assms(2,4,6,8,9) m may_join_view [OF m(3) v] evolves_trans [OF assms(2,3)] by (simp add: token_for_def)
qed

lemma idempotent_view:
  "findIdempotentCreateCall u key db = Some v \<Longrightarrow>
   \<exists>c. v = view_of c db \<and> c \<in> set (calls db) \<and> status_live (ca_status c) \<and> ca_initiatorID c = u"
  by (auto simp: findIdempotentCreateCall_def split: option.splits if_splits dest: find_where_SomeD)

lemma create_tx_view:
  assumes "create_tx cfg now sp e db = Inr ((v, rep), db')"
  shows "\<exists>c. v = view_of c db' \<and> c \<in> set (calls db') \<and> status_live (ca_status c) \<and> ca_initiatorID c = sp_initiatorID sp"
proof (cases "findIdempotentCreateCall (sp_initiatorID sp) (sp_idempotencyKey sp) db")
  case None
  with assms show ?thesis
    by (auto simp: create_tx_def Let_def bind_res_Inr_iff new_call_row_def status_live_def split: if_splits)
next
  case (Some v1)
  with assms have "v1 = v" "db' = db" by (auto simp: create_tx_def Let_def split: if_splits)
  with idempotent_view [OF Some] show ?thesis by simp
qed

lemma start_token:
  assumes r: "rely others" and inv: "call_inv db"
    and run: "createCallSession others cfg now sp e db = (Inr (v0, g), db')"
  shows "\<exists>d c. token_for True now (sp_initiatorID sp) g db db' d c"
proof -
  define ids where "ids = sp_initiatorID sp # sp_inviteeIDs sp"
  define db1 where "db1 = others 0 (expireStaleRingingCallsForUsers (\<lambda>k. others (k + 10)) now ids db)"
  have 1: "evolves db db1"
    unfolding db1_def by (intro rely_step [OF r] evolves_stale [OF rely_shift [OF r] inv])
  define db2 where "db2 = createRoom (room_name (sv_callId e)) (others 1 db1)"
  have 2: "evolves db (others 2 db2)"
    unfolding db2_def by (rule rely_step [OF r evolves_then [OF rely_step [OF r 1] evolves_createRoom]])
  note unf = createCallSession_def Let_def ids_def [symmetric] db1_def [symmetric] db2_def [symmetric]
  have mint: "\<exists>d c. token_for True now (sp_initiatorID sp) g db db' d c"
    if "mintToken (sv_livekitUp e) now (view_of c d) (sp_initiatorID sp) (world db') = Inr g"
      "evolves db d" "evolves d db'" "c \<in> set (calls d)" "status_live (ca_status c)" "ca_initiatorID c = sp_initiatorID sp"
    for d c
    using minted_for [OF that(1,2) evolves_refl [OF evolves_inv [OF that(2)]] that(3,4,4) refl that(5), of True] that(6)
    by auto
  show ?thesis
  proof (cases "findIdempotentCreateCall (sp_initiatorID sp) (sp_idempotencyKey sp) db1")
    case (Some v)
    then obtain c where c: "v = view_of c db1" "c \<in> set (calls db1)" "status_live (ca_status c)"
      "ca_initiatorID c = sp_initiatorID sp" using idempotent_view by blast
    have "db' = others 1 db1" "mintToken (sv_livekitUp e) now v (sp_initiatorID sp) (world (others 1 db1)) = Inr g"
      using run Some by (auto simp: unf simp del: One_nat_def split: sum.splits)
        (auto simp: map_sum_def split: sum.splits)
    with c 1 show ?thesis using rely_step [OF r evolves_refl [OF evolves_inv [OF 1]], of 1] by (intro mint [of c db1]) simp_all
  next
    case None
    obtain v rep db3 where tx: "create_tx cfg now sp e (others 2 db2) = Inr ((v, rep), db3)"
      using run None by (auto simp: unf simp del: One_nat_def split: sum.splits if_splits) 
    obtain c where c: "v = view_of c db3" "c \<in> set (calls db3)" "status_live (ca_status c)"
      "ca_initiatorID c = sp_initiatorID sp" using create_tx_view [OF tx] by blast
    have 3: "evolves db db3" by (rule evolves_then [OF 2]) (rule evolves_create_tx [OF _ tx])
    have 4: "evolves db3 (others 3 db3)" by (rule rely_first [OF r evolves_inv [OF 3]])
    have 5: "evolves db3 (others 4 (deleteRoom (room_name (sv_callId e)) (others 3 db3)))"
      by (rule rely_step [OF r evolves_then [OF 4 evolves_deleteRoom]])
    have "db' = others 4 (deleteRoom (room_name (sv_callId e)) (others 3 db3)) \<or> db' = others 3 db3"
      "mintToken (sv_livekitUp e) now v (sp_initiatorID sp) (world db') = Inr g"
      using run None tx by (auto simp: unf map_sum_def simp del: One_nat_def split: sum.splits if_splits)
    with c 3 4 5 show ?thesis by (intro mint [of c db3]) auto
  qed
qed

lemma accept_tx_joined:
  assumes tx: "accept_tx now u v db = Inr (r, db')"
  shows "\<exists>c \<in> set (calls db'). ca_id c = ca_id (vw_call v) \<and> ca_status c = C_ACTIVE"
    and "\<exists>p \<in> set (parts db'). cp_callID p = ca_id (vw_call v) \<and> cp_userID p = u \<and> cp_status p = JOINED"
proof -
  define i where "i = ca_id (vw_call v)"
  define invited where "invited = (\<lambda>p :: participant. cp_callID p = i \<and> cp_userID p = u \<and> cp_status p = INVITED)"
  define db1 where "db1 = set_parts invited (\<lambda>p. p\<lparr>cp_status := JOINED, cp_joinedAt := Some now, cp_lastTokenAt := Some now\<rparr>) db"
  define ringing where "ringing = (\<lambda>c :: call_row. ca_id c = i \<and> ca_status c = C_RINGING)"
  have won: "0 < count_where invited (parts db) \<or> map_option cp_status (find_part i u db) = Some JOINED"
    and call: "(0 < count_where ringing (calls db1)
         \<and> db' = set_call ringing (\<lambda>c. c\<lparr>ca_status := C_ACTIVE, ca_startedAt := Some now\<rparr>) db1)
       \<or> (map_option ca_status (find_call i db1) = Some C_ACTIVE \<and> db' = db1)"
    using tx by (auto simp: accept_tx_def Let_def bind_res_Inr_iff i_def [symmetric] invited_def [symmetric] db1_def [symmetric]
        ringing_def [symmetric] split: if_splits)
  show "\<exists>c \<in> set (calls db'). ca_id c = ca_id (vw_call v) \<and> ca_status c = C_ACTIVE"
    using call
  proof
    let ?act = "\<lambda>c :: call_row. c\<lparr>ca_status := C_ACTIVE, ca_startedAt := Some now\<rparr>"
    assume r: "0 < count_where ringing (calls db1) \<and> db' = set_call ringing ?act db1"
    then obtain c where c: "c \<in> set (calls db1)" "ringing c" by (auto simp: count_where_pos_iff)
    then have "?act c \<in> set (calls db')" using r by (force simp: set_call_def update_where_def)
    moreover have "ca_id (?act c) = ca_id (vw_call v) \<and> ca_status (?act c) = C_ACTIVE"
      using c(2) by (simp add: ringing_def i_def)
    ultimately show ?thesis by blast
  next
    assume "map_option ca_status (find_call i db1) = Some C_ACTIVE \<and> db' = db1"
    then show ?thesis by (auto simp: i_def dest: find_call_mem)
  qed
  have parts': "parts db' = parts db1" using call by (auto simp: set_call_def)
  have "\<exists>p \<in> set (parts db1). cp_callID p = i \<and> cp_userID p = u \<and> cp_status p = JOINED"
    using won
  proof
    assume "0 < count_where invited (parts db)"
    then obtain p where p: "p \<in> set (parts db)" "invited p" by (auto simp: count_where_pos_iff)
    let ?j = "p\<lparr>cp_status := JOINED, cp_joinedAt := Some now, cp_lastTokenAt := Some now\<rparr>"
    have "?j \<in> set (parts db1)" using p by (force simp: db1_def set_parts_def update_where_def)
    moreover have "cp_callID ?j = i \<and> cp_userID ?j = u \<and> cp_status ?j = JOINED" using p(2) by (simp add: invited_def)
    ultimately show ?thesis by blast
  next
    assume "map_option cp_status (find_part i u db) = Some JOINED"
    then obtain p where p: "p \<in> set (parts db)" "cp_callID p = i" "cp_userID p = u" "cp_status p = JOINED"
      by (auto simp: find_part_def dest: find_where_SomeD)
    then have "p \<in> set (parts db1)" by (force simp: db1_def set_parts_def update_where_def invited_def)
    with p show ?thesis by blast
  qed
  then show "\<exists>p \<in> set (parts db'). cp_callID p = ca_id (vw_call v) \<and> cp_userID p = u \<and> cp_status p = JOINED"
    by (simp add: parts' i_def)
qed

lemma findParticipant_found:
  "findParticipantForUser i u db = Inr (p, v) \<Longrightarrow>
   p \<in> set (parts db) \<and> cp_callID p = i \<and> cp_userID p = u \<and> (\<exists>c. v = view_of c db \<and> c \<in> set (calls db) \<and> ca_id c = i)"
  by (auto simp: findParticipantForUser_def load_call_def find_part_def split: option.splits
      dest: find_where_SomeD find_call_mem)

lemma accept_token:
  assumes r: "rely others" and inv: "call_inv db"
    and run: "acceptCall others up now u i db = (Inr g, db')"
  shows "\<exists>d c. token_for False now u g db db' d c"
proof -
  obtain p v where f: "findParticipantForUser i u db = Inr (p, v)"
    using run by (auto simp: acceptCall_def split: sum.splits)
  obtain c where p: "p \<in> set (parts db)" "cp_callID p = i" "cp_userID p = u"
    and c: "v = view_of c db" "c \<in> set (calls db)" "ca_id c = i"
    using findParticipant_found [OF f] by blast
  note ev0 = evolves_refl [OF inv]
  show ?thesis
  proof (cases "cp_status p = JOINED")
    case True
    then have "db' = others 0 db" "mintToken up now v u (world (others 0 db)) = Inr g" "status_live (ca_status c)"
      using run f c(1) by (auto simp: acceptCall_def view_of_def split: if_splits)
    then show ?thesis
      using minted_for [OF _ ev0 ev0 _ c(2,2) refl, of up now u db' g False] rely_first [OF r inv, of 0] p c True by auto
  next
    case False
    then have "joinInvitedCall (\<lambda>k. others (k + 1)) up now u v (others 0 db) = (Inr g, db')"
      using run f by (auto simp: acceptCall_def split: if_splits)
    then obtain b d where tx: "accept_tx now u v (others 1 (others 0 db)) = Inr (b, d)"
      and db': "db' = others 2 d" and mint: "mintToken up now v u (world (others 2 d)) = Inr g"
      by (auto simp: joinInvitedCall_def numeral_2_eq_2 split: if_splits sum.splits)
    have 1: "evolves db (others 1 (others 0 db))" by (rule rely_step [OF r rely_first [OF r inv]])
    have 2: "evolves db d" by (rule evolves_then [OF 1]) (rule evolves_accept_tx [OF _ tx])
    have 3: "evolves d (others 2 d)" by (rule rely_first [OF r evolves_inv [OF 2]])
    obtain c' q where c': "c' \<in> set (calls d)" "ca_id c' = i" "ca_status c' = C_ACTIVE"
      and q: "q \<in> set (parts d)" "cp_callID q = i" "cp_userID q = u" "cp_status q = JOINED"
      using accept_tx_joined [OF tx] c by (auto simp: view_of_def)
    show ?thesis
      using minted_for [OF mint [unfolded c(1)] ev0 2 3 c(2) c'(1), of False] c' c(3) q db'
      by (auto simp: status_live_def)
  qed
qed

lemma join_token:
  assumes r: "rely others" and inv: "call_inv db"
    and run: "createJoinToken others up now u i db = (Inr g, db')"
  shows "\<exists>d c. token_for False now u g db db' d c"
proof -
  obtain p v where f: "findParticipantForUser i u db = Inr (p, v)"
    using run by (auto simp: createJoinToken_def split: sum.splits)
  obtain c where p: "p \<in> set (parts db)" "cp_callID p = i" "cp_userID p = u"
    and c: "v = view_of c db" "c \<in> set (calls db)" "ca_id c = i"
    using findParticipant_found [OF f] by blast
  have "status_live (ca_status c)" "cp_status p = JOINED" "mintToken up now v u (world db') = Inr g"
    using run f c(1) by (auto simp: createJoinToken_def Let_def view_of_def split: if_splits)
  moreover have "evolves db db'" using evolves_createJoinToken [OF r inv, of up now u i] run by simp
  ultimately show ?thesis
    using minted_for [OF _ evolves_refl [OF inv] evolves_refl [OF inv] _ c(2,2) refl, of up now u db' g False] p c by auto
qed

text \<open>
  C8: A media token is a grant of the moment. Whenever any request (starting a group or direct call, a
  repeated start answered with the call of the first, accepting, asking for a token again) answers with a token,
  the token is for the asking user and for the room and type of one call; at a moment while the request ran that call
  was ringing or running, and the user was its initiator (for a start) or had joined it (otherwise); and in the very
  world in which the request ended and the token was minted, after everything other requests did in between, the
  user is a member of the group or, in a direct call, the two are friends, neither blocks the other and the one
  called takes calls. (That the call still runs when the token is minted is not checked by the code.)
\<close>

theorem media_token_authorised:
  assumes "rely others" "call_inv db" "op_token others x db = Some g" "db' = call_exec others x db"
  shows "\<exists>d c. evolves db d \<and> evolves d db' \<and> c \<in> set (calls d) \<and> status_live (ca_status c)
     \<and> tg_identity g = op_user x \<and> tg_room g = ca_livekitRoomName c \<and> tg_callType g = ca_callType c
     \<and> (if starts_call x then ca_initiatorID c = op_user x
        else \<exists>p \<in> set (parts d). cp_callID p = ca_id c \<and> cp_userID p = op_user x \<and> cp_status p = JOINED)
     \<and> may_join (op_now x) (view_of c d) (op_user x) (world db')"
proof -
  note first = rely_first [OF assms(1,2), of 0] and later = rely_Suc [OF assms(1)]
  note start = start_token [OF later evolves_inv [OF first]]
  have "\<exists>d c. token_for (starts_call x) (op_now x) (op_user x) g db db' d c"
  proof (cases x)
    case (CreateGroup cfg now u conv ids t key e)
    then obtain sp v where "group_call_params cfg now u conv ids t key (world db) = Inr sp"
      "createCallSession (\<lambda>k. others (k + 1)) cfg now sp e (others 0 db) = (Inr (v, g), db')"
      using assms(3,4) by (cases "createGroupCall others cfg now u conv ids t key e db")
        (auto simp: createGroupCall_def split: sum.splits)
    moreover from this(1) have "sp_initiatorID sp = u" by (auto simp: group_call_params_def Let_def bind_res_Inr_iff split: if_splits)
    ultimately show ?thesis using start token_for_first [OF first] CreateGroup by fastforce
  next
    case (CreateDirect cfg now u k t key e)
    then obtain sp v where "direct_call_params cfg u k t key (world db) = Inr sp"
      "createCallSession (\<lambda>k. others (k + 1)) cfg now sp e (others 0 db) = (Inr (v, g), db')"
      using assms(3,4) by (cases "createDirectCall others cfg now u k t key e db")
        (auto simp: createDirectCall_def split: sum.splits)
    moreover from this(1) have "sp_initiatorID sp = u" by (auto simp: direct_call_params_def Let_def bind_res_Inr_iff split: if_splits)
    ultimately show ?thesis using start token_for_first [OF first] CreateDirect by fastforce
  next
    case (Accept up now u i)
    with assms(3,4) show ?thesis
      using accept_token [OF assms(1,2)] by (cases "acceptCall others up now u i db") (auto split: sum.splits)
  next
    case (JoinToken up now u i)
    with assms(3,4) show ?thesis
      using join_token [OF assms(1,2)] by (cases "createJoinToken others up now u i db") (auto split: sum.splits)
  qed (use assms(3) in simp_all)
  then show ?thesis by (simp add: token_for_def)
qed

lemma demo_accept:
  "op_token solo (Accept True 2000 ''b'' ''c-1'') demo_ringing =
     Some \<lparr>tg_identity = ''b'', tg_room = ''circle_call_c1'', tg_callType = AUDIO\<rparr>"
  by (simp add: acceptCall_def findParticipantForUser_def find_part_def load_call_def find_call_def demo_ringing_def demo_call_def
      view_of_def call_parts_def new_participant_def joinInvitedCall_def status_live_def solo_def assertCurrentCallAccess_def
      SINGLE_SESSION_TYPE_def GROUP_SESSION_TYPE_def assertDirectCallee_def accepted_friends_def either_blocked_def
      demo_world_def permissionAllows_def accept_tx_def mintToken_def set_parts_def set_call_def Let_def)

lemma demo_ringing_inv: "call_inv demo_ringing"
  using history_inv [of "[(solo, demo_start)]" demo_world] by (simp add: demo_history rely_solo)

theorem media_token_authorised_witness:
  "\<exists>d c. c \<in> set (calls d) \<and> status_live (ca_status c) \<and> ''circle_call_c1'' = ca_livekitRoomName c
     \<and> may_join 2000 (view_of c d) ''b'' (world (call_exec solo (Accept True 2000 ''b'' ''c-1'') demo_ringing))"
  using media_token_authorised [OF rely_solo demo_ringing_inv demo_accept refl] by auto

text \<open>
  Declining from a push notification always succeeds: whether the call never existed, ended
  long ago, was answered on another device or is declined twice, and whatever happens between
  the statements, the device gets no error.
\<close>

lemma push_decline_always_succeeds:
  "fst (declineFromPush others now u i db) = Inr ()"
proof -
  have "fst (rejectCall others now u i db) = Inl e \<Longrightarrow> e = NotFound \<or> e = NotInvited" for e
    by (auto simp: rejectCall_def findParticipantForUser_def Let_def split: if_splits option.splits)
  then show ?thesis
    by (cases "rejectCall others now u i db") (auto simp: declineFromPush_def split: sum.splits)
qed

section \<open>What a refusal gives away\<close>

lemma assertGroupMembers_permission:
  "assertGroupMembers now c ids u (w\<lparr>w_callPermission := f\<rparr>) = assertGroupMembers now c ids u w"
  by (simp add: assertGroupMembers_def active_members_def seated_members_def split: option.split)

lemma check_members_error: "check_members a ids s = Inl e \<Longrightarrow> e = NotGroupMember \<or> e = InviteeInvalid"
  by (auto simp: check_members_def split: if_splits)

lemma assertGroupMembers_error:
  "assertGroupMembers now c ids u w = Inl e \<Longrightarrow> e = NotGroupMember \<or> e = InviteeInvalid"
  by (auto simp: assertGroupMembers_def bind_res_Inl_iff split: option.splits if_splits dest: check_members_error)

lemma uniqueIDs_distinct: "distinct (uniqueIDs ids)"
  by (simp add: uniqueIDs_def)

lemma loadActiveUsers_ok:
  assumes "distinct ids" "set ids \<subseteq> set (w_activeUsers w)"
  shows "loadActiveUsers ids w = Inr ()"
proof -
  have "length ids = card (set ids)" using assms(1) by (simp add: distinct_card)
  also have "\<dots> \<le> card (set (filter (\<lambda>u. u \<in> set ids) (w_activeUsers w)))"
    using assms(2) by (intro card_mono) auto
  also have "\<dots> \<le> length (filter (\<lambda>u. u \<in> set ids) (w_activeUsers w))" by (rule card_length)
  finally show ?thesis by (simp add: loadActiveUsers_def)
qed

lemma callable_active:
  assumes "targets = filter (\<lambda>k. k \<noteq> u) (uniqueIDs ids)" "set (u # targets) \<subseteq> set (w_activeUsers w)"
  shows "loadActiveUsers (u # filterCallableInvitees u targets w) w = Inr ()"
  using assms uniqueIDs_distinct [of ids]
  by (intro loadActiveUsers_ok) (auto simp: filterCallableInvitees_def)

text \<open>
  C29: The refusal of a group call gives nobody's privacy setting away. If the invitees as asked for are not all
  members of the conversation (or the caller is not), the whole answer is the same whatever anybody's call permission is; so a target
  outside the group is refused alike whether they take calls or not. If all accounts are active,
  every refusal other than "no invitees" is the same whatever the permissions are, and that one names nobody:
  it means that none of the invitees may be called. A direct caller sees \<open>PERMISSION_DENIED\<close> only for an
  accepted friend who has not blocked them (nor they them), and cannot tell a block from a missing friendship.
\<close>

theorem refusals_hide_permission:
  assumes "targets = filter (\<lambda>k. k \<noteq> u) (uniqueIDs ids)"
  shows "(\<not> is_ok (assertGroupMembers now (js_trim conv) (u # targets) u w) \<longrightarrow>
      group_call_params cfg now u conv ids t key (w\<lparr>w_callPermission := f\<rparr>) = group_call_params cfg now u conv ids t key w)
   \<and> (set (u # targets) \<subseteq> set (w_activeUsers w) \<longrightarrow>
      (e \<noteq> InviteesRequired \<and> group_call_params cfg now u conv ids t key w = Inl e \<longrightarrow>
         group_call_params cfg now u conv ids t key (w\<lparr>w_callPermission := f\<rparr>) = Inl e)
      \<and> (group_call_params cfg now u conv ids t key w = Inl InviteesRequired \<longrightarrow>
         (\<forall>k' \<in> set targets. \<not> permissionAllows (w_callPermission w k') (accepted_friends u k' w))))
   \<and> (direct_call_params cfg u k t key w = Inl PermissionDenied \<longrightarrow>
      accepted_friends u (js_trim k) w \<and> \<not> either_blocked u (js_trim k) w)
   \<and> (either_blocked u (js_trim k) w \<longrightarrow>
      direct_call_params cfg u k t key w = direct_call_params cfg u k t key (w\<lparr>w_friends := []\<rparr>))"
proof (intro conjI impI)
  assume "\<not> is_ok (assertGroupMembers now (js_trim conv) (u # targets) u w)"
  then obtain x where "assertGroupMembers now (js_trim conv) (u # targets) u w = Inl x"
    by (cases "assertGroupMembers now (js_trim conv) (u # targets) u w") auto
  then show "group_call_params cfg now u conv ids t key (w\<lparr>w_callPermission := f\<rparr>) = group_call_params cfg now u conv ids t key w"
    by (simp add: group_call_params_def Let_def normalizeID_def assms [symmetric] assertGroupMembers_permission)
next
  assume act: "set (u # targets) \<subseteq> set (w_activeUsers w)"
  note ok = callable_active [OF assms act]
  assume e: "e \<noteq> InviteesRequired \<and> group_call_params cfg now u conv ids t key w = Inl e"
  have ok': "loadActiveUsers (u # filterCallableInvitees u targets w) w \<noteq> Inl e" using ok by simp
  show "group_call_params cfg now u conv ids t key (w\<lparr>w_callPermission := f\<rparr>) = Inl e"
    using e ok'
    by (auto simp: group_call_params_def Let_def bind_res_Inl_iff assertGroupMembers_permission normalizeID_def
        assms [symmetric] split: if_splits)
next
  assume act: "set (u # targets) \<subseteq> set (w_activeUsers w)"
    and req: "group_call_params cfg now u conv ids t key w = Inl InviteesRequired"
  have "targets = [] \<or> filterCallableInvitees u targets w = []"
    using req callable_active [OF assms act]
    by (auto simp: group_call_params_def Let_def bind_res_Inl_iff normalizeID_def assms [symmetric]
        assertCallTypeEnabled_def assertParticipantLimit_def dest: assertGroupMembers_error split: if_splits)
  then show "\<forall>k' \<in> set targets. \<not> permissionAllows (w_callPermission w k') (accepted_friends u k' w)"
    by (auto simp: filterCallableInvitees_def filter_empty_conv)
next
  assume "direct_call_params cfg u k t key w = Inl PermissionDenied"
  then show "accepted_friends u (js_trim k) w" "\<not> either_blocked u (js_trim k) w"
    by (auto simp: direct_call_params_def bind_res_Inl_iff normalizeID_def assertCallTypeEnabled_def assertDirectCallee_def
        loadActiveUsers_def split: if_splits)
next
  assume "either_blocked u (js_trim k) w"
  then have "assertDirectCallee u (js_trim k) w = assertDirectCallee u (js_trim k) (w\<lparr>w_friends := []\<rparr>)"
    by (simp add: assertDirectCallee_def accepted_friends_def)
  then show "direct_call_params cfg u k t key w = direct_call_params cfg u k t key (w\<lparr>w_friends := []\<rparr>)"
    by (cases "js_trim k = ''''") (simp_all add: direct_call_params_def normalizeID_def loadActiveUsers_def)
qed

text \<open>In the witness the caller asks for somebody who is not in the group, and who takes no calls, or all.\<close>

definition demo_circle :: call_world where
  "demo_circle = demo_world\<lparr>
     w_circles := [\<lparr>ci_id = ''g'', ci_groupID = None, ci_adminState = CA_ACTIVE, ci_deleted = False\<rparr>],
     w_circleMembers := [\<lparr>cm_circleID = ''g'', cm_userID = ''a'', cm_status = CM_ACTIVE\<rparr>]\<rparr>"

lemmas trim_eval = js_trim_def is_space_def code_def of_char_def

lemmas group_eval = demo_circle_def demo_defs group_call_params_def normalizeID_def uniqueIDs_def trim_eval
  assertCallTypeEnabled_def assertParticipantLimit_def assertGroupMembers_def check_members_def active_members_def
  groupIDCandidates_def filterCallableInvitees_def permissionAllows_def loadActiveUsers_def Let_def

lemma demo_outsider:
  "group_call_params demo_config 0 ''a'' ''g'' [''b''] AUDIO None demo_circle = Inl InviteeInvalid"
  by (simp add: group_eval)

theorem refusals_hide_permission_witness:
  "group_call_params demo_config 0 ''a'' ''g'' [''b''] AUDIO None (demo_circle\<lparr>w_callPermission := (\<lambda>_. NOBODY)\<rparr>)
     = Inl InviteeInvalid"
  using refusals_hide_permission [OF refl, of 0 "''g''" "''a''" "[''b'']" demo_circle demo_config AUDIO None
      "\<lambda>_. NOBODY" InviteeInvalid "''b''"] demo_outsider
  by (simp add: assertGroupMembers_def check_members_def active_members_def groupIDCandidates_def uniqueIDs_def trim_eval
      demo_circle_def)

text \<open>
  Where it does not hold: a member whose account is not active is filtered away before the accounts are loaded, so that
  the answer to a call to them alone depends on their setting.
\<close>

lemma inactive_member_reveals:
  assumes "assertGroupMembers now (js_trim conv) [u, k] u w = Inr ()" "js_trim conv \<noteq> ''''" "js_trim k = k" "k \<noteq> ''''" "k \<noteq> u"
    and "k \<notin> set (w_activeUsers w)" "distinct (w_activeUsers w)" "2 \<le> cf_maxParticipants cfg"
  shows "group_call_params cfg now u conv [k] AUDIO key (w\<lparr>w_callPermission := (\<lambda>_. NOBODY)\<rparr>) = Inl InviteesRequired"
    and "group_call_params cfg now u conv [k] AUDIO key (w\<lparr>w_callPermission := (\<lambda>_. EVERYONE)\<rparr>) = Inl InviteeInvalid"
proof -
  have "length (filter (\<lambda>x. x \<in> {u, k}) (w_activeUsers w)) = card (set (filter (\<lambda>x. x \<in> {u, k}) (w_activeUsers w)))"
    using assms(7) by (intro distinct_card [symmetric] distinct_filter)
  also have "\<dots> \<le> card {u}" using assms(6) by (intro card_mono) auto
  finally have few: "length (filter (\<lambda>x. x = u \<or> x = k) (w_activeUsers w)) < 2" by simp
  note unf = group_call_params_def Let_def normalizeID_def uniqueIDs_def assertGroupMembers_permission
    assertCallTypeEnabled_def assertParticipantLimit_def filterCallableInvitees_def permissionAllows_def loadActiveUsers_def
  show "group_call_params cfg now u conv [k] AUDIO key (w\<lparr>w_callPermission := (\<lambda>_. NOBODY)\<rparr>) = Inl InviteesRequired"
    using assms by (simp add: unf)
  show "group_call_params cfg now u conv [k] AUDIO key (w\<lparr>w_callPermission := (\<lambda>_. EVERYONE)\<rparr>) = Inl InviteeInvalid"
    using assms few by (simp add: unf)
qed

section \<open>Starts that fail\<close>






lemma rooms_set_call [simp]: "rooms (set_call p f db) = rooms db" and rooms_set_parts [simp]: "rooms (set_parts q f' db) = rooms db"
  by (simp_all add: set_call_def set_parts_def)



lemma calls_deleteRoom [simp]: "calls (deleteRoom r db) = calls db"
  by (simp add: deleteRoom_def)









section \<open>Sweeping\<close>

definition missed_row :: "int \<Rightarrow> call_row \<Rightarrow> call_row" where
  "missed_row now c = c\<lparr>ca_status := C_MISSED, ca_endReason := Some NO_ANSWER, ca_endedAt := Some now\<rparr>"

lemma update_where_id: "(\<And>r. r \<in> set rows \<Longrightarrow> \<not> p r) \<Longrightarrow> update_where p f rows = rows"
  by (simp add: update_where_def map_idI)

lemma calls_expire:
  "calls (expireRingingCallAsMissed solo now quiet v db) =
     update_where (\<lambda>c. ca_id c = ca_id (vw_call v) \<and> ca_status c = C_RINGING) (missed_row now) (calls db)"
proof (cases "count_where (\<lambda>c. ca_id c = ca_id (vw_call v) \<and> ca_status c = C_RINGING) (calls db) = 0")
  case True
  then show ?thesis
    by (simp add: expireRingingCallAsMissed_def end_call_def) (subst update_where_id, auto simp: count_where_0_iff)
next
  case False
  then show ?thesis
    by (simp add: expireRingingCallAsMissed_def end_call_def Let_def solo_def mark_missed_def set_parts_def set_call_def
        deleteRoom_def missed_row_def update_where_def)
qed

lemma calls_expire_each:
  "calls (expire_each solo now vs db) =
     update_where (\<lambda>c. ca_id c \<in> (\<lambda>v. ca_id (vw_call v)) ` set vs \<and> ca_status c = C_RINGING) (missed_row now) (calls db)"
proof (induction vs arbitrary: db)
  case (Cons v vs)
  have s: "(\<lambda>k. solo (k + 3)) = solo" by (simp add: fun_eq_iff solo_def)
  have s2: "solo 2 d = d" for d by (simp add: solo_def)
  show ?case
    by (simp add: s s2 Cons.IH calls_expire) (auto simp: update_where_def missed_row_def)
qed (simp add: update_where_id)

lemma filter_notin_take: "distinct xs \<Longrightarrow> filter (\<lambda>x. x \<notin> set (take n xs)) xs = drop n xs"
proof -
  assume d: "distinct xs"
  define as bs where "as = take n xs" and "bs = drop n xs"
  have "set as \<inter> set bs = {}" unfolding as_def bs_def using set_take_disj_set_drop_if_distinct [OF d, of n n] by simp
  then have "filter (\<lambda>x. x \<notin> set as) (as @ bs) = bs" by (auto simp: filter_empty_conv filter_id_conv)
  then show ?thesis by (simp add: as_def bs_def)
qed

lemma sweep_calls:
  assumes "call_inv db" "stale = take limit (filter (stale_ringing now) (calls db))"
  shows "calls (snd (sweepExpiredRingingCalls solo now limit db)) =
    map (\<lambda>c. if c \<in> set stale then missed_row now c else c) (calls db)"
proof -
  have hit: "ca_id c \<in> ca_id ` set stale \<and> ca_status c = C_RINGING \<longleftrightarrow> c \<in> set stale" if c: "c \<in> set (calls db)" for c
  proof
    assume "ca_id c \<in> ca_id ` set stale \<and> ca_status c = C_RINGING"
    then obtain c' where c': "c' \<in> set stale" "ca_id c = ca_id c'" by auto
    then have "c' \<in> set (calls db)" using assms(2) by (auto dest: in_set_takeD)
    moreover have "distinct (map ca_id (calls db))" using assms(1) by (simp add: call_inv_def)
    ultimately have "c = c'" using distinct_map_eq [OF _ c, of ca_id c'] c'(2) by blast
    then show "c \<in> set stale" using c'(1) by simp
  next
    assume "c \<in> set stale"
    then show "ca_id c \<in> ca_id ` set stale \<and> ca_status c = C_RINGING"
      using assms(2) by (auto simp: stale_ringing_def dest!: in_set_takeD)
  qed
  have "(\<lambda>v. ca_id (vw_call v)) ` set (map (\<lambda>c. view_of c db) stale) = ca_id ` set stale"
    by (auto simp: view_of_def image_image)
  then show ?thesis
    using hit by (simp add: sweepExpiredRingingCalls_def Let_def calls_expire_each assms(2) [symmetric] update_where_def)
qed

lemma count_where_map: "count_where p (map g rows) = count_where (\<lambda>r. p (g r)) rows"
  by (induction rows) simp_all

lemma sweep_count:
  assumes "call_inv db"
  shows "count_where (stale_ringing now) (calls (snd (sweepExpiredRingingCalls solo now limit db))) =
    count_where (stale_ringing now) (calls db) - limit"
proof -
  define stale where "stale = take limit (filter (stale_ringing now) (calls db))"
  have "distinct (calls db)" using assms by (simp add: call_inv_def distinct_map)
  then have d: "distinct (filter (stale_ringing now) (calls db))" by simp
  have m: "\<not> stale_ringing now (missed_row now c)" for c by (simp add: stale_ringing_def missed_row_def)
  have "count_where (stale_ringing now) (calls (snd (sweepExpiredRingingCalls solo now limit db))) =
      count_where (\<lambda>c. stale_ringing now c \<and> c \<notin> set stale) (calls db)"
    unfolding sweep_calls [OF assms stale_def] count_where_map
    by (rule count_where_cong) (simp add: m)
  also have "\<dots> = length (filter (\<lambda>c. c \<notin> set stale) (filter (stale_ringing now) (calls db)))"
    by (simp add: count_where_def conj_commute)
  also have "\<dots> = count_where (stale_ringing now) (calls db) - limit"
    unfolding stale_def filter_notin_take [OF d] by (simp add: count_where_def)
  finally show ?thesis .
qed

fun sweeps :: "nat \<Rightarrow> int \<Rightarrow> nat \<Rightarrow> call_db \<Rightarrow> call_db" where
  "sweeps 0 now limit db = db"
| "sweeps (Suc n) now limit db = sweeps n now limit (snd (sweepExpiredRingingCalls solo now limit db))"

text \<open>
  C34: The sweeper gets done. One sweep turns exactly the first \<open>limit\<close> calls that have rung too long into missed
  ones and touches no other row; and since every sweep makes the backlog shorter by \<open>limit\<close>, as many sweeps as the
  backlog has batches leave no call ringing past its time.
\<close>

theorem sweep_ends_stale_calls:
  assumes "call_inv db" "stale = take limit (filter (stale_ringing now) (calls db))"
  shows "sweepExpiredRingingCalls solo now limit db = (length stale, snd (sweepExpiredRingingCalls solo now limit db))
    \<and> calls (snd (sweepExpiredRingingCalls solo now limit db)) =
        map (\<lambda>c. if c \<in> set stale then missed_row now c else c) (calls db)
    \<and> (count_where (stale_ringing now) (calls db) \<le> n * limit \<longrightarrow>
        count_where (stale_ringing now) (calls (sweeps n now limit db)) = 0)"
proof -
  have "call_inv db \<Longrightarrow> count_where (stale_ringing now) (calls (sweeps n now limit db)) =
      count_where (stale_ringing now) (calls db) - n * limit" for n db
  proof (induction n arbitrary: db)
    case (Suc n)
    have "call_inv (snd (sweepExpiredRingingCalls solo now limit db))"
      by (rule evolves_inv [OF evolves_sweep [OF rely_solo Suc.prems]])
    then show ?case by (simp add: Suc.IH sweep_count [OF Suc.prems])
  qed simp
  with assms(1) sweep_calls [OF assms] show ?thesis
    by (simp add: sweepExpiredRingingCalls_def Let_def assms(2))
qed

theorem sweep_ends_stale_calls_witness:
  "calls (snd (sweepExpiredRingingCalls solo 50000 5 demo_ringing)) = [missed_row 50000 demo_call]"
  using sweep_ends_stale_calls [OF demo_ringing_inv refl, of 50000 5 1]
  by (simp add: demo_ringing_def demo_call_def stale_ringing_def)

end
