(* ===== verification/CallRecord.thy ===== *)
theory CallRecord
  imports CallClaims
begin

text \<open>
  The record message an ended call leaves in its conversation: \<open>emitCallRecordMessage\<close> of
  \<open>src/call/call.service.ts\<close> on the message store. The sender runs detached from the request; the
  network may lose an attempt before it reaches the database, or break it after its commit.
\<close>

section \<open>Data\<close>

text \<open>What the world does to the k-th attempt: its outcome, the id drawn for the row, other requests before it.\<close>

record send_env =
  sd_outcome :: "nat \<Rightarrow> attempt_outcome"
  sd_freshId :: "nat \<Rightarrow> chat_db \<Rightarrow> string"
  sd_others :: "nat \<Rightarrow> chat_db \<Rightarrow> chat_db"

definition end_reason_name :: "end_reason \<Rightarrow> string" where
  "end_reason_name r = (case r of NORMAL \<Rightarrow> ''NORMAL'' | CANCELED \<Rightarrow> ''CANCELED'' | ALL_LEFT \<Rightarrow> ''ALL_LEFT''
     | NO_ANSWER \<Rightarrow> ''NO_ANSWER'' | TIMEOUT \<Rightarrow> ''TIMEOUT'' | NETWORK \<Rightarrow> ''NETWORK'' | ERROR \<Rightarrow> ''ERROR'')"

definition record_content :: "call_row \<Rightarrow> end_reason \<Rightarrow> int \<Rightarrow> content" where
  "record_content c why endedAt = JsonFields
     [(''callId'', ca_id c), (''callType'', case ca_callType c of AUDIO \<Rightarrow> ''AUDIO'' | VIDEO \<Rightarrow> ''VIDEO''),
      (''sessionType'', if ca_sessionType c \<noteq> GROUP_SESSION_TYPE then ''single'' else ''group''),
      (''endReason'', end_reason_name why),
      (''durationSeconds'', case durationSeconds (ca_startedAt c) (Some endedAt) of None \<Rightarrow> ''null'' | Some d \<Rightarrow> show_nat (nat d)),
      (''initiatorID'', ca_initiatorID c)]"

definition record_key :: "string \<Rightarrow> string" where
  "record_key i = ''call_record_'' @ i"

definition record_input :: "call_ending \<Rightarrow> server_input" where
  "record_input e =
     (let c = vw_call (en_view e) in
      \<lparr>si_sender = Some (ca_initiatorID c), si_type = ''call-record'',
       si_content = record_content c (en_reason e) (en_endedAt e),
       si_clientId = Some (record_key (ca_id c)),
       si_push = (ca_sessionType c \<noteq> GROUP_SESSION_TYPE \<and> en_reason e = NO_ANSWER \<and> \<not> en_suppressOfflinePush e),
       si_rebroadcast = False\<rparr>)"

section \<open>Operations\<close>

text \<open>
  The conversation of the record: the pair's own, opened if need be, without the checks made for
  interactive messages; for a group the conversation named by the call, or that of the named circle.
\<close>

definition record_conversation ::
  "(chat_db \<Rightarrow> chat_db) \<Rightarrow> string \<Rightarrow> call_world \<Rightarrow> call_ending \<Rightarrow> chat_db \<Rightarrow> chat_db \<times> string option" where
  "record_conversation others freshId w e db =
     (let c = vw_call (en_view e) in
      if ca_initiatorID c = '''' \<or> ca_conversationID c = '''' then (db, None)
      else if ca_sessionType c \<noteq> GROUP_SESSION_TYPE
      then (case find_where (\<lambda>p. cp_userID p \<noteq> ca_initiatorID c) (vw_participants (en_view e)) of
              None \<Rightarrow> (db, None)
            | Some p \<Rightarrow>
                (case ensureDirectConversationForSettlement others freshId (ca_initiatorID c) (cp_userID p) db of
                   (db', Inr k) \<Rightarrow> (db', if k = '''' then None else Some k)
                 | (db', Inl _) \<Rightarrow> (db', None)))
      else (db, (case find_where (\<lambda>v. cc_id v = ca_conversationID c) (w_conversations w) of
                   Some v \<Rightarrow> Some (cc_id v)
                 | None \<Rightarrow> map_option cc_id (find_where (\<lambda>v. cc_circleID v = Some (ca_conversationID c)) (w_conversations w)))))"

text \<open>
  The attempts. One that fails leaves what it had committed: \<open>NotSent\<close> is an attempt that breaks before its
  commit, \<open>ReplyLost\<close> one that breaks after it (the answer, the media URLs or the broadcast).
\<close>

fun send_record ::
  "(string \<Rightarrow> string) \<Rightarrow> int \<Rightarrow> send_env \<Rightarrow> string \<Rightarrow> server_input \<Rightarrow> nat \<Rightarrow> nat \<Rightarrow> chat_db \<Rightarrow> bool \<times> chat_db" where
  "send_record h now env c inp k 0 db = (False, db)"
| "send_record h now env c inp k (Suc left) db =
     (let db0 = sd_others env k db;
          again = (\<lambda>d. send_record h now env c inp (k + 1) left d)
      in if sd_outcome env k = NotSent then again db0
         else case insertServerMessage (\<lambda>_. sd_outcome env k = Arrives) h now (sd_freshId env k db0)
                     (\<lambda>_. Inr ()) c inp db0 of
                (Inr _, db') \<Rightarrow> (True, db')
              | (Inl _, db') \<Rightarrow> again db')"

lemma send_record_Suc:
  "send_record h now env c inp k (Suc left) db =
     (let db0 = sd_others env k db;
          again = (\<lambda>d. send_record h now env c inp (k + 1) left d);
          r = storeServerMessage h now (sd_freshId env k db0) (\<lambda>_. Inr ()) c inp db0
      in case sd_outcome env k of
           NotSent \<Rightarrow> again db0
         | Arrives \<Rightarrow> (case r of Inr (_, db') \<Rightarrow> (True, db') | Inl _ \<Rightarrow> again db0)
         | ReplyLost \<Rightarrow> again (case r of Inr (_, db') \<Rightarrow> db' | Inl _ \<Rightarrow> db0))"
  by (cases "sd_outcome env k") (simp_all add: insertServerMessage_def Let_def split: sum.split prod.split)

declare send_record.simps(2) [simp del] send_record_Suc [simp]

definition emitCallRecordMessage ::
  "(string \<Rightarrow> string) \<Rightarrow> int \<Rightarrow> send_env \<Rightarrow> (chat_db \<Rightarrow> chat_db) \<Rightarrow> string \<Rightarrow> call_world \<Rightarrow> call_ending \<Rightarrow> chat_db
   \<Rightarrow> string option \<times> chat_db" where
  "emitCallRecordMessage h now env others freshId w e db =
     (case record_conversation others freshId w e db of
        (db1, None) \<Rightarrow> (None, db1)
      | (db1, Some c) \<Rightarrow>
          (case send_record h now env c (record_input e) 0 CALL_RECORD_SEND_ATTEMPTS db1 of
             (sent, db2) \<Rightarrow> (if sent then Some c else None, db2)))"

section \<open>Lemmas\<close>

definition record_count :: "string \<Rightarrow> string \<Rightarrow> string \<Rightarrow> chat_db \<Rightarrow> nat" where
  "record_count c u i db = count_where (\<lambda>m. ms_conv m = c \<and> ms_sender m = Some u \<and> ms_clientId m = Some (record_key i)) (msgs db)"

lemma record_count_le:
  assumes "chat_inv db"
  shows "record_count c u i db \<le> 1"
proof -
  have "record_count c u i db =
      count_where (\<lambda>m. message_key m = (c, Some u, Some (record_key i))) (filter keyed_message (msgs db))"
    unfolding record_count_def count_where_def filter_filter
    by (rule arg_cong [where f = length], rule filter_cong) (auto simp: keyed_message_def message_key_def)
  then show ?thesis using count_where_unique_le [OF chat_inv_keys [OF assms]] by simp
qed

lemma storeServerMessage_inv:
  "chat_inv db \<Longrightarrow> storeServerMessage h now i g c inp db = Inr (d, db') \<Longrightarrow> chat_inv db'"
  by (auto simp: storeServerMessage_Inr_iff intro: insertServerMessage_tx_inv)

lemma send_record_inv:
  "(\<And>k d. chat_inv d \<Longrightarrow> chat_inv (sd_others env k d)) \<Longrightarrow> chat_inv db \<Longrightarrow>
   chat_inv (snd (send_record h now env c inp k n db))"
proof (induction n arbitrary: k db)
  case (Suc n)
  then have 0: "chat_inv (sd_others env k db)" by simp
  with Suc storeServerMessage_inv [OF 0] show ?case
    by (auto simp: Let_def split: attempt_outcome.split sum.split prod.split)
qed simp

lemma ensure_inv:
  "chat_inv db \<Longrightarrow> chat_inv (others db) \<Longrightarrow> chat_inv (fst (ensureDirectConversationForSettlement others i a b db))"
  by (auto simp: ensureDirectConversationForSettlement_def Let_def split: option.split sum.split intro: create_direct_inv)

lemma record_conversation_inv:
  "chat_inv db \<Longrightarrow> chat_inv (others db) \<Longrightarrow> chat_inv (fst (record_conversation others i w e db))"
  using ensure_inv [of db others i]
  by (auto simp: record_conversation_def Let_def split: option.split prod.split sum.split)
     (metis fst_conv)+

text \<open>A record that was written or found lies in its conversation under its key.\<close>

lemma record_sent:
  assumes "storeServerMessage h now i g c inp db = Inr (d, db')" "inp = record_input e"
    and "ca_initiatorID (vw_call (en_view e)) \<noteq> ''''" "length (ca_id (vw_call (en_view e))) \<le> 100"
  shows "0 < record_count c (ca_initiatorID (vw_call (en_view e))) (ca_id (vw_call (en_view e))) db'"
proof -
  obtain row reused where tx: "insertServerMessage_tx h now i g c inp db = Inr ((row, reused), db')"
    using assms(1) by (auto simp: storeServerMessage_Inr_iff)
  have key: "bounded_client_id h (Some (record_key (ca_id (vw_call (en_view e))))) = Some (record_key (ca_id (vw_call (en_view e))))"
    "record_key (ca_id (vw_call (en_view e))) \<noteq> ''''"
    using assms(4) by (simp_all add: bounded_client_id_def record_key_def)
  have "row \<in> set (msgs db') \<and> ms_conv row = c \<and> ms_sender row = Some (ca_initiatorID (vw_call (en_view e)))
      \<and> ms_clientId row = Some (record_key (ca_id (vw_call (en_view e))))"
    using tx assms(2,3) key
    by (auto simp: insertServerMessage_tx_def Let_def record_input_def bind_res_Inr_iff write_message_def
        split: option.splits if_splits dest: find_where_SomeD)
  then show ?thesis by (auto simp: record_count_def count_where_pos_iff)
qed

lemma send_record_sent:
  assumes "send_record h now env c (record_input e) k n db = (True, db')"
    and "ca_initiatorID (vw_call (en_view e)) \<noteq> ''''" "length (ca_id (vw_call (en_view e))) \<le> 100"
  shows "0 < record_count c (ca_initiatorID (vw_call (en_view e))) (ca_id (vw_call (en_view e))) db'"
  using assms(1)
proof (induction n arbitrary: k db)
  case (Suc n)
  then show ?case
    using record_sent [OF _ refl assms(2,3)]
    by (auto simp: Let_def split: attempt_outcome.splits sum.splits prod.splits)
qed simp

text \<open>
  C23: One record per call, however often it is sent. Whatever attempts the network loses, and whatever other
  requests do between them as long as they keep the store's invariant, no conversation ever holds two
  records of a call; and when the sender reports success, the conversation holds exactly one.
\<close>

theorem call_record_written_once:
  assumes "chat_inv db" "chat_inv (others db)" "\<forall>k d. chat_inv d \<longrightarrow> chat_inv (sd_others env k d)"
    and "c = vw_call (en_view e)" "ca_initiatorID c \<noteq> ''''" "length (ca_id c) \<le> 100"
    and "emitCallRecordMessage h now env others freshId w e db = (sent, db')"
  shows "(\<forall>k. record_count k (ca_initiatorID c) (ca_id c) db' \<le> 1)
    \<and> (\<forall>k. sent = Some k \<longrightarrow> record_count k (ca_initiatorID c) (ca_id c) db' = 1)"
proof -
  obtain db1 r where rc: "record_conversation others freshId w e db = (db1, r)" by fastforce
  have inv1: "chat_inv db1" using record_conversation_inv [of db others freshId w e, OF assms(1,2)] rc by simp
  have inv: "chat_inv db'"
  proof (cases r)
    case None
    with assms(7) rc inv1 show ?thesis by (simp add: emitCallRecordMessage_def)
  next
    case (Some k)
    with assms(7) rc have "db' = snd (send_record h now env k (record_input e) 0 CALL_RECORD_SEND_ATTEMPTS db1)"
      by (auto simp: emitCallRecordMessage_def split: prod.splits)
    with send_record_inv [OF _ inv1] assms(3) show ?thesis by simp
  qed
  have "record_count k (ca_initiatorID c) (ca_id c) db' = 1" if k: "sent = Some k" for k
  proof -
    have "send_record h now env k (record_input e) 0 CALL_RECORD_SEND_ATTEMPTS db1 = (True, db')"
      using assms(7) rc k by (auto simp: emitCallRecordMessage_def split: option.splits prod.splits if_splits)
    from send_record_sent [OF this] record_count_le [OF inv, of k "ca_initiatorID c" "ca_id c"] assms(4-6)
    show ?thesis by simp
  qed
  with record_count_le [OF inv] show ?thesis by blast
qed

definition demo_ending :: call_ending where
  "demo_ending = \<lparr>en_view = \<lparr>vw_call = demo_call,
     vw_participants = [new_participant 1000 ''c-1'' ''a'' ''a'', new_participant 1000 ''c-1'' ''a'' ''b'']\<rparr>,
     en_reason = NO_ANSWER, en_endedAt = 46000, en_suppressOfflinePush = False\<rparr>"

definition demo_send :: send_env where
  "demo_send = \<lparr>sd_outcome = (\<lambda>k. if k = 0 then ReplyLost else if k = 1 then NotSent else Arrives),
     sd_freshId = (\<lambda>_ d. ''m'' @ concat (map ms_id (msgs d))), sd_others = (\<lambda>_ d. d)\<rparr>"

theorem call_record_written_once_witness:
  "(\<forall>k. record_count k ''a'' ''c-1'' (snd (emitCallRecordMessage (\<lambda>s. s) 50000 demo_send (\<lambda>d. d) ''x'' demo_world demo_ending demo_chat)) \<le> 1)"
proof -
  let ?r = "emitCallRecordMessage (\<lambda>s. s) 50000 demo_send (\<lambda>d. d) ''x'' demo_world demo_ending demo_chat"
  have "(\<forall>k. record_count k (ca_initiatorID demo_call) (ca_id demo_call) (snd ?r) \<le> 1)
    \<and> (\<forall>k. fst ?r = Some k \<longrightarrow> record_count k (ca_initiatorID demo_call) (ca_id demo_call) (snd ?r) = 1)"
    by (rule call_record_written_once [where db = demo_chat and others = "\<lambda>d. d" and env = demo_send and e = demo_ending])
      (simp_all add: demo_chat_inv demo_ending_def demo_send_def, simp_all add: demo_call_def)
  then show ?thesis by (simp add: demo_call_def)
qed


lemma send_record_arrives:
  assumes env: "\<forall>k d. chat_inv d \<longrightarrow> chat_inv (sd_others env k d) \<and> (find_conv c d \<noteq> None \<longrightarrow> find_conv c (sd_others env k d) \<noteq> None)"
      "\<forall>k d. \<forall>x \<in> set (msgs d). ms_id x \<noteq> sd_freshId env k d"
    and hit: "k \<le> j" "j < k + n" "sd_outcome env j = Arrives"
    and db: "chat_inv db" "find_conv c db \<noteq> None"
  shows "fst (send_record h now env c inp k n db)"
  using hit(1,2) db
proof (induction n arbitrary: k db)
  case (Suc n)
  define d where "d = sd_others env k db"
  have inv: "chat_inv d" and "find_conv c d \<noteq> None" using env(1) Suc.prems(3,4) by (auto simp: d_def)
  then obtain v where v: "find_conv c d = Some v" by auto
  obtain dl d' where ins: "storeServerMessage h now (sd_freshId env k d) (\<lambda>_. Inr ()) c inp d = Inr (dl, d')"
    using storeServerMessage_total [OF inv v, of "\<lambda>_. Inr ()" "sd_freshId env k d" h now inp] env(2) by auto
  have inv': "chat_inv d'" by (rule storeServerMessage_inv [OF inv ins])
  have "find_conv c d' \<noteq> None"
    using ins v by (auto simp: storeServerMessage_Inr_iff elim!: insertServerMessage_tx_cases)
      (auto simp: write_message_def find_conv_def find_where_update split: if_splits)
  then have next_ok: "fst (send_record h now env c inp (k + 1) n e)" if "e = d \<or> e = d'" "k \<noteq> j" for e
    using Suc.IH [of "k + 1" e] Suc.prems(1,2) that inv inv' v by auto
  show ?case
  proof (cases "k = j")
    case True
    with hit(3) ins show ?thesis by (simp add: Let_def d_def)
  next
    case False
    with next_ok ins show ?thesis by (simp add: Let_def d_def [symmetric] split: attempt_outcome.split)
  qed
qed simp

text \<open>
  A finished direct call leaves its record although the pair is strangers or blocks each other by then: if one of the
  three attempts reaches the database, and other requests keep the store's invariant and delete no
  conversation meanwhile, the record is sent, whatever happened to the other attempts.
\<close>

lemma call_record_arrives:
  assumes "\<forall>k d. chat_inv d \<longrightarrow> chat_inv (sd_others env k d) \<and> (\<forall>c. find_conv c d \<noteq> None \<longrightarrow> find_conv c (sd_others env k d) \<noteq> None)"
    and "\<forall>k d. \<forall>x \<in> set (msgs d). ms_id x \<noteq> sd_freshId env k d"
    and "chat_inv db" "chat_inv (others db)" "find_conv i (others db) = None" "i \<noteq> ''''"
      "\<forall>v \<in> set (convs db) \<union> set (convs (others db)). cv_id v \<noteq> ''''"
    and "c = vw_call (en_view e)" "ca_initiatorID c \<noteq> ''''" "ca_conversationID c \<noteq> ''''"
      "ca_sessionType c \<noteq> GROUP_SESSION_TYPE" "p \<in> set (vw_participants (en_view e))" "cp_userID p \<noteq> ca_initiatorID c"
    and "j < 3" "sd_outcome env j = Arrives"
  shows "fst (emitCallRecordMessage h now env others i w e db) \<noteq> None"
proof -
  have "find_where (\<lambda>p. cp_userID p \<noteq> ca_initiatorID c) (vw_participants (en_view e)) \<noteq> None"
    using assms(12,13) by (auto simp: find_where_None_iff)
  then obtain q where q: "find_where (\<lambda>p. cp_userID p \<noteq> ca_initiatorID c) (vw_participants (en_view e)) = Some q" by blast
  then have ne: "ca_initiatorID c \<noteq> cp_userID q" by (auto dest: find_where_SomeD)
  obtain db1 r where en: "ensureDirectConversationForSettlement others i (ca_initiatorID c) (cp_userID q) db = (db1, r)" by fastforce
  have "\<exists>k. r = Inr k \<and> k \<noteq> '''' \<and> find_conv k db1 \<noteq> None"
    using en ne assms(5-7)
    by (auto simp: ensureDirectConversationForSettlement_def Let_def create_direct_def find_conv_def find_where_append
        find_where_None_iff split: option.splits sum.splits if_splits dest!: find_direct_SomeD)
  then obtain k where k: "r = Inr k" "k \<noteq> ''''" "find_conv k db1 \<noteq> None" by blast
  have rc: "record_conversation others i w e db = (db1, Some k)"
    using assms(8-11) q en k by (simp add: record_conversation_def Let_def)
  have inv1: "chat_inv db1" using record_conversation_inv [of db others i w e, OF assms(3,4)] rc by simp
  have "fst (send_record h now env k (record_input e) 0 CALL_RECORD_SEND_ATTEMPTS db1)"
    using assms(1,2,14,15) inv1 k(3)
    by (intro send_record_arrives [where j = j]) (auto simp: CALL_RECORD_SEND_ATTEMPTS_def)
  then show ?thesis by (auto simp: emitCallRecordMessage_def rc split: prod.split)
qed

lemma demo_fresh: "x \<in> set (msgs d) \<Longrightarrow> ms_id x \<noteq> CHR ''m'' # concat (map ms_id (msgs d))"
proof
  assume x: "x \<in> set (msgs d)" and eq: "ms_id x = CHR ''m'' # concat (map ms_id (msgs d))"
  have "length (ms_id x) \<le> length (concat (map ms_id (msgs d)))"
    using member_le_sum_list [of "length (ms_id x)" "map (\<lambda>m. length (ms_id m)) (msgs d)"] x
    by (auto simp: length_concat comp_def)
  with arg_cong [OF eq, of length] show False by simp
qed

end
