(* ===== verification/Friend.thy ===== *)
theory Friend
  imports JsValue
begin

text \<open>
  Friend requests, friendships, tags and blocks: \<open>src/friend/friend.service.ts\<close> and the group policy gate
  \<open>src/chat/standalone-group-policy-gate.ts\<close>. Reads before a transaction and the transaction itself are
  separate steps; \<open>others k\<close> is what other requests do before the k-th step. A
  transaction runs alone (the code serializes it with advisory locks) and an error inside it changes
  nothing. Broadcasts, notifications and logs are left out.
\<close>

section \<open>Data\<close>

datatype friend_permission = FULL | CHAT_ONLY

datatype user_role = R_USER | R_MEMBER | R_ADMIN

datatype activity_type =
    REQUEST_RECEIVED | REQUEST_SENT | REQUEST_MESSAGE_RECEIVED | REQUEST_ACCEPTED_BY_OTHER
  | REQUEST_REJECTED_BY_OTHER | REQUEST_ACCEPTED_BY_ME | REQUEST_REJECTED_BY_ME | REQUEST_WITHDRAWN_BY_OTHER

datatype report_status = RP_PENDING | RP_APPROVED | RP_REJECTED

datatype replay_status = RS_PENDING | RS_PROCESSING | RS_FAILED | RS_COMPLETED

record friend_row =
  fr_id :: string
  fr_userID :: string
  fr_friendID :: string
  fr_state :: friend_state
  fr_message :: "string option"
  fr_pendingRemarkBySender :: "string option"
  fr_pendingDescriptionBySender :: "string option"
  fr_pendingPhotosBySender :: "string list"
  fr_pendingPermissionBySender :: "friend_permission option"
  fr_remarkA :: "string option"
  fr_remarkB :: "string option"
  fr_descriptionA :: "string option"
  fr_descriptionB :: "string option"
  fr_photosA :: "string list"
  fr_photosB :: "string list"
  fr_permissionA :: friend_permission
  fr_permissionB :: friend_permission
  fr_createdAt :: int
  fr_updatedAt :: int

record thread_message =
  tm_id :: string
  tm_requestId :: string
  tm_senderId :: string
  tm_content :: string
  tm_createdAt :: int

record activity_row =
  fa_id :: string
  fa_requestId :: string
  fa_viewerId :: string
  fa_actorId :: string
  fa_counterpartyId :: string
  fa_type :: activity_type
  fa_messageSnapshot :: "string option"
  fa_readAt :: "int option"
  fa_createdAt :: int

record friend_tag =
  ft_id :: string
  ft_ownerID :: string
  ft_name :: string
  ft_color :: "string option"

record tag_link =
  tl_ownerID :: string
  tl_tagID :: string
  tl_friendID :: string

record pending_link =
  pl_ownerID :: string
  pl_requestID :: string
  pl_tagID :: string

record block_row =
  bk_blockerID :: string
  bk_blockedID :: string
  bk_createdAt :: int

record report_row =
  fp_reporterID :: string
  fp_targetID :: string
  fp_category :: string
  fp_status :: report_status
  fp_description :: string
  fp_evidence :: "string list"

record replay_job =
  rj_id :: string
  rj_requestId :: string
  rj_requesterUserID :: string
  rj_accepterUserID :: string
  rj_status :: replay_status
  rj_leaseToken :: "string option"
  rj_stage :: nat
  rj_messageIndex :: nat
  rj_attempts :: nat
  rj_nextAttemptAt :: int
  rj_lockedAt :: "int option"
  rj_createdAt :: int

record friend_user =
  fu_id :: string
  fu_status :: user_status
  fu_role :: user_role
  fu_activitiesBackfilledAt :: "int option"

record privacy_settings =
  ps_allowStrangerMessages :: bool
  ps_addMeByAccount :: bool
  ps_addMeByGroup :: bool
  ps_addMeByQrCode :: bool

record qr_token =
  qt_token :: string
  qt_isUser :: bool
  qt_targetID :: string
  qt_revokedAt :: "int option"
  qt_expiresAt :: "int option"

record circle_seat =
  kk_circleID :: string
  kk_userID :: string
  kk_active :: bool
  kk_manager :: bool

record group_chat =
  gg_id :: string
  gg_isGroup :: bool
  gg_circleID :: "string option"
  gg_ownerID :: "string option"
  gg_membersCanAddFriends :: bool

record group_seat =
  gs_conversationID :: string
  gs_userID :: string
  gs_admin :: bool
  gs_leftAt :: "int option"

record friend_db =
  fd_friends :: "friend_row list"
  fd_threads :: "thread_message list"
  fd_activities :: "activity_row list"
  fd_tags :: "friend_tag list"
  fd_tagLinks :: "tag_link list"
  fd_pendingLinks :: "pending_link list"
  fd_blocks :: "block_row list"
  fd_reports :: "report_row list"
  fd_replays :: "replay_job list"
  fd_users :: "friend_user list"
  fd_settings :: "string \<Rightarrow> privacy_settings"
  fd_qrTokens :: "qr_token list"
  fd_deletedCircles :: "string list"
  fd_circleSeats :: "circle_seat list"
  fd_groups :: "group_chat list"
  fd_groupSeats :: "group_seat list"

datatype friend_error =
    SelfAdd | NotFromStorage | GroupAddForbidden | UserNotFound | BlockedCannotRequest | StrangerMsgNotAllowed
  | NotDiscoverable | LimitReached | TagNotFound | AlreadyFriends | RequestAlreadyPending | PendingRequestNotFound
  | RequestAlreadyHandled | RequesterUnavailable | FriendshipNotFound | ReportSelf | ReportDuplicate
  | ActivityNotFound | BlockSelf | AlreadyBlocked | BlockNotFound | TagNameEmpty | TagLimitReached
  | RequestMessageInvalid | RequestNotPending | RequestMessageLimit | FriendUniqueViolation | FriendRecordNotFound

definition FRIEND_LIMIT_USER :: nat where "FRIEND_LIMIT_USER = 1000"

definition FRIEND_LIMIT_MEMBER :: nat where "FRIEND_LIMIT_MEMBER = 5000"

definition BLOCKED_PAGE_SIZE :: nat where "BLOCKED_PAGE_SIZE = 1000"

definition FRIEND_REQUEST_MESSAGE_MAX_LENGTH :: nat where "FRIEND_REQUEST_MESSAGE_MAX_LENGTH = 500"

definition FRIEND_REQUEST_MESSAGE_SENDER_SOFT_CAP :: nat where "FRIEND_REQUEST_MESSAGE_SENDER_SOFT_CAP = 5"

definition FRIEND_REQUEST_MESSAGE_TOTAL_CAP :: nat where "FRIEND_REQUEST_MESSAGE_TOTAL_CAP = 50"

definition MAX_FRIEND_TAGS_PER_USER :: nat where "MAX_FRIEND_TAGS_PER_USER = 50"

type_synonym friend_others = "nat \<Rightarrow> friend_db \<Rightarrow> friend_db"

section \<open>Small helpers\<close>

definition normalizeOptionalText :: "string option \<Rightarrow> string option" where
  "normalizeOptionalText v =
     (case v of None \<Rightarrow> None | Some s \<Rightarrow> if js_trim s = '''' then None else Some (js_trim s))"

fun photo_keys :: "string list \<Rightarrow> string list \<Rightarrow> string list" where
  "photo_keys seen [] = []"
| "photo_keys seen (v # vs) =
     (let t = js_trim v in
      if t \<noteq> '''' \<and> t \<notin> set seen then t # photo_keys (t # seen) vs else photo_keys seen vs)"

definition normalizePhotoKeys :: "string list \<Rightarrow> string list" where
  "normalizePhotoKeys vs = photo_keys [] vs"

definition pair_is :: "string \<Rightarrow> string \<Rightarrow> friend_row \<Rightarrow> bool" where
  "pair_is a b r \<longleftrightarrow> (fr_userID r = a \<and> fr_friendID r = b) \<or> (fr_userID r = b \<and> fr_friendID r = a)"

definition relation_active :: "friend_row \<Rightarrow> bool" where
  "relation_active r \<longleftrightarrow> fr_state r = ACCEPTED \<or> fr_state r = PENDING"

definition find_friendship :: "string \<Rightarrow> string \<Rightarrow> friend_db \<Rightarrow> friend_row option" where
  "find_friendship a b db = find_where (\<lambda>r. pair_is a b r \<and> fr_state r = ACCEPTED) (fd_friends db)"

definition find_request :: "string \<Rightarrow> friend_db \<Rightarrow> friend_row option" where
  "find_request i db = find_where (\<lambda>r. fr_id r = i) (fd_friends db)"

definition blocked_between :: "string \<Rightarrow> string \<Rightarrow> friend_db \<Rightarrow> bool" where
  "blocked_between a b db \<longleftrightarrow> list_ex (\<lambda>x. (bk_blockerID x = a \<and> bk_blockedID x = b)
     \<or> (bk_blockerID x = b \<and> bk_blockedID x = a)) (fd_blocks db)"

definition user_active :: "string \<Rightarrow> friend_db \<Rightarrow> bool" where
  "user_active u db \<longleftrightarrow> (case find_where (\<lambda>x. fu_id x = u) (fd_users db) of
     None \<Rightarrow> False | Some x \<Rightarrow> fu_status x = ACTIVE)"

section \<open>Who may ask whom\<close>

definition sharesCircle :: "string \<Rightarrow> string \<Rightarrow> friend_db \<Rightarrow> bool" where
  "sharesCircle a b db \<longleftrightarrow> list_ex (\<lambda>m. kk_userID m = a \<and> kk_active m \<and> kk_circleID m \<notin> set (fd_deletedCircles db)
     \<and> list_ex (\<lambda>m'. kk_circleID m' = kk_circleID m \<and> kk_userID m' = b \<and> kk_active m') (fd_circleSeats db))
     (fd_circleSeats db)"

text \<open>
  The policy of standalone groups, derived from the relations of the two and not from what the
  client says: blocked if all groups they share forbid it, and nothing else connects them.
\<close>

definition isBlockedByStandaloneGroupPolicy :: "string \<Rightarrow> string \<Rightarrow> friend_db \<Rightarrow> bool" where
  "isBlockedByStandaloneGroupPolicy a b db =
     (let seated = (\<lambda>u g. list_ex (\<lambda>s. gs_conversationID s = gg_id g \<and> gs_userID s = u \<and> gs_leftAt s = None) (fd_groupSeats db));
          shared = filter (\<lambda>(s, g). gs_conversationID s = gg_id g \<and> gs_userID s = a \<and> gs_leftAt s = None
                     \<and> gg_isGroup g \<and> gg_circleID g = None \<and> seated b g)
                   (List.product (fd_groupSeats db) (fd_groups db))
      in if a = b then False
         else if shared = [] then False
         else if list_ex (\<lambda>(s, g). gg_membersCanAddFriends g \<or> gg_ownerID g = Some a \<or> gs_admin s) shared then False
         else if list_ex (\<lambda>r. (fr_userID r = a \<and> fr_friendID r = b \<and> fr_state r = ACCEPTED)
                   \<or> (fr_userID r = b \<and> fr_friendID r = a \<and> relation_active r)) (fd_friends db) then False
         else \<not> sharesCircle a b db)"

definition assertStandaloneGroupPolicyAllows :: "string \<Rightarrow> string \<Rightarrow> friend_db \<Rightarrow> friend_error + unit" where
  "assertStandaloneGroupPolicyAllows a b db =
     (if isBlockedByStandaloneGroupPolicy a b db then Inl GroupAddForbidden else Inr ())"

definition assertGroupAllowsFriendRequests :: "string \<Rightarrow> string \<Rightarrow> friend_db \<Rightarrow> friend_error + unit" where
  "assertGroupAllowsFriendRequests conv u db =
     (case (find_where (\<lambda>s. gs_conversationID s = conv \<and> gs_userID s = u) (fd_groupSeats db),
            find_where (\<lambda>g. gg_id g = conv) (fd_groups db)) of
        (Some s, Some g) \<Rightarrow>
          if gs_leftAt s \<noteq> None \<or> \<not> gg_isGroup g then Inr ()
          else if gg_membersCanAddFriends g then Inr ()
          else
            let manager = (case gg_circleID g of
                  Some c \<Rightarrow>
                    if c = '''' then gg_ownerID g = Some u \<or> gs_admin s
                    else (case find_where (\<lambda>m. kk_userID m = u \<and> kk_circleID m = c) (fd_circleSeats db) of
                            None \<Rightarrow> False | Some m \<Rightarrow> kk_active m \<and> kk_manager m)
                | None \<Rightarrow> gg_ownerID g = Some u \<or> gs_admin s)
            in if manager then Inr () else Inl GroupAddForbidden
      | _ \<Rightarrow> Inr ())"

definition isValidUserQrToken :: "int \<Rightarrow> string \<Rightarrow> string \<Rightarrow> friend_db \<Rightarrow> bool" where
  "isValidUserQrToken now tok target db =
     (case find_where (\<lambda>q. qt_token q = tok) (fd_qrTokens db) of
        None \<Rightarrow> False
      | Some q \<Rightarrow> qt_isUser q \<and> qt_targetID q = target \<and> qt_revokedAt q = None
          \<and> (case qt_expiresAt q of None \<Rightarrow> True | Some e \<Rightarrow> now < e))"

definition assertDiscoverableBy :: "string \<Rightarrow> string \<Rightarrow> privacy_settings \<Rightarrow> friend_db \<Rightarrow> friend_error + unit" where
  "assertDiscoverableBy a b st db =
     (if ps_addMeByAccount st then Inr ()
      else if ps_addMeByGroup st \<and> sharesCircle a b db then Inr ()
      else Inl NotDiscoverable)"

definition assertBelowFriendLimit :: "string \<Rightarrow> friend_db \<Rightarrow> friend_error + unit" where
  "assertBelowFriendLimit u db =
     (let limit = (case find_where (\<lambda>x. fu_id x = u) (fd_users db) of
                     None \<Rightarrow> FRIEND_LIMIT_USER
                   | Some x \<Rightarrow> if fu_role x = R_MEMBER \<or> fu_role x = R_ADMIN then FRIEND_LIMIT_MEMBER else FRIEND_LIMIT_USER)
      in if limit \<le> count_where (\<lambda>r. (fr_userID r = u \<or> fr_friendID r = u) \<and> fr_state r = ACCEPTED) (fd_friends db)
         then Inl LimitReached else Inr ())"

section \<open>Writes shared by the transactions\<close>

text \<open>Insertion with \<open>skipDuplicates\<close>; who acts sees their own entry as read.\<close>

fun createFriendActivities :: "int \<Rightarrow> activity_row list \<Rightarrow> friend_db \<Rightarrow> friend_db" where
  "createFriendActivities now [] db = db"
| "createFriendActivities now (a # as) db =
     (let row = a\<lparr>fa_readAt := (if fa_viewerId a = fa_actorId a then Some now else None), fa_createdAt := now\<rparr>;
          clash = list_ex (\<lambda>x. fa_id x = fa_id a \<or> (fa_requestId x = fa_requestId a \<and> fa_viewerId x = fa_viewerId a
                     \<and> fa_type x = fa_type a)) (fd_activities db)
      in createFriendActivities now as (if clash then db else db\<lparr>fd_activities := fd_activities db @ [row]\<rparr>))"

definition new_activity :: "string \<Rightarrow> string \<Rightarrow> string \<Rightarrow> string \<Rightarrow> string \<Rightarrow> activity_type \<Rightarrow> string option \<Rightarrow> activity_row" where
  "new_activity i request viewer actor other t snapshot =
     \<lparr>fa_id = i, fa_requestId = request, fa_viewerId = viewer, fa_actorId = actor, fa_counterpartyId = other, fa_type = t,
      fa_messageSnapshot = snapshot, fa_readAt = None, fa_createdAt = 0\<rparr>"

text \<open>Deleting a friend row deletes what refers to it.\<close>

definition delete_friend_rows :: "(friend_row \<Rightarrow> bool) \<Rightarrow> friend_db \<Rightarrow> friend_db" where
  "delete_friend_rows p db =
     (let gone = (\<lambda>i. list_ex (\<lambda>r. p r \<and> fr_id r = i) (fd_friends db)) in
      db\<lparr>fd_friends := delete_where p (fd_friends db),
         fd_threads := delete_where (\<lambda>m. gone (tm_requestId m)) (fd_threads db),
         fd_activities := delete_where (\<lambda>a. gone (fa_requestId a)) (fd_activities db),
         fd_tagLinks := delete_where (\<lambda>l. gone (tl_friendID l)) (fd_tagLinks db),
         fd_pendingLinks := delete_where (\<lambda>l. gone (pl_requestID l)) (fd_pendingLinks db),
         fd_replays := delete_where (\<lambda>j. gone (rj_requestId j)) (fd_replays db)\<rparr>)"

definition set_friend :: "(friend_row \<Rightarrow> bool) \<Rightarrow> int \<Rightarrow> (friend_row \<Rightarrow> friend_row) \<Rightarrow> friend_db \<Rightarrow> friend_db" where
  "set_friend p now f db = db\<lparr>fd_friends := update_where p (\<lambda>r. (f r)\<lparr>fr_updatedAt := now\<rparr>) (fd_friends db)\<rparr>"

definition syncPendingFriendTagLinks :: "string \<Rightarrow> string \<Rightarrow> string list \<Rightarrow> friend_db \<Rightarrow> friend_db" where
  "syncPendingFriendTagLinks owner request tagIds db =
     db\<lparr>fd_pendingLinks := delete_where (\<lambda>l. pl_requestID l = request) (fd_pendingLinks db)
          @ map (\<lambda>t. \<lparr>pl_ownerID = owner, pl_requestID = request, pl_tagID = t\<rparr>) tagIds\<rparr>"

definition promotePendingFriendTags :: "friend_row \<Rightarrow> friend_db \<Rightarrow> friend_error + friend_db" where
  "promotePendingFriendTags r db =
     (let pending = map pl_tagID (filter (\<lambda>l. pl_requestID l = fr_id r \<and> pl_ownerID l = fr_userID r) (fd_pendingLinks db));
          existing = filter (\<lambda>t. ft_ownerID t = fr_userID r \<and> ft_id t \<in> set pending) (fd_tags db);
          links = map (\<lambda>t. \<lparr>tl_ownerID = fr_userID r, tl_tagID = ft_id t, tl_friendID = fr_id r\<rparr>) existing
      in if list_ex (\<lambda>l. l \<in> set (fd_tagLinks db)) links then Inl FriendUniqueViolation
         else Inr (db\<lparr>fd_tagLinks := fd_tagLinks db @ links\<rparr>))"

definition drop_pending_links :: "string \<Rightarrow> friend_db \<Rightarrow> friend_db" where
  "drop_pending_links request db =
     db\<lparr>fd_pendingLinks := delete_where (\<lambda>l. pl_requestID l = request) (fd_pendingLinks db)\<rparr>"

section \<open>Sending a request\<close>

record friend_request =
  rq_id :: string
  rq_senderId :: string
  rq_targetId :: string
  rq_message :: "string option"
  rq_remark :: "string option"
  rq_tagIds :: "string list"
  rq_description :: "string option"
  rq_photos :: "string list"
  rq_permission :: "friend_permission option"
  rq_qrToken :: "string option"
  rq_viaConversationId :: "string option"
  rq_messageRowId :: string
  rq_activityIds :: "string \<times> string"

definition request_row :: "int \<Rightarrow> friend_request \<Rightarrow> friend_row" where
  "request_row now q =
     \<lparr>fr_id = rq_id q, fr_userID = rq_senderId q, fr_friendID = rq_targetId q, fr_state = PENDING,
      fr_message = rq_message q, fr_pendingRemarkBySender = rq_remark q,
      fr_pendingDescriptionBySender = normalizeOptionalText (rq_description q),
      fr_pendingPhotosBySender = normalizePhotoKeys (rq_photos q),
      fr_pendingPermissionBySender = rq_permission q, fr_remarkA = None, fr_remarkB = None, fr_descriptionA = None,
      fr_descriptionB = None, fr_photosA = [], fr_photosB = [], fr_permissionA = FULL, fr_permissionB = FULL,
      fr_createdAt = now, fr_updatedAt = now\<rparr>"

text \<open>The checks before the privacy settings are read; \<open>foreign\<close> tells the links that are not on the own storage.\<close>

definition send_checks :: "(string \<Rightarrow> bool) \<Rightarrow> friend_request \<Rightarrow> (friend_db \<Rightarrow> friend_error + unit) list" where
  "send_checks foreign q =
     (let s = rq_senderId q; t = rq_targetId q in
      [\<lambda>_. if s = t then Inl SelfAdd else if list_ex foreign (rq_photos q) then Inl NotFromStorage else Inr (),
       \<lambda>d. case rq_viaConversationId q of
             None \<Rightarrow> Inr ()
           | Some c \<Rightarrow> if c = '''' then Inr () else assertGroupAllowsFriendRequests c s d,
       assertStandaloneGroupPolicyAllows s t,
       \<lambda>d. if user_active t d then Inr () else Inl UserNotFound,
       \<lambda>d. if blocked_between s t d then Inl BlockedCannotRequest else Inr ()])"

definition privacy_checks :: "friend_request \<Rightarrow> bool \<Rightarrow> privacy_settings \<Rightarrow> (friend_db \<Rightarrow> friend_error + unit) list" where
  "privacy_checks q viaVerifiedQr st =
     (let s = rq_senderId q; t = rq_targetId q; qrDoorOpen = (viaVerifiedQr \<and> ps_addMeByQrCode st) in
      [\<lambda>_. if qrDoorOpen \<or> ps_allowStrangerMessages st then Inr () else Inl StrangerMsgNotAllowed,
       \<lambda>d. if qrDoorOpen then Inr () else assertDiscoverableBy s t st d,
       assertBelowFriendLimit s,
       \<lambda>d. if set (rq_tagIds q) \<subseteq> ft_id ` set (filter (\<lambda>x. ft_ownerID x = s) (fd_tags d)) then Inr () else Inl TagNotFound])"

definition send_tx :: "int \<Rightarrow> friend_request \<Rightarrow> friend_db \<Rightarrow> friend_error + friend_db" where
  "send_tx now q db =
     (let s = rq_senderId q; t = rq_targetId q in
      case find_where (\<lambda>r. pair_is s t r \<and> relation_active r) (fd_friends db) of
        Some r \<Rightarrow> Inl (if fr_state r = ACCEPTED then AlreadyFriends else RequestAlreadyPending)
      | None \<Rightarrow>
          if find_request (rq_id q) db \<noteq> None then Inl FriendUniqueViolation
          else
            let db1 = db\<lparr>fd_friends := fd_friends db @ [request_row now q]\<rparr>;
                db2 = syncPendingFriendTagLinks s (rq_id q) (remdups (rq_tagIds q)) db1;
                db3 = (case normalizeOptionalText (rq_message q) of
                         None \<Rightarrow> db2
                       | Some m \<Rightarrow> db2\<lparr>fd_threads := fd_threads db2 @ [\<lparr>tm_id = rq_messageRowId q, tm_requestId = rq_id q,
                                     tm_senderId = s, tm_content = m, tm_createdAt = now\<rparr>]\<rparr>)
            in Inr (createFriendActivities now
                 [new_activity (fst (rq_activityIds q)) (rq_id q) s s t REQUEST_SENT (rq_message q),
                  new_activity (snd (rq_activityIds q)) (rq_id q) t s s REQUEST_RECEIVED (rq_message q)] db3))"

definition throwActiveFriendConflict :: "string \<Rightarrow> string \<Rightarrow> friend_db \<Rightarrow> friend_error" where
  "throwActiveFriendConflict s t db =
     (case find_where (\<lambda>r. pair_is s t r \<and> relation_active r) (fd_friends db) of
        Some r \<Rightarrow> if fr_state r = ACCEPTED then AlreadyFriends else RequestAlreadyPending
      | None \<Rightarrow> RequestAlreadyPending)"

definition sendRequest ::
  "friend_others \<Rightarrow> (string \<Rightarrow> bool) \<Rightarrow> int \<Rightarrow> friend_request \<Rightarrow> friend_db \<Rightarrow> (friend_error + unit) \<times> friend_db" where
  "sendRequest others foreign now q db =
     (case guards (send_checks foreign q) others 0 db of
        (Inl e, d) \<Rightarrow> (Inl e, d)
      | (Inr k, d) \<Rightarrow>
          let viaQr = (case rq_qrToken q of
                None \<Rightarrow> False
              | Some tok \<Rightarrow> tok \<noteq> '''' \<and> isValidUserQrToken now tok (rq_targetId q) d);
              d1 = others k d;
              st = fd_settings d1 (rq_targetId q)
          in (case guards (privacy_checks q viaQr st) others (k + 2) (others (k + 1) d1) of
                (Inl e, d2) \<Rightarrow> (Inl e, d2)
              | (Inr j, d2) \<Rightarrow>
                  (case send_tx now q d2 of
                     Inr d3 \<Rightarrow> (Inr (), d3)
                   | Inl e \<Rightarrow>
                       if e = FriendUniqueViolation
                       then (Inl (throwActiveFriendConflict (rq_senderId q) (rq_targetId q) (others j d2)), others j d2)
                       else (Inl e, d2))))"

section \<open>Withdrawing and deciding\<close>

text \<open>The part of a decision's transaction that comes before its writes.\<close>

definition request_locked :: "(friend_row \<Rightarrow> bool) \<Rightarrow> string \<Rightarrow> friend_db \<Rightarrow> friend_error + friend_row" where
  "request_locked mine i db =
     (case find_request i db of
        None \<Rightarrow> Inl PendingRequestNotFound
      | Some r \<Rightarrow> if \<not> mine r then Inl PendingRequestNotFound
                  else if fr_state r \<noteq> PENDING then Inl RequestAlreadyHandled
                  else Inr r)"

definition cancel_tx :: "int \<Rightarrow> string \<Rightarrow> string \<Rightarrow> string \<Rightarrow> friend_db \<Rightarrow> friend_error + friend_db" where
  "cancel_tx now actId s i db =
     bind_res (request_locked (\<lambda>r. fr_userID r = s) i db) (\<lambda>r.
       let hit = (\<lambda>x. fr_id x = i \<and> fr_userID x = s \<and> fr_state x = PENDING) in
       if count_where hit (fd_friends db) \<noteq> 1 then Inl RequestAlreadyHandled
       else Inr (createFriendActivities now
              [new_activity actId (fr_id r) (fr_friendID r) s s REQUEST_WITHDRAWN_BY_OTHER (fr_message r)]
              (drop_pending_links i (set_friend hit now (\<lambda>x. x\<lparr>fr_state := WITHDRAWN\<rparr>) db))))"

definition cancelRequest ::
  "friend_others \<Rightarrow> int \<Rightarrow> string \<Rightarrow> string \<Rightarrow> string \<Rightarrow> friend_db \<Rightarrow> (friend_error + unit) \<times> friend_db" where
  "cancelRequest others now actId s i db =
     (case find_request i db of
        None \<Rightarrow> (Inl PendingRequestNotFound, db)
      | Some r \<Rightarrow>
          if fr_userID r \<noteq> s \<or> fr_state r \<noteq> PENDING then (Inl PendingRequestNotFound, db)
          else (case cancel_tx now actId s i (others 0 db) of
                  Inl e \<Rightarrow> (Inl e, others 0 db)
                | Inr d \<Rightarrow> (Inr (), d)))"

text \<open>Acceptance moves the sender's staged notes into the sender's own columns.\<close>

definition promote_notes :: "friend_row \<Rightarrow> friend_row \<Rightarrow> friend_row" where
  "promote_notes staged x =
     x\<lparr>fr_remarkA := (case fr_pendingRemarkBySender staged of None \<Rightarrow> fr_remarkA x | Some v \<Rightarrow> Some v),
       fr_descriptionA := (case fr_pendingDescriptionBySender staged of None \<Rightarrow> fr_descriptionA x | Some v \<Rightarrow> Some v),
       fr_photosA := (if fr_pendingPhotosBySender staged = [] then fr_photosA x else fr_pendingPhotosBySender staged),
       fr_permissionA := (case fr_pendingPermissionBySender staged of None \<Rightarrow> fr_permissionA x | Some v \<Rightarrow> v)\<rparr>"

definition queue_replay :: "int \<Rightarrow> string \<Rightarrow> friend_row \<Rightarrow> string \<Rightarrow> friend_db \<Rightarrow> friend_db" where
  "queue_replay now jobId r accepter db =
     (let mine = (\<lambda>j. rj_requestId j = fr_id r) in
      if find_where mine (fd_replays db) = None
      then db\<lparr>fd_replays := fd_replays db @ [\<lparr>rj_id = jobId, rj_requestId = fr_id r, rj_requesterUserID = fr_userID r,
             rj_accepterUserID = accepter, rj_status = RS_PENDING, rj_leaseToken = None, rj_stage = 0,
             rj_messageIndex = 0, rj_attempts = 0, rj_nextAttemptAt = now, rj_lockedAt = None, rj_createdAt = now\<rparr>]\<rparr>
      else db\<lparr>fd_replays := update_where mine (\<lambda>j. j\<lparr>rj_requesterUserID := fr_userID r, rj_accepterUserID := accepter,
             rj_status := RS_PENDING, rj_stage := 0, rj_messageIndex := 0, rj_attempts := 0, rj_nextAttemptAt := now,
             rj_lockedAt := None\<rparr>) (fd_replays db)\<rparr>)"

definition decide_tx ::
  "int \<Rightarrow> string \<times> string \<times> string \<Rightarrow> string \<Rightarrow> string \<Rightarrow> bool \<Rightarrow> friend_db \<Rightarrow> friend_error + friend_db" where
  "decide_tx now newIds recipient i accept db =
     bind_res (request_locked (\<lambda>r. fr_friendID r = recipient) i db) (\<lambda>r.
       let hit = (\<lambda>x. fr_id x = i \<and> fr_friendID x = recipient \<and> fr_state x = PENDING);
           db1 = set_friend hit now (\<lambda>x. (if accept then promote_notes r x else x)\<lparr>fr_state := (if accept then ACCEPTED else REJECTED)\<rparr>) db;
           act = (\<lambda>i v c t. new_activity i (fr_id r) v recipient c t (fr_message r))
       in if count_where hit (fd_friends db) \<noteq> 1 then Inl RequestAlreadyHandled
          else bind_res (if accept then promotePendingFriendTags r db1 else Inr db1) (\<lambda>db2.
            let db3 = createFriendActivities now
                  [act (fst newIds) recipient (fr_userID r) (if accept then REQUEST_ACCEPTED_BY_ME else REQUEST_REJECTED_BY_ME),
                   act (fst (snd newIds)) (fr_userID r) recipient (if accept then REQUEST_ACCEPTED_BY_OTHER else REQUEST_REJECTED_BY_OTHER)]
                  (drop_pending_links i db2)
            in Inr (if accept then queue_replay now (snd (snd newIds)) r recipient db3 else db3)))"

definition handleRequest ::
  "friend_others \<Rightarrow> int \<Rightarrow> string \<times> string \<times> string \<Rightarrow> string \<Rightarrow> string \<Rightarrow> bool \<Rightarrow> friend_db
   \<Rightarrow> (friend_error + unit) \<times> friend_db" where
  "handleRequest others now newIds recipient i accept db =
     (case find_request i db of
        None \<Rightarrow> (Inl PendingRequestNotFound, db)
      | Some r \<Rightarrow>
          if fr_friendID r \<noteq> recipient \<or> fr_state r \<noteq> PENDING then (Inl PendingRequestNotFound, db)
          else
            (case guards (if accept
                          then [\<lambda>d. if user_active (fr_userID r) d then Inr () else Inl RequesterUnavailable,
                                assertBelowFriendLimit recipient]
                          else []) others 1 (others 0 db) of
               (Inl e, d) \<Rightarrow> (Inl e, d)
             | (Inr _, d) \<Rightarrow> (case decide_tx now newIds recipient i accept d of
                                Inl e \<Rightarrow> (Inl e, d)
                              | Inr d' \<Rightarrow> (Inr (), d'))))"

section \<open>Ending a friendship, blocking\<close>

definition removeFriend :: "friend_others \<Rightarrow> string \<Rightarrow> string \<Rightarrow> friend_db \<Rightarrow> (friend_error + unit) \<times> friend_db" where
  "removeFriend others u f db =
     (case find_friendship u f db of
        None \<Rightarrow> (Inl FriendshipNotFound, db)
      | Some r \<Rightarrow>
          let d = others 0 db in
          if find_request (fr_id r) d = None then (Inl FriendRecordNotFound, d)
          else (Inr (), delete_friend_rows (\<lambda>x. fr_id x = fr_id r) d))"

definition find_block :: "string \<Rightarrow> string \<Rightarrow> friend_db \<Rightarrow> block_row option" where
  "find_block a b db = find_where (\<lambda>x. bk_blockerID x = a \<and> bk_blockedID x = b) (fd_blocks db)"

definition block_tx :: "int \<Rightarrow> string \<Rightarrow> string \<Rightarrow> friend_db \<Rightarrow> friend_error + friend_db" where
  "block_tx now a b db =
     (let db1 = delete_friend_rows (pair_is a b) db in
      if find_block a b db1 \<noteq> None then Inl AlreadyBlocked
      else Inr (db1\<lparr>fd_blocks := fd_blocks db1 @ [\<lparr>bk_blockerID = a, bk_blockedID = b, bk_createdAt = now\<rparr>]\<rparr>))"

definition blockUser :: "friend_others \<Rightarrow> int \<Rightarrow> string \<Rightarrow> string \<Rightarrow> friend_db \<Rightarrow> (friend_error + unit) \<times> friend_db" where
  "blockUser others now a b db =
     (case guards [\<lambda>_. if a = b then Inl BlockSelf else Inr (),
                   \<lambda>d. if user_active b d then Inr () else Inl UserNotFound,
                   \<lambda>d. if find_block a b d \<noteq> None then Inl AlreadyBlocked else Inr ()] others 0 db of
        (Inl e, d) \<Rightarrow> (Inl e, d)
      | (Inr _, d) \<Rightarrow> (case block_tx now a b d of Inl e \<Rightarrow> (Inl e, d) | Inr d' \<Rightarrow> (Inr (), d')))"

definition unblockUser :: "string \<Rightarrow> string \<Rightarrow> friend_db \<Rightarrow> (friend_error + unit) \<times> friend_db" where
  "unblockUser a b db =
     (if find_block a b db = None then (Inl BlockNotFound, db)
      else (Inr (), db\<lparr>fd_blocks := delete_where (\<lambda>x. bk_blockerID x = a \<and> bk_blockedID x = b) (fd_blocks db)\<rparr>))"

definition listBlocked :: "string \<Rightarrow> int \<Rightarrow> friend_db \<Rightarrow> (string \<times> int) list" where
  "listBlocked u page db =
     map (\<lambda>x. (bk_blockedID x, bk_createdAt x))
       (take BLOCKED_PAGE_SIZE (drop (nat (max 1 page - 1) * BLOCKED_PAGE_SIZE)
         (sort_key (\<lambda>x. - bk_createdAt x) (filter (\<lambda>x. bk_blockerID x = u) (fd_blocks db)))))"

datatype friend_status = FS_BLOCKED | FS_NONE | FS_ACCEPTED | FS_PENDING_SENT | FS_PENDING_RECEIVED

definition getStatus :: "string \<Rightarrow> string \<Rightarrow> friend_db \<Rightarrow> friend_status \<times> string option" where
  "getStatus viewer target db =
     (if blocked_between viewer target db then (FS_BLOCKED, None)
      else (case find_where (\<lambda>r. pair_is viewer target r \<and> relation_active r) (fd_friends db) of
              None \<Rightarrow> (FS_NONE, None)
            | Some r \<Rightarrow>
                (if fr_state r = ACCEPTED then FS_ACCEPTED
                 else if fr_userID r = viewer then FS_PENDING_SENT else FS_PENDING_RECEIVED, Some (fr_id r))))"

section \<open>Friend lists, remarks, permissions\<close>

definition getCounterpartyId :: "friend_row \<Rightarrow> string \<Rightarrow> string" where
  "getCounterpartyId r u = (if fr_userID r = u then fr_friendID r else fr_userID r)"

text \<open>The entries of a JavaScript map: a key keeps the place of its first insertion.\<close>

fun put_latest :: "string \<Rightarrow> friend_row \<Rightarrow> (string \<times> friend_row) list \<Rightarrow> (string \<times> friend_row) list" where
  "put_latest k r [] = [(k, r)]"
| "put_latest k r ((k', r') # m) =
     (if k = k' then (k', if fr_updatedAt r' < fr_updatedAt r then r else r') # m else (k', r') # put_latest k r m)"

definition latestFriendRecordsByCounterparty :: "friend_row list \<Rightarrow> string \<Rightarrow> friend_row list" where
  "latestFriendRecordsByCounterparty rs u = map snd (fold (\<lambda>r. put_latest (getCounterpartyId r u) r) rs [])"

record friend_profile =
  fx_id :: string
  fx_friendsSince :: int
  fx_remark :: "string option"

text \<open>The profile columns other than the ids come from the user table and are not modelled.\<close>

definition toFriendProfiles :: "friend_row list \<Rightarrow> string \<Rightarrow> friend_db \<Rightarrow> friend_profile list" where
  "toFriendProfiles rs u db =
     map (\<lambda>r. \<lparr>fx_id = getCounterpartyId r u, fx_friendsSince = fr_updatedAt r,
               fx_remark = (if fr_userID r = u then fr_remarkA r else fr_remarkB r)\<rparr>)
       (filter (\<lambda>r. user_active (getCounterpartyId r u) db) rs)"

definition friends_of :: "string \<Rightarrow> friend_db \<Rightarrow> friend_row list" where
  "friends_of u db = take FRIEND_LIMIT_MEMBER (sort_key (\<lambda>r. - fr_updatedAt r)
     (filter (\<lambda>r. (fr_userID r = u \<or> fr_friendID r = u) \<and> fr_state r = ACCEPTED) (fd_friends db)))"

definition listFriends :: "(friend_db \<Rightarrow> friend_db) \<Rightarrow> string \<Rightarrow> friend_db \<Rightarrow> friend_profile list" where
  "listFriends others u db = toFriendProfiles (latestFriendRecordsByCounterparty (friends_of u db) u) u (others db)"

definition listFriendsByTag ::
  "friend_others \<Rightarrow> string \<Rightarrow> string \<Rightarrow> friend_db \<Rightarrow> friend_error + friend_profile list" where
  "listFriendsByTag others u tag db =
     (case find_where (\<lambda>t. ft_id t = tag) (fd_tags db) of
        None \<Rightarrow> Inl TagNotFound
      | Some t \<Rightarrow>
          if ft_ownerID t \<noteq> u then Inl TagNotFound
          else
            let d = others 0 db;
                linked = concat (map (\<lambda>l. filter (\<lambda>r. fr_id r = tl_friendID l) (fd_friends d))
                           (filter (\<lambda>l. tl_ownerID l = u \<and> tl_tagID l = tag) (fd_tagLinks d)))
            in Inr (toFriendProfiles (latestFriendRecordsByCounterparty (sort_key (\<lambda>r. - fr_updatedAt r) linked) u) u (others 1 d)))"

record friend_settings =
  fz_remark :: "string option"
  fz_description :: "string option"
  fz_photos :: "string list"
  fz_permission :: friend_permission
  fz_assignedTags :: "string list"
  fz_availableTags :: "string list"

text \<open>\<open>rank\<close> is the database's collation of tag names.\<close>

definition listMyTags :: "(string \<Rightarrow> int) \<Rightarrow> string \<Rightarrow> friend_db \<Rightarrow> friend_tag list" where
  "listMyTags rank u db = take 500 (sort_key (\<lambda>t. rank (ft_name t)) (filter (\<lambda>t. ft_ownerID t = u) (fd_tags db)))"

definition getFriendSettings ::
  "(string \<Rightarrow> int) \<Rightarrow> (friend_db \<Rightarrow> friend_db) \<Rightarrow> string \<Rightarrow> string \<Rightarrow> friend_db \<Rightarrow> friend_error + friend_settings" where
  "getFriendSettings rank others u f db =
     (case find_friendship u f db of
        None \<Rightarrow> Inl FriendshipNotFound
      | Some r \<Rightarrow>
          let d = others db; mine = (fr_userID r = u) in
          Inr \<lparr>fz_remark = (if mine then fr_remarkA r else fr_remarkB r),
               fz_description = (if mine then fr_descriptionA r else fr_descriptionB r),
               fz_photos = (if mine then fr_photosA r else fr_photosB r),
               fz_permission = (if mine then fr_permissionA r else fr_permissionB r),
               fz_assignedTags = map tl_tagID (filter (\<lambda>l. tl_ownerID l = u \<and> tl_friendID l = fr_id r) (fd_tagLinks d)),
               fz_availableTags = map ft_id (listMyTags rank u d)\<rparr>)"

text \<open>Historical duplicates may exist in either direction, so all accepted rows are written.\<close>

definition setFriendPermission ::
  "friend_others \<Rightarrow> int \<Rightarrow> string \<Rightarrow> string \<Rightarrow> friend_permission \<Rightarrow> friend_db \<Rightarrow> (friend_error + unit) \<times> friend_db" where
  "setFriendPermission others now u f perm db =
     (case find_friendship u f db of
        None \<Rightarrow> (Inl FriendshipNotFound, db)
      | Some _ \<Rightarrow>
          let d = others 0 db;
              mineA = (\<lambda>x. fr_userID x = u \<and> fr_friendID x = f \<and> fr_state x = ACCEPTED);
              mineB = (\<lambda>x. fr_userID x = f \<and> fr_friendID x = u \<and> fr_state x = ACCEPTED);
              d1 = set_friend mineA now (\<lambda>x. x\<lparr>fr_permissionA := perm\<rparr>) d;
              d2 = set_friend mineB now (\<lambda>x. x\<lparr>fr_permissionB := perm\<rparr>) d1
          in if count_where mineA (fd_friends d) = 0 \<and> count_where mineB (fd_friends d1) = 0
             then (Inl FriendshipNotFound, d2) else (Inr (), d2))"

definition setRemark ::
  "friend_others \<Rightarrow> int \<Rightarrow> string \<Rightarrow> string \<Rightarrow> string option \<Rightarrow> friend_db \<Rightarrow> (friend_error + unit) \<times> friend_db" where
  "setRemark others now u f remark db =
     (case find_friendship u f db of
        None \<Rightarrow> (Inl FriendshipNotFound, db)
      | Some r \<Rightarrow>
          let d = others 0 db; hit = (\<lambda>x. fr_id x = fr_id r) in
          if find_request (fr_id r) d = None then (Inl FriendRecordNotFound, d)
          else (Inr (), set_friend hit now
                 (if fr_userID r = u then (\<lambda>x. x\<lparr>fr_remarkA := remark\<rparr>) else (\<lambda>x. x\<lparr>fr_remarkB := remark\<rparr>)) d))"

section \<open>Tags\<close>

definition named_tag :: "string \<Rightarrow> string \<Rightarrow> friend_tag \<Rightarrow> bool" where
  "named_tag u n t \<longleftrightarrow> ft_ownerID t = u \<and> ft_name t = n"

definition createTag ::
  "friend_others \<Rightarrow> string \<Rightarrow> string \<Rightarrow> string \<Rightarrow> string option \<Rightarrow> friend_db \<Rightarrow> (friend_error + friend_tag) \<times> friend_db" where
  "createTag others newId u nm color db =
     (let n = js_trim nm in
      if n = '''' then (Inl TagNameEmpty, db)
      else
        let d = others 0 db;
            d' = (if find_where (named_tag u n) (fd_tags db) = None then others 1 d else d);
            full = (find_where (named_tag u n) (fd_tags db) = None
                      \<and> MAX_FRIEND_TAGS_PER_USER \<le> count_where (\<lambda>t. ft_ownerID t = u) (fd_tags d))
        in if full then (Inl TagLimitReached, d)
           else (case find_where (named_tag u n) (fd_tags d') of
                   Some t \<Rightarrow>
                     let t' = t\<lparr>ft_color := (case color of None \<Rightarrow> ft_color t | Some c \<Rightarrow> Some c)\<rparr>
                     in (Inr t', d'\<lparr>fd_tags := update_where (named_tag u n) (\<lambda>_. t') (fd_tags d')\<rparr>)
                 | None \<Rightarrow>
                     if find_where (\<lambda>t. ft_id t = newId) (fd_tags d') \<noteq> None then (Inl FriendUniqueViolation, d')
                     else let t' = \<lparr>ft_id = newId, ft_ownerID = u, ft_name = n, ft_color = color\<rparr>
                          in (Inr t', d'\<lparr>fd_tags := fd_tags d' @ [t']\<rparr>)))"

definition deleteTag :: "friend_others \<Rightarrow> string \<Rightarrow> string \<Rightarrow> friend_db \<Rightarrow> (friend_error + unit) \<times> friend_db" where
  "deleteTag others u tag db =
     (case find_where (\<lambda>t. ft_id t = tag) (fd_tags db) of
        None \<Rightarrow> (Inl TagNotFound, db)
      | Some t \<Rightarrow>
          if ft_ownerID t \<noteq> u then (Inl TagNotFound, db)
          else
            let d = others 0 db in
            if find_where (\<lambda>t. ft_id t = tag) (fd_tags d) = None then (Inl FriendRecordNotFound, d)
            else (Inr (), d\<lparr>fd_tags := delete_where (\<lambda>t. ft_id t = tag) (fd_tags d),
                            fd_tagLinks := delete_where (\<lambda>l. tl_tagID l = tag) (fd_tagLinks d),
                            fd_pendingLinks := delete_where (\<lambda>l. pl_tagID l = tag) (fd_pendingLinks d)\<rparr>))"

text \<open>What assigning and removing a tag check first.\<close>

definition tag_of_friend :: "string \<Rightarrow> string \<Rightarrow> string \<Rightarrow> friend_db \<Rightarrow> friend_error + friend_row" where
  "tag_of_friend u f tag db =
     (case find_friendship u f db of
        None \<Rightarrow> Inl FriendshipNotFound
      | Some r \<Rightarrow>
          (case find_where (\<lambda>t. ft_id t = tag) (fd_tags db) of
             None \<Rightarrow> Inl TagNotFound
           | Some t \<Rightarrow> if ft_ownerID t \<noteq> u then Inl TagNotFound else Inr r))"

definition assignTag :: "friend_others \<Rightarrow> string \<Rightarrow> string \<Rightarrow> string \<Rightarrow> friend_db \<Rightarrow> (friend_error + unit) \<times> friend_db" where
  "assignTag others u f tag db =
     (case tag_of_friend u f tag db of
        Inl e \<Rightarrow> (Inl e, db)
      | Inr r \<Rightarrow>
          let d = others 0 db; link = \<lparr>tl_ownerID = u, tl_tagID = tag, tl_friendID = fr_id r\<rparr> in
          if link \<in> set (fd_tagLinks d) then (Inr (), d)
          else if find_request (fr_id r) d = None \<or> find_where (\<lambda>t. ft_id t = tag) (fd_tags d) = None
          then (Inl FriendRecordNotFound, d)
          else (Inr (), d\<lparr>fd_tagLinks := fd_tagLinks d @ [link]\<rparr>))"

definition removeTag :: "friend_others \<Rightarrow> string \<Rightarrow> string \<Rightarrow> string \<Rightarrow> friend_db \<Rightarrow> (friend_error + unit) \<times> friend_db" where
  "removeTag others u f tag db =
     (case tag_of_friend u f tag db of
        Inl e \<Rightarrow> (Inl e, db)
      | Inr r \<Rightarrow>
          let d = others 0 db in
          (Inr (), d\<lparr>fd_tagLinks := delete_where (\<lambda>l. tl_ownerID l = u \<and> tl_tagID l = tag \<and> tl_friendID l = fr_id r)
                                     (fd_tagLinks d)\<rparr>))"

section \<open>The thread of a request\<close>

definition listRequestMessages :: "string \<Rightarrow> string \<Rightarrow> friend_db \<Rightarrow> friend_error + thread_message list" where
  "listRequestMessages u i db =
     (case find_request i db of
        None \<Rightarrow> Inl PendingRequestNotFound
      | Some r \<Rightarrow>
          if fr_userID r \<noteq> u \<and> fr_friendID r \<noteq> u then Inl PendingRequestNotFound
          else Inr (sort_key tm_createdAt (filter (\<lambda>m. tm_requestId m = i) (fd_threads db))))"

text \<open>The activity of an incoming message is written anew, unread, or refreshed.\<close>

definition refresh_message_activity ::
  "int \<Rightarrow> string \<Rightarrow> string \<Rightarrow> string \<Rightarrow> string \<Rightarrow> string \<Rightarrow> friend_db \<Rightarrow> friend_db" where
  "refresh_message_activity now actId i toUser fromUser content db =
     (let hit = (\<lambda>a. fa_requestId a = i \<and> fa_viewerId a = toUser \<and> fa_type a = REQUEST_MESSAGE_RECEIVED) in
      if find_where hit (fd_activities db) = None
      then db\<lparr>fd_activities := fd_activities db @
             [(new_activity actId i toUser fromUser fromUser REQUEST_MESSAGE_RECEIVED (Some content))\<lparr>fa_createdAt := now\<rparr>]\<rparr>
      else db\<lparr>fd_activities := update_where hit (\<lambda>a. a\<lparr>fa_actorId := fromUser, fa_counterpartyId := fromUser,
             fa_messageSnapshot := Some content, fa_readAt := None, fa_createdAt := now\<rparr>) (fd_activities db)\<rparr>)"

definition thread_count :: "string \<Rightarrow> string \<Rightarrow> friend_db \<Rightarrow> nat" where
  "thread_count i u db = count_where (\<lambda>m. tm_requestId m = i \<and> tm_senderId m = u) (fd_threads db)"

definition appendRequestMessage ::
  "int \<Rightarrow> string \<times> string \<Rightarrow> string \<Rightarrow> string \<Rightarrow> string \<Rightarrow> friend_db \<Rightarrow> (friend_error + thread_message) \<times> friend_db" where
  "appendRequestMessage now newIds u i contentRaw db =
     (let content = js_trim contentRaw in
      if content = '''' \<or> FRIEND_REQUEST_MESSAGE_MAX_LENGTH < length content then (Inl RequestMessageInvalid, db)
      else
        (case find_request i db of
           None \<Rightarrow> (Inl PendingRequestNotFound, db)
         | Some r \<Rightarrow>
             if fr_userID r \<noteq> u \<and> fr_friendID r \<noteq> u then (Inl PendingRequestNotFound, db)
             else if fr_state r \<noteq> PENDING then (Inl RequestNotPending, db)
             else if FRIEND_REQUEST_MESSAGE_TOTAL_CAP \<le> count_where (\<lambda>m. tm_requestId m = i) (fd_threads db)
             then (Inl RequestMessageLimit, db)
             else if fr_userID r = u \<and> thread_count i (fr_friendID r) db = 0
                     \<and> FRIEND_REQUEST_MESSAGE_SENDER_SOFT_CAP \<le> thread_count i (fr_userID r) db
             then (Inl RequestMessageLimit, db)
             else
               let m = \<lparr>tm_id = fst newIds, tm_requestId = i, tm_senderId = u, tm_content = content, tm_createdAt = now\<rparr>;
                   toUser = (if fr_userID r = u then fr_friendID r else fr_userID r)
               in (Inr m, refresh_message_activity now (snd newIds) i toUser u content
                            (db\<lparr>fd_threads := fd_threads db @ [m]\<rparr>))))"

section \<open>Reports\<close>

definition reportFriend ::
  "friend_others \<Rightarrow> (string \<Rightarrow> bool) \<Rightarrow> string \<Rightarrow> string \<Rightarrow> string \<Rightarrow> string \<Rightarrow> string list \<Rightarrow> friend_db
   \<Rightarrow> (friend_error + unit) \<times> friend_db" where
  "reportFriend others foreign u f category description evidence db =
     (let live = (\<lambda>x. fp_reporterID x = u \<and> fp_targetID x = f \<and> fp_category x = category \<and> fp_status x \<noteq> RP_REJECTED) in
      case guards [\<lambda>_. if u = f then Inl ReportSelf else Inr (),
                   \<lambda>d. if user_active f d then Inr () else Inl UserNotFound,
                   \<lambda>d. if find_friendship u f d = None then Inl FriendshipNotFound else Inr (),
                   \<lambda>d. if find_where live (fd_reports d) \<noteq> None then Inl ReportDuplicate else Inr (),
                   \<lambda>_. if list_ex foreign evidence then Inl NotFromStorage else Inr ()] others 0 db of
        (Inl e, d) \<Rightarrow> (Inl e, d)
      | (Inr _, d) \<Rightarrow>
          if find_where live (fd_reports d) \<noteq> None then (Inl ReportDuplicate, d)
          else (Inr (), d\<lparr>fd_reports := fd_reports d @ [\<lparr>fp_reporterID = u, fp_targetID = f, fp_category = category,
                  fp_status = RP_PENDING, fp_description = js_trim description, fp_evidence = evidence\<rparr>]\<rparr>))"

section \<open>Activities\<close>

definition getLegacyBackfillActivity :: "string \<Rightarrow> friend_row \<Rightarrow> (string \<times> string \<times> activity_type) option" where
  "getLegacyBackfillActivity u r =
     (case fr_state r of
        PENDING \<Rightarrow> Some (if fr_userID r = u then (fr_userID r, fr_friendID r, REQUEST_SENT)
                          else (fr_userID r, fr_userID r, REQUEST_RECEIVED))
      | ACCEPTED \<Rightarrow> Some (if fr_userID r = u then (fr_friendID r, fr_friendID r, REQUEST_ACCEPTED_BY_OTHER)
                           else (fr_friendID r, fr_userID r, REQUEST_ACCEPTED_BY_ME))
      | REJECTED \<Rightarrow> Some (if fr_userID r = u then (fr_friendID r, fr_friendID r, REQUEST_REJECTED_BY_OTHER)
                           else (fr_friendID r, fr_userID r, REQUEST_REJECTED_BY_ME))
      | WITHDRAWN \<Rightarrow> if fr_friendID r = u then Some (fr_userID r, fr_userID r, REQUEST_WITHDRAWN_BY_OTHER) else None)"

text \<open>
  The insertion skips what a concurrent run has written; the rows are unread and dated by the request.
  It fails as a whole if one of the requests has been deleted in the meantime.
\<close>

fun insert_backfill :: "activity_row list \<Rightarrow> friend_db \<Rightarrow> friend_db" where
  "insert_backfill [] db = db"
| "insert_backfill (a # as) db =
     insert_backfill as
       (if list_ex (\<lambda>x. fa_id x = fa_id a \<or> (fa_requestId x = fa_requestId a \<and> fa_viewerId x = fa_viewerId a
              \<and> fa_type x = fa_type a)) (fd_activities db)
        then db else db\<lparr>fd_activities := fd_activities db @ [a]\<rparr>)"

definition missing_activities :: "(string \<Rightarrow> string) \<Rightarrow> string \<Rightarrow> friend_row list \<Rightarrow> friend_db \<Rightarrow> activity_row list" where
  "missing_activities newId u requests db =
     concat (map (\<lambda>r. case getLegacyBackfillActivity u r of
               None \<Rightarrow> []
             | Some (actor, other, t) \<Rightarrow>
                 if list_ex (\<lambda>a. fa_viewerId a = u \<and> fa_requestId a = fr_id r \<and> fa_type a = t) (fd_activities db) then []
                 else [(new_activity (newId (fr_id r)) (fr_id r) u actor other t (fr_message r))\<lparr>fa_createdAt := fr_updatedAt r\<rparr>])
       requests)"

definition markViewerBackfilled :: "int \<Rightarrow> string \<Rightarrow> friend_db \<Rightarrow> friend_db" where
  "markViewerBackfilled now u db =
     db\<lparr>fd_users := update_where (\<lambda>x. fu_id x = u) (\<lambda>x. x\<lparr>fu_activitiesBackfilledAt := Some now\<rparr>) (fd_users db)\<rparr>"

definition backfillLegacyActivitiesForViewer ::
  "friend_others \<Rightarrow> int \<Rightarrow> (string \<Rightarrow> string) \<Rightarrow> string \<Rightarrow> friend_db \<Rightarrow> (friend_error + unit) \<times> friend_db" where
  "backfillLegacyActivitiesForViewer others now newId u db =
     (case find_where (\<lambda>x. fu_id x = u) (fd_users db) of
        None \<Rightarrow> (Inr (), db)
      | Some x \<Rightarrow>
          if fu_activitiesBackfilledAt x \<noteq> None then (Inr (), db)
          else
            let d0 = others 0 db;
                requests = sort_key (\<lambda>r. - fr_createdAt r) (filter (\<lambda>r. fr_userID r = u \<or> fr_friendID r = u) (fd_friends d0))
            in if requests = [] then (Inr (), markViewerBackfilled now u (others 1 d0))
               else
                 let d1 = others 1 d0; missing = missing_activities newId u requests d1; d2 = others 2 d1
                 in if missing = [] then (Inr (), markViewerBackfilled now u d2)
                    else if list_ex (\<lambda>a. find_request (fa_requestId a) d2 = None) missing then (Inl FriendRecordNotFound, d2)
                    else (Inr (), markViewerBackfilled now u (others 3 (insert_backfill missing d2))))"

definition listActivities ::
  "friend_others \<Rightarrow> int \<Rightarrow> (string \<Rightarrow> string) \<Rightarrow> string \<Rightarrow> friend_db \<Rightarrow> (friend_error + activity_row list) \<times> friend_db" where
  "listActivities others now newId u db =
     (case backfillLegacyActivitiesForViewer others now newId u db of
        (Inl e, d) \<Rightarrow> (Inl e, d)
      | (Inr _, d0) \<Rightarrow>
          let d = others 4 d0
          in (Inr (take 200 (sort_key (\<lambda>a. - fa_createdAt a) (filter (\<lambda>a. fa_viewerId a = u) (fd_activities d)))), d))"

definition getUnreadActivityCount ::
  "friend_others \<Rightarrow> int \<Rightarrow> (string \<Rightarrow> string) \<Rightarrow> string \<Rightarrow> friend_db \<Rightarrow> (friend_error + nat) \<times> friend_db" where
  "getUnreadActivityCount others now newId u db =
     (case backfillLegacyActivitiesForViewer others now newId u db of
        (Inl e, d) \<Rightarrow> (Inl e, d)
      | (Inr _, d0) \<Rightarrow>
          let d = others 4 d0
          in (Inr (count_where (\<lambda>a. fa_viewerId a = u \<and> fa_readAt a = None) (fd_activities d)), d))"

definition getActivity :: "string \<Rightarrow> string \<Rightarrow> friend_db \<Rightarrow> friend_error + activity_row" where
  "getActivity u i db =
     (case find_where (\<lambda>a. fa_id a = i \<and> fa_viewerId a = u) (fd_activities db) of
        None \<Rightarrow> Inl ActivityNotFound | Some a \<Rightarrow> Inr a)"

definition markActivityRead :: "friend_others \<Rightarrow> int \<Rightarrow> string \<Rightarrow> string \<Rightarrow> friend_db \<Rightarrow> (friend_error + unit) \<times> friend_db" where
  "markActivityRead others now u i db =
     (let hit = (\<lambda>a. fa_id a = i \<and> fa_viewerId a = u \<and> fa_readAt a = None) in
      if count_where hit (fd_activities db) = 0
      then (let d = others 0 db in
            (if find_where (\<lambda>a. fa_id a = i \<and> fa_viewerId a = u) (fd_activities d) = None then Inl ActivityNotFound else Inr (), d))
      else (Inr (), db\<lparr>fd_activities := update_where hit (\<lambda>a. a\<lparr>fa_readAt := Some now\<rparr>) (fd_activities db)\<rparr>))"

end
