(* ===== verification/FriendProofs.thy ===== *)
theory FriendProofs
  imports Friend
begin

text \<open>
  The protocol of friend rows as a step relation, the invariants it keeps, and that whatever the
  handlers of \<open>Friend\<close> do to the table, under any interleaving, is a run of the protocol.
\<close>

section \<open>The protocol\<close>

definition same_pair :: "friend_row \<Rightarrow> friend_row \<Rightarrow> bool" where
  "same_pair r r' \<longleftrightarrow> pair_is (fr_userID r) (fr_friendID r) r'"

definition friend_static :: "friend_row \<Rightarrow> string \<times> string \<times> string" where
  "friend_static r = (fr_id r, fr_userID r, fr_friendID r)"

text \<open>
  Asking needs that the pair has no active row; a pending row is withdrawn, accepted or refused once; notes and
  permissions change at any time; rows disappear when a friendship ends or is blocked. A step does not name who acts: that only the
  asked decides and only the asker withdraws is a guard of the handlers (\<open>only_the_asked_decides\<close>, \<open>only_the_asker_withdraws\<close>).
\<close>

inductive friend_step :: "friend_row list \<Rightarrow> friend_row list \<Rightarrow> bool" where
  ask: "fr_state r = PENDING \<Longrightarrow> (\<And>x. x \<in> set rs \<Longrightarrow> fr_id x \<noteq> fr_id r) \<Longrightarrow>
     (\<And>x. x \<in> set rs \<Longrightarrow> same_pair r x \<Longrightarrow> \<not> relation_active x) \<Longrightarrow> friend_step rs (rs @ [r])"
| decide: "(\<And>x. hit x \<Longrightarrow> fr_state x = PENDING) \<Longrightarrow>
     (\<And>x. hit x \<Longrightarrow> friend_static (f x) = friend_static x \<and> fr_state (f x) \<noteq> PENDING) \<Longrightarrow>
     friend_step rs (update_where hit f rs)"
| annotate: "(\<And>x. friend_static (f x) = friend_static x \<and> fr_state (f x) = fr_state x) \<Longrightarrow> friend_step rs (update_where hit f rs)"
| remove: "friend_step rs (delete_where gone rs)"

lemma only_the_asked_decides:
  "handleRequest others now newIds u i accept db = (Inr (), db') \<Longrightarrow>
   \<exists>r. find_request i db = Some r \<and> fr_friendID r = u \<and> fr_state r = PENDING"
  by (auto simp: handleRequest_def split: option.splits if_splits)

lemma only_the_asker_withdraws:
  "cancelRequest others now actId u i db = (Inr (), db') \<Longrightarrow>
   \<exists>r. find_request i db = Some r \<and> fr_userID r = u \<and> fr_state r = PENDING"
  by (auto simp: cancelRequest_def split: option.splits if_splits)

abbreviation friend_steps :: "friend_row list \<Rightarrow> friend_row list \<Rightarrow> bool" where "friend_steps \<equiv> friend_step\<^sup>*\<^sup>*"

definition rows_ok :: "friend_row list \<Rightarrow> bool" where
  "rows_ok rs \<longleftrightarrow> distinct (map fr_id rs)
     \<and> (\<forall>r \<in> set rs. \<forall>x \<in> set rs. same_pair r x \<and> relation_active r \<and> relation_active x \<longrightarrow> fr_id r = fr_id x)"

lemma same_pair_sym: "same_pair r x \<Longrightarrow> same_pair x r"
  by (auto simp: same_pair_def pair_is_def)

lemma same_pair_static:
  "friend_static r' = friend_static r \<Longrightarrow> friend_static x' = friend_static x \<Longrightarrow> same_pair r' x' = same_pair r x"
  by (simp add: friend_static_def same_pair_def pair_is_def)

lemma rows_ok_update:
  assumes "rows_ok rs" "\<And>x. hit x \<Longrightarrow> friend_static (f x) = friend_static x \<and> (relation_active (f x) \<longrightarrow> relation_active x)"
  shows "rows_ok (update_where hit f rs)"
proof -
  define g where "g = (\<lambda>x. if hit x then f x else x)"
  have u: "update_where hit f rs = map g rs" by (simp add: update_where_def g_def)
  have g: "friend_static (g x) = friend_static x" "relation_active (g x) \<Longrightarrow> relation_active x" for x
    using assms(2) by (auto simp: g_def split: if_splits)
  then have id: "fr_id (g x) = fr_id x" for x by (simp add: friend_static_def)
  have ids: "map fr_id (map g rs) = map fr_id rs" by (simp add: id)
  have sp: "same_pair (g r) (g x) = same_pair r x" for r x by (rule same_pair_static [OF g(1) g(1)])
  have "distinct (map fr_id (map g rs))" unfolding ids using assms(1) by (simp add: rows_ok_def)
  moreover have "fr_id r' = fr_id x'" if "r' \<in> set (map g rs)" "x' \<in> set (map g rs)"
    "same_pair r' x'" "relation_active r'" "relation_active x'" for r' x'
  proof -
    obtain r x where r: "r \<in> set rs" "r' = g r" "x \<in> set rs" "x' = g x" using \<open>r' \<in> _\<close> \<open>x' \<in> _\<close> by auto
    then have "fr_id r = fr_id x"
      using assms(1) \<open>same_pair r' x'\<close> g(2) [of r] g(2) [of x] \<open>relation_active r'\<close> \<open>relation_active x'\<close> sp
      unfolding rows_ok_def by metis
    then show ?thesis by (simp add: r id)
  qed
  ultimately show ?thesis unfolding rows_ok_def u by blast
qed

lemma friend_step_ok: "friend_step rs rs' \<Longrightarrow> rows_ok rs \<Longrightarrow> rows_ok rs'"
proof (induction rule: friend_step.induct)
  case (ask r rs)
  have "fr_id r \<notin> fr_id ` set rs" using ask.hyps(2) by force
  then have "distinct (map fr_id (rs @ [r]))" using ask.prems by (simp add: rows_ok_def)
  moreover have "fr_id y = fr_id x" if "y \<in> set (rs @ [r])" "x \<in> set (rs @ [r])"
    "same_pair y x" "relation_active y" "relation_active x" for y x
  proof -
    consider "y \<in> set rs" "x \<in> set rs" | "y = r" "x \<in> set rs" | "x = r" "y \<in> set rs" | "x = r" "y = r"
      using \<open>y \<in> _\<close> \<open>x \<in> _\<close> by auto
    then show ?thesis
    proof cases
      case 1
      then show ?thesis using ask.prems \<open>same_pair y x\<close> \<open>relation_active y\<close> \<open>relation_active x\<close> unfolding rows_ok_def by blast
    next
      case 2
      then show ?thesis using ask.hyps(3) \<open>same_pair y x\<close> \<open>relation_active x\<close> by blast
    next
      case 3
      then show ?thesis using ask.hyps(3) same_pair_sym [OF \<open>same_pair y x\<close>] \<open>relation_active y\<close> by blast
    qed simp
  qed
  ultimately show ?case unfolding rows_ok_def by blast
next
  case (decide hit f rs)
  then show ?case by (intro rows_ok_update) (auto simp: relation_active_def)
next
  case (annotate f rs hit)
  then show ?case by (intro rows_ok_update) (auto simp: relation_active_def)
next
  case (remove rs gone)
  then show ?case unfolding rows_ok_def using distinct_map_delete_where by (metis (no_types, lifting) mem_Collect_eq set_delete_where)
qed

lemma friend_steps_ok: "friend_steps rs rs' \<Longrightarrow> rows_ok rs \<Longrightarrow> rows_ok rs'"
  by (induction rule: rtranclp_induct) (auto intro: friend_step_ok)

section \<open>The invariant\<close>

text \<open>A request's thread is bounded, and its sender writes at most five messages before an answer.\<close>

definition threads_ok :: "friend_db \<Rightarrow> bool" where
  "threads_ok db \<longleftrightarrow> (\<forall>m \<in> set (fd_threads db). tm_requestId m \<in> fr_id ` set (fd_friends db))
     \<and> (\<forall>i. count_where (\<lambda>m. tm_requestId m = i) (fd_threads db) \<le> FRIEND_REQUEST_MESSAGE_TOTAL_CAP)
     \<and> (\<forall>r \<in> set (fd_friends db). thread_count (fr_id r) (fr_friendID r) db = 0 \<longrightarrow>
          thread_count (fr_id r) (fr_userID r) db \<le> FRIEND_REQUEST_MESSAGE_SENDER_SOFT_CAP)"

definition friend_inv :: "friend_db \<Rightarrow> bool" where
  "friend_inv db \<longleftrightarrow> rows_ok (fd_friends db) \<and> threads_ok db"

definition friend_evolves :: "friend_db \<Rightarrow> friend_db \<Rightarrow> bool" where
  "friend_evolves db db' \<longleftrightarrow> friend_inv db' \<and> friend_steps (fd_friends db) (fd_friends db')"

abbreviation friend_rely :: "friend_others \<Rightarrow> bool" where "friend_rely \<equiv> relies friend_evolves friend_inv"

interpretation friend_run: interleaved friend_evolves friend_inv
  by unfold_locales (auto simp: friend_evolves_def)

lemma friend_evolvesI:
  "friend_inv db \<Longrightarrow> friend_step (fd_friends db) (fd_friends db') \<Longrightarrow> threads_ok db' \<Longrightarrow> friend_evolves db db'"
  using friend_step_ok by (auto simp: friend_evolves_def friend_inv_def)

text \<open>Other tables do not matter.\<close>

lemma evolves_elsewhere:
  "friend_inv db \<Longrightarrow> fd_friends db' = fd_friends db \<Longrightarrow> fd_threads db' = fd_threads db \<Longrightarrow> friend_evolves db db'"
  by (simp add: friend_evolves_def friend_inv_def threads_ok_def thread_count_def)

lemma createFriendActivities_same:
  "fd_friends (createFriendActivities now as db) = fd_friends db \<and> fd_threads (createFriendActivities now as db) = fd_threads db"
  by (induction now as db rule: createFriendActivities.induct) (simp_all add: Let_def)

lemma insert_backfill_same:
  "fd_friends (insert_backfill as db) = fd_friends db \<and> fd_threads (insert_backfill as db) = fd_threads db"
  by (induction as db rule: insert_backfill.induct) simp_all

lemma evolves_then_elsewhere:
  "friend_evolves a b \<Longrightarrow> fd_friends c = fd_friends b \<Longrightarrow> fd_threads c = fd_threads b \<Longrightarrow> friend_evolves a c"
  by (rule friend_run.evol_then) (auto intro: evolves_elsewhere)

text \<open>Rows change, threads stay.\<close>

lemma threads_ok_update:
  assumes "threads_ok db" "\<And>x. hit x \<Longrightarrow> friend_static (f x) = friend_static x"
    "fd_friends db' = update_where hit f (fd_friends db)" "fd_threads db' = fd_threads db"
  shows "threads_ok db'"
proof -
  define g where "g = (\<lambda>x. if hit x then f x else x)"
  have u: "fd_friends db' = map g (fd_friends db)" by (simp add: assms(3) update_where_def g_def)
  have g: "fr_id (g x) = fr_id x" "fr_userID (g x) = fr_userID x" "fr_friendID (g x) = fr_friendID x" for x
    using assms(2) by (auto simp: g_def friend_static_def)
  show ?thesis
    using assms(1) by (simp add: threads_ok_def u assms(4) thread_count_def g image_image)
qed

lemma evolves_decide:
  assumes "friend_inv db" "\<And>x. hit x \<Longrightarrow> fr_state x = PENDING"
    "\<And>x. hit x \<Longrightarrow> friend_static (f x) = friend_static x \<and> fr_state (f x) \<noteq> PENDING"
    "fd_friends db' = update_where hit f (fd_friends db)" "fd_threads db' = fd_threads db"
  shows "friend_evolves db db'"
proof (rule friend_evolvesI [OF assms(1)])
  show "friend_step (fd_friends db) (fd_friends db')" unfolding assms(4) by (rule decide [OF assms(2,3)])
  show "threads_ok db'"
    by (rule threads_ok_update [where hit = hit and f = f, OF _ _ assms(4,5)]) (use assms(1,3) in \<open>simp_all add: friend_inv_def\<close>)
qed

lemma evolves_annotate:
  assumes "friend_inv db" "\<And>x. friend_static (f x) = friend_static x \<and> fr_state (f x) = fr_state x"
  shows "friend_evolves db (set_friend hit now f db)"
proof -
  define f' where "f' = (\<lambda>x. (f x)\<lparr>fr_updatedAt := now\<rparr>)"
  have f': "friend_static (f' x) = friend_static x \<and> fr_state (f' x) = fr_state x" for x
    using assms(2) [of x] by (simp add: friend_static_def f'_def)
  have fr: "fd_friends (set_friend hit now f db) = update_where hit f' (fd_friends db)"
    and th: "fd_threads (set_friend hit now f db) = fd_threads db"
    by (simp_all add: set_friend_def f'_def)
  show ?thesis
  proof (rule friend_evolvesI [OF assms(1)])
    show "friend_step (fd_friends db) (fd_friends (set_friend hit now f db))" unfolding fr by (rule annotate [OF f'])
    show "threads_ok (set_friend hit now f db)"
      by (rule threads_ok_update [OF _ _ fr th]) (use assms(1) f' in \<open>simp_all add: friend_inv_def\<close>)
  qed
qed

lemma evolves_delete_rows:
  assumes "friend_inv db"
  shows "friend_evolves db (delete_friend_rows gone db)"
proof (rule friend_evolvesI [OF assms])
  show "friend_step (fd_friends db) (fd_friends (delete_friend_rows gone db))"
    by (simp add: delete_friend_rows_def Let_def remove)
  have ids: "distinct (map fr_id (fd_friends db))" using assms by (simp add: friend_inv_def rows_ok_def)
  define out where "out = (\<lambda>i. list_ex (\<lambda>r. gone r \<and> fr_id r = i) (fd_friends db))"
  have out: "out (fr_id r) \<longleftrightarrow> gone r" if "r \<in> set (fd_friends db)" for r
    using that distinct_map_eq [OF ids that] by (fastforce simp: out_def list_ex_iff)
  have fr: "fd_friends (delete_friend_rows gone db) = delete_where gone (fd_friends db)"
    and th: "fd_threads (delete_friend_rows gone db) = delete_where (\<lambda>m. out (tm_requestId m)) (fd_threads db)"
    by (simp_all add: delete_friend_rows_def Let_def out_def)
  have cnt: "thread_count (fr_id r) u (delete_friend_rows gone db) = thread_count (fr_id r) u db"
    if "r \<in> set (fd_friends db)" "\<not> gone r" for r u
    using that out [OF that(1)] unfolding thread_count_def th count_where_def delete_where_def filter_filter
    by (intro arg_cong [where f = length] filter_cong) auto
  have le: "count_where p (delete_where q rows) \<le> count_where p rows" for p :: "thread_message \<Rightarrow> bool" and q rows
    by (induction rows) (auto simp: delete_where_def)
  have t: "threads_ok db" using assms by (simp add: friend_inv_def)
  show "threads_ok (delete_friend_rows gone db)"
    unfolding threads_ok_def
  proof (intro conjI ballI allI impI)
    fix m assume "m \<in> set (fd_threads (delete_friend_rows gone db))"
    then have m: "m \<in> set (fd_threads db)" "\<not> out (tm_requestId m)" by (auto simp: th)
    then obtain r where r: "r \<in> set (fd_friends db)" "tm_requestId m = fr_id r" using t by (auto simp: threads_ok_def)
    with m(2) out [OF r(1)] show "tm_requestId m \<in> fr_id ` set (fd_friends (delete_friend_rows gone db))"
      by (auto simp: fr)
  next
    fix i
    show "count_where (\<lambda>m. tm_requestId m = i) (fd_threads (delete_friend_rows gone db)) \<le> FRIEND_REQUEST_MESSAGE_TOTAL_CAP"
      using t le order_trans unfolding th threads_ok_def by blast
  next
    fix r assume "r \<in> set (fd_friends (delete_friend_rows gone db))"
      "thread_count (fr_id r) (fr_friendID r) (delete_friend_rows gone db) = 0"
    with t cnt [of r] show "thread_count (fr_id r) (fr_userID r) (delete_friend_rows gone db) \<le> FRIEND_REQUEST_MESSAGE_SENDER_SOFT_CAP"
      by (auto simp: fr threads_ok_def)
  qed
qed

section \<open>Transactions\<close>

lemma threads_ok_no_thread:
  assumes "threads_ok db" "i \<notin> fr_id ` set (fd_friends db)"
  shows "count_where (\<lambda>m. tm_requestId m = i) (fd_threads db) = 0" "thread_count i u db = 0"
  using assms by (auto simp: threads_ok_def thread_count_def count_where_0_iff)

lemma evolves_send_tx:
  assumes inv: "friend_inv db" and tx: "send_tx now q db = Inr db'"
  shows "friend_evolves db db'"
proof -
  define r where "r = request_row now q"
  define ms where "ms = (case normalizeOptionalText (rq_message q) of None \<Rightarrow> []
     | Some m \<Rightarrow> [\<lparr>tm_id = rq_messageRowId q, tm_requestId = rq_id q, tm_senderId = rq_senderId q, tm_content = m, tm_createdAt = now\<rparr>])"
  have free: "find_where (\<lambda>x. pair_is (rq_senderId q) (rq_targetId q) x \<and> relation_active x) (fd_friends db) = None"
    and fresh: "find_request (rq_id q) db = None"
    using tx by (auto simp: send_tx_def Let_def split: option.splits if_splits)
  have fr: "fd_friends db' = fd_friends db @ [r]" and th: "fd_threads db' = fd_threads db @ ms"
    using tx free fresh by (auto simp: send_tx_def Let_def createFriendActivities_same syncPendingFriendTagLinks_def r_def ms_def
        split: option.splits)
  have rr: "fr_id r = rq_id q" "fr_userID r = rq_senderId q" "fr_friendID r = rq_targetId q" "fr_state r = PENDING"
    by (simp_all add: r_def request_row_def)
  have new: "rq_id q \<notin> fr_id ` set (fd_friends db)" using fresh by (auto simp: find_request_def find_where_None_iff)
  have t: "threads_ok db" using inv by (simp add: friend_inv_def)
  have ms: "length ms \<le> 1" "\<And>m. m \<in> set ms \<Longrightarrow> tm_requestId m = rq_id q" by (auto simp: ms_def split: option.splits)
  have ms_le: "count_where p ms \<le> 1" for p
    using ms(1) by (simp add: count_where_def order_trans [OF length_filter_le])
  have ms_0: "count_where (\<lambda>m. tm_requestId m = i) ms = 0" "count_where (\<lambda>m. tm_requestId m = i \<and> P m) ms = 0"
    if "i \<noteq> rq_id q" for i P using ms(2) that by (auto simp: count_where_0_iff)
  show ?thesis
  proof (rule friend_evolvesI [OF inv])
    show "friend_step (fd_friends db) (fd_friends db')"
      unfolding fr
    proof (rule ask [OF rr(4)])
      fix x assume x: "x \<in> set (fd_friends db)"
      show "fr_id x \<noteq> fr_id r" using imageI [OF x, of fr_id] new rr(1) by metis
      show "same_pair r x \<Longrightarrow> \<not> relation_active x"
        using free x by (auto simp: find_where_None_iff same_pair_def rr)
    qed
    show "threads_ok db'"
      unfolding threads_ok_def
    proof (intro conjI ballI allI impI)
      fix m assume "m \<in> set (fd_threads db')"
      then show "tm_requestId m \<in> fr_id ` set (fd_friends db')"
        using t ms(2) rr(1) by (auto simp: th fr threads_ok_def)
    next
      fix i
      show "count_where (\<lambda>m. tm_requestId m = i) (fd_threads db') \<le> FRIEND_REQUEST_MESSAGE_TOTAL_CAP"
      proof (cases "i = rq_id q")
        case True
        then show ?thesis using threads_ok_no_thread(1) [OF t new] ms_le [of "\<lambda>m. tm_requestId m = rq_id q"]
          by (simp add: th FRIEND_REQUEST_MESSAGE_TOTAL_CAP_def)
      next
        case False
        then show ?thesis using t ms_0 by (simp add: th threads_ok_def)
      qed
    next
      fix x assume x: "x \<in> set (fd_friends db')" and 0: "thread_count (fr_id x) (fr_friendID x) db' = 0"
      show "thread_count (fr_id x) (fr_userID x) db' \<le> FRIEND_REQUEST_MESSAGE_SENDER_SOFT_CAP"
      proof (cases "x = r")
        case True
        have "thread_count (rq_id q) (fr_userID r) db' = count_where (\<lambda>m. tm_requestId m = rq_id q \<and> tm_senderId m = fr_userID r) ms"
          using threads_ok_no_thread(2) [OF t new] by (simp add: thread_count_def th)
        then show ?thesis using ms_le [of "\<lambda>m. tm_requestId m = rq_id q \<and> tm_senderId m = fr_userID r"] True
          by (simp add: rr FRIEND_REQUEST_MESSAGE_SENDER_SOFT_CAP_def)
      next
        case False
        then have x': "x \<in> set (fd_friends db)" using x by (simp add: fr)
        then have "fr_id x \<noteq> rq_id q" using imageI [OF x', of fr_id] new by metis
        then have "thread_count (fr_id x) u db' = thread_count (fr_id x) u db" for u
          using ms_0(2) by (simp add: thread_count_def th)
        then show ?thesis using t x' 0 by (simp add: threads_ok_def)
      qed
    qed
  qed
qed

lemma evolves_cancel_tx:
  assumes "friend_inv db" "cancel_tx now actId s i db = Inr db'"
  shows "friend_evolves db db'"
proof -
  define hit where "hit = (\<lambda>x :: friend_row. fr_id x = i \<and> fr_userID x = s \<and> fr_state x = PENDING)"
  define f where "f = (\<lambda>x :: friend_row. x\<lparr>fr_state := WITHDRAWN, fr_updatedAt := now\<rparr>)"
  have "fd_friends db' = update_where hit f (fd_friends db)" "fd_threads db' = fd_threads db"
    using assms(2) by (auto simp: cancel_tx_def bind_res_Inr_iff Let_def createFriendActivities_same drop_pending_links_def
        set_friend_def hit_def f_def split: if_splits)
  then show ?thesis
    by (rule evolves_decide [OF assms(1), rotated 2]) (auto simp: hit_def f_def friend_static_def)
qed

lemma queue_replay_same:
  "fd_friends (queue_replay now j r a db) = fd_friends db" "fd_threads (queue_replay now j r a db) = fd_threads db"
  by (simp_all add: queue_replay_def Let_def)

lemma promote_same:
  "promotePendingFriendTags r db = Inr db' \<Longrightarrow> fd_friends db' = fd_friends db \<and> fd_threads db' = fd_threads db"
  by (auto simp: promotePendingFriendTags_def Let_def split: if_splits)

lemma evolves_decide_tx:
  assumes inv: "friend_inv db" and tx: "decide_tx now newIds u i accept db = Inr db'"
  shows "friend_evolves db db'"
proof -
  define hit where "hit = (\<lambda>x :: friend_row. fr_id x = i \<and> fr_friendID x = u \<and> fr_state x = PENDING)"
  obtain r where r: "request_locked (\<lambda>r. fr_friendID r = u) i db = Inr r"
    using tx by (auto simp: decide_tx_def bind_res_Inr_iff)
  define f where "f = (\<lambda>x :: friend_row. ((if accept then promote_notes r x else x)\<lparr>fr_state := (if accept then ACCEPTED else REJECTED)\<rparr>)\<lparr>fr_updatedAt := now\<rparr>)"
  have f: "fd_friends (set_friend hit now (\<lambda>x. (if accept then promote_notes r x else x)\<lparr>fr_state := (if accept then ACCEPTED else REJECTED)\<rparr>) db)
      = update_where hit f (fd_friends db)" by (simp add: set_friend_def f_def)
  have "fd_friends db' = update_where hit f (fd_friends db) \<and> fd_threads db' = fd_threads db"
  proof (cases accept)
    case True
    obtain db2 where "promotePendingFriendTags r (set_friend hit now (\<lambda>x. (promote_notes r x)\<lparr>fr_state := ACCEPTED\<rparr>) db) = Inr db2"
      "fd_friends db' = fd_friends db2" "fd_threads db' = fd_threads db2"
      using tx r True unfolding decide_tx_def Let_def hit_def [symmetric]
      by (auto simp: bind_res_Inr_iff queue_replay_same createFriendActivities_same drop_pending_links_def split: if_split_asm
          simp del: createFriendActivities.simps)
    then show ?thesis using f True promote_same by (fastforce simp: set_friend_def)
  next
    case False
    then have "fd_friends db' = fd_friends (set_friend hit now (\<lambda>x. x\<lparr>fr_state := REJECTED\<rparr>) db)" "fd_threads db' = fd_threads db"
      using tx r unfolding decide_tx_def Let_def hit_def [symmetric]
      by (auto simp: createFriendActivities_same drop_pending_links_def set_friend_def split: if_split_asm
          simp del: createFriendActivities.simps)
    with f False show ?thesis by simp
  qed
  then show ?thesis
    by (intro evolves_decide [OF inv, of hit f]) (auto simp: hit_def f_def friend_static_def promote_notes_def)
qed

lemma evolves_block_tx:
  assumes "friend_inv db" "block_tx now a b db = Inr db'"
  shows "friend_evolves db db'"
  by (rule evolves_then_elsewhere [OF evolves_delete_rows [OF assms(1), of "pair_is a b"]])
    (use assms(2) in \<open>auto simp: block_tx_def Let_def split: if_splits\<close>)

lemma refresh_same:
  "fd_friends (refresh_message_activity now j i t u c db) = fd_friends db"
  "fd_threads (refresh_message_activity now j i t u c db) = fd_threads db"
  by (simp_all add: refresh_message_activity_def Let_def)

lemma evolves_append:
  assumes inv: "friend_inv db"
  shows "friend_evolves db (snd (appendRequestMessage now newIds u i raw db))"
proof (cases "fst (appendRequestMessage now newIds u i raw db)")
  case (Inl e)
  then have "snd (appendRequestMessage now newIds u i raw db) = db"
    by (auto simp: appendRequestMessage_def Let_def split: option.splits if_splits)
  then show ?thesis by (simp add: friend_run.evol_refl [OF inv])
next
  case (Inr m)
  define db' where "db' = snd (appendRequestMessage now newIds u i raw db)"
  from Inr obtain r where r: "find_request i db = Some r" "fr_userID r = u \<or> fr_friendID r = u"
    "count_where (\<lambda>m. tm_requestId m = i) (fd_threads db) < FRIEND_REQUEST_MESSAGE_TOTAL_CAP"
    "fr_userID r = u \<Longrightarrow> thread_count i (fr_friendID r) db = 0 \<Longrightarrow> thread_count i (fr_userID r) db < FRIEND_REQUEST_MESSAGE_SENDER_SOFT_CAP"
    and m: "tm_requestId m = i" "tm_senderId m = u"
    and fr: "fd_friends db' = fd_friends db" and th: "fd_threads db' = fd_threads db @ [m]"
    unfolding db'_def
    by (auto simp: appendRequestMessage_def Let_def refresh_same split: option.splits if_splits)
  have t: "threads_ok db" and ids: "distinct (map fr_id (fd_friends db))" using inv by (auto simp: friend_inv_def rows_ok_def)
  have rin: "r \<in> set (fd_friends db)" "fr_id r = i" using r(1) by (auto simp: find_request_def dest: find_where_SomeD)
  have "threads_ok db'"
    unfolding threads_ok_def
  proof (intro conjI ballI allI impI)
    fix x assume "x \<in> set (fd_threads db')"
    then show "tm_requestId x \<in> fr_id ` set (fd_friends db')" using t rin m(1) by (auto simp: th fr threads_ok_def)
  next
    fix j
    have "count_where (\<lambda>x. tm_requestId x = j) (fd_threads db) \<le> FRIEND_REQUEST_MESSAGE_TOTAL_CAP" using t by (simp add: threads_ok_def)
    then show "count_where (\<lambda>x. tm_requestId x = j) (fd_threads db') \<le> FRIEND_REQUEST_MESSAGE_TOTAL_CAP"
      using r(3) m(1) by (auto simp: th)
  next
    fix x assume x: "x \<in> set (fd_friends db')" and 0: "thread_count (fr_id x) (fr_friendID x) db' = 0"
    have x': "x \<in> set (fd_friends db)" using x by (simp add: fr)
    have 1: "thread_count (fr_id x) (fr_friendID x) db = 0" and no: "\<not> (fr_id x = i \<and> fr_friendID x = u)"
      using 0 m by (auto simp: thread_count_def th split: if_splits)
    have le: "thread_count (fr_id x) (fr_userID x) db \<le> FRIEND_REQUEST_MESSAGE_SENDER_SOFT_CAP" using t x' 1 by (simp add: threads_ok_def)
    show "thread_count (fr_id x) (fr_userID x) db' \<le> FRIEND_REQUEST_MESSAGE_SENDER_SOFT_CAP"
    proof (cases "fr_id x = i \<and> fr_userID x = u")
      case True
      then have "x = r" using distinct_map_eq [OF ids x' rin(1)] rin(2) by simp
      then have "thread_count i (fr_userID r) db < FRIEND_REQUEST_MESSAGE_SENDER_SOFT_CAP" using r(4) True 1 rin(2) by simp
      then show ?thesis using \<open>x = r\<close> rin(2) m True by (simp add: thread_count_def th)
    next
      case False
      then have "thread_count (fr_id x) (fr_userID x) db' = thread_count (fr_id x) (fr_userID x) db"
        using m by (auto simp: thread_count_def th)
      with le show ?thesis by simp
    qed
  qed
  moreover have "rows_ok (fd_friends db)" using inv by (simp add: friend_inv_def)
  ultimately show ?thesis by (simp add: friend_evolves_def friend_inv_def db'_def [symmetric] fr)
qed


section \<open>Handlers\<close>

lemma guards_evolve:
  "friend_rely others \<Longrightarrow> friend_evolves a b \<Longrightarrow> guards gs others k b = (res, d) \<Longrightarrow> friend_evolves a d"
  using friend_run.evol_guards [of others a b gs k] by simp

lemma evolves_sendRequest:
  assumes r: "friend_rely others" and inv: "friend_inv db"
  shows "friend_evolves db (snd (sendRequest others foreign now q db))"
proof -
  obtain res d where g: "guards (send_checks foreign q) others 0 db = (res, d)" by fastforce
  have 1: "friend_evolves db d" by (rule guards_evolve [OF r friend_run.evol_refl [OF inv] g])
  show ?thesis
  proof (cases res)
    case (Inl e)
    with g 1 show ?thesis by (simp add: sendRequest_def)
  next
    case (Inr k)
    define viaQr where "viaQr = (case rq_qrToken q of None \<Rightarrow> False
      | Some tok \<Rightarrow> tok \<noteq> '''' \<and> isValidUserQrToken now tok (rq_targetId q) d)"
    define d1 where "d1 = others k d"
    have 2: "friend_evolves db (others (k + 1) d1)" unfolding d1_def by (intro friend_run.rely_step [OF r] 1)
    obtain res2 d2 where g2: "guards (privacy_checks q viaQr (fd_settings d1 (rq_targetId q))) others (k + 2) (others (k + 1) d1) = (res2, d2)"
      by fastforce
    have 3: "friend_evolves db d2" by (rule guards_evolve [OF r 2 g2])
    have run: "sendRequest others foreign now q db =
        (case res2 of Inl e \<Rightarrow> (Inl e, d2) | Inr j \<Rightarrow>
          (case send_tx now q d2 of Inr d3 \<Rightarrow> (Inr (), d3)
           | Inl e \<Rightarrow> if e = FriendUniqueViolation
               then (Inl (throwActiveFriendConflict (rq_senderId q) (rq_targetId q) (others j d2)), others j d2)
               else (Inl e, d2)))"
      using g Inr g2 by (simp add: sendRequest_def Let_def viaQr_def [symmetric] d1_def [symmetric] split: sum.split)
    show ?thesis
      unfolding run using 3 friend_run.rely_step [OF r 3] friend_run.evol_then [OF 3 evolves_send_tx]
      by (auto split: sum.split)
  qed
qed

lemma evolves_cancelRequest:
  assumes r: "friend_rely others" and inv: "friend_inv db"
  shows "friend_evolves db (snd (cancelRequest others now a s i db))"
  using friend_run.evol_refl [OF inv] friend_run.rely_first [OF r inv, of 0]
    friend_run.evol_then [OF friend_run.rely_first [OF r inv, of 0] evolves_cancel_tx]
  by (auto simp: cancelRequest_def split: option.split sum.split)

lemma evolves_handleRequest:
  assumes r: "friend_rely others" and inv: "friend_inv db"
  shows "friend_evolves db (snd (handleRequest others now ids u i accept db))"
proof (cases "find_request i db")
  case None
  with friend_run.evol_refl [OF inv] show ?thesis by (simp add: handleRequest_def)
next
  case (Some x)
  obtain res d where g: "guards (if accept
      then [\<lambda>d. if user_active (fr_userID x) d then Inr () else Inl RequesterUnavailable, assertBelowFriendLimit u]
      else []) others 1 (others 0 db) = (res, d)" by fastforce
  have 1: "friend_evolves db d" by (rule guards_evolve [OF r friend_run.rely_first [OF r inv] g])
  then have "friend_evolves db d'" if "decide_tx now ids u i accept d = Inr d'" for d'
    using friend_run.evol_then [OF 1 evolves_decide_tx [OF _ that]] by simp
  with 1 Some g friend_run.evol_refl [OF inv] show ?thesis
    by (auto simp: handleRequest_def split: sum.split)
qed

lemma evolves_removeFriend:
  assumes r: "friend_rely others" and inv: "friend_inv db"
  shows "friend_evolves db (snd (removeFriend others u f db))"
  using friend_run.evol_refl [OF inv] friend_run.rely_first [OF r inv, of 0]
    friend_run.evol_then [OF friend_run.rely_first [OF r inv, of 0] evolves_delete_rows]
  by (auto simp: removeFriend_def Let_def split: option.split)

lemma evolves_blockUser:
  assumes r: "friend_rely others" and inv: "friend_inv db"
  shows "friend_evolves db (snd (blockUser others now a b db))"
proof -
  obtain res d where g: "guards [\<lambda>_. if a = b then Inl BlockSelf else Inr (),
                   \<lambda>d. if user_active b d then Inr () else Inl UserNotFound,
                   \<lambda>d. if find_block a b d \<noteq> None then Inl AlreadyBlocked else Inr ()] others 0 db = (res, d)" by fastforce
  have 1: "friend_evolves db d" by (rule guards_evolve [OF r friend_run.evol_refl [OF inv] g])
  then show ?thesis
    using g friend_run.evol_then [OF 1 evolves_block_tx] by (auto simp: blockUser_def split: sum.split)
qed

lemma evolves_unblockUser: "friend_inv db \<Longrightarrow> friend_evolves db (snd (unblockUser a b db))"
  by (rule evolves_elsewhere) (simp_all add: unblockUser_def)

lemma evolves_setFriendPermission:
  assumes r: "friend_rely others" and inv: "friend_inv db"
  shows "friend_evolves db (snd (setFriendPermission others now u f perm db))"
proof -
  have 1: "friend_evolves db (others 0 db)" by (rule friend_run.rely_first [OF r inv])
  have 2: "friend_evolves db (set_friend hit now (\<lambda>x. x\<lparr>fr_permissionA := perm\<rparr>) (others 0 db))" for hit
    by (rule friend_run.evol_then [OF 1 evolves_annotate]) (simp_all add: friend_static_def)
  have 3: "friend_evolves db (set_friend hit' now (\<lambda>x. x\<lparr>fr_permissionB := perm\<rparr>)
      (set_friend hit now (\<lambda>x. x\<lparr>fr_permissionA := perm\<rparr>) (others 0 db)))" for hit hit'
    by (rule friend_run.evol_then [OF 2 evolves_annotate]) (simp_all add: friend_static_def)
  show ?thesis
    using 3 friend_run.evol_refl [OF inv] by (simp add: setFriendPermission_def Let_def split: option.split)
qed

lemma evolves_setRemark:
  assumes r: "friend_rely others" and inv: "friend_inv db"
  shows "friend_evolves db (snd (setRemark others now u f remark db))"
proof -
  have 1: "friend_evolves db (others 0 db)" by (rule friend_run.rely_first [OF r inv])
  have 2: "friend_evolves db (set_friend hit now (\<lambda>x. x\<lparr>fr_remarkA := remark\<rparr>) (others 0 db))"
    "friend_evolves db (set_friend hit now (\<lambda>x. x\<lparr>fr_remarkB := remark\<rparr>) (others 0 db))" for hit
    by (rule friend_run.evol_then [OF 1 evolves_annotate]; simp add: friend_static_def)+
  show ?thesis
    using 1 2 friend_run.evol_refl [OF inv] by (simp add: setRemark_def Let_def split: option.split)
qed

text \<open>Handlers that touch neither friend rows nor threads.\<close>

lemma evolves_createTag:
  assumes r: "friend_rely others" and inv: "friend_inv db"
  shows "friend_evolves db (snd (createTag others i u n c db))"
proof -
  have 1: "friend_evolves db (others 0 db)" by (rule friend_run.rely_first [OF r inv])
  have 2: "friend_evolves db (others 1 (others 0 db))" by (rule friend_run.rely_step [OF r 1])
  show ?thesis
    using 1 2 friend_run.evol_refl [OF inv] evolves_then_elsewhere [OF 1] evolves_then_elsewhere [OF 2]
    by (simp add: createTag_def Let_def split: option.split)
qed

lemma evolves_tagging:
  assumes r: "friend_rely others" and inv: "friend_inv db"
  shows "friend_evolves db (snd (deleteTag others u t db))" "friend_evolves db (snd (assignTag others u f t db))"
    "friend_evolves db (snd (removeTag others u f t db))"
proof -
  have 1: "friend_evolves db (others 0 db)" by (rule friend_run.rely_first [OF r inv])
  note facts = 1 friend_run.evol_refl [OF inv] evolves_then_elsewhere [OF 1]
  show "friend_evolves db (snd (deleteTag others u t db))"
    using facts by (simp add: deleteTag_def Let_def split: option.split)
  show "friend_evolves db (snd (assignTag others u f t db))"
    using facts by (simp add: assignTag_def Let_def split: sum.split)
  show "friend_evolves db (snd (removeTag others u f t db))"
    using facts by (simp add: removeTag_def Let_def split: sum.split)
qed

lemma evolves_reportFriend:
  assumes r: "friend_rely others" and inv: "friend_inv db"
  shows "friend_evolves db (snd (reportFriend others foreign u f cat des ev db))"
proof -
  obtain res d where g: "guards [\<lambda>_. if u = f then Inl ReportSelf else Inr (),
                   \<lambda>d. if user_active f d then Inr () else Inl UserNotFound,
                   \<lambda>d. if find_friendship u f d = None then Inl FriendshipNotFound else Inr (),
                   \<lambda>d. if find_where (\<lambda>x. fp_reporterID x = u \<and> fp_targetID x = f \<and> fp_category x = cat \<and> fp_status x \<noteq> RP_REJECTED)
                         (fd_reports d) \<noteq> None then Inl ReportDuplicate else Inr (),
                   \<lambda>_. if list_ex foreign ev then Inl NotFromStorage else Inr ()] others 0 db = (res, d)" by fastforce
  have 1: "friend_evolves db d" by (rule guards_evolve [OF r friend_run.evol_refl [OF inv] g])
  show ?thesis
    unfolding reportFriend_def Let_def g using 1 evolves_then_elsewhere [OF 1] by (simp split: sum.split)
qed

lemma evolves_mark: "friend_inv db \<Longrightarrow> friend_evolves db (markViewerBackfilled now u db)"
  by (rule evolves_elsewhere) (simp_all add: markViewerBackfilled_def)

lemma evolves_backfill:
  assumes r: "friend_rely others" and inv: "friend_inv db"
  shows "friend_evolves db (snd (backfillLegacyActivitiesForViewer others now newId u db))"
proof -
  define d1 where "d1 = others 1 (others 0 db)"
  have 1: "friend_evolves db d1" unfolding d1_def by (intro friend_run.rely_step [OF r] friend_run.rely_first [OF r inv])
  have 2: "friend_evolves db (others 2 d1)" by (rule friend_run.rely_step [OF r 1])
  have 3: "friend_evolves db (others 3 (insert_backfill ms (others 2 d1)))" for ms
    by (rule friend_run.rely_step [OF r evolves_then_elsewhere [OF 2]]) (simp_all add: insert_backfill_same)
  have m: "friend_evolves db d \<Longrightarrow> friend_evolves db (markViewerBackfilled now u d)" for d
    by (rule friend_run.evol_then [OF _ evolves_mark])
  show ?thesis
    using m [OF 1] m [OF 2] m [OF 3] 2 friend_run.evol_refl [OF inv]
    by (simp add: backfillLegacyActivitiesForViewer_def Let_def d1_def [symmetric] del: One_nat_def split: option.split)
qed

lemma evolves_activities:
  assumes r: "friend_rely others" and inv: "friend_inv db"
  shows "friend_evolves db (snd (listActivities others now newId u db))"
    "friend_evolves db (snd (getUnreadActivityCount others now newId u db))"
    "friend_evolves db (snd (markActivityRead others now u i db))"
proof -
  obtain res d where b: "backfillLegacyActivitiesForViewer others now newId u db = (res, d)" by fastforce
  have 1: "friend_evolves db d" using evolves_backfill [OF r inv, of now newId u] b by simp
  show "friend_evolves db (snd (listActivities others now newId u db))"
    "friend_evolves db (snd (getUnreadActivityCount others now newId u db))"
    using 1 friend_run.rely_step [OF r 1] b by (simp_all add: listActivities_def getUnreadActivityCount_def Let_def split: sum.split)
  have "friend_evolves db (others 0 db)" by (rule friend_run.rely_first [OF r inv])
  then show "friend_evolves db (snd (markActivityRead others now u i db))"
    using evolves_elsewhere [OF inv] by (simp add: markActivityRead_def Let_def)
qed

end
