(* ===== verification/FriendClaims.thy ===== *)
theory FriendClaims
  imports FriendProofs
begin

text \<open>
  What the friend service promises: its tables under any history, the friend list, and a
  concrete interleaving in which a block and a request pass each other.
\<close>

section \<open>Histories\<close>

datatype friend_op =
    SendRequest "string \<Rightarrow> bool" int friend_request
  | CancelRequest int string string string
  | HandleRequest int "string \<times> string \<times> string" string string bool
  | RemoveFriend string string
  | BlockUser int string string
  | UnblockUser string string
  | SetPermission int string string friend_permission
  | SetRemark int string string "string option"
  | CreateTag string string string "string option"
  | DeleteTag string string
  | AssignTag string string string
  | RemoveTag string string string
  | AppendMessage int "string \<times> string" string string string
  | ReportFriend "string \<Rightarrow> bool" string string string string "string list"
  | ListActivities int "string \<Rightarrow> string" string
  | CountUnread int "string \<Rightarrow> string" string
  | MarkRead int string string

fun friend_exec :: "friend_others \<Rightarrow> friend_op \<Rightarrow> friend_db \<Rightarrow> friend_db" where
  "friend_exec others (SendRequest foreign now q) db = snd (sendRequest others foreign now q db)"
| "friend_exec others (CancelRequest now a s i) db = snd (cancelRequest others now a s i db)"
| "friend_exec others (HandleRequest now ids u i accept) db = snd (handleRequest others now ids u i accept db)"
| "friend_exec others (RemoveFriend u f) db = snd (removeFriend others u f db)"
| "friend_exec others (BlockUser now a b) db = snd (blockUser others now a b db)"
| "friend_exec others (UnblockUser a b) db = snd (unblockUser a b db)"
| "friend_exec others (SetPermission now u f p) db = snd (setFriendPermission others now u f p db)"
| "friend_exec others (SetRemark now u f r) db = snd (setRemark others now u f r db)"
| "friend_exec others (CreateTag i u n c) db = snd (createTag others i u n c db)"
| "friend_exec others (DeleteTag u t) db = snd (deleteTag others u t db)"
| "friend_exec others (AssignTag u f t) db = snd (assignTag others u f t db)"
| "friend_exec others (RemoveTag u f t) db = snd (removeTag others u f t db)"
| "friend_exec others (AppendMessage now ids u i raw) db = snd (appendRequestMessage now ids u i raw db)"
| "friend_exec others (ReportFriend foreign u f c d e) db = snd (reportFriend others foreign u f c d e db)"
| "friend_exec others (ListActivities now n u) db = snd (listActivities others now n u db)"
| "friend_exec others (CountUnread now n u) db = snd (getUnreadActivityCount others now n u db)"
| "friend_exec others (MarkRead now u i) db = snd (markActivityRead others now u i db)"

lemma evolves_friend_exec:
  "friend_rely others \<Longrightarrow> friend_inv db \<Longrightarrow> friend_evolves db (friend_exec others x db)"
  by (cases x) (simp_all add: evolves_sendRequest evolves_cancelRequest evolves_handleRequest evolves_removeFriend
      evolves_blockUser evolves_unblockUser evolves_setFriendPermission evolves_setRemark evolves_createTag
      evolves_tagging evolves_append evolves_reportFriend evolves_activities)

definition friend_history :: "(friend_others \<times> friend_op) list \<Rightarrow> friend_db \<Rightarrow> friend_db" where
  "friend_history = fold (\<lambda>(others, x). friend_exec others x)"

lemma evolves_friend_history:
  "\<forall>(others, x) \<in> set rs. friend_rely others \<Longrightarrow> friend_inv db \<Longrightarrow> friend_evolves db (friend_history rs db)"
  unfolding friend_history_def by (rule friend_run.evol_fold [OF evolves_friend_exec])

lemma rows_ok_count:
  assumes "rows_ok rs"
  shows "count_where (\<lambda>r. pair_is a b r \<and> relation_active r) rs \<le> 1"
proof (rule count_where_at_most_one [where k = fr_id])
  show ids: "distinct (map fr_id rs)" using assms by (simp add: rows_ok_def)
  fix r x assume r: "r \<in> set rs" "x \<in> set rs" "pair_is a b r \<and> relation_active r" "pair_is a b x \<and> relation_active x"
  then have "same_pair r x" by (auto simp: same_pair_def pair_is_def)
  then have "fr_id r = fr_id x" using assms r unfolding rows_ok_def by blast
  then show "r = x" by (rule distinct_map_eq [OF ids r(1,2)])
qed

text \<open>
  C14: Whatever requests the friend service has served since its tables were empty, and whatever was interleaved with
  their steps, the friend table went through a run of the abstract protocol, so that each pair of users
  has at most one pending request or friendship, in either direction, without any database constraint; a
  request's thread never exceeds fifty messages, and its sender never has more than five before an answer. (Who
  may take a step of the protocol is the handlers' guard, not part of the protocol.)
\<close>

theorem friend_tables_follow_protocol:
  assumes "\<forall>(others, x) \<in> set rs. friend_rely others" "fd_friends db0 = []" "fd_threads db0 = []"
    and "db = friend_history rs db0"
  shows "friend_steps [] (fd_friends db)
    \<and> (\<forall>a b. count_where (\<lambda>r. pair_is a b r \<and> relation_active r) (fd_friends db) \<le> 1)
    \<and> (\<forall>i. count_where (\<lambda>m. tm_requestId m = i) (fd_threads db) \<le> 50)
    \<and> (\<forall>r \<in> set (fd_friends db). thread_count (fr_id r) (fr_friendID r) db = 0 \<longrightarrow>
         thread_count (fr_id r) (fr_userID r) db \<le> 5)"
proof -
  have "friend_inv db0" using assms(2,3) by (simp add: friend_inv_def rows_ok_def threads_ok_def)
  from evolves_friend_history [OF assms(1) this]
  have e: "friend_inv db" "friend_steps [] (fd_friends db)" unfolding assms(4) friend_evolves_def assms(2) by auto
  then have "threads_ok db" and "rows_ok (fd_friends db)" by (auto simp: friend_inv_def)
  with e(2) rows_ok_count show ?thesis
    unfolding threads_ok_def FRIEND_REQUEST_MESSAGE_TOTAL_CAP_def FRIEND_REQUEST_MESSAGE_SENDER_SOFT_CAP_def by blast
qed

section \<open>A concrete run\<close>

definition demo_people :: friend_db where
  "demo_people = \<lparr>fd_friends = [], fd_threads = [], fd_activities = [], fd_tags = [], fd_tagLinks = [], fd_pendingLinks = [],
     fd_blocks = [], fd_reports = [], fd_replays = [],
     fd_users = [\<lparr>fu_id = ''a'', fu_status = ACTIVE, fu_role = R_USER, fu_activitiesBackfilledAt = None\<rparr>,
                 \<lparr>fu_id = ''b'', fu_status = ACTIVE, fu_role = R_USER, fu_activitiesBackfilledAt = None\<rparr>],
     fd_settings = (\<lambda>_. \<lparr>ps_allowStrangerMessages = True, ps_addMeByAccount = True, ps_addMeByGroup = True, ps_addMeByQrCode = True\<rparr>),
     fd_qrTokens = [], fd_deletedCircles = [], fd_circleSeats = [], fd_groups = [], fd_groupSeats = []\<rparr>"

definition demo_request :: friend_request where
  "demo_request = \<lparr>rq_id = ''r1'', rq_senderId = ''a'', rq_targetId = ''b'', rq_message = Some ''hi'', rq_remark = None,
     rq_tagIds = [], rq_description = None, rq_photos = [], rq_permission = None, rq_qrToken = None,
     rq_viaConversationId = None, rq_messageRowId = ''m1'', rq_activityIds = (''x1'', ''x2'')\<rparr>"

definition calm :: friend_others where "calm k d = d"

lemma friend_rely_calm: "friend_rely calm"
  by (simp add: relies_def calm_def friend_run.evol_refl)

lemmas send_defs = sendRequest_def send_checks_def privacy_checks_def assertStandaloneGroupPolicyAllows_def
  isBlockedByStandaloneGroupPolicy_def user_active_def blocked_between_def assertDiscoverableBy_def
  assertBelowFriendLimit_def FRIEND_LIMIT_USER_def send_tx_def find_request_def request_row_def normalizeOptionalText_def
  normalizePhotoKeys_def syncPendingFriendTagLinks_def new_activity_def js_trim_def is_space_def code_def of_char_def
  delete_where_def Let_def

definition demo_asked :: friend_db where
  "demo_asked = friend_history [(calm, SendRequest (\<lambda>_. False) 5 demo_request)] demo_people"

lemma demo_asked_rows: "fd_friends demo_asked = [request_row 5 demo_request]"
  by (simp add: demo_asked_def friend_history_def demo_people_def demo_request_def calm_def send_defs)

theorem friend_tables_follow_protocol_witness:
  "friend_steps [] [request_row 5 demo_request]
   \<and> count_where (\<lambda>r. pair_is ''b'' ''a'' r \<and> relation_active r) [request_row 5 demo_request] \<le> 1"
proof -
  have "\<forall>(others, x) \<in> set [(calm, SendRequest (\<lambda>_. False) 5 demo_request)]. friend_rely others"
    by (simp add: friend_rely_calm)
  from friend_tables_follow_protocol [OF this _ _ demo_asked_def] show ?thesis
    by (simp add: demo_asked_rows demo_people_def)
qed

section \<open>A request that passes a block\<close>

definition blocks_in_between :: "string \<Rightarrow> string \<Rightarrow> friend_others" where
  "blocks_in_between x y k d = (if k = 4 then snd (blockUser calm 6 x y d) else d)"

lemmas block_defs = blockUser_def find_block_def block_tx_def delete_friend_rows_def

lemma relies_blocks: "friend_rely (blocks_in_between x y)"
  using evolves_blockUser [OF friend_rely_calm] by (simp add: relies_def blocks_in_between_def friend_run.evol_refl)

definition demo_raced_1 :: friend_db where
  "demo_raced_1 = demo_people\<lparr>fd_friends := [request_row 5 demo_request],
     fd_threads := [\<lparr>tm_id = ''m1'', tm_requestId = ''r1'', tm_senderId = ''a'', tm_content = ''hi'', tm_createdAt = 5\<rparr>],
     fd_activities := [(new_activity ''x1'' ''r1'' ''a'' ''a'' ''b'' REQUEST_SENT (Some ''hi''))\<lparr>fa_readAt := Some 5, fa_createdAt := 5\<rparr>,
       (new_activity ''x2'' ''r1'' ''b'' ''a'' ''a'' REQUEST_RECEIVED (Some ''hi''))\<lparr>fa_createdAt := 5\<rparr>],
     fd_blocks := [\<lparr>bk_blockerID = ''a'', bk_blockedID = ''b'', bk_createdAt = 6\<rparr>]\<rparr>"

lemma demo_raced_step:
  "\<exists>x. sendRequest (blocks_in_between ''a'' ''b'') (\<lambda>_. False) 5 demo_request demo_people = (Inr x, demo_raced_1)"
  by (simp add: demo_people_def demo_raced_1_def demo_request_def blocks_in_between_def calm_def send_defs block_defs)

text \<open>
  A request can outlive a block. The block check of a request is made before its transaction and not repeated
  in it, and no step of the decision looks at blocks: \<open>a\<close> asks \<open>b\<close> and blocks \<open>b\<close> between the check and the
  transaction of the request (other requests do nothing else); the request is stored, \<open>b\<close> accepts it, both
  calls succeed, and the two are friends although one blocks the other.
\<close>

lemma request_outlives_block:
  "\<exists>x y db1 db2.
     sendRequest (blocks_in_between ''a'' ''b'') (\<lambda>_. False) 5 demo_request demo_people = (Inr x, db1)
     \<and> handleRequest calm 9 (''y1'', ''y2'', ''j1'') ''b'' ''r1'' True db1 = (Inr y, db2)
     \<and> friend_rely (blocks_in_between ''a'' ''b'') \<and> friend_inv demo_people
     \<and> blocked_between ''a'' ''b'' db2 \<and> find_friendship ''a'' ''b'' db2 \<noteq> None"
proof -
  obtain x where run: "sendRequest (blocks_in_between ''a'' ''b'') (\<lambda>_. False) 5 demo_request demo_people = (Inr x, demo_raced_1)"
    using demo_raced_step by blast
  have inv: "friend_inv demo_people"
    by (simp add: friend_inv_def rows_ok_def threads_ok_def demo_people_def)
  obtain y db2 where decide: "handleRequest calm 9 (''y1'', ''y2'', ''j1'') ''b'' ''r1'' True demo_raced_1 = (Inr y, db2)"
    "blocked_between ''a'' ''b'' db2 \<and> find_friendship ''a'' ''b'' db2 \<noteq> None"
    by (simp add: handleRequest_def demo_raced_1_def find_request_def request_row_def demo_request_def calm_def user_active_def
        demo_people_def assertBelowFriendLimit_def FRIEND_LIMIT_USER_def decide_tx_def request_locked_def Let_def set_friend_def
        promotePendingFriendTags_def drop_pending_links_def delete_where_def queue_replay_def new_activity_def promote_notes_def
        blocked_between_def find_friendship_def pair_is_def)
  show ?thesis using run decide inv relies_blocks by blast
qed

section \<open>The friend list\<close>

definition first_seen :: "string list \<Rightarrow> string list" where
  "first_seen ks = rev (remdups (rev ks))"

lemma first_seen_snoc: "first_seen (ks @ [k]) = (if k \<in> set ks then first_seen ks else first_seen ks @ [k])"
  by (simp add: first_seen_def)

lemma first_seen_set [simp]: "set (first_seen ks) = set ks" and first_seen_distinct: "distinct (first_seen ks)"
  by (simp_all add: first_seen_def)

text \<open>The reference: of each counterparty the first of the newest rows.\<close>

definition later_row :: "friend_row \<Rightarrow> friend_row \<Rightarrow> friend_row" where
  "later_row x y = (if fr_updatedAt x < fr_updatedAt y then y else x)"

definition newest_row :: "friend_row list \<Rightarrow> friend_row" where
  "newest_row rs = foldl later_row (hd rs) (tl rs)"

definition rows_with :: "string \<Rightarrow> string \<Rightarrow> friend_row list \<Rightarrow> friend_row list" where
  "rows_with u k rs = filter (\<lambda>r. getCounterpartyId r u = k) rs"

lemma newest_row_snoc: "newest_row (rs @ [r]) = (if rs = [] then r else later_row (newest_row rs) r)"
  by (cases rs) (simp_all add: newest_row_def)

lemma put_latest_map:
  "distinct ks \<Longrightarrow> put_latest k r (map (\<lambda>k. (k, g k)) ks) =
     (if k \<in> set ks then map (\<lambda>k'. (k', if k' = k then later_row (g k) r else g k')) ks else map (\<lambda>k. (k, g k)) ks @ [(k, r)])"
proof (induction ks)
  case (Cons a ks)
  show ?case
  proof (cases "a = k")
    case True
    with Cons.prems have "map (\<lambda>k'. (k', if k' = k then later_row (g k) r else g k')) ks = map (\<lambda>k. (k, g k)) ks"
      by (intro map_cong) auto
    with True show ?thesis by (simp add: later_row_def)
  next
    case False
    with Cons show ?thesis by simp
  qed
qed simp

lemma latest_fold:
  "fold (\<lambda>r. put_latest (getCounterpartyId r u) r) rs [] =
     map (\<lambda>k. (k, newest_row (rows_with u k rs))) (first_seen (map (\<lambda>r. getCounterpartyId r u) rs))"
proof (induction rs rule: rev_induct)
  case (snoc r rs)
  let ?ks = "map (\<lambda>r. getCounterpartyId r u) rs" and ?k = "getCounterpartyId r u"
  have w: "rows_with u k (rs @ [r]) = (if k = ?k then rows_with u k rs @ [r] else rows_with u k rs)" for k
    by (simp add: rows_with_def)
  have "rows_with u ?k rs = [] \<longleftrightarrow> (\<forall>x \<in> set rs. getCounterpartyId x u \<noteq> ?k)" by (simp add: rows_with_def filter_empty_conv)
  then have e: "rows_with u ?k rs = [] \<longleftrightarrow> ?k \<notin> set ?ks" by (metis (no_types, lifting) imageE imageI set_map)
  show ?case
  proof (cases "?k \<in> set ?ks")
    case True
    then have "rows_with u ?k rs \<noteq> []" using e by blast
    then have "newest_row (rows_with u ?k (rs @ [r])) = later_row (newest_row (rows_with u ?k rs)) r"
      by (simp add: w newest_row_snoc)
    then show ?thesis
      using True snoc put_latest_map [OF first_seen_distinct, of ?k r "\<lambda>k. newest_row (rows_with u k rs)" ?ks]
      by (simp add: first_seen_snoc) (auto simp: w)
  next
    case False
    then have "newest_row (rows_with u ?k (rs @ [r])) = r" using e by (simp add: w newest_row_def)
    moreover have "map (\<lambda>k. (k, newest_row (rows_with u k (rs @ [r])))) (first_seen ?ks) =
        map (\<lambda>k. (k, newest_row (rows_with u k rs))) (first_seen ?ks)"
      using False by (intro map_cong) (metis first_seen_set w)+
    ultimately show ?thesis
      using False snoc put_latest_map [OF first_seen_distinct, of ?k r "\<lambda>k. newest_row (rows_with u k rs)" ?ks]
      by (simp add: first_seen_snoc)
  qed
qed (simp add: first_seen_def)

lemma newest_row_sorted: "sorted (map (\<lambda>r. - fr_updatedAt r) (x # xs)) \<Longrightarrow> newest_row (x # xs) = x"
proof -
  have "\<forall>y \<in> set xs. fr_updatedAt y \<le> fr_updatedAt x \<Longrightarrow> foldl later_row x xs = x"
    by (induction xs) (auto simp: later_row_def)
  moreover assume "sorted (map (\<lambda>r. - fr_updatedAt r) (x # xs))"
  ultimately show ?thesis by (auto simp: newest_row_def)
qed

lemma rows_with_sorted: "sorted (map f rs) \<Longrightarrow> sorted (map f (rows_with u k rs))"
  by (simp add: rows_with_def sorted_filter)

lemma newest_row_max:
  "rs \<noteq> [] \<Longrightarrow> newest_row rs \<in> set rs \<and> (\<forall>x \<in> set rs. fr_updatedAt x \<le> fr_updatedAt (newest_row rs))"
proof (induction rs rule: rev_induct)
  case (snoc r rs)
  then show ?case by (cases "rs = []") (auto simp: newest_row_snoc later_row_def newest_row_def)
qed simp

text \<open>
  C38: Folding duplicate friend rows away through a map is the same as taking, for each counterparty in order of first
  appearance, the first of its most recently updated rows. On the rows as the database returns them, newest
  first, that is the first row of each counterparty, so the friend list shows nobody twice.
\<close>

theorem latest_records_reference:
  "latestFriendRecordsByCounterparty rs u =
     map (\<lambda>k. newest_row (rows_with u k rs)) (first_seen (map (\<lambda>r. getCounterpartyId r u) rs))
   \<and> distinct (map (\<lambda>r. getCounterpartyId r u) (latestFriendRecordsByCounterparty rs u))
   \<and> latestFriendRecordsByCounterparty (friends_of u db) u =
       map (\<lambda>k. hd (rows_with u k (friends_of u db))) (first_seen (map (\<lambda>r. getCounterpartyId r u) (friends_of u db)))"
proof -
  let ?ref = "\<lambda>rs. map (\<lambda>k. newest_row (rows_with u k rs)) (first_seen (map (\<lambda>r. getCounterpartyId r u) rs))"
  have ref: "latestFriendRecordsByCounterparty rs u = ?ref rs" for rs
    by (simp add: latestFriendRecordsByCounterparty_def latest_fold comp_def)
  have ne: "rows_with u k rs \<noteq> []" if "k \<in> set (first_seen (map (\<lambda>r. getCounterpartyId r u) rs))" for k rs
    using that by (auto simp: rows_with_def filter_empty_conv)
  have "map (\<lambda>r. getCounterpartyId r u) (?ref rs) = first_seen (map (\<lambda>r. getCounterpartyId r u) rs)"
    using newest_row_max [OF ne [of _ rs]] by (auto simp: comp_def rows_with_def intro!: map_idI)
  then have "distinct (map (\<lambda>r. getCounterpartyId r u) (?ref rs))" by (simp add: first_seen_distinct)
  moreover have "sorted (map (\<lambda>r. - fr_updatedAt r) (friends_of u db))"
    unfolding friends_of_def by (simp add: sorted_wrt_take take_map [symmetric])
  then have "newest_row (rows_with u k (friends_of u db)) = hd (rows_with u k (friends_of u db))"
    if "k \<in> set (first_seen (map (\<lambda>r. getCounterpartyId r u) (friends_of u db)))" for k
    using newest_row_sorted rows_with_sorted ne [OF that] by (metis list.collapse)
  ultimately show ?thesis unfolding ref by simp
qed

end
