(* ===== verification/FriendReplay.thy ===== *)
theory FriendReplay
  imports Friend ChatStore
begin

text \<open>
  The replay of an accepted friend request into the chat of the two: the leased job of
  \<open>src/friend/friend-chat-replay-outbox.processor.ts\<close>, on the rows \<open>queue_replay\<close> leaves behind and on the
  message store. Every statement may be lost by the network, and others act between any two. The two
  texts of the service and the word list are arguments.
\<close>

section \<open>Data\<close>

record replay_sys =
  rp_friend :: friend_db
  rp_chat :: chat_db

datatype replay_error = StatementLost | LeaseLost | ChatFailed chat_error

text \<open>What one run meets: the network, the others, clocks, drawn ids, and what it looks up outside the tables.\<close>

record replay_env =
  ev_outcome :: "nat \<Rightarrow> attempt_outcome"
  ev_others :: "nat \<Rightarrow> replay_sys \<Rightarrow> replay_sys"
  ev_between :: "nat \<Rightarrow> chat_db \<Rightarrow> chat_db"
  ev_now :: "nat \<Rightarrow> int"
  ev_fresh :: "nat \<Rightarrow> chat_db \<Rightarrow> string"
  ev_lease :: "nat \<Rightarrow> string"
  ev_hash :: "string \<Rightarrow> string"
  ev_blocked :: "string \<Rightarrow> bool"
  ev_profile :: "string \<Rightarrow> (string option \<times> string option) option"
  ev_intro :: string
  ev_reply :: string

type_synonym 'a replay_prog = "(nat \<times> replay_sys, replay_error, 'a) prog"

definition REPLAY_BATCH_SIZE :: nat where "REPLAY_BATCH_SIZE = 20"
definition REPLAY_STALE_LOCK_MS :: int where "REPLAY_STALE_LOCK_MS = 5 * 60 * 1000"
definition REPLAY_MAX_BACKOFF_MS :: int where "REPLAY_MAX_BACKOFF_MS = 30 * 60 * 1000"

section \<open>Statements\<close>

definition replay_stmt :: "replay_env \<Rightarrow> (nat \<Rightarrow> replay_sys \<Rightarrow> replay_error + ('a \<times> replay_sys)) \<Rightarrow> 'a replay_prog" where
  "replay_stmt env f = statement (ev_outcome env) (ev_others env) StatementLost f"

definition ask :: "replay_env \<Rightarrow> (replay_sys \<Rightarrow> 'a) \<Rightarrow> 'a replay_prog" where
  "ask env q = replay_stmt env (\<lambda>_ s. Inr (q s, s))"

definition jobs :: "replay_sys \<Rightarrow> replay_job list" where
  "jobs s = fd_replays (rp_friend s)"

text \<open>\<open>updateMany\<close> on the jobs, with the number of rows it hit.\<close>

definition update_jobs :: "(replay_job \<Rightarrow> bool) \<Rightarrow> (replay_job \<Rightarrow> replay_job) \<Rightarrow> replay_sys \<Rightarrow> nat \<times> replay_sys" where
  "update_jobs p f s =
     (count_where p (jobs s), s\<lparr>rp_friend := rp_friend s\<lparr>fd_replays := update_where p f (jobs s)\<rparr>\<rparr>)"

definition leased_by :: "string \<Rightarrow> string \<Rightarrow> replay_job \<Rightarrow> bool" where
  "leased_by i l j \<longleftrightarrow> rj_id j = i \<and> rj_leaseToken j = Some l \<and> rj_status j = RS_PROCESSING"

definition claim_job :: "replay_env \<Rightarrow> string \<Rightarrow> replay_job \<Rightarrow> nat replay_prog" where
  "claim_job env lease job = replay_stmt env (\<lambda>k s. Inr (update_jobs
     (\<lambda>j. rj_id j = rj_id job \<and> rj_status j = rj_status job \<and> (rj_status job = RS_PROCESSING \<longrightarrow> rj_lockedAt j = rj_lockedAt job))
     (\<lambda>j. j\<lparr>rj_status := RS_PROCESSING, rj_leaseToken := Some lease, rj_lockedAt := Some (ev_now env k)\<rparr>) s))"

definition persistProgress :: "replay_env \<Rightarrow> string \<Rightarrow> string \<Rightarrow> nat \<Rightarrow> nat option \<Rightarrow> unit replay_prog" where
  "persistProgress env lease jobId stage index = replay_stmt env (\<lambda>k s.
     (case update_jobs (leased_by jobId lease)
        (\<lambda>j. j\<lparr>rj_stage := stage, rj_messageIndex := (case index of None \<Rightarrow> rj_messageIndex j | Some n \<Rightarrow> n),
               rj_lockedAt := Some (ev_now env k)\<rparr>) s of
        (n, s') \<Rightarrow> if n = 0 then Inl LeaseLost else Inr ((), s')))"

definition finish_job :: "replay_env \<Rightarrow> string \<Rightarrow> string \<Rightarrow> unit replay_prog" where
  "finish_job env lease jobId = replay_stmt env (\<lambda>_ s. Inr ((), snd (update_jobs (leased_by jobId lease)
     (\<lambda>j. j\<lparr>rj_status := RS_COMPLETED, rj_stage := 4, rj_lockedAt := None, rj_leaseToken := None\<rparr>) s)))"

definition nextRetryAt :: "int \<Rightarrow> nat \<Rightarrow> int" where
  "nextRetryAt now attempts = now + min REPLAY_MAX_BACKOFF_MS (60000 * 2 ^ (attempts - 1))"

definition fail_job :: "replay_env \<Rightarrow> string \<Rightarrow> replay_job \<Rightarrow> unit replay_prog" where
  "fail_job env lease job = replay_stmt env (\<lambda>k s. Inr ((), snd (update_jobs (leased_by (rj_id job) lease)
     (\<lambda>j. j\<lparr>rj_status := RS_FAILED, rj_attempts := rj_attempts j + 1,
            rj_nextAttemptAt := nextRetryAt (ev_now env k) (rj_attempts job + 1), rj_lockedAt := None, rj_leaseToken := None\<rparr>) s)))"

section \<open>Messages\<close>

definition replay_key :: "string \<Rightarrow> string \<Rightarrow> string" where
  "replay_key requestId suffix = ''friend-request:'' @ requestId @ '':'' @ suffix"

definition text_input :: "string \<Rightarrow> string \<Rightarrow> string \<Rightarrow> server_input" where
  "text_input sender key text =
     \<lparr>si_sender = Some sender, si_type = ''text'', si_content = JsonFields [(''text'', text)], si_clientId = Some key,
      si_push = False, si_rebroadcast = False\<rparr>"

text \<open>
  A delivery that breaks after its commit (the answer, the media URLs, the broadcast) is a statement
  whose reply is lost.
\<close>

definition replay_insert :: "replay_env \<Rightarrow> string \<Rightarrow> server_input \<Rightarrow> unit replay_prog" where
  "replay_insert env c inp = replay_stmt env (\<lambda>k s.
     (case insertServerMessage (\<lambda>_. True) (ev_hash env) (ev_now env k) (ev_fresh env k (rp_chat s)) (\<lambda>_. Inr ())
             c inp (rp_chat s) of
        (Inl e, _) \<Rightarrow> Inl (ChatFailed e)
      | (Inr _, db) \<Rightarrow> Inr ((), s\<lparr>rp_chat := db\<rparr>)))"

lemma replay_insert_store:
  "replay_insert env c inp = replay_stmt env (\<lambda>k s.
     (case storeServerMessage (ev_hash env) (ev_now env k) (ev_fresh env k (rp_chat s)) (\<lambda>_. Inr ()) c inp (rp_chat s) of
        Inl e \<Rightarrow> Inl (ChatFailed e)
      | Inr (_, db) \<Rightarrow> Inr ((), s\<lparr>rp_chat := db\<rparr>)))"
  unfolding replay_insert_def insertServerMessage_def
  by (rule arg_cong [where f = "replay_stmt env"]) (intro ext, simp split: sum.split prod.split)

definition replayConversationId :: "replay_env \<Rightarrow> replay_job \<Rightarrow> string replay_prog" where
  "replayConversationId env job = replay_stmt env (\<lambda>k s.
     (case ensureDirectConversationForSettlement (ev_between env k) (ev_fresh env k (rp_chat s))
             (rj_requesterUserID job) (rj_accepterUserID job) (rp_chat s) of
        (_, Inl e) \<Rightarrow> Inl (ChatFailed e)
      | (db, Inr c) \<Rightarrow> Inr (c, s\<lparr>rp_chat := db\<rparr>)))"

definition replay_thread :: "string \<Rightarrow> replay_sys \<Rightarrow> thread_message list" where
  "replay_thread i s =
     sort_key tm_createdAt (sort_key tm_id (filter (\<lambda>m. tm_requestId m = i) (fd_threads (rp_friend s))))"

definition displayName :: "(string option \<times> string option) option \<Rightarrow> string \<Rightarrow> string" where
  "displayName user fallback =
     (let said = (\<lambda>x. case x of None \<Rightarrow> '''' | Some t \<Rightarrow> js_trim t);
          nick = (case user of None \<Rightarrow> '''' | Some (n, _) \<Rightarrow> said n);
          account = (case user of None \<Rightarrow> '''' | Some (_, a) \<Rightarrow> said a)
      in if nick \<noteq> '''' then nick else if account \<noteq> '''' then account else fallback)"

definition greeting_text :: "replay_env \<Rightarrow> string option \<Rightarrow> string \<Rightarrow> string" where
  "greeting_text env message name =
     (let t = (case message of None \<Rightarrow> '''' | Some x \<Rightarrow> js_trim x) in if t \<noteq> '''' then t else ev_intro env @ name)"

section \<open>One job\<close>

text \<open>The messages from the stored index on; one with a blocked word is passed over.\<close>

fun replay_messages :: "replay_env \<Rightarrow> string \<Rightarrow> replay_job \<Rightarrow> string \<Rightarrow> nat \<Rightarrow> thread_message list \<Rightarrow> unit replay_prog" where
  "replay_messages env lease job c index [] = done_with ()"
| "replay_messages env lease job c index (m # ms) =
     (if ev_blocked env (tm_content m)
      then and_then (persistProgress env lease (rj_id job) 2 (Some (index + 1)))
             (\<lambda>_. replay_messages env lease job c (index + 1) ms)
      else and_then (replay_insert env c (text_input (tm_senderId m) (replay_key (rj_requestId job) (tm_id m)) (tm_content m)))
             (\<lambda>_. and_then (persistProgress env lease (rj_id job) 2 (Some (index + 1)))
                     (\<lambda>_. replay_messages env lease job c (index + 1) ms)))"

definition advance_stage :: "replay_env \<Rightarrow> string \<Rightarrow> replay_job \<Rightarrow> nat \<Rightarrow> nat \<Rightarrow> nat replay_prog" where
  "advance_stage env lease job cur stage =
     (if stage = cur
      then and_then (persistProgress env lease (rj_id job) (cur + 1) None) (\<lambda>_. done_with (cur + 1))
      else done_with stage)"

definition replay_greeting :: "replay_env \<Rightarrow> replay_job \<Rightarrow> string \<Rightarrow> string option \<Rightarrow> string \<Rightarrow> unit replay_prog" where
  "replay_greeting env job c message name =
     (let text = greeting_text env message name
      in if ev_blocked env text then done_with ()
         else replay_insert env c (text_input (rj_requesterUserID job) (replay_key (rj_requestId job) ''greeting'') text))"

definition replay_stage2 ::
  "replay_env \<Rightarrow> string \<Rightarrow> replay_job \<Rightarrow> string option \<Rightarrow> thread_message list \<Rightarrow> string \<Rightarrow> nat \<Rightarrow> nat replay_prog" where
  "replay_stage2 env lease job message thread name stage =
     (if stage = 2
      then and_then (replayConversationId env job) (\<lambda>c.
           and_then (if thread \<noteq> []
                     then replay_messages env lease job c (rj_messageIndex job) (drop (rj_messageIndex job) thread)
                     else replay_greeting env job c message name) (\<lambda>_.
           and_then (persistProgress env lease (rj_id job) 3 None) (\<lambda>_. done_with 3)))
      else done_with stage)"

definition replay_stage3 :: "replay_env \<Rightarrow> replay_job \<Rightarrow> nat \<Rightarrow> unit replay_prog" where
  "replay_stage3 env job stage =
     (if stage = 3
      then and_then (replayConversationId env job) (\<lambda>c.
           replay_insert env c (text_input (rj_accepterUserID job) (replay_key (rj_requestId job) ''accepted'') (ev_reply env)))
      else done_with ())"

definition replay_body :: "replay_env \<Rightarrow> string \<Rightarrow> replay_job \<Rightarrow> unit replay_prog" where
  "replay_body env lease job =
     and_then (advance_stage env lease job 0 (rj_stage job)) (\<lambda>st1.
     and_then (advance_stage env lease job 1 st1) (\<lambda>st2.
     and_then (ask env (\<lambda>s. case find_request (rj_requestId job) (rp_friend s) of None \<Rightarrow> None | Some r \<Rightarrow> fr_message r)) (\<lambda>message.
     and_then (ask env (replay_thread (rj_requestId job))) (\<lambda>thread.
     and_then (ask env (\<lambda>_. ev_profile env (rj_requesterUserID job))) (\<lambda>user.
     and_then (replay_stage2 env lease job message thread (displayName user (rj_requesterUserID job)) st2) (\<lambda>st3.
     and_then (replay_stage3 env job st3) (\<lambda>_.
     finish_job env lease (rj_id job))))))))"

definition processJob :: "replay_env \<Rightarrow> replay_job \<Rightarrow> unit replay_prog" where
  "processJob env job s =
     (let lease = ev_lease env (fst s)
      in and_then (claim_job env lease job) (\<lambda>n.
           if n = 0 then done_with () else on_error (replay_body env lease job) (\<lambda>_. fail_job env lease job)) s)"

section \<open>The two entries\<close>

definition processRequest :: "replay_env \<Rightarrow> string \<Rightarrow> unit replay_prog" where
  "processRequest env requestId =
     and_then (ask env (\<lambda>s. find_where (\<lambda>j. rj_requestId j = requestId \<and> rj_status j = RS_PENDING) (jobs s)))
       (\<lambda>job. case job of None \<Rightarrow> done_with () | Some j \<Rightarrow> processJob env j)"

definition replay_due :: "int \<Rightarrow> replay_job \<Rightarrow> bool" where
  "replay_due now j \<longleftrightarrow>
     rj_status j = RS_PENDING \<and> rj_nextAttemptAt j \<le> now
     \<or> rj_status j = RS_FAILED \<and> rj_nextAttemptAt j \<le> now
     \<or> rj_status j = RS_PROCESSING \<and> (case rj_lockedAt j of None \<Rightarrow> False | Some t \<Rightarrow> t < now - REPLAY_STALE_LOCK_MS)"

definition processPending :: "replay_env \<Rightarrow> int \<Rightarrow> unit replay_prog" where
  "processPending env now =
     and_then (ask env (\<lambda>s. take REPLAY_BATCH_SIZE (sort_key rj_createdAt (filter (replay_due now) (jobs s)))))
       (\<lambda>batch. for_each (processJob env) batch)"

end
