(* ===== verification/FriendReplayProofs.thy ===== *)
theory FriendReplayProofs
  imports FriendReplay
begin

text \<open>
  What the replay of one accepted request guarantees under any interleaving of runs and losses: the invariant of
  its job and its messages, and that every statement of any job keeps it.
\<close>

section \<open>One request\<close>

text \<open>The request that is watched: its ids, its thread as it was accepted, the two users, the word list.\<close>

record replay_goal =
  rg_request :: string
  rg_job :: string
  rg_thread :: "thread_message list"
  rg_from :: string
  rg_to :: string
  rg_blocked :: "string \<Rightarrow> bool"

definition goal_ok :: "replay_goal \<Rightarrow> bool" where
  "goal_ok q \<longleftrightarrow> rg_from q \<noteq> rg_to q \<and> rg_from q \<noteq> '''' \<and> rg_to q \<noteq> '''' \<and> CHR '':'' \<notin> set (rg_request q)
     \<and> length (rg_request q) \<le> 50 \<and> distinct (map tm_id (rg_thread q))
     \<and> (\<forall>m \<in> set (rg_thread q). length (tm_id m) \<le> 50 \<and> tm_id m \<noteq> ''greeting'' \<and> tm_id m \<noteq> ''accepted'' \<and> tm_senderId m \<noteq> '''')"

definition direct_id :: "replay_goal \<Rightarrow> replay_sys \<Rightarrow> string option" where
  "direct_id q s = map_option cv_id (find_direct (directKey (rg_from q) (rg_to q)) (rp_chat s))"

definition carries :: "replay_goal \<Rightarrow> string \<Rightarrow> string \<Rightarrow> string \<Rightarrow> message \<Rightarrow> bool" where
  "carries q c u suffix x \<longleftrightarrow> ms_conv x = c \<and> ms_sender x = Some u \<and> ms_clientId x = Some (replay_key (rg_request q) suffix)"

definition stored :: "replay_goal \<Rightarrow> replay_sys \<Rightarrow> string \<Rightarrow> string \<Rightarrow> bool" where
  "stored q s u suffix \<longleftrightarrow>
     (\<exists>x \<in> set (msgs (rp_chat s)). direct_id q s = Some (ms_conv x) \<and> carries q (ms_conv x) u suffix x)"

definition settled :: "replay_goal \<Rightarrow> replay_sys \<Rightarrow> thread_message \<Rightarrow> bool" where
  "settled q s m \<longleftrightarrow> rg_blocked q (tm_content m) \<or> stored q s (tm_senderId m) (tm_id m)"

definition progress :: "replay_goal \<Rightarrow> replay_sys \<Rightarrow> nat \<Rightarrow> nat \<Rightarrow> bool" where
  "progress q s stage n \<longleftrightarrow> (\<forall>m \<in> set (take n (rg_thread q)). settled q s m)
     \<and> (3 \<le> stage \<longrightarrow> (\<forall>m \<in> set (rg_thread q). settled q s m))
     \<and> (4 \<le> stage \<longrightarrow> stored q s (rg_to q) ''accepted'')"

text \<open>Stored messages of the thread: everything before one is settled, and stored lower.\<close>

definition ordered :: "replay_goal \<Rightarrow> replay_sys \<Rightarrow> bool" where
  "ordered q s \<longleftrightarrow> (\<forall>c r y. direct_id q s = Some c \<and> r < length (rg_thread q) \<and> y \<in> set (msgs (rp_chat s))
       \<and> carries q c (tm_senderId (rg_thread q ! r)) (tm_id (rg_thread q ! r)) y \<longrightarrow>
     (\<forall>m \<in> set (take r (rg_thread q)). settled q s m
        \<and> (\<forall>x \<in> set (msgs (rp_chat s)). carries q c (tm_senderId m) (tm_id m) x \<longrightarrow> ms_height x < ms_height y)))"

definition job_ok :: "replay_goal \<Rightarrow> replay_sys \<Rightarrow> replay_job \<Rightarrow> bool" where
  "job_ok q s j \<longleftrightarrow> (rj_requestId j = rg_request q \<longleftrightarrow> rj_id j = rg_job q) \<and> CHR '':'' \<notin> set (rj_requestId j)
     \<and> (rj_requestId j = rg_request q \<longrightarrow> rj_requesterUserID j = rg_from q \<and> rj_accepterUserID j = rg_to q
          \<and> progress q s (rj_stage j) (rj_messageIndex j) \<and> (rj_status j = RS_COMPLETED \<longrightarrow> 4 \<le> rj_stage j))"

abbreviation thread_now :: "replay_goal \<Rightarrow> replay_sys \<Rightarrow> thread_message list" where
  "thread_now q s \<equiv> replay_thread (rg_request q) s"

definition replay_inv :: "replay_goal \<Rightarrow> replay_sys \<Rightarrow> bool" where
  "replay_inv q s \<longleftrightarrow> chat_inv (rp_chat s) \<and> (thread_now q s = rg_thread q \<or> thread_now q s = [])
     \<and> (\<forall>j \<in> set (jobs s). job_ok q s j \<and> (rj_requestId j = rg_request q \<longrightarrow> thread_now q s = rg_thread q))
     \<and> ordered q s"

definition replay_evolves :: "replay_goal \<Rightarrow> replay_sys \<Rightarrow> replay_sys \<Rightarrow> bool" where
  "replay_evolves q s s' \<longleftrightarrow> replay_inv q s' \<and> set (msgs (rp_chat s)) \<subseteq> set (msgs (rp_chat s'))
     \<and> (\<forall>c. direct_id q s = Some c \<longrightarrow> direct_id q s' = Some c)
     \<and> (thread_now q s' = rg_thread q \<longrightarrow> thread_now q s = rg_thread q)"

interpretation replay_run: interleaved "replay_evolves q" "replay_inv q" for q
  by unfold_locales (auto simp: replay_evolves_def)

text \<open>What has been stored stays stored.\<close>

lemma stored_stable: "replay_evolves q s s' \<Longrightarrow> stored q s u x \<Longrightarrow> stored q s' u x"
  by (auto simp: replay_evolves_def stored_def)

lemma settled_stable: "replay_evolves q s s' \<Longrightarrow> settled q s m \<Longrightarrow> settled q s' m"
  by (auto simp: settled_def dest: stored_stable)

lemma progress_stable: "replay_evolves q s s' \<Longrightarrow> progress q s st n \<Longrightarrow> progress q s' st n"
  by (auto simp: progress_def dest: stored_stable settled_stable)

lemma direct_id_stable: "replay_evolves q s s' \<Longrightarrow> direct_id q s = Some c \<Longrightarrow> direct_id q s' = Some c"
  by (simp add: replay_evolves_def)

lemma replay_inv_job: "replay_inv q s \<Longrightarrow> j \<in> set (jobs s) \<Longrightarrow> job_ok q s j"
  and replay_inv_alive: "replay_inv q s \<Longrightarrow> j \<in> set (jobs s) \<Longrightarrow> rj_requestId j = rg_request q \<Longrightarrow> thread_now q s = rg_thread q"
  and replay_inv_chat: "replay_inv q s \<Longrightarrow> chat_inv (rp_chat s)"
  by (simp_all add: replay_inv_def)

section \<open>Statements on the jobs\<close>

lemma job_views_update [simp]:
  "rp_chat (snd (update_jobs p f s)) = rp_chat s"
  "jobs (snd (update_jobs p f s)) = update_where p f (jobs s)"
  "replay_thread i (snd (update_jobs p f s)) = replay_thread i s"
  "direct_id q (snd (update_jobs p f s)) = direct_id q s"
  "stored q (snd (update_jobs p f s)) u x = stored q s u x"
  "settled q (snd (update_jobs p f s)) m = settled q s m"
  "progress q (snd (update_jobs p f s)) st n = progress q s st n"
  "ordered q (snd (update_jobs p f s)) = ordered q s"
  by (simp_all add: update_jobs_def jobs_def replay_thread_def direct_id_def stored_def settled_def progress_def ordered_def)

definition job_static :: "replay_job \<Rightarrow> string \<times> string \<times> string \<times> string" where
  "job_static j = (rj_id j, rj_requestId j, rj_requesterUserID j, rj_accepterUserID j)"

text \<open>A write to a job of the watched request must record no more than has been done.\<close>

lemma update_jobs_evolves:
  assumes inv: "replay_inv q s" and static: "\<And>j. job_static (f j) = job_static j"
    and ok: "\<And>j. j \<in> set (jobs s) \<Longrightarrow> p j \<Longrightarrow> rj_requestId j = rg_request q \<Longrightarrow> thread_now q s = rg_thread q \<Longrightarrow> job_ok q s j \<Longrightarrow>
      progress q s (rj_stage (f j)) (rj_messageIndex (f j)) \<and> (rj_status (f j) = RS_COMPLETED \<longrightarrow> 4 \<le> rj_stage (f j))"
  shows "replay_evolves q s (snd (update_jobs p f s))"
proof -
  have "job_ok q s j \<and> (rj_requestId j = rg_request q \<longrightarrow> thread_now q s = rg_thread q)"
    if mem: "j \<in> set (update_where p f (jobs s))" for j
  proof -
    obtain j0 where j0: "j0 \<in> set (jobs s)" "j = (if p j0 then f j0 else j0)" 
      using in_update_whereE [OF mem] by blast
    have "job_static j = job_static j0" using j0(2) static by simp
    with j0 replay_inv_job [OF inv j0(1)] replay_inv_alive [OF inv j0(1)] ok [of j0] show ?thesis
      by (auto simp: job_ok_def job_static_def split: if_splits)
  qed
  moreover have "job_ok q (snd (update_jobs p f s)) j = job_ok q s j" for j by (simp add: job_ok_def)
  ultimately show ?thesis using inv by (auto simp: replay_evolves_def replay_inv_def)
qed


section \<open>Statements on the chat\<close>

lemma colon_split: "CHR '':'' \<notin> set i \<Longrightarrow> takeWhile (\<lambda>c. c \<noteq> CHR '':'') (i @ CHR '':'' # x) = i"
  by (induction i) auto

lemma replay_key_inj:
  assumes "CHR '':'' \<notin> set i" "CHR '':'' \<notin> set j" "replay_key i x = replay_key j y"
  shows "i = j \<and> x = y"
proof -
  have eq: "i @ CHR '':'' # x = j @ CHR '':'' # y" using assms(3) by (simp add: replay_key_def)
  have "i = j" using arg_cong [OF eq, of "takeWhile (\<lambda>c. c \<noteq> CHR '':'')"] colon_split assms(1,2) by simp
  with eq show ?thesis by simp
qed

lemma replay_views_chat [simp]:
  "rp_friend (s\<lparr>rp_chat := db\<rparr>) = rp_friend s" "jobs (s\<lparr>rp_chat := db\<rparr>) = jobs s"
  "replay_thread i (s\<lparr>rp_chat := db\<rparr>) = replay_thread i s"
  by (simp_all add: jobs_def replay_thread_def)

text \<open>A change of the chat that keeps what is stored and the order.\<close>

lemma chat_evolves:
  assumes inv: "replay_inv q s" and chat: "chat_inv db" and msgs: "set (msgs (rp_chat s)) \<subseteq> set (msgs db)"
    and conv: "\<And>c. direct_id q s = Some c \<Longrightarrow> direct_id q (s\<lparr>rp_chat := db\<rparr>) = Some c"
    and ord: "ordered q (s\<lparr>rp_chat := db\<rparr>)"
  shows "replay_evolves q s (s\<lparr>rp_chat := db\<rparr>)"
proof -
  have stored: "stored q s u x \<Longrightarrow> stored q (s\<lparr>rp_chat := db\<rparr>) u x" for u x
    using msgs conv by (auto simp: stored_def)
  have progress: "progress q s st n \<Longrightarrow> progress q (s\<lparr>rp_chat := db\<rparr>) st n" for st n
    by (auto simp: progress_def settled_def dest: stored)
  have "job_ok q s j \<Longrightarrow> job_ok q (s\<lparr>rp_chat := db\<rparr>) j" for j
    by (auto simp: job_ok_def dest: progress)
  then show ?thesis
    using inv chat msgs conv ord by (auto simp: replay_evolves_def replay_inv_def)
qed

text \<open>A message that no part of the watched thread stands under.\<close>

definition unrelated :: "replay_goal \<Rightarrow> message \<Rightarrow> bool" where
  "unrelated q x \<longleftrightarrow> (\<forall>m \<in> set (rg_thread q). \<not> carries q (ms_conv x) (tm_senderId m) (tm_id m) x)"

lemma ordered_foreign:
  assumes ord: "ordered q s" and msgs: "msgs db = msgs (rp_chat s) @ [x]" "unrelated q x"
    and conv: "direct_id q (s\<lparr>rp_chat := db\<rparr>) = direct_id q s"
  shows "ordered q (s\<lparr>rp_chat := db\<rparr>)"
proof -
  have stored: "stored q s u k \<Longrightarrow> stored q (s\<lparr>rp_chat := db\<rparr>) u k" for u k
    using msgs(1) conv by (auto simp: stored_def)
  have not_x: "\<not> carries q c (tm_senderId m) (tm_id m) x" if "m \<in> set (rg_thread q)" for m c
    using msgs(2) that by (auto simp: unrelated_def carries_def)
  show ?thesis
    unfolding ordered_def
  proof (intro allI impI, elim conjE)
    fix c r y
    assume 1: "direct_id q (s\<lparr>rp_chat := db\<rparr>) = Some c" "r < length (rg_thread q)" "y \<in> set (msgs (rp_chat (s\<lparr>rp_chat := db\<rparr>)))"
      "carries q c (tm_senderId (rg_thread q ! r)) (tm_id (rg_thread q ! r)) y"
    then have "y \<in> set (msgs (rp_chat s))" using msgs(1) not_x [of "rg_thread q ! r" c] by auto
    with ord 1 conv have old: "\<forall>m \<in> set (take r (rg_thread q)). settled q s m
        \<and> (\<forall>x \<in> set (msgs (rp_chat s)). carries q c (tm_senderId m) (tm_id m) x \<longrightarrow> ms_height x < ms_height y)"
      unfolding ordered_def by simp
    show "\<forall>m \<in> set (take r (rg_thread q)). settled q (s\<lparr>rp_chat := db\<rparr>) m
        \<and> (\<forall>x \<in> set (msgs (rp_chat (s\<lparr>rp_chat := db\<rparr>))). carries q c (tm_senderId m) (tm_id m) x \<longrightarrow> ms_height x < ms_height y)"
      using old not_x msgs(1) stored by (auto simp: settled_def dest: in_set_takeD)
  qed
qed

text \<open>The next message of the thread, once everything before it is settled.\<close>

lemma ordered_next:
  assumes ord: "ordered q s" and goal: "goal_ok q" and p: "p < length (rg_thread q)"
    and msgs: "msgs db = msgs (rp_chat s) @ [x]"
    and x: "direct_id q s = Some c" "carries q c (tm_senderId (rg_thread q ! p)) (tm_id (rg_thread q ! p)) x"
    and conv: "direct_id q (s\<lparr>rp_chat := db\<rparr>) = direct_id q s"
    and settled: "\<forall>m \<in> set (take p (rg_thread q)). settled q s m"
    and new: "\<not> settled q s (rg_thread q ! p)" "\<And>y. y \<in> set (msgs (rp_chat s)) \<Longrightarrow> ms_conv y = c \<Longrightarrow> ms_height y < ms_height x"
  shows "ordered q (s\<lparr>rp_chat := db\<rparr>)"
proof -
  let ?T = "rg_thread q"
  have stored: "settled q s m \<Longrightarrow> settled q (s\<lparr>rp_chat := db\<rparr>) m" for m
    using msgs conv by (auto simp: stored_def settled_def)
  have only: "r = p" if "carries q c' (tm_senderId (?T ! r)) (tm_id (?T ! r)) x" "r < length ?T" for c' r
  proof -
    have "tm_id (?T ! r) = tm_id (?T ! p)" using that x(2) by (auto simp: carries_def replay_key_def)
    with goal p that(2) show ?thesis by (auto simp: goal_ok_def distinct_conv_nth)
  qed
  show ?thesis
    unfolding ordered_def
  proof (intro allI impI, elim conjE)
    fix c' r y
    assume 1: "direct_id q (s\<lparr>rp_chat := db\<rparr>) = Some c'" "r < length ?T" "y \<in> set (msgs (rp_chat (s\<lparr>rp_chat := db\<rparr>)))"
      "carries q c' (tm_senderId (?T ! r)) (tm_id (?T ! r)) y"
    have c: "c' = c" using 1(1) conv x(1) by simp
    have before: "\<not> carries q c (tm_senderId m) (tm_id m) x" if mem: "m \<in> set (take r ?T)" and le: "r \<le> p" for m
    proof
      assume "carries q c (tm_senderId m) (tm_id m) x"
      moreover obtain n where "n < r" "m = ?T ! n" using mem 1(2) by (auto simp: in_set_conv_nth)
      ultimately have "n = p" using only [of c n] 1(2) by simp
      with \<open>n < r\<close> le show False by simp
    qed
    show "\<forall>m \<in> set (take r ?T). settled q (s\<lparr>rp_chat := db\<rparr>) m
        \<and> (\<forall>x \<in> set (msgs (rp_chat (s\<lparr>rp_chat := db\<rparr>))). carries q c' (tm_senderId m) (tm_id m) x \<longrightarrow> ms_height x < ms_height y)"
    proof (cases "y \<in> set (msgs (rp_chat s))")
      case True
      then have old: "\<forall>m \<in> set (take r ?T). settled q s m
          \<and> (\<forall>x \<in> set (msgs (rp_chat s)). carries q c (tm_senderId m) (tm_id m) x \<longrightarrow> ms_height x < ms_height y)"
        using ord 1 conv c unfolding ordered_def by simp
      have "r \<le> p"
      proof (rule ccontr)
        assume "\<not> r \<le> p"
        then have "?T ! p \<in> set (take r ?T)" using p by (auto simp: in_set_conv_nth)
        with old new(1) show False by blast
      qed
      then show ?thesis using old before msgs stored c by auto
    next
      case False
      then have "y = x" using 1(3) msgs by simp
      then have "r = p" using only 1(2,4) by blast
      then show ?thesis
        using settled before [of _] stored new(2) msgs c \<open>y = x\<close> by (auto simp: carries_def)
    qed
  qed
qed


text \<open>What the server-side writer does to the messages of a conversation.\<close>

lemma storeServerMessage_msgs:
  assumes inv: "chat_inv db" and run: "storeServerMessage h now i g c inp db = Inr (d, db')"
  obtains (same) "db' = db"
  | (more) x where "msgs db' = msgs db @ [x]" "ms_conv x = c" "ms_sender x = si_sender inp"
      "ms_clientId x = None \<or> ms_clientId x = bounded_client_id h (si_clientId inp)"
      "\<And>y. y \<in> set (msgs db) \<Longrightarrow> ms_conv y = c \<Longrightarrow> ms_height y < ms_height x"
      "\<And>y. si_sender inp = Some u \<Longrightarrow> u \<noteq> '''' \<Longrightarrow> si_clientId inp = Some k \<Longrightarrow> k \<noteq> '''' \<Longrightarrow> h k \<noteq> '''' \<Longrightarrow> y \<in> set (msgs db) \<Longrightarrow>
          \<not> (ms_conv y = c \<and> ms_sender y = Some u \<and> ms_clientId y = bounded_client_id h (Some k))"
proof -
  obtain row reused where tx: "insertServerMessage_tx h now i g c inp db = Inr ((row, reused), db')"
    using run by (auto simp: storeServerMessage_Inr_iff)
  show thesis
    using tx
  proof (cases rule: insertServerMessage_tx_cases)
    case reuse
    then show thesis using same by simp
  next
    case (fresh v)
    have m: "msgs db' = msgs db @ [row]" using fresh(3) by (auto simp: write_message_def split: if_splits)
    have h: "ms_height y < ms_height row" if "y \<in> set (msgs db)" "ms_conv y = c" for y
      using next_height_free [OF inv fresh(2) that] fresh(5) by simp
    have k: "ms_clientId row = None \<or> ms_clientId row = bounded_client_id h (si_clientId inp)"
      using tx fresh(1) by (auto simp: insertServerMessage_tx_def Let_def bind_res_Inr_iff split: option.splits if_splits)
    show thesis
    proof (rule more [OF m fresh(4,7) k h])
      fix y
      assume *: "si_sender inp = Some u" "u \<noteq> ''''" "si_clientId inp = Some k" "k \<noteq> ''''" "h k \<noteq> ''''" "y \<in> set (msgs db)"
      obtain kk where kk: "bounded_client_id h (Some k) = Some kk" "kk \<noteq> ''''"
        using *(4,5) by (cases "128 < length k") (auto simp: bounded_client_id_def)
      have "find_where (\<lambda>x. ms_conv x = c \<and> ms_sender x = Some u \<and> ms_clientId x = Some kk) (msgs db) = None"
        using tx fresh(1) * kk by (auto simp: insertServerMessage_tx_def Let_def bind_res_Inr_iff split: option.splits if_splits)
      with *(6) kk show "\<not> (ms_conv y = c \<and> ms_sender y = Some u \<and> ms_clientId y = bounded_client_id h (Some k))"
        by (auto simp: find_where_None_iff)
    qed
  qed
qed

lemma find_direct_write:
  "find_direct k db = Some v \<Longrightarrow> write_message m db = Inr db' \<Longrightarrow> map_option cv_id (find_direct k db') = Some (cv_id v)"
  by (auto simp: write_message_def find_direct_def find_where_update split: if_splits)

lemma find_direct_write_none:
  "find_direct k db = None \<Longrightarrow> write_message m db = Inr db' \<Longrightarrow> find_direct k db' = None"
  by (auto simp: write_message_def find_direct_def find_where_update split: if_splits)

lemma direct_id_insert:
  assumes "storeServerMessage h now i g c inp (rp_chat s) = Inr (d, db)"
  shows "direct_id q (s\<lparr>rp_chat := db\<rparr>) = direct_id q s"
proof -
  obtain row reused where "insertServerMessage_tx h now i g c inp (rp_chat s) = Inr ((row, reused), db)"
    using assms by (auto simp: storeServerMessage_Inr_iff)
  then show ?thesis
    using find_direct_write find_direct_write_none
    by (cases "find_direct (directKey (rg_from q) (rg_to q)) (rp_chat s)")
      (auto simp: direct_id_def elim!: insertServerMessage_tx_cases)
qed


text \<open>Keys of jobs of any request; a hashed key has no colon, as a hexadecimal number has none.\<close>

definition hash_plain :: "(string \<Rightarrow> string) \<Rightarrow> bool" where
  "hash_plain h \<longleftrightarrow> (\<forall>k. h k \<noteq> '''' \<and> CHR '':'' \<notin> set (h k))"

lemma bounded_replay_key:
  assumes "hash_plain h" "bounded_client_id h (Some (replay_key i x)) = Some (replay_key j y)"
  shows "replay_key i x = replay_key j y"
proof -
  have colon: "CHR '':'' \<in> set (replay_key j y)" by (simp add: replay_key_def)
  show ?thesis
  proof (cases "128 < length (replay_key i x)")
    case True
    then have "h (replay_key i x) = replay_key j y" using assms(2) by (auto simp: bounded_client_id_def split: if_splits)
    with colon assms(1) show ?thesis by (metis hash_plain_def)
  next
    case False
    then show ?thesis using assms(2) by (simp add: bounded_client_id_def)
  qed
qed

lemma short_replay_key:
  "length i \<le> 50 \<Longrightarrow> length x \<le> 50 \<Longrightarrow> bounded_client_id h (Some (replay_key i x)) = Some (replay_key i x)"
  by (simp add: bounded_client_id_def replay_key_def)

lemma text_input_simps [simp]:
  "si_sender (text_input u k t) = Some u" "si_clientId (text_input u k t) = Some k"
  by (simp_all add: text_input_def)

lemma insert_evolves_foreign:
  assumes inv: "replay_inv q s" and h: "hash_plain h" and q: "goal_ok q" and i: "CHR '':'' \<notin> set i"
    and run: "storeServerMessage h now n (\<lambda>_. Inr ()) c (text_input u (replay_key i x) t) (rp_chat s) = Inr (d, db)"
    and other: "i \<noteq> rg_request q \<or> x = ''greeting'' \<or> x = ''accepted''"
  shows "replay_evolves q s (s\<lparr>rp_chat := db\<rparr>)"
proof -
  note conv = direct_id_insert [OF run, where q = q]
  have chat: "chat_inv db"
    using run replay_inv_chat [OF inv] by (auto simp: storeServerMessage_Inr_iff intro: insertServerMessage_tx_inv)
  from replay_inv_chat [OF inv] run show ?thesis
  proof (cases rule: storeServerMessage_msgs [where u = u and k = "''''"])
    case same
    then show ?thesis using inv by (simp add: replay_run.evol_refl)
  next
    case (more y)
    have "unrelated q y"
      unfolding unrelated_def
    proof (intro ballI notI)
      fix m assume m: "m \<in> set (rg_thread q)" "carries q (ms_conv y) (tm_senderId m) (tm_id m) y"
      then have "bounded_client_id h (Some (replay_key i x)) = Some (replay_key (rg_request q) (tm_id m))"
        using more(4) by (auto simp: carries_def)
      then have "replay_key i x = replay_key (rg_request q) (tm_id m)" by (rule bounded_replay_key [OF h])
      then have "i = rg_request q \<and> x = tm_id m" using i q by (intro replay_key_inj) (auto simp: goal_ok_def)
      then show False using other m(1) q by (auto simp: goal_ok_def)
    qed
    then have "ordered q (s\<lparr>rp_chat := db\<rparr>)"
      using inv more(1) conv by (intro ordered_foreign [where x = y]) (simp_all add: replay_inv_def)
    then show ?thesis using inv chat more(1) conv by (intro chat_evolves) auto
  qed
qed

lemma insert_stores:
  assumes run: "storeServerMessage h now n (\<lambda>_. Inr ()) c (text_input u (replay_key (rg_request q) x) t) (rp_chat s) = Inr (d, db)"
    and conv: "direct_id q s = Some c" and u: "u \<noteq> ''''" and short: "length (rg_request q) \<le> 50" "length x \<le> 50"
  shows "stored q (s\<lparr>rp_chat := db\<rparr>) u x"
proof -
  obtain row reused where tx: "insertServerMessage_tx h now n (\<lambda>_. Inr ()) c (text_input u (replay_key (rg_request q) x) t) (rp_chat s)
      = Inr ((row, reused), db)"
    using run by (auto simp: storeServerMessage_Inr_iff)
  have "replay_key (rg_request q) x \<noteq> ''''" by (simp add: replay_key_def)
  with tx u short_replay_key [OF short, of h]
  have "row \<in> set (msgs db) \<and> ms_conv row = c \<and> ms_sender row = Some u \<and> ms_clientId row = Some (replay_key (rg_request q) x)"
    by (auto simp: insertServerMessage_tx_def Let_def bind_res_Inr_iff write_message_def
        split: option.splits if_splits dest: find_where_SomeD)
  then show ?thesis
    using conv direct_id_insert [OF run, where q = q] by (auto simp: stored_def carries_def)
qed

lemma insert_evolves_next:
  assumes inv: "replay_inv q s" and h: "hash_plain h" and q: "goal_ok q" and conv: "direct_id q s = Some c"
    and p: "p < length (rg_thread q)" "m = rg_thread q ! p" "\<not> rg_blocked q (tm_content m)"
    and run: "storeServerMessage h now n (\<lambda>_. Inr ()) c (text_input (tm_senderId m) (replay_key (rg_request q) (tm_id m)) t) (rp_chat s)
      = Inr (d, db)"
    and settled: "\<forall>m \<in> set (take p (rg_thread q)). settled q s m"
  shows "replay_evolves q s (s\<lparr>rp_chat := db\<rparr>) \<and> settled q (s\<lparr>rp_chat := db\<rparr>) m"
proof -
  note conv' = direct_id_insert [OF run, where q = q]
  have mem: "m \<in> set (rg_thread q)" using p by simp
  have short: "length (rg_request q) \<le> 50" "length (tm_id m) \<le> 50" "tm_senderId m \<noteq> ''''"
    using q mem by (auto simp: goal_ok_def)
  have stored: "settled q (s\<lparr>rp_chat := db\<rparr>) m"
    using insert_stores [OF run conv short(3,1,2)] by (simp add: settled_def)
  have chat: "chat_inv db"
    using run replay_inv_chat [OF inv] by (auto simp: storeServerMessage_Inr_iff intro: insertServerMessage_tx_inv)
  have key: "replay_key (rg_request q) (tm_id m) \<noteq> ''''" by (simp add: replay_key_def)
  from replay_inv_chat [OF inv] run have "replay_evolves q s (s\<lparr>rp_chat := db\<rparr>)"
  proof (cases rule: storeServerMessage_msgs [where u = "tm_senderId m" and k = "replay_key (rg_request q) (tm_id m)"])
    case same
    then show ?thesis using inv by (simp add: replay_run.evol_refl)
  next
    case (more y)
    have new: "\<not> settled q s m"
      using more(6) [OF _ short(3) _ key] h p(3) short_replay_key [OF short(1,2)] conv
      by (auto simp: settled_def stored_def carries_def hash_plain_def)
    show ?thesis
    proof (cases "ms_clientId y = None")
      case True
      then have "unrelated q y" by (simp add: unrelated_def carries_def)
      then have "ordered q (s\<lparr>rp_chat := db\<rparr>)"
        using inv more(1) conv' by (intro ordered_foreign [where x = y]) (simp_all add: replay_inv_def)
      then show ?thesis using inv chat more(1) conv' by (intro chat_evolves) auto
    next
      case False
      then have "carries q c (tm_senderId m) (tm_id m) y"
        using more(2,3,4) short_replay_key [OF short(1,2), of h] by (auto simp: carries_def)
      then have "ordered q (s\<lparr>rp_chat := db\<rparr>)"
        using inv more(1,5) conv conv' settled new p
        by (intro ordered_next [OF _ q p(1), where x = y and c = c]) (auto simp: replay_inv_def)
      then show ?thesis using inv chat more(1) conv' by (intro chat_evolves) auto
    qed
  qed
  with stored show ?thesis by simp
qed


text \<open>Opening the conversation.\<close>

lemma direct_id_same: "find_direct (directKey (rg_from q) (rg_to q)) db = find_direct (directKey (rg_from q) (rg_to q)) (rp_chat s) \<Longrightarrow>
  direct_id q (s\<lparr>rp_chat := db\<rparr>) = direct_id q s"
  by (simp add: direct_id_def)

lemma create_direct_evolves:
  assumes inv: "replay_inv q s" and run: "create_direct n a b (rp_chat s) = Inr db"
  shows "replay_evolves q s (s\<lparr>rp_chat := db\<rparr>)
    \<and> (a = rg_from q \<and> b = rg_to q \<longrightarrow> direct_id q (s\<lparr>rp_chat := db\<rparr>) = Some n)"
proof -
  let ?k = "directKey (rg_from q) (rg_to q)"
  have fresh: "find_direct (directKey a b) (rp_chat s) = None" "find_conv n (rp_chat s) = None"
    and cs: "convs db = convs (rp_chat s) @ [\<lparr>cv_id = n, cv_type = DIRECT, cv_directKey = Some (directKey a b),
        cv_nextHeight = 0, cv_lastMessageAt = None\<rparr>]" and ms: "msgs db = msgs (rp_chat s)"
    using run by (auto simp: create_direct_def split: if_splits)
  have chat: "chat_inv db" by (rule create_direct_inv [OF replay_inv_chat [OF inv] run])
  have find: "find_direct ?k db = (case find_direct ?k (rp_chat s) of Some v \<Rightarrow> Some v
      | None \<Rightarrow> if directKey a b = ?k then Some \<lparr>cv_id = n, cv_type = DIRECT, cv_directKey = Some (directKey a b),
          cv_nextHeight = 0, cv_lastMessageAt = None\<rparr> else None)"
    by (auto simp: find_direct_def cs find_where_append split: option.split)
  have keep: "direct_id q (s\<lparr>rp_chat := db\<rparr>) = Some c" if "direct_id q s = Some c" for c
    using that by (auto simp: direct_id_def find)
  have home: "ms_conv y \<noteq> n" if "y \<in> set (msgs (rp_chat s))" for y
    using chat_inv_home [OF replay_inv_chat [OF inv] that] fresh(2) by (auto simp: find_conv_def find_where_None_iff)
  have ord: "ordered q (s\<lparr>rp_chat := db\<rparr>)"
  proof (cases "direct_id q s")
    case None
    then have "direct_id q (s\<lparr>rp_chat := db\<rparr>) = None \<or> direct_id q (s\<lparr>rp_chat := db\<rparr>) = Some n"
      by (auto simp: direct_id_def find)
    moreover have "\<forall>y \<in> set (msgs (rp_chat s)). ms_conv y \<noteq> n" using home by blast
    ultimately show ?thesis by (fastforce simp: ordered_def ms carries_def)
  next
    case (Some c)
    have "settled q (s\<lparr>rp_chat := db\<rparr>) = settled q s"
      using Some keep [OF Some] by (simp add: fun_eq_iff ms settled_def stored_def)
    moreover have "ordered q s" using inv by (simp add: replay_inv_def)
    ultimately show ?thesis using Some keep [OF Some] by (auto simp: ordered_def ms)
  qed
  have "replay_evolves q s (s\<lparr>rp_chat := db\<rparr>)" by (rule chat_evolves [OF inv chat _ keep ord]) (auto simp: ms)
  then show ?thesis using fresh(1) by (auto simp: direct_id_def find)
qed

text \<open>
  The surroundings of a run: other writers keep to the protocols, hashes are plain, and the word list is the one of the watched
  request. The code reloads its list while it runs; a history in which two workers use different lists is outside of what is proved.
\<close>

definition env_ok :: "replay_goal \<Rightarrow> replay_env \<Rightarrow> bool" where
  "env_ok q env \<longleftrightarrow> relies (replay_evolves q) (replay_inv q) (ev_others env)
     \<and> (\<forall>k s. replay_inv q s \<longrightarrow> replay_evolves q s (s\<lparr>rp_chat := ev_between env k (rp_chat s)\<rparr>))
     \<and> hash_plain (ev_hash env) \<and> ev_blocked env = rg_blocked q"

lemma ensure_evolves:
  assumes inv: "replay_inv q s" and env: "env_ok q env"
    and run: "ensureDirectConversationForSettlement (ev_between env k) n a b (rp_chat s) = (db, Inr c)"
  shows "replay_evolves q s (s\<lparr>rp_chat := db\<rparr>)
    \<and> (a = rg_from q \<and> b = rg_to q \<longrightarrow> direct_id q (s\<lparr>rp_chat := db\<rparr>) = Some c)"
proof (cases "find_direct (directKey a b) (rp_chat s)")
  case (Some v)
  with run have "db = rp_chat s" "c = cv_id v" by (simp_all add: ensureDirectConversationForSettlement_def)
  with Some inv show ?thesis by (auto simp: replay_run.evol_refl direct_id_def)
next
  case None
  define s1 where "s1 = s\<lparr>rp_chat := ev_between env k (rp_chat s)\<rparr>"
  have 1: "replay_evolves q s s1" using env inv by (simp add: env_ok_def s1_def)
  have inv1: "replay_inv q s1" by (rule replay_run.evol_inv [OF 1])
  have up: "s\<lparr>rp_chat := db\<rparr> = s1\<lparr>rp_chat := db\<rparr>" by (simp add: s1_def)
  have "replay_evolves q s1 (s1\<lparr>rp_chat := db\<rparr>) \<and> (a = rg_from q \<and> b = rg_to q \<longrightarrow> direct_id q (s1\<lparr>rp_chat := db\<rparr>) = Some c)"
  proof (cases "create_direct n a b (rp_chat s1)")
    case (Inr db2)
    with run None have "db = db2" "c = n" by (simp_all add: ensureDirectConversationForSettlement_def Let_def s1_def)
    with create_direct_evolves [OF inv1 Inr] show ?thesis by simp
  next
    case (Inl e)
    with run None obtain v where "find_direct (directKey a b) (rp_chat s1) = Some v" "db = rp_chat s1" "c = cv_id v"
      by (auto simp: ensureDirectConversationForSettlement_def Let_def s1_def split: option.splits)
    with inv1 show ?thesis by (auto simp: replay_run.evol_refl direct_id_def)
  qed
  then show ?thesis unfolding up using replay_run.evol_trans [OF 1] by blast
qed

section \<open>Programs\<close>

text \<open>Assertions of a run started in \<open>s0\<close> that others cannot break.\<close>

definition keeps :: "replay_goal \<Rightarrow> replay_sys \<Rightarrow> (replay_sys \<Rightarrow> bool) \<Rightarrow> bool" where
  "keeps q s0 P \<longleftrightarrow> (\<forall>s. P s \<longrightarrow> replay_evolves q s0 s) \<and> (\<forall>s s'. P s \<longrightarrow> replay_evolves q s s' \<longrightarrow> P s')"

abbreviation on_sys :: "(replay_sys \<Rightarrow> bool) \<Rightarrow> nat \<times> replay_sys \<Rightarrow> bool" where "on_sys P \<equiv> \<lambda>t. P (snd t)"

lemma keeps_evolves: "keeps q s0 (replay_evolves q s0)"
  unfolding keeps_def using replay_run.evol_trans by blast

lemma keeps_conj: "keeps q s0 P \<Longrightarrow> (\<And>s s'. R s \<Longrightarrow> replay_evolves q s s' \<Longrightarrow> R s') \<Longrightarrow> keeps q s0 (\<lambda>s. P s \<and> R s)"
  unfolding keeps_def by blast

lemma keepsD: "keeps q s0 P \<Longrightarrow> P s \<Longrightarrow> replay_evolves q s0 s \<and> replay_inv q s"
  unfolding keeps_def using replay_run.evol_inv by blast

lemma replay_stmt_runs:
  assumes env: "env_ok q env" and P: "keeps q s0 P"
    and f: "\<And>k s a s'. P s \<Longrightarrow> replay_inv q s \<Longrightarrow> f k s = Inr (a, s') \<Longrightarrow> replay_evolves q s s' \<and> R a s'"
  shows "runs (on_sys P) (replay_stmt env f) (\<lambda>a. on_sys (\<lambda>s. P s \<and> R a s)) (on_sys (replay_evolves q s0))"
  unfolding replay_stmt_def
proof (rule runs_statement [where lossy = True])
  fix k s assume Ps: "P s"
  have inv: "replay_inv q s" using keepsD [OF P Ps] by blast
  have "replay_evolves q s (ev_others env k s)" using env inv by (simp add: env_ok_def relies_def)
  with P Ps show "P (ev_others env k s)" unfolding keeps_def by blast
  show "case f k s of Inl _ \<Rightarrow> replay_evolves q s0 s | Inr (a, s') \<Rightarrow> (P s' \<and> R a s') \<and> (True \<longrightarrow> replay_evolves q s0 s')"
  proof (cases "f k s")
    case (Inl e)
    with keepsD [OF P Ps] show ?thesis by simp
  next
    case (Inr r)
    obtain a s' where r: "r = (a, s')" by fastforce
    have 1: "replay_evolves q s s'" and "R a s'" using f [OF Ps inv, of k a s'] Inr r by simp_all
    moreover have "P s'" using P Ps 1 unfolding keeps_def by blast
    ultimately show ?thesis using Inr r keepsD [OF P, of s'] by simp
  qed
qed (use P in \<open>auto simp: keeps_def\<close>)

definition mine :: "replay_goal \<Rightarrow> replay_job \<Rightarrow> bool" where
  "mine q job \<longleftrightarrow> rj_requestId job = rg_request q"

text \<open>What a snapshot of a job says for good, and what a run knows about the progress that is worth recording.\<close>

definition known :: "replay_goal \<Rightarrow> replay_job \<Rightarrow> bool" where
  "known q job \<longleftrightarrow> (mine q job \<longleftrightarrow> rj_id job = rg_job q) \<and> CHR '':'' \<notin> set (rj_requestId job)
     \<and> (mine q job \<longrightarrow> rj_requesterUserID job = rg_from q \<and> rj_accepterUserID job = rg_to q)"

definition worth :: "replay_goal \<Rightarrow> replay_job \<Rightarrow> nat \<Rightarrow> nat \<Rightarrow> replay_sys \<Rightarrow> bool" where
  "worth q job stage n s \<longleftrightarrow> (mine q job \<and> thread_now q s = rg_thread q \<longrightarrow> progress q s stage n)"

lemma worth_stable: "worth q job st n s \<Longrightarrow> replay_evolves q s s' \<Longrightarrow> worth q job st n s'"
  unfolding worth_def using progress_stable by (auto simp: replay_evolves_def)

lemma persist_runs:
  assumes env: "env_ok q env" and job: "known q job" and P: "keeps q s0 P"
    and worth: "\<And>s. P s \<Longrightarrow> worth q job stage (case index of None \<Rightarrow> 0 | Some n \<Rightarrow> n) s"
  shows "runs (on_sys P) (persistProgress env lease (rj_id job) stage index) (\<lambda>_. on_sys P) (on_sys (replay_evolves q s0))"
proof -
  let ?f = "\<lambda>k j. j\<lparr>rj_stage := stage, rj_messageIndex := (case index of None \<Rightarrow> rj_messageIndex j | Some n \<Rightarrow> n),
               rj_lockedAt := Some (ev_now env k)\<rparr>"
  have "replay_evolves q s (snd (update_jobs (leased_by (rj_id job) lease) (?f k) s))" if "P s" "replay_inv q s" for k s
    using that(2)
  proof (rule update_jobs_evolves)
    fix j assume *: "leased_by (rj_id job) lease j" "rj_requestId j = rg_request q" "thread_now q s = rg_thread q" "job_ok q s j"
    then have m: "mine q job" using job by (auto simp: leased_by_def job_ok_def known_def)
    have "progress q s stage (case index of None \<Rightarrow> 0 | Some n \<Rightarrow> n)" using worth [OF that(1)] m *(3) by (simp add: worth_def)
    then show "progress q s (rj_stage (?f k j)) (rj_messageIndex (?f k j)) \<and> (rj_status (?f k j) = RS_COMPLETED \<longrightarrow> 4 \<le> rj_stage (?f k j))"
      using * by (auto simp: progress_def job_ok_def leased_by_def split: option.splits)
  qed (simp add: job_static_def)
  then show ?thesis
    unfolding persistProgress_def
    by (intro runs_weaken [OF replay_stmt_runs [OF env P, where R = "\<lambda>_ _. True"]])
      (auto split: prod.splits if_splits simp: prod_eq_iff)
qed


lemma ask_runs:
  assumes "env_ok q env" "keeps q s0 P"
  shows "runs (on_sys P) (ask env g) (\<lambda>a. on_sys (\<lambda>s. P s \<and> a = g s)) (on_sys (replay_evolves q s0))"
  unfolding ask_def using assms by (intro replay_stmt_runs) (auto simp: replay_run.evol_refl)

lemma ensure_runs:
  assumes env: "env_ok q env" and P: "keeps q s0 P" and job: "known q job"
  shows "runs (on_sys P) (replayConversationId env job) (\<lambda>c. on_sys (\<lambda>s. P s \<and> (mine q job \<longrightarrow> direct_id q s = Some c)))
    (on_sys (replay_evolves q s0))"
  unfolding replayConversationId_def
proof (rule replay_stmt_runs [OF env P])
  fix k s c s'
  assume inv: "replay_inv q s"
    and "(case ensureDirectConversationForSettlement (ev_between env k) (ev_fresh env k (rp_chat s)) (rj_requesterUserID job) (rj_accepterUserID job) (rp_chat s) of
      (db, Inl e) \<Rightarrow> Inl (ChatFailed e) | (db, Inr c) \<Rightarrow> Inr (c, s\<lparr>rp_chat := db\<rparr>)) = Inr (c, s')"
  then obtain db where "ensureDirectConversationForSettlement (ev_between env k) (ev_fresh env k (rp_chat s)) (rj_requesterUserID job) (rj_accepterUserID job) (rp_chat s)
      = (db, Inr c)" "s' = s\<lparr>rp_chat := db\<rparr>"
    by (auto split: prod.splits sum.splits)
  with ensure_evolves [OF inv env] job
  show "replay_evolves q s s' \<and> (mine q job \<longrightarrow> direct_id q s' = Some c)"
    by (auto simp: known_def)
qed

lemma insert_runs_foreign:
  assumes env: "env_ok q env" and q: "goal_ok q" and P: "keeps q s0 P" and job: "known q job"
    and other: "\<not> mine q job \<or> x = ''greeting'' \<or> x = ''accepted''"
  shows "runs (on_sys P) (replay_insert env c (text_input u (replay_key (rj_requestId job) x) t))
    (\<lambda>_. on_sys (\<lambda>s. P s \<and> (mine q job \<and> u \<noteq> '''' \<and> x = ''accepted'' \<and> direct_id q s = Some c \<longrightarrow> stored q s u x)))
    (on_sys (replay_evolves q s0))"
  unfolding replay_insert_store
proof (rule replay_stmt_runs [OF env P])
  fix k s a s'
  assume inv: "replay_inv q s"
    and "(case storeServerMessage (ev_hash env) (ev_now env k) (ev_fresh env k (rp_chat s)) (\<lambda>_. Inr ()) c
        (text_input u (replay_key (rj_requestId job) x) t) (rp_chat s) of
      Inl e \<Rightarrow> Inl (ChatFailed e) | Inr (_, db) \<Rightarrow> Inr ((), s\<lparr>rp_chat := db\<rparr>)) = Inr (a, s')"
  then obtain d db where run: "storeServerMessage (ev_hash env) (ev_now env k) (ev_fresh env k (rp_chat s)) (\<lambda>_. Inr ()) c
        (text_input u (replay_key (rj_requestId job) x) t) (rp_chat s) = Inr (d, db)" and s': "s' = s\<lparr>rp_chat := db\<rparr>"
    by (auto split: prod.splits sum.splits)
  have h: "hash_plain (ev_hash env)" using env by (simp add: env_ok_def)
  have "replay_evolves q s s'"
    unfolding s' using job other by (intro insert_evolves_foreign [OF inv h q _ run]) (auto simp: known_def mine_def)
  moreover have "stored q s' u x" if "mine q job" "u \<noteq> ''''" "x = ''accepted''" "direct_id q s' = Some c"
    unfolding s'
  proof (rule insert_stores)
    show "direct_id q s = Some c" using that(4) direct_id_insert [OF run, where q = q] s' by simp
    show "storeServerMessage (ev_hash env) (ev_now env k) (ev_fresh env k (rp_chat s)) (\<lambda>_. Inr ()) c
        (text_input u (replay_key (rg_request q) x) t) (rp_chat s) = Inr (d, db)"
      using run that(1) by (simp add: mine_def)
  qed (use that q in \<open>auto simp: goal_ok_def\<close>)
  ultimately show "replay_evolves q s s' \<and> (mine q job \<and> u \<noteq> '''' \<and> x = ''accepted'' \<and> direct_id q s' = Some c \<longrightarrow> stored q s' u x)"
    by blast
qed

text \<open>The state of the loop over the thread: what comes before the index is settled.\<close>

definition settled_to :: "replay_goal \<Rightarrow> string \<Rightarrow> nat \<Rightarrow> replay_sys \<Rightarrow> bool" where
  "settled_to q c n s \<longleftrightarrow> direct_id q s = Some c \<and> (\<forall>m \<in> set (take n (rg_thread q)). settled q s m)"

lemma settled_to_stable: "settled_to q c n s \<Longrightarrow> replay_evolves q s s' \<Longrightarrow> settled_to q c n s'"
  unfolding settled_to_def using direct_id_stable settled_stable by blast

lemma settled_to_Suc:
  "n < length (rg_thread q) \<Longrightarrow> settled_to q c (Suc n) s \<longleftrightarrow> settled_to q c n s \<and> settled q s (rg_thread q ! n)"
  by (auto simp: settled_to_def take_Suc_conv_app_nth)

lemma insert_runs_next:
  assumes env: "env_ok q env" and q: "goal_ok q" and job: "known q job" "mine q job"
    and m: "n < length (rg_thread q)" "m = rg_thread q ! n" "\<not> rg_blocked q (tm_content m)"
    and P: "keeps q s0 P" "\<And>s. P s \<Longrightarrow> settled_to q c n s"
  shows "runs (on_sys P) (replay_insert env c (text_input (tm_senderId m) (replay_key (rj_requestId job) (tm_id m)) (tm_content m)))
    (\<lambda>_. on_sys (\<lambda>s. P s \<and> settled_to q c (Suc n) s)) (on_sys (replay_evolves q s0))"
  unfolding replay_insert_store
proof (rule replay_stmt_runs [OF env P(1)])
  fix k s a s'
  assume Ps: "P s" and inv: "replay_inv q s"
    and "(case storeServerMessage (ev_hash env) (ev_now env k) (ev_fresh env k (rp_chat s)) (\<lambda>_. Inr ()) c
        (text_input (tm_senderId m) (replay_key (rj_requestId job) (tm_id m)) (tm_content m)) (rp_chat s) of
      Inl e \<Rightarrow> Inl (ChatFailed e) | Inr (_, db) \<Rightarrow> Inr ((), s\<lparr>rp_chat := db\<rparr>)) = Inr (a, s')"
  then obtain d db where run: "storeServerMessage (ev_hash env) (ev_now env k) (ev_fresh env k (rp_chat s)) (\<lambda>_. Inr ()) c
        (text_input (tm_senderId m) (replay_key (rg_request q) (tm_id m)) (tm_content m)) (rp_chat s) = Inr (d, db)"
      and s': "s' = s\<lparr>rp_chat := db\<rparr>"
    using job(2) by (auto simp: mine_def split: prod.splits sum.splits)
  have h: "hash_plain (ev_hash env)" using env by (simp add: env_ok_def)
  have st: "direct_id q s = Some c" "\<forall>m \<in> set (take n (rg_thread q)). settled q s m"
    using P(2) [OF Ps] by (simp_all add: settled_to_def)
  have 1: "replay_evolves q s s' \<and> settled q s' m"
    unfolding s' by (rule insert_evolves_next [OF inv h q st(1) m run st(2)])
  then have "settled_to q c (Suc n) s'"
    using settled_to_stable [OF P(2) [OF Ps]] m(1,2) by (simp add: settled_to_Suc)
  with 1 show "replay_evolves q s s' \<and> settled_to q c (Suc n) s'" by simp
qed

lemma keeps_settled: "keeps q s0 (\<lambda>s. replay_evolves q s0 s \<and> settled_to q c n s)"
  by (rule keeps_conj [OF keeps_evolves settled_to_stable])

lemma settled_to_worth: "settled_to q c n s \<Longrightarrow> worth q job 2 n s"
  by (simp add: settled_to_def worth_def progress_def)

lemma replay_messages_mine:
  assumes env: "env_ok q env" and q: "goal_ok q" and job: "known q job" "mine q job"
  shows "runs (on_sys (\<lambda>s. replay_evolves q s0 s \<and> settled_to q c n s)) (replay_messages env lease job c n (drop n (rg_thread q)))
    (\<lambda>_. on_sys (\<lambda>s. replay_evolves q s0 s \<and> settled_to q c (length (rg_thread q)) s)) (on_sys (replay_evolves q s0))"
proof (induction "length (rg_thread q) - n" arbitrary: n)
  case 0
  then show ?case by (auto intro!: runs_done simp: settled_to_def)
next
  case (Suc left)
  then have n: "n < length (rg_thread q)" by simp
  define m where "m = rg_thread q ! n"
  have d: "drop n (rg_thread q) = m # drop (Suc n) (rg_thread q)" using n by (simp add: m_def Cons_nth_drop_Suc)
  have rest: "runs (on_sys (\<lambda>s. replay_evolves q s0 s \<and> settled_to q c (Suc n) s))
      (replay_messages env lease job c (Suc n) (drop (Suc n) (rg_thread q)))
      (\<lambda>_. on_sys (\<lambda>s. replay_evolves q s0 s \<and> settled_to q c (length (rg_thread q)) s)) (on_sys (replay_evolves q s0))"
    using Suc by simp
  have store: "runs (on_sys (\<lambda>s. replay_evolves q s0 s \<and> settled_to q c (Suc n) s)) (persistProgress env lease (rj_id job) 2 (Some (n + 1)))
      (\<lambda>_. on_sys (\<lambda>s. replay_evolves q s0 s \<and> settled_to q c (Suc n) s)) (on_sys (replay_evolves q s0))"
    by (rule persist_runs [OF env job(1) keeps_settled]) (auto dest: settled_to_worth)
  have blocked: "ev_blocked env = rg_blocked q" using env by (simp add: env_ok_def)
  show ?case
  proof (cases "rg_blocked q (tm_content m)")
    case True
    then have "settled_to q c n s \<Longrightarrow> settled_to q c (Suc n) s" for s
      using n by (simp add: settled_to_Suc settled_def m_def [symmetric])
    then have "runs (on_sys (\<lambda>s. replay_evolves q s0 s \<and> settled_to q c n s)) (persistProgress env lease (rj_id job) 2 (Some (n + 1)))
      (\<lambda>_. on_sys (\<lambda>s. replay_evolves q s0 s \<and> settled_to q c (Suc n) s)) (on_sys (replay_evolves q s0))"
      by (intro runs_weaken [OF store]) auto
    from runs_then [OF this rest] True show ?thesis by (simp add: d blocked)
  next
    case False
    have "runs (on_sys (\<lambda>s. replay_evolves q s0 s \<and> settled_to q c n s))
        (replay_insert env c (text_input (tm_senderId m) (replay_key (rj_requestId job) (tm_id m)) (tm_content m)))
        (\<lambda>_. on_sys (\<lambda>s. replay_evolves q s0 s \<and> settled_to q c (Suc n) s)) (on_sys (replay_evolves q s0))"
      by (rule runs_weaken [OF insert_runs_next [OF env q job n m_def False keeps_settled]]) auto
    from runs_then [OF this runs_then [OF store rest]] False show ?thesis by (simp add: d blocked)
  qed
qed

lemma replay_messages_other:
  assumes env: "env_ok q env" and q: "goal_ok q" and job: "known q job" "\<not> mine q job"
  shows "runs (on_sys (replay_evolves q s0)) (replay_messages env lease job c n ms) (\<lambda>_. on_sys (replay_evolves q s0))
    (on_sys (replay_evolves q s0))"
proof (induction ms arbitrary: n)
  case Nil
  show ?case by (auto intro: runs_done)
next
  case (Cons m ms)
  have store: "runs (on_sys (replay_evolves q s0)) (persistProgress env lease (rj_id job) 2 (Some (n + 1)))
      (\<lambda>_. on_sys (replay_evolves q s0)) (on_sys (replay_evolves q s0))"
    by (rule persist_runs [OF env job(1) keeps_evolves]) (simp add: worth_def job(2))
  have ins: "runs (on_sys (replay_evolves q s0))
        (replay_insert env c (text_input (tm_senderId m) (replay_key (rj_requestId job) (tm_id m)) (tm_content m)))
        (\<lambda>_. on_sys (replay_evolves q s0)) (on_sys (replay_evolves q s0))"
    by (rule runs_weaken [OF insert_runs_foreign [OF env q keeps_evolves job(1)]]) (use job(2) in auto)
  have rest: "runs (on_sys (replay_evolves q s0)) (replay_messages env lease job c (n + 1) ms) (\<lambda>_. on_sys (replay_evolves q s0))
      (on_sys (replay_evolves q s0))"
    by (rule Cons)
  show ?case using runs_then [OF store rest] runs_then [OF ins runs_then [OF store rest]] by simp
qed


text \<open>A snapshot that is up to date: what it says has been done, has been done.\<close>

definition up_to_date :: "replay_goal \<Rightarrow> replay_job \<Rightarrow> nat \<Rightarrow> replay_sys \<Rightarrow> bool" where
  "up_to_date q job stage s \<longleftrightarrow> (mine q job \<longrightarrow> progress q s stage (rj_messageIndex job))"

lemma up_to_date_stable: "up_to_date q job st s \<Longrightarrow> replay_evolves q s s' \<Longrightarrow> up_to_date q job st s'"
  by (auto simp: up_to_date_def dest: progress_stable)

lemma up_to_date_low: "up_to_date q job st s \<Longrightarrow> st' \<le> 2 \<Longrightarrow> up_to_date q job st' s"
  by (auto simp: up_to_date_def progress_def)

lemma up_to_date_worth: "up_to_date q job st s \<Longrightarrow> worth q job st 0 s"
  by (auto simp: up_to_date_def worth_def progress_def)

lemma keeps_up_to_date: "keeps q s0 (\<lambda>s. replay_evolves q s0 s \<and> up_to_date q job st s)"
  by (rule keeps_conj [OF keeps_evolves up_to_date_stable])

lemma keeps_worth: "keeps q s0 (\<lambda>s. replay_evolves q s0 s \<and> worth q job st n s)"
  by (rule keeps_conj [OF keeps_evolves worth_stable])

lemma advance_stage_runs:
  assumes env: "env_ok q env" and job: "known q job" and "cur < 2" "cur \<le> st"
  shows "runs (on_sys (\<lambda>s. replay_evolves q s0 s \<and> up_to_date q job st s)) (advance_stage env lease job cur st)
    (\<lambda>st'. on_sys (\<lambda>s. cur < st' \<and> replay_evolves q s0 s \<and> up_to_date q job st' s)) (on_sys (replay_evolves q s0))"
  unfolding advance_stage_def
proof (rule runs_if)
  assume "st = cur"
  have "runs (on_sys (\<lambda>s. replay_evolves q s0 s \<and> up_to_date q job (cur + 1) s)) (persistProgress env lease (rj_id job) (cur + 1) None)
      (\<lambda>_. on_sys (\<lambda>s. replay_evolves q s0 s \<and> up_to_date q job (cur + 1) s)) (on_sys (replay_evolves q s0))"
    by (rule persist_runs [OF env job keeps_up_to_date]) (auto dest: up_to_date_worth)
  then have "runs (on_sys (\<lambda>s. replay_evolves q s0 s \<and> up_to_date q job st s)) (persistProgress env lease (rj_id job) (cur + 1) None)
      (\<lambda>_. on_sys (\<lambda>s. replay_evolves q s0 s \<and> up_to_date q job (cur + 1) s)) (on_sys (replay_evolves q s0))"
    by (rule runs_weaken) (use assms(3) in \<open>auto intro: up_to_date_low\<close>)
  then show "runs (on_sys (\<lambda>s. replay_evolves q s0 s \<and> up_to_date q job st s))
     (and_then (persistProgress env lease (rj_id job) (cur + 1) None) (\<lambda>_. done_with (cur + 1)))
     (\<lambda>st'. on_sys (\<lambda>s. cur < st' \<and> replay_evolves q s0 s \<and> up_to_date q job st' s)) (on_sys (replay_evolves q s0))"
    by (rule runs_then) (rule runs_done, simp)
qed (rule runs_done, use assms(4) in simp)

text \<open>The thread a run has read: the watched one, or nothing because the request is gone.\<close>

definition read_ok :: "replay_goal \<Rightarrow> replay_job \<Rightarrow> thread_message list \<Rightarrow> replay_sys \<Rightarrow> bool" where
  "read_ok q job thread s \<longleftrightarrow>
     (mine q job \<longrightarrow> thread = rg_thread q \<or> thread = [] \<and> thread_now q s \<noteq> rg_thread q)"

lemma read_ok_stable: "read_ok q job t s \<Longrightarrow> replay_evolves q s s' \<Longrightarrow> read_ok q job t s'"
  by (auto simp: read_ok_def replay_evolves_def)

lemma read_thread_ok: "replay_inv q s \<Longrightarrow> read_ok q job (replay_thread (rj_requestId job) s) s"
  by (auto simp: read_ok_def replay_inv_def mine_def)

lemma stage2_texts_runs:
  assumes env: "env_ok q env" and q: "goal_ok q" and job: "known q job"
  shows "runs (on_sys (\<lambda>s. (replay_evolves q s0 s \<and> up_to_date q job 2 s \<and> read_ok q job thread s) \<and> (mine q job \<longrightarrow> direct_id q s = Some c)))
    (if thread \<noteq> [] then replay_messages env lease job c (rj_messageIndex job) (drop (rj_messageIndex job) thread)
     else replay_greeting env job c message name)
    (\<lambda>_. on_sys (\<lambda>s. replay_evolves q s0 s \<and> worth q job 3 0 s)) (on_sys (replay_evolves q s0))"
proof (rule runs_if)
  assume t: "thread \<noteq> []"
  show "runs (on_sys (\<lambda>s. (replay_evolves q s0 s \<and> up_to_date q job 2 s \<and> read_ok q job thread s) \<and> (mine q job \<longrightarrow> direct_id q s = Some c)))
    (replay_messages env lease job c (rj_messageIndex job) (drop (rj_messageIndex job) thread))
    (\<lambda>_. on_sys (\<lambda>s. replay_evolves q s0 s \<and> worth q job 3 0 s)) (on_sys (replay_evolves q s0))"
  proof (cases "mine q job \<and> thread = rg_thread q")
    case True
    then have m: "mine q job" and t: "thread = rg_thread q" by auto
    show ?thesis
      unfolding t
      by (rule runs_weaken [OF replay_messages_mine [OF env q job m]])
        (use m in \<open>auto simp: settled_to_def up_to_date_def progress_def worth_def\<close>)
  next
    case False
    show ?thesis
    proof (cases "mine q job")
      case True
      with False t have "runs (on_sys (\<lambda>s. (replay_evolves q s0 s \<and> up_to_date q job 2 s \<and> read_ok q job thread s)
          \<and> (mine q job \<longrightarrow> direct_id q s = Some c))) m Q E" for m :: "unit replay_prog" and Q E
        by (simp add: runs_def read_ok_def)
      then show ?thesis by simp
    next
      case no: False
      show ?thesis
        by (rule runs_weaken [OF replay_messages_other [OF env q job no]]) (auto simp: worth_def no)
    qed
  qed
next
  assume t: "\<not> thread \<noteq> []"
  have ins: "runs (on_sys (\<lambda>s. replay_evolves q s0 s \<and> worth q job 3 0 s))
      (replay_insert env c (text_input (rj_requesterUserID job) (replay_key (rj_requestId job) ''greeting'') x))
      (\<lambda>_. on_sys (\<lambda>s. replay_evolves q s0 s \<and> worth q job 3 0 s)) (on_sys (replay_evolves q s0))" for x
    by (rule runs_weaken [OF insert_runs_foreign [OF env q keeps_worth job]]) auto
  have "worth q job 3 0 s" if "up_to_date q job 2 s" "read_ok q job thread s" for s
    using that t by (auto simp: worth_def read_ok_def progress_def)
  then show "runs (on_sys (\<lambda>s. (replay_evolves q s0 s \<and> up_to_date q job 2 s \<and> read_ok q job thread s) \<and> (mine q job \<longrightarrow> direct_id q s = Some c)))
    (replay_greeting env job c message name)
    (\<lambda>_. on_sys (\<lambda>s. replay_evolves q s0 s \<and> worth q job 3 0 s)) (on_sys (replay_evolves q s0))"
    unfolding replay_greeting_def Let_def
    by (intro runs_if runs_weaken [OF ins] runs_done) auto
qed

lemma stage2_runs:
  assumes env: "env_ok q env" and q: "goal_ok q" and job: "known q job" and "2 \<le> st"
  shows "runs (on_sys (\<lambda>s. replay_evolves q s0 s \<and> up_to_date q job st s \<and> read_ok q job thread s))
    (replay_stage2 env lease job message thread name st)
    (\<lambda>st'. on_sys (\<lambda>s. 3 \<le> st' \<and> replay_evolves q s0 s \<and> worth q job st' 0 s)) (on_sys (replay_evolves q s0))"
  unfolding replay_stage2_def
proof (rule runs_if)
  assume st: "st = 2"
  have keeps: "keeps q s0 (\<lambda>s. replay_evolves q s0 s \<and> up_to_date q job 2 s \<and> read_ok q job thread s)"
    using keeps_conj [OF keeps_up_to_date [where job = job and st = 2] read_ok_stable] by simp
  have store: "runs (on_sys (\<lambda>s. replay_evolves q s0 s \<and> worth q job 3 0 s)) (persistProgress env lease (rj_id job) 3 None)
      (\<lambda>_. on_sys (\<lambda>s. replay_evolves q s0 s \<and> worth q job 3 0 s)) (on_sys (replay_evolves q s0))"
    by (rule persist_runs [OF env job keeps_worth]) simp
  show "runs (on_sys (\<lambda>s. replay_evolves q s0 s \<and> up_to_date q job st s \<and> read_ok q job thread s))
    (and_then (replayConversationId env job) (\<lambda>c.
       and_then (if thread \<noteq> [] then replay_messages env lease job c (rj_messageIndex job) (drop (rj_messageIndex job) thread)
                 else replay_greeting env job c message name) (\<lambda>_.
       and_then (persistProgress env lease (rj_id job) 3 None) (\<lambda>_. done_with 3))))
    (\<lambda>st'. on_sys (\<lambda>s. 3 \<le> st' \<and> replay_evolves q s0 s \<and> worth q job st' 0 s)) (on_sys (replay_evolves q s0))"
    unfolding st
    by (rule runs_then [OF ensure_runs [OF env keeps job] runs_then [OF stage2_texts_runs [OF env q job] runs_then [OF store runs_done]]]) simp
qed (use assms(4) in \<open>auto intro!: runs_done dest: up_to_date_worth\<close>)

lemma stage3_runs:
  assumes env: "env_ok q env" and q: "goal_ok q" and job: "known q job" and "3 \<le> st"
  shows "runs (on_sys (\<lambda>s. replay_evolves q s0 s \<and> worth q job st 0 s)) (replay_stage3 env job st)
    (\<lambda>_. on_sys (\<lambda>s. replay_evolves q s0 s \<and> worth q job 4 0 s)) (on_sys (replay_evolves q s0))"
  unfolding replay_stage3_def
proof (rule runs_if)
  assume st: "st = 3"
  have keeps: "keeps q s0 (\<lambda>s. (replay_evolves q s0 s \<and> worth q job 3 0 s) \<and> (mine q job \<longrightarrow> direct_id q s = Some c))" for c
    by (rule keeps_conj [OF keeps_worth]) (auto dest: direct_id_stable)
  have to: "rj_accepterUserID job = rg_to q \<and> rg_to q \<noteq> ''''" if "mine q job" using job q that by (auto simp: known_def goal_ok_def)
  have "runs (on_sys (\<lambda>s. (replay_evolves q s0 s \<and> worth q job 3 0 s) \<and> (mine q job \<longrightarrow> direct_id q s = Some c)))
      (replay_insert env c (text_input (rj_accepterUserID job) (replay_key (rj_requestId job) ''accepted'') (ev_reply env)))
      (\<lambda>_. on_sys (\<lambda>s. replay_evolves q s0 s \<and> worth q job 4 0 s)) (on_sys (replay_evolves q s0))" for c
    by (rule runs_weaken [OF insert_runs_foreign [OF env q keeps job]]) (use to in \<open>auto simp: worth_def progress_def\<close>)
  from runs_then [OF ensure_runs [OF env keeps_worth job] this]
  show "runs (on_sys (\<lambda>s. replay_evolves q s0 s \<and> worth q job st 0 s))
    (and_then (replayConversationId env job) (\<lambda>c.
       replay_insert env c (text_input (rj_accepterUserID job) (replay_key (rj_requestId job) ''accepted'') (ev_reply env))))
    (\<lambda>_. on_sys (\<lambda>s. replay_evolves q s0 s \<and> worth q job 4 0 s)) (on_sys (replay_evolves q s0))"
    unfolding st by simp
qed (use assms(4) in \<open>auto intro!: runs_done simp: worth_def progress_def\<close>)


lemma finish_runs:
  assumes env: "env_ok q env" and job: "known q job"
  shows "runs (on_sys (\<lambda>s. replay_evolves q s0 s \<and> worth q job 4 0 s)) (finish_job env lease (rj_id job))
    (\<lambda>_. on_sys (replay_evolves q s0)) (on_sys (replay_evolves q s0))"
proof -
  let ?f = "\<lambda>j. j\<lparr>rj_status := RS_COMPLETED, rj_stage := 4, rj_lockedAt := None, rj_leaseToken := None\<rparr>"
  have "replay_evolves q s (snd (update_jobs (leased_by (rj_id job) lease) ?f s))" if "worth q job 4 0 s" "replay_inv q s" for s
    using that(2)
  proof (rule update_jobs_evolves)
    fix j assume *: "leased_by (rj_id job) lease j" "rj_requestId j = rg_request q" "thread_now q s = rg_thread q" "job_ok q s j"
    then have "mine q job" using job by (auto simp: leased_by_def job_ok_def known_def)
    with that(1) * show "progress q s (rj_stage (?f j)) (rj_messageIndex (?f j)) \<and> (rj_status (?f j) = RS_COMPLETED \<longrightarrow> 4 \<le> rj_stage (?f j))"
      by (auto simp: worth_def progress_def dest: in_set_takeD)
  qed (simp add: job_static_def)
  then show ?thesis
    unfolding finish_job_def
    by (intro runs_weaken [OF replay_stmt_runs [OF env keeps_worth [where job = job and st = 4 and n = 0], where R = "\<lambda>_ _. True"]]) auto
qed

lemma fail_runs:
  assumes env: "env_ok q env"
  shows "runs (on_sys (replay_evolves q s0)) (fail_job env lease job) (\<lambda>_. on_sys (replay_evolves q s0)) (on_sys (replay_evolves q s0))"
  unfolding fail_job_def
  by (rule runs_weaken [OF replay_stmt_runs [OF env keeps_evolves, where R = "\<lambda>_ _. True"]])
    (auto simp: job_static_def job_ok_def intro!: update_jobs_evolves)

lemma claim_runs:
  assumes env: "env_ok q env" and P: "keeps q s0 P"
  shows "runs (on_sys P) (claim_job env lease job) (\<lambda>_. on_sys P) (on_sys (replay_evolves q s0))"
proof -
  have "replay_evolves q s s'" if "replay_inv q s" "update_jobs
     (\<lambda>j. rj_id j = rj_id job \<and> rj_status j = rj_status job \<and> (rj_status job = RS_PROCESSING \<longrightarrow> rj_lockedAt j = rj_lockedAt job))
     (\<lambda>j. j\<lparr>rj_status := RS_PROCESSING, rj_leaseToken := Some lease, rj_lockedAt := Some (ev_now env k)\<rparr>) s = (n, s')" for s s' n k
    using update_jobs_evolves [OF that(1), of "\<lambda>j. j\<lparr>rj_status := RS_PROCESSING, rj_leaseToken := Some lease, rj_lockedAt := Some (ev_now env k)\<rparr>"
        "\<lambda>j. rj_id j = rj_id job \<and> rj_status j = rj_status job \<and> (rj_status job = RS_PROCESSING \<longrightarrow> rj_lockedAt j = rj_lockedAt job)"]
      that(2) by (auto simp: job_static_def job_ok_def)
  then show ?thesis
    unfolding claim_job_def
    by (intro runs_weaken [OF replay_stmt_runs [OF env P, where R = "\<lambda>_ _. True"]]) auto
qed

lemma replay_body_runs:
  assumes env: "env_ok q env" and q: "goal_ok q" and job: "known q job"
  shows "runs (on_sys (\<lambda>s. replay_evolves q s0 s \<and> up_to_date q job (rj_stage job) s)) (replay_body env lease job)
    (\<lambda>_. on_sys (replay_evolves q s0)) (on_sys (replay_evolves q s0))"
proof -
  let ?E = "on_sys (replay_evolves q s0)" and ?U = "\<lambda>st s. replay_evolves q s0 s \<and> up_to_date q job st s"
  have tail: "runs (on_sys (\<lambda>s. 2 \<le> st2 \<and> ?U st2 s))
     (and_then (ask env (\<lambda>s. case find_request (rj_requestId job) (rp_friend s) of None \<Rightarrow> None | Some r \<Rightarrow> fr_message r)) (\<lambda>message.
      and_then (ask env (replay_thread (rj_requestId job))) (\<lambda>thread.
      and_then (ask env (\<lambda>_. ev_profile env (rj_requesterUserID job))) (\<lambda>user.
      and_then (replay_stage2 env lease job message thread (displayName user (rj_requesterUserID job)) st2) (\<lambda>st3.
      and_then (replay_stage3 env job st3) (\<lambda>_. finish_job env lease (rj_id job)))))))
     (\<lambda>_. ?E) ?E" for st2
  proof (rule runs_assume [of "2 \<le> st2", simplified], goal_cases)
    case 1
    have U: "keeps q s0 (?U st2)" by (rule keeps_up_to_date)
    have R: "keeps q s0 (\<lambda>s. ?U st2 s \<and> read_ok q job thread s)" for thread
      by (rule keeps_conj [OF U read_ok_stable])
    have message: "runs (on_sys (?U st2)) (ask env g) (\<lambda>_. on_sys (?U st2)) ?E" for g :: "replay_sys \<Rightarrow> string option"
      by (rule runs_weaken [OF ask_runs [OF env U]]) auto
    have thread: "runs (on_sys (?U st2)) (ask env (replay_thread (rj_requestId job)))
        (\<lambda>t. on_sys (\<lambda>s. ?U st2 s \<and> read_ok q job t s)) ?E"
      by (rule runs_weaken [OF ask_runs [OF env U]]) (use keepsD [OF U] read_thread_ok in blast)+
    have user: "runs (on_sys (\<lambda>s. ?U st2 s \<and> read_ok q job t s)) (ask env g) (\<lambda>_. on_sys (\<lambda>s. ?U st2 s \<and> read_ok q job t s)) ?E"
      for t and g :: "replay_sys \<Rightarrow> (string option \<times> string option) option"
      by (rule runs_weaken [OF ask_runs [OF env R]]) auto
    have stages: "runs (on_sys (\<lambda>s. ?U st2 s \<and> read_ok q job t s))
       (and_then (replay_stage2 env lease job message t name st2) (\<lambda>st3.
        and_then (replay_stage3 env job st3) (\<lambda>_. finish_job env lease (rj_id job)))) (\<lambda>_. ?E) ?E" for t message name
    proof (rule runs_then)
      show "runs (on_sys (\<lambda>s. ?U st2 s \<and> read_ok q job t s)) (replay_stage2 env lease job message t name st2)
         (\<lambda>st'. on_sys (\<lambda>s. 3 \<le> st' \<and> replay_evolves q s0 s \<and> worth q job st' 0 s)) ?E"
        using stage2_runs [OF env q job 1, where ?s0.0 = s0 and thread = t and message = message and name = name and lease = lease]
        by simp
      show "runs (on_sys (\<lambda>s. 3 \<le> st3 \<and> replay_evolves q s0 s \<and> worth q job st3 0 s))
         (and_then (replay_stage3 env job st3) (\<lambda>_. finish_job env lease (rj_id job))) (\<lambda>_. ?E) ?E" for st3
        by (rule runs_assume) (rule runs_then [OF stage3_runs [OF env q job] finish_runs [OF env job]])
    qed
    show ?case by (rule runs_then [OF message runs_then [OF thread runs_then [OF user stages]]])
  qed
  have first: "runs (on_sys (?U (rj_stage job))) (advance_stage env lease job 0 (rj_stage job)) (\<lambda>st. on_sys (\<lambda>s. 0 < st \<and> ?U st s)) ?E"
    by (rule advance_stage_runs [OF env job]) simp_all
  have second: "runs (on_sys (\<lambda>s. 0 < st \<and> ?U st s)) (advance_stage env lease job 1 st) (\<lambda>st. on_sys (\<lambda>s. 2 \<le> st \<and> ?U st s)) ?E" for st
    by (rule runs_assume, rule runs_weaken [OF advance_stage_runs [OF env job]]) auto
  show ?thesis
    unfolding replay_body_def by (rule runs_then [OF first runs_then [OF second tail]])
qed

lemma processJob_runs:
  assumes env: "env_ok q env" and q: "goal_ok q" and job: "known q job"
  shows "runs (on_sys (\<lambda>s. replay_evolves q s0 s \<and> up_to_date q job (rj_stage job) s)) (processJob env job)
    (\<lambda>_. on_sys (replay_evolves q s0)) (on_sys (replay_evolves q s0))"
  unfolding processJob_def Let_def
  by (rule runs_choose [where g = "\<lambda>s. ev_lease env (fst s)"], rule runs_then [OF claim_runs [OF env keeps_up_to_date]])
    (intro runs_if runs_catch [OF replay_body_runs [OF env q job] fail_runs [OF env]], auto intro: runs_done)

end
