(* ===== verification/FriendReplayClaims.thy ===== *)
theory FriendReplayClaims
  imports FriendReplayProofs FriendClaims
begin

text \<open>
  What the replay promises: after any history of runs the watched request's messages are in its
  conversation once and in order, a completed job has delivered them all, and an undisturbed run completes.
\<close>

section \<open>Histories\<close>

datatype replay_act = OnAccept string | OnTimer int

definition replay_exec :: "replay_env \<Rightarrow> replay_act \<Rightarrow> replay_sys \<Rightarrow> replay_sys" where
  "replay_exec env x s = snd (snd ((case x of OnAccept i \<Rightarrow> processRequest env i | OnTimer now \<Rightarrow> processPending env now) (0, s)))"

lemma runs_keep:
  assumes run: "\<And>s0. runs (on_sys (\<lambda>s. replay_evolves q s0 s \<and> U s)) m (\<lambda>_. on_sys (replay_evolves q s0)) (on_sys (replay_evolves q s0))"
    and P: "keeps q s0 P" "\<And>s. P s \<Longrightarrow> U s"
  shows "runs (on_sys P) m (\<lambda>_. on_sys P) (on_sys (replay_evolves q s0))"
  unfolding runs_def
proof (intro allI impI)
  fix t :: "nat \<times> replay_sys" assume Pt: "P (snd t)"
  then have "replay_inv q (snd t)" using keepsD [OF P(1)] by blast
  then have "replay_evolves q (snd t) (snd t)" by (rule replay_run.evol_refl)
  with P(2) [OF Pt] have "replay_evolves q (snd t) (snd (snd (m t)))" by (intro runs_end [OF run]) simp
  moreover from this have "P (snd (snd (m t)))" using P(1) Pt unfolding keeps_def by blast
  ultimately show "case m t of (Inl _, s') \<Rightarrow> replay_evolves q s0 (snd s') | (Inr _, s') \<Rightarrow> P (snd s')"
    using keepsD [OF P(1), of "snd (snd (m t))"] by (auto split: prod.splits sum.splits)
qed

text \<open>A row read from the table is an up to date snapshot.\<close>

lemma snapshot: "replay_inv q s \<Longrightarrow> j \<in> set (jobs s) \<Longrightarrow> known q j \<and> up_to_date q j (rj_stage j) s"
  by (auto simp: known_def up_to_date_def mine_def job_ok_def dest: replay_inv_job)

definition snapshots :: "replay_goal \<Rightarrow> replay_job list \<Rightarrow> replay_sys \<Rightarrow> bool" where
  "snapshots q batch s \<longleftrightarrow> (\<forall>j \<in> set batch. known q j \<and> up_to_date q j (rj_stage j) s)"

lemma snapshots_stable: "snapshots q batch s \<Longrightarrow> replay_evolves q s s' \<Longrightarrow> snapshots q batch s'"
  by (auto simp: snapshots_def dest: up_to_date_stable)

lemma batch_runs:
  assumes env: "env_ok q env" and q: "goal_ok q"
  shows "runs (on_sys (\<lambda>s. replay_evolves q s0 s \<and> snapshots q batch s)) (for_each (processJob env) batch)
    (\<lambda>_. on_sys (\<lambda>s. replay_evolves q s0 s \<and> snapshots q batch s)) (on_sys (replay_evolves q s0))"
proof (rule runs_for_each)
  fix j assume j: "j \<in> set batch"
  show "runs (on_sys (\<lambda>s. replay_evolves q s0 s \<and> snapshots q batch s)) (processJob env j)
    (\<lambda>_. on_sys (\<lambda>s. replay_evolves q s0 s \<and> snapshots q batch s)) (on_sys (replay_evolves q s0))"
  proof (cases "known q j")
    case True
    show ?thesis
      by (rule runs_keep [OF processJob_runs [OF env q True] keeps_conj [OF keeps_evolves snapshots_stable]])
        (use j in \<open>auto simp: snapshots_def\<close>)
  next
    case False
    with j have "\<not> snapshots q batch s" for s by (auto simp: snapshots_def)
    then show ?thesis by (simp add: runs_def)
  qed
qed

lemma replay_exec_evolves:
  assumes env: "env_ok q env" and q: "goal_ok q" and inv: "replay_inv q s"
  shows "replay_evolves q s (replay_exec env x s)"
proof -
  let ?E = "on_sys (replay_evolves q s)"
  have batch: "runs (on_sys (\<lambda>s'. replay_evolves q s s' \<and> snapshots q batch s')) (for_each (processJob env) batch) (\<lambda>_. ?E) ?E" for batch
    by (rule runs_weaken [OF batch_runs [OF env q]]) auto
  have read: "runs ?E (ask env f) (\<lambda>a. on_sys (\<lambda>s'. replay_evolves q s s' \<and> snapshots q (g a) s')) ?E"
    if "\<And>s. set (g (f s)) \<subseteq> set (jobs s)" for f :: "replay_sys \<Rightarrow> 'a" and g
    by (rule runs_weaken [OF ask_runs [OF env keeps_evolves]])
      (use that snapshot replay_run.evol_inv in \<open>auto simp: snapshots_def\<close>, blast+)
  have "runs ?E (case x of OnAccept i \<Rightarrow> processRequest env i | OnTimer now \<Rightarrow> processPending env now) (\<lambda>_. ?E) ?E"
  proof (cases x)
    case (OnAccept i)
    have one: "runs (on_sys (\<lambda>s'. replay_evolves q s s' \<and> snapshots q (case job of None \<Rightarrow> [] | Some j \<Rightarrow> [j]) s'))
       (case job of None \<Rightarrow> done_with () | Some j \<Rightarrow> processJob env j) (\<lambda>_. ?E) ?E" for job
    proof (cases job)
      case (Some j)
      with batch [of "[j]"] show ?thesis by (simp add: and_then_done)
    qed (auto intro: runs_done)
    have "runs ?E (ask env (\<lambda>s. find_where (\<lambda>j. rj_requestId j = i \<and> rj_status j = RS_PENDING) (jobs s)))
        (\<lambda>job. on_sys (\<lambda>s'. replay_evolves q s s' \<and> snapshots q (case job of None \<Rightarrow> [] | Some j \<Rightarrow> [j]) s')) ?E"
      by (rule read) (auto split: option.splits dest!: find_where_SomeD [OF sym])
    from runs_then [OF this one] show ?thesis by (simp add: OnAccept processRequest_def)
  next
    case (OnTimer now)
    have "runs ?E (ask env (\<lambda>s. take REPLAY_BATCH_SIZE (sort_key rj_createdAt (filter (replay_due now) (jobs s)))))
        (\<lambda>b. on_sys (\<lambda>s'. replay_evolves q s s' \<and> snapshots q b s')) ?E"
      by (rule read) (auto dest: in_set_takeD)
    from runs_then [OF this batch] show ?thesis by (simp add: OnTimer processPending_def)
  qed
  then show ?thesis
    unfolding replay_exec_def by (rule runs_end) (simp add: replay_run.evol_refl [OF inv])
qed


section \<open>Once, in order, complete\<close>

text \<open>
  A request that has just been accepted: its job waits at the start and nothing has been written under its keys. Ids of
  requests have no colon.
\<close>

definition replay_start :: "replay_goal \<Rightarrow> replay_sys \<Rightarrow> bool" where
  "replay_start q s \<longleftrightarrow> chat_inv (rp_chat s) \<and> replay_thread (rg_request q) s = rg_thread q
     \<and> (\<forall>j \<in> set (jobs s). (rj_requestId j = rg_request q \<longleftrightarrow> rj_id j = rg_job q) \<and> CHR '':'' \<notin> set (rj_requestId j)
          \<and> (rj_requestId j = rg_request q \<longrightarrow> rj_requesterUserID j = rg_from q \<and> rj_accepterUserID j = rg_to q
               \<and> rj_stage j = 0 \<and> rj_messageIndex j = 0 \<and> rj_status j = RS_PENDING))
     \<and> (\<forall>x \<in> set (msgs (rp_chat s)). \<forall>m \<in> set (rg_thread q). ms_clientId x \<noteq> Some (replay_key (rg_request q) (tm_id m)))"

lemma replay_start_inv: "replay_start q s \<Longrightarrow> replay_inv q s"
  by (auto simp: replay_start_def replay_inv_def job_ok_def progress_def ordered_def carries_def)

lemma carries_once:
  assumes "chat_inv db"
  shows "count_where (carries q c u x) (msgs db) \<le> 1"
proof -
  have "count_where (carries q c u x) (msgs db) =
      count_where (\<lambda>m. message_key m = (c, Some u, Some (replay_key (rg_request q) x))) (filter keyed_message (msgs db))"
    unfolding count_where_def filter_filter
    by (rule arg_cong [where f = length], rule filter_cong) (auto simp: keyed_message_def message_key_def carries_def)
  then show ?thesis using count_where_unique_le [OF chat_inv_keys [OF assms]] by simp
qed

text \<open>
  C11: An accepted request is replayed once, in order and completely. Take any history of replay runs of any jobs, by any number
  of workers with any stale snapshots, each run losing any statements or their answers (a crash loses
  all that follow) and meeting any interference that keeps to the protocol of the tables. Then no message
  of the request's thread is stored twice in a conversation; those that are stored in the conversation of the two
  stand there in the order of the thread; and once the job is marked completed,
  every message without a blocked word and the acceptance are there. All workers filter with one word list
  (\<open>env_ok\<close>): if the list is reloaded between them, one may store a message that another has passed over, and later than its successors.
\<close>

theorem replay_once_in_order:
  assumes "goal_ok q" "replay_start q s0"
    and "\<forall>(env, x) \<in> set history. env_ok q env"
    and "s = fold (\<lambda>(env, x). replay_exec env x) history s0"
  shows "(\<forall>c m. count_where (carries q c (tm_senderId m) (tm_id m)) (msgs (rp_chat s)) \<le> 1)
    \<and> (\<forall>c n k x y. direct_id q s = Some c \<and> n < k \<and> k < length (rg_thread q)
         \<and> x \<in> set (msgs (rp_chat s)) \<and> y \<in> set (msgs (rp_chat s))
         \<and> carries q c (tm_senderId (rg_thread q ! n)) (tm_id (rg_thread q ! n)) x
         \<and> carries q c (tm_senderId (rg_thread q ! k)) (tm_id (rg_thread q ! k)) y \<longrightarrow> ms_height x < ms_height y)
    \<and> (\<forall>j \<in> set (jobs s). rj_requestId j = rg_request q \<and> rj_status j = RS_COMPLETED \<longrightarrow>
         (\<forall>m \<in> set (rg_thread q). settled q s m) \<and> stored q s (rg_to q) ''accepted'')"
proof -
  have "replay_evolves q s0 s"
    using assms(3) replay_start_inv [OF assms(2)] unfolding assms(4)
  proof (induction history arbitrary: s0)
    case (Cons r rs)
    obtain env x where r: "r = (env, x)" by fastforce
    have 1: "replay_evolves q s0 (replay_exec env x s0)" using Cons.prems r replay_exec_evolves [OF _ assms(1)] by auto
    have "replay_evolves q (replay_exec env x s0) (fold (\<lambda>(env, x). replay_exec env x) rs (replay_exec env x s0))"
      using Cons.prems replay_run.evol_inv [OF 1] by (intro Cons.IH) auto
    with 1 show ?case by (auto simp: r intro: replay_run.evol_trans)
  qed (simp add: replay_run.evol_refl)
  then have inv: "replay_inv q s" by (rule replay_run.evol_inv)
  have ord: "ms_height x < ms_height y"
    if "direct_id q s = Some c" "n < k" "k < length (rg_thread q)" "x \<in> set (msgs (rp_chat s))" "y \<in> set (msgs (rp_chat s))"
      "carries q c (tm_senderId (rg_thread q ! n)) (tm_id (rg_thread q ! n)) x"
      "carries q c (tm_senderId (rg_thread q ! k)) (tm_id (rg_thread q ! k)) y" for c n k x y
  proof -
    have "rg_thread q ! n \<in> set (take k (rg_thread q))" using that(2,3) by (auto simp: in_set_conv_nth)
    moreover have "ordered q s" using inv by (simp add: replay_inv_def)
    ultimately show ?thesis using that(1,3-7) unfolding ordered_def by blast
  qed
  have "(\<forall>m \<in> set (rg_thread q). settled q s m) \<and> stored q s (rg_to q) ''accepted''"
    if "j \<in> set (jobs s)" "rj_requestId j = rg_request q" "rj_status j = RS_COMPLETED" for j
    using replay_inv_job [OF inv that(1)] that(2,3) by (auto simp: job_ok_def progress_def)
  with ord carries_once [OF replay_inv_chat [OF inv]] show ?thesis by blast
qed


section \<open>An undisturbed run\<close>

text \<open>
  No statement is lost; others keep the store's invariant, delete no conversation and leave leased rows alone; drawn ids
  are unused.
\<close>

definition calm_env :: "replay_env \<Rightarrow> bool" where
  "calm_env env \<longleftrightarrow> (\<forall>k. ev_outcome env k = Arrives)
     \<and> (\<forall>k s. chat_inv (rp_chat s) \<longrightarrow> chat_inv (rp_chat (ev_others env k s)))
     \<and> (\<forall>k s c. find_conv c (rp_chat s) \<noteq> None \<longrightarrow> find_conv c (rp_chat (ev_others env k s)) \<noteq> None)
     \<and> (\<forall>k s. \<forall>j \<in> set (jobs s). rj_leaseToken j \<noteq> None \<longrightarrow> j \<in> set (jobs (ev_others env k s)))
     \<and> (\<forall>k d. chat_inv d \<longrightarrow> chat_inv (ev_between env k d))
     \<and> (\<forall>k d. \<forall>x \<in> set (msgs d). ms_id x \<noteq> ev_fresh env k d)
     \<and> (\<forall>k d. \<forall>v \<in> set (convs (ev_between env k d)). cv_id v \<noteq> ev_fresh env k d)"

definition live :: "replay_job \<Rightarrow> string \<Rightarrow> replay_sys \<Rightarrow> bool" where
  "live job lease s \<longleftrightarrow> chat_inv (rp_chat s) \<and> (\<exists>j \<in> set (jobs s). leased_by (rj_id job) lease j)"

definition live_at :: "replay_job \<Rightarrow> string \<Rightarrow> string \<Rightarrow> replay_sys \<Rightarrow> bool" where
  "live_at job lease c s \<longleftrightarrow> live job lease s \<and> find_conv c (rp_chat s) \<noteq> None"

abbreviation no_error :: "nat \<times> replay_sys \<Rightarrow> bool" where "no_error \<equiv> on_sys (\<lambda>_. False)"

lemma live_others: "calm_env env \<Longrightarrow> live job lease s \<Longrightarrow> live job lease (ev_others env k s)"
  by (fastforce simp: calm_env_def live_def leased_by_def)

lemma live_at_others: "calm_env env \<Longrightarrow> live_at job lease c s \<Longrightarrow> live_at job lease c (ev_others env k s)"
  using live_others by (auto simp: live_at_def) (auto simp: calm_env_def)

lemma calm_stmt:
  assumes "calm_env env" "\<And>k s. P s \<Longrightarrow> P (ev_others env k s)"
    and "\<And>k s. P s \<Longrightarrow> \<exists>a s'. f k s = Inr (a, s') \<and> Q a s'"
  shows "runs (on_sys P) (replay_stmt env f) (\<lambda>a. on_sys (Q a)) no_error"
  unfolding replay_stmt_def
proof (rule runs_statement [where lossy = False])
  fix k s assume "P s"
  from assms(3) [OF this, of k] show "case f k s of Inl _ \<Rightarrow> False | Inr (a, s') \<Rightarrow> Q a s' \<and> (False \<longrightarrow> False)" by auto
qed (use assms in \<open>auto simp: calm_env_def\<close>)

lemma calm_persist:
  assumes env: "calm_env env" and P: "P = live job lease \<or> P = live_at job lease c"
  shows "runs (on_sys P) (persistProgress env lease (rj_id job) stage index) (\<lambda>_. on_sys P) no_error"
  unfolding persistProgress_def
proof (rule calm_stmt [OF env])
  fix k s assume Ps: "P s"
  show "P (ev_others env k s)" using P Ps env live_others live_at_others by auto
  let ?f = "\<lambda>j. j\<lparr>rj_stage := stage, rj_messageIndex := (case index of None \<Rightarrow> rj_messageIndex j | Some n \<Rightarrow> n),
               rj_lockedAt := Some (ev_now env k)\<rparr>"
  let ?u = "update_jobs (leased_by (rj_id job) lease) ?f s"
  have hit: "\<exists>j \<in> set (jobs s). leased_by (rj_id job) lease j" using P Ps by (auto simp: live_def live_at_def)
  then have n: "fst ?u \<noteq> 0" by (auto simp: update_jobs_def count_where_0_iff)
  have "\<exists>j \<in> set (update_where (leased_by (rj_id job) lease) ?f (jobs s)). leased_by (rj_id job) lease j"
  proof -
    obtain j where j: "j \<in> set (jobs s)" "leased_by (rj_id job) lease j" using hit by blast
    then show ?thesis by (rule update_where_hit) (use j(2) in \<open>simp add: leased_by_def\<close>)
  qed
  then have "P (snd ?u)" using P Ps by (auto simp: live_def live_at_def)
  with n show "\<exists>a s'. (case ?u of (n, s') \<Rightarrow> if n = 0 then Inl LeaseLost else Inr ((), s')) = Inr (a, s') \<and> P s'"
    by (auto split: prod.splits)
qed

lemma calm_insert:
  assumes env: "calm_env env"
  shows "runs (on_sys (live_at job lease c)) (replay_insert env c inp) (\<lambda>_. on_sys (live_at job lease c)) no_error"
  unfolding replay_insert_store
proof (rule calm_stmt [OF env])
  fix k s assume P: "live_at job lease c s"
  show "live_at job lease c (ev_others env k s)" by (rule live_at_others [OF env P])
  obtain v where v: "find_conv c (rp_chat s) = Some v" and inv: "chat_inv (rp_chat s)"
    using P by (auto simp: live_at_def live_def)
  have "\<forall>x \<in> set (msgs (rp_chat s)). ms_id x \<noteq> ev_fresh env k (rp_chat s)" using env by (simp add: calm_env_def)
  then obtain d db where run: "storeServerMessage (ev_hash env) (ev_now env k) (ev_fresh env k (rp_chat s)) (\<lambda>_. Inr ()) c inp (rp_chat s) = Inr (d, db)"
    using storeServerMessage_total [OF inv v, of "\<lambda>_. Inr ()" "ev_fresh env k (rp_chat s)" "ev_hash env" "ev_now env k" inp] by auto
  have "chat_inv db" using run inv by (auto simp: storeServerMessage_Inr_iff intro: insertServerMessage_tx_inv)
  moreover have "find_conv c db \<noteq> None"
    using run v by (auto simp: storeServerMessage_Inr_iff elim!: insertServerMessage_tx_cases)
      (auto simp: write_message_def find_conv_def find_where_update split: if_splits)
  ultimately have "live_at job lease c (s\<lparr>rp_chat := db\<rparr>)" using P by (simp add: live_at_def live_def)
  with run show "\<exists>a s'. (case storeServerMessage (ev_hash env) (ev_now env k) (ev_fresh env k (rp_chat s)) (\<lambda>_. Inr ()) c inp (rp_chat s) of
      Inl e \<Rightarrow> Inl (ChatFailed e) | Inr (_, db) \<Rightarrow> Inr ((), s\<lparr>rp_chat := db\<rparr>)) = Inr (a, s') \<and> live_at job lease c s'"
    by simp
qed

lemma calm_ensure:
  assumes env: "calm_env env" and ne: "rj_requesterUserID job \<noteq> rj_accepterUserID job"
  shows "runs (on_sys (live job lease)) (replayConversationId env job) (\<lambda>c. on_sys (live_at job lease c)) no_error"
  unfolding replayConversationId_def
proof (rule calm_stmt [OF env])
  fix k s assume P: "live job lease s"
  show "live job lease (ev_others env k s)" by (rule live_others [OF env P])
  let ?n = "ev_fresh env k (rp_chat s)"
  obtain db r where run: "ensureDirectConversationForSettlement (ev_between env k) ?n (rj_requesterUserID job) (rj_accepterUserID job) (rp_chat s)
      = (db, r)" by fastforce
  have inv: "chat_inv (rp_chat s)" "chat_inv (ev_between env k (rp_chat s))" using P env by (auto simp: live_def calm_env_def)
  have id: "find_conv ?n (ev_between env k (rp_chat s)) = None"
    using env by (auto simp: calm_env_def find_conv_def find_where_None_iff)
  have "\<exists>c. r = Inr c \<and> find_conv c db \<noteq> None \<and> chat_inv db"
    using run ne id inv create_direct_inv [OF inv(2), of ?n "rj_requesterUserID job" "rj_accepterUserID job"]
    by (auto simp: ensureDirectConversationForSettlement_def Let_def create_direct_def find_conv_def find_where_append
        find_where_None_iff split: option.splits sum.splits if_splits dest!: find_direct_SomeD)
  then obtain c where c: "r = Inr c" "find_conv c db \<noteq> None" "chat_inv db" by blast
  then have "live_at job lease c (s\<lparr>rp_chat := db\<rparr>)" using P by (simp add: live_at_def live_def)
  with run c(1) show "\<exists>a s'. (case ensureDirectConversationForSettlement (ev_between env k) ?n
        (rj_requesterUserID job) (rj_accepterUserID job) (rp_chat s) of
      (_, Inl e) \<Rightarrow> Inl (ChatFailed e) | (db, Inr c) \<Rightarrow> Inr (c, s\<lparr>rp_chat := db\<rparr>)) = Inr (a, s') \<and> live_at job lease a s'"
    by simp
qed

lemma calm_ask: "calm_env env \<Longrightarrow> runs (on_sys (live job lease)) (ask env g) (\<lambda>_. on_sys (live job lease)) no_error"
  unfolding ask_def by (rule calm_stmt) (auto intro: live_others)

lemma calm_messages:
  assumes env: "calm_env env"
  shows "runs (on_sys (live_at job lease c)) (replay_messages env lease job c n ms) (\<lambda>_. on_sys (live_at job lease c)) no_error"
proof (induction ms arbitrary: n)
  case Nil
  show ?case by (auto intro: runs_done)
next
  case (Cons m ms)
  have rest: "runs (on_sys (live_at job lease c)) (replay_messages env lease job c (n + 1) ms) (\<lambda>_. on_sys (live_at job lease c)) no_error"
    by (rule Cons)
  have store: "runs (on_sys (live_at job lease c)) (persistProgress env lease (rj_id job) 2 (Some (n + 1))) (\<lambda>_. on_sys (live_at job lease c)) no_error"
    by (rule calm_persist [OF env, where c = c]) simp
  show ?case using runs_then [OF store rest] runs_then [OF calm_insert [OF env] runs_then [OF store rest]] by simp
qed


lemma calm_advance:
  assumes env: "calm_env env"
  shows "runs (on_sys (live job lease)) (advance_stage env lease job cur st) (\<lambda>_. on_sys (live job lease)) no_error"
  unfolding advance_stage_def
proof (rule runs_if)
  show "runs (on_sys (live job lease)) (and_then (persistProgress env lease (rj_id job) (cur + 1) None) (\<lambda>_. done_with (cur + 1)))
    (\<lambda>_. on_sys (live job lease)) no_error"
    by (rule runs_then [OF calm_persist [OF env, where P = "live job lease"]]) (auto intro: runs_done)
qed (rule runs_done)

lemma calm_stage2:
  assumes env: "calm_env env" and ne: "rj_requesterUserID job \<noteq> rj_accepterUserID job"
  shows "runs (on_sys (live job lease)) (replay_stage2 env lease job message thread name st) (\<lambda>_. on_sys (live job lease)) no_error"
  unfolding replay_stage2_def
proof (rule runs_if)
  have greet: "runs (on_sys (live_at job lease c)) (replay_greeting env job c message name) (\<lambda>_. on_sys (live_at job lease c)) no_error" for c
    unfolding replay_greeting_def Let_def by (intro runs_if runs_done calm_insert [OF env])
  have texts: "runs (on_sys (live_at job lease c))
     (if thread \<noteq> [] then replay_messages env lease job c (rj_messageIndex job) (drop (rj_messageIndex job) thread)
      else replay_greeting env job c message name) (\<lambda>_. on_sys (live_at job lease c)) no_error" for c
    by (intro runs_if calm_messages [OF env] greet)
  have store: "runs (on_sys (live_at job lease c)) (and_then (persistProgress env lease (rj_id job) 3 None) (\<lambda>_. done_with 3))
      (\<lambda>_. on_sys (live job lease)) no_error" for c
    by (rule runs_then [OF calm_persist [OF env, where c = c and P = "live_at job lease c"]]) (auto intro: runs_done simp: live_at_def)
  show "runs (on_sys (live job lease)) (and_then (replayConversationId env job) (\<lambda>c.
       and_then (if thread \<noteq> [] then replay_messages env lease job c (rj_messageIndex job) (drop (rj_messageIndex job) thread)
                 else replay_greeting env job c message name) (\<lambda>_.
       and_then (persistProgress env lease (rj_id job) 3 None) (\<lambda>_. done_with 3)))) (\<lambda>_. on_sys (live job lease)) no_error"
    by (rule runs_then [OF calm_ensure [OF env ne] runs_then [OF texts store]])
qed (rule runs_done)

lemma calm_stage3:
  assumes env: "calm_env env" and ne: "rj_requesterUserID job \<noteq> rj_accepterUserID job"
  shows "runs (on_sys (live job lease)) (replay_stage3 env job st) (\<lambda>_. on_sys (live job lease)) no_error"
  unfolding replay_stage3_def
proof (rule runs_if)
  have ins: "runs (on_sys (live_at job lease c)) (replay_insert env c inp) (\<lambda>_. on_sys (live job lease)) no_error" for c inp
    by (rule runs_weaken [OF calm_insert [OF env]]) (auto simp: live_at_def)
  show "runs (on_sys (live job lease)) (and_then (replayConversationId env job) (\<lambda>c.
       replay_insert env c (text_input (rj_accepterUserID job) (replay_key (rj_requestId job) ''accepted'') (ev_reply env))))
    (\<lambda>_. on_sys (live job lease)) no_error"
    by (rule runs_then [OF calm_ensure [OF env ne] ins])
qed (rule runs_done)

definition completed :: "replay_job \<Rightarrow> replay_sys \<Rightarrow> bool" where
  "completed job s \<longleftrightarrow> (\<exists>j \<in> set (jobs s). rj_id j = rj_id job \<and> rj_status j = RS_COMPLETED)"

lemma calm_finish:
  assumes env: "calm_env env"
  shows "runs (on_sys (live job lease)) (finish_job env lease (rj_id job)) (\<lambda>_. on_sys (completed job)) no_error"
  unfolding finish_job_def
proof (rule calm_stmt [OF env])
  fix k s assume P: "live job lease s"
  show "live job lease (ev_others env k s)" by (rule live_others [OF env P])
  let ?f = "\<lambda>j. j\<lparr>rj_status := RS_COMPLETED, rj_stage := 4, rj_lockedAt := None, rj_leaseToken := None\<rparr>"
  obtain j where j: "j \<in> set (jobs s)" "leased_by (rj_id job) lease j" using P by (auto simp: live_def)
  then have "completed job (snd (update_jobs (leased_by (rj_id job) lease) ?f s))"
    unfolding completed_def job_views_update by (rule update_where_hit) (use j(2) in \<open>simp add: leased_by_def\<close>)
  then show "\<exists>a s'. Inr ((), snd (update_jobs (leased_by (rj_id job) lease) ?f s)) = Inr (a, s') \<and> completed job s'" by simp
qed

lemma calm_body:
  assumes env: "calm_env env" and ne: "rj_requesterUserID job \<noteq> rj_accepterUserID job"
  shows "runs (on_sys (live job lease)) (replay_body env lease job) (\<lambda>_. on_sys (completed job)) no_error"
  unfolding replay_body_def
  by (intro runs_then [OF calm_advance [OF env]] runs_then [OF calm_ask [OF env]] runs_then [OF calm_stage2 [OF env ne]]
      runs_then [OF calm_stage3 [OF env ne]] calm_finish [OF env])

text \<open>
  C32: An accepted request reaches the chat. When a run takes up a job that is still as it was read, no statement is lost, and
  others keep the message store's invariant, delete no conversation and leave leased jobs alone, the run ends
  without an error and the job is marked completed, whatever stage and index an earlier run had reached and
  however long the thread.
\<close>

theorem replay_completes:
  assumes "calm_env env" "chat_inv (rp_chat s)" "job \<in> set (jobs (ev_others env 0 s))"
    and "rj_requesterUserID job \<noteq> rj_accepterUserID job"
  shows "\<exists>n s'. processJob env job (0, s) = (Inr (), (n, s'))
    \<and> (\<exists>j \<in> set (jobs s'). rj_id j = rj_id job \<and> rj_status j = RS_COMPLETED)"
proof -
  define lease where "lease = ev_lease env 0"
  define s1 where "s1 = ev_others env 0 s"
  let ?p = "\<lambda>j. rj_id j = rj_id job \<and> rj_status j = rj_status job \<and> (rj_status job = RS_PROCESSING \<longrightarrow> rj_lockedAt j = rj_lockedAt job)"
  let ?f = "\<lambda>j. j\<lparr>rj_status := RS_PROCESSING, rj_leaseToken := Some lease, rj_lockedAt := Some (ev_now env 0)\<rparr>"
  define s2 where "s2 = snd (update_jobs ?p ?f s1)"
  have job: "job \<in> set (jobs s1)" using assms(3) by (simp add: s1_def)
  have "fst (update_jobs ?p ?f s1) \<noteq> 0" using job by (auto simp: update_jobs_def count_where_0_iff)
  then have claim: "\<exists>n. claim_job env lease job (0, s) = (Inr n, (Suc 0, s2)) \<and> n \<noteq> 0"
    using assms(1) by (auto simp: claim_job_def replay_stmt_def statement_def calm_env_def s1_def [symmetric] s2_def
        split: prod.split)
  have "chat_inv (rp_chat s1)" using assms(1,2) by (simp add: calm_env_def s1_def)
  moreover have "\<exists>j \<in> set (jobs s2). leased_by (rj_id job) lease j"
    unfolding s2_def job_views_update by (rule update_where_hit [OF job]) (simp_all add: leased_by_def)
  ultimately have live: "live job lease s2" by (simp add: live_def s2_def)
  have "case replay_body env lease job (Suc 0, s2) of (Inl _, _) \<Rightarrow> False | (Inr _, t) \<Rightarrow> completed job (snd t)"
    using calm_body [OF assms(1,4), of lease] live by (auto simp: runs_def split: prod.splits sum.splits)
  then obtain t where body: "replay_body env lease job (Suc 0, s2) = (Inr (), t)" and fin: "completed job (snd t)"
    by (auto split: prod.splits sum.splits)
  have "processJob env job (0, s) = (Inr (), t)"
    using claim body by (auto simp: processJob_def Let_def lease_def [symmetric] and_then_def on_error_def)
  with fin show ?thesis by (cases t) (auto simp: completed_def)
qed


section \<open>A concrete run\<close>

definition demo_thread :: "thread_message list" where
  "demo_thread = [\<lparr>tm_id = ''m1'', tm_requestId = ''r1'', tm_senderId = ''a'', tm_content = ''hi'', tm_createdAt = 5\<rparr>,
     \<lparr>tm_id = ''m2'', tm_requestId = ''r1'', tm_senderId = ''b'', tm_content = ''who are you'', tm_createdAt = 6\<rparr>]"

definition demo_job :: replay_job where
  "demo_job = \<lparr>rj_id = ''j1'', rj_requestId = ''r1'', rj_requesterUserID = ''a'', rj_accepterUserID = ''b'', rj_status = RS_PENDING,
     rj_leaseToken = None, rj_stage = 0, rj_messageIndex = 0, rj_attempts = 0, rj_nextAttemptAt = 9, rj_lockedAt = None, rj_createdAt = 9\<rparr>"

definition demo_accepted :: replay_sys where
  "demo_accepted = \<lparr>rp_friend = demo_people\<lparr>fd_threads := demo_thread, fd_replays := [demo_job]\<rparr>,
     rp_chat = \<lparr>convs = [], members = [], msgs = []\<rparr>\<rparr>"

definition demo_goal :: replay_goal where
  "demo_goal = \<lparr>rg_request = ''r1'', rg_job = ''j1'', rg_thread = demo_thread, rg_from = ''a'', rg_to = ''b'',
     rg_blocked = (\<lambda>t. t = ''bad'')\<rparr>"

definition unused_id :: "nat \<Rightarrow> chat_db \<Rightarrow> string" where
  "unused_id k d = CHR ''n'' # concat (map ms_id (msgs d)) @ concat (map cv_id (convs d))"

definition demo_env :: "(nat \<Rightarrow> attempt_outcome) \<Rightarrow> replay_env" where
  "demo_env network = \<lparr>ev_outcome = network, ev_others = (\<lambda>_ s. s), ev_between = (\<lambda>_ d. d), ev_now = (\<lambda>k. 10 + int k),
     ev_fresh = unused_id, ev_lease = (\<lambda>_. ''lease''), ev_hash = (\<lambda>_. ''0''), ev_blocked = (\<lambda>t. t = ''bad''),
     ev_profile = (\<lambda>_. None), ev_intro = ''I am '', ev_reply = ''accepted''\<rparr>"

lemma mem_concat_length: "x \<in> set xs \<Longrightarrow> length (f x) \<le> length (concat (map f xs))"
  by (induction xs) auto

lemma unused_id_fresh: "x \<in> set (msgs d) \<Longrightarrow> ms_id x \<noteq> unused_id k d" "v \<in> set (convs d) \<Longrightarrow> cv_id v \<noteq> unused_id k d"
  using mem_concat_length [of x "msgs d" ms_id] mem_concat_length [of v "convs d" cv_id]
  by (auto simp: unused_id_def dest: arg_cong [where f = length])

lemma demo_chat_empty: "chat_inv \<lparr>convs = [], members = [], msgs = []\<rparr>"
  by (simp add: chat_inv_def)

lemma demo_accepted_start: "replay_start demo_goal demo_accepted"
  by (simp add: replay_start_def demo_goal_def demo_accepted_def demo_chat_empty replay_thread_def demo_thread_def jobs_def
      demo_job_def List_Lexorder.list_less_def)

lemma demo_goal_ok: "goal_ok demo_goal"
  by (simp add: goal_ok_def demo_goal_def demo_thread_def)

lemma demo_env_ok: "env_ok demo_goal (demo_env network)"
  by (simp add: env_ok_def demo_env_def demo_goal_def relies_def hash_plain_def replay_run.evol_refl)

theorem replay_once_in_order_witness:
  "\<forall>c. count_where (carries demo_goal c ''a'' ''m1'') (msgs (rp_chat
     (replay_exec (demo_env (\<lambda>_. Arrives)) (OnTimer 60000)
       (replay_exec (demo_env (\<lambda>k. if k = 7 then ReplyLost else Arrives)) (OnAccept ''r1'') demo_accepted)))) \<le> 1"
proof -
  let ?m = "\<lparr>tm_id = ''m1'', tm_requestId = ''r1'', tm_senderId = ''a'', tm_content = ''hi'', tm_createdAt = 5\<rparr>"
  let ?h = "[(demo_env (\<lambda>k. if k = 7 then ReplyLost else Arrives), OnAccept ''r1''), (demo_env (\<lambda>_. Arrives), OnTimer 60000)]"
  have "\<forall>(env, x) \<in> set ?h. env_ok demo_goal env" by (simp add: demo_env_ok)
  from replay_once_in_order [OF demo_goal_ok demo_accepted_start this refl, THEN conjunct1]
  have "\<forall>c. count_where (carries demo_goal c (tm_senderId ?m) (tm_id ?m)) (msgs (rp_chat
      (fold (\<lambda>(env, x). replay_exec env x) ?h demo_accepted))) \<le> 1" by blast
  then show ?thesis by simp
qed

theorem replay_completes_witness:
  "\<exists>n s'. processJob (demo_env (\<lambda>_. Arrives)) demo_job (0, demo_accepted) = (Inr (), (n, s'))
    \<and> (\<exists>j \<in> set (jobs s'). rj_id j = ''j1'' \<and> rj_status j = RS_COMPLETED)"
proof -
  have "calm_env (demo_env (\<lambda>_. Arrives))"
    unfolding calm_env_def by (simp add: demo_env_def unused_id_fresh)
  moreover have "demo_job \<in> set (jobs (ev_others (demo_env (\<lambda>_. Arrives)) 0 demo_accepted))"
    by (simp add: demo_env_def demo_accepted_def jobs_def)
  ultimately show ?thesis
    using replay_completes [of "demo_env (\<lambda>_. Arrives)" demo_accepted demo_job]
    by (simp add: demo_accepted_def demo_chat_empty demo_job_def)
qed

end
