(* ===== verification/SensitiveWord.thy ===== *)
theory SensitiveWord
  imports Prelude "HOL-Library.Sublist"
begin

text \<open>
  The word filter of \<open>src/sensitive-word/\<close>: the trie and the search of \<open>sensitive-word.matcher.ts\<close> and the
  cached matcher of \<open>sensitive-word.service.ts\<close> with its refresh and backoff. Texts are lists over any
  alphabet; what JavaScript knows of Unicode (normal form, lower case, character classes, trimming) is an argument.
\<close>

section \<open>The matcher\<close>

record 'c unicode =
  uc_nfkc :: "'c list \<Rightarrow> 'c list"
  uc_lower :: "'c list \<Rightarrow> 'c list"
  uc_trim :: "'c list \<Rightarrow> 'c list"
  uc_format :: "'c \<Rightarrow> bool"
  uc_ignored :: "'c \<Rightarrow> bool"

definition normalizeSensitiveWord :: "'c unicode \<Rightarrow> 'c list \<Rightarrow> 'c list" where
  "normalizeSensitiveWord u s = uc_trim u (uc_lower u (filter (\<lambda>c. \<not> uc_format u c) (uc_nfkc u s)))"

definition compact :: "'c unicode \<Rightarrow> 'c list \<Rightarrow> 'c list" where
  "compact u s = filter (\<lambda>c. \<not> uc_ignored u c) (uc_lower u (uc_nfkc u s))"

text \<open>A node: its children (a \<open>Map\<close>) and, where a word ends, that word.\<close>

datatype 'c node = Node (node_children: "('c \<times> 'c node) list") (node_word: "'c list option")

definition newNode :: "'c node" where "newNode = Node [] None"

text \<open>\<open>Map.set\<close> replaces the entry of the key in place or adds one.\<close>

fun set_child :: "'c \<Rightarrow> 'c node \<Rightarrow> ('c \<times> 'c node) list \<Rightarrow> ('c \<times> 'c node) list" where
  "set_child c n [] = [(c, n)]"
| "set_child c n ((d, x) # xs) = (if d = c then (c, n) # xs else (d, x) # set_child c n xs)"

text \<open>The walk that adds a key, creating the nodes that are missing, and stores the word where it ends.\<close>

fun add_word :: "'c list \<Rightarrow> 'c list \<Rightarrow> 'c node \<Rightarrow> 'c node" where
  "add_word [] w (Node cs _) = Node cs (Some w)"
| "add_word (c # key) w (Node cs x) =
     Node (set_child c (add_word key w (case map_of cs c of None \<Rightarrow> newNode | Some n \<Rightarrow> n)) cs) x"

record 'c matcher =
  mt_root :: "'c node"
  mt_seen :: "'c list list"

definition add_raw :: "'c unicode \<Rightarrow> 'c list \<Rightarrow> 'c matcher \<Rightarrow> 'c matcher" where
  "add_raw u raw m =
     (let normalized = normalizeSensitiveWord u raw; key = compact u normalized
      in if key = [] \<or> key \<in> set (mt_seen m) then m
         else \<lparr>mt_root = add_word key normalized (mt_root m), mt_seen = key # mt_seen m\<rparr>)"

definition buildSensitiveWordMatcher :: "'c unicode \<Rightarrow> 'c list list \<Rightarrow> 'c matcher" where
  "buildSensitiveWordMatcher u words = fold (add_raw u) words \<lparr>mt_root = newNode, mt_seen = []\<rparr>"

definition matcher_size :: "'c matcher \<Rightarrow> nat" where "matcher_size m = length (mt_seen m)"

text \<open>The inner loop from one position, and the outer loop over the positions.\<close>

fun walk_from :: "'c node \<Rightarrow> 'c list \<Rightarrow> 'c list option" where
  "walk_from n [] = None"
| "walk_from n (c # cs) =
     (case map_of (node_children n) c of
        None \<Rightarrow> None
      | Some x \<Rightarrow> (case node_word x of Some w \<Rightarrow> Some w | None \<Rightarrow> walk_from x cs))"

fun scan_from :: "'c node \<Rightarrow> 'c list \<Rightarrow> 'c list option" where
  "scan_from root [] = None"
| "scan_from root (c # cs) = (case walk_from root (c # cs) of Some w \<Rightarrow> Some w | None \<Rightarrow> scan_from root cs)"

definition findFirst :: "'c unicode \<Rightarrow> 'c matcher \<Rightarrow> 'c list \<Rightarrow> 'c list option" where
  "findFirst u m text = (if matcher_size m = 0 \<or> text = [] then None else scan_from (mt_root m) (compact u text))"

section \<open>The reference\<close>

text \<open>
  The word list as entries (key, word), the first word of each key counting; the answer is the word of the shortest key that
  starts at the first position where any key starts.
\<close>

definition dictionary :: "'c unicode \<Rightarrow> 'c list list \<Rightarrow> ('c list \<times> 'c list) list" where
  "dictionary u words = filter (\<lambda>(k, _). k \<noteq> [])
     (map (\<lambda>raw. let n = normalizeSensitiveWord u raw in (compact u n, n)) words)"

definition starts_at :: "('c list \<times> 'c list) list \<Rightarrow> 'c list \<Rightarrow> 'c list option" where
  "starts_at dict text = find (\<lambda>p. map_of dict p \<noteq> None) (prefixes text)"

definition naive_first :: "('c list \<times> 'c list) list \<Rightarrow> 'c list \<Rightarrow> 'c list option" where
  "naive_first dict text =
     (case find (\<lambda>t. starts_at dict t \<noteq> None) (rev (suffixes text)) of
        None \<Rightarrow> None | Some t \<Rightarrow> (case starts_at dict t of None \<Rightarrow> None | Some p \<Rightarrow> map_of dict p))"


section \<open>The trie is the dictionary\<close>

fun lookup_word :: "'c node \<Rightarrow> 'c list \<Rightarrow> 'c list option" where
  "lookup_word n [] = node_word n"
| "lookup_word n (c # key) = (case map_of (node_children n) c of None \<Rightarrow> None | Some x \<Rightarrow> lookup_word x key)"

lemma lookup_newNode [simp]: "lookup_word newNode k = None"
  by (cases k) (simp_all add: newNode_def)

lemma map_of_set_child [simp]: "map_of (set_child c n cs) d = (if d = c then Some n else map_of cs d)"
  by (induction cs) auto

lemma lookup_add_word [simp]: "lookup_word (add_word k w n) k' = (if k' = k then Some w else lookup_word n k')"
proof (induction k w n arbitrary: k' rule: add_word.induct)
  case (1 w cs x)
  show ?case by (cases k') auto
next
  case (2 c key w cs x)
  then show ?case by (cases k') (auto split: option.splits)
qed

text \<open>The inner loop finds the shortest key at its position.\<close>

definition first_prefix :: "('c list \<Rightarrow> 'c list option) \<Rightarrow> 'c list \<Rightarrow> 'c list option" where
  "first_prefix f t = (case find (\<lambda>p. f p \<noteq> None) (prefixes t) of None \<Rightarrow> None | Some p \<Rightarrow> f p)"

lemma find_holds: "find p xs = Some x \<Longrightarrow> x \<in> set xs \<and> p x"
  by (auto simp: find_Some_iff)

lemma find_map_Cons: "find p (map g xs) = map_option g (find (p \<circ> g) xs)"
  by (induction xs) auto

lemma first_prefix_simps [simp]:
  "first_prefix f [] = f []"
  "first_prefix f (c # cs) = (case f [] of Some w \<Rightarrow> Some w | None \<Rightarrow> first_prefix (\<lambda>p. f (c # p)) cs)"
  by (auto simp: first_prefix_def find_map_Cons comp_def split: option.split)

lemma first_prefix_None: "first_prefix f t = None \<longleftrightarrow> (\<forall>p. prefix p t \<longrightarrow> f p = None)"
  by (auto simp: first_prefix_def find_None_iff split: option.split dest: find_holds)

lemma walk_from_first_prefix:
  "(case node_word n of Some w \<Rightarrow> Some w | None \<Rightarrow> walk_from n t) = first_prefix (lookup_word n) t"
proof (induction t arbitrary: n)
  case (Cons c cs)
  have none: "first_prefix (\<lambda>p. None) xs = None" for xs :: "'a list" by (simp add: first_prefix_None)
  show ?case using Cons.IH by (auto simp: none split: option.split)
next
  case Nil
  show ?case by (cases "node_word n") simp_all
qed

lemma scan_from_first:
  assumes "lookup_word n [] = None"
  shows "scan_from n t = (case find (\<lambda>s. first_prefix (lookup_word n) s \<noteq> None) (rev (suffixes t)) of
      None \<Rightarrow> None | Some s \<Rightarrow> first_prefix (lookup_word n) s)"
proof (induction t)
  case (Cons c cs)
  have "walk_from n (c # cs) = first_prefix (lookup_word n) (c # cs)"
    using walk_from_first_prefix [of n "c # cs"] assms by simp
  with Cons show ?case by (auto split: option.split simp del: walk_from.simps first_prefix_simps)
qed (use assms in simp)

text \<open>Building the trie.\<close>

definition trie_ok :: "('c list \<times> 'c list) list \<Rightarrow> 'c matcher \<Rightarrow> bool" where
  "trie_ok dict m \<longleftrightarrow> set (mt_seen m) = fst ` set dict \<and> (\<forall>k. lookup_word (mt_root m) k = map_of dict k)"

lemma dictionary_Nil [simp]: "dictionary u [] = []"
  by (simp add: dictionary_def)

lemma dictionary_append [simp]: "dictionary u (xs @ ys) = dictionary u xs @ dictionary u ys"
  by (simp add: dictionary_def)

lemma trie_ok_add:
  assumes "trie_ok (dictionary u ws) m"
  shows "trie_ok (dictionary u (ws @ [raw])) (add_raw u raw m)"
proof -
  define n where "n = normalizeSensitiveWord u raw"
  have add: "add_raw u raw m = (if compact u n = [] \<or> compact u n \<in> set (mt_seen m) then m
      else \<lparr>mt_root = add_word (compact u n) n (mt_root m), mt_seen = compact u n # mt_seen m\<rparr>)"
    by (simp add: add_raw_def n_def Let_def)
  have dict: "dictionary u [raw] = (if compact u n = [] then [] else [(compact u n, n)])"
    by (simp add: dictionary_def n_def Let_def)
  have known: "k \<in> set (mt_seen m) \<longleftrightarrow> map_of (dictionary u ws) k \<noteq> None" for k
    using assms by (metis (no_types, lifting) map_of_eq_None_iff trie_ok_def)
  have look: "lookup_word (mt_root m) k = map_of (dictionary u ws) k" for k using assms by (simp add: trie_ok_def)
  have seen: "set (mt_seen m) = fst ` set (dictionary u ws)" using assms by (simp add: trie_ok_def)
  consider "compact u n = []" | "compact u n \<noteq> []" "compact u n \<in> set (mt_seen m)"
    | "compact u n \<noteq> []" "compact u n \<notin> set (mt_seen m)" by blast
  then show ?thesis
  proof cases
    case 1
    then show ?thesis using assms by (simp add: add dict)
  next
    case 2
    then have "\<exists>w. map_of (dictionary u ws) (compact u n) = Some w" using known by blast
    then show ?thesis using 2 look seen by (auto simp: trie_ok_def add dict map_add_def split: option.split)
  next
    case 3
    then have "map_of (dictionary u ws) (compact u n) = None" using known by blast
    then show ?thesis using 3 look seen by (auto simp: trie_ok_def add dict map_add_def split: option.split)
  qed
qed

lemma trie_ok_build: "trie_ok (dictionary u words) (buildSensitiveWordMatcher u words)"
proof -
  have "trie_ok (dictionary u (ws @ ws')) (fold (add_raw u) ws' m)" if "trie_ok (dictionary u ws) m" for ws ws' m
    using that
  proof (induction ws' arbitrary: ws m)
    case (Cons raw rest)
    from Cons.IH [OF trie_ok_add [OF Cons.prems, of raw]] show ?case by simp
  qed simp
  from this [of "[]" "\<lparr>mt_root = newNode, mt_seen = []\<rparr>" words] show ?thesis
    by (simp add: buildSensitiveWordMatcher_def trie_ok_def)
qed

definition unicode_ok :: "'c unicode \<Rightarrow> bool" where
  "unicode_ok u \<longleftrightarrow> uc_nfkc u [] = [] \<and> uc_lower u [] = []"

lemma findFirst_build:
  assumes "unicode_ok u"
  shows "findFirst u (buildSensitiveWordMatcher u words) text = naive_first (dictionary u words) (compact u text)"
proof -
  let ?d = "dictionary u words" and ?m = "buildSensitiveWordMatcher u words"
  have ok: "trie_ok ?d ?m" by (rule trie_ok_build)
  then have look: "lookup_word (mt_root ?m) = map_of ?d" by (auto simp: trie_ok_def)
  have nil: "map_of ?d [] = None" by (auto simp: dictionary_def map_of_eq_None_iff Let_def)
  have starts: "(case starts_at ?d t of None \<Rightarrow> None | Some p \<Rightarrow> map_of ?d p) = first_prefix (map_of ?d) t"
    "(starts_at ?d t \<noteq> None) = (first_prefix (map_of ?d) t \<noteq> None)" for t
    by (auto simp: starts_at_def first_prefix_def split: option.split dest: find_holds)
  have scan: "scan_from (mt_root ?m) (compact u text) = naive_first ?d (compact u text)"
    unfolding naive_first_def starts using scan_from_first [of "mt_root ?m" "compact u text"] nil by (simp only: look)
  show ?thesis
  proof (cases "matcher_size ?m = 0")
    case True
    then have "?d = []" using ok by (simp add: matcher_size_def trie_ok_def)
    then show ?thesis using True by (simp add: findFirst_def naive_first_def starts_at_def find_None_iff split: option.split)
  next
    case False
    then show ?thesis
      using scan assms nil
      by (auto simp: findFirst_def compact_def unicode_ok_def naive_first_def starts_at_def)
  qed
qed


text \<open>
  C15: The filter finds what it should. Whatever the list of words (with repetitions, blanks and words that differ only in
  ignored characters), searching with the trie gives the word of the shortest key at the first position
  where a key starts, as the direct search in the dictionary does; and a text is blocked exactly if, without the
  ignored characters, it contains a word that is not blank without them.
\<close>

theorem filter_is_dictionary_search:
  assumes "unicode_ok u"
  shows "findFirst u (buildSensitiveWordMatcher u words) text = naive_first (dictionary u words) (compact u text)
    \<and> (findFirst u (buildSensitiveWordMatcher u words) text \<noteq> None \<longleftrightarrow>
        (\<exists>raw \<in> set words. compact u (normalizeSensitiveWord u raw) \<noteq> []
           \<and> sublist (compact u (normalizeSensitiveWord u raw)) (compact u text)))"
proof -
  let ?d = "dictionary u words" and ?t = "compact u text"
  have dict: "map_of ?d k \<noteq> None \<longleftrightarrow> (\<exists>raw \<in> set words. k = compact u (normalizeSensitiveWord u raw) \<and> k \<noteq> [])" for k
    by (force simp: map_of_eq_None_iff dictionary_def Let_def image_iff)
  have starts: "starts_at ?d s \<noteq> None \<longleftrightarrow> (\<exists>p. prefix p s \<and> map_of ?d p \<noteq> None)" for s
    by (auto simp: starts_at_def find_None_iff)
  have "naive_first ?d ?t \<noteq> None \<longleftrightarrow> (\<exists>s. suffix s ?t \<and> starts_at ?d s \<noteq> None)"
    unfolding naive_first_def
    by (auto simp: find_None_iff starts_at_def split: option.split dest!: find_holds) blast
  also have "\<dots> \<longleftrightarrow> (\<exists>p. sublist p ?t \<and> map_of ?d p \<noteq> None)"
    unfolding starts by (auto simp: sublist_altdef')
  also have "\<dots> \<longleftrightarrow> (\<exists>raw \<in> set words. compact u (normalizeSensitiveWord u raw) \<noteq> []
      \<and> sublist (compact u (normalizeSensitiveWord u raw)) ?t)"
    unfolding dict by blast
  finally show ?thesis unfolding findFirst_build [OF assms] by simp
qed

section \<open>The cached matcher\<close>

definition REFRESH_TTL_MS :: int where "REFRESH_TTL_MS = 60000"
definition RELOAD_BACKOFF_BASE_MS :: int where "RELOAD_BACKOFF_BASE_MS = 5000"
definition RELOAD_BACKOFF_MAX_MS :: int where "RELOAD_BACKOFF_MAX_MS = 5 * 60000"

text \<open>\<open>ws_reloading\<close> says whether a background reload is in flight (\<open>reloadPromise\<close>).\<close>

record 'c word_service =
  ws_words :: "'c list list"
  ws_matcher :: "'c matcher option"
  ws_loadedAt :: int
  ws_reloading :: bool
  ws_nextRetryAt :: int
  ws_failures :: nat

definition scheduleReload :: "'c word_service \<Rightarrow> 'c word_service" where
  "scheduleReload s = (if ws_reloading s then s else s\<lparr>ws_reloading := True\<rparr>)"

definition check_text :: "'c unicode \<Rightarrow> int \<Rightarrow> 'c list \<Rightarrow> 'c word_service \<Rightarrow> 'c list option \<times> 'c word_service" where
  "check_text u now text s =
     ((case ws_matcher s of None \<Rightarrow> None | Some m \<Rightarrow> findFirst u m text),
      if REFRESH_TTL_MS \<le> now - ws_loadedAt s \<and> ws_nextRetryAt s \<le> now then scheduleReload s else s)"

text \<open>A reload reads the rows and, some time later, installs the matcher it built from them.\<close>

definition install :: "'c unicode \<Rightarrow> int \<Rightarrow> 'c list list \<Rightarrow> 'c word_service \<Rightarrow> 'c word_service" where
  "install u now rows s = s\<lparr>ws_matcher := Some (buildSensitiveWordMatcher u rows), ws_loadedAt := now, ws_failures := 0, ws_nextRetryAt := 0\<rparr>"

definition reload_succeeds :: "'c unicode \<Rightarrow> int \<Rightarrow> 'c list list \<Rightarrow> 'c word_service \<Rightarrow> 'c word_service" where
  "reload_succeeds u now rows s = (install u now rows s)\<lparr>ws_reloading := False\<rparr>"

definition reload_fails :: "int \<Rightarrow> 'c word_service \<Rightarrow> 'c word_service" where
  "reload_fails now s =
     (let n = ws_failures s + 1
      in s\<lparr>ws_failures := n, ws_nextRetryAt := now + min (RELOAD_BACKOFF_BASE_MS * 2 ^ (n - 1)) RELOAD_BACKOFF_MAX_MS,
           ws_reloading := False\<rparr>)"

definition normalizeBatch :: "'c unicode \<Rightarrow> 'c list list \<Rightarrow> 'c list list" where
  "normalizeBatch u raw = fold (\<lambda>r seen. let w = normalizeSensitiveWord u r in if w = [] \<or> w \<in> set seen then seen else seen @ [w]) raw []"

text \<open>The administrator's changes write the table and reload at once; the reload may fail after the write.\<close>

definition addWords :: "'c unicode \<Rightarrow> int \<Rightarrow> bool \<Rightarrow> 'c list list \<Rightarrow> 'c word_service \<Rightarrow> (unit + nat \<times> nat) \<times> 'c word_service" where
  "addWords u now reloadOk raw s =
     (let words = normalizeBatch u raw
      in if words = [] then (Inr (length raw, 0), s)
         else let new = filter (\<lambda>w. w \<notin> set (ws_words s)) words; s1 = s\<lparr>ws_words := ws_words s @ new\<rparr>
              in if reloadOk then (Inr (length raw, length new), install u now (ws_words s1) s1) else (Inl (), s1))"

definition removeWords :: "'c unicode \<Rightarrow> int \<Rightarrow> bool \<Rightarrow> 'c list list \<Rightarrow> 'c word_service \<Rightarrow> (unit + nat) \<times> 'c word_service" where
  "removeWords u now reloadOk raw s =
     (let words = normalizeBatch u raw
      in if words = [] then (Inr 0, s)
         else let gone = filter (\<lambda>w. w \<in> set words) (ws_words s); s1 = s\<lparr>ws_words := filter (\<lambda>w. w \<notin> set words) (ws_words s)\<rparr>
              in if reloadOk then (Inr (length gone), install u now (ws_words s1) s1) else (Inl (), s1))"

lemma reload_delay_bounds:
  "5000 \<le> ws_nextRetryAt (reload_fails now s) - now \<and> ws_nextRetryAt (reload_fails now s) - now \<le> 300000"
proof -
  have "(1 :: int) \<le> 2 ^ ws_failures s" by simp
  then show ?thesis by (simp add: reload_fails_def Let_def RELOAD_BACKOFF_BASE_MS_def RELOAD_BACKOFF_MAX_MS_def)
qed

lemma checks_before_retry:
  "\<forall>(now, text) \<in> set cs. now < ws_nextRetryAt s \<Longrightarrow> fold (\<lambda>(now, text) s. snd (check_text u now text s)) cs s = s"
  by (induction cs) (auto simp: check_text_def)

text \<open>
  C40: A failed refresh of the word list keeps the filter as it was and does not press the database. However many texts are checked
  before the retry time, which is between 5 seconds and 5 minutes after the failure, nothing changes: no reload is
  started, and every text gets the answer of the old matcher. At the retry time, if the list is due, a check
  starts one reload and still answers at once from the old matcher.
\<close>

theorem failed_refresh_is_harmless:
  assumes "s1 = reload_fails t s" "\<forall>(now, text) \<in> set cs. now < ws_nextRetryAt s1"
    and "ws_nextRetryAt s1 \<le> late" "REFRESH_TTL_MS \<le> late - ws_loadedAt s"
  shows "t + 5000 \<le> ws_nextRetryAt s1 \<and> ws_nextRetryAt s1 \<le> t + 300000 \<and> ws_matcher s1 = ws_matcher s
    \<and> fold (\<lambda>(now, text) s. snd (check_text u now text s)) cs s1 = s1 \<and> \<not> ws_reloading s1
    \<and> (\<forall>now text. fst (check_text u now text s1) = fst (check_text u now text s))
    \<and> check_text u late text s1 = (fst (check_text u late text s), s1\<lparr>ws_reloading := True\<rparr>)"
proof -
  have "t + 5000 \<le> ws_nextRetryAt s1 \<and> ws_nextRetryAt s1 \<le> t + 300000"
    using reload_delay_bounds [of t s] by (simp add: assms(1))
  moreover have "fold (\<lambda>(now, text) s. snd (check_text u now text s)) cs s1 = s1"
    by (rule checks_before_retry [OF assms(2)])
  moreover have "ws_matcher s1 = ws_matcher s" "\<not> ws_reloading s1" "ws_loadedAt s1 = ws_loadedAt s"
    by (simp_all add: assms(1) reload_fails_def Let_def)
  ultimately show ?thesis
    using assms(3,4) by (simp add: check_text_def scheduleReload_def)
qed

section \<open>A concrete list\<close>

definition plain :: "char unicode" where
  "plain = \<lparr>uc_nfkc = (\<lambda>s. s), uc_lower = (\<lambda>s. s), uc_trim = (\<lambda>s. s), uc_format = (\<lambda>_. False), uc_ignored = (\<lambda>c. c = CHR '' '' \<or> c = CHR ''.'')\<rparr>"

theorem filter_is_dictionary_search_witness:
  "findFirst plain (buildSensitiveWordMatcher plain [''bad'', ''b.a.d'', ''bet'', '' '']) ''a b.et'' = Some ''bet''
   \<and> findFirst plain (buildSensitiveWordMatcher plain [''bad'', ''b.a.d'', ''bet'', '' '']) ''be t a'' \<noteq> None
   \<and> findFirst plain (buildSensitiveWordMatcher plain [''bad'', ''b.a.d'', ''bet'', '' '']) ''b e'' = None"
proof -
  have ok: "unicode_ok plain" by (simp add: unicode_ok_def plain_def)
  show ?thesis
    unfolding filter_is_dictionary_search [OF ok, THEN conjunct1]
    by (simp add: naive_first_def starts_at_def dictionary_def normalizeSensitiveWord_def compact_def plain_def)
qed

definition stale_filter :: "char word_service" where
  "stale_filter = \<lparr>ws_words = [''bad''], ws_matcher = Some (buildSensitiveWordMatcher plain [''bad'']), ws_loadedAt = 0,
     ws_reloading = True, ws_nextRetryAt = 0, ws_failures = 2\<rparr>"

theorem failed_refresh_is_harmless_witness:
  "check_text plain 120000 ''hello'' (reload_fails 100000 stale_filter)
     = (fst (check_text plain 120000 ''hello'' stale_filter), (reload_fails 100000 stale_filter)\<lparr>ws_reloading := True\<rparr>)"
proof -
  have "ws_nextRetryAt (reload_fails 100000 stale_filter) \<le> 120000"
    by (simp add: reload_fails_def stale_filter_def RELOAD_BACKOFF_BASE_MS_def RELOAD_BACKOFF_MAX_MS_def)
  moreover have "REFRESH_TTL_MS \<le> 120000 - ws_loadedAt stale_filter" by (simp add: REFRESH_TTL_MS_def stale_filter_def)
  ultimately show ?thesis
    using failed_refresh_is_harmless [OF refl, of "[]" 100000 stale_filter 120000 plain "''hello''"] by simp
qed

end
