(* ===== verification/Spec2Isabelle.thy ===== *)
theory Spec2Isabelle
  imports Prelude KeyedTables TxRetry ChatStore Coin FancyNumber FancyProofs FancySteps FancyRuns FancyAdmin FancyPay FancyNames FancyClaims RefreshTokens SessionVerify SessionProofs SessionClaims SessionJobs
    Call CallProofs CallClaims CallRecord Friend FriendProofs FriendClaims
    FriendReplay FriendReplayProofs FriendReplayClaims Calendar SensitiveWord
begin

text \<open>
  This is the verification development of the \<open>circle_be\<close> backend: a NestJS server for a
  social application, with a PostgreSQL database behind Prisma and Redis as a cache. Paths below are relative
  to the server's own \<open>src/\<close> directory.

  \<^bold>\<open>What is modelled.\<close> The database tables are lists of row records in insertion order; a
  service's state is a record of its tables. A statement of the code (\<open>updateMany\<close>,
  \<open>findFirst\<close>, an interactive transaction) is a function on that record, atomic because the
  code runs it as one statement or under a lock. A request is a composition of such functions in the order of the code,
  with every guard and early return. Errors are values, the left side of a sum; a handler that writes before it
  fails returns its error together with the database. Other requests run between the statements of a request:
  a handler takes \<open>others\<close>, where \<open>others k\<close> is what they do to the tables before
  its step \<open>k\<close>, and the theorems hold for every \<open>others\<close> that keeps to the protocol of
  the tables (\<open>relies\<close>). The protocol is a step relation, and each handler is proved to keep to it
  itself (\<open>evolves\<close>, \<open>friend_evolves\<close>, \<open>fancy_evolves\<close>), so the hypothesis is what the handlers guarantee. That argument is made
  once, in the locale \<open>interleaved\<close> of Prelude, and interpreted for calls, for friends, for the replay of request threads, and twice for fancy numbers (their invariant and their names).
  Random tokens, identifiers, clocks, hashes, HMACs and the answers of the media server and of Redis are arguments.

  \<^bold>\<open>The theories.\<close>
  \<^item> Prelude: results, tables (\<open>update_where\<close>, \<open>find_where\<close>, \<open>count_where\<close>,
    \<open>latest_by\<close>), 32-bit columns, interference. KeyedTables: tables as maps from their key.
  \<^item> JsValue: values of unknown type and character classes.
  \<^item> TxRetry: \<open>utils/prisma-tx.ts\<close>. Which failures are retried, the delay, the loop
    (recursion on the attempts left, at most \<open>maxAttempts\<close>).
  \<^item> ChatStore: \<open>chat/chat-system-message.service.ts\<close> and
    \<open>ensureDirectConversationForSettlement\<close> of \<open>chat/chat.service.ts\<close>. Conversations with
    the height counter, idempotent server messages: \<open>storeServerMessage\<close> is the transaction, \<open>insertServerMessage\<close>
    the whole function, whose answer is built from the stored row and the content of the request and is lost when delivery fails.
  \<^item> Coin: \<open>coin/coin.service.ts\<close>, \<open>gift-card-outbox.processor.ts\<close>,
    \<open>wallet-reconciliation.service.ts\<close>. Wallet, ledger, gifts, card compensation. The cards are messages of
    ChatStore, and \<open>sendGift\<close> runs its transaction through \<open>runSerializableTransaction\<close> of TxRetry.
  \<^item> RefreshTokens, SessionVerify, SessionProofs, SessionClaims, SessionJobs:
    \<open>auth/refresh-token.service.ts\<close>, \<open>session-revocation.service.ts\<close>,
    \<open>session-verification.query.ts\<close>, \<open>session-verifier.service.ts\<close>,
    \<open>refresh-token.cleanup.ts\<close>, \<open>utils/duration.ts\<close>. Token families, rotation and replay,
    revocation scopes, Redis markers, the verdict on an access token, the revocation outbox and the pruning of rows.
  \<^item> Call, CallProofs, CallClaims: \<open>call/call.service.ts\<close>. Starting, answering, declining,
    cancelling, leaving, media tokens, webhooks of the media server, the sweep of stale calls. The media server is a set of rooms:
    a room may fail to be made or be made too late, and the removal of a room may fail (\<open>stuck\<close>), which only leaves a warning.
  \<^item> CallRecord: \<open>emitCallRecordMessage\<close> of the same file, on ChatStore. Three attempts, as in the code.
  \<^item> Friend, FriendProofs, FriendClaims: \<open>friend/friend.service.ts\<close> and
    \<open>chat/standalone-group-policy-gate.ts\<close>. Requests, decisions, threads, blocks, reports, tags, lists.
  \<^item> FriendReplay, FriendReplayProofs, FriendReplayClaims: \<open>friend/friend-chat-replay-outbox.processor.ts\<close>.
    The outbox that copies the thread of an accepted request into the chat: claim, stages, progress, completion and
    failure, with any statement lost. Written as programs (\<open>prog\<close>) over friends, chat and jobs.
  \<^item> Calendar: \<open>addUtcCalendarMonths\<close> of \<open>membership/membership.catalog.ts\<close>, with the calendar it needs, the
    range of \<open>Date\<close> (beyond it an Invalid Date) and the reading of years 0 to 99 by \<open>Date.UTC\<close>. Moments before year 0 are not modelled.
  \<^item> SensitiveWord: \<open>sensitive-word/sensitive-word.matcher.ts\<close> and \<open>sensitive-word.service.ts\<close>. The trie, its
    search, the cached matcher with background reload and backoff.
  \<^item> FancyNumber: \<open>fancy-number/fancy-number.service.ts\<close> with its rules, \<open>changeAccountId\<close> of
    \<open>auth/auth.service.ts\<close>, the membership level, the codes of campaigns (\<open>admin-operations/admin-invite.service.ts\<close>), and
    the triggers of \<open>prisma/migrations\<close> that keep the registry of identifiers, those of the campaigns included. Inventory, leases, orders, identifiers and users in one state, with the coins of Coin. FancyProofs: the
    invariant \<open>fancy_inv\<close> over the tables seen as maps. FancySteps, FancyRuns, FancyAdmin: every statement, transaction
    and request keeps it. FancyPay: payments. FancyNames: what is registered. FancyClaims: the properties.
  \<^item> This theory: blocks and calls together.

  \<^bold>\<open>How the parts meet.\<close> Ended calls, gifts and accepted requests leave messages in the same
  conversations, through the idempotent writer of ChatStore; the friend service queues the latter as jobs and FriendReplay
  carries them out. The call service reads the friend and block tables
  (\<open>call_world_of\<close>). Session rows are written by RefreshTokens and read, with the Redis markers,
  by SessionVerify; SessionJobs carries database revocations to Redis and removes rows that no verdict needs. Fancy numbers are
  paid from the wallets and booked in the ledger of Coin, whose invariant the payments keep, and last for months of Calendar.

  \<^bold>\<open>What the lemmas show.\<close> For each component: the invariant of its tables under every
  operation and every history of operations (\<open>coin_inv\<close>, \<open>chat_inv\<close>,
  \<open>session_inv\<close>, \<open>call_inv\<close>, \<open>friend_inv\<close>, \<open>fancy_inv\<close>), the effect of each
  operation on its success and error branches, and the promises stated as properties: coins are neither created nor lost, a key pays
  once, a retired session stays refused (with one exception, stated with the property), a user is in one live call, an ended call leaves one record,
  a block cuts everything, message heights have no gaps, an account id has one owner and comes back when a lease ends, and so on. Each property follows a text with
  its identifier, and has a run on concrete data where it has hypotheses.

  \<^bold>\<open>Bounds and fuel.\<close> Loops are recursions on what bounds them in the code: the attempts
  left (TxRetry, CallRecord), the batches left or the rows left (SessionJobs), the rows of a batch. The sweep of due leases loops
  over pages without a bound in the code; it has fuel, and one round more than there are full pages of due leases is enough
  (\<open>sweep_leaves_nothing_due\<close>). Balances and ledger
  amounts are 4-byte integer columns whose overflow is an error of the statement; other counters are unbounded.

  \<^bold>\<open>What the model abstracts.\<close> Characters are code units below 256. Transactions that the code runs at
  the serializable level or under an advisory lock are atomic functions. Broadcasts, pushes, logging and metrics have no effect on the
  tables and are left out; only the failure to deliver a server message after its commit is modelled. Redis keys do not expire by themselves in SessionVerify.

  \<^bold>\<open>Not modelled.\<close> The interactive half of chat, circles and invitations, groups, membership grants,
  referral, recharge orders, notes, temporary chats and the account flows around the session core: each is a
  service of its own on further tables, and none is needed by the parts above except through the arguments named there.
  Realtime delivery, pushes, uploads, logging, metrics, configuration and the back office are input and output
  around these parts.
\<close>

section \<open>Friends and calls\<close>

text \<open>The friendships and blocks that the call service reads are the rows of the friend service.\<close>

definition call_world_of :: "friend_db \<Rightarrow> call_world \<Rightarrow> call_world" where
  "call_world_of db w = w\<lparr>w_friends := map (\<lambda>r. (fr_userID r, fr_friendID r, fr_state r)) (fd_friends db),
     w_blocks := map (\<lambda>x. (bk_blockerID x, bk_blockedID x)) (fd_blocks db)\<rparr>"

lemma blocked_between_sym: "blocked_between a b db = blocked_between b a db"
  by (auto simp: blocked_between_def list_ex_iff)

lemma either_blocked_of: "either_blocked a b (call_world_of db w) = blocked_between a b db"
  by (auto simp: either_blocked_def call_world_of_def blocked_between_def list_ex_iff)

lemma assertDirectCallee_blocked:
  "blocked_between a b db \<Longrightarrow> assertDirectCallee a b (call_world_of db w) = Inl NotFriend"
  by (simp add: assertDirectCallee_def either_blocked_of)

lemma blockUser_result:
  assumes "blockUser others now a b db = (Inr (), db')"
  shows "blocked_between a b db' \<and> (\<forall>r \<in> set (fd_friends db'). \<not> pair_is a b r)"
proof -
  obtain d where "block_tx now a b d = Inr db'"
    using assms by (auto simp: blockUser_def split: prod.splits sum.splits)
  then show ?thesis
    by (auto simp: block_tx_def Let_def delete_friend_rows_def blocked_between_def split: if_splits)
qed

lemma sendRequest_blocked:
  assumes "blocked_between (rq_senderId q) (rq_targetId q) db"
    and "\<And>k d. blocked_between (rq_senderId q) (rq_targetId q) d \<Longrightarrow> blocked_between (rq_senderId q) (rq_targetId q) (others k d)"
  shows "\<exists>e. fst (sendRequest others foreign now q db) = Inl e"
proof -
  have "\<exists>e. fst (guards (send_checks foreign q) others 0 db) = Inl e"
    by (rule guards_refuse [where P = "blocked_between (rq_senderId q) (rq_targetId q)"
          and g = "\<lambda>d. if blocked_between (rq_senderId q) (rq_targetId q) d then Inl BlockedCannotRequest else Inr ()"])
      (use assms in \<open>auto simp: send_checks_def Let_def\<close>)
  then show ?thesis by (auto simp: sendRequest_def split: prod.splits)
qed

text \<open>
  C10: A block cuts everything between two people. Once blocking succeeds, no friend row of the pair is left and both see the
  relation as blocked; as long as the block stands, a friend request in either direction is refused; a direct
  call in either direction is refused as between strangers, and neither gets a media token for a direct call
  with the other any more, even one they had been invited to or had joined.
\<close>

theorem block_cuts_everything:
  assumes "blockUser others now a b db = (Inr (), db')"
  shows "(\<forall>r \<in> set (fd_friends db'). \<not> pair_is a b r)
    \<and> getStatus a b db' = (FS_BLOCKED, None) \<and> getStatus b a db' = (FS_BLOCKED, None)
    \<and> assertDirectCallee a b (call_world_of db' w) = Inl NotFriend \<and> assertDirectCallee b a (call_world_of db' w) = Inl NotFriend
    \<and> (\<forall>v u up t. ca_sessionType (vw_call v) = SINGLE_SESSION_TYPE \<and> {u, ca_initiatorID (vw_call v)} \<subseteq> {a, b}
         \<and> cp_userID ` set (vw_participants v) = {a, b} \<longrightarrow> \<not> is_ok (mintToken up t v u (call_world_of db' w)))
    \<and> (\<forall>q others' foreign t. {rq_senderId q, rq_targetId q} = {a, b}
         \<and> (\<forall>k d. blocked_between a b d \<longrightarrow> blocked_between a b (others' k d))
         \<longrightarrow> \<not> is_ok (fst (sendRequest others' foreign t q db')))"
proof (intro conjI allI impI)
  note res = blockUser_result [OF assms]
  have ab: "blocked_between a b db'" "blocked_between b a db'" using res blocked_between_sym [of b a db'] by auto
  show "\<forall>r \<in> set (fd_friends db'). \<not> pair_is a b r" using res by blast
  show "getStatus a b db' = (FS_BLOCKED, None)" "getStatus b a db' = (FS_BLOCKED, None)"
    using ab by (simp_all add: getStatus_def)
  show "assertDirectCallee a b (call_world_of db' w) = Inl NotFriend" "assertDirectCallee b a (call_world_of db' w) = Inl NotFriend"
    using ab by (simp_all add: assertDirectCallee_blocked)
  fix v :: call_view and u up t
  assume v: "ca_sessionType (vw_call v) = SINGLE_SESSION_TYPE \<and> {u, ca_initiatorID (vw_call v)} \<subseteq> {a, b}
         \<and> cp_userID ` set (vw_participants v) = {a, b}"
  show "\<not> is_ok (mintToken up t v u (call_world_of db' w))"
  proof
    assume "is_ok (mintToken up t v u (call_world_of db' w))"
    then have "may_join t v u (call_world_of db' w)" using mintToken_ok by (auto simp: is_ok_iff)
    then show False
      using v ab by (auto simp: may_join_def SINGLE_SESSION_TYPE_def GROUP_SESSION_TYPE_def either_blocked_of)
  qed
next
  fix q :: friend_request and others' :: friend_others and foreign t
  assume q: "{rq_senderId q, rq_targetId q} = {a, b} \<and> (\<forall>k d. blocked_between a b d \<longrightarrow> blocked_between a b (others' k d))"
  then have eq: "blocked_between (rq_senderId q) (rq_targetId q) d = blocked_between a b d" for d
    using blocked_between_sym by (auto simp: doubleton_eq_iff)
  have "\<exists>e. fst (sendRequest others' foreign t q db') = Inl e"
    by (rule sendRequest_blocked) (use q blockUser_result [OF assms] in \<open>auto simp: eq\<close>)
  then show "\<not> is_ok (fst (sendRequest others' foreign t q db'))" by auto
qed

lemma demo_block: "fst (blockUser calm 6 ''a'' ''b'' demo_people) = Inr ()"
  by (simp add: block_defs calm_def demo_people_def user_active_def delete_where_def Let_def)

theorem block_cuts_everything_witness:
  "getStatus ''b'' ''a'' (snd (blockUser calm 6 ''a'' ''b'' demo_people)) = (FS_BLOCKED, None)
   \<and> assertDirectCallee ''b'' ''a'' (call_world_of (snd (blockUser calm 6 ''a'' ''b'' demo_people)) demo_world) = Inl NotFriend"
proof -
  have "blockUser calm 6 ''a'' ''b'' demo_people = (Inr (), snd (blockUser calm 6 ''a'' ''b'' demo_people))"
    using demo_block by (simp add: prod_eq_iff)
  from block_cuts_everything [OF this, of demo_world] show ?thesis by simp
qed

end
